(* ===== verification/Prelude.thy ===== *)
theory Prelude
  imports Main "HOL-Library.AList" "HOL-Library.Sublist"
begin

text \<open>
  What every component shares: Python's exceptions as a datatype, the state-and-exception
  programs the services are written in, insertion-ordered dictionaries, and a few list
  operations of the standard library.

  \<^item> A call that may raise is a function \<open>'s \<Rightarrow> (exn + 'a) \<times> 's\<close>: \<open>Inl\<close> is the exception,
    \<open>Inr\<close> the returned value, and the second component is the state the call leaves behind,
    also when it raises (a Python exception does not undo assignments already made).
  \<^item> A dictionary is an association list in insertion order. \<^verbatim>\<open>d[k] = v\<close> is
    \<^const>\<open>AList.update\<close>: it keeps the position of a key that is present and appends a new
    one, as CPython does.
  \<^item> A point in time is an \<open>int\<close> (microseconds since the epoch, UTC). Wherever the code
    calls \<open>now()\<close>, \<open>new_id()\<close> or \<open>token_urlsafe()\<close>, the model takes the value as an argument.
\<close>

section \<open>Exceptions\<close>

text \<open>
  The exceptions the modelled code raises. A \<open>DomainError\<close> carries its stable code and HTTP
  status; the human-readable message is not modelled.
\<close>

datatype exn =
    DomainError string nat
  | StateTransitionError
  | ValueError string
  | JournalError string
  | RuntimeProtectionError string
  | RegionResolutionError
  | CheckpointError string
  | ArtifactError string
  | IntegrationConflict
  | ChangeSetRejected string
  | CanonicalWriteRejected
  | RuntimeError string
  | EventStreamError string
  | KeyError
  | TypeError
  | OverflowError
  | OSError
  | AttributeError
  | IndexError
  | SystemExit
  | HTTPStatusError int
  | ProviderCallError string bool "int option"

text \<open>\<open>except ValueError\<close> also catches its subclasses.\<close>

fun is_value_error :: "exn \<Rightarrow> bool" where
  "is_value_error (ValueError _) = True"
| "is_value_error StateTransitionError = True"
| "is_value_error RegionResolutionError = True"
| "is_value_error (EventStreamError _) = True"
| "is_value_error _ = False"

type_synonym 'a res = "exn + 'a"
type_synonym time = int

definition bind_res :: "'a res \<Rightarrow> ('a \<Rightarrow> 'b res) \<Rightarrow> 'b res" where
  "bind_res r f = (case r of Inl e \<Rightarrow> Inl e | Inr x \<Rightarrow> f x)"

lemma bind_res_simps [simp]: "bind_res (Inl e) f = Inl e" "bind_res (Inr x) f = f x"
  by (simp_all add: bind_res_def)

lemma bind_res_Inr: "bind_res r f = Inr y \<longleftrightarrow> (\<exists>x. r = Inr x \<and> f x = Inr y)"
  by (cases r) simp_all

section \<open>Programs: state and exceptions\<close>

type_synonym ('s, 'a) prog = "'s \<Rightarrow> (exn + 'a) \<times> 's"

named_theorems prog_simps \<open>unfolding of the program combinators\<close>

definition ret :: "'a \<Rightarrow> ('s, 'a) prog" where
  "ret x = (\<lambda>s. (Inr x, s))"

definition raise_exn :: "exn \<Rightarrow> ('s, 'a) prog" where
  "raise_exn e = (\<lambda>s. (Inl e, s))"

definition bind :: "('s, 'a) prog \<Rightarrow> ('a \<Rightarrow> ('s, 'b) prog) \<Rightarrow> ('s, 'b) prog" where
  "bind m f = (\<lambda>s. case m s of (Inl e, t) \<Rightarrow> (Inl e, t) | (Inr x, t) \<Rightarrow> f x t)"

definition andthen :: "('s, 'a) prog \<Rightarrow> ('s, 'b) prog \<Rightarrow> ('s, 'b) prog" where
  "andthen m n = bind m (\<lambda>_. n)"

definition get :: "('s \<Rightarrow> 'a) \<Rightarrow> ('s, 'a) prog" where
  "get f = (\<lambda>s. (Inr (f s), s))"

definition modify :: "('s \<Rightarrow> 's) \<Rightarrow> ('s, unit) prog" where
  "modify f = (\<lambda>s. (Inr (), f s))"

definition lift :: "'a res \<Rightarrow> ('s, 'a) prog" where
  "lift r = (\<lambda>s. (r, s))"

text \<open>\<open>raise_when b e\<close> is \<^verbatim>\<open>if b: raise e\<close>.\<close>

definition raise_when :: "bool \<Rightarrow> exn \<Rightarrow> ('s, unit) prog" where
  "raise_when b e = (\<lambda>s. (if b then Inl e else Inr (), s))"

text \<open>\<open>rewrap p e m\<close> is \<^verbatim>\<open>try: m except E as err: raise e from err\<close>, for the class \<open>p\<close>.\<close>

definition rewrap :: "(exn \<Rightarrow> bool) \<Rightarrow> exn \<Rightarrow> ('s, 'a) prog \<Rightarrow> ('s, 'a) prog" where
  "rewrap p e m =
     (\<lambda>s. case m s of (Inl x, t) \<Rightarrow> (Inl (if p x then e else x), t) | (Inr v, t) \<Rightarrow> (Inr v, t))"

text \<open>\<open>catch_all m h\<close> is \<^verbatim>\<open>try: m except Exception: h\<close>.\<close>

definition catch_all :: "('s, 'a) prog \<Rightarrow> (exn \<Rightarrow> ('s, 'a) prog) \<Rightarrow> ('s, 'a) prog" where
  "catch_all m h = (\<lambda>s. case m s of (Inl e, t) \<Rightarrow> h e t | (Inr x, t) \<Rightarrow> (Inr x, t))"

text \<open>A finally clause that does not raise.\<close>

definition ensuring :: "('s, 'a) prog \<Rightarrow> ('s \<Rightarrow> 's) \<Rightarrow> ('s, 'a) prog" where
  "ensuring m f = (\<lambda>s. case m s of (r, t) \<Rightarrow> (r, f t))"

text \<open>A \<^verbatim>\<open>for\<close> loop over a list fixed before the loop starts.\<close>

fun for_each :: "'a list \<Rightarrow> ('a \<Rightarrow> ('s, unit) prog) \<Rightarrow> ('s, unit) prog" where
  "for_each [] f = ret ()"
| "for_each (x # xs) f = andthen (f x) (for_each xs f)"

lemma ret_run [simp, prog_simps]: "ret x s = (Inr x, s)"
  by (simp add: ret_def)

lemma raise_run [simp, prog_simps]: "raise_exn e s = (Inl e, s)"
  by (simp add: raise_exn_def)

lemma get_run [simp, prog_simps]: "get f s = (Inr (f s), s)"
  by (simp add: get_def)

lemma modify_run [simp, prog_simps]: "modify f s = (Inr (), f s)"
  by (simp add: modify_def)

lemma lift_run [simp, prog_simps]: "lift r s = (r, s)"
  by (simp add: lift_def)

lemma raise_when_run [simp, prog_simps]:
  "raise_when b e s = (if b then Inl e else Inr (), s)"
  by (simp add: raise_when_def)

lemma bind_Inl: "m s = (Inl e, t) \<Longrightarrow> bind m f s = (Inl e, t)"
  by (simp add: bind_def)

lemma bind_Inr: "m s = (Inr x, t) \<Longrightarrow> bind m f s = f x t"
  by (simp add: bind_def)

text \<open>The simplifier runs a program whose steps are known.\<close>

lemma bind_ret [simp]: "bind (ret x) f = f x"
  by (simp add: bind_def fun_eq_iff)

lemma bind_raise [simp]: "bind (raise_exn e) f = raise_exn e"
  by (simp add: bind_def fun_eq_iff)

lemma bind_get [simp]: "bind (get g) f s = f (g s) s"
  by (simp add: bind_def)

lemma bind_modify [simp]: "bind (modify g) f s = f () (g s)"
  by (simp add: bind_def)

lemma bind_lift_Inr [simp]: "bind (lift (Inr x)) f = f x"
  by (simp add: bind_def fun_eq_iff)

lemma bind_lift_Inl [simp]: "bind (lift (Inl e)) f = raise_exn e"
  by (simp add: bind_def fun_eq_iff)

lemma rewrap_lift [simp]:
  "rewrap p e (lift r) = lift (case r of Inl x \<Rightarrow> Inl (if p x then e else x) | Inr v \<Rightarrow> Inr v)"
  by (auto simp: rewrap_def lift_def fun_eq_iff split: sum.split)

lemma andthen_lift [simp]:
  "andthen (lift (Inr x)) m = m" "andthen (lift (Inl e)) m = raise_exn e"
  by (simp_all add: andthen_def)

lemma andthen_raise_when [simp]:
  "andthen (raise_when b e) m s = (if b then (Inl e, s) else m s)"
  by (simp add: andthen_def bind_def)

lemma andthen_modify [simp]: "andthen (modify g) m s = m (g s)"
  by (simp add: andthen_def)

lemma bind_eq_Inr [prog_simps]:
  "bind m f s = (Inr y, t) \<longleftrightarrow> (\<exists>x u. m s = (Inr x, u) \<and> f x u = (Inr y, t))"
  by (auto simp: bind_def split: prod.splits sum.splits)

lemma andthen_eq_Inr [prog_simps]:
  "andthen m n s = (Inr y, t) \<longleftrightarrow> (\<exists>x u. m s = (Inr x, u) \<and> n u = (Inr y, t))"
  by (simp add: andthen_def bind_eq_Inr)

text \<open>Elimination, one step of a program that returned at a time.\<close>

lemma bind_InrE:
  assumes "bind m f s = (Inr y, t)"
  obtains x u where "m s = (Inr x, u)" and "f x u = (Inr y, t)"
  using assms unfolding bind_eq_Inr by blast

lemma andthen_InrE:
  assumes "andthen m n s = (Inr y, t)"
  obtains x u where "m s = (Inr x, u)" and "n u = (Inr y, t)"
  using assms unfolding andthen_eq_Inr by blast

lemma rewrap_eq_Inr [prog_simps]: "rewrap p e m s = (Inr y, t) \<longleftrightarrow> m s = (Inr y, t)"
  by (auto simp: rewrap_def split: prod.splits sum.splits)

text \<open>
  \<open>keeps P m\<close>: whatever the outcome, running \<open>m\<close> keeps \<open>P\<close>. The rules follow the shape of the
  program, so that an invariant is proved step by step.
\<close>

definition keeps :: "('s \<Rightarrow> bool) \<Rightarrow> ('s, 'a) prog \<Rightarrow> bool" where
  "keeps P m \<longleftrightarrow> (\<forall>s. P s \<longrightarrow> P (snd (m s)))"

named_theorems keeps_intros \<open>introduction rules for keeps\<close>

lemma keepsI: "(\<And>s r t. P s \<Longrightarrow> m s = (r, t) \<Longrightarrow> P t) \<Longrightarrow> keeps P m"
  by (simp add: keeps_def) (metis prod.collapse)

lemma keepsD: "keeps P m \<Longrightarrow> P s \<Longrightarrow> m s = (r, t) \<Longrightarrow> P t"
  by (auto simp: keeps_def)

lemma keeps_ret [keeps_intros]: "keeps P (ret x)"
  and keeps_raise [keeps_intros]: "keeps P (raise_exn e)"
  and keeps_get [keeps_intros]: "keeps P (get f)"
  and keeps_lift [keeps_intros]: "keeps P (lift r)"
  and keeps_raise_when [keeps_intros]: "keeps P (raise_when b e)"
  by (simp_all add: keeps_def)

lemma keeps_bind [keeps_intros]:
  "keeps P m \<Longrightarrow> (\<And>x. keeps P (f x)) \<Longrightarrow> keeps P (bind m f)"
  by (fastforce simp: keeps_def bind_def split: prod.split sum.split)

lemma keeps_andthen [keeps_intros]:
  "keeps P m \<Longrightarrow> keeps P n \<Longrightarrow> keeps P (andthen m n)"
  by (simp add: andthen_def keeps_bind)

lemma keeps_rewrap [keeps_intros]: "keeps P m \<Longrightarrow> keeps P (rewrap p e m)"
  by (fastforce simp: keeps_def rewrap_def split: prod.split sum.split)

lemma keeps_catch_all [keeps_intros]:
  "keeps P m \<Longrightarrow> (\<And>e. keeps P (h e)) \<Longrightarrow> keeps P (catch_all m h)"
  by (fastforce simp: keeps_def catch_all_def split: prod.split sum.split)

lemma keeps_ensuring [keeps_intros]:
  "keeps P m \<Longrightarrow> (\<And>s. P s \<Longrightarrow> P (f s)) \<Longrightarrow> keeps P (ensuring m f)"
  by (auto simp: keeps_def ensuring_def split: prod.split)

lemma keeps_if [keeps_intros]:
  "(b \<Longrightarrow> keeps P m) \<Longrightarrow> (\<not> b \<Longrightarrow> keeps P n) \<Longrightarrow> keeps P (if b then m else n)"
  by simp

lemma keeps_case_option [keeps_intros]:
  "(x = None \<Longrightarrow> keeps P m) \<Longrightarrow> (\<And>y. x = Some y \<Longrightarrow> keeps P (f y)) \<Longrightarrow>
     keeps P (case x of None \<Rightarrow> m | Some y \<Rightarrow> f y)"
  by (cases x) auto

lemma keeps_for_each [keeps_intros]:
  "(\<And>x. x \<in> set xs \<Longrightarrow> keeps P (f x)) \<Longrightarrow> keeps P (for_each xs f)"
  by (induction xs) (auto intro: keeps_intros)

section \<open>Insertion-ordered dictionaries\<close>

type_synonym ('k, 'v) dict = "('k \<times> 'v) list"

abbreviation dget :: "('k, 'v) dict \<Rightarrow> 'k \<Rightarrow> 'v option" where
  "dget d k \<equiv> map_of d k"

abbreviation dput :: "'k \<Rightarrow> 'v \<Rightarrow> ('k, 'v) dict \<Rightarrow> ('k, 'v) dict" where
  "dput k v d \<equiv> AList.update k v d"

abbreviation dpop :: "'k \<Rightarrow> ('k, 'v) dict \<Rightarrow> ('k, 'v) dict" where
  "dpop k d \<equiv> AList.delete k d"

abbreviation dkeys :: "('k, 'v) dict \<Rightarrow> 'k list" where
  "dkeys d \<equiv> map fst d"

abbreviation dvalues :: "('k, 'v) dict \<Rightarrow> 'v list" where
  "dvalues d \<equiv> map snd d"

text \<open>Every dictionary of the program has distinct keys; \<open>dput\<close> and \<open>dpop\<close> keep that.\<close>

abbreviation dwf :: "('k, 'v) dict \<Rightarrow> bool" where
  "dwf d \<equiv> distinct (dkeys d)"

lemma dget_dput [simp]: "dget (dput k v d) k' = (if k' = k then Some v else dget d k')"
  by (simp add: update_conv')

lemma dget_dpop [simp]: "dget (dpop k d) k' = (if k' = k then None else dget d k')"
  by (simp add: delete_conv')

lemma dwf_dput [simp]: "dwf d \<Longrightarrow> dwf (dput k v d)"
  by (rule distinct_update)

lemma dwf_dpop [simp]: "dwf d \<Longrightarrow> dwf (dpop k d)"
  by (rule distinct_delete)

lemma dput_fresh: "dget d k = None \<Longrightarrow> dput k v d = d @ [(k, v)]"
  by (induction d) (auto split: if_splits)

lemma dput_twice [simp]: "dput k v (dput k w d) = dput k v d"
  by (induction d) auto

lemma dput_same [simp]: "dget d k = Some v \<Longrightarrow> dput k v d = d"
  by (induction d) (auto split: if_splits)

lemma dget_value: "dget d k = Some v \<Longrightarrow> v \<in> set (dvalues d)"
  by (force dest: map_of_SomeD)

lemma dget_item: "dwf d \<Longrightarrow> (k, v) \<in> set d \<Longrightarrow> dget d k = Some v"
  by simp

lemma dvalue_dget: "dwf d \<Longrightarrow> v \<in> set (dvalues d) \<longleftrightarrow> (\<exists>k. dget d k = Some v)"
  by (auto simp: image_iff) (force dest: map_of_SomeD)+

lemma dkeys_dput: "dget d k = Some w \<Longrightarrow> dkeys (dput k v d) = dkeys d"
  by (induction d) (auto split: if_splits)

lemma set_dput_subset: "set (dput k v d) \<subseteq> insert (k, v) (set d)"
  by (induction d) auto

lemma dvalues_dput_subset: "set (dvalues (dput k v d)) \<subseteq> insert v (set (dvalues d))"
  by (induction d) auto

lemma dvalues_dput_mono:
  "w \<in> set (dvalues d) \<Longrightarrow> dwf d \<Longrightarrow> dget d k \<noteq> Some w \<Longrightarrow> w \<in> set (dvalues (dput k v d))"
  by (induction d) (auto split: if_splits)

text \<open>Every value is stored under its own identifier.\<close>

definition keyed :: "('v \<Rightarrow> 'k) \<Rightarrow> ('k, 'v) dict \<Rightarrow> bool" where
  "keyed f d \<longleftrightarrow> (\<forall>k v. dget d k = Some v \<longrightarrow> f v = k)"

lemma keyed_Nil [simp]: "keyed f []"
  by (simp add: keyed_def)

lemma keyed_dput [simp]: "keyed f d \<Longrightarrow> f v = k \<Longrightarrow> keyed f (dput k v d)"
  by (simp add: keyed_def)

lemma keyedD: "keyed f d \<Longrightarrow> dget d k = Some v \<Longrightarrow> f v = k"
  by (simp add: keyed_def)

lemma keyed_values:
  assumes "dwf d" and "keyed f d" and "v \<in> set (dvalues d)"
  shows "dget d (f v) = Some v"
proof -
  from assms(1,3) obtain k where "dget d k = Some v" using dvalue_dget by metis
  with assms(2) show ?thesis using keyedD [of f d k v] by simp
qed

lemma keyed_ids:
  assumes "dwf d" and "keyed f d"
  shows "map f (dvalues d) = dkeys d"
proof -
  have "f v = k" if "(k, v) \<in> set d" for k v
    using that assms by (intro keyedD [OF assms(2)]) simp
  then show ?thesis by auto
qed

text \<open>
  Replacing the value of a key leaves the other values in place; if the new value passes a
  filter only where the old one did, with the same image, the filtered images lose at most that
  one.
\<close>

lemma filter_dput_subseq:
  "dget d k = Some w \<Longrightarrow> dwf d \<Longrightarrow> (p v \<Longrightarrow> p w \<and> g v = g w) \<Longrightarrow>
     subseq (map g (filter p (dvalues (dput k v d)))) (map g (filter p (dvalues d)))"
  by (induction d) (auto split: if_splits)

lemma sorted_wrt_subseq: "subseq xs ys \<Longrightarrow> sorted_wrt P ys \<Longrightarrow> sorted_wrt P xs"
proof (induction rule: list_emb.induct)
  case (list_emb_Cons2 x y xs ys)
  then show ?case by (auto dest: list_emb_set)
qed auto

lemma sorted_wrt_related:
  "sorted_wrt P xs \<Longrightarrow> x \<in> set xs \<Longrightarrow> y \<in> set xs \<Longrightarrow> x \<noteq> y \<Longrightarrow> P x y \<or> P y x"
  by (induction xs) auto

section \<open>Standard-library operations on lists and strings\<close>

text \<open>\<open>str.rstrip("/")\<close> and \<open>str.startswith\<close>.\<close>

definition rstrip_slash :: "string \<Rightarrow> string" where
  "rstrip_slash s = rev (dropWhile (\<lambda>c. c = CHR ''/'') (rev s))"

abbreviation startswith :: "string \<Rightarrow> string \<Rightarrow> bool" where
  "startswith s p \<equiv> prefix p s"

lemma rstrip_slash_idem [simp]: "rstrip_slash (rstrip_slash s) = rstrip_slash s"
  by (simp add: rstrip_slash_def dropWhile_idem)

lemma rstrip_slash_Nil [simp]: "rstrip_slash [] = []"
  by (simp add: rstrip_slash_def)

text \<open>\<open>tuple(dict.fromkeys(xs))\<close>: first occurrences, in order.\<close>

fun fromkeys_acc :: "'a list \<Rightarrow> 'a list \<Rightarrow> 'a list" where
  "fromkeys_acc seen [] = []"
| "fromkeys_acc seen (x # xs) =
     (if x \<in> set seen then fromkeys_acc seen xs else x # fromkeys_acc (x # seen) xs)"

definition fromkeys :: "'a list \<Rightarrow> 'a list" where
  "fromkeys xs = fromkeys_acc [] xs"

lemma set_fromkeys_acc: "set (fromkeys_acc seen xs) = set xs - set seen"
  by (induction seen xs rule: fromkeys_acc.induct) auto

lemma distinct_fromkeys_acc: "distinct (fromkeys_acc seen xs)"
  by (induction seen xs rule: fromkeys_acc.induct) (auto simp: set_fromkeys_acc)

lemma set_fromkeys [simp]: "set (fromkeys xs) = set xs"
  by (simp add: fromkeys_def set_fromkeys_acc)

lemma distinct_fromkeys [simp]: "distinct (fromkeys xs)"
  by (simp add: fromkeys_def distinct_fromkeys_acc)

lemma fromkeys_Nil_iff [simp]: "fromkeys xs = [] \<longleftrightarrow> xs = []"
  by (metis set_empty set_fromkeys)

text \<open>
  \<open>min(xs, key=k)\<close> and \<open>max(xs, key=k)\<close> return the first least, respectively the first
  greatest, element; \<open>lt\<close> is the strict order on the keys.
\<close>

fun py_min :: "('a \<Rightarrow> 'a \<Rightarrow> bool) \<Rightarrow> 'a \<Rightarrow> 'a list \<Rightarrow> 'a" where
  "py_min lt m [] = m"
| "py_min lt m (x # xs) = py_min lt (if lt x m then x else m) xs"

definition py_max :: "('a \<Rightarrow> 'a \<Rightarrow> bool) \<Rightarrow> 'a \<Rightarrow> 'a list \<Rightarrow> 'a" where
  "py_max lt = py_min (\<lambda>x y. lt y x)"

lemma py_min_in: "py_min lt m xs \<in> insert m (set xs)"
  by (induction lt m xs rule: py_min.induct) auto

lemma py_min_least:
  assumes "\<And>x y z. lt x y \<Longrightarrow> lt y z \<Longrightarrow> lt x z" and "\<And>x. \<not> lt x x"
    and "\<And>x y z. \<not> lt x y \<Longrightarrow> lt x z \<Longrightarrow> lt y z"
  shows "x \<in> insert m (set xs) \<Longrightarrow> \<not> lt x (py_min lt m xs)"
proof (induction xs arbitrary: m x)
  case Nil
  then show ?case using assms(2) by simp
next
  case (Cons y ys)
  let ?m = "if lt y m then y else m"
  have m: "\<not> lt ?m (py_min lt ?m ys)" by (rule Cons.IH) simp
  show ?case
  proof (cases "x \<in> set ys")
    case True
    then show ?thesis using Cons.IH [of x ?m] by simp
  next
    case False
    with Cons.prems have "x = m \<or> x = y" by auto
    then have "\<not> lt x ?m" using assms(1,2) by auto
    with m show ?thesis using assms(1,3) by (metis py_min.simps(2))
  qed
qed

section \<open>Integers in texts\<close>

fun decimal :: "nat \<Rightarrow> string" where
  "decimal n = (if n < 10 then [char_of (48 + n)] else decimal (n div 10) @ [char_of (48 + n mod 10)])"

declare decimal.simps [simp del]

definition int_text :: "int \<Rightarrow> string" where
  "int_text k = (if k < 0 then ''-'' @ decimal (nat (- k)) else decimal (nat k))"

end
