(* ===== verification/Models.thy ===== *)
theory Models
  imports Complex_Main Prelude
begin

text \<open>
  The data of the program: every model class of \<^verbatim>\<open>domain/models.py\<close> and the value classes of
  \<^verbatim>\<open>ownership/boundaries.py\<close>, \<^verbatim>\<open>approvals/types.py\<close>, \<^verbatim>\<open>observability/usage.py\<close> and
  \<^verbatim>\<open>egress/models.py\<close>, with the field constraints as predicates \<open>wf_\<dots>\<close>.

  Enumerations are datatypes with the source's members, prefixed by the initials of the
  class; classes are records whose fields are prefixed the same way. A field with a default
  gets the default in the \<open>new_\<dots>\<close> constructor functions. Text is a \<open>string\<close> (one \<open>char\<close> per
  character of the source's text).
\<close>

section \<open>Enumerations of domain/models.py\<close>

datatype orchestration_mode = OM_off | OM_worker_only | OM_advisory | OM_automatic

datatype task_status =
    TS_draft | TS_planned | TS_queued | TS_running | TS_waiting_approval
  | TS_pause_requested | TS_cancel_requested | TS_paused | TS_completed | TS_partial
  | TS_blocked | TS_failed | TS_cancelled

datatype observation_status =
    OS_observed_pass | OS_observed_fail | OS_unobserved | OS_not_applicable

datatype review_status = RS_submitted | RS_accepted | RS_rejected

datatype verification_status = VS_passed | VS_blocked | VS_failed

datatype worker_attempt_status =
    WS_queued | WS_claimed | WS_running | WS_waiting_approval | WS_pause_requested
  | WS_cancel_requested | WS_paused | WS_succeeded | WS_partial | WS_blocked
  | WS_failed | WS_cancelled

datatype integration_attempt_status =
    IS_queued | IS_running | IS_integrated | IS_conflicted | IS_rejected

section \<open>Python values of an untyped field\<close>

text \<open>
  \<^verbatim>\<open>selector_value: Any\<close> holds what JSON can hold. A float is an exact rational, a negative
  zero, an infinity or not-a-number. Two values have the same \<^verbatim>\<open>repr\<close> exactly when they are
  the same \<open>pyval\<close>.
\<close>

datatype pyfloat = Fin rat | NegZero | PInf | NInf | NaN

datatype pyval =
    VNone
  | VBool bool
  | VInt int
  | VFloat pyfloat
  | VStr string
  | VList "pyval list"
  | VDict "(string \<times> pyval) list"

section \<open>Records of domain/models.py\<close>

definition len_within :: "nat \<Rightarrow> nat \<Rightarrow> 'a list \<Rightarrow> bool" where
  "len_within lo hi xs \<longleftrightarrow> lo \<le> length xs \<and> length xs \<le> hi"

record execution_request =
  er_task_id :: string
  er_input_text :: string
  er_reasoning_effort :: string
  er_retries :: int

definition wf_execution_request :: "execution_request \<Rightarrow> bool" where
  "wf_execution_request r \<longleftrightarrow>
     len_within 1 200 (er_task_id r) \<and> len_within 1 100000 (er_input_text r) \<and>
     len_within 1 40 (er_reasoning_effort r) \<and> 0 \<le> er_retries r \<and> er_retries r \<le> 100"

record acceptance =
  ac_id :: string
  ac_description :: string
  ac_required :: bool

record workspace =
  ws_adapter_id :: string
  ws_canonical_uri :: string
  ws_base_revision :: string

record workspace_binding =
  wb_owner_id :: string
  wb_owner_workspace :: string
  wb_canonical_uri :: string
  wb_base_revision :: string

record budgets =
  bu_max_input_tokens :: "int option"
  bu_max_output_tokens :: "int option"
  bu_max_total_tokens :: "int option"
  bu_max_cost_usd :: "pyfloat option"
  bu_max_wall_time_seconds :: "pyfloat option"

record controller_session =
  cs_id :: string
  cs_version :: int
  cs_tenant_id :: string
  cs_host_session_id :: string
  cs_orchestration_mode :: orchestration_mode
  cs_active_controller_epoch_id :: "string option"
  cs_max_active_workers :: int
  cs_created_at :: time

definition wf_controller_session :: "controller_session \<Rightarrow> bool" where
  "wf_controller_session s \<longleftrightarrow> 0 \<le> cs_max_active_workers s \<and> cs_max_active_workers s \<le> 5"

datatype epoch_status = ES_active | ES_released

record controller_epoch =
  ce_id :: string
  ce_version :: int
  ce_controller_session_id :: string
  ce_provider_id :: string
  ce_model_id :: string
  ce_model_snapshot :: "string option"
  ce_reasoning_effort :: string
  ce_status :: epoch_status
  ce_activated_at :: time

datatype resource_kind = RK_file | RK_directory | RK_database | RK_external

datatype selector_type =
    ST_symbol | ST_ast_node | ST_path_prefix | ST_row_keys | ST_key_range | ST_partition
  | ST_json_pointer | ST_provider_subresource | ST_whole_resource

record resource_region =
  rr_resource_kind :: resource_kind
  rr_resource_id :: string
  rr_selector_type :: selector_type
  rr_selector_value :: pyval
  rr_base_revision :: string

definition wf_resource_region :: "resource_region \<Rightarrow> bool" where
  "wf_resource_region r \<longleftrightarrow>
     len_within 1 2000 (rr_resource_id r) \<and> len_within 1 512 (rr_base_revision r)"

datatype evidence_type =
  ET_test | ET_static_check | ET_live_check | ET_artifact | ET_human_confirmation

record evidence_record =
  ev_id :: string
  ev_requirement_id :: string
  ev_evidence_type :: evidence_type
  ev_observation_status :: observation_status
  ev_source :: string
  ev_artifact_ref :: "string option"
  ev_child_task_id :: "string option"
  ev_region :: "resource_region option"
  ev_recorded_at :: time

record owner_self_review =
  or_id :: string
  or_version :: int
  or_child_task_id :: string
  or_owner_agent_id :: string
  or_review_regions :: "resource_region list"
  or_evidence_ids :: "string list"
  or_summary :: string
  or_status :: review_status
  or_rejection_reason :: "string option"
  or_created_at :: time
  or_updated_at :: time

record verification_record =
  vr_id :: string
  vr_version :: int
  vr_child_task_id :: string
  vr_review_id :: string
  vr_verifier_agent_id :: string
  vr_evidence_ids :: "string list"
  vr_status :: verification_status
  vr_reasons :: "string list"
  vr_checked_regions :: "resource_region list"
  vr_created_at :: time
  vr_updated_at :: time

record parent_completion_evidence =
  pc_child_statuses :: "task_status list"
  pc_changes_integrated :: bool
  pc_parent_verification_passed :: bool

datatype request_type =
  RT_new_task | RT_material_amendment | RT_continuation | RT_clarification | RT_control

datatype data_classification =
  DC_public | DC_internal | DC_confidential | DC_restricted

record parent_task =
  pt_id :: string
  pt_version :: int
  pt_controller_session_id :: string
  pt_request_type :: request_type
  pt_goal :: string
  pt_acceptance_contract :: "acceptance list"
  pt_data_classification :: data_classification
  pt_workspace :: workspace
  pt_budgets :: budgets
  pt_status :: task_status
  pt_plan_id :: "string option"
  pt_child_task_ids :: "string list"
  pt_evidence :: "evidence_record list"
  pt_latest_checkpoint_id :: "string option"
  pt_created_at :: time
  pt_updated_at :: time

record worker_attempt =
  wa_id :: string
  wa_version :: int
  wa_worker_session_id :: string
  wa_child_task_id :: string
  wa_workspace :: "workspace_binding option"
  wa_provider_id :: "string option"
  wa_model_id :: "string option"
  wa_provider_request :: "execution_request option"
  wa_status :: worker_attempt_status
  wa_resumed_from_attempt_id :: "string option"
  wa_recovery_checkpoint_id :: "string option"
  wa_claim_token :: "string option"
  wa_claim_expires_at :: "time option"
  wa_checkpoint_id :: "string option"
  wa_checkpoint_safe_to_resume :: bool
  wa_created_at :: time
  wa_updated_at :: time

text \<open>\<^verbatim>\<open>WorkerAttempt(id=i, worker_session_id=w, child_task_id=c, workspace=b)\<close> at time \<open>t\<close>.\<close>

definition new_worker_attempt ::
    "string \<Rightarrow> string \<Rightarrow> string \<Rightarrow> workspace_binding option \<Rightarrow> time \<Rightarrow> worker_attempt" where
  "new_worker_attempt i w c b t =
     \<lparr>wa_id = i, wa_version = 1, wa_worker_session_id = w, wa_child_task_id = c,
      wa_workspace = b, wa_provider_id = None, wa_model_id = None,
      wa_provider_request = None, wa_status = WS_queued, wa_resumed_from_attempt_id = None,
      wa_recovery_checkpoint_id = None, wa_claim_token = None, wa_claim_expires_at = None,
      wa_checkpoint_id = None, wa_checkpoint_safe_to_resume = False,
      wa_created_at = t, wa_updated_at = t\<rparr>"

record worker_attempt_transition_conditions =
  tc_capacity_available :: bool
  tc_claim_token_valid :: bool
  tc_checkpoint_durable :: bool
  tc_execution_stopped :: bool

definition no_conditions :: worker_attempt_transition_conditions where
  "no_conditions =
     \<lparr>tc_capacity_available = False, tc_claim_token_valid = False,
      tc_checkpoint_durable = False, tc_execution_stopped = False\<rparr>"

text \<open>
  A proposal's write regions are raw JSON objects; they become regions when the plan is
  committed.
\<close>

record child_proposal =
  cp_client_ref :: string
  cp_objective :: string
  cp_depends_on :: "string list"
  cp_read_scope :: "string list"
  cp_write_regions :: "(string \<times> pyval) list list"
  cp_acceptance_contract :: "string list"
  cp_requested_model_profile :: string

record worker_plan_proposal =
  wp_expected_parent_version :: int
  wp_children :: "child_proposal list"
  wp_integration_order :: "string list"

definition wf_worker_plan_proposal :: "worker_plan_proposal \<Rightarrow> bool" where
  "wf_worker_plan_proposal p \<longleftrightarrow> 1 \<le> wp_expected_parent_version p \<and> length (wp_children p) \<le> 5"

datatype issue_severity = SV_error | SV_warning

record plan_validation_issue =
  pi_severity :: issue_severity
  pi_code :: string
  pi_child :: "nat option"
  pi_region :: "nat option"

record plan_validation_result =
  pv_valid :: bool
  pv_proposal_hash :: string
  pv_issues :: "plan_validation_issue list"
  pv_normalized_plan_id :: "string option"

record worker_plan =
  wl_id :: string
  wl_parent_task_id :: string
  wl_proposal_hash :: string
  wl_children :: "child_proposal list"
  wl_integration_order :: "string list"
  wl_version :: int

datatype lease_status = LS_active | LS_released | LS_expired | LS_revoked

record writer_lease =
  le_id :: string
  le_version :: int
  le_child_task_id :: string
  le_owner_agent_id :: string
  le_region :: resource_region
  le_status :: lease_status
  le_acquired_at :: time
  le_expires_at :: "time option"

record integration_attempt =
  ia_id :: string
  ia_version :: int
  ia_parent_task_id :: "string option"
  ia_client_ref :: string
  ia_order_index :: nat
  ia_owner_id :: "string option"
  ia_base_revision :: "string option"
  ia_status :: integration_attempt_status
  ia_code :: "string option"
  ia_message :: "string option"
  ia_revision :: "string option"
  ia_created_at :: time
  ia_updated_at :: time

section \<open>Ownership: ownership/boundaries.py\<close>

record child_task_boundary =
  cb_id :: string
  cb_parent_task_id :: string
  cb_objective :: string
  cb_write_regions :: "resource_region list"
  cb_version :: int

text \<open>\<^verbatim>\<open>write_regions_must_be_unique\<close>: the identities are the fields and the value's \<^verbatim>\<open>repr\<close>.\<close>

definition wf_child_task_boundary :: "child_task_boundary \<Rightarrow> bool" where
  "wf_child_task_boundary b \<longleftrightarrow>
     len_within 1 200 (cb_id b) \<and> len_within 1 200 (cb_parent_task_id b) \<and>
     len_within 1 4000 (cb_objective b) \<and> 1 \<le> cb_version b \<and>
     distinct (cb_write_regions b)"

datatype assignment_status = AS_active | AS_released

record owner_assignment =
  oa_child_task_id :: string
  oa_owner_agent_id :: string
  oa_write_regions :: "resource_region list"
  oa_version :: int
  oa_status :: assignment_status
  oa_assigned_at :: time
  oa_released_at :: "time option"

text \<open>The field constraints and \<^verbatim>\<open>valid_lifecycle\<close>.\<close>

definition wf_owner_assignment :: "owner_assignment \<Rightarrow> bool" where
  "wf_owner_assignment a \<longleftrightarrow>
     len_within 1 200 (oa_child_task_id a) \<and> len_within 1 200 (oa_owner_agent_id a) \<and>
     oa_write_regions a \<noteq> [] \<and> 1 \<le> oa_version a \<and>
     (case oa_status a of AS_active \<Rightarrow> oa_released_at a = None
                        | AS_released \<Rightarrow> oa_released_at a \<noteq> None)"

section \<open>Approvals: approvals/types.py\<close>

datatype approval_status = AP_pending | AP_approved | AP_rejected | AP_expired

datatype approval_decision = AD_approve | AD_reject

text \<open>
  A \<open>datetime\<close> with or without a time zone: an aware one is its instant, a naive one the
  wall-clock reading.
\<close>

datatype datetime = Aware time | Naive time

record approval =
  ap_id :: string
  ap_action_summary :: string
  ap_risk :: string
  ap_expires_at :: datetime
  ap_version :: int
  ap_allowed_decisions :: "approval_decision list"
  ap_status :: approval_status
  ap_decision :: "approval_decision option"
  ap_reason :: "string option"
  ap_decided_at :: "datetime option"

section \<open>Usage: observability/usage.py\<close>

datatype cost_status = CO_known | CO_unknown

record usage_record =
  us_id :: string
  us_task_id :: string
  us_provider_id :: string
  us_model_id :: string
  us_input_tokens :: "int option"
  us_cached_input_tokens :: "int option"
  us_output_tokens :: "int option"
  us_reasoning_tokens :: "int option"
  us_cost_status :: cost_status
  us_cost_usd :: "pyfloat option"
  us_latency_ms :: int
  us_retries :: int
  us_recorded_at :: time

section \<open>Egress: egress/models.py\<close>

record egress_record =
  eg_id :: string
  eg_task_id :: "string option"
  eg_child_task_id :: "string option"
  eg_source_provider :: string
  eg_target_provider :: string
  eg_data_classification :: string
  eg_fields :: "string list"
  eg_recorded_at :: time

text \<open>
  \<^verbatim>\<open>EgressRecord.model_validate\<close>: at most 200 fields. The answer of a handoff, its \<^verbatim>\<open>mode\<close> always
  \<^verbatim>\<open>read_only_handoff\<close>.
\<close>

definition wf_egress_record :: "egress_record \<Rightarrow> bool" where
  "wf_egress_record r \<longleftrightarrow> length (eg_fields r) \<le> 200"

record handoff_result =
  hr_attempt_id :: string
  hr_egress_id :: string
  hr_source_provider :: string
  hr_target_provider :: string
  hr_target_model :: string
  hr_data_classification :: string
  hr_fields :: "string list"
  hr_reason :: string

end
