(* ===== verification/StateMachine.thy ===== *)
theory StateMachine
  imports Models
begin

text \<open>
  \<^verbatim>\<open>domain/state_machine.py\<close>: the transition tables of parent tasks and worker attempts, the
  guarded transition functions, and the acceptance check a completion rests on. The tables are
  functions to the list of allowed targets; a status the table does not name has none.
\<close>

section \<open>Tables\<close>

definition TASK_TERMINAL :: "task_status list" where
  "TASK_TERMINAL = [TS_completed, TS_partial, TS_blocked, TS_failed, TS_cancelled]"

definition WORKER_ATTEMPT_TERMINAL :: "worker_attempt_status list" where
  "WORKER_ATTEMPT_TERMINAL = [WS_succeeded, WS_partial, WS_blocked, WS_failed, WS_cancelled]"

fun TASK_TRANSITIONS :: "task_status \<Rightarrow> task_status list" where
  "TASK_TRANSITIONS TS_draft = [TS_planned]"
| "TASK_TRANSITIONS TS_planned = [TS_queued]"
| "TASK_TRANSITIONS TS_queued = [TS_running]"
| "TASK_TRANSITIONS TS_running =
     [TS_waiting_approval, TS_pause_requested, TS_cancel_requested, TS_completed, TS_partial,
      TS_blocked, TS_failed]"
| "TASK_TRANSITIONS TS_waiting_approval = [TS_running, TS_cancelled, TS_blocked]"
| "TASK_TRANSITIONS TS_pause_requested = [TS_paused, TS_failed]"
| "TASK_TRANSITIONS TS_cancel_requested = [TS_cancelled, TS_failed]"
| "TASK_TRANSITIONS TS_paused = [TS_queued, TS_cancelled]"
| "TASK_TRANSITIONS _ = []"

fun WORKER_ATTEMPT_TRANSITIONS :: "worker_attempt_status \<Rightarrow> worker_attempt_status list" where
  "WORKER_ATTEMPT_TRANSITIONS WS_queued = [WS_claimed]"
| "WORKER_ATTEMPT_TRANSITIONS WS_claimed = [WS_running]"
| "WORKER_ATTEMPT_TRANSITIONS WS_running =
     [WS_waiting_approval, WS_pause_requested, WS_cancel_requested, WS_succeeded, WS_partial,
      WS_blocked, WS_failed]"
| "WORKER_ATTEMPT_TRANSITIONS WS_waiting_approval = [WS_running, WS_cancelled, WS_failed]"
| "WORKER_ATTEMPT_TRANSITIONS WS_pause_requested = [WS_paused, WS_failed]"
| "WORKER_ATTEMPT_TRANSITIONS WS_cancel_requested = [WS_cancelled, WS_failed]"
| "WORKER_ATTEMPT_TRANSITIONS WS_paused = [WS_queued, WS_cancelled]"
| "WORKER_ATTEMPT_TRANSITIONS _ = []"

section \<open>Checks\<close>

definition validate_expected_version :: "int \<Rightarrow> int \<Rightarrow> unit res" where
  "validate_expected_version actual expected =
     (if actual \<noteq> expected then Inl StateTransitionError else Inr ())"

definition validate_transition ::
    "'s \<Rightarrow> 's \<Rightarrow> ('s \<Rightarrow> 's list) \<Rightarrow> 's list \<Rightarrow> unit res" where
  "validate_transition current target transitions terminal =
     (if current \<in> set terminal then Inl StateTransitionError
      else if target \<notin> set (transitions current) then Inl StateTransitionError
      else Inr ())"

text \<open>
  The loop over \<^verbatim>\<open>task.evidence\<close>: the latest record of each requirement by \<^verbatim>\<open>recorded_at\<close>, a
  later record of the list winning a tie.
\<close>

definition note_latest ::
    "evidence_record \<Rightarrow> (string, evidence_record) dict \<Rightarrow> (string, evidence_record) dict" where
  "note_latest r latest =
     (case dget latest (ev_requirement_id r) of
        None \<Rightarrow> dput (ev_requirement_id r) r latest
      | Some p \<Rightarrow> if ev_recorded_at p \<le> ev_recorded_at r
                  then dput (ev_requirement_id r) r latest else latest)"

definition latest_evidence :: "evidence_record list \<Rightarrow> (string, evidence_record) dict" where
  "latest_evidence es = fold note_latest es []"

definition required_acceptance_is_satisfied :: "parent_task \<Rightarrow> bool" where
  "required_acceptance_is_satisfied t =
     (let latest = latest_evidence (pt_evidence t)
      in list_all (\<lambda>a. \<not> ac_required a \<or>
           (case dget latest (ac_id a) of
              None \<Rightarrow> False
            | Some r \<Rightarrow> ev_observation_status r \<in> {OS_observed_pass, OS_not_applicable}))
         (pt_acceptance_contract t))"

definition parent_completion_is_supported ::
    "parent_task \<Rightarrow> parent_completion_evidence option \<Rightarrow> bool" where
  "parent_completion_is_supported t evidence =
     (case evidence of
        None \<Rightarrow> False
      | Some e \<Rightarrow> required_acceptance_is_satisfied t \<and> pc_changes_integrated e \<and>
                  pc_parent_verification_passed e \<and>
                  list_all (\<lambda>s. s = TS_completed) (pc_child_statuses e))"

section \<open>Transitions\<close>

definition transition_task ::
    "parent_task \<Rightarrow> task_status \<Rightarrow> int \<Rightarrow> parent_completion_evidence option \<Rightarrow> time \<Rightarrow>
     parent_task res" where
  "transition_task t target expected_version completion_evidence now =
     (case validate_expected_version (pt_version t) expected_version of
        Inl e \<Rightarrow> Inl e
      | Inr _ \<Rightarrow>
     (case validate_transition (pt_status t) target TASK_TRANSITIONS TASK_TERMINAL of
        Inl e \<Rightarrow> Inl e
      | Inr _ \<Rightarrow>
        if target = TS_completed \<and> \<not> parent_completion_is_supported t completion_evidence
        then Inl StateTransitionError
        else Inr (t\<lparr>pt_status := target, pt_version := pt_version t + 1,
                    pt_updated_at := now\<rparr>)))"

definition transition_worker_attempt ::
    "worker_attempt \<Rightarrow> worker_attempt_status \<Rightarrow> int \<Rightarrow>
     worker_attempt_transition_conditions option \<Rightarrow> time \<Rightarrow> worker_attempt res" where
  "transition_worker_attempt a target expected_version conditions now =
     (case validate_expected_version (wa_version a) expected_version of
        Inl e \<Rightarrow> Inl e
      | Inr _ \<Rightarrow>
     (case validate_transition (wa_status a) target WORKER_ATTEMPT_TRANSITIONS
             WORKER_ATTEMPT_TERMINAL of
        Inl e \<Rightarrow> Inl e
      | Inr _ \<Rightarrow>
        let c = (case conditions of None \<Rightarrow> no_conditions | Some c \<Rightarrow> c) in
        if wa_status a = WS_queued \<and> target = WS_claimed \<and> \<not> tc_capacity_available c
        then Inl StateTransitionError
        else if wa_status a = WS_claimed \<and> target = WS_running \<and> \<not> tc_claim_token_valid c
        then Inl StateTransitionError
        else if wa_status a = WS_pause_requested \<and> target = WS_paused \<and>
                \<not> tc_checkpoint_durable c
        then Inl StateTransitionError
        else if wa_status a = WS_cancel_requested \<and> target = WS_cancelled \<and>
                \<not> tc_execution_stopped c
        then Inl StateTransitionError
        else Inr (a\<lparr>wa_status := target, wa_version := wa_version a + 1,
                    wa_updated_at := now\<rparr>)))"

section \<open>The latest observation of each requirement\<close>

lemma dget_note_latest:
  "dget (note_latest r m) k =
     (if k = ev_requirement_id r \<and>
         (case dget m k of None \<Rightarrow> True | Some p \<Rightarrow> ev_recorded_at p \<le> ev_recorded_at r)
      then Some r else dget m k)"
  by (auto simp: note_latest_def split: option.splits)

lemma dwf_note_latest: "dwf m \<Longrightarrow> dwf (note_latest r m)"
  by (auto simp: note_latest_def split: option.splits)

lemma latest_evidence_snoc: "latest_evidence (es @ [r]) = note_latest r (latest_evidence es)"
  by (simp add: latest_evidence_def)

lemma latest_evidence_Nil [simp]: "latest_evidence [] = []"
  by (simp add: latest_evidence_def)

lemma latest_evidence_None:
  "dget (latest_evidence es) k = None \<longleftrightarrow> (\<forall>r \<in> set es. ev_requirement_id r \<noteq> k)"
  by (induction es rule: rev_induct)
    (auto simp: latest_evidence_snoc dget_note_latest split: option.splits)

lemma latest_evidence_Some:
  "dget (latest_evidence es) k = Some r \<Longrightarrow>
     r \<in> set es \<and> ev_requirement_id r = k \<and>
     (\<forall>q \<in> set es. ev_requirement_id q = k \<longrightarrow> ev_recorded_at q \<le> ev_recorded_at r)"
proof (induction es arbitrary: r rule: rev_induct)
  case Nil
  then show ?case by simp
next
  case (snoc x es)
  show ?case
  proof (cases "dget (latest_evidence es) k")
    case None
    with snoc.prems have "r = x \<and> ev_requirement_id x = k"
      by (auto simp: latest_evidence_snoc dget_note_latest split: if_splits)
    with None show ?thesis by (auto simp: latest_evidence_None)
  next
    case (Some p)
    from snoc.IH [OF Some] snoc.prems Some show ?thesis
      by (fastforce simp: latest_evidence_snoc dget_note_latest split: if_splits)
  qed
qed

section \<open>One step\<close>

lemma transition_task_iff:
  "transition_task t target v ce now = Inr u \<longleftrightarrow>
     v = pt_version t \<and> target \<in> set (TASK_TRANSITIONS (pt_status t)) \<and>
     (target = TS_completed \<longrightarrow> parent_completion_is_supported t ce) \<and>
     u = t\<lparr>pt_status := target, pt_version := pt_version t + 1, pt_updated_at := now\<rparr>"
  by (cases "pt_status t")
    (auto simp: transition_task_def validate_expected_version_def validate_transition_def
      TASK_TERMINAL_def)

text \<open>
  What a target of the worker-attempt table asks of the caller, by the source and target status.
\<close>

definition worker_guard ::
    "worker_attempt_status \<Rightarrow> worker_attempt_status \<Rightarrow> worker_attempt_transition_conditions \<Rightarrow>
     bool" where
  "worker_guard s g c \<longleftrightarrow>
     (s = WS_queued \<and> g = WS_claimed \<longrightarrow> tc_capacity_available c) \<and>
     (s = WS_claimed \<and> g = WS_running \<longrightarrow> tc_claim_token_valid c) \<and>
     (s = WS_pause_requested \<and> g = WS_paused \<longrightarrow> tc_checkpoint_durable c) \<and>
     (s = WS_cancel_requested \<and> g = WS_cancelled \<longrightarrow> tc_execution_stopped c)"

lemma transition_worker_attempt_iff:
  "transition_worker_attempt a target v c now = Inr b \<longleftrightarrow>
     v = wa_version a \<and> target \<in> set (WORKER_ATTEMPT_TRANSITIONS (wa_status a)) \<and>
     worker_guard (wa_status a) target (case c of None \<Rightarrow> no_conditions | Some c \<Rightarrow> c) \<and>
     b = a\<lparr>wa_status := target, wa_version := wa_version a + 1, wa_updated_at := now\<rparr>"
  by (cases "wa_status a")
    (auto simp: transition_worker_attempt_def validate_expected_version_def
      validate_transition_def WORKER_ATTEMPT_TERMINAL_def worker_guard_def Let_def)

lemma terminal_no_transitions:
  "s \<in> set TASK_TERMINAL \<longleftrightarrow> TASK_TRANSITIONS s = []"
  by (cases s) (auto simp: TASK_TERMINAL_def)

lemma worker_terminal_no_transitions:
  "s \<in> set WORKER_ATTEMPT_TERMINAL \<longleftrightarrow> WORKER_ATTEMPT_TRANSITIONS s = []"
  by (cases s) (auto simp: WORKER_ATTEMPT_TERMINAL_def)

section \<open>Runs\<close>

text \<open>
  \<open>task_run t h u\<close>: successive successful transitions take \<open>t\<close> to \<open>u\<close>; \<open>h\<close> lists the statuses
  in the order they were entered.
\<close>

inductive task_run :: "parent_task \<Rightarrow> task_status list \<Rightarrow> parent_task \<Rightarrow> bool" where
  run_start: "task_run t [] t"
| run_step: "task_run t h u \<Longrightarrow> transition_task u g v ce now = Inr w \<Longrightarrow> task_run t (h @ [g]) w"

inductive worker_run :: "worker_attempt \<Rightarrow> worker_attempt_status list \<Rightarrow> worker_attempt \<Rightarrow> bool"
  where
  wrun_start: "worker_run a [] a"
| wrun_step: "worker_run a h b \<Longrightarrow> transition_worker_attempt b g v c now = Inr d \<Longrightarrow>
    worker_run a (h @ [g]) d"

lemma task_run_identity:
  "task_run t h u \<Longrightarrow>
     pt_id u = pt_id t \<and> pt_evidence u = pt_evidence t \<and>
     pt_acceptance_contract u = pt_acceptance_contract t \<and> pt_child_task_ids u = pt_child_task_ids t"
  by (induction rule: task_run.induct) (auto simp: transition_task_iff)

lemma task_run_version: "task_run t h u \<Longrightarrow> pt_version u = pt_version t + int (length h)"
  by (induction rule: task_run.induct) (auto simp: transition_task_iff)

lemma task_run_last: "task_run t h u \<Longrightarrow> pt_status u = last (pt_status t # h)"
  by (induction rule: task_run.induct) (auto simp: transition_task_iff)

text \<open>Which statuses a run must have entered before it can be in a given one, from a draft.\<close>

fun task_prefix :: "task_status \<Rightarrow> task_status list" where
  "task_prefix TS_draft = []"
| "task_prefix TS_planned = [TS_planned]"
| "task_prefix TS_queued = [TS_planned, TS_queued]"
| "task_prefix TS_running = [TS_planned, TS_queued, TS_running]"
| "task_prefix TS_paused = [TS_planned, TS_queued, TS_running, TS_pause_requested, TS_paused]"
| "task_prefix TS_cancelled = [TS_planned, TS_queued, TS_running]"
| "task_prefix s = [TS_planned, TS_queued, TS_running, s]"

lemma subseq_snocI: "subseq xs h \<Longrightarrow> subseq (xs @ [x]) (h @ [x])"
  by (simp add: list_emb_append_mono)

lemma subseq_keepI: "subseq xs h \<Longrightarrow> subseq xs (h @ [x])"
  by (meson list_emb_append2 prefix_def prefix_imp_subseq subseq_order.trans)

lemma task_prefix_step:
  assumes "subseq (task_prefix s) h" and "g \<in> set (TASK_TRANSITIONS s)"
  shows "subseq (task_prefix g) (h @ [g])"
proof -
  have snoc: "subseq (task_prefix s @ [g]) (h @ [g])"
    and keep: "subseq (task_prefix s) (h @ [g])"
    using assms(1) by (auto intro: subseq_snocI subseq_keepI)
  have "subseq (task_prefix g) (task_prefix s @ [g])"
    using assms(2) by (cases s) auto
  then show ?thesis using snoc by (rule subseq_order.trans)
qed

lemma task_run_prefix:
  "task_run t h u \<Longrightarrow> pt_status t = TS_draft \<Longrightarrow> subseq (task_prefix (pt_status u)) h"
proof (induction rule: task_run.induct)
  case (run_start t)
  then show ?case by simp
next
  case (run_step t h u g v ce now w)
  then have "subseq (task_prefix g) (h @ [g])"
    by (intro task_prefix_step [where s = "pt_status u"]) (auto simp: transition_task_iff)
  with run_step show ?case by (simp add: transition_task_iff)
qed

lemma worker_run_version: "worker_run a h b \<Longrightarrow> wa_version b = wa_version a + int (length h)"
  by (induction rule: worker_run.induct) (auto simp: transition_worker_attempt_iff)

text \<open>The same for worker attempts, from a queued attempt.\<close>

fun worker_prefix :: "worker_attempt_status \<Rightarrow> worker_attempt_status list" where
  "worker_prefix WS_queued = []"
| "worker_prefix WS_claimed = [WS_claimed]"
| "worker_prefix WS_running = [WS_claimed, WS_running]"
| "worker_prefix WS_paused = [WS_claimed, WS_running, WS_pause_requested, WS_paused]"
| "worker_prefix WS_cancelled = [WS_claimed, WS_running]"
| "worker_prefix s = [WS_claimed, WS_running, s]"

lemma worker_prefix_step:
  assumes "subseq (worker_prefix s) h" and "g \<in> set (WORKER_ATTEMPT_TRANSITIONS s)"
  shows "subseq (worker_prefix g) (h @ [g])"
proof -
  have snoc: "subseq (worker_prefix s @ [g]) (h @ [g])"
    using assms(1) by (rule subseq_snocI)
  have "subseq (worker_prefix g) (worker_prefix s @ [g])"
    using assms(2) by (cases s) auto
  then show ?thesis using snoc by (rule subseq_order.trans)
qed

lemma worker_run_prefix:
  "worker_run a h b \<Longrightarrow> wa_status a = WS_queued \<Longrightarrow> subseq (worker_prefix (wa_status b)) h"
proof (induction rule: worker_run.induct)
  case (wrun_start a)
  then show ?case by simp
next
  case (wrun_step a h b g v c now d)
  then have "subseq (worker_prefix g) (h @ [g])"
    by (intro worker_prefix_step [where s = "wa_status b"]) (auto simp: transition_worker_attempt_iff)
  with wrun_step show ?case by (simp add: transition_worker_attempt_iff)
qed

section \<open>What the state machines guarantee\<close>

text \<open>
  C10. No task completes on unsupported evidence: when \<^verbatim>\<open>transition_task\<close> completes a task, every
  required acceptance item has an observation recorded no earlier than any other for that item
  that passed or does not apply, and the completion evidence says that the changes are
  integrated, the parent verification passed and every child completed.
\<close>

theorem completion_is_supported:
  assumes "transition_task t TS_completed v ce now = Inr u"
  shows "(\<forall>a \<in> set (pt_acceptance_contract t). ac_required a \<longrightarrow>
      (\<exists>r \<in> set (pt_evidence t). ev_requirement_id r = ac_id a \<and>
         ev_observation_status r \<in> {OS_observed_pass, OS_not_applicable} \<and>
         (\<forall>q \<in> set (pt_evidence t). ev_requirement_id q = ac_id a \<longrightarrow>
            ev_recorded_at q \<le> ev_recorded_at r))) \<and>
    (\<exists>e. ce = Some e \<and> pc_changes_integrated e \<and> pc_parent_verification_passed e \<and>
         (\<forall>s \<in> set (pc_child_statuses e). s = TS_completed)) \<and>
    pt_status t = TS_running \<and> pt_status u = TS_completed \<and> pt_version u = pt_version t + 1"
proof -
  have sup: "parent_completion_is_supported t ce" using assms by (simp add: transition_task_iff)
  have from_run: "pt_status t = TS_running"
    using assms by (cases "pt_status t") (simp_all add: transition_task_iff)
  from sup have acc: "required_acceptance_is_satisfied t"
    by (simp add: parent_completion_is_supported_def split: option.splits)
  have "\<exists>r \<in> set (pt_evidence t). ev_requirement_id r = ac_id a \<and>
      ev_observation_status r \<in> {OS_observed_pass, OS_not_applicable} \<and>
      (\<forall>q \<in> set (pt_evidence t). ev_requirement_id q = ac_id a \<longrightarrow>
         ev_recorded_at q \<le> ev_recorded_at r)"
    if a: "a \<in> set (pt_acceptance_contract t)" "ac_required a" for a
  proof -
    from acc a obtain r where r: "dget (latest_evidence (pt_evidence t)) (ac_id a) = Some r"
      "ev_observation_status r \<in> {OS_observed_pass, OS_not_applicable}"
      by (auto simp: required_acceptance_is_satisfied_def Let_def list_all_iff split: option.splits)
    with latest_evidence_Some [OF r(1)] show ?thesis by blast
  qed
  with sup from_run assms show ?thesis
    by (auto simp: parent_completion_is_supported_def transition_task_iff list_all_iff
        split: option.splits)
qed

definition running_task :: parent_task where
  "running_task =
     \<lparr>pt_id = ''t'', pt_version = 4, pt_controller_session_id = ''s'', pt_request_type = RT_new_task,
      pt_goal = ''g'', pt_acceptance_contract = [\<lparr>ac_id = ''a'', ac_description = ''d'', ac_required = True\<rparr>],
      pt_data_classification = DC_internal,
      pt_workspace = \<lparr>ws_adapter_id = ''local'', ws_canonical_uri = ''/w'', ws_base_revision = ''r''\<rparr>,
      pt_budgets = \<lparr>bu_max_input_tokens = None, bu_max_output_tokens = None,
        bu_max_total_tokens = None, bu_max_cost_usd = None, bu_max_wall_time_seconds = None\<rparr>,
      pt_status = TS_running, pt_plan_id = None, pt_child_task_ids = [],
      pt_evidence = [\<lparr>ev_id = ''e'', ev_requirement_id = ''a'', ev_evidence_type = ET_test,
        ev_observation_status = OS_observed_pass, ev_source = ''ci'', ev_artifact_ref = None,
        ev_child_task_id = None, ev_region = None, ev_recorded_at = 1\<rparr>],
      pt_latest_checkpoint_id = None, pt_created_at = 0, pt_updated_at = 0\<rparr>"

definition full_support :: parent_completion_evidence where
  "full_support = \<lparr>pc_child_statuses = [TS_completed], pc_changes_integrated = True,
                   pc_parent_verification_passed = True\<rparr>"

lemma running_task_completes:
  "transition_task running_task TS_completed 4 (Some full_support) 9 =
     Inr (running_task\<lparr>pt_status := TS_completed, pt_version := 5, pt_updated_at := 9\<rparr>)"
  by (simp add: transition_task_iff running_task_def full_support_def parent_completion_is_supported_def
      required_acceptance_is_satisfied_def latest_evidence_def note_latest_def)

lemma completion_is_supported_witness:
  "pt_status running_task = TS_running \<and> (\<exists>e. Some full_support = Some e \<and> pc_changes_integrated e)"
  using completion_is_supported [OF running_task_completes] by blast

text \<open>
  C11. A task moves through its life cycle in order: whatever transitions are attempted, a task
  that started as a draft has entered planned, queued and running, in this order, before any
  later status; its version counts the transitions; and once terminal no transition succeeds.
\<close>

theorem task_life_cycle:
  assumes "task_run t h u" and "pt_status t = TS_draft"
  shows "subseq (task_prefix (pt_status u)) h \<and> pt_status u = last (TS_draft # h) \<and>
    pt_version u = pt_version t + int (length h) \<and>
    (pt_status u \<in> set TASK_TERMINAL \<longrightarrow> (\<forall>g v ce now. \<exists>e. transition_task u g v ce now = Inl e))"
proof -
  have "\<exists>e. transition_task u g v ce now = Inl e" if "pt_status u \<in> set TASK_TERMINAL" for g v ce now
    using that transition_task_iff [of u g v ce now]
    by (cases "transition_task u g v ce now") (auto simp: terminal_no_transitions)
  then show ?thesis
    using assms task_run_prefix task_run_version task_run_last by (metis (no_types, lifting))
qed

lemma task_life_cycle_witness:
  "\<exists>u. task_run (running_task\<lparr>pt_status := TS_draft\<rparr>) [TS_planned] u \<and>
     subseq (task_prefix (pt_status u)) [TS_planned]"
proof -
  let ?t = "running_task\<lparr>pt_status := TS_draft\<rparr>"
  have "task_run ?t ([] @ [TS_planned])
      (?t\<lparr>pt_status := TS_planned, pt_version := pt_version ?t + 1, pt_updated_at := 0\<rparr>)"
    by (rule task_run.run_step [OF task_run.run_start, of _ _ "pt_version ?t" None 0])
      (simp add: transition_task_iff)
  then have run: "task_run ?t [TS_planned]
      (?t\<lparr>pt_status := TS_planned, pt_version := pt_version ?t + 1, pt_updated_at := 0\<rparr>)" by simp
  from task_life_cycle [OF run] run show ?thesis by (intro exI conjI) auto
qed

text \<open>
  An attempt reports success only after it was claimed and run: every attempt that started
  queued has entered claimed and running before any later status, each step met the condition
  its source and target ask (capacity, a valid claim token, a durable checkpoint, a stopped
  execution), and a terminal attempt stays as it is.
\<close>

theorem worker_life_cycle:
  assumes "worker_run a h b" and "wa_status a = WS_queued"
  shows "subseq (worker_prefix (wa_status b)) h \<and> wa_version b = wa_version a + int (length h) \<and>
    (\<forall>g v c now d. transition_worker_attempt b g v c now = Inr d \<longrightarrow>
       wa_status b \<notin> set WORKER_ATTEMPT_TERMINAL \<and> v = wa_version b \<and>
       worker_guard (wa_status b) g (case c of None \<Rightarrow> no_conditions | Some c \<Rightarrow> c))"
  using worker_run_prefix [OF assms] worker_run_version [OF assms(1)]
  by (auto simp: transition_worker_attempt_iff worker_terminal_no_transitions)

lemma worker_life_cycle_witness:
  "subseq (worker_prefix WS_queued) []"
  using worker_life_cycle [OF worker_run.wrun_start, of "new_worker_attempt ''a'' ''w'' ''c'' None 0"]
  by (simp add: new_worker_attempt_def)

end
