(* ===== verification/InstanceLock.thy ===== *)
theory InstanceLock
  imports Prelude
begin

text \<open>
  \<^verbatim>\<open>InstanceLock\<close> of \<^verbatim>\<open>storage/journal.py\<close>: one process at a time has the journal of a directory.

  The world holds the lock objects of all processes, the class variable \<^verbatim>\<open>_held_paths\<close> of each process, and the locks
  of the operating system, which belong to the open file of an object. \<^verbatim>\<open>acquire\<close> and \<^verbatim>\<open>release\<close> run between their system calls
  interleaved with those of other threads and processes, so that an object carries the place its thread has reached. A call of the
  operating system may fail at any place; a process may end at any time, which closes its files.
\<close>

section \<open>The steps of acquire and release\<close>

datatype lock_place =
    Idle        \<comment> \<open>no file, before \<^verbatim>\<open>acquire\<close> or after \<^verbatim>\<open>release\<close>\<close>
  | Guarded     \<comment> \<open>the path is added to \<^verbatim>\<open>_held_paths\<close>\<close>
  | Opened      \<comment> \<open>the file is open\<close>
  | Locked      \<comment> \<open>the operating system has locked the file\<close>
  | Active      \<comment> \<open>\<^verbatim>\<open>acquire\<close> has returned\<close>
  | Unlocking   \<comment> \<open>in \<^verbatim>\<open>release\<close> with a file, before the unlock\<close>
  | Closing     \<comment> \<open>before the close of the file\<close>
  | Discarding  \<comment> \<open>before the path is taken from \<^verbatim>\<open>_held_paths\<close>\<close>

record lock_object =
  lo_process :: nat
  lo_path :: string
  lo_place :: lock_place

record lock_world =
  lw_objects :: "(nat, lock_object) dict"
  lw_held :: "(nat \<times> string) list"
  lw_os_locks :: "(string, nat) dict"

definition place_at :: "nat \<Rightarrow> lock_object \<Rightarrow> lock_place \<Rightarrow> lock_world \<Rightarrow> lock_world" where
  "place_at i x p w = w\<lparr>lw_objects := dput i (x\<lparr>lo_place := p\<rparr>) (lw_objects w)\<rparr>"

definition os_unlock :: "nat \<Rightarrow> string \<Rightarrow> lock_world \<Rightarrow> lock_world" where
  "os_unlock i path w = (if dget (lw_os_locks w) path = Some i then w\<lparr>lw_os_locks := dpop path (lw_os_locks w)\<rparr> else w)"

text \<open>The next step of an object; \<open>ok\<close> tells whether the call of the operating system in it succeeds.\<close>

definition lock_advance :: "bool \<Rightarrow> nat \<Rightarrow> lock_world \<Rightarrow> lock_world" where
  "lock_advance ok i w =
     (case dget (lw_objects w) i of
        None \<Rightarrow> w
      | Some x \<Rightarrow>
     (case lo_place x of
        Idle \<Rightarrow>
          if (lo_process x, lo_path x) \<in> set (lw_held w) then w
          else place_at i x Guarded (w\<lparr>lw_held := (lo_process x, lo_path x) # lw_held w\<rparr>)
      | Guarded \<Rightarrow> place_at i x (if ok then Opened else Discarding) w
      | Opened \<Rightarrow>
          if ok \<and> dget (lw_os_locks w) (lo_path x) = None
          then place_at i x Locked (w\<lparr>lw_os_locks := dput (lo_path x) i (lw_os_locks w)\<rparr>)
          else place_at i x Unlocking w
      | Locked \<Rightarrow> place_at i x (if ok then Active else Unlocking) w
      | Active \<Rightarrow> place_at i x Unlocking w
      | Unlocking \<Rightarrow> place_at i x Closing (if ok then os_unlock i (lo_path x) w else w)
      | Closing \<Rightarrow> place_at i x Discarding (os_unlock i (lo_path x) w)
      | Discarding \<Rightarrow> place_at i x Idle (w\<lparr>lw_held := removeAll (lo_process x, lo_path x) (lw_held w)\<rparr>)))"

text \<open>A call of \<^verbatim>\<open>release\<close> on an object without a file, as by a second \<^verbatim>\<open>close\<close> of a journal.\<close>

definition release_idle :: "nat \<Rightarrow> lock_world \<Rightarrow> lock_world" where
  "release_idle i w =
     (case dget (lw_objects w) i of
        None \<Rightarrow> w
      | Some x \<Rightarrow> if lo_place x = Idle then place_at i x Discarding w else w)"

definition new_lock :: "nat \<Rightarrow> nat \<Rightarrow> string \<Rightarrow> lock_world \<Rightarrow> lock_world" where
  "new_lock i p path w =
     (if i \<in> set (dkeys (lw_objects w)) then w
      else w\<lparr>lw_objects := dput i \<lparr>lo_process = p, lo_path = path, lo_place = Idle\<rparr> (lw_objects w)\<rparr>)"

text \<open>The end of a process: its objects and its held paths are gone, and its files are closed.\<close>

definition belongs_to :: "nat \<Rightarrow> lock_world \<Rightarrow> nat \<Rightarrow> bool" where
  "belongs_to p w i \<longleftrightarrow> (case dget (lw_objects w) i of None \<Rightarrow> False | Some x \<Rightarrow> lo_process x = p)"

definition process_ends :: "nat \<Rightarrow> lock_world \<Rightarrow> lock_world" where
  "process_ends p w =
     w\<lparr>lw_objects := filter (\<lambda>(i, _). \<not> belongs_to p w i) (lw_objects w),
       lw_held := filter (\<lambda>(q, path). q \<noteq> p) (lw_held w),
       lw_os_locks := filter (\<lambda>(path, _). case dget (lw_os_locks w) path of None \<Rightarrow> True | Some i \<Rightarrow> \<not> belongs_to p w i) (lw_os_locks w)\<rparr>"

definition no_locks :: lock_world where
  "no_locks = \<lparr>lw_objects = [], lw_held = [], lw_os_locks = []\<rparr>"

inductive lock_reachable :: "lock_world \<Rightarrow> bool" where
  start: "lock_reachable no_locks"
| advance: "lock_reachable w \<Longrightarrow> lock_reachable (lock_advance ok i w)"
| release: "lock_reachable w \<Longrightarrow> lock_reachable (release_idle i w)"
| create: "lock_reachable w \<Longrightarrow> lock_reachable (new_lock i p path w)"
| process_end: "lock_reachable w \<Longrightarrow> lock_reachable (process_ends p w)"


section \<open>One instance at a time\<close>

definition lock_owned :: "lock_world \<Rightarrow> bool" where
  "lock_owned w \<longleftrightarrow>
     (\<forall>i x. dget (lw_objects w) i = Some x \<longrightarrow> lo_place x \<in> {Locked, Active} \<longrightarrow> dget (lw_os_locks w) (lo_path x) = Some i) \<and>
     (\<forall>path i. dget (lw_os_locks w) path = Some i \<longrightarrow>
        (\<exists>x. dget (lw_objects w) i = Some x \<and> lo_path x = path \<and> lo_place x \<in> {Locked, Active, Unlocking, Closing}))"

lemma dget_keep: "dget (filter (\<lambda>(k, _). P k) d) k = (if P k then dget d k else None)"
  by (induction d) auto

lemma lock_ownedD:
  "lock_owned w \<Longrightarrow> dget (lw_objects w) i = Some x \<Longrightarrow> lo_place x \<in> {Locked, Active} \<Longrightarrow> dget (lw_os_locks w) (lo_path x) = Some i"
  "lock_owned w \<Longrightarrow> dget (lw_os_locks w) path = Some i \<Longrightarrow>
     \<exists>x. dget (lw_objects w) i = Some x \<and> lo_path x = path \<and> lo_place x \<in> {Locked, Active, Unlocking, Closing}"
  by (auto simp: lock_owned_def)

lemma place_at_simps [simp]:
  "dget (lw_objects (place_at i x p w)) j = (if j = i then Some (x\<lparr>lo_place := p\<rparr>) else dget (lw_objects w) j)"
  "lw_os_locks (place_at i x p w) = lw_os_locks w" "lw_held (place_at i x p w) = lw_held w"
  by (simp_all add: place_at_def)

lemma os_unlock_simps [simp]:
  "lw_objects (os_unlock i path w) = lw_objects w" "lw_held (os_unlock i path w) = lw_held w"
  "dget (lw_os_locks (os_unlock i path w)) q = (if q = path \<and> dget (lw_os_locks w) path = Some i then None else dget (lw_os_locks w) q)"
  by (simp_all add: os_unlock_def)

lemma owned_step:
  assumes "lock_owned w" and x: "dget (lw_objects w) i = Some x"
    and v: "lw_objects v = dput i (x\<lparr>lo_place := p\<rparr>) (lw_objects w)"
    and "p \<in> {Locked, Active} \<Longrightarrow> dget (lw_os_locks v) (lo_path x) = Some i"
    and other: "\<And>q j. j \<noteq> i \<Longrightarrow> dget (lw_os_locks v) q = Some j \<longleftrightarrow> dget (lw_os_locks w) q = Some j"
    and own: "\<And>q. dget (lw_os_locks v) q = Some i \<Longrightarrow> q = lo_path x \<and> p \<in> {Locked, Active, Unlocking, Closing}"
  shows "lock_owned v"
  unfolding lock_owned_def
proof (intro conjI allI impI)
  fix j y assume y: "dget (lw_objects v) j = Some y" "lo_place y \<in> {Locked, Active}"
  show "dget (lw_os_locks v) (lo_path y) = Some j"
  proof (cases "j = i")
    case True
    then show ?thesis using y assms(4) by (simp add: v split: if_splits) auto
  next
    case False
    then show ?thesis using y lock_ownedD(1) [OF assms(1)] other by (simp add: v)
  qed
next
  fix path j assume l: "dget (lw_os_locks v) path = Some j"
  show "\<exists>y. dget (lw_objects v) j = Some y \<and> lo_path y = path \<and> lo_place y \<in> {Locked, Active, Unlocking, Closing}"
  proof (cases "j = i")
    case True
    then show ?thesis using own l by (simp add: v)
  next
    case False
    then show ?thesis using lock_ownedD(2) [OF assms(1)] other l by (simp add: v)
  qed
qed

definition keeps_file :: "lock_place set" where
  "keeps_file = {Locked, Active, Unlocking, Closing}"

lemma place_owned:
  assumes "lock_owned w" and "dget (lw_objects w) i = Some x"
    and "p \<in> {Locked, Active} \<Longrightarrow> lo_place x \<in> {Locked, Active}" and "p \<in> keeps_file \<or> lo_place x \<notin> keeps_file"
  shows "lock_owned (place_at i x p w)"
proof (rule owned_step [OF assms(1,2)])
  show "dget (lw_os_locks (place_at i x p w)) (lo_path x) = Some i" if "p \<in> {Locked, Active}"
    using lock_ownedD(1) [OF assms(1,2) assms(3) [OF that]] by simp
  show "q = lo_path x \<and> p \<in> {Locked, Active, Unlocking, Closing}" if "dget (lw_os_locks (place_at i x p w)) q = Some i" for q
  proof -
    have "dget (lw_os_locks w) q = Some i" using that by simp
    from lock_ownedD(2) [OF assms(1) this] obtain y where "dget (lw_objects w) i = Some y" "lo_path y = q" "lo_place y \<in> keeps_file"
      unfolding keeps_file_def by (elim exE conjE)
    with assms(2,4) have "q = lo_path x" "p \<in> keeps_file" by auto
    then show ?thesis by (simp add: keeps_file_def)
  qed
qed (simp_all add: place_at_def)

lemma held_owned [simp]: "lock_owned (w\<lparr>lw_held := h\<rparr>) \<longleftrightarrow> lock_owned w"
  by (simp add: lock_owned_def)

lemma place_at_held: "place_at i x p (w\<lparr>lw_held := h\<rparr>) = (place_at i x p w)\<lparr>lw_held := h\<rparr>"
  by (simp add: place_at_def)

lemma lock_owned_taken:
  assumes "lock_owned w" and "dget (lw_objects w) i = Some x" and "lo_place x = Opened" and "dget (lw_os_locks w) (lo_path x) = None"
  shows "lock_owned (place_at i x Locked (w\<lparr>lw_os_locks := dput (lo_path x) i (lw_os_locks w)\<rparr>))" (is "lock_owned ?v")
proof (rule owned_step [OF assms(1,2)])
  show "q = lo_path x \<and> Locked \<in> {Locked, Active, Unlocking, Closing}" if "dget (lw_os_locks ?v) q = Some i" for q
    using lock_ownedD(2) [OF assms(1), of q i] that assms(2,3) by (auto split: if_splits)
qed (use assms(4) in \<open>auto simp: place_at_def\<close>)

lemma os_unlock_owned:
  assumes "lock_owned w" and "dget (lw_objects w) i = Some x" and "lo_place x \<in> {Unlocking, Closing}"
  shows "lock_owned (os_unlock i (lo_path x) w)" and "dget (lw_os_locks (os_unlock i (lo_path x) w)) q \<noteq> Some i"
proof -
  show none: "dget (lw_os_locks (os_unlock i (lo_path x) w)) q \<noteq> Some i" for q
    using lock_ownedD(2) [OF assms(1), of q i] assms(2) by auto
  show "lock_owned (os_unlock i (lo_path x) w)" unfolding lock_owned_def
  proof (intro conjI allI impI)
    fix k y assume k: "dget (lw_objects (os_unlock i (lo_path x) w)) k = Some y" "lo_place y \<in> {Locked, Active}"
    then have "k \<noteq> i" using assms(2,3) by auto
    then show "dget (lw_os_locks (os_unlock i (lo_path x) w)) (lo_path y) = Some k"
      using lock_ownedD(1) [OF assms(1), of k y] k by auto
  next
    fix path k assume "dget (lw_os_locks (os_unlock i (lo_path x) w)) path = Some k"
    then have "dget (lw_os_locks w) path = Some k" by (simp split: if_splits)
    from lock_ownedD(2) [OF assms(1) this]
    show "\<exists>y. dget (lw_objects (os_unlock i (lo_path x) w)) k = Some y \<and> lo_path y = path \<and> lo_place y \<in> {Locked, Active, Unlocking, Closing}"
      by simp
  qed
qed

lemma closed_owned:
  assumes "lock_owned w" and "dget (lw_objects w) i = Some x" and "lo_place x = Closing"
  shows "lock_owned (place_at i x Discarding (os_unlock i (lo_path x) w))"
proof (rule owned_step [OF os_unlock_owned(1) [OF assms(1,2)]])
  show "q = lo_path x \<and> Discarding \<in> {Locked, Active, Unlocking, Closing}"
    if "dget (lw_os_locks (place_at i x Discarding (os_unlock i (lo_path x) w))) q = Some i" for q
    using os_unlock_owned(2) [OF assms(1,2), of q] that assms(3) by simp
qed (use assms in \<open>simp_all add: place_at_def\<close>)

lemma advance_owned:
  assumes "lock_owned w"
  shows "lock_owned (lock_advance ok i w)"
proof (cases "dget (lw_objects w) i")
  case (Some x)
  note place = place_owned [OF assms Some]
  show ?thesis
  proof (cases "lo_place x")
    case Opened
    show ?thesis
    proof (cases "ok \<and> dget (lw_os_locks w) (lo_path x) = None")
      case True
      then show ?thesis using lock_owned_taken [OF assms Some Opened] Opened by (simp add: lock_advance_def Some)
    next
      case False
      then show ?thesis using place [of Unlocking] Opened by (auto simp: lock_advance_def Some keeps_file_def)
    qed
  next
    case Unlocking
    have "lock_owned (place_at i x Closing (os_unlock i (lo_path x) w))"
      by (rule place_owned [OF os_unlock_owned(1) [OF assms Some]]) (simp_all add: Unlocking Some keeps_file_def)
    then show ?thesis using Unlocking place [of Closing] by (cases ok) (simp_all add: lock_advance_def Some keeps_file_def)
  next
    case Closing
    then show ?thesis using closed_owned [OF assms Some Closing] by (simp add: lock_advance_def Some)
  qed (use assms place in \<open>auto simp: lock_advance_def Some keeps_file_def place_at_held\<close>)
qed (use assms in \<open>simp add: lock_advance_def\<close>)

lemma reachable_owned: "lock_reachable w \<Longrightarrow> lock_owned w"
proof (induction rule: lock_reachable.induct)
  case start
  then show ?case by (simp add: lock_owned_def no_locks_def)
next
  case (advance w ok i)
  show ?case by (rule advance_owned [OF advance.IH])
next
  case (release w i)
  then show ?case
    by (fastforce simp: release_idle_def lock_owned_def split: option.splits)
next
  case (create w i p path)
  have "i \<notin> set (dkeys (lw_objects w)) \<longleftrightarrow> dget (lw_objects w) i = None" by (simp add: map_of_eq_None_iff image_iff)
  with create.IH show ?case by (fastforce simp: new_lock_def lock_owned_def)
next
  case (process_end w p)
  have belongs: "belongs_to p w i \<longleftrightarrow> (\<exists>x. dget (lw_objects w) i = Some x \<and> lo_process x = p)" for i
    by (simp add: belongs_to_def split: option.split)
  show ?case using process_end.IH
    by (fastforce simp: process_ends_def lock_owned_def dget_keep belongs split: if_splits option.splits)
qed


text \<open>\<open>n\<close> steps of one object, while every call of the operating system succeeds and nothing else moves.\<close>

fun alone :: "nat \<Rightarrow> nat \<Rightarrow> lock_world \<Rightarrow> lock_world" where
  "alone 0 i w = w"
| "alone (Suc n) i w = alone n i (lock_advance True i w)"

definition holds_lock :: "lock_world \<Rightarrow> nat \<Rightarrow> string \<Rightarrow> bool" where
  "holds_lock w i path \<longleftrightarrow> (\<exists>x. dget (lw_objects w) i = Some x \<and> lo_path x = path \<and> lo_place x = Active)"

definition waits_for :: "lock_world \<Rightarrow> nat \<Rightarrow> nat \<Rightarrow> string \<Rightarrow> bool" where
  "waits_for w i p path \<longleftrightarrow>
     dget (lw_objects w) i = Some \<lparr>lo_process = p, lo_path = path, lo_place = Idle\<rparr> \<and> (p, path) \<notin> set (lw_held w)"

lemma alone_reachable: "lock_reachable w \<Longrightarrow> lock_reachable (alone n i w)"
  by (induction n arbitrary: w) (simp_all add: lock_reachable.advance)

lemma acquire_free:
  assumes "waits_for w i p path" and "dget (lw_os_locks w) path = None"
  shows "holds_lock (alone 4 i w) i path"
  using assms by (simp add: waits_for_def holds_lock_def numeral_eq_Suc lock_advance_def place_at_def)

lemma acquire_refused:
  assumes "waits_for w i p path" and "dget (lw_os_locks w) path = Some j" and "j \<noteq> i"
  shows "alone 6 i w = w"
proof -
  let ?x = "\<lparr>lo_process = p, lo_path = path, lo_place = Idle\<rparr>"
  have "dput i ?x (lw_objects w) = lw_objects w" using assms(1) by (simp add: waits_for_def)
  moreover have "removeAll (p, path) (lw_held w) = lw_held w" using assms(1) by (simp add: waits_for_def)
  ultimately show ?thesis using assms
    by (simp add: waits_for_def numeral_eq_Suc lock_advance_def place_at_def os_unlock_def)
qed



end
