(* ===== verification/PyValues.thy ===== *)
theory PyValues
  imports Models
begin

text \<open>
  Python equality, order and \<^verbatim>\<open>float()\<close> on untyped values.

  Two built-ins whose value is a matter of number formatting are parameters: \<open>bi_str\<close>, the
  \<^verbatim>\<open>str()\<close> of a value that is not a text, and \<open>bi_float\<close>, the \<^verbatim>\<open>float()\<close> of a text or of an
  integer beyond 53 bits. No law is assumed of them.
\<close>

section \<open>Python numbers and equality\<close>

fun num_of :: "pyval \<Rightarrow> pyfloat option" where
  "num_of (VBool b) = Some (Fin (if b then 1 else 0))"
| "num_of (VInt i) = Some (Fin (of_int i))"
| "num_of (VFloat f) = Some (if f = NegZero then Fin 0 else f)"
| "num_of _ = None"

fun pf_le :: "pyfloat \<Rightarrow> pyfloat \<Rightarrow> bool" where
  "pf_le NaN _ = False"
| "pf_le _ NaN = False"
| "pf_le NInf _ = True"
| "pf_le _ PInf = True"
| "pf_le PInf _ = False"
| "pf_le _ NInf = False"
| "pf_le (Fin x) (Fin y) = (x \<le> y)"
| "pf_le (Fin x) NegZero = (x \<le> 0)"
| "pf_le NegZero (Fin y) = (0 \<le> y)"
| "pf_le NegZero NegZero = True"

definition pf_lt :: "pyfloat \<Rightarrow> pyfloat \<Rightarrow> bool" where
  "pf_lt x y \<longleftrightarrow> pf_le x y \<and> \<not> pf_le y x"

text \<open>\<^verbatim>\<open>max(x, y)\<close> and \<^verbatim>\<open>min(x, y)\<close> keep the first argument unless the second is strictly beyond.\<close>

definition pf_max :: "pyfloat \<Rightarrow> pyfloat \<Rightarrow> pyfloat" where
  "pf_max x y = (if pf_lt x y then y else x)"

definition pf_min :: "pyfloat \<Rightarrow> pyfloat \<Rightarrow> pyfloat" where
  "pf_min x y = (if pf_lt y x then y else x)"

text \<open>
  \<^verbatim>\<open>==\<close>: numbers by value whatever their type, lists by position, dictionaries by key; a
  not-a-number equals nothing.
\<close>

fun py_eq :: "pyval \<Rightarrow> pyval \<Rightarrow> bool"
  and py_eq_list :: "pyval list \<Rightarrow> pyval list \<Rightarrow> bool"
  and py_eq_items :: "(string \<times> pyval) list \<Rightarrow> (string \<times> pyval) list \<Rightarrow> bool" where
  "py_eq (VList xs) w = (case w of VList ys \<Rightarrow> py_eq_list xs ys | _ \<Rightarrow> False)"
| "py_eq (VDict xs) w =
     (case w of VDict ys \<Rightarrow> length xs = length ys \<and> py_eq_items xs ys | _ \<Rightarrow> False)"
| "py_eq (VStr s) w = (w = VStr s)"
| "py_eq VNone w = (w = VNone)"
| "py_eq v w = (case (num_of v, num_of w) of
       (Some x, Some y) \<Rightarrow> pf_le x y \<and> pf_le y x
     | _ \<Rightarrow> False)"
| "py_eq_list [] ys = (ys = [])"
| "py_eq_list (x # xs) ys = (case ys of [] \<Rightarrow> False | y # ys' \<Rightarrow> py_eq x y \<and> py_eq_list xs ys')"
| "py_eq_items [] ys = True"
| "py_eq_items (kv # xs) ys =
     ((case map_of ys (fst kv) of None \<Rightarrow> False | Some w \<Rightarrow> py_eq (snd kv) w) \<and>
      py_eq_items xs ys)"

datatype float_res = FloatOk pyfloat | FloatBad | FloatOverflow

record builtins =
  bi_str :: "pyval \<Rightarrow> string"
  bi_float :: "pyval \<Rightarrow> float_res"

definition py_str :: "builtins \<Rightarrow> pyval \<Rightarrow> string" where
  "py_str B v = (case v of VStr s \<Rightarrow> s | _ \<Rightarrow> bi_str B v)"

definition py_float :: "builtins \<Rightarrow> pyval \<Rightarrow> float_res" where
  "py_float B v =
     (case v of
        VFloat f \<Rightarrow> FloatOk f
      | VBool b \<Rightarrow> FloatOk (Fin (if b then 1 else 0))
      | VInt i \<Rightarrow> if \<bar>i\<bar> \<le> 2 ^ 53 then FloatOk (Fin (of_int i)) else bi_float B v
      | VStr _ \<Rightarrow> bi_float B v
      | _ \<Rightarrow> FloatBad)"

section \<open>Lemmas on values\<close>

text \<open>A value without a not-a-number and with distinct dictionary keys at every level.\<close>

fun sane :: "pyval \<Rightarrow> bool"
  and sane_list :: "pyval list \<Rightarrow> bool"
  and sane_items :: "(string \<times> pyval) list \<Rightarrow> bool" where
  "sane (VFloat f) = (f \<noteq> NaN)"
| "sane (VList xs) = sane_list xs"
| "sane (VDict xs) = (distinct (map fst xs) \<and> sane_items xs)"
| "sane _ = True"
| "sane_list [] = True"
| "sane_list (x # xs) = (sane x \<and> sane_list xs)"
| "sane_items [] = True"
| "sane_items (kv # xs) = (sane (snd kv) \<and> sane_items xs)"

lemma pf_le_trans: "pf_le x y \<Longrightarrow> pf_le y z \<Longrightarrow> pf_le x z"
  by (cases x; cases y; cases z) auto

lemma pf_le_refl [simp]: "pf_le x x \<longleftrightarrow> x \<noteq> NaN"
  by (cases x) auto

lemma pf_le_total: "x \<noteq> NaN \<Longrightarrow> y \<noteq> NaN \<Longrightarrow> pf_le x y \<or> pf_le y x"
  by (cases x; cases y) auto

lemma pf_le_NaN [simp]: "\<not> pf_le x NaN" "\<not> pf_le NaN x"
  by (cases x; simp)+

lemma num_eq_iff:
  "py_eq v w \<longleftrightarrow> (case (num_of v, num_of w) of
       (Some x, Some y) \<Rightarrow> pf_le x y \<and> pf_le y x | _ \<Rightarrow> False)"
  if "num_of v \<noteq> None"
  using that by (cases v) auto

lemma py_eq_num_right: "py_eq v w \<Longrightarrow> num_of v = None \<longleftrightarrow> num_of w = None"
  by (cases v; cases w) (auto split: option.splits)

lemma py_eq_items_iff:
  "py_eq_items xs ys \<longleftrightarrow> (\<forall>(k, v) \<in> set xs. \<exists>w. map_of ys k = Some w \<and> py_eq v w)"
  by (induction xs) (auto split: option.splits)

lemma py_eq_refl_all:
  shows "sane v \<Longrightarrow> py_eq v v"
    and "sane_list xs \<Longrightarrow> py_eq_list xs xs"
    and "sane_items ps \<Longrightarrow> \<forall>kv \<in> set ps. py_eq (snd kv) (snd kv)"
  by (induction v and xs and ps rule: sane_sane_list_sane_items.induct)
    (auto simp: py_eq_items_iff, force)

lemmas py_eq_refl = py_eq_refl_all(1)

lemma py_eq_trans_num:
  assumes "num_of u \<noteq> None" and "py_eq u v" and "py_eq v w"
  shows "py_eq u w"
proof -
  from assms(1) obtain x where x: "num_of u = Some x" by auto
  with assms(2) obtain y where y: "num_of v = Some y" "pf_le x y" "pf_le y x"
    by (auto simp: num_eq_iff split: option.splits)
  with assms(3) obtain z where "num_of w = Some z" "pf_le y z" "pf_le z y"
    by (auto simp: num_eq_iff split: option.splits)
  with x y show ?thesis by (auto simp: num_eq_iff intro: pf_le_trans)
qed

lemma py_eq_trans_all:
  shows "py_eq u v \<Longrightarrow> py_eq v w \<Longrightarrow> py_eq u w"
    and "py_eq_list us vs \<Longrightarrow> py_eq_list vs ws \<Longrightarrow> py_eq_list us ws"
    and "py_eq_items ps qs \<Longrightarrow> py_eq_items qs rs \<Longrightarrow> py_eq_items ps rs"
proof (induction u v and us vs and ps qs arbitrary: w and ws and rs
    rule: py_eq_py_eq_list_py_eq_items.induct)
  case (1 xs v)
  then show ?case by (cases v; cases w) auto
next
  case (2 xs v)
  then show ?case by (cases v; cases w) auto
next
  case "5_1"
  from "5_1" show ?case by - (rule py_eq_trans_num, simp (no_asm), assumption, assumption)
next
  case "5_2"
  from "5_2" show ?case by - (rule py_eq_trans_num, simp (no_asm), assumption, assumption)
next
  case "5_3"
  from "5_3" show ?case by - (rule py_eq_trans_num, simp (no_asm), assumption, assumption)
next
  case (7 x xs ys)
  then show ?case by (cases ys; cases ws) auto
next
  case (9 kv xs ys)
  from "9.prems"(1) obtain v where v: "map_of ys (fst kv) = Some v" "py_eq (snd kv) v"
    and xs: "py_eq_items xs ys"
    by (auto split: option.splits)
  from "9.prems"(2) v(1) obtain w where w: "map_of rs (fst kv) = Some w" "py_eq v w"
    by (fastforce simp: py_eq_items_iff dest: map_of_SomeD)
  have "py_eq (snd kv) w" using "9.IH"(1) v w by blast
  moreover have "py_eq_items xs rs" using "9.IH"(2) xs "9.prems"(2) by blast
  ultimately show ?case using w by simp
qed auto

lemmas py_eq_trans = py_eq_trans_all(1)

lemma pf_lt_asym: "pf_lt x y \<Longrightarrow> \<not> pf_lt y x"
  by (simp add: pf_lt_def)

lemma pf_max_le: "x \<noteq> NaN \<Longrightarrow> y \<noteq> NaN \<Longrightarrow> pf_le (pf_max x y) z \<longleftrightarrow> pf_le x z \<and> pf_le y z"
  using pf_le_total [of x y] by (auto simp: pf_max_def pf_lt_def intro: pf_le_trans)

lemma le_pf_min: "x \<noteq> NaN \<Longrightarrow> y \<noteq> NaN \<Longrightarrow> pf_le z (pf_min x y) \<longleftrightarrow> pf_le z x \<and> pf_le z y"
  using pf_le_total [of x y] by (auto simp: pf_min_def pf_lt_def intro: pf_le_trans)

section \<open>Symmetry of equality\<close>

lemma py_eq_sym_num: "num_of v \<noteq> None \<Longrightarrow> py_eq v w \<Longrightarrow> py_eq w v"
  by (metis (no_types, lifting) num_eq_iff option.case_eq_if py_eq_num_right case_prod_conv)

lemma py_eq_sym_all:
  shows "py_eq v w \<Longrightarrow> sane v \<Longrightarrow> sane w \<Longrightarrow> py_eq w v"
    and "py_eq_list vs ws \<Longrightarrow> sane_list vs \<Longrightarrow> sane_list ws \<Longrightarrow> py_eq_list ws vs"
    and "py_eq_items ps qs \<Longrightarrow> sane_items ps \<Longrightarrow> sane_items qs \<Longrightarrow>
      \<forall>kv \<in> set ps. \<exists>w. map_of qs (fst kv) = Some w \<and> py_eq w (snd kv)"
proof (induction v w and vs ws and ps qs rule: py_eq_py_eq_list_py_eq_items.induct)
  case (2 xs v)
  then obtain ys where v: "v = VDict ys" and len: "length xs = length ys"
    and xs: "\<forall>kv \<in> set xs. \<exists>w. map_of ys (fst kv) = Some w \<and> py_eq w (snd kv)"
    and dx: "distinct (map fst xs)" and dy: "distinct (map fst ys)"
    by (auto split: pyval.splits)
  have sub: "set (map fst xs) \<subseteq> set (map fst ys)"
    using xs by (force dest: map_of_SomeD)
  have "card (set (map fst xs)) = card (set (map fst ys))"
    using dx dy len by (simp only: distinct_card length_map)
  with sub have keys: "set (map fst ys) = set (map fst xs)"
    by (metis List.finite_set card_subset_eq)
  have "py_eq_items ys xs"
    unfolding py_eq_items_iff
  proof clarify
    fix k w assume kw: "(k, w) \<in> set ys"
    then have "k \<in> set (map fst xs)" using keys by force
    then obtain u where ku: "(k, u) \<in> set xs" by auto
    with xs obtain w' where "map_of ys k = Some w'" "py_eq w' u" by force
    with kw ku dx dy show "\<exists>u. map_of xs k = Some u \<and> py_eq w u" by auto
  qed
  with v len show ?case by simp
next
  case "5_1"
  from "5_1" show ?case by - (rule py_eq_sym_num, simp (no_asm), assumption)
next
  case "5_2"
  from "5_2" show ?case by - (rule py_eq_sym_num, simp (no_asm), assumption)
next
  case "5_3"
  from "5_3" show ?case by - (rule py_eq_sym_num, simp (no_asm), assumption)
next
  case (9 kv xs ys)
  then obtain w where w: "map_of ys (fst kv) = Some w" "py_eq (snd kv) w"
    by (auto split: option.splits)
  have "sane w" if "sane_items ys"
    using that w(1) by (induction ys) (auto split: if_splits)
  with 9 w show ?case by auto
qed (auto split: pyval.splits list.splits)

lemmas py_eq_sym = py_eq_sym_all(1)

lemma py_eq_commute: "sane v \<Longrightarrow> sane w \<Longrightarrow> py_eq v w \<longleftrightarrow> py_eq w v"
  by (blast intro: py_eq_sym)

end
