(* ===== verification/Settings.thy ===== *)
theory Settings
  imports PyValues
begin

text \<open>
  \<^verbatim>\<open>settings.py\<close>: the runtime limits, how they are read from the environment, and the storage
  guard every durable write passes. The environment is a dictionary of texts; \<^verbatim>\<open>int()\<close> of a
  text is modelled on ASCII digits, and \<^verbatim>\<open>float()\<close> of the timeout text is the parameter \<open>fl\<close>
  (\<open>None\<close> when it raises).
\<close>

section \<open>Reading an integer\<close>

definition is_space :: "char \<Rightarrow> bool" where
  "is_space c \<longleftrightarrow> c \<in> {CHR '' '', CHR 0x09, CHR 0x0A, CHR 0x0B, CHR 0x0C, CHR 0x0D}"

definition strip_number :: "string \<Rightarrow> string" where
  "strip_number s = rev (dropWhile is_space (rev (dropWhile is_space s)))"

definition digit_of :: "char \<Rightarrow> nat option" where
  "digit_of c = (let n = (of_char c :: nat) in if 48 \<le> n \<and> n \<le> 57 then Some (n - 48) else None)"

text \<open>Digits with single underscores between them; \<open>sep\<close> says that the previous one was a digit.\<close>

fun digits_value :: "bool \<Rightarrow> nat \<Rightarrow> string \<Rightarrow> nat option" where
  "digits_value sep acc [] = (if sep then Some acc else None)"
| "digits_value sep acc (c # cs) =
     (if c = CHR ''_'' then (if sep then digits_value False acc cs else None)
      else case digit_of c of
             None \<Rightarrow> None
           | Some d \<Rightarrow> digits_value True (10 * acc + d) cs)"

definition py_int :: "string \<Rightarrow> int option" where
  "py_int s =
     (case strip_number s of
        c # cs \<Rightarrow>
          if c = CHR ''-'' then map_option (\<lambda>n. - int n) (digits_value False 0 cs)
          else if c = CHR ''+'' then map_option int (digits_value False 0 cs)
          else map_option int (digits_value False 0 (c # cs))
      | [] \<Rightarrow> None)"

section \<open>The configuration\<close>

record runtime_protection_config =
  rp_provider_timeout_seconds :: pyfloat
  rp_provider_retry_limit :: int
  rp_claim_ttl_seconds :: int
  rp_cancel_grace_seconds :: int
  rp_max_artifact_bytes :: int
  rp_max_checkpoint_bytes :: int
  rp_max_journal_bytes :: int
  rp_min_free_disk_bytes :: int

definition positive_int :: "(string, string) dict \<Rightarrow> string \<Rightarrow> int \<Rightarrow> int res" where
  "positive_int env name dflt =
     (case dget env name of
        None \<Rightarrow> Inr dflt
      | Some raw \<Rightarrow>
     (case py_int raw of
        None \<Rightarrow> Inl (ValueError ''must be an integer'')
      | Some v \<Rightarrow> if v \<le> 0 then Inl (ValueError ''must be positive'') else Inr v))"

text \<open>
  The keyword arguments of \<^verbatim>\<open>cls(...)\<close>, read in the order they are written; the first that
  raises ends the call.
\<close>

fun read_all :: "(string, string) dict \<Rightarrow> (string \<times> int) list \<Rightarrow> int list res" where
  "read_all env [] = Inr []"
| "read_all env ((n, d) # rest) =
     (case positive_int env n d of
        Inl e \<Rightarrow> Inl e
      | Inr v \<Rightarrow> (case read_all env rest of Inl e \<Rightarrow> Inl e | Inr vs \<Rightarrow> Inr (v # vs)))"

definition protection_settings :: "(string \<times> int) list" where
  "protection_settings =
     [(''VALUEROUTE_PROVIDER_RETRY_LIMIT'', 3), (''VALUEROUTE_CLAIM_TTL_SECONDS'', 60),
      (''VALUEROUTE_CANCEL_GRACE_SECONDS'', 10),
      (''VALUEROUTE_MAX_ARTIFACT_BYTES'', 64 * 1024 * 1024),
      (''VALUEROUTE_MAX_CHECKPOINT_BYTES'', 4 * 1024 * 1024),
      (''VALUEROUTE_MAX_JOURNAL_BYTES'', 256 * 1024 * 1024),
      (''VALUEROUTE_MIN_FREE_DISK_BYTES'', 100 * 1024 * 1024)]"

definition from_environment ::
    "(string \<Rightarrow> pyfloat option) \<Rightarrow> (string, string) dict \<Rightarrow> runtime_protection_config res" where
  "from_environment fl env =
     (case fl (case dget env ''VALUEROUTE_PROVIDER_TIMEOUT_SECONDS'' of
                 None \<Rightarrow> ''60'' | Some s \<Rightarrow> s) of
        None \<Rightarrow> Inl (ValueError ''could not convert string to float'')
      | Some timeout \<Rightarrow>
        if pf_le timeout (Fin 0) then Inl (ValueError ''must be positive'')
        else (case read_all env protection_settings of
                Inl e \<Rightarrow> Inl e
              | Inr [a, b, c, d, f, g, h] \<Rightarrow>
                  Inr \<lparr>rp_provider_timeout_seconds = timeout, rp_provider_retry_limit = a,
                       rp_claim_ttl_seconds = b, rp_cancel_grace_seconds = c,
                       rp_max_artifact_bytes = d, rp_max_checkpoint_bytes = f,
                       rp_max_journal_bytes = g, rp_min_free_disk_bytes = h\<rparr>
              | Inr _ \<Rightarrow> Inl TypeError))"

section \<open>The storage guard\<close>

text \<open>
  What the guard reads of the file system: the bytes used below the data directory (\<open>None\<close> when
  the directory does not exist) and the free bytes of its volume.
\<close>

record disk_usage =
  du_used :: "int option"
  du_free :: int

definition ensure_storage_capacity ::
    "disk_usage \<Rightarrow> int \<Rightarrow> int option \<Rightarrow> int \<Rightarrow> unit res" where
  "ensure_storage_capacity du incoming max_bytes min_free =
     (if incoming < 0 then Inl (ValueError ''incoming_bytes must not be negative'')
      else if (case (max_bytes, du_used du) of
                 (Some m, Some used) \<Rightarrow> used + incoming > m
               | _ \<Rightarrow> False)
      then Inl (RuntimeProtectionError ''storage_limit_exceeded'')
      else if du_free du - incoming < min_free
      then Inl (RuntimeProtectionError ''disk_free_space_below_threshold'')
      else Inr ())"

section \<open>Lemmas\<close>

lemma ensure_storage_capacity_ok:
  "ensure_storage_capacity du n (Some m) f = Inr () \<longleftrightarrow>
     0 \<le> n \<and> (\<forall>u. du_used du = Some u \<longrightarrow> u + n \<le> m) \<and> f \<le> du_free du - n"
  by (auto simp: ensure_storage_capacity_def not_less split: option.splits)

lemma ensure_storage_capacity_None:
  "ensure_storage_capacity du n None f = Inr () \<longleftrightarrow> 0 \<le> n \<and> f \<le> du_free du - n"
  by (auto simp: ensure_storage_capacity_def)

lemma positive_int_ok: "positive_int env n d = Inr v \<Longrightarrow> 0 < d \<Longrightarrow> 0 < v"
  by (auto simp: positive_int_def split: option.splits if_splits)

lemma read_all_ok:
  "read_all env xs = Inr vs \<Longrightarrow> \<forall>(n, d) \<in> set xs. 0 < d \<Longrightarrow>
     length vs = length xs \<and> (\<forall>v \<in> set vs. 0 < v)"
proof (induction xs arbitrary: vs)
  case (Cons nd rest)
  then show ?case
    using positive_int_ok [of env "fst nd" "snd nd"] by (cases nd) (auto split: sum.splits)
qed simp

text \<open>
  Every limit of a configuration read from the environment is positive (the timeout, when it is
  not a not-a-number).
\<close>

lemma from_environment_positive:
  assumes "from_environment fl env = Inr c"
  shows "\<not> pf_le (rp_provider_timeout_seconds c) (Fin 0) \<and> 0 < rp_provider_retry_limit c \<and>
    0 < rp_claim_ttl_seconds c \<and> 0 < rp_cancel_grace_seconds c \<and>
    0 < rp_max_artifact_bytes c \<and> 0 < rp_max_checkpoint_bytes c \<and>
    0 < rp_max_journal_bytes c \<and> 0 < rp_min_free_disk_bytes c"
proof -
  have "\<forall>(n, d) \<in> set protection_settings. 0 < d"
    by (simp add: protection_settings_def)
  with assms show ?thesis
    by (auto simp: from_environment_def split: option.splits sum.splits if_splits list.splits
        dest!: read_all_ok)
qed

end
