(* ===== verification/Journal.thy ===== *)
theory Journal
  imports Settings
begin

text \<open>
  \<^verbatim>\<open>storage/journal.py\<close>: the append-only commit log of one data directory, its recovery on
  restart, its snapshots and its idempotency index. The type parameter \<open>'e\<close> is the type of the
  events.

  \<^item> What is on disk is \<open>'e disk\<close>: the active journal as the list of its lines, each given by
    what \<^verbatim>\<open>json.loads\<close> makes of it, the snapshots by their sequence number, the manifest and the
    quarantine. \<open>af_open\<close> says that the last line has no line end, so that the next append
    continues it.
  \<^item> The process adds its memory: \<open>'e journal\<close> extends \<open>'e disk\<close>. A restart keeps
    \<open>disk.truncate j\<close> and runs \<open>load_journal\<close>.
  \<^item> The byte length and the digests of serialised records are functions of the records, given
    by the parameter \<open>'e hashing\<close>; no law is assumed of them.
  \<^item> What the disk does with an append is the head of \<open>jl_io\<close>: the space it reports, and whether
    the write completes or raises after leaving nothing, a part of the line, the line without
    its end, or the whole line. An exhausted list is a disk with room that works.
\<close>

section \<open>Records, frames, and the disk\<close>

type_synonym idem_key = "string \<times> string \<times> string"

datatype 'e response = OneEvent 'e | ManyEvents "'e list"

datatype 'e jrecord =
    EventRecord (rec_sequence: int) 'e
  | IdemRecord (rec_sequence: int) idem_key string "'e response"

record 'e hashing =
  hs_length :: "'e jrecord list \<Rightarrow> int"
  hs_checksum :: "'e jrecord list \<Rightarrow> string"
  hs_canonical :: "'e jrecord list \<Rightarrow> string"
  hs_frame_size :: "'e jrecord list \<Rightarrow> int"

record 'e envelope =
  en_format_version :: int
  en_commit_id :: string
  en_sequence_start :: int
  en_sequence_end :: int
  en_expected_versions :: "(string, int) dict"
  en_payload_hash :: string
  en_committed_at :: time
  en_length :: int
  en_checksum :: string
  en_records :: "'e jrecord list"

text \<open>
  A line: white space only, not JSON (or not UTF-8), the list of records that version 0.0.1
  wrote, an object with the fields of an envelope, or any other JSON value.
\<close>

datatype 'e line =
    Blank
  | Undecodable
  | LegacyFrame "'e jrecord list"
  | Envelope "'e envelope"
  | OtherJson

record 'e active_file =
  af_lines :: "'e line list"
  af_open :: bool

record 'e snapshot_envelope =
  sn_format_version :: int
  sn_sequence :: int
  sn_record_count :: nat
  sn_aggregate_versions :: "(string, int) dict"
  sn_payload_hash :: string
  sn_records :: "'e jrecord list"

datatype 'e snapshot_file = SnapUnreadable | Snap "'e snapshot_envelope"

datatype manifest_file = NoManifest | ManifestInvalid | ManifestPointer "int option"

record 'e disk =
  dk_active :: "'e active_file option"
  dk_snapshots :: "(int, 'e snapshot_file) dict"
  dk_manifest :: manifest_file
  dk_quarantine :: "'e line list"

datatype write_outcome = WriteOk | WriteNothing | WritePart | WriteNoNewline | WriteUnsynced

record append_io =
  io_usage :: disk_usage
  io_write :: write_outcome

record 'e journal = "'e disk" +
  jl_sequence :: int
  jl_snapshot_sequence :: int
  jl_records :: "'e jrecord list"
  jl_idempotency :: "(idem_key, string \<times> 'e response) dict"
  jl_diagnostics :: "string list"
  jl_max_bytes :: "int option"
  jl_min_free_bytes :: int
  jl_io :: "append_io list"

section \<open>Decoding\<close>

definition frame_records :: "'e hashing \<Rightarrow> 'e line \<Rightarrow> 'e jrecord list res" where
  "frame_records H l =
     (case l of
        Blank \<Rightarrow> Inl (ValueError ''Expecting value'')
      | Undecodable \<Rightarrow> Inl (ValueError ''Expecting value'')
      | OtherJson \<Rightarrow> Inl (ValueError ''unsupported_frame'')
      | LegacyFrame rs \<Rightarrow> Inr rs
      | Envelope e \<Rightarrow>
          let rs = en_records e in
          if en_format_version e \<noteq> 1 then Inl (ValueError ''unsupported_frame'')
          else if en_length e \<noteq> hs_length H rs then Inl (ValueError ''length_mismatch'')
          else if en_checksum e \<noteq> hs_checksum H rs then Inl (ValueError ''checksum_mismatch'')
          else if en_sequence_start e \<noteq>
                  (if rs \<noteq> [] then rec_sequence (hd rs) else en_sequence_end e + 1)
          then Inl (ValueError ''sequence_start_mismatch'')
          else if en_sequence_end e \<noteq>
                  (if rs \<noteq> [] then rec_sequence (last rs) else en_sequence_start e - 1)
          then Inl (ValueError ''sequence_end_mismatch'')
          else if en_payload_hash e \<noteq> hs_canonical H rs
          then Inl (ValueError ''payload_hash_mismatch'')
          else Inr rs)"

definition decode_snapshot ::
    "'e hashing \<Rightarrow> 'e snapshot_file \<Rightarrow> (int \<times> 'e jrecord list) res" where
  "decode_snapshot H f =
     (case f of
        SnapUnreadable \<Rightarrow> Inl (ValueError ''Expecting value'')
      | Snap s \<Rightarrow>
          if sn_format_version s \<noteq> 1 then Inl (JournalError ''snapshot_unsupported_format'')
          else if sn_payload_hash s \<noteq> hs_canonical H (sn_records s)
          then Inl (JournalError ''snapshot_checksum_mismatch'')
          else if sn_sequence s < 0 \<or> (\<exists>r \<in> set (sn_records s). rec_sequence r > sn_sequence s)
          then Inl (JournalError ''snapshot_sequence_mismatch'')
          else Inr (sn_sequence s, sn_records s))"

section \<open>Loading\<close>

definition note_idem ::
    "'e jrecord \<Rightarrow> (idem_key, string \<times> 'e response) dict \<Rightarrow>
     (idem_key, string \<times> 'e response) dict" where
  "note_idem r idx =
     (case r of IdemRecord _ k h resp \<Rightarrow> dput k (h, resp) idx | EventRecord _ _ \<Rightarrow> idx)"

definition snapshot_candidates :: "'e disk \<Rightarrow> int list" where
  "snapshot_candidates d =
     fromkeys ((case dk_manifest d of ManifestPointer (Some n) \<Rightarrow> [n] | _ \<Rightarrow> []) @
               rev (sort (dkeys (dk_snapshots d))))"

text \<open>The candidates in turn; one that is missing or does not decode is passed over.\<close>

fun first_snapshot ::
    "'e hashing \<Rightarrow> (int, 'e snapshot_file) dict \<Rightarrow> int list \<Rightarrow>
     (int \<times> 'e jrecord list) option \<times> string list" where
  "first_snapshot H snaps [] = (None, [])"
| "first_snapshot H snaps (n # ns) =
     (case dget snaps n of
        None \<Rightarrow> first_snapshot H snaps ns
      | Some f \<Rightarrow>
     (case decode_snapshot H f of
        Inr sr \<Rightarrow> (Some sr, [])
      | Inl _ \<Rightarrow> (case first_snapshot H snaps ns of (r, ds) \<Rightarrow> (r, ''snapshot_ignored'' # ds))))"

text \<open>The fields of a fresh \<^verbatim>\<open>LocalJournal\<close> on the disk \<open>d\<close>, before it loads.\<close>

definition boot :: "'e disk \<Rightarrow> int option \<Rightarrow> int \<Rightarrow> append_io list \<Rightarrow> 'e journal" where
  "boot d max_bytes min_free io =
     disk.extend d
       \<lparr>jl_sequence = 0, jl_snapshot_sequence = 0, jl_records = [], jl_idempotency = [],
        jl_diagnostics = [], jl_max_bytes = max_bytes, jl_min_free_bytes = min_free,
        jl_io = io\<rparr>"

definition load_snapshot :: "'e hashing \<Rightarrow> 'e journal \<Rightarrow> 'e journal" where
  "load_snapshot H j =
     (let ds = (if dk_manifest j = ManifestInvalid then [''snapshot_manifest_invalid''] else []);
          found = first_snapshot H (dk_snapshots j) (snapshot_candidates (disk.truncate j));
          j' = j\<lparr>jl_diagnostics := jl_diagnostics j @ ds @ snd found\<rparr>
      in case fst found of
           None \<Rightarrow> j'
         | Some (n, rs) \<Rightarrow>
             j'\<lparr>jl_records := jl_records j @ rs, jl_sequence := n, jl_snapshot_sequence := n,
                jl_idempotency := fold note_idem rs (jl_idempotency j)\<rparr>)"

text \<open>The records of one valid frame; those the snapshot already holds are passed over.\<close>

definition absorb :: "'e jrecord \<Rightarrow> 'e journal \<Rightarrow> 'e journal" where
  "absorb r j =
     (if rec_sequence r \<le> jl_snapshot_sequence j then j
      else j\<lparr>jl_records := jl_records j @ [r],
             jl_sequence := max (jl_sequence j) (rec_sequence r),
             jl_idempotency := note_idem r (jl_idempotency j)\<rparr>)"

fun load_frames ::
    "'e hashing \<Rightarrow> 'e line list \<Rightarrow> 'e line list \<Rightarrow> ('e journal, unit) prog" where
  "load_frames H loaded [] = ret ()"
| "load_frames H loaded (l # ls) =
     (if l = Blank then load_frames H (loaded @ [l]) ls
      else case frame_records H l of
             Inr rs \<Rightarrow> andthen (modify (fold absorb rs)) (load_frames H (loaded @ [l]) ls)
           | Inl _ \<Rightarrow>
               if list_all (\<lambda>x. x = Blank) ls
               then modify (\<lambda>j. j\<lparr>dk_quarantine := dk_quarantine j @ [l],
                                 dk_active := Some \<lparr>af_lines = loaded, af_open = False\<rparr>,
                                 jl_diagnostics := jl_diagnostics j @ [''journal_tail_quarantined'']\<rparr>)
               else raise_exn (JournalError ''journal_corrupt_non_tail''))"

definition load_journal :: "'e hashing \<Rightarrow> ('e journal, unit) prog" where
  "load_journal H =
     andthen (modify (load_snapshot H))
       (bind (get dk_active) (\<lambda>f.
          case f of None \<Rightarrow> ret () | Some a \<Rightarrow> load_frames H [] (af_lines a)))"

section \<open>Appending\<close>

definition idempotent_result ::
    "idem_key \<Rightarrow> string \<Rightarrow> 'e journal \<Rightarrow> 'e response option res" where
  "idempotent_result key request_hash j =
     (case dget (jl_idempotency j) key of
        None \<Rightarrow> Inr None
      | Some (old_hash, response) \<Rightarrow>
          if old_hash \<noteq> request_hash then Inl (JournalError ''idempotency_conflict'')
          else Inr (Some response))"

text \<open>The event records of a frame whose first sequence number is \<open>n\<close>.\<close>

fun number_events :: "int \<Rightarrow> 'e list \<Rightarrow> 'e jrecord list" where
  "number_events n [] = []"
| "number_events n (e # es) = EventRecord n e # number_events (n + 1) es"

definition frame_of ::
    "int \<Rightarrow> 'e list \<Rightarrow> (idem_key \<times> string \<times> 'e response) option \<Rightarrow> 'e jrecord list" where
  "frame_of n es idem =
     number_events (n + 1) es @
     (case idem of None \<Rightarrow> [] | Some (k, h, r) \<Rightarrow> [IdemRecord (n + int (length es)) k h r])"

definition envelope_of ::
    "'e hashing \<Rightarrow> int \<Rightarrow> int \<Rightarrow> (string, int) dict \<Rightarrow> string \<Rightarrow> time \<Rightarrow> 'e jrecord list \<Rightarrow>
     'e envelope" where
  "envelope_of H s e expected commit_id now rs =
     \<lparr>en_format_version = 1, en_commit_id = commit_id, en_sequence_start = s,
      en_sequence_end = e, en_expected_versions = expected,
      en_payload_hash = hs_canonical H rs, en_committed_at = now,
      en_length = hs_length H rs, en_checksum = hs_checksum H rs, en_records = rs\<rparr>"

text \<open>
  Text appended to a file. It continues an unterminated last line, and two JSON values on one
  line are not JSON.
\<close>

definition join_lines :: "'e line \<Rightarrow> 'e line \<Rightarrow> 'e line" where
  "join_lines l m = (if l = Blank then m else if m = Blank then l else Undecodable)"

definition file_append :: "'e line \<Rightarrow> bool \<Rightarrow> 'e active_file option \<Rightarrow> 'e active_file" where
  "file_append l unterminated f =
     (case f of
        None \<Rightarrow> \<lparr>af_lines = [l], af_open = unterminated\<rparr>
      | Some a \<Rightarrow>
          if af_open a \<and> af_lines a \<noteq> []
          then \<lparr>af_lines = butlast (af_lines a) @ [join_lines (last (af_lines a)) l],
                af_open = unterminated\<rparr>
          else \<lparr>af_lines = af_lines a @ [l], af_open = unterminated\<rparr>)"

definition next_io :: "'e journal \<Rightarrow> append_io" where
  "next_io j =
     (case jl_io j of
        [] \<Rightarrow> \<lparr>io_usage = \<lparr>du_used = Some 0, du_free = jl_min_free_bytes j + 2 ^ 62\<rparr>,
              io_write = WriteOk\<rparr>
      | io # _ \<Rightarrow> io)"

text \<open>
  \<^verbatim>\<open>open("a"); write(frame); flush(); fsync()\<close>: the line reaches the file as the disk decides,
  and every outcome but a completed write raises.
\<close>

definition write_frame :: "write_outcome \<Rightarrow> 'e line \<Rightarrow> ('e journal, unit) prog" where
  "write_frame w l =
     (case w of
        WriteOk \<Rightarrow> modify (\<lambda>j. j\<lparr>dk_active := Some (file_append l False (dk_active j))\<rparr>)
      | WriteNothing \<Rightarrow> raise_exn OSError
      | WritePart \<Rightarrow>
          andthen (modify (\<lambda>j. j\<lparr>dk_active := Some (file_append Undecodable True (dk_active j))\<rparr>))
            (raise_exn OSError)
      | WriteNoNewline \<Rightarrow>
          andthen (modify (\<lambda>j. j\<lparr>dk_active := Some (file_append l True (dk_active j))\<rparr>))
            (raise_exn OSError)
      | WriteUnsynced \<Rightarrow>
          andthen (modify (\<lambda>j. j\<lparr>dk_active := Some (file_append l False (dk_active j))\<rparr>))
            (raise_exn OSError))"

text \<open>The sequence counter is advanced before the capacity check and is not put back.\<close>

definition append_frame ::
    "'e hashing \<Rightarrow> 'e list \<Rightarrow> (string, int) dict \<Rightarrow>
     (idem_key \<times> string \<times> 'e response) option \<Rightarrow> string \<Rightarrow> time \<Rightarrow> ('e journal, unit) prog" where
  "append_frame H es expected idem commit_id now =
     bind (get (\<lambda>j. (jl_sequence j, next_io j, jl_max_bytes j, jl_min_free_bytes j)))
       (\<lambda>(n, io, max_bytes, min_free).
          let rs = frame_of n es idem;
              line = Envelope (envelope_of H (n + 1) (n + int (length es)) expected commit_id now rs)
          in andthen (modify (\<lambda>j. j\<lparr>jl_sequence := n + int (length es), jl_io := tl (jl_io j)\<rparr>))
            (andthen (lift (ensure_storage_capacity (io_usage io) (hs_frame_size H rs)
                              max_bytes min_free))
            (andthen (write_frame (io_write io) line)
               (modify (\<lambda>j. j\<lparr>jl_records := jl_records j @ rs,
                              jl_idempotency :=
                                (case idem of None \<Rightarrow> jl_idempotency j
                                            | Some (k, h, r) \<Rightarrow> dput k (h, r) (jl_idempotency j))\<rparr>)))))"

section \<open>Snapshots and reading\<close>

definition take_snapshot ::
    "'e hashing \<Rightarrow> (string, int) dict \<Rightarrow> 'e journal \<Rightarrow> 'e journal" where
  "take_snapshot H versions j =
     j\<lparr>dk_snapshots :=
         dput (jl_sequence j)
           (Snap \<lparr>sn_format_version = 1, sn_sequence = jl_sequence j,
                  sn_record_count = length (jl_records j), sn_aggregate_versions = versions,
                  sn_payload_hash = hs_canonical H (jl_records j), sn_records = jl_records j\<rparr>)
           (dk_snapshots j),
       dk_manifest := ManifestPointer (Some (jl_sequence j))\<rparr>"

text \<open>Compaction keeps the journal: it is a snapshot.\<close>

definition compact :: "'e hashing \<Rightarrow> (string, int) dict \<Rightarrow> 'e journal \<Rightarrow> 'e journal" where
  "compact H versions j = take_snapshot H versions j"

fun event_after :: "int \<Rightarrow> 'e jrecord \<Rightarrow> (int \<times> 'e) list" where
  "event_after n (EventRecord m e) = (if m > n then [(m, e)] else [])"
| "event_after n (IdemRecord _ _ _ _) = []"

definition journal_events :: "int \<Rightarrow> 'e journal \<Rightarrow> (int \<times> 'e) list" where
  "journal_events n j = concat (map (event_after n) (jl_records j))"

section \<open>What a disk holds\<close>

definition line_ok :: "'e hashing \<Rightarrow> 'e line \<Rightarrow> bool" where
  "line_ok H l \<longleftrightarrow> l = Blank \<or> (\<exists>rs. frame_records H l = Inr rs)"

definition line_records :: "'e hashing \<Rightarrow> 'e line \<Rightarrow> 'e jrecord list" where
  "line_records H l = (case frame_records H l of Inr rs \<Rightarrow> rs | Inl _ \<Rightarrow> [])"

definition lines_of :: "'e disk \<Rightarrow> 'e line list" where
  "lines_of d = (case dk_active d of None \<Rightarrow> [] | Some a \<Rightarrow> af_lines a)"

definition base_of :: "'e hashing \<Rightarrow> 'e disk \<Rightarrow> int \<times> 'e jrecord list" where
  "base_of H d =
     (case fst (first_snapshot H (dk_snapshots d) (snapshot_candidates d)) of
        None \<Rightarrow> (0, [])
      | Some b \<Rightarrow> b)"

text \<open>The records beyond sequence number \<open>n\<close>, and the records a restart on \<open>d\<close> finds.\<close>

definition beyond :: "int \<Rightarrow> 'e jrecord list \<Rightarrow> 'e jrecord list" where
  "beyond n rs = filter (\<lambda>r. n < rec_sequence r) rs"

definition all_line_records :: "'e hashing \<Rightarrow> 'e line list \<Rightarrow> 'e jrecord list" where
  "all_line_records H ls = concat (map (line_records H) ls)"

definition durable_records :: "'e hashing \<Rightarrow> 'e disk \<Rightarrow> 'e jrecord list" where
  "durable_records H d =
     snd (base_of H d) @ beyond (fst (base_of H d)) (all_line_records H (lines_of d))"

definition idem_index :: "'e jrecord list \<Rightarrow> (idem_key, string \<times> 'e response) dict" where
  "idem_index rs = fold note_idem rs []"

text \<open>The memory of a running journal agrees with what its disk holds.\<close>

definition journal_inv :: "'e hashing \<Rightarrow> 'e journal \<Rightarrow> bool" where
  "journal_inv H j \<longleftrightarrow>
     (case dk_active j of None \<Rightarrow> True
                       | Some a \<Rightarrow> \<not> af_open a \<and> list_all (line_ok H) (af_lines a)) \<and>
     durable_records H (disk.truncate j) = jl_records j \<and>
     jl_idempotency j = idem_index (jl_records j) \<and>
     (\<forall>r \<in> set (jl_records j). rec_sequence r \<le> jl_sequence j) \<and>
     0 \<le> fst (base_of H (disk.truncate j)) \<and>
     fst (base_of H (disk.truncate j)) \<le> jl_sequence j"

lemma truncate_boot [simp]: "disk.truncate (boot d m f io) = d"
  by (simp add: boot_def disk.defs)

lemma truncate_disk [simp]: "disk.truncate (d :: 'e disk) = d"
  by (simp add: disk.defs)

lemma truncate_select [simp]:
  "dk_active (disk.truncate j) = dk_active j"
  "dk_snapshots (disk.truncate j) = dk_snapshots j"
  "dk_manifest (disk.truncate j) = dk_manifest j"
  "dk_quarantine (disk.truncate j) = dk_quarantine j"
  by (simp_all add: disk.defs)

lemma truncate_journal_updates [simp]:
  "disk.truncate (j\<lparr>jl_records := a\<rparr>) = disk.truncate j"
  "disk.truncate (j\<lparr>jl_sequence := b\<rparr>) = disk.truncate j"
  "disk.truncate (j\<lparr>jl_snapshot_sequence := b\<rparr>) = disk.truncate j"
  "disk.truncate (j\<lparr>jl_idempotency := c\<rparr>) = disk.truncate j"
  "disk.truncate (j\<lparr>jl_diagnostics := d\<rparr>) = disk.truncate j"
  "disk.truncate (j\<lparr>jl_io := e\<rparr>) = disk.truncate j"
  by (simp_all add: disk.defs)

lemma boot_select [simp]:
  "dk_active (boot d m f io) = dk_active d" "dk_snapshots (boot d m f io) = dk_snapshots d"
  "dk_manifest (boot d m f io) = dk_manifest d" "jl_sequence (boot d m f io) = 0"
  "jl_snapshot_sequence (boot d m f io) = 0" "jl_records (boot d m f io) = []"
  "jl_idempotency (boot d m f io) = []" "dk_quarantine (boot d m f io) = dk_quarantine d"
  by (simp_all add: boot_def disk.defs)

section \<open>Lemmas on loading\<close>

lemma decode_snapshot_ok:
  "decode_snapshot H f = Inr (n, rs) \<Longrightarrow> 0 \<le> n \<and> (\<forall>r \<in> set rs. rec_sequence r \<le> n)"
  by (cases f) (auto simp: decode_snapshot_def not_less split: if_splits)

lemma first_snapshot_ok:
  "fst (first_snapshot H snaps ns) = Some (n, rs) \<Longrightarrow>
     0 \<le> n \<and> (\<forall>r \<in> set rs. rec_sequence r \<le> n)"
proof (induction ns)
  case (Cons m ns)
  then show ?case
    by (cases "dget snaps m"; cases "decode_snapshot H (the (dget snaps m))")
      (simp_all add: case_prod_beta decode_snapshot_ok)
qed simp

lemma base_of_ok:
  "0 \<le> fst (base_of H d) \<and> (\<forall>r \<in> set (snd (base_of H d)). rec_sequence r \<le> fst (base_of H d))"
  by (auto simp: base_of_def dest: first_snapshot_ok split: option.splits)

fun max_seq :: "int \<Rightarrow> 'e jrecord list \<Rightarrow> int" where
  "max_seq n [] = n"
| "max_seq n (r # rs) = max_seq (max n (rec_sequence r)) rs"

lemma fold_absorb:
  "fold absorb rs j =
     j\<lparr>jl_records := jl_records j @ beyond (jl_snapshot_sequence j) rs,
       jl_sequence := max_seq (jl_sequence j) (beyond (jl_snapshot_sequence j) rs),
       jl_idempotency := fold note_idem (beyond (jl_snapshot_sequence j) rs) (jl_idempotency j)\<rparr>"
  by (induction rs arbitrary: j) (auto simp: absorb_def beyond_def)

lemma max_seq_ge: "n \<le> max_seq n rs"
  by (induction rs arbitrary: n) (auto, meson max.boundedE)

lemma max_seq_upper: "r \<in> set rs \<Longrightarrow> rec_sequence r \<le> max_seq n rs"
proof (induction rs arbitrary: n)
  case (Cons x xs)
  then show ?case using max_seq_ge [of "max n (rec_sequence x)" xs] by auto
qed simp

lemma max_seq_least:
  "n \<le> m \<Longrightarrow> \<forall>r \<in> set rs. rec_sequence r \<le> m \<Longrightarrow> max_seq n rs \<le> m"
  by (induction rs arbitrary: n) auto

text \<open>Valid frames are absorbed in order; a damaged line is only passed over at the very end.\<close>

lemma load_frames_ok:
  "list_all (line_ok H) ls \<Longrightarrow>
     load_frames H loaded (ls @ rest) j =
     load_frames H (loaded @ ls) rest (fold absorb (all_line_records H ls) j)"
proof (induction ls arbitrary: loaded j)
  case (Cons l ls)
  show ?case
  proof (cases "l = Blank")
    case True
    with Cons show ?thesis
      by (simp add: all_line_records_def line_records_def frame_records_def)
  next
    case False
    with Cons.prems obtain rs where rs: "frame_records H l = Inr rs"
      by (auto simp: line_ok_def)
    with False Cons show ?thesis
      by (simp add: all_line_records_def line_records_def)
  qed
qed (simp add: all_line_records_def)

lemmas load_frames_all = load_frames_ok [where rest = "[]", simplified]

lemma load_frames_damaged_tail:
  assumes "list_all (line_ok H) ls" and "l \<noteq> Blank" and "frame_records H l = Inl e"
    and "list_all (\<lambda>x. x = Blank) blanks"
  shows "load_frames H [] (ls @ l # blanks) j =
    (Inr (), (fold absorb (all_line_records H ls) j)
       \<lparr>dk_quarantine := dk_quarantine j @ [l],
        dk_active := Some \<lparr>af_lines = ls, af_open = False\<rparr>,
        jl_diagnostics := jl_diagnostics j @ [''journal_tail_quarantined'']\<rparr>)"
  using assms load_frames_ok [OF assms(1), of "[]" "l # blanks" j]
  by (simp add: fold_absorb)

lemma load_frames_damaged_middle:
  assumes "list_all (line_ok H) ls" and "l \<noteq> Blank" and "frame_records H l = Inl e"
    and "x \<in> set rest" and "x \<noteq> Blank"
  shows "fst (load_frames H [] (ls @ l # rest) j) = Inl (JournalError ''journal_corrupt_non_tail'')"
  using assms load_frames_ok [OF assms(1), of "[]" "l # rest" j]
  by (auto simp: list_all_iff)

text \<open>The shape of a load that returns.\<close>

lemma load_frames_cases:
  "load_frames H [] ls j = (Inr (), k) \<Longrightarrow>
     (list_all (line_ok H) ls \<and> k = fold absorb (all_line_records H ls) j) \<or>
     (\<exists>good bad blanks e. ls = good @ bad # blanks \<and> list_all (line_ok H) good \<and> bad \<noteq> Blank \<and>
        frame_records H bad = Inl e \<and> list_all (\<lambda>x. x = Blank) blanks)"
proof -
  assume load: "load_frames H [] ls j = (Inr (), k)"
  show ?thesis
  proof (cases "list_all (line_ok H) ls")
    case True
    with load show ?thesis by (simp add: load_frames_all)
  next
    case False
    then have "\<exists>l \<in> set ls. \<not> line_ok H l" by (simp add: list_all_iff)
    then obtain good bad rest where ls: "ls = good @ bad # rest" and "\<not> line_ok H bad"
      and good: "list_all (line_ok H) good"
      by (auto simp: list_all_iff elim!: split_list_first_propE)
    then obtain e where bad: "bad \<noteq> Blank" "frame_records H bad = Inl e"
      by (cases "frame_records H bad") (auto simp: line_ok_def)
    have "list_all (\<lambda>x. x = Blank) rest"
      using load ls good bad load_frames_damaged_middle [OF good bad, of _ rest j]
      by (auto simp: list_all_iff)
    with ls good bad show ?thesis by blast
  qed
qed

lemma load_snapshot_eq:
  "load_snapshot H (boot d m f io) =
     (boot d m f io)
       \<lparr>jl_diagnostics := jl_diagnostics (load_snapshot H (boot d m f io)),
        jl_records := snd (base_of H d), jl_sequence := fst (base_of H d),
        jl_snapshot_sequence := fst (base_of H d),
        jl_idempotency := idem_index (snd (base_of H d))\<rparr>"
proof -
  have "load_snapshot H (boot d m f io) = (boot d m f io)
      \<lparr>jl_diagnostics := x, jl_records := snd (base_of H d), jl_sequence := fst (base_of H d),
       jl_snapshot_sequence := fst (base_of H d), jl_idempotency := idem_index (snd (base_of H d))\<rparr>"
    if "x = jl_diagnostics (load_snapshot H (boot d m f io))" for x
    using that
    by (cases "fst (first_snapshot H (dk_snapshots d) (snapshot_candidates d))")
      (simp_all add: load_snapshot_def Let_def base_of_def idem_index_def split: prod.splits)
  then show ?thesis by simp
qed

lemma load_snapshot_select [simp]:
  "jl_records (load_snapshot H (boot d m f io)) = snd (base_of H d)"
  "jl_sequence (load_snapshot H (boot d m f io)) = fst (base_of H d)"
  "jl_snapshot_sequence (load_snapshot H (boot d m f io)) = fst (base_of H d)"
  "jl_idempotency (load_snapshot H (boot d m f io)) = idem_index (snd (base_of H d))"
  "disk.truncate (load_snapshot H (boot d m f io)) = d"
  "dk_active (load_snapshot H (boot d m f io)) = dk_active d"
  "dk_snapshots (load_snapshot H (boot d m f io)) = dk_snapshots d"
  "dk_manifest (load_snapshot H (boot d m f io)) = dk_manifest d"
  "dk_quarantine (load_snapshot H (boot d m f io)) = dk_quarantine d"
  by (subst load_snapshot_eq, simp)+

section \<open>Restart\<close>

text \<open>The state a load from an undamaged disk ends in.\<close>

definition reloaded ::
    "'e hashing \<Rightarrow> 'e disk \<Rightarrow> int option \<Rightarrow> int \<Rightarrow> append_io list \<Rightarrow> 'e journal" where
  "reloaded H d m f io =
     fold absorb (all_line_records H (lines_of d)) (load_snapshot H (boot d m f io))"

lemma reloaded_select [simp]:
  "jl_records (reloaded H d m f io) = durable_records H d"
  "jl_idempotency (reloaded H d m f io) = idem_index (durable_records H d)"
  "disk.truncate (reloaded H d m f io) = d"
  "dk_active (reloaded H d m f io) = dk_active d"
  "jl_sequence (reloaded H d m f io) =
     max_seq (fst (base_of H d)) (beyond (fst (base_of H d)) (all_line_records H (lines_of d)))"
  by (simp_all add: reloaded_def fold_absorb durable_records_def idem_index_def)

lemma load_undamaged:
  assumes "list_all (line_ok H) (lines_of d)"
  shows "load_journal H (boot d m f io) = (Inr (), reloaded H d m f io)"
  using assms
  by (cases "dk_active d")
    (simp_all add: load_journal_def reloaded_def lines_of_def load_frames_all all_line_records_def)

lemma reloaded_inv:
  assumes "list_all (line_ok H) (lines_of d)" and "\<forall>a. dk_active d = Some a \<longrightarrow> \<not> af_open a"
  shows "journal_inv H (reloaded H d m f io)"
proof -
  let ?b = "base_of H d"
  let ?rs = "beyond (fst ?b) (all_line_records H (lines_of d))"
  have "rec_sequence r \<le> max_seq (fst ?b) ?rs" if "r \<in> set (durable_records H d)" for r
    using that base_of_ok [of H d] max_seq_ge [of "fst ?b" ?rs] max_seq_upper [of r ?rs "fst ?b"]
    by (fastforce simp: durable_records_def)
  then show ?thesis
    using assms base_of_ok [of H d] max_seq_ge [of "fst ?b" ?rs]
    by (auto simp: journal_inv_def lines_of_def split: option.splits)
qed

lemma journal_inv_lines:
  "journal_inv H j \<Longrightarrow> list_all (line_ok H) (lines_of (disk.truncate j))"
  by (auto simp: journal_inv_def lines_of_def split: option.splits)

lemma journal_inv_restart:
  assumes "journal_inv H j"
  shows "\<exists>k. load_journal H (boot (disk.truncate j) m f io) = (Inr (), k) \<and>
    disk.truncate k = disk.truncate j \<and> jl_records k = jl_records j \<and>
    jl_idempotency k = jl_idempotency j \<and> jl_sequence k \<le> jl_sequence j \<and> journal_inv H k"
proof -
  let ?d = "disk.truncate j" let ?k = "reloaded H ?d m f io"
  have "journal_inv H ?k"
    using assms by (intro reloaded_inv journal_inv_lines) (auto simp: journal_inv_def)
  moreover have "jl_sequence ?k \<le> jl_sequence j"
    using assms
    by (auto intro!: max_seq_least simp: journal_inv_def durable_records_def
        dest!: sym [where t = "jl_records j"])
  ultimately show ?thesis
    using load_undamaged [OF journal_inv_lines [OF assms], of m f io] assms
    by (simp add: journal_inv_def)
qed

text \<open>What a load that returns leaves is consistent unless the last line has no line end.\<close>

lemma load_establishes_inv:
  assumes load: "load_journal H (boot d m f io) = (Inr (), k)"
    and closed: "\<forall>a. dk_active d = Some a \<and> list_all (line_ok H) (af_lines a) \<longrightarrow> \<not> af_open a"
  shows "journal_inv H k"
proof (cases "list_all (line_ok H) (lines_of d)")
  case True
  with load have "k = reloaded H d m f io" by (simp add: load_undamaged)
  moreover have "\<forall>a. dk_active d = Some a \<longrightarrow> \<not> af_open a"
    using True closed by (auto simp: lines_of_def)
  ultimately show ?thesis using True by (simp add: reloaded_inv)
next
  case False
  then obtain a where a: "dk_active d = Some a" and bad: "\<not> list_all (line_ok H) (af_lines a)"
    by (auto simp: lines_of_def split: option.splits)
  define j where "j = load_snapshot H (boot d m f io)"
  have ja: "dk_active j = Some a" using a by (simp add: j_def)
  with load have frames: "load_frames H [] (af_lines a) j = (Inr (), k)"
    by (simp add: load_journal_def j_def)
  with bad obtain good l blanks e where ls: "af_lines a = good @ l # blanks"
    and good: "list_all (line_ok H) good" and l: "l \<noteq> Blank" "frame_records H l = Inl e"
    and bl: "list_all (\<lambda>x. x = Blank) blanks"
    using load_frames_cases [OF frames] by blast
  let ?d' = "d\<lparr>dk_quarantine := dk_quarantine d @ [l],
                dk_active := Some \<lparr>af_lines = good, af_open = False\<rparr>\<rparr>"
  have base: "base_of H ?d' = base_of H d"
    by (simp add: base_of_def snapshot_candidates_def)
  have "k = (fold absorb (all_line_records H good) j)
       \<lparr>dk_quarantine := dk_quarantine j @ [l],
        dk_active := Some \<lparr>af_lines = good, af_open = False\<rparr>,
        jl_diagnostics := jl_diagnostics j @ [''journal_tail_quarantined'']\<rparr>"
    using frames load_frames_damaged_tail [OF good l bl, of j] ls by simp
  then have k: "jl_records k = durable_records H ?d'"
    "jl_idempotency k = idem_index (durable_records H ?d')" "disk.truncate k = ?d'"
    "jl_sequence k = max_seq (fst (base_of H d)) (beyond (fst (base_of H d)) (all_line_records H good))"
    "dk_active k = Some \<lparr>af_lines = good, af_open = False\<rparr>"
    by (simp_all add: j_def fold_absorb durable_records_def idem_index_def base lines_of_def)
  have "journal_inv H (reloaded H ?d' m f io)"
    using good by (intro reloaded_inv) (simp_all add: lines_of_def)
  with k base show ?thesis
    by (simp add: journal_inv_def lines_of_def)
qed

section \<open>The effect of an append\<close>

lemma number_events_sequences:
  "r \<in> set (number_events n es) \<Longrightarrow> n \<le> rec_sequence r \<and> rec_sequence r < n + int (length es)"
  by (induction n es rule: number_events.induct) auto

lemma number_events_hd_last:
  "es \<noteq> [] \<Longrightarrow> number_events n es \<noteq> [] \<and> rec_sequence (hd (number_events n es)) = n \<and>
     rec_sequence (last (number_events n es)) = n + int (length es) - 1"
proof (induction n es rule: number_events.induct)
  case (2 n e es)
  then show ?case by (cases es) auto
qed simp

lemma frame_of_sequences:
  "es \<noteq> [] \<Longrightarrow> r \<in> set (frame_of n es idem) \<Longrightarrow>
     n < rec_sequence r \<and> rec_sequence r \<le> n + int (length es)"
  by (auto simp: frame_of_def split: option.splits dest!: number_events_sequences)

lemma frame_of_hd_last:
  "es \<noteq> [] \<Longrightarrow> frame_of n es idem \<noteq> [] \<and> rec_sequence (hd (frame_of n es idem)) = n + 1 \<and>
     rec_sequence (last (frame_of n es idem)) = n + int (length es)"
  using number_events_hd_last [of es "n + 1"]
  by (auto simp: frame_of_def split: option.splits)

lemma frame_records_written:
  "es \<noteq> [] \<Longrightarrow>
     frame_records H (Envelope (envelope_of H (n + 1) (n + int (length es)) x c t
        (frame_of n es idem))) = Inr (frame_of n es idem)"
  using frame_of_hd_last [of es n idem]
  by (simp add: frame_records_def envelope_of_def Let_def)

definition written_line ::
    "'e hashing \<Rightarrow> 'e journal \<Rightarrow> 'e list \<Rightarrow> (string, int) dict \<Rightarrow>
     (idem_key \<times> string \<times> 'e response) option \<Rightarrow> string \<Rightarrow> time \<Rightarrow> 'e line" where
  "written_line H j es x idem c t =
     Envelope (envelope_of H (jl_sequence j + 1) (jl_sequence j + int (length es)) x c t
       (frame_of (jl_sequence j) es idem))"

lemma written_line_ok:
  "es \<noteq> [] \<Longrightarrow> line_ok H (written_line H j es x idem c t) \<and>
     line_records H (written_line H j es x idem c t) = frame_of (jl_sequence j) es idem"
  by (simp add: written_line_def line_ok_def line_records_def frame_records_written)

lemma append_success:
  "append_frame H es x idem c t j = (Inr (), k) \<Longrightarrow>
     k = j\<lparr>jl_sequence := jl_sequence j + int (length es), jl_io := tl (jl_io j),
           dk_active := Some (file_append (written_line H j es x idem c t) False (dk_active j)),
           jl_records := jl_records j @ frame_of (jl_sequence j) es idem,
           jl_idempotency :=
             (case idem of None \<Rightarrow> jl_idempotency j
                         | Some (key, h, r) \<Rightarrow> dput key (h, r) (jl_idempotency j))\<rparr>"
  by (cases idem)
    (auto simp: append_frame_def Let_def prog_simps write_frame_def written_line_def
      split: write_outcome.splits)

lemma append_failure:
  "append_frame H es x idem c t j = (Inl e, k) \<Longrightarrow>
     jl_records k = jl_records j \<and> jl_idempotency k = jl_idempotency j \<and>
     jl_sequence k = jl_sequence j + int (length es) \<and>
     dk_snapshots k = dk_snapshots j \<and> dk_manifest k = dk_manifest j \<and>
     dk_active k \<in>
       {dk_active j, Some (file_append Undecodable True (dk_active j)),
        Some (file_append (written_line H j es x idem c t) True (dk_active j)),
        Some (file_append (written_line H j es x idem c t) False (dk_active j))}"
  by (cases "ensure_storage_capacity (io_usage (next_io j))
        (hs_frame_size H (frame_of (jl_sequence j) es idem)) (jl_max_bytes j) (jl_min_free_bytes j)";
      cases "io_write (next_io j)")
    (auto simp: append_frame_def Let_def write_frame_def written_line_def andthen_def bind_def)

lemma file_append_closed:
  "(case f of None \<Rightarrow> True | Some a \<Rightarrow> \<not> af_open a) \<Longrightarrow>
     file_append l b f = \<lparr>af_lines = (case f of None \<Rightarrow> [] | Some a \<Rightarrow> af_lines a) @ [l], af_open = b\<rparr>"
  by (auto simp: file_append_def split: option.splits)

lemma beyond_append [simp]: "beyond n (xs @ ys) = beyond n xs @ beyond n ys"
  by (simp add: beyond_def)

lemma all_line_records_append [simp]:
  "all_line_records H (ls @ ms) = all_line_records H ls @ all_line_records H ms"
  "all_line_records H [] = []" "all_line_records H [l] = line_records H l"
  by (simp_all add: all_line_records_def)

text \<open>A line that decodes, added to a consistent journal's file, is what a restart finds.\<close>

lemma durable_after_write:
  assumes inv: "journal_inv H j" and es: "es \<noteq> []"
    and act: "dk_active d = Some (file_append (written_line H j es x idem c t) b (dk_active j))"
    and rest: "dk_snapshots d = dk_snapshots j" "dk_manifest d = dk_manifest j"
  shows "list_all (line_ok H) (lines_of d) \<and>
    durable_records H d = jl_records j @ frame_of (jl_sequence j) es idem \<and>
    base_of H d = base_of H (disk.truncate j)"
proof -
  let ?l = "written_line H j es x idem c t"
  have base: "base_of H d = base_of H (disk.truncate j)"
    using rest by (simp add: base_of_def snapshot_candidates_def)
  have lines: "lines_of d = lines_of (disk.truncate j) @ [?l]"
    using inv act by (auto simp: lines_of_def file_append_closed journal_inv_def split: option.splits)
  have "fst (base_of H (disk.truncate j)) \<le> jl_sequence j"
    using inv by (simp add: journal_inv_def)
  then have "beyond (fst (base_of H (disk.truncate j))) (frame_of (jl_sequence j) es idem) =
      frame_of (jl_sequence j) es idem"
    unfolding beyond_def using frame_of_sequences [OF es, of _ "jl_sequence j" idem]
    by (intro filter_True) (auto intro: order.strict_trans1)
  then have "durable_records H d = durable_records H (disk.truncate j) @
      frame_of (jl_sequence j) es idem"
    using written_line_ok [OF es, of H j x idem c t] by (simp add: durable_records_def base lines)
  then show ?thesis
    using inv base lines journal_inv_lines [OF inv] written_line_ok [OF es, of H j x idem c t]
    by (simp add: journal_inv_def)
qed

lemma idem_index_frame:
  "idem_index (rs @ frame_of n es idem) =
     (case idem of None \<Rightarrow> idem_index rs | Some (k, h, r) \<Rightarrow> dput k (h, r) (idem_index rs))"
proof -
  have "fold note_idem (number_events m es) idx = idx" for m idx
    by (induction m es rule: number_events.induct) (simp_all add: note_idem_def)
  then show ?thesis
    by (simp add: idem_index_def frame_of_def note_idem_def split: option.splits prod.splits)
qed

section \<open>What the journal guarantees\<close>

text \<open>An empty data directory, and digests for the witnesses.\<close>

definition empty_disk :: "'e disk" where
  "empty_disk = \<lparr>dk_active = None, dk_snapshots = [], dk_manifest = NoManifest,
                 dk_quarantine = []\<rparr>"

definition plain_hashing :: "'e hashing" where
  "plain_hashing = \<lparr>hs_length = (\<lambda>rs. int (length rs)), hs_checksum = (\<lambda>_. ''c''),
                    hs_canonical = (\<lambda>_. ''p''), hs_frame_size = (\<lambda>rs. int (length rs))\<rparr>"

lemma empty_disk_select [simp]:
  "dk_active empty_disk = None" "dk_snapshots empty_disk = []" "dk_manifest empty_disk = NoManifest"
  by (simp_all add: empty_disk_def)

lemma base_of_empty [simp]: "base_of H empty_disk = (0, [])"
  by (simp add: base_of_def snapshot_candidates_def fromkeys_def)

lemma journal_inv_empty: "journal_inv H (boot empty_disk m f io)"
  by (simp add: journal_inv_def durable_records_def lines_of_def beyond_def idem_index_def)

lemma append_keeps_inv:
  assumes "journal_inv H j" and "es \<noteq> []"
    and "append_frame H es x idem c t j = (Inr (), k)"
  shows "journal_inv H k \<and> jl_records k = jl_records j @ frame_of (jl_sequence j) es idem"
proof -
  note k = append_success [OF assms(3)]
  have d: "list_all (line_ok H) (lines_of (disk.truncate k))"
    "durable_records H (disk.truncate k) = jl_records j @ frame_of (jl_sequence j) es idem"
    "base_of H (disk.truncate k) = base_of H (disk.truncate j)"
    using durable_after_write [OF assms(1,2), of "disk.truncate k" x idem c t False]
    by (simp_all add: k)
  have closed: "dk_active k = Some (file_append (written_line H j es x idem c t) False (dk_active j))"
    by (simp add: k)
  have lines: "list_all (line_ok H) (lines_of (disk.truncate k))" by (rule d(1))
  have "\<not> af_open (file_append (written_line H j es x idem c t) False (dk_active j))"
    by (simp add: file_append_def split: option.splits)
  with closed lines have act: "case dk_active k of None \<Rightarrow> True
      | Some a \<Rightarrow> \<not> af_open a \<and> list_all (line_ok H) (af_lines a)"
    by (simp add: lines_of_def)
  have "jl_idempotency k = idem_index (jl_records k)"
    using assms(1) by (simp add: k idem_index_frame journal_inv_def split: option.splits)
  moreover have "\<forall>r \<in> set (jl_records k). rec_sequence r \<le> jl_sequence k"
    using assms(1) frame_of_sequences [OF assms(2)]
    by (fastforce simp: k journal_inv_def)
  ultimately show ?thesis
    using assms(1) act d k by (simp add: journal_inv_def)
qed

text \<open>
  C1. An acknowledged commit is durable: when \<^verbatim>\<open>append_frame\<close> returns, the frame's records are
  appended to the memory, memory and disk agree again, and whatever limits the next process
  starts with, its load succeeds with exactly the same records and idempotency index.
\<close>

theorem append_durable:
  assumes "journal_inv H j" and "es \<noteq> []"
    and "append_frame H es x idem c t j = (Inr (), k)"
  shows "jl_records k = jl_records j @ frame_of (jl_sequence j) es idem \<and> journal_inv H k \<and>
    (\<exists>r. load_journal H (boot (disk.truncate k) m f io) = (Inr (), r) \<and>
         jl_records r = jl_records k \<and> jl_idempotency r = jl_idempotency k)"
  using append_keeps_inv [OF assms] journal_inv_restart [of H k m f io] by blast

text \<open>
  C2. A commit is all or nothing: when \<^verbatim>\<open>append_frame\<close> raises, at whatever point of the write, the
  memory's records and index are unchanged, and the next process finds either the records
  before the call or those and the whole frame, never a part of it.
\<close>

theorem append_atomic:
  assumes "journal_inv H j" and "es \<noteq> []"
    and "append_frame H es x idem c t j = (Inl e, k)"
  shows "jl_records k = jl_records j \<and> jl_idempotency k = jl_idempotency j \<and>
    (\<exists>r. load_journal H (boot (disk.truncate k) m f io) = (Inr (), r) \<and>
         jl_records r \<in> {jl_records j, jl_records j @ frame_of (jl_sequence j) es idem})"
proof -
  let ?d = "disk.truncate k" let ?l = "written_line H j es x idem c t"
  note fail = append_failure [OF assms(3)]
  have base: "base_of H ?d = base_of H (disk.truncate j)"
    using fail by (simp add: base_of_def snapshot_candidates_def)
  consider "dk_active k = dk_active j"
    | "dk_active k = Some (file_append Undecodable True (dk_active j))"
    | b where "dk_active k = Some (file_append ?l b (dk_active j))"
    using fail by blast
  then have "\<exists>r. load_journal H (boot ?d m f io) = (Inr (), r) \<and>
         jl_records r \<in> {jl_records j, jl_records j @ frame_of (jl_sequence j) es idem}"
  proof cases
    case 1
    then have "lines_of ?d = lines_of (disk.truncate j)" by (simp add: lines_of_def)
    then show ?thesis
      using load_undamaged [of H ?d m f io] journal_inv_lines [OF assms(1)] assms(1) base
      by (simp add: journal_inv_def durable_records_def)
  next
    case 2
    define ls where "ls = lines_of (disk.truncate j)"
    have ls: "list_all (line_ok H) ls" using journal_inv_lines [OF assms(1)] by (simp add: ls_def)
    have act: "dk_active k = Some \<lparr>af_lines = ls @ [Undecodable], af_open = True\<rparr>"
      using 2 assms(1)
      by (auto simp: file_append_closed journal_inv_def ls_def lines_of_def split: option.splits)
    have "load_frames H [] (ls @ [Undecodable]) s = (Inr (), (fold absorb (all_line_records H ls) s)
       \<lparr>dk_quarantine := dk_quarantine s @ [Undecodable],
        dk_active := Some \<lparr>af_lines = ls, af_open = False\<rparr>,
        jl_diagnostics := jl_diagnostics s @ [''journal_tail_quarantined'']\<rparr>)" for s
      using load_frames_damaged_tail [OF ls, of Undecodable _ "[]" s]
      by (simp add: frame_records_def)
    then show ?thesis
      using act assms(1) base
      by (simp add: load_journal_def fold_absorb journal_inv_def durable_records_def ls_def)
  next
    case (3 b)
    then show ?thesis
      using durable_after_write [OF assms(1,2), of ?d x idem c t b] fail load_undamaged [of H ?d m f io]
      by simp
  qed
  then show ?thesis using fail by simp
qed

text \<open>An append to a fresh journal on a disk that behaves as \<open>w\<close> says.\<close>

definition fresh_journal :: "append_io list \<Rightarrow> 'e journal" where
  "fresh_journal io = boot empty_disk None 0 io"

definition io_of :: "write_outcome \<Rightarrow> append_io" where
  "io_of w = \<lparr>io_usage = \<lparr>du_used = Some 0, du_free = 1000\<rparr>, io_write = w\<rparr>"

lemma fresh_journal_run:
  "append_frame plain_hashing [e] [] None [] 0 (fresh_journal [io_of w]) =
     (if w = WriteOk then Inr () else Inl OSError,
      snd (append_frame plain_hashing [e] [] None [] 0 (fresh_journal [io_of w])))"
  by (cases w)
    (simp_all add: append_frame_def fresh_journal_def boot_def disk.defs empty_disk_def next_io_def
      io_of_def plain_hashing_def frame_of_def ensure_storage_capacity_def Let_def bind_def
      andthen_def write_frame_def)

lemma journal_inv_fresh: "journal_inv H (fresh_journal io)"
  by (simp add: fresh_journal_def journal_inv_empty)

lemma append_durable_witness:
  "\<exists>k r. append_frame plain_hashing [''event''] [] None [] 0 (fresh_journal [io_of WriteOk]) =
       (Inr (), k) \<and>
     load_journal plain_hashing (boot (disk.truncate k) None 0 []) = (Inr (), r) \<and>
     jl_records r = [EventRecord 1 ''event'']"
  using fresh_journal_run [of "''event''" WriteOk]
    append_durable [OF journal_inv_fresh, of "[''event'']" plain_hashing "[]" None "[]" 0
      "[io_of WriteOk]" "snd (append_frame plain_hashing [''event''] [] None [] 0
        (fresh_journal [io_of WriteOk]))" None 0 "[]"]
  by (auto simp: fresh_journal_def frame_of_def)

lemma append_atomic_witness:
  "\<exists>k r. append_frame plain_hashing [''event''] [] None [] 0 (fresh_journal [io_of WritePart]) =
       (Inl OSError, k) \<and>
     load_journal plain_hashing (boot (disk.truncate k) None 0 []) = (Inr (), r) \<and>
     jl_records r \<in> {[], [EventRecord 1 ''event'']}"
  using fresh_journal_run [of "''event''" WritePart]
    append_atomic [OF journal_inv_fresh, of "[''event'']" plain_hashing "[]" None "[]" 0
      "[io_of WritePart]" OSError "snd (append_frame plain_hashing [''event''] [] None [] 0
        (fresh_journal [io_of WritePart]))" None 0 "[]"]
  by (auto simp: fresh_journal_def frame_of_def)

text \<open>
  C4. Snapshots and compaction are transparent: taking one changes neither the records nor the
  agreement of memory and disk, so that the next load, which starts from the snapshot and skips
  the frames it covers, finds the same records and index as one without it.
\<close>

theorem snapshot_transparent:
  assumes "journal_inv H j"
  shows "journal_inv H (compact H versions j) \<and>
    (\<exists>r. load_journal H (boot (disk.truncate (compact H versions j)) m f io) = (Inr (), r) \<and>
         jl_records r = jl_records j \<and> jl_idempotency r = jl_idempotency j)"
proof -
  let ?k = "compact H versions j"
  have "fst (first_snapshot H (dk_snapshots ?k) (snapshot_candidates (disk.truncate ?k))) =
      Some (jl_sequence j, jl_records j)"
    using assms
    by (auto simp: compact_def take_snapshot_def snapshot_candidates_def fromkeys_def
        decode_snapshot_def journal_inv_def disk.defs not_less)
  then have base: "base_of H (disk.truncate ?k) = (jl_sequence j, jl_records j)"
    by (simp add: base_of_def disk.defs)
  have act: "dk_active ?k = dk_active j" "lines_of (disk.truncate ?k) = lines_of (disk.truncate j)"
    by (simp_all add: compact_def take_snapshot_def lines_of_def)
  have "rec_sequence r \<le> jl_sequence j" if "r \<in> set (all_line_records H (lines_of (disk.truncate j)))" for r
  proof (cases "fst (base_of H (disk.truncate j)) < rec_sequence r")
    case True
    with that have "r \<in> set (jl_records j)"
      using assms by (auto simp: journal_inv_def durable_records_def beyond_def dest!: sym [where t = "jl_records j"])
    with assms show ?thesis by (simp add: journal_inv_def)
  next
    case False
    with assms show ?thesis by (simp add: journal_inv_def)
  qed
  then have "beyond (jl_sequence j) (all_line_records H (lines_of (disk.truncate j))) = []"
    by (auto simp: beyond_def filter_empty_conv not_less)
  then have "durable_records H (disk.truncate ?k) = jl_records j"
    by (simp add: durable_records_def base act)
  then have inv: "journal_inv H ?k"
    using assms base act by (simp add: journal_inv_def) (simp add: compact_def take_snapshot_def)
  have "jl_records ?k = jl_records j" "jl_idempotency ?k = jl_idempotency j"
    by (simp_all add: compact_def take_snapshot_def)
  with inv journal_inv_restart [OF inv, of m f io] show ?thesis by metis
qed

lemma snapshot_transparent_witness:
  "journal_inv plain_hashing (compact plain_hashing [] (fresh_journal [] :: string journal))"
  using snapshot_transparent [OF journal_inv_fresh, of plain_hashing "[]"] by blast

text \<open>
  C5. Idempotency survives a restart: after a commit with an idempotency key has returned, the
  same key with the same request hash yields the stored response and with another hash the
  conflict error, in this process and in the next.
\<close>

theorem idempotency_durable:
  assumes "journal_inv H j" and "es \<noteq> []"
    and "append_frame H es x (Some (key, h, resp)) c t j = (Inr (), k)"
  shows "idempotent_result key h k = Inr (Some resp) \<and>
    (h' \<noteq> h \<longrightarrow> idempotent_result key h' k = Inl (JournalError ''idempotency_conflict'')) \<and>
    (\<exists>r. load_journal H (boot (disk.truncate k) m f io) = (Inr (), r) \<and>
         idempotent_result key h r = Inr (Some resp) \<and>
         (h' \<noteq> h \<longrightarrow> idempotent_result key h' r = Inl (JournalError ''idempotency_conflict'')))"
proof -
  have k: "dget (jl_idempotency k) key = Some (h, resp)"
    using append_success [OF assms(3)] by simp
  from journal_inv_restart [of H k m f io] append_keeps_inv [OF assms] k show ?thesis
    by (auto simp: idempotent_result_def)
qed

lemma idempotency_durable_witness:
  "\<exists>k r. append_frame plain_hashing [''e''] [] (Some ((''a'', ''b'', ''c''), ''h'', OneEvent ''e''))
       [] 0 (fresh_journal []) = (Inr (), k) \<and>
     load_journal plain_hashing (boot (disk.truncate k) None 0 []) = (Inr (), r) \<and>
     idempotent_result (''a'', ''b'', ''c'') ''h'' r = Inr (Some (OneEvent ''e'')) \<and>
     idempotent_result (''a'', ''b'', ''c'') ''x'' r = Inl (JournalError ''idempotency_conflict'')"
proof -
  let ?run = "append_frame plain_hashing [''e''] []
      (Some ((''a'', ''b'', ''c''), ''h'', OneEvent ''e'')) [] 0 (fresh_journal [])"
  have "?run = (Inr (), snd ?run)"
    by (simp add: append_frame_def fresh_journal_def boot_def disk.defs empty_disk_def next_io_def
      plain_hashing_def frame_of_def ensure_storage_capacity_def Let_def bind_def andthen_def
      write_frame_def)
  from this idempotency_durable [OF journal_inv_fresh _ this, of "''x''" None 0 "[]"]
  show ?thesis by auto
qed

text \<open>
  C3. Recovery fails closed. A damaged line (a torn write, a changed byte, a wrong checksum,
  length, hash or sequence number) at the end of the journal is moved to the quarantine and the
  frames before it are kept, all of them; a damaged line with any later content makes the load
  raise, and the process does not start on a journal with a hole.
\<close>

theorem damaged_frame_recovery:
  assumes "dk_active d = Some \<lparr>af_lines = good @ bad # rest, af_open = b\<rparr>"
    and "list_all (line_ok H) good" and "\<not> line_ok H bad"
  shows "if \<forall>l \<in> set rest. l = Blank
    then \<exists>k. load_journal H (boot d m f io) = (Inr (), k) \<and>
           jl_records k = durable_records H
             (d\<lparr>dk_active := Some \<lparr>af_lines = good, af_open = False\<rparr>\<rparr>) \<and>
           dk_active k = Some \<lparr>af_lines = good, af_open = False\<rparr> \<and>
           dk_quarantine k = dk_quarantine d @ [bad] \<and> journal_inv H k
    else fst (load_journal H (boot d m f io)) = Inl (JournalError ''journal_corrupt_non_tail'')"
proof -
  obtain e where bad: "bad \<noteq> Blank" "frame_records H bad = Inl e"
    using assms(3) by (cases "frame_records H bad") (auto simp: line_ok_def)
  have run: "load_journal H (boot d m f io) =
      load_frames H [] (good @ bad # rest) (load_snapshot H (boot d m f io))"
    by (simp add: load_journal_def assms(1))
  have base: "base_of H (d\<lparr>dk_active := x\<rparr>) = base_of H d" for x
    by (simp add: base_of_def snapshot_candidates_def)
  show ?thesis
  proof (cases "\<forall>l \<in> set rest. l = Blank")
    case True
    then have blanks: "list_all (\<lambda>l. l = Blank) rest" by (simp add: list_all_iff)
    note load = run [unfolded load_frames_damaged_tail [OF assms(2) bad blanks]]
    have "\<not> list_all (line_ok H) (good @ bad # rest)" using assms(3) by simp
    then have "journal_inv H (snd (load_journal H (boot d m f io)))"
      using load_establishes_inv [of H d m f io] load assms(1,3) by simp
    with True load show ?thesis
      by (simp add: fold_absorb durable_records_def base lines_of_def)
  next
    case False
    then obtain x where "x \<in> set rest" "x \<noteq> Blank" by blast
    with False show ?thesis
      using load_frames_damaged_middle [OF assms(2) bad] by (auto simp: run)
  qed
qed

lemma damaged_frame_recovery_witness:
  "fst (load_journal plain_hashing (boot (empty_disk\<lparr>dk_active :=
      Some \<lparr>af_lines = [Undecodable, LegacyFrame [EventRecord 1 ''e'']], af_open = False\<rparr>\<rparr>)
      None 0 [])) = Inl (JournalError ''journal_corrupt_non_tail'')"
  using damaged_frame_recovery [of "empty_disk\<lparr>dk_active :=
      Some \<lparr>af_lines = [Undecodable, LegacyFrame [EventRecord 1 ''e'']], af_open = False\<rparr>\<rparr>"
      "[]" Undecodable "[LegacyFrame [EventRecord 1 ''e'']]" False plain_hashing None 0 "[]"]
  by (simp add: line_ok_def frame_records_def)

text \<open>
  An acknowledged commit can be lost: the write of one frame is cut just before its line
  end (the caller sees the error), the next process accepts that unterminated line, commits a
  second frame on the same line and acknowledges it, and the process after that moves the joined
  line to the quarantine and starts without either. The load neither completes nor truncates an
  unterminated last line, which is what the invariant of the other properties asks.
\<close>

theorem unterminated_tail_loses_commit:
  "\<exists>j1 j2 j3 j4.
     append_frame H [e1] [] None c1 t1 (boot empty_disk None 0 [io_of WriteNoNewline]) =
       (Inl OSError, j1) \<and>
     load_journal H (boot (disk.truncate j1) None 0 []) = (Inr (), j2) \<and>
     jl_records j2 = [EventRecord 1 e1] \<and>
     append_frame H [e2] [] None c2 t2 j2 = (Inr (), j3) \<and>
     jl_records j3 = [EventRecord 1 e1, EventRecord 2 e2] \<and>
     load_journal H (boot (disk.truncate j3) None 0 []) = (Inr (), j4) \<and>
     jl_records j4 = []"
  if "0 \<le> hs_frame_size H [EventRecord 1 e1]" "hs_frame_size H [EventRecord 1 e1] \<le> 1000"
    "0 \<le> hs_frame_size H [EventRecord 2 e2]" "hs_frame_size H [EventRecord 2 e2] \<le> 2 ^ 62"
  using that
  by (simp add: append_frame_def boot_def disk.defs empty_disk_def next_io_def io_of_def
      frame_of_def ensure_storage_capacity_def Let_def bind_def andthen_def write_frame_def
      load_journal_def load_snapshot_def snapshot_candidates_def fromkeys_def file_append_def
      frame_records_def envelope_of_def absorb_def join_lines_def)

lemma unterminated_tail_loses_commit_witness:
  "\<exists>j1 j2. append_frame plain_hashing [''a''] [] None [] 0
       (boot empty_disk None 0 [io_of WriteNoNewline]) = (Inl OSError, j1) \<and>
     load_journal plain_hashing (boot (disk.truncate j1) None 0 []) = (Inr (), j2)"
  using unterminated_tail_loses_commit [of plain_hashing "''a''" "''b''" "[]" 0 "[]" 0]
  by (auto simp: plain_hashing_def)

text \<open>
  The event stream is complete: the events a commit adds are exactly those a reader with
  the cursor of before the commit receives, in order and numbered without a gap.
\<close>

theorem journal_events_complete:
  assumes "append_frame H es x idem c t j = (Inr (), k)" and inv: "journal_inv H j"
  shows "journal_events (jl_sequence j) k =
      zip (map (\<lambda>i. jl_sequence j + 1 + int i) [0..<length es]) es \<and>
    journal_events 0 k = journal_events 0 j @ journal_events (jl_sequence j) k"
proof -
  have new: "concat (map (event_after m) (number_events n es)) =
      zip (map (\<lambda>i. n + int i) [0..<length es]) es" if "m < n" for m n
    using that
  proof (induction n es rule: number_events.induct)
    case (2 n e es)
    have shift: "map (\<lambda>i. n + int i) [0..<Suc (length es)] =
        n # map (\<lambda>i. n + 1 + int i) [0..<length es]"
      by (simp add: upt_conv_Cons map_Suc_upt [symmetric] del: upt_Suc)
    show ?case using 2 by (simp add: shift del: upt_Suc)
  qed simp
  have frame: "concat (map (event_after m) (frame_of (jl_sequence j) es idem)) =
      zip (map (\<lambda>i. jl_sequence j + 1 + int i) [0..<length es]) es"
    if "m \<le> jl_sequence j" for m
    using that new [of m "jl_sequence j + 1"] by (cases idem) (auto simp: frame_of_def)
  have old: "concat (map (event_after (jl_sequence j)) (jl_records j)) = []"
  proof -
    have "event_after m r = []" if "rec_sequence r \<le> m" for m and r :: "'a jrecord"
      using that by (cases r) auto
    with inv have "event_after (jl_sequence j) r = []" if "r \<in> set (jl_records j)" for r
      using that by (simp add: journal_inv_def)
    then show ?thesis by simp
  qed
  show ?thesis
    using append_success [OF assms(1)] frame [of "jl_sequence j"] frame [of 0] old inv
    by (simp add: journal_events_def journal_inv_def)
qed

lemma journal_events_complete_witness:
  "\<exists>k. append_frame plain_hashing [''event''] [] None [] 0 (fresh_journal [io_of WriteOk]) =
       (Inr (), k) \<and> journal_events 0 k = [(1, ''event'')]"
  using fresh_journal_run [of "''event''" WriteOk]
    journal_events_complete [OF _ journal_inv_fresh, of plain_hashing "[''event'']" "[]" None "[]" 0
      "[io_of WriteOk]" "snd (append_frame plain_hashing [''event''] [] None [] 0
        (fresh_journal [io_of WriteOk]))"]
  by (auto simp: fresh_journal_def)

end
