(* ===== verification/RoutingModels.thy ===== *)
theory RoutingModels
  imports Models
begin

text \<open>
  \<^verbatim>\<open>routing/models.py\<close> and the model profile of \<^verbatim>\<open>routing/manifest.py\<close>: what the advisory routing
  pipeline reads and returns. A confidence is the exact decimal it is written as; an estimated
  cost is a float. The text of the user is a list of code points, because the rules of the pipeline
  look for words that are not ASCII.
\<close>

type_synonym utext = "nat list"

definition codes :: "string \<Rightarrow> utext" where
  "codes = map of_char"

record routing_permissions =
  rq_read_scope :: "string list"
  rq_available_tools :: "string list"
  rq_requested_write_regions :: "(string \<times> pyval) list list"

record routing_resource_summary =
  rs_canonical_uri :: string
  rs_base_revision :: string
  rs_referenced_paths :: "string list"
  rs_referenced_symbols :: "string list"

record routing_request_envelope =
  re_id :: string
  re_tenant_id :: string
  re_host_session_id :: string
  re_host_declared_request_type :: "request_type option"
  re_user_text :: utext
  re_permissions :: routing_permissions
  re_resource_summary :: "routing_resource_summary option"
  re_data_classification :: data_classification
  re_created_at :: time

text \<open>The limits of the fields that reach another bounded field.\<close>

definition wf_routing_request_envelope :: "routing_request_envelope \<Rightarrow> bool" where
  "wf_routing_request_envelope e \<longleftrightarrow>
     len_within 1 200 (re_id e) \<and> len_within 1 200 (re_tenant_id e) \<and>
     len_within 1 200 (re_host_session_id e) \<and> length (re_user_text e) \<le> 10000 \<and>
     length (rq_read_scope (re_permissions e)) \<le> 200 \<and>
     length (rq_available_tools (re_permissions e)) \<le> 200 \<and>
     length (rq_requested_write_regions (re_permissions e)) \<le> 200 \<and>
     (case re_resource_summary e of
        None \<Rightarrow> True
      | Some s \<Rightarrow> len_within 1 2000 (rs_canonical_uri s) \<and> len_within 1 512 (rs_base_revision s) \<and>
                  length (rs_referenced_paths s) \<le> 500 \<and> length (rs_referenced_symbols s) \<le> 500)"

datatype boundary_method = BM_host_declared | BM_rule_based

record request_boundary_decision =
  bd_request_type :: request_type
  bd_confidence :: rat
  bd_method :: boundary_method
  bd_rationale :: string

record requirement_node =
  rn_id :: string
  rn_description :: utext
  rn_required :: bool
  rn_verification_required :: bool

definition wf_request_boundary_decision :: "request_boundary_decision \<Rightarrow> bool" where
  "wf_request_boundary_decision d \<longleftrightarrow>
     0 \<le> bd_confidence d \<and> bd_confidence d \<le> 1 \<and> length (bd_rationale d) \<le> 2000"

definition wf_requirement_node :: "requirement_node \<Rightarrow> bool" where
  "wf_requirement_node n \<longleftrightarrow>
     len_within 1 200 (rn_id n) \<and> 1 \<le> length (rn_description n) \<and> length (rn_description n) \<le> 4000"

datatype constraint_kind = CK_scope | CK_data | CK_tool | CK_budget

record requirement_constraint =
  rc_id :: string
  rc_description :: string
  rc_kind :: constraint_kind

definition wf_requirement_constraint :: "requirement_constraint \<Rightarrow> bool" where
  "wf_requirement_constraint c \<longleftrightarrow> len_within 1 200 (rc_id c) \<and> len_within 1 4000 (rc_description c)"

record evidence_gap =
  gp_id :: string
  gp_description :: string

record requirement_graph =
  rg_id :: string
  rg_requirements :: "requirement_node list"
  rg_constraints :: "requirement_constraint list"
  rg_evidence_gaps :: "evidence_gap list"
  rg_profiler_version :: string
  rg_created_at :: time

definition wf_requirement_graph :: "requirement_graph \<Rightarrow> bool" where
  "wf_requirement_graph g \<longleftrightarrow>
     len_within 1 200 (rg_id g) \<and>
     length (rg_requirements g) \<le> 200 \<and> list_all wf_requirement_node (rg_requirements g) \<and>
     length (rg_constraints g) \<le> 200 \<and> list_all wf_requirement_constraint (rg_constraints g) \<and>
     length (rg_evidence_gaps g) \<le> 200 \<and>
     list_all (\<lambda>p. len_within 1 200 (gp_id p) \<and> len_within 1 4000 (gp_description p)) (rg_evidence_gaps g)"

datatype candidate_mode = CM_direct | CM_workers

record routing_candidate =
  rk_id :: string
  rk_mode :: candidate_mode
  rk_worker_count :: int
  rk_rejection_codes :: "string list"
  rk_estimated_input_tokens :: "int option"
  rk_estimated_output_tokens :: "int option"
  rk_estimated_cost_usd :: "pyfloat option"
  rk_estimated_latency_ms :: "int option"
  rk_confidence :: rat
  rk_rationale :: string
  rk_basis_version :: string

definition wf_routing_candidate :: "routing_candidate \<Rightarrow> bool" where
  "wf_routing_candidate c \<longleftrightarrow>
     len_within 1 200 (rk_id c) \<and> 0 \<le> rk_worker_count c \<and> rk_worker_count c \<le> 5 \<and>
     length (rk_rejection_codes c) \<le> 20 \<and>
     (\<forall>n \<in> set_option (rk_estimated_input_tokens c). 0 \<le> n) \<and>
     (\<forall>n \<in> set_option (rk_estimated_output_tokens c). 0 \<le> n) \<and>
     (\<forall>n \<in> set_option (rk_estimated_latency_ms c). 0 \<le> n) \<and>
     0 \<le> rk_confidence c \<and> rk_confidence c \<le> 1 \<and>
     len_within 1 4000 (rk_rationale c) \<and> len_within 1 100 (rk_basis_version c)"

record routing_advice =
  ra_id :: string
  ra_envelope_id :: string
  ra_boundary_decision :: request_boundary_decision
  ra_requirement_graph :: requirement_graph
  ra_candidates :: "routing_candidate list"
  ra_rejected :: bool
  ra_rejection_reasons :: "string list"
  ra_created_at :: time

definition wf_routing_advice :: "routing_advice \<Rightarrow> bool" where
  "wf_routing_advice a \<longleftrightarrow>
     len_within 1 200 (ra_id a) \<and> len_within 1 200 (ra_envelope_id a) \<and>
     wf_request_boundary_decision (ra_boundary_decision a) \<and> wf_requirement_graph (ra_requirement_graph a) \<and>
     length (ra_candidates a) \<le> 20 \<and> list_all wf_routing_candidate (ra_candidates a) \<and>
     length (ra_rejection_reasons a) \<le> 20"

datatype shadow_status = SH_proposed | SH_compared

record shadow_record =
  sr_id :: string
  sr_envelope_hash :: string
  sr_advice :: routing_advice
  sr_status :: shadow_status
  sr_real_outcome_ref :: "string option"
  sr_created_at :: time

section \<open>Model profiles\<close>

datatype protocol_status = PS_compatible | PS_incompatible

datatype role_status = RO_candidate | RO_certified | RO_suspended

record model_profile =
  mp_provider_id :: string
  mp_model_id :: string
  mp_measured_at :: string
  mp_protocol_status :: protocol_status
  mp_worker_status :: role_status
  mp_controller_status :: role_status
  mp_supported_modalities :: "string list"
  mp_supported_tools :: "string list"
  mp_effort_mapping :: "(string, string) dict"
  mp_region :: string
  mp_evidence_refs :: "string list"

definition eligible_for_controller :: "model_profile \<Rightarrow> bool" where
  "eligible_for_controller p \<longleftrightarrow>
     mp_protocol_status p = PS_compatible \<and> mp_controller_status p = RO_certified"

definition eligible_for_worker :: "model_profile \<Rightarrow> bool" where
  "eligible_for_worker p \<longleftrightarrow>
     mp_protocol_status p = PS_compatible \<and> mp_worker_status p = RO_certified"

end
