(* ===== verification/Store.thy ===== *)
theory Store
  imports Journal RoutingModels
begin

text \<open>
  \<^verbatim>\<open>storage/store.py\<close>: the in-memory projection of the journal, its replay, and the commit
  operations the services share.

  An event is a constructor with its payload: the \<^verbatim>\<open>"type"\<close> text selects the constructor and
  \<^verbatim>\<open>"data"\<close> is the argument (\<^verbatim>\<open>model_dump\<close> followed by \<^verbatim>\<open>model_validate\<close> gives the value back).
  The store is a record of insertion-ordered dictionaries; \<open>store\<close> adds the journal to it.
\<close>

section \<open>Events\<close>

datatype worker_event_kind =
    WE_queued | WE_request_bound | WE_claimed | WE_heartbeat | WE_recovered | WE_requeued
  | WE_blocked | WE_started | WE_stopped | WE_cancel_failed | WE_checkpointed | WE_terminal_ack
  | WE_paused | WE_pause_requested | WE_cancel_requested

datatype integration_event_kind =
    IE_queued | IE_started | IE_requeued | IE_completed | IE_conflict | IE_blocked

datatype lease_event_kind = LE_acquired | LE_heartbeat | LE_expired

datatype owner_event_kind = OE_assigned | OE_transferred | OE_released

datatype event =
    SessionCreated controller_session
  | EpochRegistered controller_epoch
  | EpochReleased controller_epoch
  | TaskCreated parent_task
  | TaskUpdated parent_task
  | TaskMoved string task_status
  | ChildTaskCreated child_task_boundary
  | PlanCommitted worker_plan
  | LeaseEvent lease_event_kind writer_lease
  | LeaseReleased string
  | WorkerEvent worker_event_kind worker_attempt "string option"
  | WorkerHandedOff worker_attempt
  | IntegrationEvent integration_event_kind integration_attempt
  | UsageRecorded usage_record
  | ApprovalEvent approval_status approval "string option"
  | BoundaryRegistered child_task_boundary
  | OwnerEvent owner_event_kind owner_assignment
  | ReviewEvent review_status owner_self_review
  | VerificationRecorded verification_record
  | ShadowRecorded shadow_record
  | ShadowCompared shadow_record string string
  | EgressRecorded egress_record
  | HandoffResult handoff_result

section \<open>The projection\<close>

record view =
  st_sessions :: "(string, controller_session) dict"
  st_epochs :: "(string, controller_epoch) dict"
  st_tasks :: "(string, parent_task) dict"
  st_plans :: "(string, worker_plan) dict"
  st_leases :: "(string, writer_lease) dict"
  st_attempts :: "(string, worker_attempt) dict"
  st_attempt_session :: "(string, string) dict"
  st_terminal_acks :: "string list"
  st_integration_attempts :: "(string, integration_attempt) dict"
  st_usage :: "(string, usage_record list) dict"
  st_approvals :: "(string, approval) dict"
  st_approval_task :: "(string, string) dict"
  st_children :: "(string, child_task_boundary) dict"
  st_child_ref_ids :: "(string \<times> string, string) dict"
  st_assignments :: "(string, owner_assignment) dict"
  st_reviews :: "(string, owner_self_review) dict"
  st_verifications :: "(string, verification_record) dict"
  st_shadow_records :: "(string, shadow_record) dict"
  st_egress_records :: "(string, egress_record) dict"

text \<open>
  The control handle of an attempt that a runner of this process executes
  (\<^verbatim>\<open>execution/coordination.py\<close>, which keeps the handles on the store object); \<open>hd_key\<close> tells
  one handle object from another.
\<close>

record execution_handle =
  hd_key :: nat
  hd_pause_requested :: bool
  hd_cancel_requested :: bool
  hd_done :: bool

record store = view +
  st_journal :: "event journal"
  st_handles :: "(string, execution_handle) dict"

definition empty_view :: view where
  "empty_view =
     \<lparr>st_sessions = [], st_epochs = [], st_tasks = [], st_plans = [], st_leases = [],
      st_attempts = [], st_attempt_session = [], st_terminal_acks = [],
      st_integration_attempts = [], st_usage = [], st_approvals = [], st_approval_task = [],
      st_children = [], st_child_ref_ids = [], st_assignments = [], st_reviews = [],
      st_verifications = [], st_shadow_records = [], st_egress_records = []\<rparr>"

section \<open>Updates of the projection\<close>

definition put_session where
  "put_session x = st_sessions_update (dput (cs_id x) x)"
definition put_epoch where
  "put_epoch x = st_epochs_update (dput (ce_id x) x)"
definition put_task where
  "put_task x = st_tasks_update (dput (pt_id x) x)"
definition put_plan where
  "put_plan x = st_plans_update (dput (wl_id x) x)"
definition put_lease where
  "put_lease x = st_leases_update (dput (le_id x) x)"
definition put_attempt where
  "put_attempt x = st_attempts_update (dput (wa_id x) x)"
definition put_integration where
  "put_integration x = st_integration_attempts_update (dput (ia_id x) x)"
definition put_approval where
  "put_approval x = st_approvals_update (dput (ap_id x) x)"
definition put_child where
  "put_child x = st_children_update (dput (cb_id x) x)"
definition put_assignment where
  "put_assignment x = st_assignments_update (dput (oa_child_task_id x) x)"
definition put_review where
  "put_review x = st_reviews_update (dput (or_id x) x)"
definition put_verification where
  "put_verification x = st_verifications_update (dput (vr_id x) x)"
definition put_shadow where
  "put_shadow x = st_shadow_records_update (dput (sr_id x) x)"
definition put_egress where
  "put_egress x = st_egress_records_update (dput (eg_id x) x)"

lemmas put_defs = put_session_def put_epoch_def put_task_def put_plan_def put_lease_def
  put_attempt_def put_integration_def put_approval_def put_child_def put_assignment_def
  put_review_def put_verification_def put_shadow_def put_egress_def

text \<open>\<^verbatim>\<open>if data.get("session_id")\<close>: neither absent nor empty.\<close>

definition put_attempt_session where
  "put_attempt_session i session =
     (case session of
        None \<Rightarrow> id
      | Some s \<Rightarrow> if s = [] then id else st_attempt_session_update (dput i s))"

definition put_approval_task where
  "put_approval_task i task =
     (case task of
        None \<Rightarrow> id
      | Some t \<Rightarrow> if t = [] then id else st_approval_task_update (dput i t))"

definition add_ack where
  "add_ack i = st_terminal_acks_update (\<lambda>xs. if i \<in> set xs then xs else xs @ [i])"

definition add_usage where
  "add_usage u = st_usage_update (\<lambda>d. dput (us_task_id u)
     ((case dget d (us_task_id u) of None \<Rightarrow> [] | Some us \<Rightarrow> us) @ [u]) d)"

section \<open>Replay\<close>

text \<open>The worker events the replay reads; the others only announce a request.\<close>

definition replayed_worker_events :: "worker_event_kind list" where
  "replayed_worker_events =
     [WE_queued, WE_request_bound, WE_claimed, WE_heartbeat, WE_recovered, WE_requeued,
      WE_blocked, WE_started, WE_stopped, WE_cancel_failed, WE_checkpointed]"

fun apply_event :: "event \<Rightarrow> 'a view_scheme \<Rightarrow> 'a view_scheme res" where
  "apply_event (SessionCreated s) v = Inr (put_session s v)"
| "apply_event (EpochRegistered e) v =
     (case dget (st_sessions v) (ce_controller_session_id e) of
        None \<Rightarrow> Inl KeyError
      | Some s \<Rightarrow> Inr (put_session (s\<lparr>cs_active_controller_epoch_id := Some (ce_id e),
                                      cs_version := cs_version s + 1\<rparr>) (put_epoch e v)))"
| "apply_event (EpochReleased e) v = Inr v"
| "apply_event (TaskCreated t) v = Inr (put_task t v)"
| "apply_event (TaskUpdated t) v = Inr (put_task t v)"
| "apply_event (TaskMoved _ _) v = Inr v"
| "apply_event (ChildTaskCreated c) v = Inr (put_child c v)"
| "apply_event (PlanCommitted p) v =
     (case dget (st_tasks v) (wl_parent_task_id p) of
        None \<Rightarrow> Inl KeyError
      | Some t \<Rightarrow> Inr (put_task (t\<lparr>pt_plan_id := Some (wl_id p), pt_status := TS_planned,
                                   pt_version := pt_version t + 1\<rparr>) (put_plan p v)))"
| "apply_event (LeaseEvent _ l) v = Inr (put_lease l v)"
| "apply_event (LeaseReleased i) v =
     (case dget (st_leases v) i of
        None \<Rightarrow> Inl KeyError
      | Some l \<Rightarrow> Inr (put_lease (l\<lparr>le_status := LS_released, le_version := le_version l + 1\<rparr>) v))"
| "apply_event (WorkerEvent k a session) v =
     (if k \<in> set replayed_worker_events
      then Inr (put_attempt_session (wa_id a) session (put_attempt a v))
      else if k = WE_terminal_ack
      then Inr (add_ack (wa_id a) (put_attempt_session (wa_id a) session (put_attempt a v)))
      else Inr v)"
| "apply_event (WorkerHandedOff a) v = Inr (put_attempt a v)"
| "apply_event (IntegrationEvent _ a) v = Inr (put_integration a v)"
| "apply_event (UsageRecorded u) v = Inr (add_usage u v)"
| "apply_event (ApprovalEvent _ a task) v = Inr (put_approval_task (ap_id a) task (put_approval a v))"
| "apply_event (BoundaryRegistered _) v = Inr v"
| "apply_event (OwnerEvent _ a) v = Inr (put_assignment a v)"
| "apply_event (ReviewEvent _ r) v = Inr (put_review r v)"
| "apply_event (VerificationRecorded r) v = Inr (put_verification r v)"
| "apply_event (ShadowRecorded r) v = Inr (put_shadow r v)"
| "apply_event (ShadowCompared _ i ref) v =
     (case dget (st_shadow_records v) i of
        None \<Rightarrow> Inr v
      | Some r \<Rightarrow> Inr (put_shadow (r\<lparr>sr_status := SH_compared, sr_real_outcome_ref := Some ref\<rparr>) v))"
| "apply_event (EgressRecorded r) v = Inr (put_egress r v)"
| "apply_event (HandoffResult _) v = Inr v"

text \<open>Folding a log of events over a view; the first that raises ends it.\<close>

fun run_log :: "('e \<Rightarrow> 'v \<Rightarrow> 'v res) \<Rightarrow> 'e list \<Rightarrow> 'v \<Rightarrow> 'v res" where
  "run_log f [] v = Inr v"
| "run_log f (e # es) v = (case f e v of Inl x \<Rightarrow> Inl x | Inr w \<Rightarrow> run_log f es w)"

definition replay :: "event list \<Rightarrow> 'a view_scheme \<Rightarrow> 'a view_scheme res" where
  "replay = run_log apply_event"

definition stored_events :: "event journal \<Rightarrow> event list" where
  "stored_events j = map snd (journal_events 0 j)"

text \<open>\<^verbatim>\<open>Store(journal)\<close>, before attempts are reclaimed.\<close>

definition open_store :: "event journal \<Rightarrow> store res" where
  "open_store j =
     (case replay (stored_events j) empty_view of
        Inl e \<Rightarrow> Inl e
      | Inr v \<Rightarrow> Inr (view.extend v \<lparr>st_journal = j, st_handles = []\<rparr>))"

section \<open>Commits\<close>

text \<open>
  \<^verbatim>\<open>key\<close> and \<^verbatim>\<open>payload\<close> of a commit: the idempotency key and the hash of the request. Every
  commit is stamped with an identifier and the time, which are not read back.
\<close>

type_synonym idem = "(idem_key \<times> string) option"

definition on_journal :: "(event journal, 'a) prog \<Rightarrow> ('r store_scheme, 'a) prog" where
  "on_journal m = (\<lambda>s. case m (st_journal s) of (r, j) \<Rightarrow> (r, s\<lparr>st_journal := j\<rparr>))"

definition commit_frame ::
    "event hashing \<Rightarrow> event list \<Rightarrow> (string, int) dict \<Rightarrow> idem \<Rightarrow> ('r store_scheme, unit) prog" where
  "commit_frame H es expected key =
     on_journal (append_frame H es expected
       (case key of
          None \<Rightarrow> None
        | Some (k, h) \<Rightarrow>
            Some (k, h, if length es = 1 then OneEvent (hd es) else ManyEvents es)) [] 0)"

definition commit :: "event hashing \<Rightarrow> event \<Rightarrow> idem \<Rightarrow> ('r store_scheme, unit) prog" where
  "commit H e key = commit_frame H [e] [] key"

definition check_idempotency :: "idem \<Rightarrow> 'r store_scheme \<Rightarrow> event response option res" where
  "check_idempotency key s =
     (case key of None \<Rightarrow> Inr None | Some (k, h) \<Rightarrow> idempotent_result k h (st_journal s))"

definition require_version :: "int \<Rightarrow> int \<Rightarrow> unit res" where
  "require_version actual expected =
     (if actual \<noteq> expected then Inl (ValueError ''version_conflict'') else Inr ())"

section \<open>Integration attempts and usage\<close>

text \<open>The commit comes first: the index changes only when it returns.\<close>

definition record_integration_attempt ::
    "event hashing \<Rightarrow> integration_attempt \<Rightarrow> integration_event_kind \<Rightarrow>
     ('r store_scheme, integration_attempt) prog" where
  "record_integration_attempt H a k =
     andthen (commit H (IntegrationEvent k a) None)
    (andthen (modify (put_integration a)) (ret a))"

definition latest_integration_attempt ::
    "string \<Rightarrow> string option \<Rightarrow> 'r view_scheme \<Rightarrow> integration_attempt option" where
  "latest_integration_attempt client_ref parent s =
     (let found = filter (\<lambda>a. ia_client_ref a = client_ref \<and>
                    (parent = None \<or> ia_parent_task_id a = parent))
                  (dvalues (st_integration_attempts s))
      in if found = [] then None else Some (last found))"

definition integration_attempts_for_order ::
    "string list \<Rightarrow> string option \<Rightarrow> 'r view_scheme \<Rightarrow> integration_attempt list" where
  "integration_attempts_for_order order parent s =
     List.map_filter (\<lambda>r. latest_integration_attempt r parent s) order"

datatype integration_outcome = IO_blocked | IO_queued | IO_running | IO_integrated

record integration_result =
  ir_client_ref :: string
  ir_status :: integration_outcome
  ir_code :: "string option"
  ir_message :: "string option"
  ir_owner_id :: "string option"
  ir_revision :: "string option"

definition integration_result_of :: "integration_attempt \<Rightarrow> integration_result" where
  "integration_result_of a =
     \<lparr>ir_client_ref = ia_client_ref a,
      ir_status = (case ia_status a of
          IS_conflicted \<Rightarrow> IO_blocked | IS_rejected \<Rightarrow> IO_blocked | IS_queued \<Rightarrow> IO_queued
        | IS_running \<Rightarrow> IO_running | IS_integrated \<Rightarrow> IO_integrated),
      ir_code = ia_code a, ir_message = ia_message a, ir_owner_id = ia_owner_id a,
      ir_revision = ia_revision a\<rparr>"

definition recover_integration_results ::
    "string list \<Rightarrow> string option \<Rightarrow> 'r view_scheme \<Rightarrow> integration_result list" where
  "recover_integration_results order parent s =
     map integration_result_of (integration_attempts_for_order order parent s)"

text \<open>The projection changes before the commit.\<close>

definition record_usage :: "event hashing \<Rightarrow> usage_record \<Rightarrow> ('r store_scheme, usage_record) prog" where
  "record_usage H u =
     andthen (modify (add_usage u)) (andthen (commit H (UsageRecorded u) None) (ret u))"

section \<open>Versions and snapshots\<close>

definition versions_of :: "string \<Rightarrow> ('a \<Rightarrow> int) \<Rightarrow> (string, 'a) dict \<Rightarrow> (string \<times> int) list" where
  "versions_of kind version d = map (\<lambda>(i, x). (kind @ '':'' @ i, version x)) d"

definition aggregate_versions :: "'r view_scheme \<Rightarrow> (string, int) dict" where
  "aggregate_versions s =
     fold (\<lambda>(k, v). dput k v)
       (versions_of ''controller_session'' cs_version (st_sessions s) @
        versions_of ''controller_epoch'' ce_version (st_epochs s) @
        versions_of ''parent_task'' pt_version (st_tasks s) @
        versions_of ''worker_plan'' wl_version (st_plans s) @
        versions_of ''writer_lease'' le_version (st_leases s) @
        versions_of ''worker_attempt'' wa_version (st_attempts s) @
        versions_of ''integration_attempt'' ia_version (st_integration_attempts s) @
        versions_of ''child_task'' cb_version (st_children s) @
        versions_of ''owner_assignment'' oa_version (st_assignments s) @
        versions_of ''owner_self_review'' or_version (st_reviews s) @
        versions_of ''verification'' vr_version (st_verifications s)) []"

definition store_compact :: "event hashing \<Rightarrow> ('r store_scheme, unit) prog" where
  "store_compact H =
     bind (get aggregate_versions) (\<lambda>vs. on_journal (modify (compact H vs)))"

section \<open>The interface of a commit log\<close>

text \<open>
  What the services rely on: a commit that returns has appended its event to the log and kept
  the view, and a log that agrees with the view is what a restart replays.
\<close>

locale commit_log =
  fixes log_commit :: "'e \<Rightarrow> 'k \<Rightarrow> ('s, unit) prog"
    and log_of :: "'s \<Rightarrow> 'e list"
    and view_of :: "'s \<Rightarrow> 'v"
    and apply_to :: "'e \<Rightarrow> 'v \<Rightarrow> 'v res"
    and initial :: "'v"
    and sound :: "'s \<Rightarrow> bool"
  assumes commit_appends:
      "sound s \<Longrightarrow> log_commit e k s = (Inr (), t) \<Longrightarrow>
         sound t \<and> log_of t = log_of s @ [e] \<and> view_of t = view_of s"
begin

lemma log_append:
  "run_log apply_to (es @ [e]) v = (case run_log apply_to es v of Inl x \<Rightarrow> Inl x | Inr w \<Rightarrow> apply_to e w)"
  by (induction es arbitrary: v) (auto split: sum.splits)

lemma update_then_commit:
  assumes "sound s'" and "log_of s' = log_of s"
    and "run_log apply_to (log_of s) initial = Inr (view_of s)"
    and "apply_to e (view_of s) = Inr (view_of s')"
    and "log_commit e k s' = (Inr (), t)"
  shows "sound t \<and> run_log apply_to (log_of t) initial = Inr (view_of t)"
  using commit_appends [OF assms(1,5)] assms(2-4) by (simp add: log_append)

lemma commit_then_update:
  assumes "sound s" and "run_log apply_to (log_of s) initial = Inr (view_of s)"
    and "log_commit e k s = (Inr (), t)"
    and "apply_to e (view_of t) = Inr (view_of u)" and "log_of u = log_of t" and "sound u"
  shows "sound u \<and> run_log apply_to (log_of u) initial = Inr (view_of u)"
  using commit_appends [OF assms(1,3)] assms by (simp add: log_append)

lemma commit_silent:
  assumes "sound s" and "run_log apply_to (log_of s) initial = Inr (view_of s)"
    and "log_commit e k s = (Inr (), t)" and "apply_to e (view_of s) = Inr (view_of s)"
  shows "sound t \<and> run_log apply_to (log_of t) initial = Inr (view_of t)"
  using commit_appends [OF assms(1,3)] assms by (simp add: log_append)

end

section \<open>Lemmas on commits\<close>

text \<open>
  The part of the store a replay rebuilds: all dictionaries but \<open>child_ref_ids\<close>, which no event
  carries.
\<close>

definition recorded :: "'r view_scheme \<Rightarrow> view" where
  "recorded s = (view.truncate s)\<lparr>st_child_ref_ids := []\<rparr>"

definition event_log :: "'r store_scheme \<Rightarrow> event list" where
  "event_log s = stored_events (st_journal s)"

definition sound_store :: "event hashing \<Rightarrow> 'r store_scheme \<Rightarrow> bool" where
  "sound_store H s \<longleftrightarrow> journal_inv H (st_journal s)"

text \<open>The projection is what replaying the journal gives, and the journal is what the disk holds.\<close>

definition consistent :: "event hashing \<Rightarrow> 'r store_scheme \<Rightarrow> bool" where
  "consistent H s \<longleftrightarrow>
     sound_store H s \<and> replay (event_log s) empty_view = Inr (recorded s)"

lemma on_journal_Inr:
  "on_journal m s = (Inr x, t) \<longleftrightarrow> (\<exists>j. m (st_journal s) = (Inr x, j) \<and> t = s\<lparr>st_journal := j\<rparr>)"
  by (auto simp: on_journal_def split: prod.splits)

lemma recorded_journal [simp]: "recorded (s\<lparr>st_journal := j\<rparr>) = recorded s"
  by (simp add: recorded_def view.defs)

lemma commit_frame_Inr:
  assumes "sound_store H s" and "es \<noteq> []" and "commit_frame H es x key s = (Inr (), t)"
  shows "sound_store H t \<and> event_log t = event_log s @ es \<and> (\<exists>j. t = s\<lparr>st_journal := j\<rparr>)"
proof -
  obtain idem j where j: "append_frame H es x idem [] 0 (st_journal s) = (Inr (), j)"
    and t: "t = s\<lparr>st_journal := j\<rparr>"
    using assms(3) by (auto simp: commit_frame_def on_journal_Inr)
  have inv: "journal_inv H (st_journal s)" using assms(1) by (simp add: sound_store_def)
  then have pos: "0 \<le> jl_sequence (st_journal s)" by (auto simp: journal_inv_def)
  have new: "map snd (concat (map (event_after 0) (number_events n es))) = es" if "0 < n" for n
    using that by (induction n es rule: number_events.induct) auto
  have "map snd (concat (map (event_after 0) (frame_of (jl_sequence (st_journal s)) es idem))) = es"
    using new [of "jl_sequence (st_journal s) + 1"] pos by (cases idem) (auto simp: frame_of_def)
  then have "event_log t = event_log s @ es"
    using append_success [OF j] by (simp add: t event_log_def stored_events_def journal_events_def)
  then show ?thesis
    using append_keeps_inv [OF inv assms(2) j] t by (auto simp: sound_store_def)
qed

lemma commit_Inr:
  "sound_store H s \<Longrightarrow> commit H e key s = (Inr (), t) \<Longrightarrow>
     sound_store H t \<and> event_log t = event_log s @ [e] \<and> (\<exists>j. t = s\<lparr>st_journal := j\<rparr>)"
  unfolding commit_def by (rule commit_frame_Inr) simp_all

interpretation store_log: commit_log "commit H" event_log recorded apply_event empty_view
    "sound_store H"
  for H :: "event hashing"
proof
  fix s t :: "'a store_scheme" and e key
  assume "sound_store H s" and "commit H e key s = (Inr (), t)"
  from commit_Inr [OF this]
  show "sound_store H t \<and> event_log t = event_log s @ [e] \<and> recorded t = recorded s" by auto
qed

section \<open>Consistency of the projection with the journal\<close>

lemma recorded_put [simp]:
  "recorded (put_session x1 s) = put_session x1 (recorded s)"
  "recorded (put_epoch x2 s) = put_epoch x2 (recorded s)"
  "recorded (put_task x3 s) = put_task x3 (recorded s)"
  "recorded (put_plan x4 s) = put_plan x4 (recorded s)"
  "recorded (put_lease x5 s) = put_lease x5 (recorded s)"
  "recorded (put_attempt x6 s) = put_attempt x6 (recorded s)"
  "recorded (put_integration x7 s) = put_integration x7 (recorded s)"
  "recorded (put_approval x8 s) = put_approval x8 (recorded s)"
  "recorded (put_child x9 s) = put_child x9 (recorded s)"
  "recorded (put_assignment y1 s) = put_assignment y1 (recorded s)"
  "recorded (put_review y2 s) = put_review y2 (recorded s)"
  "recorded (put_verification y3 s) = put_verification y3 (recorded s)"
  "recorded (put_shadow y4 s) = put_shadow y4 (recorded s)"
  "recorded (put_egress y5 s) = put_egress y5 (recorded s)"
  "recorded (add_usage y6 s) = add_usage y6 (recorded s)"
  "recorded (add_ack i s) = add_ack i (recorded s)"
  "recorded (put_attempt_session i w s) = put_attempt_session i w (recorded s)"
  "recorded (put_approval_task i w s) = put_approval_task i w (recorded s)"
  by (simp_all add: recorded_def view.defs put_defs add_usage_def add_ack_def
      put_attempt_session_def put_approval_task_def split: option.split)

lemma recorded_select [simp]:
  "st_sessions (recorded s) = st_sessions s" "st_tasks (recorded s) = st_tasks s"
  "st_leases (recorded s) = st_leases s" "st_shadow_records (recorded s) = st_shadow_records s"
  "st_attempts (recorded s) = st_attempts s" "st_assignments (recorded s) = st_assignments s"
  "st_child_ref_ids (recorded s) = []"
  by (simp_all add: recorded_def view.defs)

lemma put_journal [simp]:
  "st_journal (put_session x1 t) = st_journal t" "st_journal (put_epoch x2 t) = st_journal t"
  "st_journal (put_task x3 t) = st_journal t" "st_journal (put_plan x4 t) = st_journal t"
  "st_journal (put_lease x5 t) = st_journal t" "st_journal (put_attempt x6 t) = st_journal t"
  "st_journal (put_integration x7 t) = st_journal t" "st_journal (put_approval x8 t) = st_journal t"
  "st_journal (put_child x9 t) = st_journal t" "st_journal (put_assignment y1 t) = st_journal t"
  "st_journal (put_review y2 t) = st_journal t" "st_journal (put_verification y3 t) = st_journal t"
  "st_journal (put_shadow y4 t) = st_journal t" "st_journal (put_egress y5 t) = st_journal t"
  "st_journal (add_usage y6 t) = st_journal t" "st_journal (add_ack i t) = st_journal t"
  "st_journal (put_attempt_session i w t) = st_journal t"
  "st_journal (put_approval_task i w t) = st_journal t"
  by (simp_all add: put_defs add_usage_def add_ack_def put_attempt_session_def
      put_approval_task_def split: option.split)

lemma apply_event_recorded:
  "apply_event e s = Inr t \<Longrightarrow> apply_event e (recorded s) = Inr (recorded t)"
  by (cases e) (auto split: option.splits if_splits)

lemma apply_event_journal: "apply_event e s = Inr t \<Longrightarrow> st_journal t = st_journal s"
  by (cases e) (auto split: option.splits if_splits)

lemma consistentD: "consistent H s \<Longrightarrow> sound_store H s"
  by (simp add: consistent_def)

lemma sound_store_journal:
  "st_journal s = st_journal t \<Longrightarrow> sound_store H s = sound_store H t"
  "st_journal s = st_journal t \<Longrightarrow> event_log s = event_log t"
  by (simp_all add: sound_store_def event_log_def)

text \<open>The three ways a service writes: projection first, journal first, and an event nobody replays.\<close>

lemma consistent_update_commit:
  assumes "consistent H s" and "apply_event e s = Inr s'" and "commit H e k s' = (Inr (), t)"
  shows "consistent H t"
  using store_log.update_then_commit [of H s' s e k t] assms
    sound_store_journal [OF apply_event_journal [OF assms(2)]] apply_event_recorded [OF assms(2)]
  by (simp add: consistent_def replay_def)

lemma consistent_commit_update:
  assumes "consistent H s" and "commit H e k s = (Inr (), t)" and "apply_event e t = Inr u"
  shows "consistent H u"
  using store_log.commit_then_update [of H s e k t u] assms
    sound_store_journal [OF apply_event_journal [OF assms(3)]] apply_event_recorded [OF assms(3)]
    commit_Inr [OF consistentD [OF assms(1)] assms(2)]
  by (auto simp: consistent_def replay_def)

lemma consistent_silent:
  assumes "consistent H s" and "commit H e k s = (Inr (), t)" and "apply_event e s = Inr s"
  shows "consistent H t"
  using store_log.commit_silent [of H s e k t] assms apply_event_recorded [OF assms(3)]
  by (simp add: consistent_def replay_def)

lemma consistent_child_ref_ids:
  "consistent H s \<Longrightarrow> consistent H (s\<lparr>st_child_ref_ids := d\<rparr>)"
  by (simp add: consistent_def sound_store_def event_log_def recorded_def view.defs)

lemma commit_view:
  "commit H e k s = (r, t) \<Longrightarrow> \<exists>j. t = s\<lparr>st_journal := j\<rparr>"
  by (auto simp: commit_def commit_frame_def on_journal_def split: prod.splits)

section \<open>Restart\<close>

text \<open>A new process on the same data directory: load the journal, then replay it.\<close>

definition restart ::
    "event hashing \<Rightarrow> int option \<Rightarrow> int \<Rightarrow> append_io list \<Rightarrow> 'r store_scheme \<Rightarrow> store res" where
  "restart H max_bytes min_free io s =
     (case load_journal H (boot (disk.truncate (st_journal s)) max_bytes min_free io) of
        (Inl e, _) \<Rightarrow> Inl e
      | (Inr _, j) \<Rightarrow> open_store j)"

definition new_store :: "append_io list \<Rightarrow> store" where
  "new_store io = view.extend empty_view \<lparr>st_journal = fresh_journal io, st_handles = []\<rparr>"

lemma new_store_select [simp]:
  "st_sessions (new_store io) = []" "st_epochs (new_store io) = []" "st_tasks (new_store io) = []"
  "st_plans (new_store io) = []" "st_leases (new_store io) = []" "st_attempts (new_store io) = []"
  "st_attempt_session (new_store io) = []" "st_terminal_acks (new_store io) = []"
  "st_integration_attempts (new_store io) = []" "st_usage (new_store io) = []"
  "st_approvals (new_store io) = []" "st_approval_task (new_store io) = []"
  "st_children (new_store io) = []" "st_child_ref_ids (new_store io) = []"
  "st_assignments (new_store io) = []" "st_reviews (new_store io) = []"
  "st_verifications (new_store io) = []" "st_shadow_records (new_store io) = []"
  "st_egress_records (new_store io) = []" "st_handles (new_store io) = []"
  "st_journal (new_store io) = fresh_journal io"
  by (simp_all add: new_store_def empty_view_def view.defs)

lemma recorded_new_store [simp]: "recorded (new_store io) = empty_view"
  by (simp add: recorded_def new_store_def empty_view_def view.defs)

lemma consistent_new_store: "consistent H (new_store io)"
  by (simp add: consistent_def sound_store_def event_log_def stored_events_def journal_events_def
      replay_def new_store_def view.defs journal_inv_fresh)
    (simp add: fresh_journal_def empty_view_def recorded_def view.defs)

lemma restart_same_log:
  assumes "consistent H s"
  shows "\<exists>t. restart H m f io s = Inr t \<and> recorded t = recorded s \<and>
    st_child_ref_ids t = [] \<and> consistent H t \<and> event_log t = event_log s"
proof -
  obtain j where j: "load_journal H (boot (disk.truncate (st_journal s)) m f io) = (Inr (), j)"
    and recs: "jl_records j = jl_records (st_journal s)" and inv: "journal_inv H j"
    using journal_inv_restart [of H "st_journal s" m f io] assms
    by (auto simp: consistent_def sound_store_def)
  have log: "stored_events j = event_log s"
    using recs by (simp add: event_log_def stored_events_def journal_events_def)
  let ?t = "view.extend (recorded s) \<lparr>st_journal = j, st_handles = []\<rparr>"
  have "open_store j = Inr ?t"
    using assms by (simp add: open_store_def log consistent_def)
  moreover have "recorded ?t = recorded s" and "st_child_ref_ids ?t = []" and "st_journal ?t = j"
    by (simp_all add: recorded_def view.defs)
  ultimately show ?thesis
    using assms j inv log by (simp add: restart_def consistent_def sound_store_def event_log_def)
qed

lemma restart_same:
  "consistent H s \<Longrightarrow>
     \<exists>t. restart H m f io s = Inr t \<and> recorded t = recorded s \<and>
       st_child_ref_ids t = [] \<and> consistent H t"
  using restart_same_log by blast



section \<open>A disk that works\<close>

text \<open>
  No write fails and no limit is set: then every commit returns. Frames are assumed shorter than
  \<open>2 ^ 62\<close> bytes.
\<close>

definition healthy :: "event hashing \<Rightarrow> 'r store_scheme \<Rightarrow> bool" where
  "healthy H s \<longleftrightarrow>
     jl_io (st_journal s) = [] \<and> jl_max_bytes (st_journal s) = None \<and>
     (\<forall>rs. 0 \<le> hs_frame_size H rs \<and> hs_frame_size H rs \<le> 2 ^ 62)"

lemma append_ok:
  assumes "jl_io j = []" and "jl_max_bytes j = None"
    and "0 \<le> hs_frame_size H (frame_of (jl_sequence j) es idem)"
    and "hs_frame_size H (frame_of (jl_sequence j) es idem) \<le> 2 ^ 62"
  shows "\<exists>k. append_frame H es x idem c t j = (Inr (), k) \<and> jl_io k = [] \<and> jl_max_bytes k = None"
  using assms
  by (simp add: append_frame_def next_io_def ensure_storage_capacity_def Let_def bind_def andthen_def
      write_frame_def)

lemma healthy_commit_frame:
  assumes "healthy H s"
  shows "\<exists>j. commit_frame H es x k s = (Inr (), s\<lparr>st_journal := j\<rparr>) \<and>
    healthy H (s\<lparr>st_journal := j\<rparr>)"
proof -
  let ?idem = "case k of None \<Rightarrow> None
      | Some (k, h) \<Rightarrow> Some (k, h, if length es = 1 then OneEvent (hd es) else ManyEvents es)"
  obtain j where "append_frame H es x ?idem [] 0 (st_journal s) = (Inr (), j)"
    "jl_io j = [] \<and> jl_max_bytes j = None"
    using append_ok [of "st_journal s" H es ?idem x "[]" 0] assms by (auto simp: healthy_def)
  then show ?thesis
    using assms by (intro exI [of _ j]) (simp add: commit_frame_def on_journal_def healthy_def)
qed

lemma healthy_commit:
  "healthy H s \<Longrightarrow>
     \<exists>j. commit H e k s = (Inr (), s\<lparr>st_journal := j\<rparr>) \<and> healthy H (s\<lparr>st_journal := j\<rparr>)"
  unfolding commit_def by (rule healthy_commit_frame)

lemma healthy_journal: "st_journal s = st_journal t \<Longrightarrow> healthy H s = healthy H t"
  by (simp add: healthy_def)

text \<open>On a working disk every event that applies can be recorded: how stores are built below.\<close>

lemma extend_store:
  assumes "healthy H s" and "consistent H s" and "apply_event e s = Inr u"
  shows "\<exists>j. consistent H (u\<lparr>st_journal := j\<rparr>) \<and> healthy H (u\<lparr>st_journal := j\<rparr>) \<and>
    jl_idempotency j = jl_idempotency (st_journal s)"
proof -
  have "healthy H u"
    using assms(1) healthy_journal [OF apply_event_journal [OF assms(3)], of H] by simp
  then obtain j where j: "commit H e None u = (Inr (), u\<lparr>st_journal := j\<rparr>)"
    and "healthy H (u\<lparr>st_journal := j\<rparr>)" using healthy_commit by blast
  moreover from j have "append_frame H [e] [] None [] 0 (st_journal u) = (Inr (), j)"
    by (auto simp: commit_def commit_frame_def on_journal_Inr dest: arg_cong [of _ _ st_journal])
  from append_success [OF this] have "jl_idempotency j = jl_idempotency (st_journal s)"
    using apply_event_journal [OF assms(3)] by simp
  ultimately show ?thesis using consistent_update_commit [OF assms(2,3) j] by blast
qed

definition unit_hashing :: "'e hashing" where
  "unit_hashing = \<lparr>hs_length = (\<lambda>_. 1), hs_checksum = (\<lambda>_. ''c''), hs_canonical = (\<lambda>_. ''p''),
                   hs_frame_size = (\<lambda>_. 1)\<rparr>"

lemma healthy_new_store [simp]: "healthy unit_hashing (new_store [])"
  by (simp add: healthy_def new_store_def view.defs fresh_journal_def boot_def disk.defs
      unit_hashing_def)

end
