(* ===== verification/Regions.thy ===== *)
theory Regions
  imports PyValues
begin

text \<open>
  Region algebra: the conflict test \<^verbatim>\<open>overlaps\<close> of \<^verbatim>\<open>application/service.py\<close> and the
  containment test \<^verbatim>\<open>_covers\<close> of \<^verbatim>\<open>ownership/boundaries.py\<close> (repeated in
  \<^verbatim>\<open>evidence/verifier.py\<close>), on the declared write regions.
\<close>

section \<open>Overlap\<close>

text \<open>
  \<^verbatim>\<open>path == prefix or path.startswith(prefix + "/")\<close>, the containment of paths used throughout.
\<close>

definition under :: "string \<Rightarrow> string \<Rightarrow> bool" where
  "under base path \<longleftrightarrow> path = base \<or> startswith path (base @ ''/'')"

text \<open>\<^verbatim>\<open>_value_set\<close>: the set of \<^verbatim>\<open>repr\<close>s is the set of values, \<^verbatim>\<open>repr\<close> being injective on them.\<close>

definition value_set :: "pyval \<Rightarrow> pyval set option" where
  "value_set v =
     (case v of
        VList xs \<Rightarrow> Some (set xs)
      | VDict d \<Rightarrow> (case dget d ''keys'' of Some (VList xs) \<Rightarrow> Some (set xs) | _ \<Rightarrow> None)
      | _ \<Rightarrow> None)"

definition float_pair :: "builtins \<Rightarrow> pyval \<Rightarrow> pyval \<Rightarrow> (pyfloat \<times> pyfloat) option res" where
  "float_pair B x y =
     (case py_float B x of
        FloatBad \<Rightarrow> Inr None
      | FloatOverflow \<Rightarrow> Inl OverflowError
      | FloatOk f \<Rightarrow>
     (case py_float B y of
        FloatBad \<Rightarrow> Inr None
      | FloatOverflow \<Rightarrow> Inl OverflowError
      | FloatOk g \<Rightarrow> Inr (Some (f, g))))"

definition range_bounds :: "builtins \<Rightarrow> pyval \<Rightarrow> (pyfloat \<times> pyfloat) option res" where
  "range_bounds B v =
     (case v of
        VDict d \<Rightarrow>
          (case (dget d ''start'', dget d ''end'') of
             (Some x, Some y) \<Rightarrow> float_pair B x y
           | _ \<Rightarrow> Inr None)
      | VList [x, y] \<Rightarrow> float_pair B x y
      | _ \<Rightarrow> Inr None)"

definition ranges_overlap :: "builtins \<Rightarrow> pyval \<Rightarrow> pyval \<Rightarrow> bool res" where
  "ranges_overlap B left right =
     (case range_bounds B left of
        Inl e \<Rightarrow> Inl e
      | Inr a \<Rightarrow>
     (case range_bounds B right of
        Inl e \<Rightarrow> Inl e
      | Inr b \<Rightarrow>
     (case (a, b) of
        (Some (a0, a1), Some (b0, b1)) \<Rightarrow> Inr (pf_le (pf_max a0 b0) (pf_min a1 b1))
      | _ \<Rightarrow> Inr True)))"

definition paths_overlap :: "string \<Rightarrow> string \<Rightarrow> bool" where
  "paths_overlap left right \<longleftrightarrow>
     left = right \<or> startswith left (right @ ''/'') \<or> startswith right (left @ ''/'')"

definition overlaps :: "builtins \<Rightarrow> resource_region \<Rightarrow> resource_region \<Rightarrow> bool res" where
  "overlaps B a b =
     (let sa = rr_selector_type a; sb = rr_selector_type b;
          va = rr_selector_value a; vb = rr_selector_value b in
      if (rr_resource_kind a, rr_resource_id a) \<noteq> (rr_resource_kind b, rr_resource_id b)
      then Inr False
      else if rr_base_revision a \<noteq> rr_base_revision b then Inr True
      else if sa = ST_whole_resource \<or> sb = ST_whole_resource then Inr True
      else if sa = sb \<and> sb = ST_symbol then Inr (py_eq va vb)
      else if sa = sb \<and> sb = ST_path_prefix
      then Inr (paths_overlap (rstrip_slash (py_str B va)) (rstrip_slash (py_str B vb)))
      else if sa = sb \<and> sb = ST_row_keys
      then Inr (case (value_set va, value_set vb) of
                  (Some l, Some r) \<Rightarrow> l \<inter> r \<noteq> {}
                | _ \<Rightarrow> True)
      else if sa = sb \<and> sb = ST_partition then Inr (py_eq va vb)
      else if sa = sb \<and> sb = ST_key_range then ranges_overlap B va vb
      else if sa = sb \<and> sb = ST_json_pointer
      then Inr (paths_overlap (rstrip_slash (py_str B va)) (rstrip_slash (py_str B vb)))
      else if sa = sb \<and> sb = ST_provider_subresource then Inr (py_eq va vb)
      else Inr True)"

section \<open>Containment\<close>

definition covers :: "builtins \<Rightarrow> resource_region \<Rightarrow> resource_region \<Rightarrow> bool" where
  "covers B allowed requested =
     (if (rr_resource_kind allowed, rr_resource_id allowed, rr_base_revision allowed) \<noteq>
         (rr_resource_kind requested, rr_resource_id requested, rr_base_revision requested)
      then False
      else if rr_selector_type allowed = ST_whole_resource then True
      else if rr_selector_type allowed = rr_selector_type requested \<and>
              rr_selector_type requested = ST_path_prefix
      then under (rstrip_slash (py_str B (rr_selector_value allowed)))
                 (rstrip_slash (py_str B (rr_selector_value requested)))
      else rr_selector_type allowed = rr_selector_type requested \<and>
           py_eq (rr_selector_value allowed) (rr_selector_value requested))"

section \<open>Paths\<close>

lemma under_refl [simp]: "under p p"
  by (simp add: under_def)

lemma under_trans: "under p q \<Longrightarrow> under q r \<Longrightarrow> under p r"
  by (auto simp: under_def prefix_def)

lemma prefix_slash: "prefix (p @ ''/'') (q @ ''/'') \<longleftrightarrow> under p q"
  by (auto simp: under_def prefix_snoc)

text \<open>
  The comparison of \<^verbatim>\<open>overlaps\<close> decides exactly whether some path lies under both prefixes.
\<close>

lemma paths_overlap_iff: "paths_overlap l r \<longleftrightarrow> (\<exists>p. under l p \<and> under r p)"
proof
  assume "paths_overlap l r"
  then have "under l r \<or> under r l"
    by (auto simp: paths_overlap_def under_def)
  then show "\<exists>p. under l p \<and> under r p"
    by (auto intro: under_refl)
next
  assume "\<exists>p. under l p \<and> under r p"
  then obtain p where "prefix (l @ ''/'') (p @ ''/'')" "prefix (r @ ''/'') (p @ ''/'')"
    using prefix_slash by blast
  then have "prefix (l @ ''/'') (r @ ''/'') \<or> prefix (r @ ''/'') (l @ ''/'')"
    by (rule prefix_same_cases)
  then show "paths_overlap l r"
    by (auto simp: prefix_slash under_def paths_overlap_def)
qed

lemma paths_overlap_sym: "paths_overlap l r \<longleftrightarrow> paths_overlap r l"
  by (auto simp: paths_overlap_def)

section \<open>Containment is a preorder\<close>

definition same_resource :: "resource_region \<Rightarrow> resource_region \<Rightarrow> bool" where
  "same_resource a b \<longleftrightarrow>
     rr_resource_kind a = rr_resource_kind b \<and> rr_resource_id a = rr_resource_id b \<and>
     rr_base_revision a = rr_base_revision b"

definition selector_path :: "builtins \<Rightarrow> resource_region \<Rightarrow> string" where
  "selector_path B r = rstrip_slash (py_str B (rr_selector_value r))"

lemma covers_iff:
  "covers B a b \<longleftrightarrow> same_resource a b \<and>
     (rr_selector_type a = ST_whole_resource \<or>
      rr_selector_type a = rr_selector_type b \<and>
      (if rr_selector_type a = ST_path_prefix then under (selector_path B a) (selector_path B b)
       else py_eq (rr_selector_value a) (rr_selector_value b)))"
  by (auto simp: covers_def same_resource_def selector_path_def)

lemma covers_refl: "sane (rr_selector_value r) \<Longrightarrow> covers B r r"
  by (simp add: covers_iff same_resource_def py_eq_refl)

lemma covers_trans:
  assumes ab: "covers B a b" and bc: "covers B b c"
  shows "covers B a c"
proof -
  have res: "same_resource a c"
    using ab bc by (simp add: covers_iff same_resource_def)
  consider "rr_selector_type a = ST_whole_resource"
    | "rr_selector_type a = ST_path_prefix"
    | "rr_selector_type a \<noteq> ST_whole_resource" "rr_selector_type a \<noteq> ST_path_prefix" by blast
  then show ?thesis
  proof cases
    case 1
    with res show ?thesis by (simp add: covers_iff)
  next
    case 2
    with ab have b: "rr_selector_type b = ST_path_prefix" "under (selector_path B a) (selector_path B b)"
      by (auto simp: covers_iff)
    with bc have "rr_selector_type c = ST_path_prefix" "under (selector_path B b) (selector_path B c)"
      by (auto simp: covers_iff split: if_splits)
    with b 2 res show ?thesis by (auto simp: covers_iff intro: under_trans)
  next
    case 3
    with ab have b: "rr_selector_type b = rr_selector_type a"
        "py_eq (rr_selector_value a) (rr_selector_value b)"
      by (auto simp: covers_iff)
    with bc 3 have "rr_selector_type c = rr_selector_type a"
        "py_eq (rr_selector_value b) (rr_selector_value c)"
      by (auto simp: covers_iff split: if_splits)
    with b 3 res show ?thesis by (auto simp: covers_iff intro: py_eq_trans)
  qed
qed

lemma covers_same_resource:
  "covers B a b \<Longrightarrow> rr_resource_kind a = rr_resource_kind b \<and>
     rr_resource_id a = rr_resource_id b \<and> rr_base_revision a = rr_base_revision b"
  by (auto simp: covers_def split: if_splits)

section \<open>Overlap: exactness and symmetry\<close>

lemma overlaps_path_prefix:
  "same_resource a b \<Longrightarrow> rr_selector_type a = ST_path_prefix \<Longrightarrow>
     rr_selector_type b = ST_path_prefix \<Longrightarrow>
     overlaps B a b = Inr (paths_overlap (selector_path B a) (selector_path B b))"
  by (simp add: overlaps_def same_resource_def selector_path_def)

lemma overlaps_key_range:
  "same_resource a b \<Longrightarrow> rr_selector_type a = ST_key_range \<Longrightarrow>
     rr_selector_type b = ST_key_range \<Longrightarrow>
     overlaps B a b = ranges_overlap B (rr_selector_value a) (rr_selector_value b)"
  by (simp add: overlaps_def same_resource_def)

lemma float_pair_error: "float_pair B x y = Inl e \<Longrightarrow> e = OverflowError"
  by (auto simp: float_pair_def split: float_res.splits)

lemma range_bounds_error: "range_bounds B v = Inl e \<Longrightarrow> e = OverflowError"
  by (auto simp: range_bounds_def split: pyval.splits list.splits option.splits
      dest: float_pair_error)

definition nan_free_bounds :: "builtins \<Rightarrow> pyval \<Rightarrow> bool" where
  "nan_free_bounds B v \<longleftrightarrow>
     (case range_bounds B v of Inr (Some (x, y)) \<Rightarrow> x \<noteq> NaN \<and> y \<noteq> NaN | _ \<Rightarrow> True)"

lemma ranges_overlap_sym:
  assumes "nan_free_bounds B v" and "nan_free_bounds B w"
  shows "ranges_overlap B v w = ranges_overlap B w v"
  using assms
  by (cases "range_bounds B v"; cases "range_bounds B w")
    (auto simp: ranges_overlap_def nan_free_bounds_def pf_max_le le_pf_min
      dest: range_bounds_error split: option.splits)

section \<open>What the lease check and the boundary check guarantee\<close>

text \<open>Fixed built-ins and a region on the file \<open>f\<close>, for the witnesses.\<close>

definition plain_builtins :: builtins where
  "plain_builtins = \<lparr>bi_str = (\<lambda>_. []), bi_float = (\<lambda>_. FloatBad)\<rparr>"

definition region_at :: "selector_type \<Rightarrow> pyval \<Rightarrow> resource_region" where
  "region_at st v =
     \<lparr>rr_resource_kind = RK_file, rr_resource_id = ''f'', rr_selector_type = st,
      rr_selector_value = v, rr_base_revision = ''r1''\<rparr>"

lemma under_antimono: "(\<forall>p. under r p \<longrightarrow> under l p) \<longleftrightarrow> under l r"
  by (blast intro: under_refl under_trans)

text \<open>
  A region that a declared boundary contains conflicts with it: for every selector whose
  comparison does not go through a formatted copy of the value (and for a JSON pointer given as
  text), a write that \<^verbatim>\<open>_covers\<close> admits inside an allowed region is one that \<^verbatim>\<open>overlaps\<close>
  reports against a lease on that region, so containment never escapes the lease check.
\<close>

theorem containment_conflicts:
  assumes "covers B a b"
    and "rr_selector_type a \<notin> {ST_row_keys, ST_key_range}"
    and "rr_selector_type a = ST_json_pointer \<longrightarrow> (\<exists>s. rr_selector_value a = VStr s)"
  shows "overlaps B a b = Inr True"
proof -
  have "paths_overlap (selector_path B a) (selector_path B b)"
    if "under (selector_path B a) (selector_path B b)"
    using that by (auto simp: paths_overlap_iff intro: under_refl)
  moreover have "py_eq (VStr s) v \<Longrightarrow> v = VStr s" for s v by simp
  ultimately show ?thesis
    using assms unfolding covers_iff
    by (cases "rr_selector_type a")
      (auto simp: overlaps_def same_resource_def selector_path_def paths_overlap_def Let_def)
qed

lemma containment_conflicts_witness:
  "overlaps plain_builtins (region_at ST_path_prefix (VStr ''src/''))
     (region_at ST_path_prefix (VStr ''src/a.py'')) = Inr True"
  by (rule containment_conflicts)
    (simp_all add: region_at_def covers_def under_def py_str_def rstrip_slash_def)

text \<open>
  Path prefixes are compared exactly: two path-prefix regions of the same resource and
  revision conflict if and only if some path lies in both, and one contains the other if and
  only if every path of the second lies in the first.
\<close>

theorem path_prefix_exact:
  assumes "same_resource a b"
    and "rr_selector_type a = ST_path_prefix" and "rr_selector_type b = ST_path_prefix"
  shows "(overlaps B a b = Inr True \<longleftrightarrow>
           (\<exists>p. under (selector_path B a) p \<and> under (selector_path B b) p)) \<and>
         (covers B a b \<longleftrightarrow> (\<forall>p. under (selector_path B b) p \<longrightarrow> under (selector_path B a) p))"
  using assms by (simp add: overlaps_path_prefix paths_overlap_iff covers_iff under_antimono)

lemma path_prefix_exact_witness:
  "covers plain_builtins (region_at ST_path_prefix (VStr ''a''))
     (region_at ST_path_prefix (VStr ''a/b'')) \<longleftrightarrow>
   (\<forall>p. under ''a/b'' p \<longrightarrow> under ''a'' p)"
  using path_prefix_exact [of "region_at ST_path_prefix (VStr ''a'')"
      "region_at ST_path_prefix (VStr ''a/b'')" plain_builtins]
  by (simp add: region_at_def same_resource_def selector_path_def py_str_def rstrip_slash_def)

text \<open>
  Key ranges with finite bounds conflict exactly when the closed intervals have a common
  point.
\<close>

theorem key_range_exact:
  assumes "same_resource a b"
    and "rr_selector_type a = ST_key_range" and "rr_selector_type b = ST_key_range"
    and "range_bounds B (rr_selector_value a) = Inr (Some (Fin a0, Fin a1))"
    and "range_bounds B (rr_selector_value b) = Inr (Some (Fin b0, Fin b1))"
  shows "overlaps B a b = Inr (\<exists>x. a0 \<le> x \<and> x \<le> a1 \<and> b0 \<le> x \<and> x \<le> b1)"
proof -
  have "a0 \<le> a1 \<and> a0 \<le> b1 \<and> b0 \<le> a1 \<and> b0 \<le> b1 \<longleftrightarrow>
      (\<exists>x. a0 \<le> x \<and> x \<le> a1 \<and> b0 \<le> x \<and> x \<le> b1)"
    by (metis linorder_le_cases order.refl order.trans)
  then show ?thesis
    using assms
    by (auto simp: overlaps_key_range ranges_overlap_def pf_max_le le_pf_min)
qed

lemma key_range_exact_witness:
  "overlaps plain_builtins (region_at ST_key_range (VList [VInt 1, VInt 5]))
     (region_at ST_key_range (VList [VInt 5, VInt 9])) =
   Inr (\<exists>x::rat. 1 \<le> x \<and> x \<le> 5 \<and> 5 \<le> x \<and> x \<le> 9)"
  by (rule key_range_exact)
    (simp_all add: region_at_def same_resource_def range_bounds_def float_pair_def py_float_def)

lemma overlap_commute:
  assumes "sane (rr_selector_value a)" and "sane (rr_selector_value b)"
    and "nan_free_bounds B (rr_selector_value a)" and "nan_free_bounds B (rr_selector_value b)"
  shows "overlaps B a b = overlaps B b a"
proof -
  have "py_eq (rr_selector_value a) (rr_selector_value b) =
      py_eq (rr_selector_value b) (rr_selector_value a)"
    and "ranges_overlap B (rr_selector_value a) (rr_selector_value b) =
      ranges_overlap B (rr_selector_value b) (rr_selector_value a)"
    using assms by (simp_all add: py_eq_commute ranges_overlap_sym)
  then show ?thesis
    by (cases "rr_selector_type a"; cases "rr_selector_type b")
      (auto simp: overlaps_def Let_def paths_overlap_def Int_commute split: option.splits)
qed

text \<open>
  The conflict test does not depend on the order of its arguments, for selector values
  without a not-a-number: which of two workers asks first never changes whether they conflict.
\<close>

theorem overlaps_symmetric:
  assumes "sane (rr_selector_value a)" and "sane (rr_selector_value b)"
    and "nan_free_bounds B (rr_selector_value a)" and "nan_free_bounds B (rr_selector_value b)"
  shows "overlaps B a b = overlaps B b a"
  using assms by (rule overlap_commute)

lemma overlaps_symmetric_witness:
  "overlaps plain_builtins (region_at ST_key_range (VList [VInt 1, VInt 5]))
     (region_at ST_key_range (VList [VInt 6, VInt 9])) =
   overlaps plain_builtins (region_at ST_key_range (VList [VInt 6, VInt 9]))
     (region_at ST_key_range (VList [VInt 1, VInt 5]))"
  by (rule overlaps_symmetric)
    (simp_all add: region_at_def nan_free_bounds_def range_bounds_def float_pair_def py_float_def)

text \<open>
  The conflict test fails open on a key range whose bound is not a number: the region does
  not even conflict with itself, although the comment on the fall-through case promises that
  unknown overlap is treated as a conflict. The same holds for row keys that are equal but
  written differently: \<open>[1]\<close> and \<open>[True]\<close> contain each other and yet do not overlap.
\<close>

theorem overlap_fails_open:
  "overlaps B (region_at ST_key_range (VList [VFloat NaN, VInt 9]))
     (region_at ST_key_range (VList [VFloat NaN, VInt 9])) = Inr False \<and>
   covers B (region_at ST_row_keys (VList [VInt 1])) (region_at ST_row_keys (VList [VBool True])) \<and>
   overlaps B (region_at ST_row_keys (VList [VInt 1])) (region_at ST_row_keys (VList [VBool True]))
     = Inr False"
  by (simp add: region_at_def overlaps_def covers_def ranges_overlap_def range_bounds_def
      float_pair_def py_float_def pf_max_def pf_min_def pf_lt_def value_set_def)

end
