(* ===== verification/Leases.thy ===== *)
theory Leases
  imports Store Regions
begin

text \<open>
  \<^verbatim>\<open>ownership/manager.py\<close> and \<^verbatim>\<open>Service.acquire_lease\<close>: writer leases on regions. Each operation
  changes the projection first and commits after.
\<close>

section \<open>Operations\<close>

text \<open>The scan for an active lease in conflict; \<^verbatim>\<open>overlaps\<close> may raise on a key range.\<close>

fun conflicting :: "builtins \<Rightarrow> resource_region \<Rightarrow> writer_lease list \<Rightarrow> bool res" where
  "conflicting B r [] = Inr False"
| "conflicting B r (l # ls) =
     (if le_status l \<noteq> LS_active then conflicting B r ls
      else case overlaps B (le_region l) r of
             Inl e \<Rightarrow> Inl e
           | Inr b \<Rightarrow> if b then Inr True else conflicting B r ls)"

definition lease_acquire ::
    "event hashing \<Rightarrow> builtins \<Rightarrow> string \<Rightarrow> string \<Rightarrow> string \<Rightarrow> resource_region \<Rightarrow> time \<Rightarrow> time \<Rightarrow>
     ('r store_scheme, writer_lease) prog" where
  "lease_acquire H B new_id child owner region ttl acquired_at =
     bind (get (\<lambda>s. conflicting B region (dvalues (st_leases s)))) (\<lambda>c.
     bind (lift c) (\<lambda>found.
     andthen (raise_when found (DomainError ''lease_overlap'' 409))
       (let l = \<lparr>le_id = new_id, le_version = 1, le_child_task_id = child,
                 le_owner_agent_id = owner, le_region = region, le_status = LS_active,
                 le_acquired_at = acquired_at, le_expires_at = Some (acquired_at + ttl)\<rparr>
        in andthen (modify (put_lease l))
          (andthen (commit H (LeaseEvent LE_acquired l) None) (ret l)))))"

text \<open>\<^verbatim>\<open>Service.acquire_lease\<close> takes the lease from its caller, as it is.\<close>

definition service_acquire_lease ::
    "event hashing \<Rightarrow> builtins \<Rightarrow> writer_lease \<Rightarrow> ('r store_scheme, writer_lease) prog" where
  "service_acquire_lease H B l =
     bind (get (\<lambda>s. conflicting B (le_region l) (dvalues (st_leases s)))) (\<lambda>c.
     bind (lift c) (\<lambda>found.
     andthen (raise_when found (DomainError ''lease_overlap'' 409))
     (andthen (modify (put_lease l))
     (andthen (commit H (LeaseEvent LE_acquired l) None) (ret l)))))"

definition put_lease_at :: "string \<Rightarrow> writer_lease \<Rightarrow> 'r view_scheme \<Rightarrow> 'r view_scheme" where
  "put_lease_at i l = st_leases_update (dput i l)"

definition lease_release :: "event hashing \<Rightarrow> string \<Rightarrow> ('r store_scheme, writer_lease) prog" where
  "lease_release H lease_id =
     bind (get (\<lambda>s. dget (st_leases s) lease_id)) (\<lambda>found.
     case found of
       None \<Rightarrow> raise_exn (DomainError ''not_found'' 404)
     | Some l \<Rightarrow>
       andthen (raise_when (le_status l \<noteq> LS_active) (DomainError ''invalid_transition'' 409))
         (let released = l\<lparr>le_status := LS_released, le_version := le_version l + 1\<rparr>
          in andthen (modify (put_lease_at lease_id released))
            (andthen (commit H (LeaseReleased lease_id) None) (ret released))))"

definition lease_heartbeat ::
    "event hashing \<Rightarrow> string \<Rightarrow> time \<Rightarrow> time \<Rightarrow> ('r store_scheme, writer_lease) prog" where
  "lease_heartbeat H lease_id ttl moment =
     bind (get (\<lambda>s. dget (st_leases s) lease_id)) (\<lambda>found.
     case found of
       None \<Rightarrow> raise_exn (DomainError ''not_found'' 404)
     | Some l \<Rightarrow>
       andthen (raise_when (le_status l \<noteq> LS_active) (DomainError ''invalid_transition'' 409))
         (let renewed = l\<lparr>le_expires_at := Some (moment + ttl), le_version := le_version l + 1\<rparr>
          in andthen (modify (put_lease_at lease_id renewed))
            (andthen (commit H (LeaseEvent LE_heartbeat renewed) None) (ret renewed))))"

definition lease_due :: "time \<Rightarrow> writer_lease \<Rightarrow> bool" where
  "lease_due moment l \<longleftrightarrow>
     le_status l = LS_active \<and> (case le_expires_at l of None \<Rightarrow> False | Some e \<Rightarrow> e \<le> moment)"

definition expired_copy :: "writer_lease \<Rightarrow> writer_lease" where
  "expired_copy l = l\<lparr>le_status := LS_expired, le_version := le_version l + 1\<rparr>"

fun expire_each ::
    "event hashing \<Rightarrow> time \<Rightarrow> writer_lease list \<Rightarrow> ('r store_scheme, writer_lease list) prog" where
  "expire_each H moment [] = ret []"
| "expire_each H moment (l # ls) =
     (if lease_due moment l
      then andthen (modify (put_lease (expired_copy l)))
          (andthen (commit H (LeaseEvent LE_expired (expired_copy l)) None)
          (bind (expire_each H moment ls) (\<lambda>rest. ret (expired_copy l # rest))))
      else expire_each H moment ls)"

definition lease_expire :: "event hashing \<Rightarrow> time \<Rightarrow> ('r store_scheme, writer_lease list) prog" where
  "lease_expire H moment = bind (get (\<lambda>s. dvalues (st_leases s))) (expire_each H moment)"

section \<open>The invariant: active leases do not overlap\<close>

definition active_regions :: "(string, writer_lease) dict \<Rightarrow> resource_region list" where
  "active_regions d = map le_region (filter (\<lambda>l. le_status l = LS_active) (dvalues d))"

text \<open>
  Regions in the order their leases were acquired: an earlier one was compared with each later
  one, and did not overlap it.
\<close>

definition lease_inv :: "builtins \<Rightarrow> 'r view_scheme \<Rightarrow> bool" where
  "lease_inv B s \<longleftrightarrow>
     dwf (st_leases s) \<and> keyed le_id (st_leases s) \<and>
     sorted_wrt (\<lambda>a b. overlaps B a b = Inr False) (active_regions (st_leases s))"

lemma conflicting_False:
  "conflicting B r ls = Inr False \<Longrightarrow>
     \<forall>l \<in> set ls. le_status l = LS_active \<longrightarrow> overlaps B (le_region l) r = Inr False"
  by (induction ls) (auto split: if_splits sum.splits)

lemma put_lease_leases [simp]: "st_leases (put_lease l s) = dput (le_id l) l (st_leases s)"
  by (simp add: put_lease_def)

lemma put_lease_at_leases [simp]: "st_leases (put_lease_at i l s) = dput i l (st_leases s)"
  by (simp add: put_lease_at_def)

lemma commit_leases:
  "commit H e k s = (r, t) \<Longrightarrow> st_leases t = st_leases s"
  by (drule commit_view) auto

lemma lease_inv_same: "lease_inv B s \<Longrightarrow> st_leases t = st_leases s \<Longrightarrow> lease_inv B t"
  by (simp add: lease_inv_def)

lemma keeps_lease_commit [keeps_intros]: "keeps (lease_inv B) (commit H e k)"
  by (rule keepsI) (rule lease_inv_same, assumption, erule commit_leases)

lemma active_regions_snoc:
  "dget d k = None \<Longrightarrow>
     active_regions (dput k l d) =
       active_regions d @ (if le_status l = LS_active then [le_region l] else [])"
  by (simp add: active_regions_def dput_fresh)

lemma lease_inv_new:
  assumes "lease_inv B s" and "dget (st_leases s) (le_id l) = None"
    and "conflicting B (le_region l) (dvalues (st_leases s)) = Inr False"
  shows "lease_inv B (put_lease l s)"
  using assms conflicting_False [OF assms(3)]
  by (auto simp: lease_inv_def active_regions_snoc sorted_wrt_append)
    (auto simp: active_regions_def)

lemma lease_inv_change:
  assumes "lease_inv B s" and "dget (st_leases s) i = Some w" and "le_id v = i"
    and "le_status v = LS_active \<Longrightarrow> le_status w = LS_active \<and> le_region v = le_region w"
  shows "lease_inv B (put_lease_at i v s)"
proof -
  have "subseq (active_regions (dput i v (st_leases s))) (active_regions (st_leases s))"
    unfolding active_regions_def
    using assms by (intro filter_dput_subseq) (auto simp: lease_inv_def)
  then show ?thesis
    using assms by (auto simp: lease_inv_def intro: sorted_wrt_subseq)
qed

lemma keeps_expire_each:
  "lease_inv B s \<Longrightarrow> distinct (map le_id ls) \<Longrightarrow>
     \<forall>l \<in> set ls. dget (st_leases s) (le_id l) = Some l \<Longrightarrow>
     expire_each H moment ls s = (r, t) \<Longrightarrow> lease_inv B t"
proof (induction ls arbitrary: s r t)
  case (Cons l ls)
  show ?case
  proof (cases "lease_due moment l")
    case False
    with Cons show ?thesis by simp
  next
    case True
    let ?s = "put_lease (expired_copy l) s"
    have inv: "lease_inv B ?s"
      using Cons.prems(1,3) lease_inv_change [of B s "le_id l" l "expired_copy l"]
      by (simp add: put_lease_def put_lease_at_def expired_copy_def lease_due_def)
    obtain x u where u: "commit H (LeaseEvent LE_expired (expired_copy l)) None ?s = (x, u)"
      by fastforce
    have leases: "st_leases u = dput (le_id l) (expired_copy l) (st_leases s)"
      using commit_leases [OF u] by (simp add: expired_copy_def)
    have inv_u: "lease_inv B u"
      using inv by (rule lease_inv_same) (simp add: leases expired_copy_def)
    show ?thesis
    proof (cases x)
      case (Inl e)
      with True u Cons.prems(4) inv_u show ?thesis
        by (simp add: andthen_def bind_def)
    next
      case (Inr y)
      obtain r' where run: "expire_each H moment ls u = (r', t)"
        using Inr True u Cons.prems(4)
        by (auto simp: andthen_def bind_def split: prod.splits sum.splits)
      have "\<forall>k \<in> set ls. dget (st_leases u) (le_id k) = Some k"
      proof
        fix k assume k: "k \<in> set ls"
        then have "le_id k \<in> le_id ` set ls" by (rule imageI)
        with Cons.prems(2) have "le_id k \<noteq> le_id l" by (metis distinct.simps(2) list.set_map list.simps(9))
        moreover have "dget (st_leases s) (le_id k) = Some k" using Cons.prems(3) k by simp
        ultimately show "dget (st_leases u) (le_id k) = Some k" by (simp add: leases)
      qed
      with Cons.IH [OF inv_u _ _ run] Cons.prems(2) show ?thesis by simp
    qed
  qed
qed simp

lemma lease_inv_ids:
  assumes "lease_inv B s" shows "distinct (map le_id (dvalues (st_leases s)))"
proof -
  have "dwf (st_leases s)" "keyed le_id (st_leases s)" using assms by (simp_all add: lease_inv_def)
  then show ?thesis by (simp only: keyed_ids)
qed

lemma lease_inv_values:
  assumes "lease_inv B s" shows "\<forall>l \<in> set (dvalues (st_leases s)). dget (st_leases s) (le_id l) = Some l"
proof
  fix l assume "l \<in> set (dvalues (st_leases s))"
  moreover have "dwf (st_leases s)" "keyed le_id (st_leases s)" using assms by (simp_all add: lease_inv_def)
  ultimately show "dget (st_leases s) (le_id l) = Some l" by (intro keyed_values)
qed

section \<open>Steps of the lease table\<close>

text \<open>
  One call of an operation, whatever its outcome, the error of the commit included. A new lease
  gets an identifier that is not in use, as \<^verbatim>\<open>new_id\<close> provides.
\<close>

inductive lease_step ::
    "event hashing \<Rightarrow> builtins \<Rightarrow> store \<Rightarrow> store \<Rightarrow> bool" for H B where
  acquire: "dget (st_leases s) i = None \<Longrightarrow>
     lease_acquire H B i c o_id r ttl now s = (x, t) \<Longrightarrow> lease_step H B s t"
| take_over: "dget (st_leases s) (le_id l) = None \<Longrightarrow>
     service_acquire_lease H B l s = (x, t) \<Longrightarrow> lease_step H B s t"
| release: "lease_release H i s = (x, t) \<Longrightarrow> lease_step H B s t"
| heartbeat: "lease_heartbeat H i ttl now s = (x, t) \<Longrightarrow> lease_step H B s t"
| expire: "lease_expire H now s = (y, t) \<Longrightarrow> lease_step H B s t"

inductive_cases lease_stepE: "lease_step H B s t"

inductive lease_reachable :: "event hashing \<Rightarrow> builtins \<Rightarrow> store \<Rightarrow> bool" for H B where
  start: "lease_reachable H B (new_store io)"
| step: "lease_reachable H B s \<Longrightarrow> lease_step H B s t \<Longrightarrow> lease_reachable H B t"

lemma andthen_commit_state:
  "andthen (commit H e k) (ret x) s = (r, t) \<Longrightarrow> st_leases t = st_leases s"
  by (auto simp: andthen_def bind_def split: prod.splits sum.splits dest: commit_leases)

lemma service_acquire_keeps:
  assumes "service_acquire_lease H B l s = (x, t)" and "dget (st_leases s) (le_id l) = None"
    and inv: "lease_inv B s"
  shows "lease_inv B t"
proof (cases "conflicting B (le_region l) (dvalues (st_leases s))")
  case (Inl e)
  with assms show ?thesis by (simp add: service_acquire_lease_def)
next
  case (Inr found)
  show ?thesis
  proof (cases found)
    case True
    with Inr assms show ?thesis by (simp add: service_acquire_lease_def)
  next
    case False
    have "andthen (commit H (LeaseEvent LE_acquired l) None) (ret l) (put_lease l s) = (x, t)"
      using Inr False assms(1) by (simp add: service_acquire_lease_def)
    then have same: "st_leases t = st_leases (put_lease l s)" by (rule andthen_commit_state)
    have "lease_inv B (put_lease l s)"
      using lease_inv_new [OF inv assms(2)] Inr False by simp
    then show ?thesis using same by (rule lease_inv_same)
  qed
qed

text \<open>\<open>LeaseManager.acquire\<close> builds the lease and does what \<open>Service.acquire_lease\<close> does.\<close>

lemma lease_acquire_eq:
  "lease_acquire H B i c o_id r ttl now =
     service_acquire_lease H B
       \<lparr>le_id = i, le_version = 1, le_child_task_id = c, le_owner_agent_id = o_id, le_region = r,
        le_status = LS_active, le_acquired_at = now, le_expires_at = Some (now + ttl)\<rparr>"
  by (simp add: lease_acquire_def service_acquire_lease_def Let_def)

lemma release_keeps:
  assumes "lease_release H i s = (x, t)" and inv: "lease_inv B s"
  shows "lease_inv B t"
proof (cases "dget (st_leases s) i")
  case None
  with assms show ?thesis by (simp add: lease_release_def)
next
  case (Some l)
  show ?thesis
  proof (cases "le_status l = LS_active")
    case True
    let ?l = "l\<lparr>le_status := LS_released, le_version := le_version l + 1\<rparr>"
    have "le_id l = i" using inv Some by (auto simp: lease_inv_def dest: keyedD)
    then have "lease_inv B (put_lease_at i ?l s)"
      by (intro lease_inv_change [OF inv Some]) simp_all
    moreover have "st_leases t = st_leases (put_lease_at i ?l s)"
    proof (rule andthen_commit_state)
      show "andthen (commit H (LeaseReleased i) None) (ret ?l) (put_lease_at i ?l s) = (x, t)"
        using assms(1) Some True by (simp add: lease_release_def Let_def)
    qed
    ultimately show ?thesis by (rule lease_inv_same)
  next
    case False
    with Some assms show ?thesis by (simp add: lease_release_def)
  qed
qed

lemma heartbeat_keeps:
  assumes "lease_heartbeat H i ttl now s = (x, t)" and inv: "lease_inv B s"
  shows "lease_inv B t"
proof (cases "dget (st_leases s) i")
  case None
  with assms show ?thesis by (simp add: lease_heartbeat_def)
next
  case (Some l)
  show ?thesis
  proof (cases "le_status l = LS_active")
    case True
    let ?l = "l\<lparr>le_expires_at := Some (now + ttl), le_version := le_version l + 1\<rparr>"
    have "le_id l = i" using inv Some by (auto simp: lease_inv_def dest: keyedD)
    then have "lease_inv B (put_lease_at i ?l s)"
      by (intro lease_inv_change [OF inv Some]) (simp_all add: True)
    moreover have "st_leases t = st_leases (put_lease_at i ?l s)"
    proof (rule andthen_commit_state)
      show "andthen (commit H (LeaseEvent LE_heartbeat ?l) None) (ret ?l) (put_lease_at i ?l s) = (x, t)"
        using assms(1) Some True by (simp add: lease_heartbeat_def Let_def)
    qed
    ultimately show ?thesis by (rule lease_inv_same)
  next
    case False
    with Some assms show ?thesis by (simp add: lease_heartbeat_def)
  qed
qed

lemma lease_step_keeps: "lease_step H B s t \<Longrightarrow> lease_inv B s \<Longrightarrow> lease_inv B t"
proof (induction rule: lease_step.induct)
  case (acquire s i c o_id r now ttl x t)
  from acquire(2) show ?case
    unfolding lease_acquire_eq by (rule service_acquire_keeps) (use acquire in simp_all)
next
  case expire
  show ?case
    by (rule keeps_expire_each [OF expire(2) lease_inv_ids [OF expire(2)] lease_inv_values [OF expire(2)]])
      (use expire(1) in \<open>simp add: lease_expire_def\<close>)
qed (auto intro: service_acquire_keeps release_keeps heartbeat_keeps)

lemma lease_inv_start: "lease_inv B (new_store io)"
  by (simp add: lease_inv_def new_store_def empty_view_def view.defs active_regions_def)

lemma lease_reachable_inv: "lease_reachable H B s \<Longrightarrow> lease_inv B s"
  by (induction rule: lease_reachable.induct) (auto intro: lease_step_keeps lease_inv_start)

section \<open>What the calls that return have done\<close>

lemma service_acquire_lease_Inr:
  assumes "service_acquire_lease H B l s = (Inr m, t)"
  shows "m = l \<and> conflicting B (le_region l) (dvalues (st_leases s)) = Inr False \<and>
    commit H (LeaseEvent LE_acquired l) None (put_lease l s) = (Inr (), t)"
  using assms by (auto simp: service_acquire_lease_def prog_simps split: if_splits)

lemma lease_release_Inr:
  assumes "lease_release H i s = (Inr m, t)"
  obtains l where "dget (st_leases s) i = Some l" and "le_status l = LS_active"
    and "m = l\<lparr>le_status := LS_released, le_version := le_version l + 1\<rparr>"
    and "commit H (LeaseReleased i) None (put_lease_at i m s) = (Inr (), t)"
  using assms
  by (auto simp: lease_release_def prog_simps Let_def split: if_splits option.splits)

lemma lease_heartbeat_Inr:
  assumes "lease_heartbeat H i ttl now s = (Inr m, t)"
  obtains l where "dget (st_leases s) i = Some l" and "le_status l = LS_active"
    and "m = l\<lparr>le_expires_at := Some (now + ttl), le_version := le_version l + 1\<rparr>"
    and "commit H (LeaseEvent LE_heartbeat m) None (put_lease_at i m s) = (Inr (), t)"
  using assms
  by (auto simp: lease_heartbeat_def prog_simps Let_def split: if_splits option.splits)

lemma put_lease_at_id: "le_id l = i \<Longrightarrow> put_lease_at i l s = put_lease l s"
  by (simp add: put_lease_at_def put_lease_def)

lemma lease_acquire_consistent:
  "consistent H s \<Longrightarrow> service_acquire_lease H B l s = (Inr m, t) \<Longrightarrow> consistent H t"
  using consistent_update_commit [of H s "LeaseEvent LE_acquired l" "put_lease l s" None t]
  by (auto dest: service_acquire_lease_Inr)

lemma lease_release_consistent:
  assumes "consistent H s" and "keyed le_id (st_leases s)" and "lease_release H i s = (Inr m, t)"
  shows "consistent H t"
proof -
  from assms(3) obtain l where l: "dget (st_leases s) i = Some l"
    and m: "m = l\<lparr>le_status := LS_released, le_version := le_version l + 1\<rparr>"
    and run: "commit H (LeaseReleased i) None (put_lease_at i m s) = (Inr (), t)"
    by (rule lease_release_Inr)
  have "apply_event (LeaseReleased i) s = Inr (put_lease_at i m s)"
    using keyedD [OF assms(2) l] by (simp add: l m put_lease_at_id)
  from consistent_update_commit [OF assms(1) this run] show ?thesis .
qed

lemma lease_heartbeat_consistent:
  assumes "consistent H s" and "keyed le_id (st_leases s)"
    and "lease_heartbeat H i ttl now s = (Inr m, t)"
  shows "consistent H t"
proof -
  from assms(3) obtain l where l: "dget (st_leases s) i = Some l"
    and m: "m = l\<lparr>le_expires_at := Some (now + ttl), le_version := le_version l + 1\<rparr>"
    and run: "commit H (LeaseEvent LE_heartbeat m) None (put_lease_at i m s) = (Inr (), t)"
    by (rule lease_heartbeat_Inr)
  have "apply_event (LeaseEvent LE_heartbeat m) s = Inr (put_lease_at i m s)"
    using keyedD [OF assms(2) l] by (simp add: m put_lease_at_id)
  from consistent_update_commit [OF assms(1) this run] show ?thesis .
qed

lemma expire_each_consistent:
  "consistent H s \<Longrightarrow> expire_each H now ls s = (Inr out, t) \<Longrightarrow> consistent H t"
proof (induction ls arbitrary: s out)
  case (Cons l ls)
  show ?case
  proof (cases "lease_due now l")
    case True
    with Cons.prems(2) obtain u rest
      where c: "commit H (LeaseEvent LE_expired (expired_copy l)) None
          (put_lease (expired_copy l) s) = (Inr (), u)"
        and e: "expire_each H now ls u = (Inr rest, t)"
      by (auto simp: prog_simps)
    have "apply_event (LeaseEvent LE_expired (expired_copy l)) s =
        Inr (put_lease (expired_copy l) s)" by simp
    from consistent_update_commit [OF Cons.prems(1) this c] e show ?thesis
      by (rule Cons.IH)
  qed (use Cons in simp)
qed simp

lemma expire_each_effect:
  "expire_each H now ls s = (Inr out, t) \<Longrightarrow> distinct (map le_id ls) \<Longrightarrow>
     \<forall>l \<in> set ls. dget (st_leases s) (le_id l) = Some l \<Longrightarrow>
     out = map expired_copy (filter (lease_due now) ls) \<and>
     (\<forall>i. dget (st_leases t) i =
        (if \<exists>l \<in> set ls. le_id l = i \<and> lease_due now l
         then map_option expired_copy (dget (st_leases s) i) else dget (st_leases s) i))"
proof (induction ls arbitrary: s out)
  case (Cons l ls)
  show ?case
  proof (cases "lease_due now l")
    case True
    with Cons.prems(1) obtain u rest
      where c: "commit H (LeaseEvent LE_expired (expired_copy l)) None
          (put_lease (expired_copy l) s) = (Inr (), u)"
        and e: "expire_each H now ls u = (Inr rest, t)" and out: "out = expired_copy l # rest"
      by (auto simp: prog_simps)
    have leases: "st_leases u = dput (le_id l) (expired_copy l) (st_leases s)"
      using commit_leases [OF c] by (simp add: expired_copy_def)
    have fresh: "le_id k \<noteq> le_id l" if "k \<in> set ls" for k
      using that Cons.prems(2) by (metis distinct.simps(2) image_eqI list.set_map list.simps(9))
    have "\<forall>k \<in> set ls. dget (st_leases u) (le_id k) = Some k"
      using Cons.prems(3) fresh by (simp add: leases)
    with Cons.IH [OF e] Cons.prems(2)
    have IH: "rest = map expired_copy (filter (lease_due now) ls)"
      "\<forall>i. dget (st_leases t) i =
        (if \<exists>l \<in> set ls. le_id l = i \<and> lease_due now l
         then map_option expired_copy (dget (st_leases u) i) else dget (st_leases u) i)" by simp_all
    have "dget (st_leases s) (le_id l) = Some l" using Cons.prems(3) by simp
    with IH fresh True out show ?thesis by (auto simp: leases)
  next
    case False
    with Cons show ?thesis by auto
  qed
qed simp

section \<open>What the lease table guarantees\<close>

text \<open>
  C6. Two writers never hold conflicting regions: in every state the lease operations can reach
  from an empty store, errors of the journal included, any two active leases were found not to
  overlap when the later one was acquired, and for regions without a not-a-number bound they do
  not overlap in either direction.
\<close>

theorem active_leases_disjoint:
  assumes "lease_reachable H B s"
    and "dget (st_leases s) i = Some l" and "dget (st_leases s) k = Some m" and "i \<noteq> k"
    and "le_status l = LS_active" and "le_status m = LS_active"
  shows "(overlaps B (le_region l) (le_region m) = Inr False \<or>
          overlaps B (le_region m) (le_region l) = Inr False) \<and>
    (sane (rr_selector_value (le_region l)) \<and> sane (rr_selector_value (le_region m)) \<and>
     nan_free_bounds B (rr_selector_value (le_region l)) \<and>
     nan_free_bounds B (rr_selector_value (le_region m)) \<longrightarrow>
       overlaps B (le_region l) (le_region m) = Inr False \<and>
       overlaps B (le_region m) (le_region l) = Inr False)"
proof -
  note inv = lease_reachable_inv [OF assms(1)]
  let ?ls = "filter (\<lambda>l. le_status l = LS_active) (dvalues (st_leases s))"
  have "keyed le_id (st_leases s)" using inv by (simp add: lease_inv_def)
  then have ids: "le_id l \<noteq> le_id m"
    using assms(4) keyedD assms(2,3) by metis
  have in_l: "l \<in> set ?ls" and in_m: "m \<in> set ?ls"
    using dget_value [OF assms(2)] dget_value [OF assms(3)] assms(5,6) by auto
  have "sorted_wrt (\<lambda>a b. overlaps B (le_region a) (le_region b) = Inr False) ?ls"
    using inv by (simp add: lease_inv_def active_regions_def sorted_wrt_map)
  moreover have "l \<noteq> m" using ids by auto
  ultimately have "overlaps B (le_region l) (le_region m) = Inr False \<or>
      overlaps B (le_region m) (le_region l) = Inr False"
    using in_l in_m sorted_wrt_related by fastforce
  then show ?thesis
    using overlap_commute [of "le_region l" "le_region m" B] by auto
qed

text \<open>
  The table of leases follows the life cycle: a release or a heartbeat of a lease that does
  not exist or is no longer active raises and changes nothing, and one that returns has changed
  that lease alone, in the way it says.
\<close>

theorem lease_release_heartbeat_cases:
  "(dget (st_leases s) i = None \<longrightarrow>
      lease_release H i s = (Inl (DomainError ''not_found'' 404), s) \<and>
      lease_heartbeat H i ttl now s = (Inl (DomainError ''not_found'' 404), s)) \<and>
   (\<forall>l. dget (st_leases s) i = Some l \<and> le_status l \<noteq> LS_active \<longrightarrow>
      lease_release H i s = (Inl (DomainError ''invalid_transition'' 409), s) \<and>
      lease_heartbeat H i ttl now s = (Inl (DomainError ''invalid_transition'' 409), s)) \<and>
   (\<forall>l m t. dget (st_leases s) i = Some l \<and> lease_release H i s = (Inr m, t) \<longrightarrow>
      le_status l = LS_active \<and> le_status m = LS_released \<and> le_version m = le_version l + 1 \<and>
      (\<forall>k. dget (st_leases t) k = (if k = i then Some m else dget (st_leases s) k))) \<and>
   (\<forall>l m t. dget (st_leases s) i = Some l \<and> lease_heartbeat H i ttl now s = (Inr m, t) \<longrightarrow>
      le_status m = LS_active \<and> le_expires_at m = Some (now + ttl) \<and>
      le_region m = le_region l \<and> le_version m = le_version l + 1 \<and>
      (\<forall>k. dget (st_leases t) k = (if k = i then Some m else dget (st_leases s) k)))"
proof (intro conjI allI impI; (elim conjE)?)
  fix l m t assume "dget (st_leases s) i = Some l" and run: "lease_release H i s = (Inr m, t)"
  from run show "le_status l = LS_active" "le_status m = LS_released" "le_version m = le_version l + 1"
    by (rule lease_release_Inr, use \<open>dget (st_leases s) i = Some l\<close> in simp)+
  fix k
  from run show "dget (st_leases t) k = (if k = i then Some m else dget (st_leases s) k)"
    by (rule lease_release_Inr) (drule commit_leases, simp)
next
  fix l m t assume l: "dget (st_leases s) i = Some l" and run: "lease_heartbeat H i ttl now s = (Inr m, t)"
  from run show "le_status m = LS_active" "le_expires_at m = Some (now + ttl)"
      "le_region m = le_region l" "le_version m = le_version l + 1"
    by (rule lease_heartbeat_Inr, use l in simp)+
  fix k
  from run show "dget (st_leases t) k = (if k = i then Some m else dget (st_leases s) k)"
    by (rule lease_heartbeat_Inr) (drule commit_leases, simp)
qed (simp_all add: lease_release_def lease_heartbeat_def)

lemma lease_release_heartbeat_cases_witness:
  "lease_release unit_hashing ''x'' (new_store []) = (Inl (DomainError ''not_found'' 404), new_store [])"
  using lease_release_heartbeat_cases [of "new_store []" "''x''" unit_hashing 0 0]
  by (simp add: new_store_def view.defs empty_view_def)

text \<open>Regions of distinct files and a store with one lease, for the witnesses.\<close>

definition file_region :: "string \<Rightarrow> resource_region" where
  "file_region f =
     \<lparr>rr_resource_kind = RK_file, rr_resource_id = f, rr_selector_type = ST_whole_resource,
      rr_selector_value = VNone, rr_base_revision = ''r1''\<rparr>"

definition lease_of :: "string \<Rightarrow> string \<Rightarrow> writer_lease" where
  "lease_of i f =
     \<lparr>le_id = i, le_version = 1, le_child_task_id = ''c'', le_owner_agent_id = ''o'',
      le_region = file_region f, le_status = LS_active, le_acquired_at = 0,
      le_expires_at = Some 60\<rparr>"

lemma healthy_acquire:
  assumes "healthy H s" and "conflicting B (le_region l) (dvalues (st_leases s)) = Inr False"
  shows "\<exists>t. service_acquire_lease H B l s = (Inr l, t) \<and> healthy H t \<and>
    st_leases t = dput (le_id l) l (st_leases s)"
proof -
  have "healthy H (put_lease l s)" using assms(1) by (simp add: healthy_def)
  from healthy_commit [OF this, of "LeaseEvent LE_acquired l" None] obtain j
    where j: "commit H (LeaseEvent LE_acquired l) None (put_lease l s) =
        (Inr (), (put_lease l s)\<lparr>st_journal := j\<rparr>)"
      and h: "healthy H ((put_lease l s)\<lparr>st_journal := j\<rparr>)" by blast
  have "service_acquire_lease H B l s = (Inr l, (put_lease l s)\<lparr>st_journal := j\<rparr>)"
    using assms(2) j by (simp add: service_acquire_lease_def andthen_def bind_def)
  with h show ?thesis by simp
qed

lemma new_store_leases [simp]: "st_leases (new_store io) = []"
  by (simp add: new_store_def view.defs empty_view_def)

lemma active_leases_disjoint_witness:
  "\<exists>s :: store. dget (st_leases s) ''1'' = Some (lease_of ''1'' ''a'') \<and>
     dget (st_leases s) ''2'' = Some (lease_of ''2'' ''b'') \<and>
     overlaps plain_builtins (file_region ''a'') (file_region ''b'') = Inr False"
proof -
  let ?H = "unit_hashing :: event hashing" and ?B = plain_builtins
  let ?a = "lease_of ''1'' ''a''" and ?b = "lease_of ''2'' ''b''"
  obtain s where s: "service_acquire_lease ?H ?B ?a (new_store []) = (Inr ?a, s)"
    "healthy ?H s" "st_leases s = [(''1'', ?a)]"
    using healthy_acquire [of ?H "new_store []" ?B ?a] by (auto simp: lease_of_def)
  obtain t where t: "service_acquire_lease ?H ?B ?b s = (Inr ?b, t)"
    "st_leases t = [(''1'', ?a), (''2'', ?b)]"
    using healthy_acquire [of ?H s ?B ?b] s(2,3)
    by (auto simp: lease_of_def file_region_def overlaps_def)
  have "lease_reachable ?H ?B s"
    by (rule lease_reachable.step [OF lease_reachable.start lease_step.take_over [OF _ s(1)]]) simp
  then have "lease_reachable ?H ?B t"
    by (rule lease_reachable.step [OF _ lease_step.take_over [OF _ t(1)]])
      (simp add: s(3) lease_of_def)
  from active_leases_disjoint [OF this, of "''1''" ?a "''2''" ?b] t(2) show ?thesis
    by (intro exI [of _ t])
      (auto simp: lease_of_def file_region_def nan_free_bounds_def range_bounds_def)
qed

text \<open>
  Expiry sweeps exactly the leases that are due: after it returns no active lease is past
  its deadline, the leases it reports are the due ones in the order of the table with their new
  version, and every other lease is as it was.
\<close>

theorem lease_expire_sweeps:
  assumes "lease_inv B s" and "lease_expire H now s = (Inr out, t)"
  shows "out = map expired_copy (filter (lease_due now) (dvalues (st_leases s))) \<and>
    (\<forall>i. dget (st_leases t) i =
       map_option (\<lambda>l. if lease_due now l then expired_copy l else l) (dget (st_leases s) i)) \<and>
    (\<forall>i l. dget (st_leases t) i = Some l \<longrightarrow> \<not> lease_due now l)"
proof -
  have run: "expire_each H now (dvalues (st_leases s)) s = (Inr out, t)"
    using assms(2) by (simp add: lease_expire_def)
  note effect = expire_each_effect [OF run lease_inv_ids [OF assms(1)] lease_inv_values [OF assms(1)]]
  have table: "dget (st_leases t) i =
      map_option (\<lambda>l. if lease_due now l then expired_copy l else l) (dget (st_leases s) i)" for i
  proof (cases "dget (st_leases s) i")
    case None
    then have "\<not> (\<exists>l \<in> set (dvalues (st_leases s)). le_id l = i \<and> lease_due now l)"
      using lease_inv_values [OF assms(1)] by fastforce
    with None effect show ?thesis by simp
  next
    case (Some l)
    have "keyed le_id (st_leases s)" using assms(1) by (simp add: lease_inv_def)
    then have "l \<in> set (dvalues (st_leases s))" "le_id l = i"
      using dget_value [OF Some] keyedD [OF _ Some] by blast+
    moreover have "m = l" if "m \<in> set (dvalues (st_leases s))" "le_id m = i" for m
      using that lease_inv_values [OF assms(1)] Some by fastforce
    ultimately have "(\<exists>m \<in> set (dvalues (st_leases s)). le_id m = i \<and> lease_due now m) \<longleftrightarrow>
        lease_due now l" by blast
    with Some effect show ?thesis by simp
  qed
  moreover have "\<not> lease_due now (expired_copy l)" for l
    by (simp add: lease_due_def expired_copy_def)
  ultimately show ?thesis using effect by auto
qed

lemma lease_expire_sweeps_witness:
  "\<exists>t :: store. lease_expire unit_hashing 0 (new_store []) = (Inr [], t) \<and>
     (\<forall>i l. dget (st_leases t) i = Some l \<longrightarrow> \<not> lease_due 0 l)"
  using lease_expire_sweeps [OF lease_inv_start, of unit_hashing 0 "[]" "[]" "new_store []"]
  by (simp add: lease_expire_def)

text \<open>
  A lease operation that returns is durable: from a consistent store, the store after an
  acquisition, a release, a heartbeat or a sweep is consistent again, and the process that
  restarts on its journal has the same table of leases.
\<close>

theorem lease_operations_durable:
  assumes "consistent H s" and "lease_inv B s"
    and "(\<exists>l m. service_acquire_lease H B l s = (Inr m, t)) \<or>
         (\<exists>i c w r d now m. lease_acquire H B i c w r d now s = (Inr m, t)) \<or>
         (\<exists>i m. lease_release H i s = (Inr m, t)) \<or>
         (\<exists>i d now m. lease_heartbeat H i d now s = (Inr m, t)) \<or>
         (\<exists>now out. lease_expire H now s = (Inr out, t))"
  shows "consistent H t \<and> (\<exists>r. restart H mx f io t = Inr r \<and> st_leases r = st_leases t)"
proof -
  have keyed: "keyed le_id (st_leases s)" using assms(2) by (simp add: lease_inv_def)
  have "consistent H t"
    using assms(3) lease_acquire_consistent [OF assms(1)] lease_release_consistent [OF assms(1) keyed]
      lease_heartbeat_consistent [OF assms(1) keyed] expire_each_consistent [OF assms(1)]
    unfolding lease_acquire_eq lease_expire_def bind_get by blast
  moreover from restart_same [OF this, of mx f io] obtain r
    where "restart H mx f io t = Inr r" "recorded r = recorded t" by blast
  then have "restart H mx f io t = Inr r \<and> st_leases r = st_leases t"
    by (metis recorded_select(3))
  ultimately show ?thesis by blast
qed

lemma lease_operations_durable_witness:
  "\<exists>t r :: store. service_acquire_lease unit_hashing plain_builtins (lease_of ''1'' ''a'') (new_store []) =
      (Inr (lease_of ''1'' ''a''), t) \<and>
     restart unit_hashing None 0 [] t = Inr r \<and> st_leases r = [(''1'', lease_of ''1'' ''a'')]"
proof -
  let ?a = "lease_of ''1'' ''a''"
  obtain t :: store where t: "service_acquire_lease unit_hashing plain_builtins ?a (new_store []) = (Inr ?a, t)"
    "st_leases t = [(''1'', ?a)]"
    using healthy_acquire [of unit_hashing "new_store []" plain_builtins ?a]
    by (auto simp: lease_of_def)
  from lease_operations_durable [OF consistent_new_store lease_inv_start, of unit_hashing
      plain_builtins "[]" t None 0 "[]"] t show ?thesis by fastforce
qed

text \<open>
  The projection can run ahead of the journal: when the commit of an acquisition fails, the
  caller sees the error but the lease stays in the table, active, and blocks later writers of
  the region until the process restarts, after which it does not exist. The docstring of
  \<^verbatim>\<open>commit_frame\<close> asks callers to update the projection only after it returns.
\<close>

theorem failed_commit_leaves_lease:
  "\<exists>t :: store. service_acquire_lease unit_hashing B l (new_store [io_of WriteNothing]) =
       (Inl OSError, t) \<and>
     st_leases t = [(le_id l, l)] \<and>
     (\<exists>r. restart unit_hashing None 0 [] t = Inr r \<and> st_leases r = [])"
  by (simp add: service_acquire_lease_def commit_def commit_frame_def on_journal_def
      append_frame_def new_store_def empty_view_def view.defs fresh_journal_def boot_def disk.defs
      empty_disk_def next_io_def io_of_def unit_hashing_def frame_of_def
      ensure_storage_capacity_def Let_def bind_def andthen_def write_frame_def restart_def
      put_lease_def load_journal_def load_snapshot_def snapshot_candidates_def fromkeys_def
      open_store_def stored_events_def journal_events_def replay_def)

end
