(* ===== verification/Ownership.thy ===== *)
theory Ownership
  imports Store Regions
begin

text \<open>
  \<^verbatim>\<open>ownership/boundaries.py\<close> and \<^verbatim>\<open>ownership/persistence.py\<close>: who may write which regions of a
  child task. \<open>ownership\<close> is the state of \<^verbatim>\<open>OwnershipBoundaryService\<close>; \<open>app_store\<close> adds it to the
  store, as the application wires the persistent service: it appends its events to the store's
  journal and mirrors assignments into the store (\<^verbatim>\<open>append_ownership\<close> in \<^verbatim>\<open>api/app.py\<close>).
\<close>

section \<open>The boundary service\<close>

record ownership =
  ob_boundaries :: "(string, child_task_boundary) dict"
  ob_assignments :: "(string, owner_assignment) dict"

definition no_ownership :: ownership where
  "no_ownership = \<lparr>ob_boundaries = [], ob_assignments = []\<rparr>"

definition register_boundary :: "child_task_boundary \<Rightarrow> (ownership, child_task_boundary) prog" where
  "register_boundary b =
     bind (get (\<lambda>o'. dget (ob_boundaries o') (cb_id b))) (\<lambda>old.
     andthen (raise_when (old \<noteq> None) (DomainError ''boundary_conflict'' 409))
     (andthen (modify (ob_boundaries_update (dput (cb_id b) b))) (ret b)))"

definition require_boundary :: "string \<Rightarrow> (ownership, child_task_boundary) prog" where
  "require_boundary c =
     bind (get (\<lambda>o'. dget (ob_boundaries o') c)) (\<lambda>b.
     case b of None \<Rightarrow> raise_exn (DomainError ''not_found'' 404) | Some b \<Rightarrow> ret b)"

definition active_assignment :: "ownership \<Rightarrow> string \<Rightarrow> owner_assignment option" where
  "active_assignment o' c =
     (case dget (ob_assignments o') c of
        None \<Rightarrow> None
      | Some a \<Rightarrow> if oa_status a = AS_active then Some a else None)"

definition require_active_assignment :: "string \<Rightarrow> (ownership, owner_assignment) prog" where
  "require_active_assignment c =
     bind (get (\<lambda>o'. active_assignment o' c)) (\<lambda>a.
     case a of None \<Rightarrow> raise_exn (DomainError ''owner_not_assigned'' 409) | Some a \<Rightarrow> ret a)"

definition covered_by :: "builtins \<Rightarrow> resource_region list \<Rightarrow> resource_region \<Rightarrow> bool" where
  "covered_by B allowed r \<longleftrightarrow> list_ex (\<lambda>a. covers B a r) allowed"

definition assign_owner ::
    "builtins \<Rightarrow> string \<Rightarrow> string \<Rightarrow> resource_region list \<Rightarrow> time \<Rightarrow> (ownership, owner_assignment) prog"
  where
  "assign_owner B c w rs now =
     bind (require_boundary c) (\<lambda>b.
     bind (get (\<lambda>o'. active_assignment o' c)) (\<lambda>current.
     andthen (raise_when (current \<noteq> None) (DomainError ''owner_conflict'' 409))
     (andthen (raise_when (rs = []) (DomainError ''unknown_write_region'' 409))
     (andthen (raise_when (list_ex (\<lambda>r. \<not> covered_by B (cb_write_regions b) r) rs)
                 (DomainError ''write_scope_violation'' 409))
       (let a = \<lparr>oa_child_task_id = c, oa_owner_agent_id = w, oa_write_regions = rs,
                 oa_version = 1, oa_status = AS_active, oa_assigned_at = now,
                 oa_released_at = None\<rparr>
        in andthen (lift (if wf_owner_assignment a then Inr () else Inl (ValueError ''invalid'')))
          (andthen (modify (ob_assignments_update (dput c a))) (ret a)))))))"

definition release_owner :: "string \<Rightarrow> string \<Rightarrow> time \<Rightarrow> (ownership, owner_assignment) prog" where
  "release_owner c w now =
     bind (require_active_assignment c) (\<lambda>a.
     andthen (raise_when (oa_owner_agent_id a \<noteq> w) (DomainError ''owner_mismatch'' 409))
       (let a' = a\<lparr>oa_status := AS_released, oa_released_at := Some now,
                   oa_version := oa_version a + 1\<rparr>
        in andthen (modify (ob_assignments_update (dput c a'))) (ret a')))"

definition transfer_owner ::
    "builtins \<Rightarrow> string \<Rightarrow> string \<Rightarrow> resource_region list \<Rightarrow> time \<Rightarrow> (ownership, owner_assignment) prog"
  where
  "transfer_owner B c w rs now =
     bind (get (\<lambda>o'. active_assignment o' c)) (\<lambda>current.
     andthen (raise_when (current \<noteq> None) (DomainError ''transfer_requires_release'' 409))
       (assign_owner B c w rs now))"

definition assert_write_allowed ::
    "builtins \<Rightarrow> string \<Rightarrow> string \<Rightarrow> resource_region \<Rightarrow> (ownership, unit) prog" where
  "assert_write_allowed B c w r =
     andthen (require_boundary c)
     (bind (require_active_assignment c) (\<lambda>a.
     andthen (raise_when (oa_owner_agent_id a \<noteq> w) (DomainError ''owner_mismatch'' 409))
       (raise_when (\<not> covered_by B (oa_write_regions a) r)
          (DomainError ''write_scope_violation'' 409))))"

section \<open>The persistent service\<close>

record app_store = store +
  as_ownership :: ownership

definition on_ownership :: "(ownership, 'a) prog \<Rightarrow> ('r app_store_scheme, 'a) prog" where
  "on_ownership m = (\<lambda>s. case m (as_ownership s) of (r, o') \<Rightarrow> (r, s\<lparr>as_ownership := o'\<rparr>))"

text \<open>\<^verbatim>\<open>append_ownership\<close>: append the event, then mirror an assignment into the store.\<close>

definition append_ownership :: "event hashing \<Rightarrow> event \<Rightarrow> ('r app_store_scheme, unit) prog" where
  "append_ownership H e =
     andthen (commit H e None)
       (modify (case e of OwnerEvent _ a \<Rightarrow> put_assignment a | _ \<Rightarrow> id))"

definition persistent_register ::
    "event hashing \<Rightarrow> child_task_boundary \<Rightarrow> ('r app_store_scheme, child_task_boundary) prog" where
  "persistent_register H b =
     bind (on_ownership (register_boundary b)) (\<lambda>r.
     andthen (append_ownership H (BoundaryRegistered b)) (ret r))"

definition persistent_assign ::
    "event hashing \<Rightarrow> builtins \<Rightarrow> string \<Rightarrow> string \<Rightarrow> resource_region list \<Rightarrow> time \<Rightarrow>
     ('r app_store_scheme, owner_assignment) prog" where
  "persistent_assign H B c w rs now =
     bind (on_ownership (assign_owner B c w rs now)) (\<lambda>a.
     andthen (append_ownership H (OwnerEvent OE_assigned a)) (ret a))"

definition persistent_release ::
    "event hashing \<Rightarrow> string \<Rightarrow> string \<Rightarrow> time \<Rightarrow> ('r app_store_scheme, owner_assignment) prog" where
  "persistent_release H c w now =
     bind (on_ownership (release_owner c w now)) (\<lambda>a.
     andthen (append_ownership H (OwnerEvent OE_released a)) (ret a))"

definition persistent_transfer ::
    "event hashing \<Rightarrow> builtins \<Rightarrow> string \<Rightarrow> string \<Rightarrow> resource_region list \<Rightarrow> time \<Rightarrow>
     ('r app_store_scheme, owner_assignment) prog" where
  "persistent_transfer H B c w rs now =
     bind (on_ownership (transfer_owner B c w rs now)) (\<lambda>a.
     andthen (append_ownership H (OwnerEvent OE_transferred a)) (ret a))"

text \<open>\<^verbatim>\<open>_rebuild\<close>: one event of the stream; events of other components are ignored.\<close>

fun own_apply :: "event \<Rightarrow> ownership \<Rightarrow> ownership res" where
  "own_apply (BoundaryRegistered b) o' =
     (if dget (ob_boundaries o') (cb_id b) \<noteq> None
      then Inl (DomainError ''ownership_event_conflict'' 409)
      else Inr (o'\<lparr>ob_boundaries := dput (cb_id b) b (ob_boundaries o')\<rparr>))"
| "own_apply (OwnerEvent k a) o' =
     (let c = oa_child_task_id a; current = active_assignment o' c;
          o'' = o'\<lparr>ob_assignments := dput c a (ob_assignments o')\<rparr> in
      if dget (ob_boundaries o') c = None then Inl (DomainError ''not_found'' 404)
      else if k = OE_released
      then (if oa_status a \<noteq> AS_released then Inl (DomainError ''invalid_ownership_event'' 409)
            else case current of
                   None \<Rightarrow> Inl (DomainError ''ownership_event_conflict'' 409)
                 | Some b \<Rightarrow> if oa_owner_agent_id b \<noteq> oa_owner_agent_id a
                             then Inl (DomainError ''ownership_event_conflict'' 409) else Inr o'')
      else (if oa_status a \<noteq> AS_active then Inl (DomainError ''invalid_ownership_event'' 409)
            else if current \<noteq> None then Inl (DomainError ''ownership_event_conflict'' 409)
            else Inr o''))"
| "own_apply _ o' = Inr o'"

definition rebuild_ownership :: "event list \<Rightarrow> ownership res" where
  "rebuild_ownership es = run_log own_apply es no_ownership"

text \<open>A new process: the store is replayed, then the ownership service rebuilt from the same log.\<close>

definition restart_app ::
    "event hashing \<Rightarrow> int option \<Rightarrow> int \<Rightarrow> append_io list \<Rightarrow> 'r store_scheme \<Rightarrow> app_store res" where
  "restart_app H max_bytes min_free io s =
     (case restart H max_bytes min_free io s of
        Inl e \<Rightarrow> Inl e
      | Inr t \<Rightarrow>
     (case rebuild_ownership (event_log t) of
        Inl e \<Rightarrow> Inl e
      | Inr o' \<Rightarrow> Inr (store.extend t \<lparr>as_ownership = o'\<rparr>)))"

section \<open>Containment as an interface\<close>

text \<open>All the write check needs of containment is that it is transitive.\<close>

locale containment =
  fixes inside :: "'a \<Rightarrow> 'a \<Rightarrow> bool"
  assumes inside_trans: "inside a b \<Longrightarrow> inside b c \<Longrightarrow> inside a c"
begin

lemma covered_through:
  "list_ex (\<lambda>a. inside a r) allowed \<Longrightarrow> \<forall>a \<in> set allowed. list_ex (\<lambda>b. inside b a) declared \<Longrightarrow>
     list_ex (\<lambda>b. inside b r) declared"
  unfolding list_ex_iff by (blast intro: inside_trans)

end

interpretation region_containment: containment "covers B" for B
  by unfold_locales (rule covers_trans)

section \<open>The invariant of the boundary service\<close>

definition own_inv :: "builtins \<Rightarrow> ownership \<Rightarrow> bool" where
  "own_inv B o' \<longleftrightarrow>
     keyed cb_id (ob_boundaries o') \<and> keyed oa_child_task_id (ob_assignments o') \<and>
     (\<forall>c a. dget (ob_assignments o') c = Some a \<longrightarrow>
        (\<exists>b. dget (ob_boundaries o') c = Some b \<and>
             (\<forall>r \<in> set (oa_write_regions a). covered_by B (cb_write_regions b) r)))"

lemma active_assignment_Some:
  "active_assignment o' c = Some a \<longleftrightarrow> dget (ob_assignments o') c = Some a \<and> oa_status a = AS_active"
  by (auto simp: active_assignment_def split: option.splits)

lemma register_boundary_Inr:
  "register_boundary b o' = (Inr x, u) \<Longrightarrow>
     dget (ob_boundaries o') (cb_id b) = None \<and> x = b \<and>
     u = o'\<lparr>ob_boundaries := dput (cb_id b) b (ob_boundaries o')\<rparr>"
  by (auto simp: register_boundary_def prog_simps split: if_splits)

lemma assign_owner_Inr:
  assumes "assign_owner B c w rs now o' = (Inr a, u)"
  obtains b where "dget (ob_boundaries o') c = Some b" and "active_assignment o' c = None"
    and "rs \<noteq> []" and "\<forall>r \<in> set rs. covered_by B (cb_write_regions b) r"
    and "a = \<lparr>oa_child_task_id = c, oa_owner_agent_id = w, oa_write_regions = rs, oa_version = 1,
              oa_status = AS_active, oa_assigned_at = now, oa_released_at = None\<rparr>"
    and "u = o'\<lparr>ob_assignments := dput c a (ob_assignments o')\<rparr>"
  using assms
  by (auto simp: assign_owner_def require_boundary_def prog_simps Let_def list_ex_iff
      split: option.splits if_splits)

lemma release_owner_Inr:
  assumes "release_owner c w now o' = (Inr a, u)"
  obtains b where "active_assignment o' c = Some b" and "oa_owner_agent_id b = w"
    and "a = b\<lparr>oa_status := AS_released, oa_released_at := Some now, oa_version := oa_version b + 1\<rparr>"
    and "u = o'\<lparr>ob_assignments := dput c a (ob_assignments o')\<rparr>"
  using assms
  by (auto simp: release_owner_def require_active_assignment_def prog_simps Let_def
      split: option.splits if_splits)

lemma transfer_owner_Inr:
  "transfer_owner B c w rs now o' = (Inr a, u) \<Longrightarrow> assign_owner B c w rs now o' = (Inr a, u)"
  by (auto simp: transfer_owner_def split: if_splits)

text \<open>An operation that raises leaves the service as it was.\<close>

lemma ownership_errors_change_nothing:
  "register_boundary b o' = (Inl e, u) \<Longrightarrow> u = o'"
  "assign_owner B c w rs now o' = (Inl e, u) \<Longrightarrow> u = o'"
  "release_owner c w now o' = (Inl e, u) \<Longrightarrow> u = o'"
  "transfer_owner B c w rs now o' = (Inl e, u) \<Longrightarrow> u = o'"
proof -
  show "register_boundary b o' = (Inl e, u) \<Longrightarrow> u = o'"
    by (auto simp: register_boundary_def andthen_def bind_def split: if_splits)
  show "release_owner c w now o' = (Inl e, u) \<Longrightarrow> u = o'"
    by (auto simp: release_owner_def require_active_assignment_def andthen_def bind_def Let_def
        split: if_splits option.splits)
  show a: "assign_owner B c w rs now o' = (Inl e, u) \<Longrightarrow> u = o'"
    by (auto simp: assign_owner_def require_boundary_def andthen_def bind_def Let_def
        split: if_splits option.splits)
  show "transfer_owner B c w rs now o' = (Inl e, u) \<Longrightarrow> u = o'"
    using a by (auto simp: transfer_owner_def split: if_splits)
qed

lemma own_inv_register:
  "own_inv B o' \<Longrightarrow> register_boundary b o' = (Inr x, u) \<Longrightarrow> own_inv B u"
  by (drule register_boundary_Inr) (fastforce simp: own_inv_def)

lemma own_inv_assign:
  "own_inv B o' \<Longrightarrow> assign_owner B c w rs now o' = (Inr a, u) \<Longrightarrow> own_inv B u"
  by (erule assign_owner_Inr) (simp add: own_inv_def)

lemma own_inv_release:
  assumes "own_inv B o'" and "release_owner c w now o' = (Inr a, u)"
  shows "own_inv B u"
proof -
  from assms(2) obtain b where b: "dget (ob_assignments o') c = Some b"
    and a: "a = b\<lparr>oa_status := AS_released, oa_released_at := Some now, oa_version := oa_version b + 1\<rparr>"
    and u: "u = o'\<lparr>ob_assignments := dput c a (ob_assignments o')\<rparr>"
    by (auto elim!: release_owner_Inr simp: active_assignment_Some)
  have "oa_child_task_id b = c" using assms(1) b by (auto simp: own_inv_def keyed_def)
  moreover have "\<exists>d. dget (ob_boundaries o') c = Some d \<and>
      (\<forall>r \<in> set (oa_write_regions b). covered_by B (cb_write_regions d) r)"
    using assms(1) b by (simp add: own_inv_def)
  ultimately show ?thesis using assms(1) by (simp add: own_inv_def u a)
qed

section \<open>Steps of the persistent service\<close>

text \<open>One call, whatever its outcome, an error of the journal included.\<close>

inductive own_step :: "event hashing \<Rightarrow> builtins \<Rightarrow> app_store \<Rightarrow> app_store \<Rightarrow> bool" for H B where
  register: "persistent_register H b s = (x, t) \<Longrightarrow> own_step H B s t"
| assign: "persistent_assign H B c w rs now s = (y, t) \<Longrightarrow> own_step H B s t"
| release: "persistent_release H c w now s = (y, t) \<Longrightarrow> own_step H B s t"
| transfer: "persistent_transfer H B c w rs now s = (y, t) \<Longrightarrow> own_step H B s t"

inductive own_reachable :: "event hashing \<Rightarrow> builtins \<Rightarrow> app_store \<Rightarrow> bool" for H B where
  own_start: "as_ownership s = no_ownership \<Longrightarrow> own_reachable H B s"
| own_next: "own_reachable H B s \<Longrightarrow> own_step H B s t \<Longrightarrow> own_reachable H B t"

lemma append_ownership_same:
  "append_ownership H e s = (r, t) \<Longrightarrow> as_ownership t = as_ownership s"
  by (auto simp: append_ownership_def andthen_def bind_def put_assignment_def
      split: prod.splits sum.splits event.splits dest!: commit_view)

text \<open>The ownership after a persistent operation is that of the operation it wraps.\<close>

lemma persistent_ownership:
  assumes "bind (on_ownership m) (\<lambda>a. andthen (append_ownership H (e a)) (ret a)) s = (r, t)"
  shows "\<exists>x. m (as_ownership s) = (x, as_ownership t)"
proof -
  obtain x u where m: "m (as_ownership s) = (x, u)" by fastforce
  have "as_ownership t = u"
    using assms m
    by (auto simp: bind_def andthen_def on_ownership_def split: sum.splits prod.splits
        dest!: append_ownership_same)
  with m show ?thesis by auto
qed

lemma own_step_cases:
  assumes "own_step H B s t"
  shows "as_ownership t = as_ownership s \<or>
    (\<exists>b x. register_boundary b (as_ownership s) = (Inr x, as_ownership t)) \<or>
    (\<exists>c w rs now a. assign_owner B c w rs now (as_ownership s) = (Inr a, as_ownership t)) \<or>
    (\<exists>c w now a. release_owner c w now (as_ownership s) = (Inr a, as_ownership t))"
  using assms
proof cases
  case (register b x)
  then obtain y where "register_boundary b (as_ownership s) = (y, as_ownership t)"
    unfolding persistent_register_def by (auto dest!: persistent_ownership)
  then show ?thesis
    by (cases y) (auto dest: ownership_errors_change_nothing)
next
  case (assign c w rs now y)
  then obtain z where "assign_owner B c w rs now (as_ownership s) = (z, as_ownership t)"
    unfolding persistent_assign_def by (auto dest!: persistent_ownership)
  then show ?thesis by (cases z) (auto dest: ownership_errors_change_nothing)
next
  case (release c w now y)
  then obtain z where "release_owner c w now (as_ownership s) = (z, as_ownership t)"
    unfolding persistent_release_def by (auto dest!: persistent_ownership)
  then show ?thesis by (cases z) (auto dest: ownership_errors_change_nothing)
next
  case (transfer c w rs now y)
  then obtain z where "transfer_owner B c w rs now (as_ownership s) = (z, as_ownership t)"
    unfolding persistent_transfer_def by (auto dest!: persistent_ownership)
  then show ?thesis
    by (cases z) (simp add: ownership_errors_change_nothing(4), blast dest: transfer_owner_Inr)
qed

lemma own_step_inv: "own_step H B s t \<Longrightarrow> own_inv B (as_ownership s) \<Longrightarrow> own_inv B (as_ownership t)"
  using own_inv_register own_inv_assign own_inv_release by (metis own_step_cases)

lemma own_reachable_inv: "own_reachable H B s \<Longrightarrow> own_inv B (as_ownership s)"
proof (induction rule: own_reachable.induct)
  case (own_start s)
  then show ?case by (simp add: own_inv_def no_ownership_def)
next
  case (own_next s t)
  then show ?case by (blast intro: own_step_inv)
qed

section \<open>The service and its events\<close>

text \<open>
  The store and the service agree with the log: the replay gives the store, the rebuild gives the
  service, and the store mirrors the assignments.
\<close>

definition own_consistent :: "event hashing \<Rightarrow> 'r app_store_scheme \<Rightarrow> bool" where
  "own_consistent H s \<longleftrightarrow>
     consistent H s \<and> rebuild_ownership (event_log s) = Inr (as_ownership s) \<and>
     st_assignments s = ob_assignments (as_ownership s)"

interpretation ownership_log: commit_log "commit H" event_log as_ownership own_apply no_ownership
    "sound_store H"
  for H :: "event hashing"
proof
  fix s t :: "'a app_store_scheme" and e key
  assume "sound_store H s" and "commit H e key s = (Inr (), t)"
  from commit_Inr [OF this]
  show "sound_store H t \<and> event_log t = event_log s @ [e] \<and> as_ownership t = as_ownership s" by auto
qed

text \<open>The event of an operation, applied to the service, does what the operation did.\<close>

lemma own_apply_register:
  "register_boundary b o' = (Inr x, u) \<Longrightarrow> own_apply (BoundaryRegistered b) o' = Inr u"
  by (drule register_boundary_Inr) simp

lemma own_apply_assign:
  "assign_owner B c w rs now o' = (Inr a, u) \<Longrightarrow> k \<noteq> OE_released \<Longrightarrow>
     own_apply (OwnerEvent k a) o' = Inr u \<and> u = o'\<lparr>ob_assignments := dput c a (ob_assignments o')\<rparr> \<and>
     oa_child_task_id a = c"
  by (erule assign_owner_Inr) simp

lemma own_apply_release:
  assumes "own_inv B o'" and "release_owner c w now o' = (Inr a, u)"
  shows "own_apply (OwnerEvent OE_released a) o' = Inr u \<and>
    u = o'\<lparr>ob_assignments := dput c a (ob_assignments o')\<rparr> \<and> oa_child_task_id a = c"
proof -
  from assms(2) obtain b where b: "active_assignment o' c = Some b" "oa_owner_agent_id b = w"
    and a: "a = b\<lparr>oa_status := AS_released, oa_released_at := Some now, oa_version := oa_version b + 1\<rparr>"
    and u: "u = o'\<lparr>ob_assignments := dput c a (ob_assignments o')\<rparr>"
    by (rule release_owner_Inr)
  have "dget (ob_assignments o') c = Some b" using b(1) by (simp add: active_assignment_Some)
  then have "oa_child_task_id b = c" "\<exists>d. dget (ob_boundaries o') c = Some d"
    using assms(1) unfolding own_inv_def keyed_def by blast+
  with b show ?thesis by (auto simp: a u)
qed

lemma on_ownership_Inr:
  "on_ownership m s = (Inr x, t) \<longleftrightarrow>
     (\<exists>u. m (as_ownership s) = (Inr x, u) \<and> t = s\<lparr>as_ownership := u\<rparr>)"
  by (auto simp: on_ownership_def split: prod.splits)

lemma consistent_as_ownership [simp]: "consistent H (s\<lparr>as_ownership := u\<rparr>) = consistent H s"
  by (simp add: consistent_def sound_store_def event_log_def recorded_def view.defs)

text \<open>A persistent operation that returns keeps the agreement.\<close>

lemma append_ownership_consistent:
  assumes "own_consistent H s" and u: "own_apply e (as_ownership s) = Inr u"
    and run: "append_ownership H e (s\<lparr>as_ownership := u\<rparr>) = (Inr (), t)"
    and e: "(\<exists>b. e = BoundaryRegistered b \<and> ob_assignments u = ob_assignments (as_ownership s)) \<or>
      (\<exists>k a. e = OwnerEvent k a \<and>
         ob_assignments u = dput (oa_child_task_id a) a (ob_assignments (as_ownership s)))"
  shows "own_consistent H t"
proof -
  let ?s = "s\<lparr>as_ownership := u\<rparr>"
  let ?f = "case e of OwnerEvent k a \<Rightarrow> put_assignment a | _ \<Rightarrow> id"
  obtain v where c: "commit H e None ?s = (Inr (), v)" and t: "t = ?f v"
    using run by (auto simp: append_ownership_def prog_simps)
  obtain j where v: "v = ?s\<lparr>st_journal := j\<rparr>" using commit_view [OF c] by blast
  have cons: "consistent H ?s" using assms(1) by (simp add: own_consistent_def)
  have apply_e: "apply_event e v = Inr t"
    using e t by auto
  have "consistent H t" by (rule consistent_commit_update [OF cons c apply_e])
  moreover have "sound_store H ?s" using cons by (rule consistentD)
  then have "run_log own_apply (event_log v) no_ownership = Inr u"
    using ownership_log.update_then_commit [of H ?s s e None v] c u assms(1)
    by (simp add: own_consistent_def rebuild_ownership_def event_log_def v)
  moreover have "event_log t = event_log v" "as_ownership t = u"
    "st_assignments t = ob_assignments u"
    using e assms(1) by (auto simp: t v event_log_def put_assignment_def own_consistent_def)
  ultimately show ?thesis by (simp add: own_consistent_def rebuild_ownership_def)
qed

lemma persistent_register_consistent:
  assumes "own_consistent H s" and "persistent_register H b s = (Inr x, t)"
  shows "own_consistent H t"
proof -
  from assms(2) obtain u where u: "register_boundary b (as_ownership s) = (Inr x, u)"
    and run: "append_ownership H (BoundaryRegistered b) (s\<lparr>as_ownership := u\<rparr>) = (Inr (), t)"
    by (auto simp: persistent_register_def prog_simps on_ownership_Inr dest: register_boundary_Inr)
  show ?thesis
    using register_boundary_Inr [OF u]
    by (intro append_ownership_consistent [OF assms(1) own_apply_register [OF u] run]) simp
qed

lemma persistent_assign_consistent:
  assumes "own_consistent H s" and "persistent_assign H B c w rs now s = (Inr a, t)"
  shows "own_consistent H t"
proof -
  from assms(2) obtain u where u: "assign_owner B c w rs now (as_ownership s) = (Inr a, u)"
    and run: "append_ownership H (OwnerEvent OE_assigned a) (s\<lparr>as_ownership := u\<rparr>) = (Inr (), t)"
    by (auto simp: persistent_assign_def prog_simps on_ownership_Inr)
  have e: "own_apply (OwnerEvent OE_assigned a) (as_ownership s) = Inr u \<and>
      u = (as_ownership s)\<lparr>ob_assignments := dput c a (ob_assignments (as_ownership s))\<rparr> \<and>
      oa_child_task_id a = c"
    by (rule own_apply_assign [OF u]) simp
  show ?thesis
    by (rule append_ownership_consistent [OF assms(1) conjunct1 [OF e] run]) (use e in simp)
qed

lemma persistent_transfer_consistent:
  assumes "own_consistent H s" and "persistent_transfer H B c w rs now s = (Inr a, t)"
  shows "own_consistent H t"
proof -
  from assms(2) obtain u where "transfer_owner B c w rs now (as_ownership s) = (Inr a, u)"
    and run: "append_ownership H (OwnerEvent OE_transferred a) (s\<lparr>as_ownership := u\<rparr>) = (Inr (), t)"
    by (auto simp: persistent_transfer_def prog_simps on_ownership_Inr)
  then have u: "assign_owner B c w rs now (as_ownership s) = (Inr a, u)"
    by (simp add: transfer_owner_Inr)
  have e: "own_apply (OwnerEvent OE_transferred a) (as_ownership s) = Inr u \<and>
      u = (as_ownership s)\<lparr>ob_assignments := dput c a (ob_assignments (as_ownership s))\<rparr> \<and>
      oa_child_task_id a = c"
    by (rule own_apply_assign [OF u]) simp
  show ?thesis
    by (rule append_ownership_consistent [OF assms(1) conjunct1 [OF e] run]) (use e in simp)
qed

lemma persistent_release_consistent:
  assumes "own_consistent H s" and "own_inv B (as_ownership s)"
    and "persistent_release H c w now s = (Inr a, t)"
  shows "own_consistent H t"
proof -
  from assms(3) obtain u where u: "release_owner c w now (as_ownership s) = (Inr a, u)"
    and run: "append_ownership H (OwnerEvent OE_released a) (s\<lparr>as_ownership := u\<rparr>) = (Inr (), t)"
    by (auto simp: persistent_release_def prog_simps on_ownership_Inr)
  note e = own_apply_release [OF assms(2) u]
  show ?thesis
    by (rule append_ownership_consistent [OF assms(1) conjunct1 [OF e] run]) (use e in simp)
qed

lemma restart_app_same:
  assumes "own_consistent H s"
  shows "\<exists>t. restart_app H m f io s = Inr t \<and> recorded t = recorded s \<and>
    as_ownership t = as_ownership s \<and> own_consistent H t"
proof -
  obtain r where r: "restart H m f io s = Inr r" "recorded r = recorded s" "consistent H r"
    and log: "event_log r = event_log s"
    using restart_same_log [of H s m f io] assms by (auto simp: own_consistent_def)
  let ?t = "store.extend r \<lparr>as_ownership = as_ownership s\<rparr>"
  have t: "recorded ?t = recorded r" "st_journal ?t = st_journal r" "as_ownership ?t = as_ownership s"
    by (simp_all add: recorded_def store.defs view.defs)
  have "restart_app H m f io s = Inr ?t"
    using r(1) log assms by (simp add: restart_app_def own_consistent_def)
  moreover have "own_consistent H ?t"
    using t r log assms
    by (simp add: own_consistent_def consistent_def sound_store_def event_log_def)
      (metis recorded_select(6))
  ultimately show ?thesis using t r by auto
qed

section \<open>A run of the service\<close>

text \<open>A run of the service for the witnesses: declare a file, assign it, write it.\<close>

definition file_boundary :: "string \<Rightarrow> string \<Rightarrow> child_task_boundary" where
  "file_boundary c f =
     \<lparr>cb_id = c, cb_parent_task_id = ''p'', cb_objective = ''o'',
      cb_write_regions =
        [\<lparr>rr_resource_kind = RK_file, rr_resource_id = f, rr_selector_type = ST_whole_resource,
          rr_selector_value = VNone, rr_base_revision = ''r''\<rparr>],
      cb_version = 1\<rparr>"

definition new_app_store :: app_store where
  "new_app_store = store.extend (new_store []) \<lparr>as_ownership = no_ownership\<rparr>"

lemma new_app_store_select [simp]:
  "as_ownership new_app_store = no_ownership" "recorded new_app_store = empty_view"
  "st_journal new_app_store = st_journal (new_store [])" "st_assignments new_app_store = []"
  by (simp_all add: new_app_store_def recorded_def store.defs view.defs new_store_def empty_view_def)

lemma own_consistent_new: "own_consistent H new_app_store"
proof -
  have log: "event_log new_app_store = []"
    by (simp add: event_log_def stored_events_def journal_events_def new_store_def store.defs
        view.defs fresh_journal_def)
  have "sound_store H new_app_store"
    using consistent_new_store [of H "[]"] by (simp add: consistent_def sound_store_def)
  then show ?thesis
    by (simp add: own_consistent_def consistent_def log rebuild_ownership_def replay_def
        no_ownership_def)
qed

lemma healthy_append_ownership:
  assumes "healthy H s"
  shows "\<exists>t. append_ownership H e s = (Inr (), t) \<and> healthy H t \<and> as_ownership t = as_ownership s"
proof -
  obtain j where c: "commit H e None s = (Inr (), s\<lparr>st_journal := j\<rparr>)"
    and h: "healthy H (s\<lparr>st_journal := j\<rparr>)" using healthy_commit [OF assms] by blast
  let ?t = "(case e of OwnerEvent k a \<Rightarrow> put_assignment a | _ \<Rightarrow> id) (s\<lparr>st_journal := j\<rparr>)"
  have run: "append_ownership H e s = (Inr (), ?t)"
    using c by (simp add: append_ownership_def andthen_def bind_def)
  have "healthy H ?t" using h by (simp add: healthy_def split: event.split)
  with run append_ownership_same [OF run] show ?thesis by blast
qed

lemma ownership_run:
  "\<exists>s t. persistent_register unit_hashing (file_boundary ''c'' ''f'') new_app_store =
       (Inr (file_boundary ''c'' ''f''), s) \<and>
     persistent_assign unit_hashing plain_builtins ''c'' ''w'' (cb_write_regions (file_boundary ''c'' ''f'')) 0 s =
       (Inr (the (dget (ob_assignments (as_ownership t)) ''c'')), t) \<and>
     ob_boundaries (as_ownership t) = [(''c'', file_boundary ''c'' ''f'')] \<and>
     (\<exists>a. ob_assignments (as_ownership t) = [(''c'', a)] \<and> oa_status a = AS_active \<and>
        oa_owner_agent_id a = ''w'' \<and> oa_write_regions a = cb_write_regions (file_boundary ''c'' ''f''))"
proof -
  let ?b = "file_boundary ''c'' ''f''" and ?H = "unit_hashing :: event hashing"
  let ?s0 = "new_app_store\<lparr>as_ownership := \<lparr>ob_boundaries = [(''c'', ?b)], ob_assignments = []\<rparr>\<rparr>"
  have "healthy ?H (new_store [])" by simp
  then have "healthy ?H ?s0" by (simp add: healthy_def)
  from healthy_append_ownership [OF this, of "BoundaryRegistered ?b"] obtain s
    where s: "append_ownership ?H (BoundaryRegistered ?b) ?s0 = (Inr (), s)" "healthy ?H s"
      "as_ownership s = \<lparr>ob_boundaries = [(''c'', ?b)], ob_assignments = []\<rparr>" by auto
  have reg: "persistent_register ?H ?b new_app_store = (Inr ?b, s)"
    using s(1) by (simp add: persistent_register_def register_boundary_def on_ownership_def
        no_ownership_def file_boundary_def bind_def andthen_def)
  let ?a = "\<lparr>oa_child_task_id = ''c'', oa_owner_agent_id = ''w'',
     oa_write_regions = cb_write_regions ?b, oa_version = 1, oa_status = AS_active,
     oa_assigned_at = 0, oa_released_at = None\<rparr>"
  let ?s1 = "s\<lparr>as_ownership := \<lparr>ob_boundaries = [(''c'', ?b)], ob_assignments = [(''c'', ?a)]\<rparr>\<rparr>"
  have "healthy ?H ?s1" using s(2) by (simp add: healthy_def)
  from healthy_append_ownership [OF this, of "OwnerEvent OE_assigned ?a"] obtain t
    where t: "append_ownership ?H (OwnerEvent OE_assigned ?a) ?s1 = (Inr (), t)"
      "as_ownership t = \<lparr>ob_boundaries = [(''c'', ?b)], ob_assignments = [(''c'', ?a)]\<rparr>" by auto
  have "assign_owner plain_builtins ''c'' ''w'' (cb_write_regions ?b) 0 (as_ownership s) =
      (Inr ?a, \<lparr>ob_boundaries = [(''c'', ?b)], ob_assignments = [(''c'', ?a)]\<rparr>)"
    by (simp add: s(3) assign_owner_def require_boundary_def active_assignment_def covered_by_def
        file_boundary_def covers_def wf_owner_assignment_def len_within_def Let_def bind_def andthen_def)
  then have "persistent_assign ?H plain_builtins ''c'' ''w'' (cb_write_regions ?b) 0 s = (Inr ?a, t)"
    using t(1) by (simp add: persistent_assign_def on_ownership_def bind_def andthen_def)
  with reg t(2) show ?thesis by (intro exI [of _ s] exI [of _ t]) simp
qed

lemma own_run_reachable:
  "\<exists>s a. own_reachable unit_hashing plain_builtins s \<and>
     dget (ob_assignments (as_ownership s)) ''c'' = Some a \<and> oa_status a = AS_active \<and>
     assert_write_allowed plain_builtins ''c'' ''w'' (hd (cb_write_regions (file_boundary ''c'' ''f'')))
       (as_ownership s) = (Inr (), as_ownership s)"
proof -
  let ?b = "file_boundary ''c'' ''f''" and ?H = "unit_hashing :: event hashing"
  obtain s t a where s: "persistent_register ?H ?b new_app_store = (Inr ?b, s)"
    and t: "persistent_assign ?H plain_builtins ''c'' ''w'' (cb_write_regions ?b) 0 s =
       (Inr (the (dget (ob_assignments (as_ownership t)) ''c'')), t)"
    and o': "ob_boundaries (as_ownership t) = [(''c'', ?b)]"
      "ob_assignments (as_ownership t) = [(''c'', a)]" "oa_status a = AS_active"
      "oa_owner_agent_id a = ''w''" "oa_write_regions a = cb_write_regions ?b"
    using ownership_run by blast
  have "own_reachable ?H plain_builtins new_app_store" by (rule own_reachable.own_start) simp
  from own_reachable.own_next [OF this own_step.register [OF s]]
  have "own_reachable ?H plain_builtins s" .
  from own_reachable.own_next [OF this own_step.assign [OF t]]
  have "own_reachable ?H plain_builtins t" .
  moreover have "assert_write_allowed plain_builtins ''c'' ''w'' (hd (cb_write_regions ?b))
       (as_ownership t) = (Inr (), as_ownership t)"
    using o' by (simp add: assert_write_allowed_def require_boundary_def require_active_assignment_def
        active_assignment_def covered_by_def file_boundary_def covers_def bind_def andthen_def)
  ultimately show ?thesis using o'(2,3) by (intro exI [of _ t] exI [of _ a]) simp
qed

section \<open>What the ownership service guarantees\<close>

text \<open>
  C7. A permitted write stays inside the declared boundary: in every state the persistent service
  can reach, \<^verbatim>\<open>assert_write_allowed\<close> returns only for the agent of the child task's active
  assignment and a region that one of the regions declared for the child task contains.
\<close>

theorem write_stays_in_boundary:
  assumes "own_reachable H B s"
    and "assert_write_allowed B c w r (as_ownership s) = (Inr (), u)"
  shows "u = as_ownership s \<and>
    (\<exists>b a. dget (ob_boundaries (as_ownership s)) c = Some b \<and>
           dget (ob_assignments (as_ownership s)) c = Some a \<and> oa_status a = AS_active \<and>
           oa_owner_agent_id a = w \<and> list_ex (\<lambda>d. covers B d r) (cb_write_regions b))"
proof -
  from assms(2) obtain a where a: "active_assignment (as_ownership s) c = Some a"
    "oa_owner_agent_id a = w" "covered_by B (oa_write_regions a) r" and u: "u = as_ownership s"
    by (auto simp: assert_write_allowed_def require_boundary_def require_active_assignment_def
        prog_simps split: option.splits if_splits)
  then obtain b where "dget (ob_boundaries (as_ownership s)) c = Some b"
    "\<forall>x \<in> set (oa_write_regions a). covered_by B (cb_write_regions b) x"
    using own_reachable_inv [OF assms(1)] unfolding own_inv_def active_assignment_Some by blast
  with a u show ?thesis
    using region_containment.covered_through [of B r "oa_write_regions a" "cb_write_regions b"]
    by (auto simp: covered_by_def active_assignment_Some)
qed

lemma write_stays_in_boundary_witness:
  "\<exists>s. own_reachable unit_hashing plain_builtins s \<and>
     assert_write_allowed plain_builtins ''c'' ''w'' (hd (cb_write_regions (file_boundary ''c'' ''f'')))
       (as_ownership s) = (Inr (), as_ownership s) \<and>
     (\<exists>b. dget (ob_boundaries (as_ownership s)) ''c'' = Some b)"
proof -
  let ?r = "hd (cb_write_regions (file_boundary ''c'' ''f''))"
  obtain s where s: "own_reachable unit_hashing plain_builtins s"
    "assert_write_allowed plain_builtins ''c'' ''w'' ?r (as_ownership s) = (Inr (), as_ownership s)"
    using own_run_reachable by blast
  from write_stays_in_boundary [OF s] s show ?thesis by blast
qed

text \<open>
  A child task has one owner at a time: no call, whatever its outcome, replaces or changes an
  active assignment; the only change it can undergo is its release by the agent that holds it.
\<close>

theorem owner_never_replaced:
  assumes "own_step H B s t"
    and "dget (ob_assignments (as_ownership s)) c = Some a" and "oa_status a = AS_active"
    and "own_reachable H B s"
  shows "dget (ob_assignments (as_ownership t)) c = Some a \<or>
    (\<exists>now. release_owner c (oa_owner_agent_id a) now (as_ownership s) =
       (Inr (the (dget (ob_assignments (as_ownership t)) c)), as_ownership t))"
proof -
  have act: "active_assignment (as_ownership s) c = Some a"
    using assms(2,3) by (simp add: active_assignment_Some)
  from own_step_cases [OF assms(1)] show ?thesis
  proof (elim disjE exE)
    fix c' w rs now a'
    assume "assign_owner B c' w rs now (as_ownership s) = (Inr a', as_ownership t)"
    then show ?thesis using act assms(2) by (auto elim!: assign_owner_Inr)
  next
    fix c' w now a'
    assume rel: "release_owner c' w now (as_ownership s) = (Inr a', as_ownership t)"
    show ?thesis
    proof (cases "c' = c")
      case True
      from rel have w: "oa_owner_agent_id a = w" and
        t: "dget (ob_assignments (as_ownership t)) c = Some a'"
        using act True by (auto elim!: release_owner_Inr)
      have "release_owner c (oa_owner_agent_id a) now (as_ownership s) =
          (Inr (the (dget (ob_assignments (as_ownership t)) c)), as_ownership t)"
        using rel by (simp add: True w t)
      then show ?thesis by blast
    next
      case False
      with rel assms(2) show ?thesis by (auto elim!: release_owner_Inr)
    qed
  qed (use assms(2) in \<open>auto dest: register_boundary_Inr\<close>)
qed

lemma owner_never_replaced_witness:
  "\<exists>s t a. own_step unit_hashing plain_builtins s t \<and>
     dget (ob_assignments (as_ownership s)) ''c'' = Some a \<and>
     (dget (ob_assignments (as_ownership t)) ''c'' = Some a \<or>
      (\<exists>now. release_owner ''c'' (oa_owner_agent_id a) now (as_ownership s) =
         (Inr (the (dget (ob_assignments (as_ownership t)) ''c'')), as_ownership t)))"
proof -
  obtain s a where s: "own_reachable unit_hashing plain_builtins s"
    "dget (ob_assignments (as_ownership s)) ''c'' = Some a" "oa_status a = AS_active"
    using own_run_reachable by blast
  have step: "own_step unit_hashing plain_builtins s
      (snd (persistent_release unit_hashing ''c'' ''w'' 1 s))"
    by (rule own_step.release [of _ _ _ _ _ "fst (persistent_release unit_hashing ''c'' ''w'' 1 s)"]) simp
  from owner_never_replaced [OF step s(2,3,1)] step s(2) show ?thesis by blast
qed

text \<open>
  Ownership survives a restart: after any operation of the persistent service that returns,
  rebuilding the service from the journal in a new process succeeds and gives the same
  boundaries and assignments, and the replayed store mirrors the assignments.
\<close>

theorem ownership_durable:
  assumes "own_consistent H s" and "own_reachable H B s"
    and "(\<exists>b x. persistent_register H b s = (Inr x, t)) \<or>
         (\<exists>c w rs now a. persistent_assign H B c w rs now s = (Inr a, t)) \<or>
         (\<exists>c w now a. persistent_release H c w now s = (Inr a, t)) \<or>
         (\<exists>c w rs now a. persistent_transfer H B c w rs now s = (Inr a, t))"
  shows "\<exists>r. restart_app H m f io t = Inr r \<and> as_ownership r = as_ownership t \<and>
    st_assignments r = ob_assignments (as_ownership r) \<and> own_consistent H r"
proof -
  have "own_consistent H t"
    using assms(3)
    by (elim disjE exE)
      (erule persistent_register_consistent [OF assms(1)] persistent_assign_consistent [OF assms(1)]
        persistent_release_consistent [OF assms(1) own_reachable_inv [OF assms(2)]]
        persistent_transfer_consistent [OF assms(1)])+
  from restart_app_same [OF this, of m f io] show ?thesis by (auto simp: own_consistent_def)
qed

lemma ownership_durable_witness:
  "\<exists>t r. persistent_register unit_hashing (file_boundary ''c'' ''f'') new_app_store =
       (Inr (file_boundary ''c'' ''f''), t) \<and>
     restart_app unit_hashing None 0 [] t = Inr r \<and> as_ownership r = as_ownership t"
proof -
  obtain t where t: "persistent_register unit_hashing (file_boundary ''c'' ''f'') new_app_store =
       (Inr (file_boundary ''c'' ''f''), t)"
    using ownership_run by blast
  have "own_reachable unit_hashing plain_builtins new_app_store"
    by (rule own_reachable.own_start) simp
  from ownership_durable [OF own_consistent_new this, of t None 0 "[]"] t show ?thesis by blast
qed

end
