(* ===== verification/Queues.thy ===== *)
theory Queues
  imports Prelude
begin

text \<open>
  The interface of a first-in-first-out work queue, as the worker queue of
  \<^verbatim>\<open>execution/queue.py\<close> promises it: an addition goes to the end, a removal takes the
  front, anything else leaves the line as it is. Steps are relations on the store, so that an
  operation that raises is a step too.
\<close>

section \<open>Runs of a queue\<close>

datatype 'a queue_event = Added 'a | Taken 'a

inductive queue_run ::
    "('a \<Rightarrow> 's \<Rightarrow> 's \<Rightarrow> bool) \<Rightarrow> ('a \<Rightarrow> 's \<Rightarrow> 's \<Rightarrow> bool) \<Rightarrow> ('s \<Rightarrow> 's \<Rightarrow> bool) \<Rightarrow>
     's \<Rightarrow> 'a queue_event list \<Rightarrow> 's \<Rightarrow> bool"
  for adds takes keeping where
  idle: "queue_run adds takes keeping s [] s"
| added: "adds a s t \<Longrightarrow> queue_run adds takes keeping t h u \<Longrightarrow>
    queue_run adds takes keeping s (Added a # h) u"
| taken: "takes a s t \<Longrightarrow> queue_run adds takes keeping t h u \<Longrightarrow>
    queue_run adds takes keeping s (Taken a # h) u"
| kept: "keeping s t \<Longrightarrow> queue_run adds takes keeping t h u \<Longrightarrow>
    queue_run adds takes keeping s h u"

fun added_items :: "'a queue_event list \<Rightarrow> 'a list" where
  "added_items [] = []"
| "added_items (Added a # h) = a # added_items h"
| "added_items (Taken _ # h) = added_items h"

fun taken_items :: "'a queue_event list \<Rightarrow> 'a list" where
  "taken_items [] = []"
| "taken_items (Added _ # h) = taken_items h"
| "taken_items (Taken a # h) = a # taken_items h"

section \<open>The interface\<close>

locale fifo_queue =
  fixes ok :: "'s \<Rightarrow> bool"
    and line :: "'s \<Rightarrow> 'a list"
    and adds :: "'a \<Rightarrow> 's \<Rightarrow> 's \<Rightarrow> bool"
    and takes :: "'a \<Rightarrow> 's \<Rightarrow> 's \<Rightarrow> bool"
    and keeping :: "'s \<Rightarrow> 's \<Rightarrow> bool"
  assumes adds_last: "ok s \<Longrightarrow> adds a s t \<Longrightarrow> ok t \<and> line t = line s @ [a]"
    and takes_first: "ok s \<Longrightarrow> takes a s t \<Longrightarrow> ok t \<and> line s = a # line t"
    and keeping_line: "ok s \<Longrightarrow> keeping s t \<Longrightarrow> ok t \<and> line t = line s"
begin

text \<open>What was waiting, then what was added, is what was taken, then what still waits.\<close>

lemma in_order:
  "queue_run adds takes keeping s h t \<Longrightarrow> ok s \<Longrightarrow>
     ok t \<and> line s @ added_items h = taken_items h @ line t"
proof (induction rule: queue_run.induct)
  case (added a s t h u)
  then show ?case using adds_last [of s a t] by simp
next
  case (taken a s t h u)
  then show ?case using takes_first [of s a t] by simp
next
  case (kept s t h u)
  then show ?case using keeping_line [of s t] by simp
qed simp

text \<open>No item is taken twice, nor lost, when the identifiers are distinct.\<close>

lemma served_once:
  assumes "queue_run adds takes keeping s h t" and "ok s"
    and "distinct (line s @ added_items h)"
  shows "distinct (taken_items h) \<and> set (taken_items h) \<inter> set (line t) = {} \<and>
    set (line s) \<union> set (added_items h) = set (taken_items h) \<union> set (line t)"
proof -
  have eq: "line s @ added_items h = taken_items h @ line t" using in_order assms by blast
  with assms(3) have "distinct (taken_items h @ line t)" by simp
  moreover have "set (line s @ added_items h) = set (taken_items h @ line t)" by (simp only: eq)
  ultimately show ?thesis by auto
qed

end

end
