(* ===== verification/Artifacts.thy ===== *)
theory Artifacts
  imports Settings
begin

text \<open>
  \<^verbatim>\<open>storage/artifacts.py\<close>: content-addressed storage below the data directory. The files are a
  dictionary from path components (relative to the data directory) to their bytes; the digest
  \<^verbatim>\<open>sha256(content).hexdigest()\<close> is the parameter \<open>sha\<close>, of which no law is assumed. Writing a
  temporary file and renaming it is one update; what the guard reads of the disk is an argument.
\<close>

section \<open>Paths\<close>

text \<open>The components of a path: \<^verbatim>\<open>Path(text).parts\<close>, where empty and dot components vanish.\<close>

fun split_slash :: "string \<Rightarrow> string \<Rightarrow> string list" where
  "split_slash acc [] = [rev acc]"
| "split_slash acc (c # cs) =
     (if c = CHR ''/'' then rev acc # split_slash [] cs else split_slash (c # acc) cs)"

definition path_parts :: "string \<Rightarrow> string list" where
  "path_parts p =
     (let parts = filter (\<lambda>x. x \<noteq> [] \<and> x \<noteq> ''.'') (split_slash [] p)
      in if p \<noteq> [] \<and> hd p = CHR ''/'' then ''/'' # parts else parts)"

section \<open>The store\<close>

record artifact_ref =
  ar_relative_path :: string
  ar_media_type :: string
  ar_size :: int
  ar_sha256 :: string
  ar_data_classification :: string

record artifact_store =
  at_files :: "(string list, string) dict"
  at_max_bytes :: "int option"
  at_min_free_bytes :: int

text \<open>The checks of \<^verbatim>\<open>ArtifactRef.from_dict\<close> on the fields.\<close>

definition valid_ref :: "artifact_ref \<Rightarrow> artifact_ref res" where
  "valid_ref r =
     (if ar_size r < 0 \<or> length (ar_sha256 r) \<noteq> 64
      then Inl (ArtifactError ''invalid_artifact_reference'') else Inr r)"

definition reference_to :: "string \<Rightarrow> int \<Rightarrow> string \<Rightarrow> string \<Rightarrow> artifact_ref" where
  "reference_to digest n media classification =
     \<lparr>ar_relative_path = ''artifacts/sha256/'' @ digest, ar_media_type = media, ar_size = n,
      ar_sha256 = digest, ar_data_classification = classification\<rparr>"

text \<open>\<^verbatim>\<open>Path("artifacts") / "sha256" / digest\<close>: an absolute digest replaces the path.\<close>

definition expected_parts :: "string \<Rightarrow> string list" where
  "expected_parts digest =
     (let parts = path_parts digest
      in if digest \<noteq> [] \<and> hd digest = CHR ''/'' then parts else [''artifacts'', ''sha256''] @ parts)"

definition artifact_path :: "artifact_ref \<Rightarrow> string list res" where
  "artifact_path r =
     (if path_parts (ar_relative_path r) \<noteq> expected_parts (ar_sha256 r)
      then Inl (ArtifactError ''artifact_reference_path_mismatch'')
      else Inr (expected_parts (ar_sha256 r)))"

definition verify_artifact ::
    "(string \<Rightarrow> string) \<Rightarrow> artifact_ref \<Rightarrow> 'r artifact_store_scheme \<Rightarrow> artifact_ref res" where
  "verify_artifact sha r s =
     (case artifact_path r of
        Inl e \<Rightarrow> Inl e
      | Inr p \<Rightarrow>
     (case dget (at_files s) p of
        None \<Rightarrow> Inl (ArtifactError ''artifact_missing'')
      | Some content \<Rightarrow>
          if int (length content) \<noteq> ar_size r \<or> sha content \<noteq> ar_sha256 r
          then Inl (ArtifactError ''artifact_integrity_mismatch'') else Inr r))"

definition put_artifact ::
    "(string \<Rightarrow> string) \<Rightarrow> disk_usage \<Rightarrow> string \<Rightarrow> string \<Rightarrow> string \<Rightarrow>
     ('r artifact_store_scheme, artifact_ref) prog" where
  "put_artifact sha du content media classification =
     andthen (raise_when (media = [] \<or> classification = [])
                (ValueError ''artifact metadata must be non-empty''))
    (bind (get (\<lambda>s. ensure_storage_capacity du (int (length content)) (at_max_bytes s)
                      (at_min_free_bytes s))) (\<lambda>c.
     andthen (lift c)
       (let digest = sha content;
            target = [''artifacts'', ''sha256'', digest];
            ref = reference_to digest (int (length content)) media classification
        in andthen (modify (\<lambda>s. if dget (at_files s) target \<noteq> None then s
                                else s\<lparr>at_files := dput target content (at_files s)\<rparr>))
             (bind (get (verify_artifact sha ref)) lift))))"

definition get_artifact ::
    "(string \<Rightarrow> string) \<Rightarrow> artifact_ref \<Rightarrow> 'r artifact_store_scheme \<Rightarrow> string res" where
  "get_artifact sha r s =
     (case verify_artifact sha r s of
        Inl e \<Rightarrow> Inl e
      | Inr r' \<Rightarrow>
     (case artifact_path r' of
        Inl e \<Rightarrow> Inl e
      | Inr p \<Rightarrow> (case dget (at_files s) p of None \<Rightarrow> Inl OSError | Some c \<Rightarrow> Inr c)))"

section \<open>Integrity\<close>

lemma verify_artifact_Inr:
  "verify_artifact sha r s = Inr x \<longleftrightarrow>
     x = r \<and> path_parts (ar_relative_path r) = expected_parts (ar_sha256 r) \<and>
     (\<exists>content. dget (at_files s) (expected_parts (ar_sha256 r)) = Some content \<and>
        int (length content) = ar_size r \<and> sha content = ar_sha256 r)"
  by (auto simp: verify_artifact_def artifact_path_def split: option.splits)

lemma get_artifact_Inr:
  assumes "get_artifact sha r s = Inr c"
  shows "dget (at_files s) (expected_parts (ar_sha256 r)) = Some c \<and>
    sha c = ar_sha256 r \<and> int (length c) = ar_size r"
proof (cases "verify_artifact sha r s")
  case (Inl e)
  with assms show ?thesis by (simp add: get_artifact_def)
next
  case (Inr x)
  then have "x = r" and p: "artifact_path r = Inr (expected_parts (ar_sha256 r))"
    and f: "\<exists>content. dget (at_files s) (expected_parts (ar_sha256 r)) = Some content \<and>
        int (length content) = ar_size r \<and> sha content = ar_sha256 r"
    by (simp_all add: verify_artifact_Inr artifact_path_def)
  with Inr assms show ?thesis by (auto simp: get_artifact_def)
qed

lemma put_artifact_Inr:
  assumes "put_artifact sha du content media classification s = (Inr r, t)"
  shows "verify_artifact sha r t = Inr r \<and>
    r = reference_to (sha content) (int (length content)) media classification \<and>
    (\<forall>p. p \<noteq> [''artifacts'', ''sha256'', sha content] \<longrightarrow> dget (at_files t) p = dget (at_files s) p)"
proof -
  let ?r = "reference_to (sha content) (int (length content)) media classification"
  from assms have v: "verify_artifact sha ?r t = Inr r"
    and t: "t = s \<or> t = s\<lparr>at_files := dput [''artifacts'', ''sha256'', sha content] content (at_files s)\<rparr>"
    by (auto simp: put_artifact_def prog_simps Let_def split: if_splits)
  from v have "r = ?r" by (simp add: verify_artifact_Inr)
  with v t show ?thesis by auto
qed

end
