(* ===== verification/Checkpoints.thy ===== *)
theory Checkpoints
  imports Artifacts "HOL-Library.List_Lexorder" "HOL-Library.Char_ord"
begin

text \<open>
  \<^verbatim>\<open>storage/checkpoints.py\<close>: recovery facts in checksummed files, each naming the artifacts it
  rests on. The checkpoint store holds the artifact store it verifies them in. The digest of a
  checkpoint's canonical JSON is the parameter \<open>cph\<close>, the length of its file \<open>cpn\<close>.
\<close>

record checkpoint =
  ck_id :: string
  ck_boundary_version :: int
  ck_owner_version :: int
  ck_confirmed_facts :: "string list"
  ck_open_questions :: "string list"
  ck_modification_summary :: string
  ck_executed_commands :: "string list"
  ck_evidence_refs :: "string list"
  ck_recent_failures :: "string list"
  ck_next_step :: string
  ck_safe_to_resume :: bool
  ck_artifact_refs :: "artifact_ref list"

text \<open>
  The file of a checkpoint: what \<^verbatim>\<open>json.loads\<close> and the two subscriptions make of it.
\<close>

record checkpoint_envelope =
  ce_format_version :: int
  ce_sha256 :: string
  ce_checkpoint :: checkpoint

datatype checkpoint_file = CheckpointUnreadable | CheckpointFile checkpoint_envelope

record checkpoint_store = artifact_store +
  cp_files :: "(string, checkpoint_file) dict"
  cp_max_bytes :: "int option"
  cp_min_free_bytes :: int

record checkpoint_codec =
  cc_digest :: "checkpoint \<Rightarrow> string"
  cc_size :: "checkpoint \<Rightarrow> int"
  cc_sha :: "string \<Rightarrow> string"

definition bad_checkpoint_id :: "string \<Rightarrow> bool" where
  "bad_checkpoint_id i \<longleftrightarrow> i = [] \<or> CHR ''/'' \<in> set i \<or> CHR 0x5C \<in> set i"

text \<open>\<^verbatim>\<open>from_dict\<close>: the references first (an invalid one is an artifact error), then the fields.\<close>

fun valid_refs :: "artifact_ref list \<Rightarrow> unit res" where
  "valid_refs [] = Inr ()"
| "valid_refs (r # rs) = (case valid_ref r of Inl e \<Rightarrow> Inl e | Inr _ \<Rightarrow> valid_refs rs)"

definition checkpoint_from_dict :: "checkpoint \<Rightarrow> checkpoint res" where
  "checkpoint_from_dict c =
     (case valid_refs (ck_artifact_refs c) of
        Inl e \<Rightarrow> Inl e
      | Inr _ \<Rightarrow>
        if bad_checkpoint_id (ck_id c) then Inl (CheckpointError ''invalid_checkpoint_id'')
        else if ck_boundary_version c < 1 \<or> ck_owner_version c < 1
        then Inl (CheckpointError ''invalid_checkpoint_version'')
        else Inr c)"

definition checkpoint_path :: "string \<Rightarrow> string res" where
  "checkpoint_path i =
     (if bad_checkpoint_id i then Inl (CheckpointError ''invalid_checkpoint_id'') else Inr i)"

fun verify_all ::
    "(string \<Rightarrow> string) \<Rightarrow> artifact_ref list \<Rightarrow> 'r artifact_store_scheme \<Rightarrow> unit res" where
  "verify_all sha [] s = Inr ()"
| "verify_all sha (r # rs) s =
     (case verify_artifact sha r s of Inl e \<Rightarrow> Inl e | Inr _ \<Rightarrow> verify_all sha rs s)"

text \<open>A \<^verbatim>\<open>Checkpoint\<close> object is saved as it is: only a dictionary goes through \<^verbatim>\<open>from_dict\<close>.\<close>

definition save_checkpoint ::
    "checkpoint_codec \<Rightarrow> disk_usage \<Rightarrow> checkpoint \<Rightarrow> ('r checkpoint_store_scheme, unit) prog" where
  "save_checkpoint C du c =
     bind (get (verify_all (cc_sha C) (ck_artifact_refs c))) (\<lambda>v.
     andthen (lift v)
    (bind (get (\<lambda>s. ensure_storage_capacity du (cc_size C c) (cp_max_bytes s) (cp_min_free_bytes s)))
       (\<lambda>cap.
     andthen (lift cap)
    (bind (lift (checkpoint_path (ck_id c))) (\<lambda>i.
       modify (cp_files_update (dput i
         (CheckpointFile \<lparr>ce_format_version = 1, ce_sha256 = cc_digest C c, ce_checkpoint = c\<rparr>))))))))"

definition load_checkpoint ::
    "checkpoint_codec \<Rightarrow> string \<Rightarrow> 'r checkpoint_store_scheme \<Rightarrow> checkpoint res" where
  "load_checkpoint C i s =
     (case checkpoint_path i of
        Inl e \<Rightarrow> Inl e
      | Inr i \<Rightarrow>
     (case dget (cp_files s) i of
        None \<Rightarrow> Inl (CheckpointError ''checkpoint_unreadable'')
      | Some CheckpointUnreadable \<Rightarrow> Inl (CheckpointError ''checkpoint_unreadable'')
      | Some (CheckpointFile f) \<Rightarrow>
          if ce_format_version f \<noteq> 1 then Inl (CheckpointError ''unsupported_checkpoint_format'')
          else if ce_sha256 f \<noteq> cc_digest C (ce_checkpoint f)
          then Inl (CheckpointError ''checkpoint_integrity_mismatch'')
          else (case checkpoint_from_dict (ce_checkpoint f) of
                  Inl e \<Rightarrow> Inl e
                | Inr c \<Rightarrow>
                    if ck_id c \<noteq> i then Inl (CheckpointError ''checkpoint_id_mismatch'')
                    else (case verify_all (cc_sha C) (ck_artifact_refs c) s of
                            Inl e \<Rightarrow> Inl e
                          | Inr _ \<Rightarrow> Inr c))))"

text \<open>\<^verbatim>\<open>except CheckpointError: continue\<close>: an artifact error is another class and leaves the loop.\<close>

fun load_valid ::
    "checkpoint_codec \<Rightarrow> string list \<Rightarrow> 'r checkpoint_store_scheme \<Rightarrow> checkpoint list res" where
  "load_valid C [] s = Inr []"
| "load_valid C (i # is) s =
     (case load_checkpoint C i s of
        Inr c \<Rightarrow> (case load_valid C is s of Inl e \<Rightarrow> Inl e | Inr cs \<Rightarrow> Inr (c # cs))
      | Inl (CheckpointError _) \<Rightarrow> load_valid C is s
      | Inl e \<Rightarrow> Inl e)"

definition list_ids :: "'r checkpoint_store_scheme \<Rightarrow> string list" where
  "list_ids s = sort (dkeys (cp_files s))"

definition list_valid ::
    "checkpoint_codec \<Rightarrow> 'r checkpoint_store_scheme \<Rightarrow> checkpoint list res" where
  "list_valid C s = load_valid C (list_ids s) s"

section \<open>Lemmas\<close>

lemma verify_all_Inr:
  "verify_all sha rs s = Inr () \<longleftrightarrow> (\<forall>r \<in> set rs. verify_artifact sha r s = Inr r)"
proof (induction rs)
  case (Cons r rs)
  show ?case
  proof (cases "verify_artifact sha r s")
    case (Inr x)
    then have "x = r" by (simp add: verify_artifact_Inr)
    with Inr Cons show ?thesis by simp
  qed simp
qed simp

lemma load_checkpoint_Inr:
  assumes "load_checkpoint C i s = Inr c"
  shows "ck_id c = i \<and> \<not> bad_checkpoint_id i \<and> 1 \<le> ck_boundary_version c \<and> 1 \<le> ck_owner_version c \<and>
    (\<forall>r \<in> set (ck_artifact_refs c). verify_artifact (cc_sha C) r s = Inr r) \<and>
    (\<exists>f. dget (cp_files s) i = Some (CheckpointFile f) \<and> ce_checkpoint f = c \<and>
         ce_sha256 f = cc_digest C c)"
  using assms
  by (auto simp: load_checkpoint_def checkpoint_path_def checkpoint_from_dict_def verify_all_Inr
      split: if_splits option.splits checkpoint_file.splits sum.splits)

lemma verify_artifact_files:
  "at_files s = at_files t \<Longrightarrow> verify_artifact sha r s = verify_artifact sha r t"
  by (simp add: verify_artifact_def split: sum.split)

lemma save_checkpoint_Inr:
  assumes "save_checkpoint C du c s = (Inr (), t)"
  shows "t = s\<lparr>cp_files := dput (ck_id c) (CheckpointFile
      \<lparr>ce_format_version = 1, ce_sha256 = cc_digest C c, ce_checkpoint = c\<rparr>) (cp_files s)\<rparr> \<and>
    \<not> bad_checkpoint_id (ck_id c) \<and>
    (\<forall>r \<in> set (ck_artifact_refs c). verify_artifact (cc_sha C) r s = Inr r)"
  using assms
  by (auto simp: save_checkpoint_def prog_simps checkpoint_path_def verify_all_Inr split: if_splits)

lemma load_valid_members:
  "load_valid C is s = Inr cs \<Longrightarrow> c \<in> set cs \<longleftrightarrow> (\<exists>i \<in> set is. load_checkpoint C i s = Inr c)"
  by (induction "is" arbitrary: cs) (auto split: sum.splits exn.splits)

lemma list_valid_members:
  assumes "list_valid C s = Inr cs"
  shows "c \<in> set cs \<longleftrightarrow> load_checkpoint C (ck_id c) s = Inr c"
proof -
  have mem: "c \<in> set cs \<longleftrightarrow> (\<exists>i \<in> set (list_ids s). load_checkpoint C i s = Inr c)"
    using assms unfolding list_valid_def by (rule load_valid_members)
  have "i = ck_id c" if "load_checkpoint C i s = Inr c" for i
    using load_checkpoint_Inr [OF that] by simp
  moreover have "ck_id c \<in> set (list_ids s)" if loaded: "load_checkpoint C (ck_id c) s = Inr c"
  proof -
    obtain f where "dget (cp_files s) (ck_id c) = Some f"
      using load_checkpoint_Inr [OF loaded] by blast
    then have "(ck_id c, f) \<in> set (cp_files s)" by (rule map_of_SomeD)
    then show ?thesis by (force simp: list_ids_def)
  qed
  ultimately show ?thesis using mem by blast
qed

lemma load_valid_stops:
  assumes "load_checkpoint C i s = Inl (ArtifactError m)" and "i \<in> set is"
  shows "\<exists>e. load_valid C is s = Inl e"
  using assms
proof (induction "is")
  case (Cons j js)
  then show ?case by (auto split: sum.splits exn.splits)
qed simp

section \<open>What the checkpoint store guarantees\<close>


definition empty_checkpoints :: checkpoint_store where
  "empty_checkpoints =
     \<lparr>at_files = [], at_max_bytes = None, at_min_free_bytes = 0, cp_files = [],
      cp_max_bytes = None, cp_min_free_bytes = 0\<rparr>"

definition plain_codec :: checkpoint_codec where
  "plain_codec = \<lparr>cc_digest = ck_id, cc_size = (\<lambda>_. 1), cc_sha = (\<lambda>_. replicate 64 (CHR ''0''))\<rparr>"

definition checkpoint_of :: "string \<Rightarrow> bool \<Rightarrow> artifact_ref list \<Rightarrow> checkpoint" where
  "checkpoint_of i safe refs =
     \<lparr>ck_id = i, ck_boundary_version = 1, ck_owner_version = 1, ck_confirmed_facts = [],
      ck_open_questions = [], ck_modification_summary = [], ck_executed_commands = [],
      ck_evidence_refs = [], ck_recent_failures = [], ck_next_step = [], ck_safe_to_resume = safe,
      ck_artifact_refs = refs\<rparr>"


end
