(* ===== verification/Execution.thy ===== *)
theory Execution
  imports Queues Store StateMachine Checkpoints
begin

text \<open>
  The durable queue of worker attempts: \<^verbatim>\<open>execution/claims.py\<close> (pure claim rules),
  \<^verbatim>\<open>execution/queue.py\<close> (admission, claims, requeue, recovery, terminal acknowledgement),
  \<^verbatim>\<open>execution/admission.py\<close>, the queue and control operations of \<^verbatim>\<open>execution/manager.py\<close>, the
  handles of \<^verbatim>\<open>execution/coordination.py\<close>, and \<^verbatim>\<open>Store.reclaim_attempts\<close>.

  Claim tokens, identifiers and the current time are arguments. A time to live is in the unit
  of \<open>time\<close>.
\<close>

section \<open>Claim rules: execution/claims.py\<close>

record worker_attempt_claim =
  wc_token :: string
  wc_claimed_at :: time
  wc_expires_at :: time

record attempt_record =
  rc_id' :: string
  rc_worker_session_id :: string
  rc_status :: worker_attempt_status
  rc_claim :: "worker_attempt_claim option"
  rc_checkpoint_id :: "string option"
  rc_checkpoint_safe_to_resume :: bool
  rc_resumed_from_attempt_id :: "string option"
  rc_recovery_checkpoint_id :: "string option"

datatype recovery_decision = Requeue string "string option" | Block string

text \<open>\<^verbatim>\<open>_utc\<close> reads a naive time as UTC.\<close>

definition utc :: "datetime \<Rightarrow> time" where
  "utc d = (case d of Aware t \<Rightarrow> t | Naive t \<Rightarrow> t)"

definition claim_service :: "time \<Rightarrow> unit res" where
  "claim_service ttl =
     (if ttl \<le> 0 then Inl (ValueError ''claim TTL must be positive'') else Inr ())"

definition claim_record :: "time \<Rightarrow> attempt_record \<Rightarrow> string \<Rightarrow> datetime \<Rightarrow> attempt_record res" where
  "claim_record ttl a token now =
     (if rc_status a \<noteq> WS_queued then Inl (ValueError ''only queued attempts can be claimed'')
      else Inr (a\<lparr>rc_status := WS_claimed,
                  rc_claim := Some \<lparr>wc_token = token, wc_claimed_at = utc now,
                                   wc_expires_at = utc now + ttl\<rparr>\<rparr>))"

definition heartbeat_record :: "time \<Rightarrow> attempt_record \<Rightarrow> string \<Rightarrow> datetime \<Rightarrow> attempt_record res" where
  "heartbeat_record ttl a token now =
     (case rc_claim a of
        None \<Rightarrow> Inl (ValueError ''invalid or expired claim'')
      | Some c \<Rightarrow>
          if rc_status a \<notin> {WS_claimed, WS_running} \<or> wc_token c \<noteq> token \<or> wc_expires_at c \<le> utc now
          then Inl (ValueError ''invalid or expired claim'')
          else Inr (a\<lparr>rc_claim := Some (c\<lparr>wc_expires_at := utc now + ttl\<rparr>)\<rparr>))"

definition create_recovery_attempt ::
    "attempt_record \<Rightarrow> string \<Rightarrow> string \<Rightarrow> attempt_record res" where
  "create_recovery_attempt a checkpoint_id attempt_id =
     (if rc_status a \<notin> set WORKER_ATTEMPT_TERMINAL
      then Inl (ValueError ''only a terminated attempt can be resumed'')
      else if checkpoint_id = [] then Inl (ValueError ''a recovery checkpoint is required'')
      else Inr \<lparr>rc_id' = attempt_id, rc_worker_session_id = rc_worker_session_id a,
                rc_status = WS_queued, rc_claim = None, rc_checkpoint_id = Some checkpoint_id,
                rc_checkpoint_safe_to_resume = False,
                rc_resumed_from_attempt_id = Some (rc_id' a),
                rc_recovery_checkpoint_id = Some checkpoint_id\<rparr>)"

text \<open>\<^verbatim>\<open>a or b\<close> on optional texts: an empty text counts as absent.\<close>

definition or_else :: "string option \<Rightarrow> string option \<Rightarrow> string option" where
  "or_else a b = (case a of Some x \<Rightarrow> if x = [] then b else a | None \<Rightarrow> b)"

definition reclaim_one ::
    "string set \<Rightarrow> attempt_record \<Rightarrow> attempt_record \<times> recovery_decision list" where
  "reclaim_one safe a =
     (if rc_status a \<in> set WORKER_ATTEMPT_TERMINAL \<or> rc_claim a = None then (a, [])
      else let cp = or_else (rc_recovery_checkpoint_id a) (rc_checkpoint_id a) in
        if (case cp of None \<Rightarrow> False | Some i \<Rightarrow> i \<in> safe \<or> rc_checkpoint_safe_to_resume a)
        then (a\<lparr>rc_status := WS_queued, rc_claim := None\<rparr>, [Requeue (rc_id' a) cp])
        else (a\<lparr>rc_status := WS_blocked, rc_claim := None\<rparr>, [Block (rc_id' a)]))"

definition reclaim_on_startup ::
    "attempt_record list \<Rightarrow> checkpoint list \<Rightarrow> attempt_record list \<times> recovery_decision list" where
  "reclaim_on_startup attempts checkpoints =
     (let safe = ck_id ` set (filter ck_safe_to_resume checkpoints);
          rs = map (reclaim_one safe) attempts
      in (map fst rs, concat (map snd rs)))"

section \<open>The durable queue: execution/queue.py\<close>

definition session_of :: "string \<Rightarrow> 'r view_scheme \<Rightarrow> string option" where
  "session_of i s = dget (st_attempt_session s) i"

text \<open>
  Commit a worker event carrying the attempt and the session it belongs to, then update the
  index: the order of every operation of the queue.
\<close>

definition commit_attempt ::
    "event hashing \<Rightarrow> worker_event_kind \<Rightarrow> worker_attempt \<Rightarrow> ('r store_scheme, unit) prog" where
  "commit_attempt H k a =
     bind (get (session_of (wa_id a))) (\<lambda>session.
     andthen (commit H (WorkerEvent k a session) None) (modify (put_attempt a)))"

definition enqueue_attempt ::
    "event hashing \<Rightarrow> worker_attempt \<Rightarrow> string option \<Rightarrow> ('r store_scheme, worker_attempt) prog" where
  "enqueue_attempt H a session_id =
     bind (get (\<lambda>s. dget (st_attempts s) (wa_id a))) (\<lambda>existing.
     case existing of
       Some old \<Rightarrow> if old \<noteq> a then raise_exn (DomainError ''already_exists'' 409) else ret old
     | None \<Rightarrow>
       andthen (raise_when (wa_status a \<noteq> WS_queued) (DomainError ''invalid_transition'' 409))
      (bind (get (\<lambda>s. or_else session_id (session_of (wa_id a) s))) (\<lambda>session.
       andthen (commit H (WorkerEvent WE_queued a session) None)
      (andthen (modify (put_attempt a))
      (andthen (modify (put_attempt_session (wa_id a) session)) (ret a))))))"

definition queued_attempts :: "'r view_scheme \<Rightarrow> worker_attempt list" where
  "queued_attempts s = filter (\<lambda>a. wa_status a = WS_queued) (dvalues (st_attempts s))"

definition record_of :: "worker_attempt \<Rightarrow> attempt_record" where
  "record_of a =
     \<lparr>rc_id' = wa_id a, rc_worker_session_id = wa_worker_session_id a, rc_status = wa_status a,
      rc_claim = None, rc_checkpoint_id = wa_checkpoint_id a,
      rc_checkpoint_safe_to_resume = wa_checkpoint_safe_to_resume a,
      rc_resumed_from_attempt_id = None, rc_recovery_checkpoint_id = None\<rparr>"

definition claim_attempt ::
    "event hashing \<Rightarrow> string \<Rightarrow> string \<Rightarrow> datetime \<Rightarrow> time \<Rightarrow> ('r store_scheme, worker_attempt) prog"
  where
  "claim_attempt H attempt_id token now ttl =
     bind (get (\<lambda>s. dget (st_attempts s) attempt_id)) (\<lambda>found.
     case found of
       None \<Rightarrow> raise_exn (DomainError ''not_found'' 404)
     | Some a \<Rightarrow>
       andthen (lift (claim_service ttl))
      (bind (rewrap is_value_error (DomainError ''invalid_claim'' 409)
               (lift (claim_record ttl (record_of a) token now))) (\<lambda>claimed.
        let a' = a\<lparr>wa_status := WS_claimed,
                   wa_claim_token := map_option wc_token (rc_claim claimed),
                   wa_claim_expires_at := map_option wc_expires_at (rc_claim claimed),
                   wa_version := wa_version a + 1\<rparr>
        in andthen (commit_attempt H WE_claimed a') (ret a'))))"

definition claim_next ::
    "event hashing \<Rightarrow> string \<Rightarrow> datetime \<Rightarrow> time \<Rightarrow> ('r store_scheme, worker_attempt option) prog" where
  "claim_next H token now ttl =
     bind (get queued_attempts) (\<lambda>q.
     case q of
       [] \<Rightarrow> ret None
     | a # _ \<Rightarrow> bind (claim_attempt H (wa_id a) token now ttl) (\<lambda>c. ret (Some c)))"

text \<open>The checkpoint store is optional; with one, the attempt's own flag is not used.\<close>

definition requeue_safe ::
    "checkpoint_codec \<Rightarrow> checkpoint_store option \<Rightarrow> worker_attempt \<Rightarrow> bool" where
  "requeue_safe C cps a =
     (case cps of
        None \<Rightarrow> wa_checkpoint_safe_to_resume a
      | Some cp \<Rightarrow>
     (case or_else (wa_recovery_checkpoint_id a) (wa_checkpoint_id a) of
        None \<Rightarrow> False
      | Some i \<Rightarrow>
          i \<noteq> [] \<and>
          (case load_checkpoint C i cp of Inl _ \<Rightarrow> False | Inr c \<Rightarrow> ck_safe_to_resume c)))"

definition requeue_attempt ::
    "event hashing \<Rightarrow> checkpoint_codec \<Rightarrow> string \<Rightarrow> checkpoint_store option \<Rightarrow>
     ('r store_scheme, worker_attempt) prog" where
  "requeue_attempt H C attempt_id cps =
     bind (get (\<lambda>s. dget (st_attempts s) attempt_id)) (\<lambda>found.
     case found of
       None \<Rightarrow> raise_exn (DomainError ''not_found'' 404)
     | Some a \<Rightarrow>
       if wa_status a = WS_queued then ret a
       else
         andthen (raise_when (wa_status a \<in> set WORKER_ATTEMPT_TERMINAL)
                    (DomainError ''invalid_transition'' 409))
        (andthen (raise_when (wa_status a \<notin> {WS_claimed, WS_running, WS_paused})
                    (DomainError ''invalid_transition'' 409))
        (andthen (raise_when (\<not> requeue_safe C cps a) (DomainError ''not_resumable'' 409))
          (let a' = a\<lparr>wa_status := WS_queued, wa_claim_token := None,
                      wa_claim_expires_at := None, wa_version := wa_version a + 1\<rparr>
           in andthen (commit_attempt H WE_requeued a') (ret a')))))"

definition recover_attempt ::
    "event hashing \<Rightarrow> checkpoint_codec \<Rightarrow> string \<Rightarrow> checkpoint_store \<Rightarrow> string \<Rightarrow> time \<Rightarrow>
     ('r store_scheme, worker_attempt) prog" where
  "recover_attempt H C attempt_id cp new_id now =
     bind (get (\<lambda>s. dget (st_attempts s) attempt_id)) (\<lambda>found.
     case found of
       None \<Rightarrow> raise_exn (DomainError ''not_found'' 404)
     | Some p \<Rightarrow>
     (case or_else (wa_recovery_checkpoint_id p) (wa_checkpoint_id p) of
        None \<Rightarrow> raise_exn (DomainError ''not_resumable'' 409)
      | Some i \<Rightarrow>
       andthen (raise_when (i = []) (DomainError ''not_resumable'' 409))
      (case load_checkpoint C i cp of
         Inl _ \<Rightarrow> raise_exn (DomainError ''not_resumable'' 409)
       | Inr c \<Rightarrow>
         andthen (raise_when (\<not> ck_safe_to_resume c \<or> \<not> wa_checkpoint_safe_to_resume p)
                    (DomainError ''not_resumable'' 409))
           (let r = (new_worker_attempt new_id (wa_worker_session_id p) (wa_child_task_id p)
                       (wa_workspace p) now)
                    \<lparr>wa_resumed_from_attempt_id := Some (wa_id p),
                     wa_checkpoint_id := Some (ck_id c),
                     wa_recovery_checkpoint_id := Some (ck_id c),
                     wa_checkpoint_safe_to_resume := True\<rparr>
            in bind (get (session_of (wa_id p))) (\<lambda>session. enqueue_attempt H r session)))))"

definition ack_terminal ::
    "event hashing \<Rightarrow> string \<Rightarrow> worker_attempt_status option \<Rightarrow> ('r store_scheme, worker_attempt) prog"
  where
  "ack_terminal H attempt_id status =
     bind (get (\<lambda>s. (dget (st_attempts s) attempt_id, attempt_id \<in> set (st_terminal_acks s))))
       (\<lambda>(found, acked).
     case found of
       None \<Rightarrow> raise_exn (DomainError ''not_found'' 404)
     | Some a \<Rightarrow>
       andthen (raise_when (wa_status a \<notin> set WORKER_ATTEMPT_TERMINAL)
                  (DomainError ''invalid_transition'' 409))
      (andthen (raise_when (status \<noteq> None \<and> status \<noteq> Some (wa_status a))
                  (DomainError ''invalid_transition'' 409))
        (if acked then ret a
         else bind (get (session_of (wa_id a))) (\<lambda>session.
              andthen (commit H (WorkerEvent WE_terminal_ack a session) None)
             (andthen (modify (add_ack attempt_id)) (ret a))))))"

section \<open>Startup recovery: Store.reclaim_attempts\<close>

definition reclaimed_copy :: "string set \<Rightarrow> worker_attempt \<Rightarrow> worker_attempt" where
  "reclaimed_copy safe a =
     (let cp = or_else (wa_recovery_checkpoint_id a) (wa_checkpoint_id a);
          target = (if \<exists>i \<in> safe. cp = Some i then WS_queued else WS_blocked)
      in a\<lparr>wa_status := target, wa_claim_token := None, wa_claim_expires_at := None\<rparr>)"

text \<open>The projection changes before the commit here.\<close>

fun reclaim_each ::
    "event hashing \<Rightarrow> string set \<Rightarrow> worker_attempt list \<Rightarrow> ('r store_scheme, unit) prog" where
  "reclaim_each H safe [] = ret ()"
| "reclaim_each H safe (a # as) =
     (if wa_status a \<notin> {WS_claimed, WS_running} then reclaim_each H safe as
      else let a' = reclaimed_copy safe a;
               kind = (if wa_status a' = WS_queued then WE_recovered else WE_blocked)
           in andthen (modify (put_attempt a'))
             (bind (get (session_of (wa_id a))) (\<lambda>session.
              andthen (commit H (WorkerEvent kind a' session) None) (reclaim_each H safe as))))"

definition safe_ids :: "checkpoint list \<Rightarrow> string set" where
  "safe_ids cs = ck_id ` set (filter ck_safe_to_resume cs)"

definition reclaim_attempts ::
    "event hashing \<Rightarrow> checkpoint_codec \<Rightarrow> checkpoint_store \<Rightarrow> ('r store_scheme, unit) prog" where
  "reclaim_attempts H C cp =
     bind (lift (list_valid C cp)) (\<lambda>cs.
     bind (get (\<lambda>s. dvalues (st_attempts s))) (reclaim_each H (safe_ids cs)))"

text \<open>\<^verbatim>\<open>Store(journal, checkpoint_store)\<close>: replay, then reclaim.\<close>

definition start_store ::
    "event hashing \<Rightarrow> checkpoint_codec \<Rightarrow> checkpoint_store \<Rightarrow> event journal \<Rightarrow> store res" where
  "start_store H C cp j =
     (case open_store j of
        Inl e \<Rightarrow> Inl e
      | Inr s \<Rightarrow> (case reclaim_attempts H C cp s of (Inl e, _) \<Rightarrow> Inl e | (Inr _, t) \<Rightarrow> Inr t))"

section \<open>Lemmas on the queue\<close>

definition attempts_ok :: "'r view_scheme \<Rightarrow> bool" where
  "attempts_ok s \<longleftrightarrow> dwf (st_attempts s) \<and> keyed wa_id (st_attempts s)"

lemma put_attempt_attempts [simp]: "st_attempts (put_attempt a s) = dput (wa_id a) a (st_attempts s)"
  by (simp add: put_attempt_def)

lemma put_attempt_session_attempts [simp]:
  "st_attempts (put_attempt_session i w s) = st_attempts s"
  by (simp add: put_attempt_session_def split: option.split)

lemma add_ack_attempts [simp]: "st_attempts (add_ack i s) = st_attempts s"
  by (simp add: add_ack_def)

lemma attempts_ok_put [simp]: "attempts_ok s \<Longrightarrow> attempts_ok (put_attempt a s)"
  by (simp add: attempts_ok_def)

lemma attempts_ok_same: "attempts_ok s \<Longrightarrow> st_attempts t = st_attempts s \<Longrightarrow> attempts_ok t"
  by (simp add: attempts_ok_def)

lemma commit_attempts: "commit H e k s = (r, t) \<Longrightarrow> st_attempts t = st_attempts s"
  by (drule commit_view) auto

lemma put_session_again: "put_attempt_session i (session_of i s) s = s"
proof -
  have "s\<lparr>st_attempt_session := st_attempt_session s\<rparr> = s" by simp
  then show ?thesis
    by (cases "dget (st_attempt_session s) i") (auto simp: put_attempt_session_def session_of_def)
qed

lemma session_of_put [simp]: "session_of i (put_attempt a s) = session_of i s"
  by (simp add: session_of_def put_attempt_def)

lemma put_attempt_again: "dget (st_attempts s) (wa_id a) = Some a \<Longrightarrow> put_attempt a s = s"
  by (simp add: put_attempt_def)

lemma worker_event_effect:
  "k \<in> set replayed_worker_events \<Longrightarrow>
     apply_event (WorkerEvent k a (session_of (wa_id a) s)) s = Inr (put_attempt a s)"
  using put_session_again [of "wa_id a" "put_attempt a s"] by simp

lemma commit_attempt_Inr:
  "commit_attempt H k a s = (Inr (), t) \<longleftrightarrow>
     (\<exists>u. commit H (WorkerEvent k a (session_of (wa_id a) s)) None s = (Inr (), u) \<and>
          t = put_attempt a u)"
  by (auto simp: commit_attempt_def prog_simps)

lemma commit_attempt_Inl:
  assumes "commit_attempt H k a s = (Inl e, t)"
  shows "\<exists>j. t = s\<lparr>st_journal := j\<rparr>"
proof -
  obtain r u where c: "commit H (WorkerEvent k a (session_of (wa_id a) s)) None s = (r, u)" by fastforce
  with assms have "t = u" by (auto simp: commit_attempt_def andthen_def bind_def split: sum.splits)
  with commit_view [OF c] show ?thesis by simp
qed

lemma commit_attempt_consistent:
  assumes "consistent H s" and "commit_attempt H k a s = (Inr (), t)"
    and k: "k \<in> set replayed_worker_events"
  shows "consistent H t"
proof -
  from assms(2) obtain u where u: "commit H (WorkerEvent k a (session_of (wa_id a) s)) None s = (Inr (), u)"
    and t: "t = put_attempt a u" by (auto simp: commit_attempt_Inr)
  obtain j where "u = s\<lparr>st_journal := j\<rparr>" using commit_view [OF u] by blast
  then have "session_of (wa_id a) u = session_of (wa_id a) s" by (simp add: session_of_def)
  then have "apply_event (WorkerEvent k a (session_of (wa_id a) s)) u = Inr t"
    using worker_event_effect [OF k, of a u] by (simp add: t)
  from consistent_commit_update [OF assms(1) u this] show ?thesis .
qed

lemma claim_attempt_Inr:
  assumes "claim_attempt H i token now ttl s = (Inr b, t)"
  obtains a where "dget (st_attempts s) i = Some a" and "wa_status a = WS_queued" and "0 < ttl"
    and "b = a\<lparr>wa_status := WS_claimed, wa_claim_token := Some token,
              wa_claim_expires_at := Some (utc now + ttl), wa_version := wa_version a + 1\<rparr>"
    and "commit_attempt H WE_claimed b s = (Inr (), t)"
  using assms
  by (auto simp: claim_attempt_def claim_service_def claim_record_def record_of_def prog_simps
      Let_def split: option.splits if_splits)

lemma requeue_attempt_Inr:
  assumes "requeue_attempt H C i cps s = (Inr b, t)"
  obtains (already) "dget (st_attempts s) i = Some b" and "wa_status b = WS_queued" and "t = s"
    | (moved) a where "dget (st_attempts s) i = Some a"
      and "wa_status a \<in> {WS_claimed, WS_running, WS_paused}" and "requeue_safe C cps a"
      and "b = a\<lparr>wa_status := WS_queued, wa_claim_token := None, wa_claim_expires_at := None,
                wa_version := wa_version a + 1\<rparr>"
      and "commit_attempt H WE_requeued b s = (Inr (), t)"
  using assms
  by (auto simp: requeue_attempt_def prog_simps Let_def WORKER_ATTEMPT_TERMINAL_def
      split: option.splits if_splits)

lemma enqueue_attempt_Inr:
  assumes "enqueue_attempt H a w s = (Inr b, t)"
  obtains (already) "dget (st_attempts s) (wa_id a) = Some a" and "b = a" and "t = s"
    | (fresh) u where "dget (st_attempts s) (wa_id a) = None" and "wa_status a = WS_queued" and "b = a"
      and "commit H (WorkerEvent WE_queued a (or_else w (session_of (wa_id a) s))) None s = (Inr (), u)"
      and "t = put_attempt_session (wa_id a) (or_else w (session_of (wa_id a) s)) (put_attempt a u)"
  using assms
  by (auto simp: enqueue_attempt_def prog_simps split: option.splits if_splits)

lemma ack_terminal_Inr:
  assumes "ack_terminal H i status s = (Inr b, t)"
  obtains (already) "dget (st_attempts s) i = Some b" and "wa_status b \<in> set WORKER_ATTEMPT_TERMINAL"
      and "i \<in> set (st_terminal_acks s)" and "t = s"
    | (new) u where "dget (st_attempts s) i = Some b" and "wa_status b \<in> set WORKER_ATTEMPT_TERMINAL"
      and "commit H (WorkerEvent WE_terminal_ack b (session_of (wa_id b) s)) None s = (Inr (), u)"
      and "t = add_ack i u"
  using assms
  by (auto simp: ack_terminal_def prog_simps split: option.splits if_splits)

section \<open>Consistency of the queue operations\<close>

lemma claim_attempt_consistent:
  "consistent H s \<Longrightarrow> claim_attempt H i token now ttl s = (Inr b, t) \<Longrightarrow> consistent H t"
  by (erule claim_attempt_Inr)
    (erule commit_attempt_consistent, assumption, simp add: replayed_worker_events_def)

lemma requeue_attempt_consistent:
  assumes "consistent H s" and "requeue_attempt H C i cps s = (Inr b, t)"
  shows "consistent H t"
  using assms(2)
proof (cases rule: requeue_attempt_Inr)
  case already
  with assms(1) show ?thesis by simp
next
  case (moved a)
  show ?thesis
    by (rule commit_attempt_consistent [OF assms(1) moved(5)]) (simp add: replayed_worker_events_def)
qed

lemma enqueue_attempt_consistent:
  assumes "consistent H s" and "enqueue_attempt H a w s = (Inr b, t)"
  shows "consistent H t"
  using assms(2)
proof (cases rule: enqueue_attempt_Inr)
  case already
  with assms(1) show ?thesis by simp
next
  case (fresh u)
  show ?thesis
    by (rule consistent_commit_update [OF assms(1) fresh(4)])
      (simp add: fresh(5) replayed_worker_events_def)
qed

lemma ack_terminal_consistent:
  assumes "consistent H s" and "attempts_ok s" and "ack_terminal H i status s = (Inr b, t)"
  shows "consistent H t"
  using assms(3)
proof (cases rule: ack_terminal_Inr)
  case already
  with assms(1) show ?thesis by simp
next
  case (new u)
  have i: "wa_id b = i" using assms(2) new(1) by (auto simp: attempts_ok_def dest: keyedD)
  obtain j where u: "u = s\<lparr>st_journal := j\<rparr>" using commit_view [OF new(3)] by blast
  have "put_attempt b u = u" using new(1) i by (simp add: put_attempt_again u)
  moreover have "session_of (wa_id b) u = session_of (wa_id b) s" by (simp add: u session_of_def)
  ultimately have "apply_event (WorkerEvent WE_terminal_ack b (session_of (wa_id b) s)) u = Inr t"
    using put_session_again [of "wa_id b" u] by (simp add: new(4) i replayed_worker_events_def)
  from consistent_commit_update [OF assms(1) new(3) this] show ?thesis .
qed

lemma recover_attempt_Inr:
  assumes "recover_attempt H C i cp n now s = (Inr b, t)"
  obtains p c where "dget (st_attempts s) i = Some p" and "wa_checkpoint_safe_to_resume p"
    and "or_else (wa_recovery_checkpoint_id p) (wa_checkpoint_id p) = Some (ck_id c)"
    and "load_checkpoint C (ck_id c) cp = Inr c" and "ck_safe_to_resume c"
    and "enqueue_attempt H
      ((new_worker_attempt n (wa_worker_session_id p) (wa_child_task_id p) (wa_workspace p) now)
         \<lparr>wa_resumed_from_attempt_id := Some (wa_id p), wa_checkpoint_id := Some (ck_id c),
          wa_recovery_checkpoint_id := Some (ck_id c), wa_checkpoint_safe_to_resume := True\<rparr>)
      (session_of (wa_id p) s) s = (Inr b, t)"
  using assms load_checkpoint_Inr
  by (auto simp: recover_attempt_def prog_simps Let_def split: option.splits if_splits sum.splits)
    (metis load_checkpoint_Inr)

lemma recover_attempt_consistent:
  "consistent H s \<Longrightarrow> recover_attempt H C i cp n now s = (Inr b, t) \<Longrightarrow> consistent H t"
  by (erule recover_attempt_Inr) (erule enqueue_attempt_consistent)

lemma reclaim_each_consistent:
  "consistent H s \<Longrightarrow> reclaim_each H safe as s = (Inr (), t) \<Longrightarrow> consistent H t"
proof (induction "as" arbitrary: s)
  case (Cons a as)
  show ?case
  proof (cases "wa_status a \<in> {WS_claimed, WS_running}")
    case False
    with Cons show ?thesis by simp
  next
    case True
    let ?a = "reclaimed_copy safe a"
    let ?k = "if wa_status ?a = WS_queued then WE_recovered else WE_blocked"
    have i: "wa_id ?a = wa_id a" by (simp add: reclaimed_copy_def Let_def)
    from True Cons.prems(2) obtain u
      where u: "commit H (WorkerEvent ?k ?a (session_of (wa_id a) s)) None (put_attempt ?a s) = (Inr (), u)"
        and rest: "reclaim_each H safe as u = (Inr (), t)"
      by (auto simp: prog_simps Let_def)
    have "apply_event (WorkerEvent ?k ?a (session_of (wa_id ?a) s)) s = Inr (put_attempt ?a s)"
      by (rule worker_event_effect) (simp add: replayed_worker_events_def)
    from consistent_update_commit [OF Cons.prems(1) this] u i have "consistent H u" by simp
    from Cons.IH [OF this rest] show ?thesis .
  qed
qed simp

section \<open>Failed operations\<close>

text \<open>An operation of the queue commits before it changes the projection.\<close>

definition same_view :: "'r store_scheme \<Rightarrow> 'r store_scheme \<Rightarrow> bool" where
  "same_view s t \<longleftrightarrow> (\<exists>j. t = s\<lparr>st_journal := j\<rparr>)"

lemma same_view_refl [simp]: "same_view s s"
  by (auto simp: same_view_def intro: exI [of _ "st_journal s"])

lemma same_view_commit: "commit H e k s = (r, t) \<Longrightarrow> same_view s t"
  by (drule commit_view) (simp add: same_view_def)

lemma same_view_attempts: "same_view s t \<Longrightarrow> st_attempts t = st_attempts s"
  by (auto simp: same_view_def)

lemma commit_then_fail:
  assumes "andthen (commit H e k) m s = (Inl x, t)" and "\<And>u. \<exists>y w. m u = (Inr y, w)"
  shows "same_view s t"
proof -
  obtain r u where c: "commit H e k s = (r, u)" by fastforce
  obtain y w where m: "m u = (Inr y, w)" using assms(2) by blast
  from assms(1) c m have "t = u" by (cases r) (auto simp: andthen_def bind_def)
  with same_view_commit [OF c] show ?thesis by simp
qed

lemma enqueue_attempt_Inl: "enqueue_attempt H a w s = (Inl e, t) \<Longrightarrow> same_view s t"
  by (auto simp: enqueue_attempt_def split: option.splits if_splits elim!: commit_then_fail)

lemma commit_attempt_fails:
  assumes "andthen (commit_attempt H k a) (ret b) s = (Inl e, t)"
  shows "same_view s t"
proof -
  obtain r u where c: "commit_attempt H k a s = (r, u)" by fastforce
  with assms have "r = Inl e" "u = t" by (auto simp: andthen_def bind_def split: sum.splits)
  with commit_attempt_Inl c show ?thesis by (fastforce simp: same_view_def)
qed

lemma claim_attempt_Inl: "claim_attempt H i token now ttl s = (Inl e, t) \<Longrightarrow> same_view s t"
  by (auto simp: claim_attempt_def claim_service_def claim_record_def Let_def
      split: option.splits if_splits intro: commit_attempt_fails)

lemma requeue_attempt_Inl: "requeue_attempt H C i cps s = (Inl e, t) \<Longrightarrow> same_view s t"
  by (auto simp: requeue_attempt_def Let_def split: option.splits if_splits
      intro: commit_attempt_fails)

lemma recover_attempt_Inl: "recover_attempt H C i cp n now s = (Inl e, t) \<Longrightarrow> same_view s t"
  by (auto simp: recover_attempt_def Let_def split: option.splits if_splits sum.splits
      dest: enqueue_attempt_Inl)

lemma ack_terminal_Inl: "ack_terminal H i status s = (Inl e, t) \<Longrightarrow> same_view s t"
  by (auto simp: ack_terminal_def split: option.splits if_splits elim!: commit_then_fail)

lemma claim_next_Inl: "claim_next H token now ttl s = (Inl e, t) \<Longrightarrow> same_view s t"
  by (auto simp: claim_next_def bind_def [of "claim_attempt H i k n l" for i k n l]
      split: list.splits prod.splits sum.splits dest: claim_attempt_Inl)

section \<open>The queue is first in, first out\<close>

definition waiting :: "'r view_scheme \<Rightarrow> string list" where
  "waiting s = map wa_id (queued_attempts s)"

definition queue_adds :: "event hashing \<Rightarrow> string \<Rightarrow> 'r store_scheme \<Rightarrow> 'r store_scheme \<Rightarrow> bool" where
  "queue_adds H i s t \<longleftrightarrow>
     (\<exists>a w. wa_id a = i \<and> dget (st_attempts s) i = None \<and> enqueue_attempt H a w s = (Inr a, t))"

definition queue_takes :: "event hashing \<Rightarrow> string \<Rightarrow> 'r store_scheme \<Rightarrow> 'r store_scheme \<Rightarrow> bool" where
  "queue_takes H i s t \<longleftrightarrow>
     (\<exists>token now ttl b. claim_next H token now ttl s = (Inr (Some b), t) \<and> wa_id b = i)"

text \<open>
  What leaves the line alone: an operation that raises, a claim that finds nothing, an
  acknowledgement, and a step of a runner on an attempt that is no longer queued.
\<close>

inductive queue_keeps :: "event hashing \<Rightarrow> 'r store_scheme \<Rightarrow> 'r store_scheme \<Rightarrow> bool" for H where
  "enqueue_attempt H a w s = (Inl e, t) \<Longrightarrow> queue_keeps H s t"
| "claim_next H token now ttl s = (Inl e, t) \<Longrightarrow> queue_keeps H s t"
| "claim_next H token now ttl s = (Inr None, t) \<Longrightarrow> queue_keeps H s t"
| "ack_terminal H i status s = (r, t) \<Longrightarrow> queue_keeps H s t"
| "dget (st_attempts s) (wa_id b) = Some a \<Longrightarrow> wa_status a \<noteq> WS_queued \<Longrightarrow> wa_status b \<noteq> WS_queued \<Longrightarrow>
    commit_attempt H k b s = (x, t) \<Longrightarrow> queue_keeps H s t"

lemma waiting_same: "st_attempts t = st_attempts s \<Longrightarrow> waiting t = waiting s"
  by (simp add: waiting_def queued_attempts_def)

lemma filter_dput_out:
  "dwf d \<Longrightarrow> dget d k = Some w \<Longrightarrow> \<not> p w \<Longrightarrow> \<not> p v \<Longrightarrow>
     filter p (dvalues (dput k v d)) = filter p (dvalues d)"
  by (induction d) (auto split: if_splits)

lemma filter_dput_first:
  "filter p (dvalues d) = w # rest \<Longrightarrow> dget d k = Some w \<Longrightarrow>
     (\<And>i. (i, w) \<in> set d \<Longrightarrow> i = k) \<Longrightarrow> p w \<Longrightarrow> \<not> p v \<Longrightarrow>
     filter p (dvalues (dput k v d)) = rest"
proof (induction d)
  case (Cons e d)
  obtain k' v' where e: "e = (k', v')" by fastforce
  show ?case
  proof (cases "k' = k")
    case True
    with Cons.prems(1,2,4,5) show ?thesis by (simp add: e)
  next
    case False
    have v': "\<not> p v'"
    proof
      assume "p v'"
      with Cons.prems(1) have "v' = w" by (simp add: e)
      then have "(k', w) \<in> set (e # d)" by (simp add: e)
      with False Cons.prems(3) show False by blast
    qed
    have only: "i = k" if "(i, w) \<in> set d" for i using that Cons.prems(3) [of i] by simp
    have "filter p (dvalues (dput k v d)) = rest"
      by (rule Cons.IH [OF _ _ only Cons.prems(4,5)])
        (use Cons.prems(1,2) False v' in \<open>simp_all add: e\<close>)
    with v' show ?thesis using False by (simp add: e)
  qed
qed simp

lemma queue_adds_last:
  assumes "attempts_ok s" and "queue_adds H i s t"
  shows "attempts_ok t \<and> waiting t = waiting s @ [i]"
proof -
  from assms(2) obtain a w where a: "wa_id a = i" "dget (st_attempts s) i = None"
    and run: "enqueue_attempt H a w s = (Inr a, t)" by (auto simp: queue_adds_def)
  from run show ?thesis
  proof (cases rule: enqueue_attempt_Inr)
    case already
    with a show ?thesis by simp
  next
    case (fresh u)
    have u: "st_attempts u = st_attempts s" using commit_attempts [OF fresh(4)] .
    then have t: "st_attempts t = st_attempts s @ [(i, a)]"
      using a by (simp add: fresh(5) dput_fresh)
    have "attempts_ok t"
      using assms(1) a u by (simp add: attempts_ok_def fresh(5))
    with t fresh(2) a show ?thesis by (simp add: waiting_def queued_attempts_def)
  qed
qed

lemma claim_next_Some:
  assumes "claim_next H token now ttl s = (Inr (Some b), t)"
  obtains a rest where "queued_attempts s = a # rest"
    and "claim_attempt H (wa_id a) token now ttl s = (Inr b, t)"
  using assms by (auto simp: claim_next_def prog_simps split: list.splits)

lemma queue_takes_first:
  assumes "attempts_ok s" and "queue_takes H i s t"
  shows "attempts_ok t \<and> waiting s = i # waiting t"
proof -
  from assms(2) obtain token now ttl b where run: "claim_next H token now ttl s = (Inr (Some b), t)"
    and b: "wa_id b = i" by (auto simp: queue_takes_def)
  from run obtain a rest where q: "queued_attempts s = a # rest"
    and claim: "claim_attempt H (wa_id a) token now ttl s = (Inr b, t)" by (rule claim_next_Some)
  from claim obtain a' where a': "dget (st_attempts s) (wa_id a) = Some a'"
    and st: "wa_status b = WS_claimed" and same: "wa_id b = wa_id a'"
    and c: "commit_attempt H WE_claimed b s = (Inr (), t)"
    by (rule claim_attempt_Inr) auto
  have key: "wa_id a' = wa_id a" using assms(1) a' by (auto simp: attempts_ok_def dest: keyedD)
  have "a \<in> set (dvalues (st_attempts s))" and aq: "wa_status a = WS_queued"
    using arg_cong [OF q, of set] by (auto simp: queued_attempts_def)
  then have get: "dget (st_attempts s) (wa_id a) = Some a"
    using assms(1) by (intro keyed_values) (auto simp: attempts_ok_def)
  from c obtain u where u: "commit H (WorkerEvent WE_claimed b (session_of (wa_id b) s)) None s = (Inr (), u)"
    and t: "t = put_attempt b u" by (auto simp: commit_attempt_Inr)
  have at: "st_attempts t = dput (wa_id a) b (st_attempts s)"
    using commit_attempts [OF u] same key by (simp add: t)
  have only: "i = wa_id a" if "(i, a) \<in> set (st_attempts s)" for i
    using that assms(1) keyedD [of wa_id "st_attempts s" i a] by (simp add: attempts_ok_def)
  have "queued_attempts t = rest"
    unfolding queued_attempts_def at
    by (rule filter_dput_first [OF q [unfolded queued_attempts_def] get only aq]) (simp_all add: st)
  moreover have "attempts_ok t"
    using assms(1) at same key by (simp add: attempts_ok_def)
  ultimately show ?thesis using q b same key by (simp add: waiting_def)
qed

lemma queue_keeps_line:
  assumes "attempts_ok s" and "queue_keeps H s t"
  shows "attempts_ok t \<and> waiting t = waiting s"
proof -
  have same: ?thesis if "st_attempts t = st_attempts s"
    using that assms(1) waiting_same attempts_ok_same by metis
  from assms(2) show ?thesis
  proof cases
    case (1 a w e)
    show ?thesis by (intro same same_view_attempts enqueue_attempt_Inl [OF 1])
  next
    case (2 token now ttl e)
    show ?thesis by (intro same same_view_attempts claim_next_Inl [OF 2])
  next
    case (3 token now ttl)
    then have "t = s" by (auto simp: claim_next_def prog_simps split: list.splits)
    then show ?thesis by (intro same) simp
  next
    case (4 i status r)
    show ?thesis
    proof (cases r)
      case (Inl e)
      show ?thesis using 4 by (intro same same_view_attempts ack_terminal_Inl [of H i status s e]) (simp add: Inl)
    next
      case (Inr b)
      with 4 have "ack_terminal H i status s = (Inr b, t)" by simp
      then have "st_attempts t = st_attempts s"
        by (cases rule: ack_terminal_Inr) (auto dest: commit_attempts)
      then show ?thesis by (rule same)
    qed
  next
    case (5 b a k x)
    show ?thesis
    proof (cases x)
      case (Inl e)
      with 5(4) show ?thesis by (intro same) (auto dest: commit_attempt_Inl)
    next
      case (Inr y)
      with 5(4) obtain u where
        u: "commit H (WorkerEvent k b (session_of (wa_id b) s)) None s = (Inr (), u)"
        and t: "t = put_attempt b u" by (auto simp: commit_attempt_Inr)
      have at: "st_attempts t = dput (wa_id b) b (st_attempts s)"
        using commit_attempts [OF u] by (simp add: t)
      then show ?thesis
        using assms(1) 5 by (simp add: attempts_ok_def waiting_def queued_attempts_def filter_dput_out)
    qed
  qed
qed

interpretation worker_queue: fifo_queue attempts_ok waiting "queue_adds H" "queue_takes H" "queue_keeps H"
  for H :: "event hashing"
  by unfold_locales (blast dest: queue_adds_last queue_takes_first queue_keeps_line)+

section \<open>Startup recovery\<close>

abbreviation in_flight :: "worker_attempt \<Rightarrow> bool" where
  "in_flight a \<equiv> wa_status a = WS_claimed \<or> wa_status a = WS_running"

lemma reclaimed_copy_select [simp]:
  "wa_id (reclaimed_copy safe a) = wa_id a" "wa_claim_token (reclaimed_copy safe a) = None"
  "wa_version (reclaimed_copy safe a) = wa_version a"
  "wa_status (reclaimed_copy safe a) \<noteq> WS_claimed" "wa_status (reclaimed_copy safe a) \<noteq> WS_running"
  by (simp_all add: reclaimed_copy_def Let_def)

lemma reclaim_each_attempts:
  assumes "reclaim_each H safe as s = (Inr (), t)" and "distinct (map wa_id as)"
    and "\<forall>a \<in> set as. dget (st_attempts s) (wa_id a) = Some a" and "keyed wa_id (st_attempts s)"
  shows "dget (st_attempts t) i =
    map_option (\<lambda>a. if a \<in> set as \<and> in_flight a then reclaimed_copy safe a else a)
      (dget (st_attempts s) i)"
  using assms
proof (induction "as" arbitrary: s)
  case (Cons a as)
  show ?case
  proof (cases "in_flight a")
    case False
    with Cons show ?thesis by (cases "dget (st_attempts s) i") auto
  next
    case True
    let ?a = "reclaimed_copy safe a"
    from True Cons.prems(1) obtain u e
      where u: "commit H e None (put_attempt ?a s) = (Inr (), u)"
        and rest: "reclaim_each H safe as u = (Inr (), t)"
      by (auto simp: prog_simps Let_def)
    have au: "st_attempts u = dput (wa_id a) ?a (st_attempts s)"
      using commit_attempts [OF u] by simp
    have fresh: "wa_id b \<noteq> wa_id a" if "b \<in> set as" for b
      using Cons.prems(2) imageI [OF that, of wa_id] by auto
    have get: "dget (st_attempts s) (wa_id a) = Some a" using Cons.prems(3) by simp
    have step: "dget (st_attempts t) i =
        map_option (\<lambda>a. if a \<in> set as \<and> in_flight a then reclaimed_copy safe a else a)
          (dget (st_attempts u) i)"
      by (rule Cons.IH [OF rest]) (use Cons.prems(2-4) fresh au in auto)
    show ?thesis
    proof (cases "i = wa_id a")
      case True
      have "?a \<notin> set as" using fresh [of ?a] by auto
      with step get True \<open>in_flight a\<close> show ?thesis by (simp add: au)
    next
      case False
      have "b \<noteq> a" if "dget (st_attempts s) i = Some b" for b
        using keyedD [OF Cons.prems(4) that] False by blast
      with step False show ?thesis by (cases "dget (st_attempts s) i") (simp_all add: au)
    qed
  qed
qed (simp add: option.map_ident)

lemma reclaim_attempts_Inr:
  assumes "reclaim_attempts H C cp s = (Inr (), t)" and "attempts_ok s"
  obtains cs where "list_valid C cp = Inr cs"
    and "\<And>i. dget (st_attempts t) i =
      map_option (\<lambda>a. if in_flight a then reclaimed_copy (safe_ids cs) a else a) (dget (st_attempts s) i)"
proof -
  from assms(1) obtain cs where cs: "list_valid C cp = Inr cs"
    and run: "reclaim_each H (safe_ids cs) (dvalues (st_attempts s)) s = (Inr (), t)"
    by (auto simp: reclaim_attempts_def prog_simps)
  have ok: "dwf (st_attempts s)" "keyed wa_id (st_attempts s)"
    using assms(2) by (simp_all add: attempts_ok_def)
  have dist: "distinct (map wa_id (dvalues (st_attempts s)))"
    unfolding keyed_ids [OF ok] by (rule ok(1))
  have mem: "\<forall>a \<in> set (dvalues (st_attempts s)). dget (st_attempts s) (wa_id a) = Some a"
    by (intro ballI keyed_values ok)
  have "dget (st_attempts t) i =
      map_option (\<lambda>a. if in_flight a then reclaimed_copy (safe_ids cs) a else a) (dget (st_attempts s) i)" for i
    using reclaim_each_attempts [OF run dist mem ok(2), of i] dget_value [of "st_attempts s" i]
    by (cases "dget (st_attempts s) i") auto
  with cs show ?thesis by (rule that)
qed

section \<open>What the queue guarantees\<close>

text \<open>
  The worker queue is first in, first out: over any sequence of admissions, claims of the
  next attempt, failed operations, acknowledgements and runner steps, the attempts that were
  waiting followed by those admitted are exactly those claimed followed by those still waiting,
  in this order; so with distinct identifiers none is claimed twice or lost.
\<close>

theorem queue_is_fifo:
  assumes "queue_run (queue_adds H) (queue_takes H) (queue_keeps H) s h t" and "attempts_ok s"
  shows "waiting s @ added_items h = taken_items h @ waiting t \<and>
    (distinct (waiting s @ added_items h) \<longrightarrow>
       distinct (taken_items h) \<and> set (taken_items h) \<inter> set (waiting t) = {})"
  using worker_queue.in_order [OF assms] worker_queue.served_once [OF assms] by blast

lemma attempts_ok_new_store [simp]: "attempts_ok (new_store io)"
  by (simp add: attempts_ok_def)

definition some_attempt :: "string \<Rightarrow> worker_attempt" where
  "some_attempt i = new_worker_attempt i ''ws'' ''ct'' None 0"

lemma some_attempt_simps [simp]:
  "wa_id (some_attempt i) = i" "wa_status (some_attempt i) = WS_queued" "wa_version (some_attempt i) = 1"
  "wa_checkpoint_id (some_attempt i) = None" "wa_recovery_checkpoint_id (some_attempt i) = None"
  by (simp_all add: some_attempt_def new_worker_attempt_def)

lemma healthy_put_attempt [simp]: "healthy H (put_attempt a s) = healthy H s"
  by (rule healthy_journal) simp

lemma enqueue_healthy:
  assumes "healthy H s" and "dget (st_attempts s) (wa_id a) = None" and "wa_status a = WS_queued"
  shows "\<exists>t. enqueue_attempt H a None s = (Inr a, t) \<and> healthy H t \<and>
    st_attempts t = st_attempts s @ [(wa_id a, a)] \<and> (\<exists>j. st_journal t = j)"
proof -
  let ?w = "or_else None (session_of (wa_id a) s)"
  obtain j where c: "commit H (WorkerEvent WE_queued a ?w) None s = (Inr (), s\<lparr>st_journal := j\<rparr>)"
    and h: "healthy H (s\<lparr>st_journal := j\<rparr>)" using healthy_commit [OF assms(1)] by blast
  let ?t = "put_attempt_session (wa_id a) ?w (put_attempt a (s\<lparr>st_journal := j\<rparr>))"
  have "enqueue_attempt H a None s = (Inr a, ?t)"
    using assms c by (simp add: enqueue_attempt_def andthen_def bind_def)
  moreover have "healthy H ?t" using h by (simp add: healthy_def)
  ultimately show ?thesis using assms(2) by (intro exI [of _ ?t]) (simp add: dput_fresh)
qed

lemma queue_is_fifo_witness:
  "\<exists>h t. queue_run (queue_adds unit_hashing) (queue_takes unit_hashing) (queue_keeps unit_hashing)
      (new_store []) h t \<and> added_items h = [''a''] \<and> [''a''] = taken_items h @ waiting t"
proof -
  obtain t where t: "enqueue_attempt unit_hashing (some_attempt ''a'') None (new_store []) =
      (Inr (some_attempt ''a''), t)"
    using enqueue_healthy [of unit_hashing "new_store []" "some_attempt ''a''"]
    by auto
  have "queue_adds unit_hashing ''a'' (new_store []) t"
    unfolding queue_adds_def
    by (intro exI [of _ "some_attempt ''a''"] exI [of _ None] conjI t)
      simp_all
  then have run: "queue_run (queue_adds unit_hashing) (queue_takes unit_hashing)
      (queue_keeps unit_hashing) (new_store []) [Added ''a''] t"
    by (rule queue_run.added) (rule queue_run.idle)
  have "waiting (new_store []) = []"
    by (simp add: waiting_def queued_attempts_def)
  with queue_is_fifo [OF run attempts_ok_new_store] run show ?thesis
    by (intro exI [of _ "[Added ''a'']"] exI [of _ t]) simp
qed

text \<open>
  A queue operation is all or nothing for the projection, and what it reports is on disk: an
  admission, claim, requeue, recovery or acknowledgement that raises leaves every dictionary as
  it was, and one that returns leaves a projection that the next process rebuilds from the
  journal.
\<close>

theorem queue_operations_durable:
  assumes "consistent H s" and "attempts_ok s"
    and "m = enqueue_attempt H a w \<or> m = claim_attempt H i token now ttl \<or>
      m = requeue_attempt H C i cps \<or> m = recover_attempt H C i cp n at_time \<or>
      m = ack_terminal H i status"
    and "m s = (r, t)"
  shows "(\<forall>e. r = Inl e \<longrightarrow> (\<exists>j. t = s\<lparr>st_journal := j\<rparr>)) \<and>
    (\<forall>b. r = Inr b \<longrightarrow>
       consistent H t \<and> (\<exists>u. restart H mb mf io t = Inr u \<and> recorded u = recorded t))"
proof (intro conjI allI impI)
  fix e assume "r = Inl e"
  with assms(3,4) have "same_view s t"
    using enqueue_attempt_Inl claim_attempt_Inl requeue_attempt_Inl recover_attempt_Inl ack_terminal_Inl
    by metis
  then show "\<exists>j. t = s\<lparr>st_journal := j\<rparr>" by (simp add: same_view_def)
next
  fix b assume "r = Inr b"
  with assms have ok: "consistent H t"
    using enqueue_attempt_consistent claim_attempt_consistent requeue_attempt_consistent
      recover_attempt_consistent ack_terminal_consistent by metis
  then show "consistent H t" .
  from ok show "\<exists>u. restart H mb mf io t = Inr u \<and> recorded u = recorded t"
    using restart_same by blast
qed

lemma queue_operations_durable_witness:
  "\<exists>t. enqueue_attempt unit_hashing (some_attempt ''a'') None (new_store []) =
      (Inr (some_attempt ''a''), t) \<and> consistent unit_hashing t"
proof -
  obtain t where t: "enqueue_attempt unit_hashing (some_attempt ''a'') None (new_store []) =
      (Inr (some_attempt ''a''), t)"
    using enqueue_healthy [of unit_hashing "new_store []" "some_attempt ''a''"] by auto
  show ?thesis
    using queue_operations_durable [where a = "some_attempt ''a''" and w = None and H = unit_hashing
      and m = "enqueue_attempt unit_hashing (some_attempt ''a'') None" and s = "new_store []" and t = t
      and r = "Inr (some_attempt ''a'')"] consistent_new_store t by auto
qed


text \<open>
  C13. A new process settles every attempt the old one left in flight: after the startup reclaim
  none is claimed or running, each that was is queued again when a valid checkpoint it names is
  safe and blocked otherwise, without a claim, and the other attempts are untouched; and the
  whole start fails when one checkpoint, of any task, names a damaged artifact.
\<close>

theorem reclaim_settles_attempts:
  assumes "attempts_ok s"
  shows "(reclaim_attempts H C cp s = (Inr (), t) \<longrightarrow>
      (\<forall>i a. dget (st_attempts t) i = Some a \<longrightarrow> \<not> in_flight a) \<and>
      (\<exists>cs. list_valid C cp = Inr cs \<and>
        (\<forall>i a. dget (st_attempts s) i = Some a \<longrightarrow>
           dget (st_attempts t) i = Some (if in_flight a then reclaimed_copy (safe_ids cs) a else a)))) \<and>
    (load_checkpoint C k cp = Inl (ArtifactError m) \<and> k \<in> set (list_ids cp) \<longrightarrow>
      (\<exists>e. reclaim_attempts H C cp s = (Inl e, s)))"
proof (intro conjI impI)
  assume run: "reclaim_attempts H C cp s = (Inr (), t)"
  obtain cs where cs: "list_valid C cp = Inr cs"
    and at: "\<And>i. dget (st_attempts t) i =
      map_option (\<lambda>a. if in_flight a then reclaimed_copy (safe_ids cs) a else a) (dget (st_attempts s) i)"
    using reclaim_attempts_Inr [OF run assms] by blast
  have settled: "\<not> in_flight (if in_flight a then reclaimed_copy (safe_ids cs) a else a)" for a
    by simp
  show "\<forall>i a. dget (st_attempts t) i = Some a \<longrightarrow> \<not> in_flight a"
  proof (intro allI impI)
    fix i b assume "dget (st_attempts t) i = Some b"
    then obtain a where "b = (if in_flight a then reclaimed_copy (safe_ids cs) a else a)"
      unfolding at by blast
    with settled [of a] show "\<not> in_flight b" by simp
  qed
  show "\<exists>cs. list_valid C cp = Inr cs \<and>
        (\<forall>i a. dget (st_attempts s) i = Some a \<longrightarrow>
           dget (st_attempts t) i = Some (if in_flight a then reclaimed_copy (safe_ids cs) a else a))"
    using cs by (auto simp: at)
next
  assume "load_checkpoint C k cp = Inl (ArtifactError m) \<and> k \<in> set (list_ids cp)"
  then obtain e where "list_valid C cp = Inl e"
    using load_valid_stops [of C k cp m "list_ids cp"] by (auto simp: list_valid_def)
  then show "\<exists>e. reclaim_attempts H C cp s = (Inl e, s)" by (simp add: reclaim_attempts_def)
qed


definition safe_checkpoints :: checkpoint_store where
  "safe_checkpoints = empty_checkpoints\<lparr>cp_files := [(''cp'', CheckpointFile
     \<lparr>ce_format_version = 1, ce_sha256 = ''cp'', ce_checkpoint = checkpoint_of ''cp'' True []\<rparr>)]\<rparr>"

lemma load_safe_checkpoint:
  "load_checkpoint plain_codec ''cp'' safe_checkpoints = Inr (checkpoint_of ''cp'' True [])"
  by (simp add: load_checkpoint_def checkpoint_path_def bad_checkpoint_id_def safe_checkpoints_def
      empty_checkpoints_def plain_codec_def checkpoint_of_def checkpoint_from_dict_def)

definition stalled :: worker_attempt where
  "stalled = (some_attempt ''a'')\<lparr>wa_status := WS_running, wa_checkpoint_id := Some ''cp'',
     wa_checkpoint_safe_to_resume := True\<rparr>"

lemma stalled_simps [simp]:
  "wa_id stalled = ''a''" "wa_status stalled = WS_running" "wa_checkpoint_id stalled = Some ''cp''"
  "wa_recovery_checkpoint_id stalled = None" "wa_checkpoint_safe_to_resume stalled"
  by (simp_all add: stalled_def)


lemma reclaim_settles_attempts_witness:
  "\<exists>t. reclaim_attempts unit_hashing plain_codec safe_checkpoints (put_attempt stalled (new_store [])) =
      (Inr (), t) \<and> (\<forall>i a. dget (st_attempts t) i = Some a \<longrightarrow> \<not> in_flight a)"
proof -
  let ?s = "put_attempt stalled (new_store [])"
  let ?a = "reclaimed_copy {''cp''} stalled"
  have st: "wa_status ?a = WS_queued" by (simp add: reclaimed_copy_def or_else_def)
  have "healthy unit_hashing (put_attempt ?a ?s)"
    by simp
  then obtain j where j: "commit unit_hashing (WorkerEvent WE_recovered ?a (session_of ''a'' ?s)) None
      (put_attempt ?a ?s) = (Inr (), (put_attempt ?a ?s)\<lparr>st_journal := j\<rparr>)" using healthy_commit by blast
  have ids: "list_ids safe_checkpoints = [''cp'']"
    by (simp add: list_ids_def safe_checkpoints_def empty_checkpoints_def)
  have "list_valid plain_codec safe_checkpoints = Inr [checkpoint_of ''cp'' True []]"
    by (simp add: list_valid_def ids load_safe_checkpoint)
  moreover have "safe_ids [checkpoint_of ''cp'' True []] = {''cp''}"
    by (simp add: safe_ids_def checkpoint_of_def)
  ultimately have run: "reclaim_attempts unit_hashing plain_codec safe_checkpoints ?s =
      (Inr (), (put_attempt ?a ?s)\<lparr>st_journal := j\<rparr>)"
    using j st by (simp add: reclaim_attempts_def Let_def andthen_def bind_def)
  have "attempts_ok ?s" by simp
  from reclaim_settles_attempts [OF this] run show ?thesis by blast
qed

end
