(* ===== verification/Manager.thy ===== *)
theory Manager
  imports Execution
begin

text \<open>
  \<^verbatim>\<open>execution/admission.py\<close>, \<^verbatim>\<open>execution/coordination.py\<close> and \<^verbatim>\<open>execution/manager.py\<close>: what admits
  the workers of a plan, renews a claim, and asks a running worker to pause or cancel.

  Binding a workspace copies a directory tree, which is not under the model: an adapter is a
  function from the owner and the base revision to the path and revision of the copy, or an
  exception.
\<close>

section \<open>Admission: execution/admission.py\<close>

record worker_admission =
  wad_actor_role :: string
  wad_parent_depth :: int
  wad_requested_workers :: int

definition validate_admission :: "worker_admission \<Rightarrow> unit res" where
  "validate_admission w =
     (if wad_actor_role w \<notin> {''controller'', ''worker''} then Inl (DomainError ''invalid_actor_role'' 409)
      else if wad_parent_depth w < 0 then Inl (DomainError ''invalid_delegation_depth'' 409)
      else if wad_requested_workers w < 0 \<or> 5 < wad_requested_workers w
      then Inl (DomainError ''worker_limit_exceeded'' 409)
      else if 1 \<le> wad_parent_depth w then Inl (DomainError ''worker_depth_exceeded'' 409)
      else if wad_actor_role w = ''worker'' then Inl (DomainError ''worker_spawn_forbidden'' 409)
      else Inr ())"

section \<open>Control handles: execution/coordination.py\<close>

definition request_pause :: "execution_handle \<Rightarrow> execution_handle" where
  "request_pause h = (if \<not> hd_done h \<and> \<not> hd_cancel_requested h then h\<lparr>hd_pause_requested := True\<rparr> else h)"

definition request_cancel :: "execution_handle \<Rightarrow> execution_handle" where
  "request_cancel h = (if \<not> hd_done h then h\<lparr>hd_cancel_requested := True\<rparr> else h)"

definition mark_done :: "execution_handle \<Rightarrow> execution_handle" where
  "mark_done h = h\<lparr>hd_done := True\<rparr>"

definition register_handle :: "string \<Rightarrow> execution_handle \<Rightarrow> 'r store_scheme \<Rightarrow> 'r store_scheme" where
  "register_handle i h = st_handles_update (dput i h)"

text \<open>Only the handle object that is registered is released.\<close>

definition release_handle :: "string \<Rightarrow> execution_handle \<Rightarrow> 'r store_scheme \<Rightarrow> 'r store_scheme" where
  "release_handle i h s =
     (case dget (st_handles s) i of
        None \<Rightarrow> s
      | Some k \<Rightarrow> if hd_key k = hd_key h then s\<lparr>st_handles := dpop i (st_handles s)\<rparr> else s)"

definition request_execution_control ::
    "string \<Rightarrow> string \<Rightarrow> ('r store_scheme, bool) prog" where
  "request_execution_control i action =
     bind (get (\<lambda>s. dget (st_handles s) i)) (\<lambda>found.
     case found of
       None \<Rightarrow> ret False
     | Some h \<Rightarrow>
         if action = ''pause'' then andthen (modify (st_handles_update (dput i (request_pause h)))) (ret True)
         else if action = ''cancel''
         then andthen (modify (st_handles_update (dput i (request_cancel h)))) (ret True)
         else raise_exn (ValueError ''unsupported execution control action''))"

section \<open>Admission of a plan: ExecutionManager.enqueue_plan\<close>

definition active_in :: "string \<Rightarrow> 'r view_scheme \<Rightarrow> worker_attempt \<Rightarrow> bool" where
  "active_in sid s a \<longleftrightarrow>
     dget (st_attempt_session s) (wa_id a) = Some sid \<and> wa_status a \<notin> set WORKER_ATTEMPT_TERMINAL"

definition active_for_session :: "string \<Rightarrow> 'r view_scheme \<Rightarrow> nat" where
  "active_for_session sid s = length (filter (active_in sid s) (dvalues (st_attempts s)))"

definition validate_capacity :: "parent_task \<Rightarrow> worker_plan option \<Rightarrow> 'r view_scheme \<Rightarrow> unit res" where
  "validate_capacity task plan s =
     (case plan of
        None \<Rightarrow> Inr ()
      | Some p \<Rightarrow>
          if 5 < length (wl_children p) then Inl (DomainError ''worker_limit_exceeded'' 409)
          else (case dget (st_sessions s) (pt_controller_session_id task) of
                  None \<Rightarrow> Inl KeyError
                | Some session \<Rightarrow>
                    if int (active_for_session (cs_id session) s + length (wl_children p))
                         > cs_max_active_workers session
                    then Inl (DomainError ''worker_limit_exceeded'' 409)
                    else Inr ()))"

type_synonym owner_binder = "string \<Rightarrow> string \<Rightarrow> (string \<times> string) res"

text \<open>
  \<open>adapter\<close> is the manager's adapter, \<open>local\<close> what the code builds for a directory that exists on
  this machine, and \<open>fresh\<close> the owner identifier drawn when nobody owns the child task.
\<close>

definition bind_workspace ::
    "owner_binder option \<Rightarrow> (string \<Rightarrow> owner_binder option res) \<Rightarrow> string \<Rightarrow> parent_task \<Rightarrow> string \<Rightarrow>
     'r view_scheme \<Rightarrow> workspace_binding option res" where
  "bind_workspace adapter local fresh task child s =
     (case (case adapter of None \<Rightarrow> local (ws_canonical_uri (pt_workspace task)) | Some b \<Rightarrow> Inr (Some b)) of
        Inl e \<Rightarrow> Inl e
      | Inr None \<Rightarrow> Inr None
      | Inr (Some b) \<Rightarrow>
          let owner = (case dget (st_assignments s) child of
                         None \<Rightarrow> fresh
                       | Some a \<Rightarrow> if oa_status a = AS_active then oa_owner_agent_id a else fresh)
          in (case b owner (ws_base_revision (pt_workspace task)) of
                Inl e \<Rightarrow> Inl e
              | Inr (path, revision) \<Rightarrow>
                  Inr (Some \<lparr>wb_owner_id = owner, wb_owner_workspace = path,
                             wb_canonical_uri = ws_canonical_uri (pt_workspace task),
                             wb_base_revision = revision\<rparr>)))"

text \<open>The identifiers the code draws for the \<open>n\<close>-th child: attempt, worker session, owner.\<close>

record fresh_ids =
  fi_attempt :: string
  fi_session :: string
  fi_owner :: string

fun enqueue_children ::
    "event hashing \<Rightarrow> owner_binder option \<Rightarrow> (string \<Rightarrow> owner_binder option res) \<Rightarrow>
     (nat \<Rightarrow> fresh_ids) \<Rightarrow> time \<Rightarrow> parent_task \<Rightarrow> string \<Rightarrow> child_proposal list \<Rightarrow> nat \<Rightarrow>
     ('r store_scheme, worker_attempt list) prog" where
  "enqueue_children H adapter local ids now task sid [] n = ret []"
| "enqueue_children H adapter local ids now task sid (c # cs) n =
     bind (get (\<lambda>s. case dget (st_child_ref_ids s) (pt_id task, cp_client_ref c) of
                      None \<Rightarrow> cp_client_ref c | Some i \<Rightarrow> i)) (\<lambda>child.
     bind (get (bind_workspace adapter local (fi_owner (ids n)) task child)) (\<lambda>bound.
     bind (lift bound) (\<lambda>workspace.
     bind (enqueue_attempt H
             (new_worker_attempt (fi_attempt (ids n)) (fi_session (ids n)) child workspace now)
             (Some sid)) (\<lambda>a.
     bind (enqueue_children H adapter local ids now task sid cs (Suc n)) (\<lambda>as. ret (a # as))))))"

definition enqueue_plan ::
    "event hashing \<Rightarrow> owner_binder option \<Rightarrow> (string \<Rightarrow> owner_binder option res) \<Rightarrow>
     (nat \<Rightarrow> fresh_ids) \<Rightarrow> time \<Rightarrow> parent_task \<Rightarrow> worker_plan option \<Rightarrow> string \<Rightarrow> int \<Rightarrow>
     ('r store_scheme, worker_attempt list) prog" where
  "enqueue_plan H adapter local ids now task plan role depth =
     (case plan of
        None \<Rightarrow> ret []
      | Some p \<Rightarrow>
        andthen (lift (validate_admission
          \<lparr>wad_actor_role = role, wad_parent_depth = depth,
           wad_requested_workers = int (length (wl_children p))\<rparr>))
       (bind (get (validate_capacity task plan)) (\<lambda>capacity.
        andthen (lift capacity)
       (bind (get (\<lambda>s. dget (st_sessions s) (pt_controller_session_id task))) (\<lambda>session.
        case session of
          None \<Rightarrow> raise_exn KeyError
        | Some cs \<Rightarrow> enqueue_children H adapter local ids now task (cs_id cs) (wl_children p) 0)))))"

section \<open>Heartbeat and control requests\<close>

text \<open>The claim service's own error is a plain \<^verbatim>\<open>ValueError\<close> here. The projection changes first.\<close>

definition attempt_heartbeat ::
    "event hashing \<Rightarrow> string \<Rightarrow> string \<Rightarrow> datetime \<Rightarrow> time \<Rightarrow> ('r store_scheme, worker_attempt) prog"
  where
  "attempt_heartbeat H attempt_id token now ttl =
     bind (get (\<lambda>s. dget (st_attempts s) attempt_id)) (\<lambda>found.
     case found of
       None \<Rightarrow> raise_exn (DomainError ''not_found'' 404)
     | Some a \<Rightarrow>
     (case (wa_claim_token a, wa_claim_expires_at a) of
        (Some own, Some expires) \<Rightarrow>
          andthen (raise_when (own = []) (DomainError ''invalid_claim'' 409))
         (andthen (lift (claim_service ttl))
         (bind (lift (heartbeat_record ttl
                  \<lparr>rc_id' = wa_id a, rc_worker_session_id = wa_worker_session_id a,
                   rc_status = wa_status a,
                   rc_claim = Some \<lparr>wc_token = own, wc_claimed_at = expires - ttl, wc_expires_at = expires\<rparr>,
                   rc_checkpoint_id = None, rc_checkpoint_safe_to_resume = False,
                   rc_resumed_from_attempt_id = None, rc_recovery_checkpoint_id = None\<rparr>
                  token now)) (\<lambda>renewed.
          let b = a\<lparr>wa_claim_expires_at := map_option wc_expires_at (rc_claim renewed),
                    wa_version := wa_version a + 1\<rparr>
          in andthen (modify (put_attempt b))
            (bind (get (session_of (wa_id a))) (\<lambda>session.
             andthen (commit H (WorkerEvent WE_heartbeat b session) None) (ret b))))))
      | _ \<Rightarrow> raise_exn (DomainError ''invalid_claim'' 409)))"

definition request_control ::
    "event hashing \<Rightarrow> string \<Rightarrow> string \<Rightarrow> time \<Rightarrow> ('r store_scheme, worker_attempt) prog" where
  "request_control H attempt_id action now =
     bind (get (\<lambda>s. dget (st_attempts s) attempt_id)) (\<lambda>found.
     case found of
       None \<Rightarrow> raise_exn (DomainError ''not_found'' 404)
     | Some a \<Rightarrow>
       andthen (raise_when (action \<notin> {''pause'', ''cancel''}) (ValueError ''unsupported execution control action''))
       (if wa_status a \<in> set WORKER_ATTEMPT_TERMINAL \<or> wa_status a \<noteq> WS_running then ret a
        else let target = (if action = ''pause'' then WS_pause_requested else WS_cancel_requested);
                 kind = (if action = ''pause'' then WE_pause_requested else WE_cancel_requested)
        in bind (rewrap (\<lambda>e. e = StateTransitionError) (DomainError ''invalid_transition'' 409)
             (lift (transition_worker_attempt a target (wa_version a) None now))) (\<lambda>b.
           andthen (modify (put_attempt b))
          (bind (get (session_of (wa_id a))) (\<lambda>session.
           andthen (commit H (WorkerEvent kind b session) None)
          (andthen (commit H (WorkerEvent WE_checkpointed b session) None)
          (andthen (request_execution_control (wa_id a) action) (ret b))))))))"

section \<open>Lemmas on admission\<close>

lemma validate_admission_Inr:
  "validate_admission w = Inr () \<longleftrightarrow>
     wad_actor_role w = ''controller'' \<and> wad_parent_depth w = 0 \<and>
     0 \<le> wad_requested_workers w \<and> wad_requested_workers w \<le> 5"
  by (auto simp: validate_admission_def)

lemma validate_capacity_Inr:
  "validate_capacity task (Some p) s = Inr () \<longleftrightarrow>
     length (wl_children p) \<le> 5 \<and>
     (\<exists>cs. dget (st_sessions s) (pt_controller_session_id task) = Some cs \<and>
        int (active_for_session (cs_id cs) s) + int (length (wl_children p)) \<le> cs_max_active_workers cs)"
  by (auto simp: validate_capacity_def split: option.split)

lemma active_same:
  "st_attempts t = st_attempts s \<Longrightarrow> st_attempt_session t = st_attempt_session s \<Longrightarrow>
     active_for_session sid t = active_for_session sid s"
  by (simp add: active_for_session_def active_in_def [abs_def])

lemma active_same_view: "same_view s t \<Longrightarrow> active_for_session sid t = active_for_session sid s"
  by (rule active_same) (auto simp: same_view_def)

lemma session_after_enqueue:
  "dget (st_attempt_session (put_attempt_session i (or_else w (session_of i s)) u)) k =
     (if k = i then or_else w (session_of i s) else dget (st_attempt_session u) k)"
  if "st_attempt_session u = st_attempt_session s"
  using that
  by (auto simp: put_attempt_session_def or_else_def session_of_def split: option.split)

lemma put_attempt_session_of [simp]:
  "st_attempt_session (put_attempt a s) = st_attempt_session s"
  by (simp add: put_attempt_def)

lemma active_enqueue:
  assumes ok: "attempts_ok s" and new: "dget (st_attempts s) (wa_id a) = None"
    and run: "enqueue_attempt H a w s = (Inr b, t)"
  shows "attempts_ok t \<and> b = a \<and>
    active_for_session sid t = active_for_session sid s +
      (if or_else w (session_of (wa_id a) s) = Some sid then 1 else 0)"
  using run
proof (cases rule: enqueue_attempt_Inr)
  case already
  with new show ?thesis by simp
next
  case (fresh u)
  have u: "st_attempts u = st_attempts s" "st_attempt_session u = st_attempt_session s"
    using commit_view [OF fresh(4)] by auto
  let ?w = "or_else w (session_of (wa_id a) s)"
  have at: "st_attempts t = st_attempts s @ [(wa_id a, a)]"
    using u new by (simp add: fresh(5) dput_fresh)
  have ses: "dget (st_attempt_session t) k =
      (if k = wa_id a then ?w else dget (st_attempt_session s) k)" for k
    using session_after_enqueue [of "put_attempt a u" s "wa_id a" w k] u by (simp add: fresh(5))
  have other: "wa_id x \<noteq> wa_id a" if "x \<in> set (dvalues (st_attempts s))" for x
  proof
    assume "wa_id x = wa_id a"
    with keyed_values [of "st_attempts s" wa_id x] ok that new show False
      by (simp add: attempts_ok_def)
  qed
  have "filter (active_in sid t) (dvalues (st_attempts s)) = filter (active_in sid s) (dvalues (st_attempts s))"
    by (rule filter_cong [OF refl]) (simp add: active_in_def ses other)
  moreover have "active_in sid t a \<longleftrightarrow> ?w = Some sid"
    using fresh(2) by (simp add: active_in_def ses WORKER_ATTEMPT_TERMINAL_def)
  moreover have "dvalues (st_attempts t) = dvalues (st_attempts s) @ [a]" by (simp add: at)
  ultimately have "active_for_session sid t = active_for_session sid s + (if ?w = Some sid then 1 else 0)"
    unfolding active_for_session_def by (simp only: filter_append length_append) simp
  moreover have "attempts_ok t"
    using ok u by (simp add: attempts_ok_def fresh(5))
  ultimately show ?thesis using fresh(3) by simp
qed

text \<open>An admission adds at most one active attempt, whatever happens.\<close>

lemma active_enqueue_le:
  assumes "attempts_ok s" and "enqueue_attempt H a w s = (r, t)"
  shows "attempts_ok t \<and> active_for_session sid t \<le> active_for_session sid s + 1"
proof (cases r)
  case (Inl e)
  with assms have "same_view s t" using enqueue_attempt_Inl by blast
  then show ?thesis using assms(1) active_same_view [of s t sid] attempts_ok_same same_view_attempts by auto
next
  case (Inr b)
  show ?thesis
  proof (cases "dget (st_attempts s) (wa_id a)")
    case None
    with assms Inr active_enqueue [of s a H w b t sid] show ?thesis by auto
  next
    case (Some old)
    with assms Inr have "t = s" by (auto simp: enqueue_attempt_def split: if_splits)
    with assms(1) show ?thesis by simp
  qed
qed

lemma enqueue_children_active:
  "enqueue_children H adapter local ids now task sid cs n s = (r, t) \<Longrightarrow> attempts_ok s \<Longrightarrow>
     attempts_ok t \<and> active_for_session k t \<le> active_for_session k s + length cs \<and>
     (\<forall>as. r = Inr as \<longrightarrow> length as = length cs)"
proof (induction cs arbitrary: n s r t)
  case (Cons c cs)
  let ?child = "case dget (st_child_ref_ids s) (pt_id task, cp_client_ref c) of
    None \<Rightarrow> cp_client_ref c | Some i \<Rightarrow> i"
  show ?case
  proof (cases "bind_workspace adapter local (fi_owner (ids n)) task ?child s")
    case (Inl e)
    with Cons.prems show ?thesis by auto
  next
    case (Inr ws)
    let ?a = "new_worker_attempt (fi_attempt (ids n)) (fi_session (ids n)) ?child ws now"
    obtain x u where enq: "enqueue_attempt H ?a (Some sid) s = (x, u)" by fastforce
    note u = active_enqueue_le [OF Cons.prems(2) enq, of k]
    show ?thesis
    proof (cases x)
      case (Inl e)
      with Cons.prems(1) enq Inr have "r = Inl e" "t = u" by (simp_all add: bind_def)
      with u show ?thesis by simp
    next
      case x: (Inr b)
      obtain y w where rest: "enqueue_children H adapter local ids now task sid cs (Suc n) u = (y, w)"
        by fastforce
      from Cons.prems(1) enq Inr x rest have "t = w" "r = (case y of Inl e \<Rightarrow> Inl e | Inr as \<Rightarrow> Inr (b # as))"
        by (auto simp: bind_def split: sum.splits)
      with Cons.IH [OF rest] u show ?thesis by (auto split: sum.splits)
    qed
  qed
qed simp

section \<open>Lemmas on claims and control requests\<close>

lemma attempt_heartbeat_Inr:
  assumes "attempt_heartbeat H i token now ttl s = (Inr b, t)"
  obtains a expires where "dget (st_attempts s) i = Some a" and "0 < ttl"
    and "wa_claim_token a = Some token" and "wa_claim_expires_at a = Some expires" and "utc now < expires"
    and "wa_status a \<in> {WS_claimed, WS_running}"
    and "b = a\<lparr>wa_claim_expires_at := Some (utc now + ttl), wa_version := wa_version a + 1\<rparr>"
    and "commit H (WorkerEvent WE_heartbeat b (session_of (wa_id a) (put_attempt b s))) None (put_attempt b s) = (Inr (), t)"
  using assms
  by (auto simp: attempt_heartbeat_def claim_service_def heartbeat_record_def prog_simps Let_def
      split: option.splits if_splits)

lemma attempt_heartbeat_consistent:
  assumes "consistent H s" and "attempt_heartbeat H i token now ttl s = (Inr b, t)"
  shows "consistent H t"
proof -
  from assms(2) obtain a expires where
    b: "b = a\<lparr>wa_claim_expires_at := Some (utc now + ttl), wa_version := wa_version a + 1\<rparr>"
    and c: "commit H (WorkerEvent WE_heartbeat b (session_of (wa_id a) (put_attempt b s))) None (put_attempt b s) = (Inr (), t)"
    by (rule attempt_heartbeat_Inr)
  have "apply_event (WorkerEvent WE_heartbeat b (session_of (wa_id b) s)) s = Inr (put_attempt b s)"
    by (rule worker_event_effect) (simp add: replayed_worker_events_def)
  moreover have "wa_id b = wa_id a" by (simp add: b)
  then have "commit H (WorkerEvent WE_heartbeat b (session_of (wa_id b) s)) None (put_attempt b s) = (Inr (), t)"
    using c by simp
  ultimately show ?thesis by (rule consistent_update_commit [OF assms(1)])
qed

lemma on_journal_put_attempt:
  "on_journal m (put_attempt a s) = (r, t) \<Longrightarrow> \<exists>u. on_journal m s = (r, u) \<and> t = put_attempt a u"
  by (auto simp: on_journal_def split: prod.splits) (simp add: put_attempt_def)

lemma commit_put_attempt:
  "commit H e k (put_attempt a s) = (r, t) \<Longrightarrow> \<exists>u. commit H e k s = (r, u) \<and> t = put_attempt a u"
  unfolding commit_def commit_frame_def by (rule on_journal_put_attempt)

lemma same_handles_consistent:
  "consistent H s \<Longrightarrow> consistent H (st_handles_update f s)"
  by (simp add: consistent_def sound_store_def event_log_def recorded_def view.defs)

text \<open>The handles after a request.\<close>

definition woken ::
    "string \<Rightarrow> string \<Rightarrow> (string, execution_handle) dict \<Rightarrow> (string, execution_handle) dict" where
  "woken action i d =
     (case dget d i of
        None \<Rightarrow> d
      | Some h \<Rightarrow> dput i (if action = ''pause'' then request_pause h else request_cancel h) d)"

lemma request_execution_control_cases:
  assumes "action \<in> {''pause'', ''cancel''}"
  shows "\<exists>b. request_execution_control i action s =
    (Inr b, s\<lparr>st_handles := woken action i (st_handles s)\<rparr>)"
  using assms by (auto simp: request_execution_control_def woken_def split: option.split)

definition requested :: "string \<Rightarrow> worker_attempt \<Rightarrow> time \<Rightarrow> worker_attempt" where
  "requested action a now =
     a\<lparr>wa_status := (if action = ''pause'' then WS_pause_requested else WS_cancel_requested),
       wa_version := wa_version a + 1, wa_updated_at := now\<rparr>"

lemma requested_transition:
  "wa_status a = WS_running \<Longrightarrow>
     transition_worker_attempt a (if action = ''pause'' then WS_pause_requested else WS_cancel_requested)
       (wa_version a) None now = Inr (requested action a now)"
  by (simp add: transition_worker_attempt_iff requested_def worker_guard_def)

lemma request_control_Inr:
  assumes "request_control H i action now s = (Inr b, t)"
  obtains (idle) "dget (st_attempts s) i = Some b" and "wa_status b \<noteq> WS_running" and "t = s"
    | (asked) a u v where "dget (st_attempts s) i = Some a" and "wa_status a = WS_running"
      and "action \<in> {''pause'', ''cancel''}" and "b = requested action a now"
      and "commit H (WorkerEvent (if action = ''pause'' then WE_pause_requested else WE_cancel_requested) b
             (session_of (wa_id b) s)) None s = (Inr (), u)"
      and "commit H (WorkerEvent WE_checkpointed b (session_of (wa_id b) s)) None (put_attempt b u) = (Inr (), v)"
      and "t = v\<lparr>st_handles := woken action (wa_id b) (st_handles s)\<rparr>"
proof -
  from assms obtain a where a: "dget (st_attempts s) i = Some a"
    by (auto simp: request_control_def split: option.splits)
  show ?thesis
  proof (cases "wa_status a = WS_running")
    case False
    with assms a have "b = a" "t = s"
      by (auto simp: request_control_def split: if_splits)
    with a False show ?thesis by (intro idle) simp_all
  next
    case True
    let ?k = "if action = ''pause'' then WE_pause_requested else WE_cancel_requested"
    let ?b = "requested action a now"
    have act: "action \<in> {''pause'', ''cancel''}"
      using assms a by (auto simp: request_control_def split: if_splits)
    have id: "wa_id ?b = wa_id a" by (simp add: requested_def)
    from assms a True act obtain u' v x where
      c1: "commit H (WorkerEvent ?k ?b (session_of (wa_id a) (put_attempt ?b s))) None (put_attempt ?b s) = (Inr (), u')"
      and c2: "commit H (WorkerEvent WE_checkpointed ?b (session_of (wa_id a) (put_attempt ?b s))) None u' = (Inr (), v)"
      and c3: "request_execution_control (wa_id a) action v = (Inr x, t)" and b: "b = ?b"
      by (auto simp: request_control_def prog_simps Let_def requested_transition [OF True, of action now, simplified]
          WORKER_ATTEMPT_TERMINAL_def split: if_splits)
    from commit_put_attempt [OF c1] obtain u where
      u: "commit H (WorkerEvent ?k ?b (session_of (wa_id a) (put_attempt ?b s))) None s = (Inr (), u)"
      and u': "u' = put_attempt ?b u" by blast
    have "st_handles v = st_handles s"
      using commit_view [OF u] commit_view [OF c2] by (auto simp: u' put_attempt_def)
    then have "t = v\<lparr>st_handles := woken action (wa_id a) (st_handles s)\<rparr>"
      using request_execution_control_cases [OF act, of "wa_id a" v] c3 by auto
    then show ?thesis using a True act b u c2 u' id by (intro asked [of a u v]) simp_all
  qed
qed

lemma request_control_consistent:
  assumes "consistent H s" and "request_control H i action now s = (Inr b, t)"
  shows "consistent H t"
  using assms(2)
proof (cases rule: request_control_Inr)
  case idle
  with assms(1) show ?thesis by simp
next
  case (asked a u v)
  have "consistent H u"
    by (rule consistent_silent [OF assms(1) asked(5)]) (simp add: replayed_worker_events_def)
  moreover have "session_of (wa_id b) u = session_of (wa_id b) s"
    using commit_view [OF asked(5)] by (auto simp: session_of_def)
  then have "apply_event (WorkerEvent WE_checkpointed b (session_of (wa_id b) s)) u = Inr (put_attempt b u)"
    using worker_event_effect [of WE_checkpointed b u] by (simp add: replayed_worker_events_def)
  ultimately have "consistent H v" using asked(6) by (rule consistent_update_commit)
  then show ?thesis unfolding asked(7) by (rule same_handles_consistent)
qed

section \<open>What admission and control guarantee\<close>

lemma enqueue_plan_cases:
  assumes "enqueue_plan H adapter local ids now task (Some p) role depth s = (r, t)"
  obtains (refused) e where "r = Inl e" and "t = s"
    | (admitted) cs where "role = ''controller''" and "depth = 0" and "length (wl_children p) \<le> 5"
      and "dget (st_sessions s) (pt_controller_session_id task) = Some cs"
      and "int (active_for_session (cs_id cs) s) + int (length (wl_children p)) \<le> cs_max_active_workers cs"
      and "enqueue_children H adapter local ids now task (cs_id cs) (wl_children p) 0 s = (r, t)"
proof (cases "validate_admission \<lparr>wad_actor_role = role, wad_parent_depth = depth,
           wad_requested_workers = int (length (wl_children p))\<rparr>")
  case (Inl e)
  with assms have "r = Inl e" "t = s" by (auto simp: enqueue_plan_def)
  then show ?thesis by (rule refused)
next
  case (Inr x)
  then have role: "role = ''controller''" "depth = 0" by (simp_all add: validate_admission_Inr)
  show ?thesis
  proof (cases "validate_capacity task (Some p) s")
    case cap: (Inl e)
    with assms Inr have "r = Inl e" "t = s" by (auto simp: enqueue_plan_def)
    then show ?thesis by (rule refused)
  next
    case cap: (Inr y)
    then obtain cs where cs: "dget (st_sessions s) (pt_controller_session_id task) = Some cs"
      "length (wl_children p) \<le> 5"
      "int (active_for_session (cs_id cs) s) + int (length (wl_children p)) \<le> cs_max_active_workers cs"
      by (auto simp: validate_capacity_Inr)
    with assms Inr cap role show ?thesis by (intro admitted [of cs]) (simp_all add: enqueue_plan_def)
  qed
qed

text \<open>
  C15. Admission respects the worker limit of the session: only a controller at depth zero admits
  a plan, of at most five children; when the admission returns, one attempt per child was added
  and the session has at most its maximum of active attempts; and an admission that fails
  halfway does not exceed the maximum either.
\<close>

theorem plan_respects_capacity:
  assumes "attempts_ok s"
    and "enqueue_plan H adapter local ids now task (Some p) role depth s = (r, t)"
  shows "(\<forall>as. r = Inr as \<longrightarrow>
      role = ''controller'' \<and> depth = 0 \<and> length as = length (wl_children p) \<and> length as \<le> 5 \<and>
      (\<exists>cs. dget (st_sessions s) (pt_controller_session_id task) = Some cs \<and>
         int (active_for_session (cs_id cs) t) \<le> cs_max_active_workers cs)) \<and>
    (\<forall>cs. dget (st_sessions s) (pt_controller_session_id task) = Some cs \<longrightarrow>
       int (active_for_session (cs_id cs) t) \<le>
         max (int (active_for_session (cs_id cs) s)) (cs_max_active_workers cs))"
  using assms(2)
proof (cases rule: enqueue_plan_cases)
  case (refused e)
  then show ?thesis by simp
next
  case (admitted cs)
  note added = enqueue_children_active [OF admitted(6) assms(1), of "cs_id cs"]
  then have "int (active_for_session (cs_id cs) t) \<le> cs_max_active_workers cs"
    using admitted(5) by linarith
  with added admitted show ?thesis by auto
qed

definition small_session :: controller_session where
  "small_session = \<lparr>cs_id = ''s'', cs_version = 1, cs_tenant_id = ''t'', cs_host_session_id = ''h'',
     cs_orchestration_mode = OM_worker_only, cs_active_controller_epoch_id = None,
     cs_max_active_workers = 0, cs_created_at = 0\<rparr>"

lemma plan_respects_capacity_witness:
  "\<exists>t. enqueue_plan unit_hashing None (\<lambda>_. Inr None) (\<lambda>_. \<lparr>fi_attempt = ''a'', fi_session = ''w'', fi_owner = ''o''\<rparr>)
      0 running_task (Some \<lparr>wl_id = ''p'', wl_parent_task_id = ''t'', wl_proposal_hash = ''h'',
        wl_children = [], wl_integration_order = [], wl_version = 1\<rparr>) ''controller'' 0
      (put_session small_session (new_store [])) = (Inr [], t) \<and>
     active_for_session ''s'' t = 0"
proof -
  let ?p = "\<lparr>wl_id = ''p'', wl_parent_task_id = ''t'', wl_proposal_hash = ''h'',
        wl_children = [], wl_integration_order = [], wl_version = 1\<rparr>"
  let ?s = "put_session small_session (new_store [])"
  have empty: "st_attempts ?s = []" and ses: "dget (st_sessions ?s) ''s'' = Some small_session"
    by (simp_all add: put_session_def small_session_def)
  have pt: "pt_controller_session_id running_task = ''s''" by (simp add: running_task_def)
  have run: "enqueue_plan unit_hashing None (\<lambda>_. Inr None)
      (\<lambda>_. \<lparr>fi_attempt = ''a'', fi_session = ''w'', fi_owner = ''o''\<rparr>)
      0 running_task (Some ?p) ''controller'' 0 ?s = (Inr [], ?s)"
    using ses by (simp add: enqueue_plan_def validate_admission_def validate_capacity_def pt empty
        active_for_session_def) (simp add: small_session_def)
  have "attempts_ok ?s" by (simp add: attempts_ok_def empty)
  from plan_respects_capacity [OF this run] run ses pt show ?thesis
    by (auto simp: small_session_def)
qed

text \<open>
  A recovery is admitted past the worker limit: it adds one active attempt to the session of
  the old attempt without comparing the number with the session's maximum, and an old attempt
  that still runs keeps running.
\<close>

theorem recovery_ignores_capacity:
  assumes "attempts_ok s" and "recover_attempt H C i cp n now s = (Inr b, t)"
    and "dget (st_attempts s) n = None" and "session_of i s = Some sid" and "sid \<noteq> []"
  shows "active_for_session sid t = active_for_session sid s + 1 \<and>
    (\<forall>p. dget (st_attempts s) i = Some p \<longrightarrow> dget (st_attempts t) i = Some p)"
proof -
  from assms(2) obtain p and c :: checkpoint where p: "dget (st_attempts s) i = Some p"
    and enq: "enqueue_attempt H
      ((new_worker_attempt n (wa_worker_session_id p) (wa_child_task_id p) (wa_workspace p) now)
         \<lparr>wa_resumed_from_attempt_id := Some (wa_id p), wa_checkpoint_id := Some (ck_id c),
          wa_recovery_checkpoint_id := Some (ck_id c), wa_checkpoint_safe_to_resume := True\<rparr>)
      (session_of (wa_id p) s) s = (Inr b, t)" (is "enqueue_attempt H ?r _ s = _")
    by (rule recover_attempt_Inr)
  have i: "wa_id p = i" using assms(1) p by (auto simp: attempts_ok_def dest: keyedD)
  have n: "wa_id ?r = n" by (simp add: new_worker_attempt_def)
  have "or_else (session_of (wa_id p) s) (session_of (wa_id ?r) s) = Some sid"
    using assms(4,5) by (simp add: i or_else_def)
  then have act: "active_for_session sid t = active_for_session sid s + 1"
    using active_enqueue [OF assms(1) _ enq, of sid] assms(3) n by simp
  have "dget (st_attempts t) i = Some p"
    using enq
  proof (cases rule: enqueue_attempt_Inr)
    case (fresh u)
    have "n \<noteq> i" using p assms(3) by auto
    with p n commit_attempts [OF fresh(4)] show ?thesis by (simp add: fresh(5))
  qed (simp add: p)
  with act p show ?thesis by simp
qed

text \<open>
  C14. A claim is exclusive while it lasts: a claim that returns moves a queued attempt to
  claimed with the token and its expiry, one version later; from then on, as long as the store
  holds that attempt, another claim is refused, and a heartbeat that returns carries the token,
  comes before the expiry and only extends it.
\<close>

theorem claim_is_exclusive:
  fixes s t :: "'r store_scheme"
  assumes "claim_attempt H i token now ttl s = (Inr b, t)" and "attempts_ok s"
  shows "dget (st_attempts t) i = Some b \<and> wa_status b = WS_claimed \<and> wa_claim_token b = Some token \<and>
    wa_claim_expires_at b = Some (utc now + ttl) \<and>
    (\<exists>a. dget (st_attempts s) i = Some a \<and> wa_status a = WS_queued \<and> wa_version b = wa_version a + 1) \<and>
    (\<forall>u :: 'r store_scheme. dget (st_attempts u) i = Some b \<longrightarrow>
      (\<forall>token' now' ttl'. 0 < ttl' \<longrightarrow>
         claim_attempt H i token' now' ttl' u = (Inl (DomainError ''invalid_claim'' 409), u)) \<and>
      (\<forall>token' now' ttl' d v. attempt_heartbeat H i token' now' ttl' u = (Inr d, v) \<longrightarrow>
         token' = token \<and> utc now' < utc now + ttl \<and>
         wa_claim_expires_at d = Some (utc now' + ttl') \<and> wa_claim_token d = Some token))"
proof -
  from assms(1) obtain a where a: "dget (st_attempts s) i = Some a" "wa_status a = WS_queued"
    and b: "b = a\<lparr>wa_status := WS_claimed, wa_claim_token := Some token,
              wa_claim_expires_at := Some (utc now + ttl), wa_version := wa_version a + 1\<rparr>"
    and c: "commit_attempt H WE_claimed b s = (Inr (), t)" by (rule claim_attempt_Inr)
  have "wa_id a = i" using assms(2) a(1) by (auto simp: attempts_ok_def dest: keyedD)
  then have stored: "dget (st_attempts t) i = Some b" using c by (auto simp: commit_attempt_Inr b)
  have fields: "wa_status b = WS_claimed" "wa_claim_token b = Some token"
    "wa_claim_expires_at b = Some (utc now + ttl)" "wa_version b = wa_version a + 1"
    by (simp_all add: b)
  have again: "claim_attempt H i token' now' ttl' u = (Inl (DomainError ''invalid_claim'' 409), u)"
    if "dget (st_attempts u) i = Some b" and "0 < ttl'" for u :: "'r store_scheme" and token' now' ttl'
    using that fields by (simp add: claim_attempt_def claim_service_def claim_record_def record_of_def)
  have renew: "token' = token \<and> utc now' < utc now + ttl \<and>
      wa_claim_expires_at d = Some (utc now' + ttl') \<and> wa_claim_token d = Some token"
    if u: "dget (st_attempts u) i = Some b" and h: "attempt_heartbeat H i token' now' ttl' u = (Inr d, v)"
    for u v :: "'r store_scheme" and token' now' ttl' d
    using h by (rule attempt_heartbeat_Inr) (use u fields in auto)
  show ?thesis
  proof (intro conjI allI impI)
    show "\<exists>a. dget (st_attempts s) i = Some a \<and> wa_status a = WS_queued \<and> wa_version b = wa_version a + 1"
      using a fields(4) by blast
  qed (use stored fields again renew in blast)+
qed

lemma claim_is_exclusive_witness:
  "\<exists>t b. claim_attempt unit_hashing ''a'' ''k'' (Aware 5) 60 (put_attempt (some_attempt ''a'') (new_store [])) =
      (Inr b, t) \<and> wa_claim_expires_at b = Some 65"
proof -
  let ?s = "put_attempt (some_attempt ''a'') (new_store [])"
  let ?b = "(some_attempt ''a'')\<lparr>wa_status := WS_claimed, wa_claim_token := Some ''k'',
    wa_claim_expires_at := Some 65, wa_version := 2\<rparr>"
  have "healthy unit_hashing ?s" by simp
  then obtain j where "commit unit_hashing (WorkerEvent WE_claimed ?b (session_of ''a'' ?s)) None ?s =
      (Inr (), ?s\<lparr>st_journal := j\<rparr>)" using healthy_commit by blast
  then have run: "claim_attempt unit_hashing ''a'' ''k'' (Aware 5) 60 ?s =
      (Inr ?b, put_attempt ?b (?s\<lparr>st_journal := j\<rparr>))"
    by (simp add: claim_attempt_def claim_service_def claim_record_def record_of_def commit_attempt_def
        utc_def andthen_def bind_def Let_def)
  have "attempts_ok ?s" by simp
  from claim_is_exclusive [OF run this] run show ?thesis by (auto simp: utc_def)
qed

text \<open>
  A control request is recorded before it is delivered: a request for an attempt that does
  not run changes nothing; for a running one it moves the attempt to pause or cancel requested,
  survives a restart, and wakes the runner of this process, where a pause never follows a
  cancellation.
\<close>

theorem control_request_reaches_worker:
  assumes "consistent H s" and "request_control H i action now s = (Inr b, t)"
  shows "(\<forall>a. dget (st_attempts s) i = Some a \<and> wa_status a \<noteq> WS_running \<longrightarrow> b = a \<and> t = s) \<and>
    (\<forall>a. dget (st_attempts s) i = Some a \<and> wa_status a = WS_running \<and> wa_id a = i \<longrightarrow>
       action \<in> {''pause'', ''cancel''} \<and> b = requested action a now \<and>
       dget (st_attempts t) i = Some b \<and>
       (\<exists>u. restart H m f io t = Inr u \<and> dget (st_attempts u) i = Some b) \<and>
       (\<forall>h. dget (st_handles s) i = Some h \<longrightarrow>
          dget (st_handles t) i = Some (if action = ''pause'' then request_pause h else request_cancel h)))"
  using assms(2)
proof (cases rule: request_control_Inr)
  case idle
  then show ?thesis by auto
next
  case (asked a u v)
  obtain w where w: "restart H m f io t = Inr w" "recorded w = recorded t"
    using restart_same [OF request_control_consistent [OF assms]] by blast
  then have "st_attempts w = st_attempts t" using recorded_select(5) by metis
  moreover have "dget (st_attempts t) (wa_id b) = Some b"
    using commit_attempts [OF asked(6)] by (simp add: asked(7))
  moreover have "wa_id b = wa_id a" by (simp add: asked(4) requested_def)
  ultimately show ?thesis using asked w by (auto simp: woken_def)
qed

lemma control_request_reaches_worker_witness:
  "request_control unit_hashing ''a'' ''pause'' 0 (snd (enqueue_attempt unit_hashing (some_attempt ''a'') None
     (new_store []))) = (Inr (some_attempt ''a''),
     snd (enqueue_attempt unit_hashing (some_attempt ''a'') None (new_store [])))"
proof -
  let ?t = "snd (enqueue_attempt unit_hashing (some_attempt ''a'') None (new_store []))"
  obtain t where t: "enqueue_attempt unit_hashing (some_attempt ''a'') None (new_store []) =
      (Inr (some_attempt ''a''), t)" and at: "st_attempts t = [(''a'', some_attempt ''a'')]"
    using enqueue_healthy [of unit_hashing "new_store []" "some_attempt ''a''"] by auto
  have cons: "consistent unit_hashing t" using enqueue_attempt_consistent [OF consistent_new_store t] .
  have "request_control unit_hashing ''a'' ''pause'' 0 t = (Inr (some_attempt ''a''), t)"
    using at by (simp add: request_control_def)
  from control_request_reaches_worker [OF cons this] this show ?thesis by (simp add: t)
qed

lemma healthy_put_attempt_session [simp]: "healthy H (put_attempt_session i w s) = healthy H s"
  by (rule healthy_journal) simp

lemma recovery_ignores_capacity_witness:
  "\<exists>b t. recover_attempt unit_hashing plain_codec ''a'' safe_checkpoints ''n'' 0
      (put_attempt_session ''a'' (Some ''s'') (put_attempt stalled (new_store []))) = (Inr b, t) \<and>
     active_for_session ''s'' t = 2"
proof -
  let ?s = "put_attempt_session ''a'' (Some ''s'') (put_attempt stalled (new_store []))"
  have at: "st_attempts ?s = [(''a'', stalled)]" by (simp add: put_attempt_def)
  have se: "st_attempt_session ?s = [(''a'', ''s'')]" by (simp add: put_attempt_session_def put_attempt_def)
  let ?r = "(new_worker_attempt ''n'' (wa_worker_session_id stalled) (wa_child_task_id stalled)
      (wa_workspace stalled) 0)\<lparr>wa_resumed_from_attempt_id := Some ''a'', wa_checkpoint_id := Some ''cp'',
          wa_recovery_checkpoint_id := Some ''cp'', wa_checkpoint_safe_to_resume := True\<rparr>"
  have r: "wa_id ?r = ''n''" "wa_status ?r = WS_queued" by (simp_all add: new_worker_attempt_def)
  have "healthy unit_hashing ?s" by simp
  then obtain j where j: "commit unit_hashing (WorkerEvent WE_queued ?r (Some ''s'')) None ?s =
      (Inr (), ?s\<lparr>st_journal := j\<rparr>)" using healthy_commit by blast
  have enq: "\<exists>t. enqueue_attempt unit_hashing ?r (Some ''s'') ?s = (Inr ?r, t)"
    using j r by (simp add: enqueue_attempt_def at or_else_def andthen_def bind_def)
  have "\<exists>t. recover_attempt unit_hashing plain_codec ''a'' safe_checkpoints ''n'' 0 ?s = (Inr ?r, t)"
    using enq by (simp add: recover_attempt_def at se or_else_def load_safe_checkpoint session_of_def)
      (simp add: checkpoint_of_def)
  then obtain t where t: "recover_attempt unit_hashing plain_codec ''a'' safe_checkpoints ''n'' 0 ?s = (Inr ?r, t)" ..
  have ok: "attempts_ok ?s" by (simp add: attempts_ok_def at keyed_def)
  have "session_of ''a'' ?s = Some ''s''" by (simp add: session_of_def se)
  moreover have "active_for_session ''s'' ?s = 1"
    by (simp add: active_for_session_def active_in_def at se WORKER_ATTEMPT_TERMINAL_def)
  ultimately have "active_for_session ''s'' t = 2"
    using recovery_ignores_capacity [OF ok t] by (simp add: at)
  with t show ?thesis by blast
qed

end
