(* ===== verification/Evidence.thy ===== *)
theory Evidence
  imports StateMachine Ownership "HOL-Library.List_Lexorder" "HOL-Library.Char_ord"
begin

text \<open>
  \<^verbatim>\<open>evidence/gate.py\<close>, \<^verbatim>\<open>ownership/review.py\<close> and \<^verbatim>\<open>evidence/verifier.py\<close>: what counts as evidence
  for a task, an owner's review of its regions, and the verification of that review.

  Identifiers and the current time are arguments. \<^verbatim>\<open>key\<close> and \<^verbatim>\<open>payload\<close> are the \<open>idem\<close> argument.
\<close>

section \<open>The evidence gate\<close>

record evidence_gate_result =
  eg_passed :: bool
  eg_missing_required :: "string list"
  eg_failed_required :: "string list"
  eg_unobserved_required :: "string list"

text \<open>The three lists of one pass over the contract: missing, failed and unobserved items.\<close>

fun gate_lists ::
    "(string, evidence_record) dict \<Rightarrow> acceptance list \<Rightarrow> string list \<times> string list \<times> string list" where
  "gate_lists latest [] = ([], [], [])"
| "gate_lists latest (a # as) =
     (let (m, f, u) = gate_lists latest as in
      if \<not> ac_required a then (m, f, u)
      else case dget latest (ac_id a) of
             None \<Rightarrow> (ac_id a # m, f, u)
           | Some r \<Rightarrow>
               if ev_observation_status r = OS_unobserved then (m, f, ac_id a # u)
               else if ev_observation_status r = OS_observed_fail then (m, ac_id a # f, u)
               else if ev_observation_status r \<notin> {OS_observed_pass, OS_not_applicable}
               then (ac_id a # m, f, u)
               else (m, f, u))"

definition evaluate_gate :: "acceptance list \<Rightarrow> evidence_record list \<Rightarrow> evidence_gate_result" where
  "evaluate_gate contract evidence =
     (let (m, f, u) = gate_lists (latest_evidence evidence) contract in
      \<lparr>eg_passed = (m = [] \<and> f = [] \<and> u = []), eg_missing_required = m,
       eg_failed_required = f, eg_unobserved_required = u\<rparr>)"

section \<open>Self-reviews: ownership/review.py\<close>

definition wf_owner_self_review :: "owner_self_review \<Rightarrow> bool" where
  "wf_owner_self_review r \<longleftrightarrow>
     len_within 1 200 (or_id r) \<and> 1 \<le> or_version r \<and> len_within 1 200 (or_child_task_id r) \<and>
     len_within 1 200 (or_owner_agent_id r) \<and> or_review_regions r \<noteq> [] \<and> or_evidence_ids r \<noteq> [] \<and>
     len_within 1 4000 (or_summary r) \<and>
     (case or_rejection_reason r of None \<Rightarrow> True | Some t \<Rightarrow> length t \<le> 2000)"

definition review_before :: "owner_self_review \<Rightarrow> owner_self_review \<Rightarrow> bool" where
  "review_before x y \<longleftrightarrow>
     or_updated_at x < or_updated_at y \<or> or_updated_at x = or_updated_at y \<and> or_id x < or_id y"

definition latest_review :: "string \<Rightarrow> 'r view_scheme \<Rightarrow> owner_self_review option" where
  "latest_review child s =
     (case filter (\<lambda>r. or_child_task_id r = child) (dvalues (st_reviews s)) of
        [] \<Rightarrow> None
      | r # rs \<Rightarrow> Some (py_max review_before r rs))"

definition submit_review ::
    "event hashing \<Rightarrow> builtins \<Rightarrow> string \<Rightarrow> string \<Rightarrow> resource_region list \<Rightarrow> string list \<Rightarrow> string \<Rightarrow>
     int \<Rightarrow> idem \<Rightarrow> string \<Rightarrow> time \<Rightarrow> ('r app_store_scheme, owner_self_review) prog" where
  "submit_review H B child agent regions evidence_ids summary expected key new_id now =
     bind (get (\<lambda>s. dget (st_assignments s) child)) (\<lambda>found.
     case found of
       None \<Rightarrow> raise_exn (DomainError ''owner_not_assigned'' 409)
     | Some a \<Rightarrow>
       andthen (raise_when (oa_status a \<noteq> AS_active) (DomainError ''owner_not_assigned'' 409))
      (andthen (raise_when (oa_version a \<noteq> expected) (DomainError ''version_conflict'' 409))
      (andthen (raise_when (oa_owner_agent_id a \<noteq> agent) (DomainError ''owner_mismatch'' 409))
      (andthen (raise_when (regions = []) (DomainError ''unknown_write_region'' 409))
      (andthen (for_each regions (\<lambda>r. on_ownership (assert_write_allowed B child agent r)))
      (let ids = fromkeys evidence_ids in
       andthen (raise_when (ids = []) (DomainError ''evidence_required'' 409))
      (bind (get (latest_review child)) (\<lambda>current.
       andthen (raise_when (\<exists>c. current = Some c \<and> or_status c \<in> {RS_submitted, RS_accepted})
                  (DomainError ''review_conflict'' 409))
       (let r = \<lparr>or_id = new_id, or_version = 1, or_child_task_id = child, or_owner_agent_id = agent,
                 or_review_regions = regions, or_evidence_ids = ids, or_summary = summary,
                 or_status = RS_submitted, or_rejection_reason = None,
                 or_created_at = now, or_updated_at = now\<rparr>
        in andthen (lift (if wf_owner_self_review r then Inr () else Inl (ValueError ''invalid'')))
          (andthen (modify (put_review r))
          (andthen (commit H (ReviewEvent RS_submitted r) key) (ret r))))))))))))"

definition transition_review ::
    "event hashing \<Rightarrow> owner_self_review \<Rightarrow> review_status \<Rightarrow> string option \<Rightarrow> time \<Rightarrow>
     ('r store_scheme, owner_self_review) prog" where
  "transition_review H r status reason now =
     andthen (raise_when (or_status r \<noteq> RS_submitted) (DomainError ''invalid_transition'' 409))
    (andthen (raise_when (status \<notin> {RS_accepted, RS_rejected}) (DomainError ''invalid_transition'' 409))
    (andthen (raise_when (status = RS_rejected \<and> (reason = None \<or> reason = Some []))
                (DomainError ''rejection_reason_required'' 409))
      (let r' = r\<lparr>or_status := status, or_version := or_version r + 1,
                  or_rejection_reason := reason, or_updated_at := now\<rparr>
       in andthen (modify (put_review r')) (andthen (commit H (ReviewEvent status r') None) (ret r')))))"

section \<open>The verifier: evidence/verifier.py\<close>

definition wf_verification_record :: "verification_record \<Rightarrow> bool" where
  "wf_verification_record v \<longleftrightarrow>
     len_within 1 200 (vr_id v) \<and> 1 \<le> vr_version v \<and> len_within 1 200 (vr_child_task_id v) \<and>
     len_within 1 200 (vr_review_id v) \<and> len_within 1 200 (vr_verifier_agent_id v) \<and>
     vr_evidence_ids v \<noteq> [] \<and> vr_checked_regions v \<noteq> []"

text \<open>The verifier's own copy of the containment test.\<close>

definition verifier_covers :: "builtins \<Rightarrow> resource_region \<Rightarrow> resource_region \<Rightarrow> bool" where
  "verifier_covers B allowed requested =
     (if (rr_resource_kind allowed, rr_resource_id allowed, rr_base_revision allowed) \<noteq>
         (rr_resource_kind requested, rr_resource_id requested, rr_base_revision requested)
      then False
      else if rr_selector_type allowed = ST_whole_resource then True
      else if rr_selector_type allowed = rr_selector_type requested \<and>
              rr_selector_type requested = ST_path_prefix
      then let p = rstrip_slash (py_str B (rr_selector_value allowed));
               q = rstrip_slash (py_str B (rr_selector_value requested))
           in q = p \<or> startswith q (p @ ''/'')
      else rr_selector_type allowed = rr_selector_type requested \<and>
           py_eq (rr_selector_value allowed) (rr_selector_value requested))"

definition evidence_for_child ::
    "string \<Rightarrow> string list \<Rightarrow> 'r view_scheme \<Rightarrow> evidence_record list" where
  "evidence_for_child child ids s =
     (case List.find (\<lambda>t. child \<in> set (pt_child_task_ids t)) (dvalues (st_tasks s)) of
        None \<Rightarrow> []
      | Some t \<Rightarrow>
          let by_id = fold (\<lambda>r. dput (ev_id r) r) (pt_evidence t) []
          in filter (\<lambda>r. ev_child_task_id r = Some child) (List.map_filter (dget by_id) ids))"

definition verification_reasons ::
    "builtins \<Rightarrow> owner_self_review \<Rightarrow> string list \<Rightarrow> evidence_record list \<Rightarrow> string list" where
  "verification_reasons B r ids records =
     (if or_status r \<noteq> RS_submitted then [''review_not_submitted''] else []) @
     (if records = [] then [''evidence_missing''] else []) @
     (if length records \<noteq> length ids then [''evidence_reference_missing''] else []) @
     (if list_ex (\<lambda>e. ev_observation_status e \<noteq> OS_observed_pass) records
      then [''evidence_not_observed_pass''] else []) @
     (if list_ex (\<lambda>e. ev_region e = None) records then [''evidence_region_missing''] else []) @
     (if list_ex (\<lambda>e. case ev_region e of None \<Rightarrow> False
                    | Some x \<Rightarrow> \<not> list_ex (\<lambda>a. verifier_covers B a x) (or_review_regions r)) records
      then [''evidence_region_out_of_scope''] else [])"

definition verification_of ::
    "builtins \<Rightarrow> owner_self_review \<Rightarrow> string \<Rightarrow> string \<Rightarrow> string list \<Rightarrow> evidence_record list \<Rightarrow> string \<Rightarrow>
     time \<Rightarrow> verification_record" where
  "verification_of B r child verifier ids records new_id now =
     (let reasons = verification_reasons B r ids records in
      \<lparr>vr_id = new_id, vr_version = 1, vr_child_task_id = child, vr_review_id = or_id r,
       vr_verifier_agent_id = verifier, vr_evidence_ids = ids,
       vr_status = (if reasons = [] then VS_passed else VS_blocked),
       vr_reasons = fromkeys reasons, vr_checked_regions = or_review_regions r,
       vr_created_at = now, vr_updated_at = now\<rparr>)"

definition record_verification ::
    "event hashing \<Rightarrow> owner_self_review \<Rightarrow> verification_record \<Rightarrow> idem \<Rightarrow> time \<Rightarrow>
     ('r store_scheme, verification_record) prog" where
  "record_verification H r v key now =
     andthen (lift (if wf_verification_record v then Inr () else Inl (ValueError ''invalid'')))
    (andthen (modify (put_verification v))
    (andthen (commit H (VerificationRecorded v) key)
    (if vr_status v = VS_passed
     then andthen (transition_review H r RS_accepted None now) (ret v)
     else ret v)))"

definition verify_review ::
    "event hashing \<Rightarrow> builtins \<Rightarrow> string \<Rightarrow> string \<Rightarrow> string \<Rightarrow> string list \<Rightarrow> int \<Rightarrow> idem \<Rightarrow> string \<Rightarrow>
     time \<Rightarrow> ('r app_store_scheme, verification_record) prog" where
  "verify_review H B child review_id verifier evidence_ids expected key new_id now =
     bind (get (\<lambda>s. dget (st_reviews s) review_id)) (\<lambda>found.
     case found of
       None \<Rightarrow> raise_exn (DomainError ''not_found'' 404)
     | Some r \<Rightarrow>
       andthen (raise_when (or_child_task_id r \<noteq> child) (DomainError ''not_found'' 404))
      (andthen (raise_when (or_version r \<noteq> expected) (DomainError ''version_conflict'' 409))
      (bind (get (\<lambda>s. dget (st_assignments s) child)) (\<lambda>owner.
       case owner of
         None \<Rightarrow> raise_exn (DomainError ''owner_not_assigned'' 409)
       | Some a \<Rightarrow>
         andthen (raise_when (oa_status a \<noteq> AS_active) (DomainError ''owner_not_assigned'' 409))
        (andthen (raise_when (oa_owner_agent_id a \<noteq> verifier \<or> or_owner_agent_id r \<noteq> verifier)
                    (DomainError ''owner_mismatch'' 409))
        (andthen (for_each (or_review_regions r)
                    (\<lambda>x. on_ownership (assert_write_allowed B child verifier x)))
        (let ids = (if fromkeys evidence_ids = [] then or_evidence_ids r else fromkeys evidence_ids) in
         bind (get (evidence_for_child child ids)) (\<lambda>records.
         record_verification H r (verification_of B r child verifier ids records new_id now) key now))))))))"

section \<open>Lemmas on the gate\<close>

lemma gate_lists_filters:
  "gate_lists latest as =
    (map ac_id (filter (\<lambda>a. ac_required a \<and> dget latest (ac_id a) = None) as),
     map ac_id (filter (\<lambda>a. ac_required a \<and>
       (\<exists>r. dget latest (ac_id a) = Some r \<and> ev_observation_status r = OS_observed_fail)) as),
     map ac_id (filter (\<lambda>a. ac_required a \<and>
       (\<exists>r. dget latest (ac_id a) = Some r \<and> ev_observation_status r = OS_unobserved)) as))"
proof (induction "as")
  case (Cons a as)
  show ?case
  proof (cases "dget latest (ac_id a)")
    case None
    with Cons show ?thesis by simp
  next
    case (Some r)
    with Cons show ?thesis by (cases "ev_observation_status r") simp_all
  qed
qed simp

section \<open>Lemmas on the verifier\<close>

lemma verifier_covers_eq: "verifier_covers B a r = covers B a r"
  by (simp add: verifier_covers_def covers_def under_def Let_def)

lemma by_id_Some:
  "dget (fold (\<lambda>r. dput (ev_id r) r) rs d) i = Some r \<Longrightarrow>
     (r \<in> set rs \<and> ev_id r = i) \<or> dget d i = Some r"
  by (induction rs arbitrary: d) (fastforce split: if_splits)+

lemma filter_map_filter_all:
  assumes "length (filter p (List.map_filter f xs)) = length xs" and "x \<in> set xs"
  shows "\<exists>y. f x = Some y \<and> p y \<and> y \<in> set (filter p (List.map_filter f xs))"
  using assms
proof (induction xs)
  case (Cons z zs)
  have le: "length (filter p (List.map_filter f zs)) \<le> length zs" for zs
    by (induction zs) (auto simp: List.map_filter_simps split: option.split)
  from Cons.prems(1) le [of zs] obtain y where y: "f z = Some y" "p y"
    and rest: "length (filter p (List.map_filter f zs)) = length zs"
    by (auto simp: List.map_filter_simps split: option.splits if_splits)
  with Cons.IH [OF rest] Cons.prems(2) show ?case by (auto simp: List.map_filter_simps)
qed simp

lemma evidence_for_child_all:
  assumes "length (evidence_for_child child ids s) = length ids" and "i \<in> set ids"
  shows "\<exists>t e. t \<in> set (dvalues (st_tasks s)) \<and> child \<in> set (pt_child_task_ids t) \<and>
    e \<in> set (pt_evidence t) \<and> ev_id e = i \<and> ev_child_task_id e = Some child \<and>
    e \<in> set (evidence_for_child child ids s)"
proof -
  from assms have "ids \<noteq> []" by auto
  with assms(1) obtain t where t: "List.find (\<lambda>t. child \<in> set (pt_child_task_ids t)) (dvalues (st_tasks s)) = Some t"
    by (auto simp: evidence_for_child_def split: option.splits)
  let ?by_id = "fold (\<lambda>r. dput (ev_id r) r) (pt_evidence t) []"
  have recs: "evidence_for_child child ids s =
      filter (\<lambda>r. ev_child_task_id r = Some child) (List.map_filter (dget ?by_id) ids)"
    by (simp add: evidence_for_child_def t)
  from filter_map_filter_all [of "\<lambda>r. ev_child_task_id r = Some child" "dget ?by_id" ids i] assms recs
  obtain e where "dget ?by_id i = Some e" "ev_child_task_id e = Some child"
    "e \<in> set (evidence_for_child child ids s)" by auto
  moreover from this(1) have "e \<in> set (pt_evidence t) \<and> ev_id e = i" using by_id_Some [of _ "[]" i e] by simp
  moreover have "t \<in> set (dvalues (st_tasks s)) \<and> child \<in> set (pt_child_task_ids t)"
    using t by (auto simp: find_Some_iff)
  ultimately show ?thesis by blast
qed

lemma write_checks:
  assumes "for_each rs (\<lambda>r. on_ownership (assert_write_allowed B c w r)) s = (Inr (), t)"
  shows "t = s \<and> (rs \<noteq> [] \<longrightarrow> (\<exists>a. active_assignment (as_ownership s) c = Some a \<and> oa_owner_agent_id a = w \<and>
    (\<forall>r \<in> set rs. covered_by B (oa_write_regions a) r)))"
  using assms
proof (induction rs arbitrary: s)
  case (Cons r rs)
  from Cons.prems obtain u where u: "on_ownership (assert_write_allowed B c w r) s = (Inr (), u)"
    and rest: "for_each rs (\<lambda>r. on_ownership (assert_write_allowed B c w r)) u = (Inr (), t)"
    by (auto simp: prog_simps)
  from u obtain a where "u = s" "active_assignment (as_ownership s) c = Some a"
    "oa_owner_agent_id a = w" "covered_by B (oa_write_regions a) r"
    by (auto simp: on_ownership_def assert_write_allowed_def require_boundary_def
        require_active_assignment_def andthen_def bind_def split: prod.splits sum.splits option.splits
        if_splits)
  with Cons.IH [OF rest [unfolded this(1)]] show ?case by auto
qed simp

lemma verification_reasons_none:
  "verification_reasons B r ids records = [] \<longleftrightarrow>
     or_status r = RS_submitted \<and> records \<noteq> [] \<and> length records = length ids \<and>
     (\<forall>e \<in> set records. ev_observation_status e = OS_observed_pass \<and>
        (\<exists>x. ev_region e = Some x \<and> covered_by B (or_review_regions r) x))"
  by (fastforce simp: verification_reasons_def list_ex_iff verifier_covers_eq covered_by_def
      split: option.splits if_splits)

lemma verification_of_select [simp]:
  "vr_status (verification_of B r child w ids records n now) =
     (if verification_reasons B r ids records = [] then VS_passed else VS_blocked)"
  "vr_evidence_ids (verification_of B r child w ids records n now) = ids"
  "vr_checked_regions (verification_of B r child w ids records n now) = or_review_regions r"
  "vr_child_task_id (verification_of B r child w ids records n now) = child"
  "vr_review_id (verification_of B r child w ids records n now) = or_id r"
  by (simp_all add: verification_of_def Let_def)

lemma record_verification_Inr:
  assumes "record_verification H r v key now s = (Inr v', t)"
  obtains u where "v' = v" and "wf_verification_record v"
    and "commit H (VerificationRecorded v) key (put_verification v s) = (Inr (), u)"
    and "if vr_status v = VS_passed then \<exists>r'. transition_review H r RS_accepted None now u = (Inr r', t)
         else t = u"
  using assms by (auto simp: record_verification_def prog_simps split: if_splits)

lemma verify_review_Inr:
  assumes "verify_review H B child review_id verifier evidence_ids expected key n now s = (Inr v, t)"
  obtains r a ids where "dget (st_reviews s) review_id = Some r" and "or_child_task_id r = child"
    and "dget (st_assignments s) child = Some a" and "oa_status a = AS_active"
    and "oa_owner_agent_id a = verifier" and "or_owner_agent_id r = verifier"
    and "for_each (or_review_regions r) (\<lambda>x. on_ownership (assert_write_allowed B child verifier x)) s = (Inr (), s)"
    and "record_verification H r (verification_of B r child verifier ids (evidence_for_child child ids s) n now)
           key now s = (Inr v, t)"
proof -
  from assms obtain r a where r: "dget (st_reviews s) review_id = Some r" "or_child_task_id r = child"
    and a: "dget (st_assignments s) child = Some a" "oa_status a = AS_active"
      "oa_owner_agent_id a = verifier" "or_owner_agent_id r = verifier" "or_version r = expected"
    by (auto simp: verify_review_def split: option.splits if_splits)
  let ?ids = "if fromkeys evidence_ids = [] then or_evidence_ids r else fromkeys evidence_ids"
  from assms r a obtain w where
    w: "for_each (or_review_regions r) (\<lambda>x. on_ownership (assert_write_allowed B child verifier x)) s = (Inr (), w)"
    and run: "record_verification H r (verification_of B r child verifier ?ids (evidence_for_child child ?ids w) n now)
       key now w = (Inr v, t)"
    by (simp add: verify_review_def andthen_eq_Inr Let_def del: fromkeys_Nil_iff) blast
  have "w = s" using write_checks [OF w] by simp
  with r a w run show ?thesis by (intro that [of r a ?ids]) simp_all
qed

lemma transition_review_Inr:
  assumes "transition_review H r status reason now s = (Inr r', t)"
  obtains "or_status r = RS_submitted" and "status \<in> {RS_accepted, RS_rejected}"
    and "r' = r\<lparr>or_status := status, or_version := or_version r + 1, or_rejection_reason := reason,
                or_updated_at := now\<rparr>"
    and "commit H (ReviewEvent status r') None (put_review r' s) = (Inr (), t)"
  using assms by (auto simp: transition_review_def prog_simps Let_def split: if_splits)

lemma transition_review_consistent:
  assumes "consistent H s" and "transition_review H r status reason now s = (Inr r', t)"
  shows "consistent H t"
  using assms(2)
proof (rule transition_review_Inr)
  assume c: "commit H (ReviewEvent status r') None (put_review r' s) = (Inr (), t)"
  show ?thesis by (rule consistent_update_commit [OF assms(1) _ c]) simp
qed

lemma record_verification_consistent:
  assumes "consistent H s" and "record_verification H r v key now s = (Inr v', t)"
  shows "consistent H t"
  using assms(2)
proof (rule record_verification_Inr)
  fix u assume c: "commit H (VerificationRecorded v) key (put_verification v s) = (Inr (), u)"
    and fin: "if vr_status v = VS_passed then \<exists>r'. transition_review H r RS_accepted None now u = (Inr r', t)
         else t = u"
  have "consistent H u" by (rule consistent_update_commit [OF assms(1) _ c]) simp
  with fin show ?thesis by (auto intro: transition_review_consistent split: if_splits)
qed

section \<open>What the evidence rules guarantee\<close>

text \<open>
  The evidence gate and the state machine agree: the gate passes exactly when the latest
  observations satisfy the required acceptance items as the completion guard of the state
  machine asks, and otherwise it lists, in the order of the contract, the required items
  without an observation, with a failed one and with one that was not observed.
\<close>

theorem gate_decides:
  "(eg_passed (evaluate_gate (pt_acceptance_contract t) (pt_evidence t)) \<longleftrightarrow>
      required_acceptance_is_satisfied t) \<and>
   eg_missing_required (evaluate_gate (pt_acceptance_contract t) (pt_evidence t)) =
     map ac_id (filter (\<lambda>a. ac_required a \<and> dget (latest_evidence (pt_evidence t)) (ac_id a) = None)
       (pt_acceptance_contract t)) \<and>
   eg_failed_required (evaluate_gate (pt_acceptance_contract t) (pt_evidence t)) =
     map ac_id (filter (\<lambda>a. ac_required a \<and> (\<exists>r. dget (latest_evidence (pt_evidence t)) (ac_id a) = Some r \<and>
       ev_observation_status r = OS_observed_fail)) (pt_acceptance_contract t)) \<and>
   eg_unobserved_required (evaluate_gate (pt_acceptance_contract t) (pt_evidence t)) =
     map ac_id (filter (\<lambda>a. ac_required a \<and> (\<exists>r. dget (latest_evidence (pt_evidence t)) (ac_id a) = Some r \<and>
       ev_observation_status r = OS_unobserved)) (pt_acceptance_contract t))"
proof -
  have "required_acceptance_is_satisfied t \<longleftrightarrow>
      (\<forall>a \<in> set (pt_acceptance_contract t). ac_required a \<longrightarrow>
        (\<exists>r. dget (latest_evidence (pt_evidence t)) (ac_id a) = Some r \<and>
             ev_observation_status r \<noteq> OS_observed_fail \<and> ev_observation_status r \<noteq> OS_unobserved))"
    unfolding required_acceptance_is_satisfied_def Let_def list_all_iff
    by (rule ball_cong [OF refl]) (auto split: option.split intro: observation_status.exhaust
        dest: observation_status.exhaust [THEN iffD1, rotated])
  then show ?thesis
    by (auto simp: evaluate_gate_def gate_lists_filters filter_empty_conv)
qed

text \<open>
  Only observed, scoped evidence passes verification: when the verifier records a pass, the
  review was submitted, verifier, reviewer and active owner are the same agent, every evidence
  reference names a record of the task that was observed to pass, belongs to the child task and
  lies in a reviewed region, every reviewed region lies in the owner's regions, and the review
  is accepted; otherwise the verification is blocked and the review stays. Both survive a restart.
\<close>

theorem passed_verification_is_observed:
  assumes "verify_review H B child review_id verifier evidence_ids expected key n now s = (Inr v, t)"
    and "consistent H s"
  shows "(vr_status v = VS_passed \<longrightarrow>
      (\<exists>r a. dget (st_reviews s) review_id = Some r \<and> or_status r = RS_submitted \<and>
        or_child_task_id r = child \<and> or_owner_agent_id r = verifier \<and>
        active_assignment (as_ownership s) child = Some a \<and> oa_owner_agent_id a = verifier \<and>
        (\<forall>x \<in> set (or_review_regions r). covered_by B (oa_write_regions a) x) \<and>
        vr_evidence_ids v \<noteq> [] \<and>
        (\<forall>i \<in> set (vr_evidence_ids v). \<exists>task e x. task \<in> set (dvalues (st_tasks s)) \<and>
           child \<in> set (pt_child_task_ids task) \<and> e \<in> set (pt_evidence task) \<and> ev_id e = i \<and>
           ev_child_task_id e = Some child \<and> ev_observation_status e = OS_observed_pass \<and>
           ev_region e = Some x \<and> covered_by B (or_review_regions r) x) \<and>
        (\<exists>r'. dget (st_reviews t) (or_id r) = Some r' \<and> or_status r' = RS_accepted))) \<and>
    (vr_status v \<noteq> VS_passed \<longrightarrow> vr_status v = VS_blocked \<and> st_reviews t = st_reviews s) \<and>
    (\<exists>u. restart H m f io t = Inr u \<and> recorded u = recorded t)"
proof -
  from assms(1) obtain r a ids where r: "dget (st_reviews s) review_id = Some r" "or_child_task_id r = child"
    "or_owner_agent_id r = verifier"
    and checks: "for_each (or_review_regions r) (\<lambda>x. on_ownership (assert_write_allowed B child verifier x)) s = (Inr (), s)"
    and run: "record_verification H r (verification_of B r child verifier ids (evidence_for_child child ids s) n now)
           key now s = (Inr v, t)" by (rule verify_review_Inr)
  from run obtain u where v: "v = verification_of B r child verifier ids (evidence_for_child child ids s) n now"
    and wf: "wf_verification_record v"
    and c: "commit H (VerificationRecorded v) key (put_verification v s) = (Inr (), u)"
    and fin: "if vr_status v = VS_passed then \<exists>r'. transition_review H r RS_accepted None now u = (Inr r', t)
         else t = u" by (rule record_verification_Inr) simp
  have ids: "vr_evidence_ids v = ids" by (simp add: v)
  have cons: "consistent H t" using record_verification_consistent [OF assms(2) run] .
  have "\<exists>u. restart H m f io t = Inr u \<and> recorded u = recorded t" using restart_same [OF cons] by blast
  moreover have "st_reviews t = st_reviews s" and "vr_status v = VS_blocked" if "vr_status v \<noteq> VS_passed"
    using that fin commit_view [OF c] by (auto simp: v put_verification_def)
  moreover have "(\<exists>r a. dget (st_reviews s) review_id = Some r \<and> or_status r = RS_submitted \<and>
        or_child_task_id r = child \<and> or_owner_agent_id r = verifier \<and>
        active_assignment (as_ownership s) child = Some a \<and> oa_owner_agent_id a = verifier \<and>
        (\<forall>x \<in> set (or_review_regions r). covered_by B (oa_write_regions a) x) \<and>
        vr_evidence_ids v \<noteq> [] \<and>
        (\<forall>i \<in> set (vr_evidence_ids v). \<exists>task e x. task \<in> set (dvalues (st_tasks s)) \<and>
           child \<in> set (pt_child_task_ids task) \<and> e \<in> set (pt_evidence task) \<and> ev_id e = i \<and>
           ev_child_task_id e = Some child \<and> ev_observation_status e = OS_observed_pass \<and>
           ev_region e = Some x \<and> covered_by B (or_review_regions r) x) \<and>
        (\<exists>r'. dget (st_reviews t) (or_id r) = Some r' \<and> or_status r' = RS_accepted))"
    if pass: "vr_status v = VS_passed"
  proof -
    from pass have "verification_reasons B r ids (evidence_for_child child ids s) = []"
      by (simp add: v split: if_splits)
    then have sub: "or_status r = RS_submitted" and len: "length (evidence_for_child child ids s) = length ids"
      and obs: "\<And>e. e \<in> set (evidence_for_child child ids s) \<Longrightarrow>
        ev_observation_status e = OS_observed_pass \<and>
        (\<exists>x. ev_region e = Some x \<and> covered_by B (or_review_regions r) x)"
      by (simp_all add: verification_reasons_none)
    have ne: "ids \<noteq> []" and reg: "or_review_regions r \<noteq> []"
      using wf by (simp_all add: wf_verification_record_def v)
    have evid: "\<exists>task e x. task \<in> set (dvalues (st_tasks s)) \<and>
           child \<in> set (pt_child_task_ids task) \<and> e \<in> set (pt_evidence task) \<and> ev_id e = i \<and>
           ev_child_task_id e = Some child \<and> ev_observation_status e = OS_observed_pass \<and>
           ev_region e = Some x \<and> covered_by B (or_review_regions r) x" if "i \<in> set ids" for i
      using evidence_for_child_all [OF len that] obs by blast
    obtain o' where o': "active_assignment (as_ownership s) child = Some o'" "oa_owner_agent_id o' = verifier"
      "\<forall>x \<in> set (or_review_regions r). covered_by B (oa_write_regions o') x"
      using write_checks [OF checks] reg by blast
    from fin pass obtain r' where "transition_review H r RS_accepted None now u = (Inr r', t)" by auto
    then have "dget (st_reviews t) (or_id r) = Some r' \<and> or_status r' = RS_accepted"
    proof (rule transition_review_Inr)
      assume r': "r' = r\<lparr>or_status := RS_accepted, or_version := or_version r + 1, or_rejection_reason := None,
                or_updated_at := now\<rparr>"
        and c': "commit H (ReviewEvent RS_accepted r') None (put_review r' u) = (Inr (), t)"
      from commit_view [OF c'] obtain j where "t = (put_review r' u)\<lparr>st_journal := j\<rparr>" by blast
      then show ?thesis by (simp add: put_review_def r')
    qed
    with r sub o' ne evid ids show ?thesis by blast
  qed
  ultimately show ?thesis by blast
qed


text \<open>A store with a task, its owner and a submitted review, built on a working disk.\<close>

definition seen :: evidence_record where
  "seen = \<lparr>ev_id = ''e'', ev_requirement_id = ''a'', ev_evidence_type = ET_test,
     ev_observation_status = OS_observed_pass, ev_source = ''ci'', ev_artifact_ref = None,
     ev_child_task_id = Some ''c'', ev_region = Some (hd (cb_write_regions (file_boundary ''c'' ''f''))),
     ev_recorded_at = 1\<rparr>"

definition reviewed_task :: parent_task where
  "reviewed_task = running_task\<lparr>pt_child_task_ids := [''c''], pt_evidence := [seen]\<rparr>"

definition owner_w :: owner_assignment where
  "owner_w = \<lparr>oa_child_task_id = ''c'', oa_owner_agent_id = ''w'',
     oa_write_regions = cb_write_regions (file_boundary ''c'' ''f''), oa_version = 1,
     oa_status = AS_active, oa_assigned_at = 0, oa_released_at = None\<rparr>"

definition review_w :: owner_self_review where
  "review_w = \<lparr>or_id = ''r'', or_version = 1, or_child_task_id = ''c'', or_owner_agent_id = ''w'',
     or_review_regions = cb_write_regions (file_boundary ''c'' ''f''), or_evidence_ids = [''e''],
     or_summary = ''s'', or_status = RS_submitted, or_rejection_reason = None, or_created_at = 0,
     or_updated_at = 0\<rparr>"

lemma review_store:
  "\<exists>s :: app_store. healthy unit_hashing s \<and> consistent unit_hashing s \<and>
     st_tasks s = [(''t'', reviewed_task)] \<and> st_assignments s = [(''c'', owner_w)] \<and>
     st_reviews s = [(''r'', review_w)] \<and>
     as_ownership s = \<lparr>ob_boundaries = [(''c'', file_boundary ''c'' ''f'')], ob_assignments = [(''c'', owner_w)]\<rparr>"
proof -
  let ?H = "unit_hashing :: event hashing"
  let ?s0 = "new_app_store\<lparr>as_ownership := \<lparr>ob_boundaries = [(''c'', file_boundary ''c'' ''f'')],
    ob_assignments = [(''c'', owner_w)]\<rparr>\<rparr>"
  have h0: "healthy ?H ?s0" using healthy_new_store by (simp add: healthy_def)
  have c0: "consistent ?H ?s0"
    using own_consistent_new [of ?H]
    by (simp add: own_consistent_def consistent_def sound_store_def event_log_def recorded_def view.defs)
  have e0: "st_tasks ?s0 = []" "st_reviews ?s0 = []"
    by (simp_all add: new_app_store_def store.defs)
  obtain j1 where s1: "consistent ?H ((put_task reviewed_task ?s0)\<lparr>st_journal := j1\<rparr>)"
    "healthy ?H ((put_task reviewed_task ?s0)\<lparr>st_journal := j1\<rparr>)" (is "healthy ?H ?s1")
    using extend_store [OF h0 c0, of "TaskCreated reviewed_task"] by auto
  obtain j2 where s2: "consistent ?H ((put_assignment owner_w ?s1)\<lparr>st_journal := j2\<rparr>)"
    "healthy ?H ((put_assignment owner_w ?s1)\<lparr>st_journal := j2\<rparr>)" (is "healthy ?H ?s2")
    using extend_store [OF s1(2,1), of "OwnerEvent OE_assigned owner_w"] by auto
  obtain j3 where s3: "consistent ?H ((put_review review_w ?s2)\<lparr>st_journal := j3\<rparr>)"
    "healthy ?H ((put_review review_w ?s2)\<lparr>st_journal := j3\<rparr>)" (is "healthy ?H ?s3")
    using extend_store [OF s2(2,1), of "ReviewEvent RS_submitted review_w"] by auto
  have "st_tasks ?s3 = [(''t'', reviewed_task)]" "st_assignments ?s3 = [(''c'', owner_w)]"
    "st_reviews ?s3 = [(''r'', review_w)]"
    "as_ownership ?s3 = \<lparr>ob_boundaries = [(''c'', file_boundary ''c'' ''f'')], ob_assignments = [(''c'', owner_w)]\<rparr>"
    using e0 by (simp_all add: put_task_def put_assignment_def put_review_def reviewed_task_def
        running_task_def owner_w_def review_w_def)
  with s3 show ?thesis by blast
qed

lemma passed_verification_is_observed_witness:
  "\<exists>(s :: app_store) v t. verify_review unit_hashing plain_builtins ''c'' ''r'' ''w'' [] 1 None ''v'' 5 s = (Inr v, t) \<and>
     vr_status v = VS_passed \<and> (\<exists>r'. dget (st_reviews t) ''r'' = Some r' \<and> or_status r' = RS_accepted)"
proof -
  let ?H = "unit_hashing :: event hashing"
  obtain s :: app_store where h: "healthy ?H s" and c: "consistent ?H s"
    and s: "st_tasks s = [(''t'', reviewed_task)]" "st_assignments s = [(''c'', owner_w)]"
      "st_reviews s = [(''r'', review_w)]"
      "as_ownership s = \<lparr>ob_boundaries = [(''c'', file_boundary ''c'' ''f'')], ob_assignments = [(''c'', owner_w)]\<rparr>"
    using review_store by blast
  have recs: "evidence_for_child ''c'' [''e''] s = [seen]"
    by (simp add: evidence_for_child_def s reviewed_task_def seen_def List.map_filter_simps)
  have reasons: "verification_reasons plain_builtins review_w [''e''] [seen] = []"
    by (simp add: verification_reasons_none seen_def review_w_def covered_by_def file_boundary_def covers_def)
  let ?v = "verification_of plain_builtins review_w ''c'' ''w'' [''e''] [seen] ''v'' 5"
  have wf: "wf_verification_record ?v"
    by (simp add: wf_verification_record_def verification_of_def Let_def review_w_def file_boundary_def len_within_def)
  have "healthy ?H (put_verification ?v s)" using h by (simp add: healthy_def)
  then obtain j where j: "commit ?H (VerificationRecorded ?v) None (put_verification ?v s) =
      (Inr (), (put_verification ?v s)\<lparr>st_journal := j\<rparr>)" (is "_ = (Inr (), ?u)")
    and hu: "healthy ?H ((put_verification ?v s)\<lparr>st_journal := j\<rparr>)" using healthy_commit by blast
  let ?r = "review_w\<lparr>or_status := RS_accepted, or_version := or_version review_w + 1,
    or_rejection_reason := None, or_updated_at := 5\<rparr>"
  have "healthy ?H (put_review ?r ?u)" using hu by (simp add: healthy_def)
  then obtain k where k: "commit ?H (ReviewEvent RS_accepted ?r) None (put_review ?r ?u) =
      (Inr (), (put_review ?r ?u)\<lparr>st_journal := k\<rparr>)" using healthy_commit by blast
  have "record_verification ?H review_w ?v None 5 s = (Inr ?v, (put_review ?r ?u)\<lparr>st_journal := k\<rparr>)"
    using wf j k reasons
    by (simp add: record_verification_def transition_review_def andthen_def bind_def Let_def review_w_def)
  moreover have "for_each (or_review_regions review_w)
      (\<lambda>x. on_ownership (assert_write_allowed plain_builtins ''c'' ''w'' x)) s = (Inr (), s)"
    by (simp add: review_w_def file_boundary_def on_ownership_def assert_write_allowed_def require_boundary_def
        require_active_assignment_def active_assignment_def s owner_w_def covered_by_def covers_def
        andthen_def bind_def)
  ultimately have run: "verify_review ?H plain_builtins ''c'' ''r'' ''w'' [] 1 None ''v'' 5 s =
      (Inr ?v, (put_review ?r ?u)\<lparr>st_journal := k\<rparr>)"
    using recs by (simp add: verify_review_def s andthen_def bind_def Let_def)
      (simp add: review_w_def owner_w_def)
  have pass: "vr_status ?v = VS_passed" using reasons by simp
  then obtain r r' where "dget (st_reviews s) ''r'' = Some r"
    and r': "dget (st_reviews ((put_review ?r ?u)\<lparr>st_journal := k\<rparr>)) (or_id r) = Some r'"
      "or_status r' = RS_accepted"
    using passed_verification_is_observed [OF run c] by blast
  then have id: "or_id r = ''r''" by (auto simp: s review_w_def)
  have "\<exists>r'. dget (st_reviews ((put_review ?r ?u)\<lparr>st_journal := k\<rparr>)) ''r'' = Some r' \<and>
      or_status r' = RS_accepted"
    using r' unfolding id by blast
  with run pass show ?thesis
    by - (rule exI [of _ s], rule exI [of _ ?v], rule exI [of _ "(put_review ?r ?u)\<lparr>st_journal := k\<rparr>"],
        intro conjI)
qed

end
