(* ===== verification/Workspaces.thy ===== *)
theory Workspaces
  imports Artifacts Regions "HOL-Library.List_Lexorder" "HOL-Library.Char_ord"
begin

text \<open>
  \<^verbatim>\<open>workspaces/local.py\<close>: snapshots of the canonical directory, change sets and their integration;
  \<^verbatim>\<open>ownership/resolver.py\<close>: the mapping of changed paths and observations to leased regions.

  A directory is a \<open>tree\<close>: the bytes of each file by its path components, and the directories.
  Copying a tree and renaming a directory are single steps of the operating system; the digests
  are parameters. A canonical directory that is the root of a git checkout has the revision git
  reports (\<open>head\<close>) instead of the digest of its files.
\<close>

section \<open>Paths\<close>

fun join_slash :: "string list \<Rightarrow> string" where
  "join_slash [] = []"
| "join_slash [p] = p"
| "join_slash (p # ps) = p @ ''/'' @ join_slash ps"

text \<open>\<^verbatim>\<open>_normal_path\<close>; an absolute path starts with a slash.\<close>

definition normal_path :: "string \<Rightarrow> string res" where
  "normal_path value =
     (let text = map (\<lambda>c. if c = CHR 0x5C then CHR ''/'' else c) value;
          parts = path_parts text
      in if text \<noteq> [] \<and> hd text = CHR ''/'' \<or> ''..'' \<in> set parts
         then Inl (ValueError ''workspace paths must be relative'')
         else if parts = [] then Inl (ValueError ''workspace path must name a file or directory'')
         else Inr (join_slash parts))"

section \<open>Trees and snapshots\<close>

record tree =
  tr_files :: "(string list, string) dict"
  tr_dirs :: "string list set"
  tr_escaped :: "(string \<times> string option) list"

text \<open>
  \<open>tr_escaped\<close> logs the writes and deletions through a path with a parent component or an absolute
  one: where they land is for the operating system to say.
\<close>

record hashes =
  ha_hex :: "string \<Rightarrow> string"
  ha_raw :: "string \<Rightarrow> string"
  ha_utf8 :: "string \<Rightarrow> string"

record workspace_snapshot =
  sn_revision :: string
  sn_files :: "(string, string) dict"

record file_change =
  fc_path :: string
  fc_before_hash :: "string option"
  fc_after_hash :: "string option"
  fc_diff :: string
  fc_after_content :: "string option"

record changeset =
  ch_owner_id :: string
  ch_base_revision :: string
  ch_files :: "file_change list"

fun files_of :: "(string list \<times> string) list \<Rightarrow> (string, string) dict \<Rightarrow> (string, string) dict res" where
  "files_of [] d = Inr d"
| "files_of ((p, c) # fs) d =
     (case normal_path (join_slash p) of Inl e \<Rightarrow> Inl e | Inr q \<Rightarrow> files_of fs (dput q c d))"

definition revision_of :: "hashes \<Rightarrow> (string, string) dict \<Rightarrow> string" where
  "revision_of W d =
     ha_hex W (concat (map (\<lambda>p. ha_utf8 W p @ [CHR 0x00] @ ha_raw W (the (dget d p)) @ [CHR 0x00])
                        (sort (dkeys d))))"

definition take_snapshot_of :: "hashes \<Rightarrow> string option \<Rightarrow> tree \<Rightarrow> workspace_snapshot res" where
  "take_snapshot_of W head t =
     (case files_of (tr_files t) [] of
        Inl e \<Rightarrow> Inl e
      | Inr d \<Rightarrow> Inr \<lparr>sn_revision = (case head of Some r \<Rightarrow> r | None \<Rightarrow> revision_of W d), sn_files = d\<rparr>)"

section \<open>Change sets\<close>

text \<open>\<^verbatim>\<open>create_changeset\<close>: the paths in order, those that differ; \<open>diff\<close> renders the texts.\<close>

definition change_at ::
    "hashes \<Rightarrow> (string \<Rightarrow> string option \<Rightarrow> string option \<Rightarrow> string) \<Rightarrow> (string, string) dict \<Rightarrow>
     (string, string) dict \<Rightarrow> string \<Rightarrow> file_change" where
  "change_at W diff old new p =
     \<lparr>fc_path = p, fc_before_hash = map_option (ha_hex W) (dget old p),
      fc_after_hash = map_option (ha_hex W) (dget new p), fc_diff = diff p (dget old p) (dget new p),
      fc_after_content = dget new p\<rparr>"

definition create_changeset ::
    "hashes \<Rightarrow> (string \<Rightarrow> string option \<Rightarrow> string option \<Rightarrow> string) \<Rightarrow> string \<Rightarrow> workspace_snapshot \<Rightarrow>
     tree \<Rightarrow> changeset res" where
  "create_changeset W diff owner snap work =
     (case files_of (tr_files work) [] of
        Inl e \<Rightarrow> Inl e
      | Inr current \<Rightarrow>
          Inr \<lparr>ch_owner_id = owner, ch_base_revision = sn_revision snap,
               ch_files = map (change_at W diff (sn_files snap) current)
                 (filter (\<lambda>p. dget (sn_files snap) p \<noteq> dget current p)
                   (sort (remdups (dkeys (sn_files snap) @ dkeys current))))\<rparr>)"

section \<open>What a lease allows\<close>

definition allows :: "builtins \<Rightarrow> string \<Rightarrow> resource_region \<Rightarrow> string \<Rightarrow> bool res" where
  "allows B path r base =
     (if rr_base_revision r \<noteq> base then Inr False
      else if rr_resource_kind r = RK_file
      then (case normal_path (rr_resource_id r) of
              Inl e \<Rightarrow> Inl e
            | Inr p \<Rightarrow> Inr (p = path \<and> rr_selector_type r = ST_whole_resource))
      else if rr_resource_kind r = RK_directory \<and> rr_selector_type r = ST_path_prefix
      then (case normal_path (py_str B (rr_selector_value r)) of
              Inl e \<Rightarrow> Inl e
            | Inr p \<Rightarrow> let prefix = rstrip_slash p
                       in Inr (path = prefix \<or> startswith path (prefix @ ''/'')))
      else Inr False)"

fun any_allows :: "builtins \<Rightarrow> string \<Rightarrow> string \<Rightarrow> writer_lease list \<Rightarrow> bool res" where
  "any_allows B path base [] = Inr False"
| "any_allows B path base (l # ls) =
     (case allows B path (le_region l) base of
        Inl e \<Rightarrow> Inl e | Inr True \<Rightarrow> Inr True | Inr False \<Rightarrow> any_allows B path base ls)"

fun validate_changes :: "builtins \<Rightarrow> string \<Rightarrow> writer_lease list \<Rightarrow> file_change list \<Rightarrow> unit res" where
  "validate_changes B base ls [] = Inr ()"
| "validate_changes B base ls (c # cs) =
     (case any_allows B (fc_path c) base ls of
        Inl e \<Rightarrow> Inl e
      | Inr False \<Rightarrow> Inl (ChangeSetRejected ''write_scope_violation'')
      | Inr True \<Rightarrow> validate_changes B base ls cs)"

definition active_of :: "string \<Rightarrow> writer_lease list \<Rightarrow> writer_lease list" where
  "active_of owner = filter (\<lambda>l. le_status l = LS_active \<and> le_owner_agent_id l = owner)"

definition validate_changeset :: "builtins \<Rightarrow> changeset \<Rightarrow> writer_lease list \<Rightarrow> unit res" where
  "validate_changeset B c ls =
     validate_changes B (ch_base_revision c) (active_of (ch_owner_id c) ls) (ch_files c)"

section \<open>Applying changes\<close>

definition ancestors :: "string list \<Rightarrow> string list set" where
  "ancestors p = {take n p |n. 0 < n \<and> n < length p}"

text \<open>
  One file of the staging copy: \<^verbatim>\<open>unlink(missing_ok=True)\<close>, or \<^verbatim>\<open>mkdir(parents=True)\<close> and
  \<^verbatim>\<open>write_bytes\<close>. A file where a directory is needed, or the reverse, is an \<^verbatim>\<open>OSError\<close>.
\<close>

definition escapes :: "string \<Rightarrow> bool" where
  "escapes path \<longleftrightarrow> path \<noteq> [] \<and> hd path = CHR ''/'' \<or> ''..'' \<in> set (path_parts path)"

definition apply_change :: "file_change \<Rightarrow> (tree, unit) prog" where
  "apply_change c =
     (let p = path_parts (fc_path c) in
      if escapes (fc_path c) then modify (tr_escaped_update (\<lambda>l. l @ [(fc_path c, fc_after_content c)]))
      else bind (get (\<lambda>t. p = [] \<or> p \<in> tr_dirs t \<or> (\<exists>q \<in> set (dkeys (tr_files t)). q \<in> ancestors p)))
             (\<lambda>clash.
           andthen (raise_when clash OSError)
             (modify (case fc_after_content c of
                        None \<Rightarrow> tr_files_update (dpop p)
                      | Some content \<Rightarrow> \<lambda>t. t\<lparr>tr_files := dput p content (tr_files t),
                                              tr_dirs := tr_dirs t \<union> ancestors p\<rparr>))))"

definition staged_changes :: "file_change list \<Rightarrow> (tree, unit) prog" where
  "staged_changes cs t =
     (case for_each cs apply_change t of
        (Inl e, staged) \<Rightarrow> (Inl e, t\<lparr>tr_escaped := tr_escaped staged\<rparr>)
      | (Inr _, staged) \<Rightarrow> (Inr (), staged))"

text \<open>
  \<^verbatim>\<open>integrate\<close>: the changes go to a copy that replaces the canonical directory when all of them
  succeeded; what escaped from the copy stays written. The result is the new snapshot.
\<close>

definition integrate_tree ::
    "hashes \<Rightarrow> builtins \<Rightarrow> string option \<Rightarrow> changeset \<Rightarrow> writer_lease list \<Rightarrow>
     (tree, workspace_snapshot) prog" where
  "integrate_tree W B head c ls =
     andthen (lift (validate_changeset B c ls))
    (bind (get (take_snapshot_of W head)) (\<lambda>r.
     bind (lift r) (\<lambda>current.
     andthen (raise_when (sn_revision current \<noteq> ch_base_revision c \<and>
                list_ex (\<lambda>f. map_option (ha_hex W) (dget (sn_files current) (fc_path f)) \<noteq> fc_before_hash f)
                  (ch_files c)) IntegrationConflict)
    (andthen (staged_changes (ch_files c))
    (bind (get (take_snapshot_of W head)) lift)))))"

section \<open>The resolver: ownership/resolver.py\<close>

record resource_observation =
  ro_resource_kind :: resource_kind
  ro_resource_id :: string
  ro_selector_type :: selector_type
  ro_selector_value :: pyval
  ro_base_revision :: string

text \<open>A trusted resolver raises, or returns a region or something that is none.\<close>

type_synonym semantic_resolver = "resource_observation \<Rightarrow> resource_region option res"
type_synonym resolver_registry = "(resource_kind \<times> selector_type, semantic_resolver) dict"

definition SUPPORTED_RESOLVER_KEYS :: "(resource_kind \<times> selector_type) list" where
  "SUPPORTED_RESOLVER_KEYS =
     [(RK_database, ST_row_keys), (RK_database, ST_key_range), (RK_database, ST_partition),
      (RK_external, ST_provider_subresource)]"

definition register_resolver ::
    "resource_kind \<Rightarrow> selector_type \<Rightarrow> semantic_resolver \<Rightarrow> (resolver_registry, unit) prog" where
  "register_resolver k t f =
     andthen (raise_when ((k, t) \<notin> set SUPPORTED_RESOLVER_KEYS) RegionResolutionError)
    (bind (get (\<lambda>d. dget d (k, t))) (\<lambda>old.
     andthen (raise_when (old \<noteq> None) RegionResolutionError) (modify (dput (k, t) f))))"

definition unregister_resolver :: "resource_kind \<Rightarrow> selector_type \<Rightarrow> (resolver_registry, unit) prog" where
  "unregister_resolver k t = modify (dpop (k, t))"

definition registry_resolve :: "resolver_registry \<Rightarrow> resource_observation \<Rightarrow> resource_region res" where
  "registry_resolve d ob =
     (case dget d (ro_resource_kind ob, ro_selector_type ob) of
        None \<Rightarrow> Inl RegionResolutionError
      | Some f \<Rightarrow> (case f ob of
                     Inl _ \<Rightarrow> Inl RegionResolutionError
                   | Inr None \<Rightarrow> Inl RegionResolutionError
                   | Inr (Some r) \<Rightarrow> Inr r))"

definition validate_candidate :: "resource_region \<Rightarrow> resource_observation \<Rightarrow> unit res" where
  "validate_candidate r ob =
     (if rr_resource_kind r \<noteq> ro_resource_kind ob \<or> rr_resource_id r \<noteq> ro_resource_id ob \<or>
         rr_selector_type r \<noteq> ro_selector_type ob \<or>
         \<not> py_eq (rr_selector_value r) (ro_selector_value ob) \<or>
         rr_base_revision r \<noteq> ro_base_revision ob
      then Inl RegionResolutionError else Inr ())"

fun matching_regions ::
    "builtins \<Rightarrow> resource_region \<Rightarrow> resource_region list \<Rightarrow> resource_region list res" where
  "matching_regions B r [] = Inr []"
| "matching_regions B r (x # xs) =
     (case overlaps B x r of
        Inl e \<Rightarrow> Inl e
      | Inr b \<Rightarrow> (case matching_regions B r xs of
                    Inl e \<Rightarrow> Inl e | Inr ys \<Rightarrow> Inr (if b then x # ys else ys)))"

text \<open>\<^verbatim>\<open>None\<close> stands for the resolver that fails closed.\<close>

definition resolve_observation ::
    "builtins \<Rightarrow> resource_observation \<Rightarrow> writer_lease list \<Rightarrow> resolver_registry option \<Rightarrow>
     resource_region res" where
  "resolve_observation B ob ls resolver =
     (if ro_resource_kind ob \<notin> {RK_database, RK_external} then Inl RegionResolutionError
      else case (case resolver of None \<Rightarrow> Inl RegionResolutionError | Some d \<Rightarrow> registry_resolve d ob) of
             Inl e \<Rightarrow> Inl e
           | Inr r \<Rightarrow>
          (case validate_candidate r ob of
             Inl e \<Rightarrow> Inl e
           | Inr _ \<Rightarrow>
          (case matching_regions B r (map le_region (filter (\<lambda>l. le_status l = LS_active) ls)) of
             Inl e \<Rightarrow> Inl e
           | Inr [x] \<Rightarrow> Inr x
           | Inr _ \<Rightarrow> Inl RegionResolutionError)))"

text \<open>The loop of \<^verbatim>\<open>resolve_change_path\<close>: the regions that match, or the error that ends it.\<close>

fun path_matches :: "builtins \<Rightarrow> string \<Rightarrow> string \<Rightarrow> writer_lease list \<Rightarrow> resource_region list res" where
  "path_matches B path base [] = Inr []"
| "path_matches B path base (l # ls) =
     (let r = le_region l; rest = path_matches B path base ls;
          also = (case rest of Inl e \<Rightarrow> Inl e | Inr xs \<Rightarrow> Inr (r # xs)) in
      if le_status l \<noteq> LS_active \<or> rr_base_revision r \<noteq> base then rest
      else if rr_resource_kind r = RK_file \<and> rr_selector_type r = ST_whole_resource \<and> rr_resource_id r = path
      then also
      else if rr_resource_kind r = RK_directory \<and> rr_selector_type r = ST_path_prefix
      then (if under (rstrip_slash (py_str B (rr_selector_value r))) path then also else rest)
      else if rr_resource_kind r \<in> {RK_database, RK_external} \<or>
              rr_selector_type r \<in> {ST_symbol, ST_ast_node, ST_row_keys, ST_key_range, ST_partition,
                                     ST_json_pointer, ST_provider_subresource}
      then Inl RegionResolutionError
      else rest)"

definition resolve_change_path ::
    "builtins \<Rightarrow> string \<Rightarrow> string \<Rightarrow> writer_lease list \<Rightarrow> resource_region res" where
  "resolve_change_path B path base ls =
     (case path_matches B path base ls of
        Inl e \<Rightarrow> Inl e | Inr [r] \<Rightarrow> Inr r | Inr _ \<Rightarrow> Inl RegionResolutionError)"

fun resolve_changes ::
    "builtins \<Rightarrow> string \<Rightarrow> writer_lease list \<Rightarrow> file_change list \<Rightarrow> resource_region list res" where
  "resolve_changes B base ls [] = Inr []"
| "resolve_changes B base ls (c # cs) =
     (case resolve_change_path B (fc_path c) base ls of
        Inl e \<Rightarrow> Inl e
      | Inr r \<Rightarrow> (case resolve_changes B base ls cs of Inl e \<Rightarrow> Inl e | Inr rs \<Rightarrow> Inr (r # rs)))"

definition resolve_changeset ::
    "builtins \<Rightarrow> changeset \<Rightarrow> writer_lease list \<Rightarrow> resource_region list res" where
  "resolve_changeset B c ls = resolve_changes B (ch_base_revision c) ls (ch_files c)"

section \<open>Lemmas on paths\<close>

text \<open>The components a directory listing yields: no separators, no dot components.\<close>

definition wf_part :: "string \<Rightarrow> bool" where
  "wf_part p \<longleftrightarrow> p \<noteq> [] \<and> p \<noteq> ''.'' \<and> p \<noteq> ''..'' \<and> CHR ''/'' \<notin> set p \<and> CHR 0x5C \<notin> set p \<and>
     CHR 0x00 \<notin> set p"

definition wf_path :: "string list \<Rightarrow> bool" where
  "wf_path ps \<longleftrightarrow> ps \<noteq> [] \<and> (\<forall>p \<in> set ps. wf_part p)"

lemma split_slash_part:
  "CHR ''/'' \<notin> set x \<Longrightarrow> split_slash acc x = [rev acc @ x]"
  by (induction x arbitrary: acc) auto

lemma split_slash_append:
  "CHR ''/'' \<notin> set x \<Longrightarrow> split_slash acc (x @ CHR ''/'' # y) = (rev acc @ x) # split_slash [] y"
  by (induction x arbitrary: acc) auto

lemma split_slash_join:
  "\<forall>p \<in> set ps. CHR ''/'' \<notin> set p \<Longrightarrow> ps \<noteq> [] \<Longrightarrow> split_slash [] (join_slash ps) = ps"
  by (induction ps rule: join_slash.induct) (auto simp: split_slash_part split_slash_append)

lemma join_slash_start:
  assumes "wf_path ps"
  shows "join_slash ps \<noteq> [] \<and> hd (join_slash ps) \<noteq> CHR ''/''"
proof -
  obtain p qs where ps: "ps = p # qs" using assms by (cases ps) (auto simp: wf_path_def)
  have p: "p \<noteq> []" "CHR ''/'' \<notin> set p" using assms by (auto simp: ps wf_path_def wf_part_def)
  then have "hd p \<noteq> CHR ''/''" by (cases p) auto
  then show ?thesis using p by (cases qs) (simp_all add: ps)
qed

lemma path_parts_join [simp]:
  assumes "wf_path ps"
  shows "path_parts (join_slash ps) = ps"
proof -
  have "split_slash [] (join_slash ps) = ps"
    using assms by (intro split_slash_join) (auto simp: wf_path_def wf_part_def)
  moreover have "filter (\<lambda>x. x \<noteq> [] \<and> x \<noteq> ''.'') ps = ps"
    using assms by (auto simp: wf_path_def wf_part_def filter_id_conv)
  ultimately show ?thesis using join_slash_start [OF assms] by (simp add: path_parts_def Let_def)
qed

lemma join_slash_inject:
  "wf_path ps \<Longrightarrow> wf_path qs \<Longrightarrow> join_slash ps = join_slash qs \<longleftrightarrow> ps = qs"
  using path_parts_join by metis

lemma set_join_slash: "set (join_slash ps) \<subseteq> insert (CHR ''/'') (\<Union> (set ` set ps))"
  by (induction ps rule: join_slash.induct) auto

lemma join_slash_clean: "wf_path ps \<Longrightarrow> escapes (join_slash ps) = False"
  using join_slash_start [of ps] by (auto simp: escapes_def) (auto simp: wf_path_def wf_part_def)

lemma normal_path_join:
  assumes "wf_path ps"
  shows "normal_path (join_slash ps) = Inr (join_slash ps)"
proof -
  have "CHR 0x5C \<notin> set (join_slash ps)"
    using assms set_join_slash [of ps] by (auto simp: wf_path_def wf_part_def)
  then have plain: "map (\<lambda>c. if c = CHR 0x5C then CHR ''/'' else c) (join_slash ps) = join_slash ps"
    by (auto intro: map_idI)
  show ?thesis
    using assms join_slash_start [OF assms] unfolding normal_path_def Let_def plain
    by (auto simp: wf_path_def wf_part_def)
qed

section \<open>Lemmas on snapshots\<close>

definition wf_tree :: "tree \<Rightarrow> bool" where
  "wf_tree t \<longleftrightarrow> dwf (tr_files t) \<and> (\<forall>p \<in> set (dkeys (tr_files t)). wf_path p)"

lemma files_of_dget:
  "dwf fs \<Longrightarrow> \<forall>p \<in> set (dkeys fs). wf_path p \<Longrightarrow>
     \<exists>d'. files_of fs d = Inr d' \<and>
       (\<forall>q. dget d' q = (if \<exists>p \<in> set (dkeys fs). join_slash p = q then dget fs (path_parts q) else dget d q))"
proof (induction fs arbitrary: d)
  case (Cons e fs)
  obtain p c where e: "e = (p, c)" by fastforce
  have p: "wf_path p" using Cons.prems by (simp add: e)
  from Cons.IH [of "dput (join_slash p) c d"] Cons.prems obtain d' where
    d': "files_of fs (dput (join_slash p) c d) = Inr d'"
    and get: "\<And>q. dget d' q = (if \<exists>p \<in> set (dkeys fs). join_slash p = q then dget fs (path_parts q)
       else dget (dput (join_slash p) c d) q)" by auto
  have fresh: "p \<notin> set (dkeys fs)" and wf: "\<forall>r \<in> set (dkeys fs). wf_path r"
    using Cons.prems by (auto simp: e)
  have "dget d' q = (if \<exists>r \<in> set (dkeys (e # fs)). join_slash r = q then dget (e # fs) (path_parts q) else dget d q)"
    for q
  proof (cases "join_slash p = q")
    case True
    then have "\<not> (\<exists>r \<in> set (dkeys fs). join_slash r = q)"
      using fresh wf p join_slash_inject by metis
    with True p show ?thesis by (auto simp: get e)
  next
    case False
    have "path_parts q \<noteq> p" if "\<exists>r \<in> set (dkeys fs). join_slash r = q"
      using that False wf by auto
    with False show ?thesis by (auto simp: get e)
  qed
  then show ?case using d' p by (simp add: e normal_path_join)
qed simp

lemma in_set_dkeys: "k \<in> set (dkeys d) \<longleftrightarrow> (\<exists>v. dget d k = Some v)"
  using map_of_eq_None_iff [of d k] by auto

text \<open>The content at a text path.\<close>

definition content :: "tree \<Rightarrow> string \<Rightarrow> string option" where
  "content t q = (if \<exists>p \<in> set (dkeys (tr_files t)). join_slash p = q then dget (tr_files t) (path_parts q) else None)"

lemma files_of_content:
  assumes "wf_tree t"
  obtains d where "files_of (tr_files t) [] = Inr d" and "\<And>q. dget d q = content t q"
  using assms files_of_dget [of "tr_files t" "[]"] by (auto simp: wf_tree_def content_def)

lemma content_join:
  assumes "wf_tree t" and "wf_path p"
  shows "content t (join_slash p) = dget (tr_files t) p"
proof -
  have "(\<exists>r \<in> set (dkeys (tr_files t)). join_slash r = join_slash p) \<longleftrightarrow> p \<in> set (dkeys (tr_files t))"
    using assms join_slash_inject by (auto simp: wf_tree_def)
  moreover have "dget (tr_files t) p = None" if "p \<notin> set (dkeys (tr_files t))"
    using that by (simp add: map_of_eq_None_iff)
  ultimately show ?thesis using assms by (auto simp: content_def)
qed

lemma content_Some_join:
  assumes "wf_tree t" and "content t q = Some c"
  obtains p where "wf_path p" and "q = join_slash p"
  using assms by (auto simp: content_def wf_tree_def split: if_splits)

lemma take_snapshot_content:
  assumes "wf_tree t"
  obtains sn where "take_snapshot_of W head t = Inr sn" and "\<And>q. dget (sn_files sn) q = content t q"
    and "head = None \<Longrightarrow> sn_revision sn = revision_of W (sn_files sn)"
proof -
  obtain d where "files_of (tr_files t) [] = Inr d" "\<And>q. dget d q = content t q"
    using files_of_content [OF assms] by blast
  then show ?thesis
    by (intro that [of "\<lparr>sn_revision = (case head of Some r \<Rightarrow> r | None \<Rightarrow> revision_of W d), sn_files = d\<rparr>"])
      (simp_all add: take_snapshot_of_def)
qed

section \<open>Lemmas on integration\<close>

text \<open>The changes of a change set as one update: the last change of a path wins.\<close>

definition good_changes :: "file_change list \<Rightarrow> bool" where
  "good_changes cs \<longleftrightarrow> (\<forall>c \<in> set cs. \<exists>p. wf_path p \<and> fc_path c = join_slash p) \<and> distinct (map fc_path cs)"

lemma apply_change_Inr:
  assumes "apply_change c t = (Inr (), u)" and "wf_path p" and "fc_path c = join_slash p"
  shows "tr_files u = (case fc_after_content c of None \<Rightarrow> dpop p (tr_files t)
                                                | Some x \<Rightarrow> dput p x (tr_files t))"
    and "tr_escaped u = tr_escaped t"
  using assms join_slash_clean [of p]
  by (auto simp: apply_change_def Let_def split: option.splits if_splits)

definition changed_to :: "file_change list \<Rightarrow> string \<Rightarrow> string option option" where
  "changed_to cs q = map_option fc_after_content (List.find (\<lambda>c. fc_path c = q) cs)"

text \<open>
  What the content lemmas need of the step that applies one change: if it returns, the files are those before
  with the change made. The integration of the local adapter is one, the adoption of the git adapter another.
\<close>

locale change_step =
  fixes step :: "file_change \<Rightarrow> (tree, unit) prog"
  assumes step_files: "step c t = (Inr (), u) \<Longrightarrow> wf_path p \<Longrightarrow> fc_path c = join_slash p \<Longrightarrow>
    tr_files u = (case fc_after_content c of None \<Rightarrow> dpop p (tr_files t) | Some x \<Rightarrow> dput p x (tr_files t))"
begin

lemma step_wf:
  assumes "step c t = (Inr (), u)" and "wf_path p" and "fc_path c = join_slash p" and "wf_tree t"
  shows "wf_tree u"
proof -
  have k: "set (dkeys (tr_files u)) \<subseteq> insert p (set (dkeys (tr_files t)))"
  proof
    fix x assume "x \<in> set (dkeys (tr_files u))"
    then obtain v where "dget (tr_files u) x = Some v" by (metis in_set_dkeys)
    then have "x = p \<or> dget (tr_files t) x = Some v"
      using step_files [OF assms(1-3)] by (auto split: option.splits if_splits)
    then show "x \<in> insert p (set (dkeys (tr_files t)))" unfolding insert_iff in_set_dkeys by blast
  qed
  have "dwf (tr_files u)"
    using step_files [OF assms(1-3)] assms(4) by (auto simp: wf_tree_def split: option.splits)
  moreover have "wf_path q" if "q \<in> set (dkeys (tr_files u))" for q
    using k that assms(2,4) unfolding wf_tree_def by blast
  ultimately show ?thesis by (simp add: wf_tree_def)
qed

lemma step_content:
  assumes "step c t = (Inr (), u)" and "wf_path p" and "fc_path c = join_slash p" and "wf_tree t"
  shows "content u q = (if q = fc_path c then fc_after_content c else content t q)"
proof -
  have wu: "wf_tree u" using step_wf [OF assms] .
  have same: "content u (join_slash r) = (if r = p then fc_after_content c else content t (join_slash r))"
    if "wf_path r" for r
    using that assms(4) wu step_files [OF assms(1-3)]
    by (auto simp: content_join split: option.splits)
  show ?thesis
  proof (cases "content u q = None \<and> content t q = None")
    case True
    then show ?thesis using same [OF assms(2)] assms(3) by auto
  next
    case False
    then obtain r where "wf_path r" "q = join_slash r"
      using content_Some_join [OF wu, of q] content_Some_join [OF assms(4), of q] by (metis option.exhaust)
    with same [of r] assms(2,3) show ?thesis by (auto simp: join_slash_inject)
  qed
qed

lemma steps_content:
  assumes "for_each cs step t = (Inr (), u)" and "good_changes cs" and "wf_tree t"
  shows "wf_tree u \<and> (\<forall>q. content u q = (case changed_to cs q of None \<Rightarrow> content t q | Some x \<Rightarrow> x))"
  using assms
proof (induction cs arbitrary: t)
  case Nil
  then show ?case by (simp add: changed_to_def)
next
  case (Cons c cs)
  from Cons.prems(2) obtain p where p: "wf_path p" "fc_path c = join_slash p"
    by (auto simp: good_changes_def)
  from Cons.prems(1) obtain w where w: "step c t = (Inr (), w)"
    and rest: "for_each cs step w = (Inr (), u)" by (auto simp: prog_simps)
  have good: "good_changes cs" and fresh: "fc_path c \<notin> fc_path ` set cs"
    using Cons.prems(2) by (auto simp: good_changes_def)
  from Cons.IH [OF rest good step_wf [OF w p Cons.prems(3)]]
  have u: "wf_tree u"
    and get: "\<And>q. content u q = (case changed_to cs q of None \<Rightarrow> content w q | Some x \<Rightarrow> x)" by auto
  have "content u q = (case changed_to (c # cs) q of None \<Rightarrow> content t q | Some x \<Rightarrow> x)" for q
  proof (cases "fc_path c = q")
    case True
    have "fc_path x \<noteq> q" if "x \<in> set cs" for x using fresh True that by (metis imageI)
    then have "List.find (\<lambda>c. fc_path c = q) cs = None" by (simp add: find_None_iff)
    then show ?thesis
      using True by (simp add: get changed_to_def step_content [OF w p Cons.prems(3)])
  next
    case False
    then show ?thesis
      by (simp add: get changed_to_def step_content [OF w p Cons.prems(3)] split: option.split)
  qed
  with u show ?case by simp
qed

end

interpretation integration_step: change_step apply_change
  by unfold_locales (rule apply_change_Inr(1))

lemma apply_changes_escaped:
  "for_each cs apply_change t = (Inr (), u) \<Longrightarrow> good_changes cs \<Longrightarrow> tr_escaped u = tr_escaped t"
proof (induction cs arbitrary: t)
  case (Cons c cs)
  then obtain w where w: "apply_change c t = (Inr (), w)" "for_each cs apply_change w = (Inr (), u)"
    by (auto simp: prog_simps)
  with Cons show ?case using apply_change_Inr(2) [OF w(1)] by (auto simp: good_changes_def)
qed simp

lemma apply_changes_content:
  assumes "for_each cs apply_change t = (Inr (), u)" and "good_changes cs" and "wf_tree t"
  shows "wf_tree u \<and> tr_escaped u = tr_escaped t \<and>
    (\<forall>q. content u q = (case changed_to cs q of None \<Rightarrow> content t q | Some x \<Rightarrow> x))"
  using integration_step.steps_content [OF assms] apply_changes_escaped [OF assms(1,2)] by simp

lemma integrate_tree_Inr:
  assumes "integrate_tree W B head c ls t = (Inr sn, u)"
  obtains current where "validate_changeset B c ls = Inr ()" and "take_snapshot_of W head t = Inr current"
    and "sn_revision current = ch_base_revision c \<or>
      (\<forall>f \<in> set (ch_files c). map_option (ha_hex W) (dget (sn_files current) (fc_path f)) = fc_before_hash f)"
    and "for_each (ch_files c) apply_change t = (Inr (), u)" and "take_snapshot_of W head u = Inr sn"
  using assms
  by (auto simp: integrate_tree_def staged_changes_def prog_simps list_ex_iff split: if_splits prod.splits sum.splits)

lemma staged_changes_run:
  assumes "for_each cs apply_change t = (r, v)"
  shows "staged_changes cs t = (r, case r of Inl e \<Rightarrow> t\<lparr>tr_escaped := tr_escaped v\<rparr> | Inr _ \<Rightarrow> v)"
  using assms by (cases r) (simp_all add: staged_changes_def)

lemma integrate_tree_cases:
  assumes "integrate_tree W B head c ls t = (r, u)"
  shows "(\<exists>e. r = Inl e) \<and> tr_files u = tr_files t \<and> tr_dirs u = tr_dirs t \<or>
    for_each (ch_files c) apply_change t = (Inr (), u) \<and> r = take_snapshot_of W head u"
proof (cases "validate_changeset B c ls")
  case (Inl e)
  then show ?thesis using assms by (auto simp: integrate_tree_def)
next
  case valid: (Inr x)
  show ?thesis
  proof (cases "take_snapshot_of W head t")
    case (Inl e)
    then show ?thesis using assms valid by (simp add: integrate_tree_def) (metis Pair_inject)
  next
    case (Inr current)
    obtain q v where run: "for_each (ch_files c) apply_change t = (q, v)" by fastforce
    show ?thesis
      using assms valid Inr staged_changes_run [OF run] run
      by (cases q) (auto simp: integrate_tree_def andthen_def [of "staged_changes _"] bind_def [of "staged_changes _"]
          split: if_splits)
  qed
qed

lemma integrate_tree_ok:
  assumes "validate_changeset B c ls = Inr ()" and "take_snapshot_of W head t = Inr current"
    and "sn_revision current = ch_base_revision c \<or>
      (\<forall>f \<in> set (ch_files c). map_option (ha_hex W) (dget (sn_files current) (fc_path f)) = fc_before_hash f)"
    and "for_each (ch_files c) apply_change t = (Inr (), u)"
  shows "integrate_tree W B head c ls t = (take_snapshot_of W head u, u)"
proof -
  have "\<not> (sn_revision current \<noteq> ch_base_revision c \<and>
      list_ex (\<lambda>f. map_option (ha_hex W) (dget (sn_files current) (fc_path f)) \<noteq> fc_before_hash f) (ch_files c))"
    using assms(3) by (auto simp: list_ex_iff)
  then show ?thesis
    using assms(1,2) staged_changes_run [OF assms(4)] unfolding integrate_tree_def
    by (simp only: andthen_lift bind_get bind_lift_Inr andthen_raise_when if_False
        andthen_def [of "staged_changes _"] bind_def [of "staged_changes _"] prod.case sum.case) simp
qed

lemma integrate_tree_Inl:
  assumes "integrate_tree W B head c ls t = (Inl e, u)" and "wf_tree t" and "good_changes (ch_files c)"
  shows "tr_files u = tr_files t \<and> tr_dirs u = tr_dirs t"
proof (rule ccontr)
  assume "\<not> ?thesis"
  with integrate_tree_cases [OF assms(1)]
  have run: "for_each (ch_files c) apply_change t = (Inr (), u)" and bad: "take_snapshot_of W head u = Inl e"
    by auto
  from apply_changes_content [OF run assms(3,2)] have "wf_tree u" by simp
  then obtain sn where "take_snapshot_of W head u = Inr sn" by (rule take_snapshot_content)
  with bad show False by simp
qed

lemma change_at_simps [simp]:
  "fc_path (change_at W diff old new p) = p"
  "fc_after_content (change_at W diff old new p) = dget new p"
  "fc_before_hash (change_at W diff old new p) = map_option (ha_hex W) (dget old p)"
  by (simp_all add: change_at_def)

lemma changed_to_map:
  "changed_to (map (change_at W diff old new) ps) q = (if q \<in> set ps then Some (dget new q) else None)"
  by (induction ps) (auto simp: changed_to_def)

lemma create_changeset_shape:
  assumes "create_changeset W diff owner snap work = Inr c"
  obtains cur ps where "files_of (tr_files work) [] = Inr cur" and "distinct ps"
    and "\<And>q. q \<in> set ps \<longleftrightarrow> dget (sn_files snap) q \<noteq> dget cur q"
    and "c = \<lparr>ch_owner_id = owner, ch_base_revision = sn_revision snap,
               ch_files = map (change_at W diff (sn_files snap) cur) ps\<rparr>"
proof -
  from assms obtain cur where cur: "files_of (tr_files work) [] = Inr cur"
    by (auto simp: create_changeset_def split: sum.splits)
  let ?ps = "filter (\<lambda>p. dget (sn_files snap) p \<noteq> dget cur p) (sort (remdups (dkeys (sn_files snap) @ dkeys cur)))"
  have known: "q \<in> set (dkeys (sn_files snap)) \<or> q \<in> set (dkeys cur)" if "dget (sn_files snap) q \<noteq> dget cur q" for q
  proof (rule ccontr)
    assume "\<not> ?thesis"
    then have "dget (sn_files snap) q = None" "dget cur q = None" by (simp_all add: map_of_eq_None_iff)
    with that show False by simp
  qed
  show ?thesis
  proof (rule that [OF cur])
    show "distinct ?ps" by simp
    show "q \<in> set ?ps \<longleftrightarrow> dget (sn_files snap) q \<noteq> dget cur q" for q
      using known [of q] by (simp only: set_filter set_sort set_remdups set_append mem_Collect_eq Un_iff) blast
    show "c = \<lparr>ch_owner_id = owner, ch_base_revision = sn_revision snap,
               ch_files = map (change_at W diff (sn_files snap) cur) ?ps\<rparr>"
      using assms cur by (simp add: create_changeset_def)
  qed
qed

text \<open>A worker's change set, read against the directory the snapshot was taken of.\<close>

definition records_work :: "hashes \<Rightarrow> tree \<Rightarrow> tree \<Rightarrow> changeset \<Rightarrow> bool" where
  "records_work W base work c \<longleftrightarrow> good_changes (ch_files c) \<and>
     (\<forall>q. changed_to (ch_files c) q = (if content work q = content base q then None else Some (content work q))) \<and>
     (\<forall>f \<in> set (ch_files c). fc_before_hash f = map_option (ha_hex W) (content base (fc_path f)) \<and>
        content work (fc_path f) \<noteq> content base (fc_path f))"

lemma create_changeset_Inr:
  assumes "create_changeset W diff owner snap work = Inr c" and "wf_tree work"
    and "wf_tree base" and "take_snapshot_of W head base = Inr snap"
  shows "records_work W base work c" and "ch_owner_id c = owner" and "ch_base_revision c = sn_revision snap"
proof -
  from create_changeset_shape [OF assms(1)] obtain cur ps
    where cur: "files_of (tr_files work) [] = Inr cur" and ps: "distinct ps"
    and mem: "\<And>q. q \<in> set ps \<longleftrightarrow> dget (sn_files snap) q \<noteq> dget cur q"
    and c: "c = \<lparr>ch_owner_id = owner, ch_base_revision = sn_revision snap,
               ch_files = map (change_at W diff (sn_files snap) cur) ps\<rparr>" by blast
  have new: "dget cur q = content work q" for q
    using files_of_content [OF assms(2)] cur by (metis Inr_inject)
  have old: "dget (sn_files snap) q = content base q" for q
    using take_snapshot_content [OF assms(3), of W head] assms(4) by (metis Inr_inject)
  have named: "\<exists>p. wf_path p \<and> q = join_slash p" if "q \<in> set ps" for q
  proof -
    from that have "content work q \<noteq> None \<or> content base q \<noteq> None" unfolding mem old new by metis
    then show ?thesis using content_Some_join assms(2,3) by (metis option.exhaust)
  qed
  show "records_work W base work c" unfolding records_work_def
  proof (intro conjI allI ballI)
    show "good_changes (ch_files c)" unfolding good_changes_def
      using named ps by (auto simp: c comp_def)
    show "changed_to (ch_files c) q = (if content work q = content base q then None else Some (content work q))" for q
      using mem [of q] by (auto simp: c changed_to_map old new)
  next
    fix f assume "f \<in> set (ch_files c)"
    then obtain p where f: "f = change_at W diff (sn_files snap) cur p" and p: "p \<in> set ps" by (auto simp: c)
    show "fc_before_hash f = map_option (ha_hex W) (content base (fc_path f))" by (simp add: f old)
    show "content work (fc_path f) \<noteq> content base (fc_path f)" using p mem [of p] by (auto simp: f old new)
  qed
qed (use assms(1) in \<open>auto elim: create_changeset_shape\<close>)

text \<open>
  A listing determines the directory: paths have no zero byte, and the digests of the contents have
  a fixed width.
\<close>

definition collision_free :: "hashes \<Rightarrow> string set \<Rightarrow> bool" where
  "collision_free W X \<longleftrightarrow> inj_on (ha_hex W) X \<and> inj_on (ha_raw W) X \<and> (\<forall>x. length (ha_raw W x) = 32) \<and>
     inj (ha_utf8 W) \<and> (\<forall>p. CHR 0x00 \<notin> set p \<longrightarrow> CHR 0x00 \<notin> set (ha_utf8 W p))"

definition listing :: "hashes \<Rightarrow> (string, string) dict \<Rightarrow> string" where
  "listing W d = concat (map (\<lambda>p. ha_utf8 W p @ [CHR 0x00] @ ha_raw W (the (dget d p)) @ [CHR 0x00]) (sort (dkeys d)))"

definition zero_free :: "(string, string) dict \<Rightarrow> bool" where
  "zero_free d \<longleftrightarrow> (\<forall>p \<in> set (dkeys d). CHR 0x00 \<notin> set p)"

lemma append_sep:
  "z \<notin> set a \<Longrightarrow> z \<notin> set b \<Longrightarrow> a @ z # u = b @ z # v \<longleftrightarrow> a = b \<and> u = v"
proof (induction a arbitrary: b)
  case Nil
  then show ?case by (cases b) auto
next
  case (Cons x a)
  then show ?case by (cases b) auto
qed

lemma entries_inject:
  "(\<forall>e \<in> set es. z \<notin> set (fst e) \<and> length (snd e) = n) \<Longrightarrow>
   (\<forall>e \<in> set es'. z \<notin> set (fst e) \<and> length (snd e) = n) \<Longrightarrow>
   concat (map (\<lambda>e. fst e @ [z] @ snd e @ [z]) es) = concat (map (\<lambda>e. fst e @ [z] @ snd e @ [z]) es') \<Longrightarrow>
   es = es'"
proof (induction es arbitrary: es')
  case Nil
  then show ?case by (cases es') auto
next
  case (Cons e es)
  then obtain e' fs where es': "es' = e' # fs" by (cases es') auto
  let ?tail = "\<lambda>es. concat (map (\<lambda>e. fst e @ [z] @ snd e @ [z]) es)"
  have eq: "fst e @ z # (snd e @ z # ?tail es) = fst e' @ z # (snd e' @ z # ?tail fs)"
    using Cons.prems(3) by (simp add: es')
  have free: "z \<notin> set (fst e)" "z \<notin> set (fst e')" using Cons.prems(1,2) by (simp_all add: es')
  from eq free have "fst e = fst e' \<and> snd e @ z # ?tail es = snd e' @ z # ?tail fs"
    by (rule append_sep [THEN iffD1, rotated 2])
  moreover from this have "snd e = snd e' \<and> ?tail es = ?tail fs"
    using Cons.prems(1,2) by (simp add: es')
  ultimately show ?case using Cons.IH [of fs] Cons.prems(1,2) by (simp add: es' prod_eq_iff)
qed

lemma listing_inject:
  assumes "listing W d = listing W d'" and "collision_free W X" and "zero_free d" and "zero_free d'"
    and "set (dvalues d) \<subseteq> X" and "set (dvalues d') \<subseteq> X"
  shows "dget d q = dget d' q"
proof -
  let ?es = "\<lambda>d. map (\<lambda>p. (ha_utf8 W p, ha_raw W (the (dget d p)))) (sort (dkeys d))"
  have "?es d = ?es d'"
    using assms by (intro entries_inject [where z = "CHR 0x00" and n = 32])
      (auto simp: listing_def comp_def collision_free_def zero_free_def)
  then have keys: "map (ha_utf8 W) (sort (dkeys d)) = map (ha_utf8 W) (sort (dkeys d'))"
    and raws: "map (\<lambda>p. ha_raw W (the (dget d p))) (sort (dkeys d)) =
       map (\<lambda>p. ha_raw W (the (dget d' p))) (sort (dkeys d'))"
    by (auto dest: arg_cong [where f = "map fst"] arg_cong [where f = "map snd"] simp: comp_def)
  have sorted: "sort (dkeys d) = sort (dkeys d')"
    using keys assms(2) by (auto simp: collision_free_def dest: map_injective)
  show ?thesis
  proof (cases "q \<in> set (dkeys d)")
    case True
    then have "q \<in> set (dkeys d')" using sorted by (metis set_sort)
    then obtain x y where xy: "dget d q = Some x" "dget d' q = Some y" using True by (metis in_set_dkeys)
    have "q \<in> set (sort (dkeys d))" using True by simp
    then have "ha_raw W x = ha_raw W y" using raws xy unfolding sorted by (auto simp: map_eq_conv)
    moreover have "x \<in> X" "y \<in> X" using dget_value [OF xy(1)] dget_value [OF xy(2)] assms(5,6) by auto
    ultimately show ?thesis using assms(2) xy by (auto simp: collision_free_def dest: inj_onD)
  next
    case False
    then have "q \<notin> set (dkeys d')" using sorted by (metis set_sort)
    with False have "dget d q = None" "dget d' q = None" by (simp_all add: map_of_eq_None_iff)
    then show ?thesis by simp
  qed
qed

section \<open>Lemmas on parallel change sets\<close>

definition contents :: "tree \<Rightarrow> string set" where
  "contents t = set (dvalues (tr_files t))"

lemma content_in: "content t q = Some x \<Longrightarrow> x \<in> contents t"
  unfolding content_def contents_def by (metis dget_value option.distinct(1))

lemma files_of_dwf: "files_of fs d = Inr d' \<Longrightarrow> dwf d \<Longrightarrow> dwf d'"
  by (induction fs d rule: files_of.induct) (auto split: sum.splits)

lemma snapshot_files:
  assumes "take_snapshot_of W head t = Inr sn" and "wf_tree t"
  shows "dget (sn_files sn) q = content t q" and "zero_free (sn_files sn)"
    and "set (dvalues (sn_files sn)) \<subseteq> contents t"
    and "head = None \<Longrightarrow> sn_revision sn = ha_hex W (listing W (sn_files sn))"
proof -
  show get: "dget (sn_files sn) q = content t q" for q
    using take_snapshot_content [OF assms(2), of W head] assms(1) by (metis Inr_inject)
  have "dwf (sn_files sn)"
    using assms(1) by (auto simp: take_snapshot_of_def dest: files_of_dwf split: sum.splits)
  then show "set (dvalues (sn_files sn)) \<subseteq> contents t"
    using get content_in [of t] by (metis dvalue_dget subsetI)
  show "zero_free (sn_files sn)" unfolding zero_free_def
  proof
    fix q assume "q \<in> set (dkeys (sn_files sn))"
    then obtain x where "content t q = Some x" unfolding in_set_dkeys get by blast
    then obtain p where "wf_path p" "q = join_slash p" using content_Some_join [OF assms(2)] by metis
    then show "CHR 0x00 \<notin> set q" using set_join_slash [of p] by (auto simp: wf_path_def wf_part_def)
  qed
  show "sn_revision sn = ha_hex W (listing W (sn_files sn))" if "head = None"
    using that assms(1) by (auto simp: take_snapshot_of_def revision_of_def listing_def split: sum.splits)
qed

lemma same_revision_same_content:
  assumes "take_snapshot_of W None t = Inr a" and "take_snapshot_of W None u = Inr b"
    and "wf_tree t" and "wf_tree u" and "collision_free W X"
    and "contents t \<union> contents u \<union> {listing W (sn_files a), listing W (sn_files b)} \<subseteq> X"
    and "sn_revision a = sn_revision b"
  shows "content t q = content u q"
proof -
  note a = snapshot_files [OF assms(1,3)] and b = snapshot_files [OF assms(2,4)]
  have "listing W (sn_files a) = listing W (sn_files b)"
    using a(4) b(4) assms(5-7) by (auto simp: collision_free_def dest: inj_onD)
  then show ?thesis
    using listing_inject [OF _ assms(5) a(2) b(2), of q] a(1,3) b(1,3) assms(6) by auto
qed

lemma integrated_work:
  assumes "records_work W base work c" and "integrate_tree W B head c ls t = (Inr sn, u)" and "wf_tree t"
  shows "wf_tree u" and "take_snapshot_of W head u = Inr sn"
    and "content u q = (if content work q = content base q then content t q else content work q)"
proof -
  from assms(2) have run: "for_each (ch_files c) apply_change t = (Inr (), u)"
    and sn: "take_snapshot_of W head u = Inr sn" by (auto elim: integrate_tree_Inr)
  have good: "good_changes (ch_files c)" and to: "changed_to (ch_files c) q =
      (if content work q = content base q then None else Some (content work q))"
    using assms(1) by (simp_all add: records_work_def)
  from apply_changes_content [OF run good assms(3)] to
  show "content u q = (if content work q = content base q then content t q else content work q)" by simp
  from apply_changes_content [OF run good assms(3)] sn
  show "wf_tree u" "take_snapshot_of W head u = Inr sn" by simp_all
qed

lemma changed_file:
  assumes "records_work W base work c" and "content work q \<noteq> content base q"
  obtains f where "f \<in> set (ch_files c)" and "fc_path f = q"
    and "fc_before_hash f = map_option (ha_hex W) (content base q)"
proof -
  from assms have "changed_to (ch_files c) q \<noteq> None" by (simp add: records_work_def)
  then obtain f where f: "f \<in> set (ch_files c)" "fc_path f = q"
    by (auto simp: changed_to_def find_None_iff)
  with assms(1) show ?thesis by (intro that [of f]) (auto simp: records_work_def)
qed

lemma hash_inject:
  assumes "map_option (ha_hex W) a = map_option (ha_hex W) b" and "collision_free W X"
    and "set_option a \<subseteq> X" and "set_option b \<subseteq> X"
  shows "a = b"
  using assms by (cases a; cases b) (auto simp: collision_free_def dest: inj_onD)

text \<open>A file of one side is no directory of the other.\<close>

definition compatible :: "tree \<Rightarrow> tree \<Rightarrow> bool" where
  "compatible base work \<longleftrightarrow>
     (\<forall>p \<in> set (dkeys (tr_files base)) \<union> set (dkeys (tr_files work)). p \<notin> tr_dirs base \<and>
        (\<forall>q \<in> set (dkeys (tr_files base)) \<union> set (dkeys (tr_files work)). q \<notin> ancestors p))"

lemma apply_changes_ok:
  "(\<forall>c \<in> set cs. \<exists>p \<in> K. wf_path p \<and> fc_path c = join_slash p) \<Longrightarrow> set (dkeys (tr_files t)) \<subseteq> K \<Longrightarrow>
   (\<forall>p \<in> K. p \<notin> tr_dirs t \<and> (\<forall>q \<in> K. q \<notin> ancestors p)) \<Longrightarrow> \<exists>u. for_each cs apply_change t = (Inr (), u)"
proof (induction cs arbitrary: t)
  case (Cons c cs)
  then obtain p where p: "p \<in> K" "wf_path p" "fc_path c = join_slash p" by auto
  have clash: "\<not> (p = [] \<or> p \<in> tr_dirs t \<or> (\<exists>q \<in> set (dkeys (tr_files t)). q \<in> ancestors p))"
    using p Cons.prems by (auto simp: wf_path_def)
  define w where "w = snd (apply_change c t)"
  have w: "apply_change c t = (Inr (), w)"
    using p clash join_slash_clean [OF p(2)] by (auto simp: w_def apply_change_def Let_def)
  have "tr_dirs w \<subseteq> tr_dirs t \<union> ancestors p"
    using p clash join_slash_clean [OF p(2)] by (auto simp: w_def apply_change_def Let_def split: option.splits)
  moreover have "set (dkeys (tr_files w)) \<subseteq> K"
  proof
    fix x assume "x \<in> set (dkeys (tr_files w))"
    then have "x = p \<or> x \<in> set (dkeys (tr_files t))"
      using apply_change_Inr(1) [OF w p(2,3)] unfolding in_set_dkeys by (auto split: option.splits if_splits)
    then show "x \<in> K" using p(1) Cons.prems(2) by auto
  qed
  ultimately have "\<exists>u. for_each cs apply_change w = (Inr (), u)"
    using Cons.prems p(1) by (intro Cons.IH) auto
  then show ?case using w by (auto simp: andthen_def bind_def)
qed simp

lemma allows_base: "allows B p r base = Inr True \<Longrightarrow> rr_base_revision r = base"
  by (simp add: allows_def split: if_splits)

lemma any_allows_Inr:
  "any_allows B p base ls = Inr True \<Longrightarrow> \<exists>l \<in> set ls. allows B p (le_region l) base = Inr True"
  by (induction ls) (auto split: sum.splits bool.splits)

lemma validate_changes_Inr:
  "validate_changes B base ls cs = Inr () \<Longrightarrow> f \<in> set cs \<Longrightarrow>
     \<exists>l \<in> set ls. allows B (fc_path f) (le_region l) base = Inr True"
  by (induction cs) (auto split: sum.splits bool.splits dest: any_allows_Inr)

lemma apply_changes_error:
  "for_each cs apply_change t = (Inl e, v) \<Longrightarrow> e = OSError"
proof (induction cs arbitrary: t)
  case (Cons c cs)
  obtain s w where one: "apply_change c t = (s, w)" by fastforce
  show ?case
  proof (cases s)
    case (Inl x)
    then have "x = OSError" using one by (auto simp: apply_change_def Let_def split: if_splits)
    with Cons.prems one Inl show ?thesis by (simp add: andthen_def bind_def)
  next
    case (Inr x)
    with Cons.prems one show ?thesis by (intro Cons.IH [of w]) (simp add: andthen_def bind_def)
  qed
qed simp

section \<open>Example directories\<close>

definition example_hashes :: hashes where
  "example_hashes = \<lparr>ha_hex = (\<lambda>x. x), ha_raw = (\<lambda>x. take 32 (x @ replicate 32 (CHR ''0''))), ha_utf8 = (\<lambda>p. p)\<rparr>"

definition example_tree :: "string \<Rightarrow> string \<Rightarrow> tree" where
  "example_tree a b = \<lparr>tr_files = [([''a''], a), ([''b''], b)], tr_dirs = {}, tr_escaped = []\<rparr>"

definition example_lease :: "string \<Rightarrow> string \<Rightarrow> string \<Rightarrow> writer_lease" where
  "example_lease owner path base =
     \<lparr>le_id = owner, le_version = 1, le_child_task_id = owner, le_owner_agent_id = owner,
      le_region = \<lparr>rr_resource_kind = RK_file, rr_resource_id = path, rr_selector_type = ST_whole_resource,
        rr_selector_value = VNone, rr_base_revision = base\<rparr>,
      le_status = LS_active, le_acquired_at = 0, le_expires_at = None\<rparr>"

lemma example_snapshot_of:
  "take_snapshot_of W head (example_tree a b) =
     Inr \<lparr>sn_revision = (case head of Some r \<Rightarrow> r | None \<Rightarrow> revision_of W [(''a'', a), (''b'', b)]),
          sn_files = [(''a'', a), (''b'', b)]\<rparr>"
  by (simp add: take_snapshot_of_def example_tree_def normal_path_def path_parts_def Let_def)

lemma example_changeset_of:
  "create_changeset W diff owner \<lparr>sn_revision = rvn, sn_files = [(''a'', a), (''b'', b)]\<rparr> (example_tree a' b') =
     Inr \<lparr>ch_owner_id = owner, ch_base_revision = rvn, ch_files =
       map (change_at W diff [(''a'', a), (''b'', b)] [(''a'', a'), (''b'', b')])
         ((if a = a' then [] else [''a'']) @ (if b = b' then [] else [''b'']))\<rparr>"
  by (simp add: create_changeset_def example_tree_def normal_path_def path_parts_def Let_def)

definition one_change :: "hashes \<Rightarrow> string \<Rightarrow> string \<Rightarrow> string \<Rightarrow> string option \<Rightarrow> string \<Rightarrow> changeset" where
  "one_change W owner rvn p old new =
     \<lparr>ch_owner_id = owner, ch_base_revision = rvn,
      ch_files = [\<lparr>fc_path = p, fc_before_hash = map_option (ha_hex W) old, fc_after_hash = Some (ha_hex W new),
                  fc_diff = [], fc_after_content = Some new\<rparr>]\<rparr>"

lemma example_validate:
  "validate_changeset B (one_change W owner rvn ''a'' old new) [example_lease owner ''a'' rvn] = Inr ()"
  "validate_changeset B (one_change W owner rvn ''b'' old new) [example_lease owner ''b'' rvn] = Inr ()"
  by (simp_all add: validate_changeset_def one_change_def active_of_def example_lease_def allows_def normal_path_def
      path_parts_def Let_def)

lemma example_apply:
  "apply_change \<lparr>fc_path = ''a'', fc_before_hash = h, fc_after_hash = h', fc_diff = d, fc_after_content = Some x\<rparr>
     (example_tree a b) = (Inr (), example_tree x b)"
  "apply_change \<lparr>fc_path = ''b'', fc_before_hash = h, fc_after_hash = h', fc_diff = d, fc_after_content = Some x\<rparr>
     (example_tree a b) = (Inr (), example_tree a x)"
  by (auto simp: apply_change_def example_tree_def escapes_def path_parts_def Let_def ancestors_def andthen_def bind_def
      less_Suc_eq)

lemma example_integrate:
  assumes "validate_changeset B (one_change W owner rvn p old new) ls = Inr ()"
    and "(case head of Some r \<Rightarrow> r | None \<Rightarrow> revision_of W [(''a'', a), (''b'', b)]) = rvn \<or>
       map_option (ha_hex W) (dget [(''a'', a), (''b'', b)] p) = map_option (ha_hex W) old"
    and "p = ''a'' \<or> p = ''b''" and "u = example_tree (if p = ''a'' then new else a) (if p = ''a'' then b else new)"
  shows "integrate_tree W B head (one_change W owner rvn p old new) ls (example_tree a b) = (take_snapshot_of W head u, u)"
proof (rule integrate_tree_ok [OF assms(1) example_snapshot_of])
  show "for_each (ch_files (one_change W owner rvn p old new)) apply_change (example_tree a b) = (Inr (), u)"
    using assms(3,4) by (auto simp: one_change_def example_apply andthen_def bind_def)
qed (use assms(2) in \<open>simp add: one_change_def\<close>)

lemma example_wf: "wf_tree (example_tree a b)"
  by (auto simp: wf_tree_def example_tree_def wf_path_def wf_part_def)

abbreviation example_rev :: "string \<Rightarrow> string \<Rightarrow> string" where
  "example_rev a b \<equiv> revision_of example_hashes [(''a'', a), (''b'', b)]"

lemma example_created:
  assumes "p = ''a'' \<or> p = ''b''" and "new \<noteq> (if p = ''a'' then a else b)"
  shows "create_changeset W (\<lambda>_ _ _. []) owner \<lparr>sn_revision = rvn, sn_files = [(''a'', a), (''b'', b)]\<rparr>
     (example_tree (if p = ''a'' then new else a) (if p = ''a'' then b else new)) =
     Inr (one_change W owner rvn p (Some (if p = ''a'' then a else b)) new)"
  using assms by (auto simp: example_changeset_of change_at_def one_change_def)

lemma example_contents: "contents (example_tree a b) = {a, b}"
  by (simp add: contents_def example_tree_def)

lemma example_content:
  "content (example_tree a b) ''a'' = Some a" "content (example_tree a b) ''b'' = Some b"
  by (simp_all add: content_def example_tree_def path_parts_def Let_def)

section \<open>Properties\<close>

text \<open>
  C17. A worker's change set applied to the directory its snapshot was taken of reproduces the
  worker's files: if the active leases cover the changed paths and no file of one side is a
  directory of the other, the integration succeeds and every path has the worker's content, in the
  directory and in the snapshot that is returned.
\<close>

theorem change_set_round_trip:
  assumes "wf_tree base" and "wf_tree work" and "compatible base work"
    and "take_snapshot_of W head base = Inr snap" and "create_changeset W diff owner snap work = Inr c"
    and "validate_changeset B c ls = Inr ()"
  shows "\<exists>sn u. integrate_tree W B head c ls base = (Inr sn, u) \<and> wf_tree u \<and>
     (\<forall>q. content u q = content work q \<and> dget (sn_files sn) q = content work q)"
proof -
  note c = create_changeset_Inr [OF assms(5,2,1,4)]
  let ?K = "set (dkeys (tr_files base)) \<union> set (dkeys (tr_files work))"
  have "\<exists>p \<in> ?K. wf_path p \<and> fc_path f = join_slash p" if f: "f \<in> set (ch_files c)" for f
  proof -
    have "content work (fc_path f) \<noteq> content base (fc_path f)" using c(1) f by (simp add: records_work_def)
    then have "content work (fc_path f) \<noteq> None \<or> content base (fc_path f) \<noteq> None" by metis
    then show ?thesis using assms(1,2) by (auto simp: content_def wf_tree_def split: if_splits)
  qed
  then obtain u where run: "for_each (ch_files c) apply_change base = (Inr (), u)"
    using apply_changes_ok [of "ch_files c" ?K base] assms(3) by (auto simp: compatible_def)
  have "good_changes (ch_files c)" using c(1) by (simp add: records_work_def)
  from apply_changes_content [OF run this assms(1)] have wf: "wf_tree u" by simp
  then obtain sn where sn: "take_snapshot_of W head u = Inr sn" by (rule take_snapshot_content)
  have int: "integrate_tree W B head c ls base = (Inr sn, u)"
    using integrate_tree_ok [OF assms(6,4) _ run] c(3) sn by simp
  have "content u q = content work q" for q
    using integrated_work(3) [OF c(1) int assms(1), of q] by (simp split: if_splits)
  with int wf snapshot_files(1) [OF sn wf] show ?thesis by simp
qed


lemma integrate_tree_guarded:
  assumes "integrate_tree W B head c ls t = (r, u)" and "wf_tree t" and "good_changes (ch_files c)"
    and "content u q \<noteq> content t q"
  shows "\<not> isl r \<and> (\<exists>l \<in> set ls. le_status l = LS_active \<and> le_owner_agent_id l = ch_owner_id c \<and>
     rr_base_revision (le_region l) = ch_base_revision c \<and> allows B q (le_region l) (ch_base_revision c) = Inr True)"
proof (cases r)
  case (Inl e)
  have "tr_files u = tr_files t" using integrate_tree_Inl [OF assms(1) [unfolded Inl] assms(2,3)] by simp
  then have "content u q = content t q" by (simp add: content_def)
  with assms(4) show ?thesis by simp
next
  case (Inr sn)
  from assms(1) have valid: "validate_changeset B c ls = Inr ()"
    and run: "for_each (ch_files c) apply_change t = (Inr (), u)" by (auto simp: Inr elim: integrate_tree_Inr)
  have "changed_to (ch_files c) q \<noteq> None"
    using apply_changes_content [OF run assms(3,2)] assms(4) by (auto split: option.splits)
  then obtain f where "f \<in> set (ch_files c)" "fc_path f = q"
    by (auto simp: changed_to_def find_None_iff)
  then obtain l where "l \<in> set (active_of (ch_owner_id c) ls)"
    "allows B q (le_region l) (ch_base_revision c) = Inr True"
    using validate_changes_Inr valid unfolding validate_changeset_def by blast
  moreover from this have "rr_base_revision (le_region l) = ch_base_revision c" by (blast intro: allows_base)
  ultimately show ?thesis unfolding Inr active_of_def by auto
qed

text \<open>
  In a directory that is the root of a git checkout the revision is the commit, which an
  integration does not move. A second change set from the same snapshot therefore passes the
  revision check: no conflict is ever raised, and where both workers changed a path the later
  integration overwrites the earlier one.
\<close>

theorem git_revision_hides_conflicts:
  assumes "wf_tree base" and "wf_tree work1" and "wf_tree work2"
    and "take_snapshot_of W (Some commit) base = Inr snap"
    and "create_changeset W diff o1 snap work1 = Inr c1" and "create_changeset W diff o2 snap work2 = Inr c2"
    and "integrate_tree W B (Some commit) c1 ls1 base = (Inr sn1, u1)"
    and "integrate_tree W B (Some commit) c2 ls2 u1 = (r, u2)"
    and "validate_changeset B c2 ls2 = Inr ()"
  shows "r \<noteq> Inl IntegrationConflict \<and> (\<not> isl r \<longrightarrow>
     content u2 q = (if content work2 q = content base q then content work1 q else content work2 q))"
proof -
  note c1 = create_changeset_Inr [OF assms(5,2,1,4)]
  note c2 = create_changeset_Inr [OF assms(6,3,1,4)]
  note i1 = integrated_work [OF c1(1) assms(7,1)]
  have u1: "content u1 q = content work1 q" using i1(3) [of q] by (simp split: if_splits)
  have rev: "sn_revision sn1 = ch_base_revision c2"
    using i1(2) assms(4) c2(3) by (auto simp: take_snapshot_of_def split: sum.splits)
  obtain s v where run: "for_each (ch_files c2) apply_change u1 = (s, v)" by fastforce
  have "r \<noteq> Inl IntegrationConflict"
  proof (cases s)
    case (Inl e)
    then have "e = OSError" using apply_changes_error run by auto
    then show ?thesis
      using assms(8,9) i1(2) rev staged_changes_run [OF run]
      by (auto simp: Inl integrate_tree_def andthen_def [of "staged_changes _"] bind_def [of "staged_changes _"])
  next
    case (Inr x)
    have "good_changes (ch_files c2)" using c2(1) by (simp add: records_work_def)
    then have "wf_tree v" using apply_changes_content run i1(1) by (auto simp: Inr)
    then obtain sn where "take_snapshot_of W (Some commit) v = Inr sn" by (rule take_snapshot_content)
    then show ?thesis
      using assms(8,9) i1(2) rev staged_changes_run [OF run]
      by (auto simp: Inr integrate_tree_def andthen_def [of "staged_changes _"] bind_def [of "staged_changes _"])
  qed
  moreover have "content u2 q = (if content work2 q = content base q then content work1 q else content work2 q)"
    if "\<not> isl r"
  proof -
    from that obtain sn2 where "r = Inr sn2" by (cases r) auto
    then show ?thesis using integrated_work(3) [OF c2(1) _ i1(1)] assms(8) u1 by auto
  qed
  ultimately show ?thesis by blast
qed

theorem change_set_round_trip_witness:
  "\<exists>sn u. integrate_tree example_hashes plain_builtins None
       (one_change example_hashes ''w'' (example_rev ''0'' ''0'') ''a'' (Some ''0'') ''1'')
       [example_lease ''w'' ''a'' (example_rev ''0'' ''0'')] (example_tree ''0'' ''0'') = (Inr sn, u) \<and> wf_tree u \<and>
     (\<forall>q. content u q = content (example_tree ''1'' ''0'') q \<and> dget (sn_files sn) q = content (example_tree ''1'' ''0'') q)"
proof (rule change_set_round_trip [OF example_wf example_wf])
  show "compatible (example_tree ''0'' ''0'') (example_tree ''1'' ''0'')"
    by (auto simp: compatible_def example_tree_def ancestors_def)
  show "take_snapshot_of example_hashes None (example_tree ''0'' ''0'') =
      Inr \<lparr>sn_revision = example_rev ''0'' ''0'', sn_files = [(''a'', ''0''), (''b'', ''0'')]\<rparr>"
    by (simp add: example_snapshot_of)
  show "create_changeset example_hashes (\<lambda>_ _ _. []) ''w''
      \<lparr>sn_revision = example_rev ''0'' ''0'', sn_files = [(''a'', ''0''), (''b'', ''0'')]\<rparr> (example_tree ''1'' ''0'') =
      Inr (one_change example_hashes ''w'' (example_rev ''0'' ''0'') ''a'' (Some ''0'') ''1'')"
    using example_created [of "''a''" "''1''" "''0''" "''0''"] by simp
qed (rule example_validate)

theorem git_revision_hides_conflicts_witness:
  "\<exists>r u2. integrate_tree example_hashes plain_builtins (Some ''h'')
       (one_change example_hashes ''v'' ''h'' ''a'' (Some ''0'') ''2'') [example_lease ''v'' ''a'' ''h'']
       (example_tree ''1'' ''0'') = (r, u2) \<and> r \<noteq> Inl IntegrationConflict \<and> content u2 ''a'' = Some ''2''"
proof -
  let ?snap = "\<lparr>sn_revision = ''h'', sn_files = [(''a'', ''0''), (''b'', ''0'')]\<rparr>"
  let ?one = "one_change example_hashes ''w'' ''h'' ''a'' (Some ''0'') ''1''"
  let ?two = "one_change example_hashes ''v'' ''h'' ''a'' (Some ''0'') ''2''"
  have snap: "take_snapshot_of example_hashes (Some ''h'') (example_tree ''0'' ''0'') = Inr ?snap"
    by (simp add: example_snapshot_of)
  have one: "create_changeset example_hashes (\<lambda>_ _ _. []) ''w'' ?snap (example_tree ''1'' ''0'') = Inr ?one"
    and two: "create_changeset example_hashes (\<lambda>_ _ _. []) ''v'' ?snap (example_tree ''2'' ''0'') = Inr ?two"
    using example_created [of "''a''" "''1''" "''0''" "''0''"] example_created [of "''a''" "''2''" "''0''" "''0''"] by simp_all
  have i1: "integrate_tree example_hashes plain_builtins (Some ''h'') ?one [example_lease ''w'' ''a'' ''h'']
      (example_tree ''0'' ''0'') = (take_snapshot_of example_hashes (Some ''h'') (example_tree ''1'' ''0''), example_tree ''1'' ''0'')"
    and i2: "integrate_tree example_hashes plain_builtins (Some ''h'') ?two [example_lease ''v'' ''a'' ''h'']
      (example_tree ''1'' ''0'') = (take_snapshot_of example_hashes (Some ''h'') (example_tree ''2'' ''0''), example_tree ''2'' ''0'')"
    by (auto intro!: example_integrate example_validate)
  note lost = git_revision_hides_conflicts [OF example_wf example_wf example_wf snap one two
      i1 [unfolded example_snapshot_of] i2 example_validate(1)]
  show ?thesis using i2 lost [of "''a''"] by (auto simp: example_snapshot_of example_content)
qed


end
