(* ===== verification/Integration.thy ===== *)
theory Integration
  imports Store Workspaces
begin

text \<open>
  \<^verbatim>\<open>integration/queue.py\<close> and \<^verbatim>\<open>integration/service.py\<close>: the ordered integration of the change
  sets of a plan, with the journal-backed attempts.

  The state is the store with the canonical directory, the claims of the queue, the claims the
  service holds and the log of its \<^verbatim>\<open>append_event\<close> callback. The workspace adapter is a parameter: a
  program on the directory. Identifiers and times come in one record per position of the order.
\<close>

section \<open>State and identifiers\<close>

record integration_claim =
  ic_attempt :: integration_attempt
  ic_token :: string

record 'w workshop = store +
  ws_tree :: 'w
  ws_queue_claims :: "(string, string) dict"
  ws_claims :: "(string, integration_claim) dict"
  ws_events :: "(integration_event_kind \<times> integration_result) list"

record fresh_attempt =
  fa_id :: string
  fa_created_at :: time
  fa_started_at :: time
  fa_claimed_at :: time
  fa_ended_at :: time

definition on_tree :: "('w, 'a) prog \<Rightarrow> ('w workshop, 'a) prog" where
  "on_tree m = (\<lambda>s. case m (ws_tree s) of (r, w) \<Rightarrow> (r, s\<lparr>ws_tree := w\<rparr>))"

section \<open>The queue: integration/queue.py\<close>

definition integration_enqueue ::
    "event hashing \<Rightarrow> integration_attempt \<Rightarrow> ('w workshop, integration_attempt) prog" where
  "integration_enqueue H a =
     andthen (raise_when (ia_status a \<noteq> IS_queued) (ValueError ''integration_enqueue_requires_queued_attempt''))
       (record_integration_attempt H a IE_queued)"

definition integration_before :: "integration_attempt \<Rightarrow> integration_attempt \<Rightarrow> bool" where
  "integration_before a b \<longleftrightarrow>
     (ia_order_index a, ia_created_at a, ia_id a) \<noteq> (ia_order_index b, ia_created_at b, ia_id b) \<and>
     (ia_order_index a < ia_order_index b \<or>
      ia_order_index a = ia_order_index b \<and>
        (ia_created_at a < ia_created_at b \<or> ia_created_at a = ia_created_at b \<and> ia_id a \<le> ia_id b))"

definition claim_candidates :: "string option \<Rightarrow> 'w workshop \<Rightarrow> integration_attempt list" where
  "claim_candidates attempt_id s =
     filter (\<lambda>a. ia_status a = IS_queued \<and> dget (ws_queue_claims s) (ia_id a) = None \<and>
                 (attempt_id = None \<or> attempt_id = Some (ia_id a)))
       (dvalues (st_integration_attempts s))"

definition started :: "time \<Rightarrow> integration_attempt \<Rightarrow> integration_attempt" where
  "started t a = a\<lparr>ia_status := IS_running, ia_version := ia_version a + 1, ia_updated_at := t\<rparr>"

definition integration_claim_next ::
    "event hashing \<Rightarrow> string option \<Rightarrow> string \<Rightarrow> time \<Rightarrow> ('w workshop, integration_claim option) prog"
  where
  "integration_claim_next H attempt_id token t =
     bind (get (claim_candidates attempt_id)) (\<lambda>candidates.
     case candidates of
       [] \<Rightarrow> ret None
     | a # as \<Rightarrow>
         let running = started t (py_min integration_before a as)
         in andthen (record_integration_attempt H running IE_started)
           (andthen (modify (ws_queue_claims_update (dput (ia_id running) token)))
             (ret (Some \<lparr>ic_attempt = running, ic_token = token\<rparr>))))"

definition terminal_event :: "integration_attempt_status \<Rightarrow> integration_event_kind option" where
  "terminal_event st =
     (case st of IS_integrated \<Rightarrow> Some IE_completed | IS_conflicted \<Rightarrow> Some IE_conflict
      | IS_rejected \<Rightarrow> Some IE_blocked | _ \<Rightarrow> None)"

definition owns_claim :: "integration_claim \<Rightarrow> 'w workshop \<Rightarrow> bool" where
  "owns_claim c s \<longleftrightarrow> dget (ws_queue_claims s) (ia_id (ic_attempt c)) = Some (ic_token c)"

definition integration_ack ::
    "event hashing \<Rightarrow> integration_claim \<Rightarrow> integration_attempt \<Rightarrow> ('w workshop, integration_attempt) prog"
  where
  "integration_ack H c terminal =
     bind (get (owns_claim c)) (\<lambda>own.
     andthen (raise_when (\<not> own) (ValueError ''integration_claim_not_owned''))
    (case (if ia_id terminal = ia_id (ic_attempt c) then terminal_event (ia_status terminal) else None) of
       None \<Rightarrow> raise_exn (ValueError ''integration_ack_requires_terminal_attempt'')
     | Some k \<Rightarrow>
         bind (record_integration_attempt H terminal k) (\<lambda>result.
         andthen (modify (ws_queue_claims_update (dpop (ia_id (ic_attempt c))))) (ret result))))"

definition integration_requeue ::
    "event hashing \<Rightarrow> integration_claim \<Rightarrow> string option \<Rightarrow> time \<Rightarrow> ('w workshop, integration_attempt) prog"
  where
  "integration_requeue H c message t =
     bind (get (owns_claim c)) (\<lambda>own.
     andthen (raise_when (\<not> own) (ValueError ''integration_claim_not_owned''))
    (let queued = (ic_attempt c)\<lparr>ia_status := IS_queued, ia_version := ia_version (ic_attempt c) + 1,
                                 ia_message := message, ia_updated_at := t\<rparr>
     in andthen (record_integration_attempt H queued IE_requeued)
       (andthen (modify (ws_queue_claims_update (dpop (ia_id (ic_attempt c))))) (ret queued))))"

text \<open>\<^verbatim>\<open>recover\<close> goes over the attempts there are when it starts; an error ends it.\<close>

definition requeued :: "time \<Rightarrow> integration_attempt \<Rightarrow> integration_attempt" where
  "requeued t a = a\<lparr>ia_status := IS_queued, ia_version := ia_version a + 1, ia_updated_at := t\<rparr>"

definition integration_recover :: "event hashing \<Rightarrow> time \<Rightarrow> ('w workshop, nat) prog" where
  "integration_recover H t =
     bind (get (\<lambda>s. filter (\<lambda>a. ia_status a = IS_running) (dvalues (st_integration_attempts s)))) (\<lambda>running.
     andthen (for_each running (\<lambda>a. andthen (record_integration_attempt H (requeued t a) IE_requeued) (ret ())))
    (andthen (modify (ws_queue_claims_update (\<lambda>_. []))) (ret (length running))))"

section \<open>The service: integration/service.py\<close>

record service_config =
  sc_store :: bool
  sc_queue :: bool
  sc_events :: bool

definition new_integration_attempt ::
    "string \<Rightarrow> time \<Rightarrow> string \<Rightarrow> nat \<Rightarrow> string option \<Rightarrow> changeset option \<Rightarrow> integration_attempt" where
  "new_integration_attempt i t client_ref order_index parent c =
     \<lparr>ia_id = i, ia_version = 1, ia_parent_task_id = parent, ia_client_ref = client_ref,
      ia_order_index = order_index, ia_owner_id = map_option ch_owner_id c,
      ia_base_revision = map_option ch_base_revision c, ia_status = IS_queued, ia_code = None,
      ia_message = None, ia_revision = None, ia_created_at = t, ia_updated_at = t\<rparr>"

definition persist_attempt ::
    "event hashing \<Rightarrow> service_config \<Rightarrow> integration_attempt \<Rightarrow> integration_event_kind \<Rightarrow> time \<Rightarrow>
     ('w workshop, unit) prog" where
  "persist_attempt H cfg a k t =
     (if sc_queue cfg \<and> k = IE_queued then andthen (integration_enqueue H a) (ret ())
      else if sc_queue cfg \<and> k = IE_started
      then bind (integration_claim_next H (Some (ia_id a)) ''local'' t) (\<lambda>claim.
           case claim of
             None \<Rightarrow> raise_exn (RuntimeError ''integration_claim_unavailable'')
           | Some c \<Rightarrow> modify (ws_claims_update (dput (ia_id a) c)))
      else if sc_store cfg then andthen (record_integration_attempt H a k) (ret ())
      else ret ())"

definition persist_terminal ::
    "event hashing \<Rightarrow> service_config \<Rightarrow> integration_attempt \<Rightarrow> integration_event_kind \<Rightarrow>
     integration_result \<Rightarrow> ('w workshop, unit) prog" where
  "persist_terminal H cfg a k result =
     bind (get (\<lambda>s. dget (ws_claims s) (ia_id a))) (\<lambda>claim.
     andthen (modify (ws_claims_update (dpop (ia_id a))))
    (andthen (case (if sc_queue cfg then claim else None) of
                Some c \<Rightarrow> andthen (integration_ack H c a) (ret ())
              | None \<Rightarrow> persist_attempt H cfg a k 0)
      (if sc_events cfg then modify (ws_events_update (\<lambda>es. es @ [(k, result)])) else ret ())))"

text \<open>\<^verbatim>\<open>try: m except Exception as error: ...\<close>, as a value.\<close>

definition try_run :: "('s, 'a) prog \<Rightarrow> ('s, 'a res) prog" where
  "try_run m = (\<lambda>s. case m s of (r, t) \<Rightarrow> (Inr r, t))"

definition blocked_result ::
    "string \<Rightarrow> string \<Rightarrow> string option \<Rightarrow> string option \<Rightarrow> integration_result" where
  "blocked_result client_ref code message owner =
     \<lparr>ir_client_ref = client_ref, ir_status = IO_blocked, ir_code = Some code, ir_message = message,
      ir_owner_id = owner, ir_revision = None\<rparr>"

definition ended :: "integration_attempt_status \<Rightarrow> time \<Rightarrow> integration_attempt \<Rightarrow> integration_attempt" where
  "ended st t a = a\<lparr>ia_status := st, ia_version := ia_version a + 1, ia_updated_at := t\<rparr>"

text \<open>
  What the outcome of the adapter makes of the running attempt: the terminal attempt, its event and
  the result; \<open>message_of\<close> is \<^verbatim>\<open>str(error)\<close>.
\<close>

definition integration_outcome_of ::
    "(exn \<Rightarrow> string) \<Rightarrow> string \<Rightarrow> changeset \<Rightarrow> time \<Rightarrow> integration_attempt \<Rightarrow> workspace_snapshot res \<Rightarrow>
     integration_attempt \<times> integration_event_kind \<times> integration_result" where
  "integration_outcome_of message_of client_ref c t a r =
     (case r of
        Inl e \<Rightarrow>
          (let code = (if e = IntegrationConflict then ''integration_conflict'' else ''integration_rejected'');
               st = (if e = IntegrationConflict then IS_conflicted else IS_rejected)
           in ((ended st t a)\<lparr>ia_code := Some code, ia_message := Some (message_of e),
                              ia_owner_id := Some (ch_owner_id c)\<rparr>,
               if e = IntegrationConflict then IE_conflict else IE_blocked,
               blocked_result client_ref code (Some (message_of e)) (Some (ch_owner_id c))))
      | Inr sn \<Rightarrow>
          ((ended IS_integrated t a)\<lparr>ia_revision := Some (sn_revision sn), ia_owner_id := Some (ch_owner_id c)\<rparr>,
           IE_completed,
           \<lparr>ir_client_ref = client_ref, ir_status = IO_integrated, ir_code = None, ir_message = None,
            ir_owner_id = Some (ch_owner_id c), ir_revision = Some (sn_revision sn)\<rparr>))"

type_synonym 'w workspace_adapter = "changeset \<Rightarrow> writer_lease list \<Rightarrow> ('w, workspace_snapshot) prog"

fun conclude ::
    "event hashing \<Rightarrow> service_config \<Rightarrow> integration_attempt \<times> integration_event_kind \<times> integration_result \<Rightarrow>
     ('w workshop, integration_result \<times> bool) prog" where
  "conclude H cfg (terminal, k, result) =
     andthen (persist_terminal H cfg terminal k result) (ret (result, k = IE_completed))"

text \<open>One position of the order that has no attempt yet; the flag says whether the loop goes on.\<close>

definition integrate_fresh ::
    "event hashing \<Rightarrow> builtins \<Rightarrow> (exn \<Rightarrow> string) \<Rightarrow> service_config \<Rightarrow> 'w workspace_adapter \<Rightarrow>
     writer_lease list \<Rightarrow> string option \<Rightarrow> string \<Rightarrow> nat \<Rightarrow> fresh_attempt \<Rightarrow> changeset option \<Rightarrow>
     ('w workshop, integration_result \<times> bool) prog" where
  "integrate_fresh H B message_of cfg adapter ls parent client_ref order_index f found =
     (let a = new_integration_attempt (fa_id f) (fa_created_at f) client_ref order_index parent found;
          running = started (fa_started_at f) a in
      andthen (persist_attempt H cfg a IE_queued 0)
     (andthen (persist_attempt H cfg running IE_started (fa_claimed_at f))
     (case found of
        None \<Rightarrow>
          let result = blocked_result client_ref ''changeset_missing'' None None
          in andthen (persist_terminal H cfg ((ended IS_rejected (fa_ended_at f) running)
                        \<lparr>ia_code := Some ''changeset_missing''\<rparr>) IE_blocked result)
               (ret (result, False))
      | Some c \<Rightarrow>
          bind (try_run (andthen (lift (resolve_changeset B c ls)) (on_tree (adapter c ls)))) (\<lambda>r.
          conclude H cfg (integration_outcome_of message_of client_ref c (fa_ended_at f) running r)))))"

fun integrate_each ::
    "event hashing \<Rightarrow> builtins \<Rightarrow> (exn \<Rightarrow> string) \<Rightarrow> service_config \<Rightarrow> 'w workspace_adapter \<Rightarrow>
     writer_lease list \<Rightarrow> string option \<Rightarrow> bool \<Rightarrow> (nat \<Rightarrow> fresh_attempt) \<Rightarrow>
     (string, changeset) dict \<Rightarrow> nat \<Rightarrow> string list \<Rightarrow> ('w workshop, integration_result list) prog" where
  "integrate_each H B message_of cfg adapter ls parent recover fresh changesets n [] = ret []"
| "integrate_each H B message_of cfg adapter ls parent recover fresh changesets n (r # rs) =
     bind (get (\<lambda>s. if sc_store cfg \<and> recover then latest_integration_attempt r parent s else None)) (\<lambda>previous.
     case previous of
       Some a \<Rightarrow>
         (case ia_status a of
            IS_integrated \<Rightarrow>
              bind (integrate_each H B message_of cfg adapter ls parent recover fresh changesets (Suc n) rs)
                (\<lambda>results. ret (integration_result_of a # results))
          | IS_conflicted \<Rightarrow> ret [integration_result_of a]
          | IS_rejected \<Rightarrow> ret [integration_result_of a]
          | _ \<Rightarrow> ret [blocked_result r ''integration_incomplete'' None None])
     | None \<Rightarrow>
         bind (integrate_fresh H B message_of cfg adapter ls parent r n (fresh n) (dget changesets r)) (\<lambda>out.
         if snd out
         then bind (integrate_each H B message_of cfg adapter ls parent recover fresh changesets (Suc n) rs)
                (\<lambda>results. ret (fst out # results))
         else ret [fst out]))"

definition integrate_in_order ::
    "event hashing \<Rightarrow> builtins \<Rightarrow> (exn \<Rightarrow> string) \<Rightarrow> service_config \<Rightarrow> 'w workspace_adapter \<Rightarrow>
     string list \<Rightarrow> (string, changeset) dict \<Rightarrow> writer_lease list \<Rightarrow> string option \<Rightarrow> bool \<Rightarrow>
     (nat \<Rightarrow> fresh_attempt) \<Rightarrow> ('w workshop, integration_result list) prog" where
  "integrate_in_order H B message_of cfg adapter order changesets ls parent recover fresh =
     integrate_each H B message_of cfg adapter ls parent recover fresh changesets 0 order"

section \<open>Lemmas on the steps\<close>

lemma record_integration_run:
  assumes "record_integration_attempt H a k s = (r, t)"
  shows "\<exists>j. (case r of Inl e \<Rightarrow> t = s\<lparr>st_journal := j\<rparr> | Inr x \<Rightarrow> x = a \<and> t = put_integration a (s\<lparr>st_journal := j\<rparr>))"
proof -
  obtain q u where c: "commit H (IntegrationEvent k a) None s = (q, u)" by fastforce
  then obtain j where "u = s\<lparr>st_journal := j\<rparr>" using commit_view by blast
  with assms c show ?thesis
    by (cases q) (auto simp: record_integration_attempt_def andthen_def bind_def)
qed

text \<open>No step of the queue and of the journal touches the directory.\<close>

lemma put_integration_workshop [simp]:
  "ws_tree (put_integration a s) = ws_tree s" "ws_queue_claims (put_integration a s) = ws_queue_claims s"
  "ws_claims (put_integration a s) = ws_claims s" "ws_events (put_integration a s) = ws_events s"
  "st_integration_attempts (put_integration a s) = dput (ia_id a) a (st_integration_attempts s)"
  by (simp_all add: put_integration_def)

lemma record_integration_tree: "record_integration_attempt H a k s = (r, t) \<Longrightarrow> ws_tree t = ws_tree s"
  using record_integration_run [of H a k s r t] by (cases r) auto

lemma record_integration_Inr:
  "record_integration_attempt H a k s = (Inr x, t) \<Longrightarrow>
     x = a \<and> st_integration_attempts t = dput (ia_id a) a (st_integration_attempts s) \<and>
     ws_queue_claims t = ws_queue_claims s \<and> ws_claims t = ws_claims s"
  using record_integration_run [of H a k s "Inr x" t] by auto

lemma keeps_record_tree [keeps_intros]: "keeps (\<lambda>s. ws_tree s = w) (record_integration_attempt H a k)"
  by (rule keepsI) (auto dest: record_integration_tree)

lemma keeps_tree_updates [keeps_intros]:
  "keeps (\<lambda>s. ws_tree s = w) (modify (ws_queue_claims_update f))"
  "keeps (\<lambda>s. ws_tree s = w) (modify (ws_claims_update g))"
  "keeps (\<lambda>s. ws_tree s = w) (modify (ws_events_update h))"
  by (simp_all add: keeps_def)

lemma keeps_persist_tree:
  "keeps (\<lambda>s. ws_tree s = w) (persist_attempt H cfg a k t)"
  "keeps (\<lambda>s. ws_tree s = w) (persist_terminal H cfg a k result)"
proof -
  have enq: "keeps (\<lambda>s. ws_tree s = w) (integration_enqueue H a)" for a
    unfolding integration_enqueue_def by (intro keeps_intros)
  have cl: "keeps (\<lambda>s. ws_tree s = w) (integration_claim_next H i tok t)" for i tok t
    unfolding integration_claim_next_def Let_def
    by (intro keeps_intros) (auto split: list.split intro!: keeps_intros)
  have ack: "keeps (\<lambda>s. ws_tree s = w) (integration_ack H c a)" for c a
    unfolding integration_ack_def by (intro keeps_intros)
  show at: "keeps (\<lambda>s. ws_tree s = w) (persist_attempt H cfg a k t)" for a k t
    unfolding persist_attempt_def by (intro keeps_intros enq cl)
  show "keeps (\<lambda>s. ws_tree s = w) (persist_terminal H cfg a k result)"
    unfolding persist_terminal_def by (intro keeps_intros at ack)
qed

lemma persist_queued_Inr:
  assumes "persist_attempt H cfg a IE_queued t s = (Inr x, u)" and "sc_store cfg"
  shows "st_integration_attempts u = dput (ia_id a) a (st_integration_attempts s)"
  using assms by (auto simp: persist_attempt_def integration_enqueue_def prog_simps split: if_splits
      dest!: record_integration_Inr)

lemma py_min_candidate:
  assumes "claim_candidates (Some i) s = a # as"
  shows "ia_id (py_min integration_before a as) = i"
proof -
  have "py_min integration_before a as \<in> set (a # as)"
    using py_min_in [of integration_before a as] by simp
  then have "py_min integration_before a as \<in> set (claim_candidates (Some i) s)" by (simp only: assms)
  then show ?thesis by (auto simp: claim_candidates_def)
qed

lemma persist_started_Inr:
  assumes "persist_attempt H cfg a IE_started t s = (Inr x, u)" and "sc_store cfg"
  shows "\<exists>b. st_integration_attempts u = dput (ia_id a) b (st_integration_attempts s)"
proof (cases "sc_queue cfg")
  case False
  with assms show ?thesis
    by (auto simp: persist_attempt_def prog_simps dest!: record_integration_Inr)
next
  case True
  with assms obtain c v where claim: "integration_claim_next H (Some (ia_id a)) ''local'' t s = (Inr (Some c), v)"
    and u: "u = ws_claims_update (dput (ia_id a) c) v"
    by (auto simp: persist_attempt_def prog_simps split: option.splits)
  then obtain b bs where "claim_candidates (Some (ia_id a)) s = b # bs"
    by (auto simp: integration_claim_next_def prog_simps split: list.splits)
  note id = py_min_candidate [OF this] and this
  with claim obtain w y where "record_integration_attempt H (started t (py_min integration_before b bs)) IE_started s = (Inr y, w)"
    and "st_integration_attempts v = st_integration_attempts w"
    by (auto simp: integration_claim_next_def Let_def prog_simps)
  with u id show ?thesis by (auto simp: started_def dest!: record_integration_Inr)
qed

lemma persist_terminal_Inr:
  assumes "persist_terminal H cfg a k result s = (Inr x, u)" and "sc_store cfg"
    and "k \<noteq> IE_queued" and "k \<noteq> IE_started"
  shows "st_integration_attempts u = dput (ia_id a) a (st_integration_attempts s)"
  using assms
  by (auto simp: persist_terminal_def persist_attempt_def integration_ack_def prog_simps
      split: if_splits option.splits dest!: record_integration_Inr)

lemma on_tree_attempts:
  "try_run (andthen (lift x) (on_tree m)) s = (r, t) \<Longrightarrow>
     st_integration_attempts t = st_integration_attempts s"
  by (cases x) (auto simp: try_run_def on_tree_def split: prod.splits)

text \<open>What the terminal attempt of a position records of the result.\<close>

definition settles :: "integration_attempt \<Rightarrow> string \<Rightarrow> string option \<Rightarrow> integration_result \<Rightarrow> bool \<Rightarrow> bool" where
  "settles a r parent result go \<longleftrightarrow>
     ia_client_ref a = r \<and> ia_parent_task_id a = parent \<and> integration_result_of a = result \<and>
     ia_status a \<in> (if go then {IS_integrated} else {IS_conflicted, IS_rejected})"

lemma outcome_settles:
  assumes "integration_outcome_of message_of r c t (started t' (new_integration_attempt i t'' r n parent (Some c))) res
     = (a, k, result)"
  shows "settles a r parent result (k = IE_completed)" and "ia_id a = i" and "k \<noteq> IE_queued" and "k \<noteq> IE_started"
    and "ir_client_ref result = r" and "ir_status result = (if k = IE_completed then IO_integrated else IO_blocked)"
  using assms
  by (auto simp: integration_outcome_of_def Let_def settles_def ended_def started_def new_integration_attempt_def
      integration_result_of_def blocked_result_def split: sum.splits if_splits)

text \<open>The three parts of a run that returns.\<close>

definition fresh_running :: "fresh_attempt \<Rightarrow> string \<Rightarrow> nat \<Rightarrow> string option \<Rightarrow> changeset option \<Rightarrow> integration_attempt" where
  "fresh_running f r n parent found =
     started (fa_started_at f) (new_integration_attempt (fa_id f) (fa_created_at f) r n parent found)"

lemma integrate_fresh_None:
  assumes "integrate_fresh H B message_of cfg adapter ls parent r n f None s = (Inr out, t)"
  obtains u v x y z where
    "persist_attempt H cfg (new_integration_attempt (fa_id f) (fa_created_at f) r n parent None) IE_queued 0 s = (Inr x, u)"
    and "persist_attempt H cfg (fresh_running f r n parent None) IE_started (fa_claimed_at f) u = (Inr y, v)"
    and "persist_terminal H cfg ((ended IS_rejected (fa_ended_at f) (fresh_running f r n parent None))
           \<lparr>ia_code := Some ''changeset_missing''\<rparr>) IE_blocked (fst out) v = (Inr z, t)"
    and "out = (blocked_result r ''changeset_missing'' None None, False)"
proof -
  note run = assms [unfolded integrate_fresh_def Let_def fresh_running_def [symmetric] option.case]
  show ?thesis
  proof (rule andthen_InrE [OF run], erule andthen_InrE, erule andthen_InrE)
    fix x u y v z w
    assume "persist_attempt H cfg (new_integration_attempt (fa_id f) (fa_created_at f) r n parent None) IE_queued 0 s = (Inr x, u)"
      and "persist_attempt H cfg (fresh_running f r n parent None) IE_started (fa_claimed_at f) u = (Inr y, v)"
      and "persist_terminal H cfg ((ended IS_rejected (fa_ended_at f) (fresh_running f r n parent None))
           \<lparr>ia_code := Some ''changeset_missing''\<rparr>) IE_blocked (blocked_result r ''changeset_missing'' None None) v = (Inr z, w)"
      and "ret (blocked_result r ''changeset_missing'' None None, False) w = (Inr out, t)"
    then show ?thesis by (intro that) auto
  qed
qed

lemma integrate_fresh_Some:
  assumes "integrate_fresh H B message_of cfg adapter ls parent r n f (Some c) s = (Inr out, t)"
  obtains u v x y q w e k z where
    "persist_attempt H cfg (new_integration_attempt (fa_id f) (fa_created_at f) r n parent (Some c)) IE_queued 0 s = (Inr x, u)"
    and "persist_attempt H cfg (fresh_running f r n parent (Some c)) IE_started (fa_claimed_at f) u = (Inr y, v)"
    and "try_run (andthen (lift (resolve_changeset B c ls)) (on_tree (adapter c ls))) v = (Inr q, w)"
    and "integration_outcome_of message_of r c (fa_ended_at f) (fresh_running f r n parent (Some c)) q = (e, k, fst out)"
    and "snd out = (k = IE_completed)" and "persist_terminal H cfg e k (fst out) w = (Inr z, t)"
proof -
  note run = assms [unfolded integrate_fresh_def Let_def fresh_running_def [symmetric] option.case]
  show ?thesis
  proof (rule andthen_InrE [OF run], erule andthen_InrE, erule bind_InrE)
    fix x u y v q w
    assume parts:
      "persist_attempt H cfg (new_integration_attempt (fa_id f) (fa_created_at f) r n parent (Some c)) IE_queued 0 s = (Inr x, u)"
      "persist_attempt H cfg (fresh_running f r n parent (Some c)) IE_started (fa_claimed_at f) u = (Inr y, v)"
      "try_run (andthen (lift (resolve_changeset B c ls)) (on_tree (adapter c ls))) v = (Inr q, w)"
      and fin: "conclude H cfg (integration_outcome_of message_of r c (fa_ended_at f) (fresh_running f r n parent (Some c)) q) w =
         (Inr out, t)"
    obtain e k res where out: "integration_outcome_of message_of r c (fa_ended_at f) (fresh_running f r n parent (Some c)) q = (e, k, res)"
      by (metis prod_cases3)
    from fin obtain z w' where "persist_terminal H cfg e k res w = (Inr z, w')" "ret (res, k = IE_completed) w' = (Inr out, t)"
      unfolding out conclude.simps by (rule andthen_InrE)
    with parts out show ?thesis by (intro that [of x u y v q w e k z]) auto
  qed
qed

lemma integrate_fresh_Inr:
  assumes "integrate_fresh H B message_of cfg adapter ls parent r n f found s = (Inr out, t)"
    and "sc_store cfg"
  obtains a where "st_integration_attempts t = dput (fa_id f) a (st_integration_attempts s)"
    and "settles a r parent (fst out) (snd out)"
proof -
  let ?run = "fresh_running f r n parent found"
  have ids: "ia_id (new_integration_attempt (fa_id f) (fa_created_at f) r n parent found) = fa_id f" "ia_id ?run = fa_id f"
    by (simp_all add: new_integration_attempt_def started_def fresh_running_def)
  have running: "\<exists>b. st_integration_attempts v = dput (fa_id f) b (st_integration_attempts s)"
    if "persist_attempt H cfg (new_integration_attempt (fa_id f) (fa_created_at f) r n parent found) IE_queued 0 s = (Inr x, u)"
      and "persist_attempt H cfg ?run IE_started (fa_claimed_at f) u = (Inr y, v)" for x u y v
    using persist_queued_Inr [OF that(1) assms(2)] persist_started_Inr [OF that(2) assms(2)] by (auto simp: ids)
  show ?thesis
  proof (cases found)
    case None
    let ?fin = "(ended IS_rejected (fa_ended_at f) ?run)\<lparr>ia_code := Some ''changeset_missing''\<rparr>"
    from integrate_fresh_None [OF assms(1) [unfolded None]] obtain u v x y z where
      p: "persist_attempt H cfg (new_integration_attempt (fa_id f) (fa_created_at f) r n parent found) IE_queued 0 s = (Inr x, u)"
        "persist_attempt H cfg ?run IE_started (fa_claimed_at f) u = (Inr y, v)"
      and z: "persist_terminal H cfg ?fin IE_blocked (fst out) v = (Inr z, t)"
      and out: "out = (blocked_result r ''changeset_missing'' None None, False)" unfolding None .
    from persist_terminal_Inr [OF z assms(2)] running [OF p]
    have "st_integration_attempts t = dput (fa_id f) ?fin (st_integration_attempts s)" by (auto simp: ended_def ids)
    then show ?thesis
      by (rule that) (simp add: None out settles_def ended_def started_def new_integration_attempt_def fresh_running_def
          integration_result_of_def blocked_result_def)
  next
    case (Some c)
    from integrate_fresh_Some [OF assms(1) [unfolded Some]] obtain u v x y q w e k z where
      p: "persist_attempt H cfg (new_integration_attempt (fa_id f) (fa_created_at f) r n parent found) IE_queued 0 s = (Inr x, u)"
        "persist_attempt H cfg ?run IE_started (fa_claimed_at f) u = (Inr y, v)"
      and tried: "try_run (andthen (lift (resolve_changeset B c ls)) (on_tree (adapter c ls))) v = (Inr q, w)"
      and out: "integration_outcome_of message_of r c (fa_ended_at f) (fresh_running f r n parent (Some c)) q = (e, k, fst out)"
      and go: "snd out = (k = IE_completed)" and fin: "persist_terminal H cfg e k (fst out) w = (Inr z, t)" unfolding Some .
    note e = outcome_settles [OF out [unfolded fresh_running_def]]
    from persist_terminal_Inr [OF fin assms(2) e(3,4)] running [OF p] on_tree_attempts [OF tried] e(2)
    have "st_integration_attempts t = dput (fa_id f) e (st_integration_attempts s)" by auto
    then show ?thesis by (rule that) (simp only: go e(1))
  qed
qed

text \<open>The results name the positions in order; the run stops at the first one that is not integrated.\<close>

lemma integrate_fresh_result:
  assumes "integrate_fresh H B message_of cfg adapter ls parent r n f found s = (Inr out, t)"
  shows "ir_client_ref (fst out) = r \<and> ir_status (fst out) = (if snd out then IO_integrated else IO_blocked)"
proof (cases found)
  case None
  have "out = (blocked_result r ''changeset_missing'' None None, False)"
    by (rule integrate_fresh_None [OF assms [unfolded None]])
  then show ?thesis by (simp add: blocked_result_def)
next
  case (Some c)
  from integrate_fresh_Some [OF assms [unfolded Some]] obtain q e k where
    "integration_outcome_of message_of r c (fa_ended_at f) (fresh_running f r n parent (Some c)) q = (e, k, fst out)"
    and go: "snd out = (k = IE_completed)" .
  from outcome_settles(5,6) [OF this(1) [unfolded fresh_running_def]] go show ?thesis by simp
qed

section \<open>Lemmas on the latest attempt\<close>

lemma latest_fresh:
  assumes "st_integration_attempts t = dput i a (st_integration_attempts s)"
    and "dget (st_integration_attempts s) i = None" and "settles a r parent result go"
  shows "latest_integration_attempt r parent t = Some a"
    and "r' \<noteq> r \<Longrightarrow> latest_integration_attempt r' parent' t = latest_integration_attempt r' parent' s"
  using assms by (auto simp: latest_integration_attempt_def dput_fresh settles_def)

text \<open>The identifiers of the positions from \<open>n\<close> on are new and distinct.\<close>

definition unused :: "(nat \<Rightarrow> fresh_attempt) \<Rightarrow> nat \<Rightarrow> 'w workshop \<Rightarrow> bool" where
  "unused fresh n s \<longleftrightarrow> inj (\<lambda>m. fa_id (fresh m)) \<and> (\<forall>m\<ge>n. dget (st_integration_attempts s) (fa_id (fresh m)) = None)"

lemma unused_step:
  assumes "unused fresh n s" and "st_integration_attempts t = dput (fa_id (fresh n)) a (st_integration_attempts s)"
  shows "unused fresh (Suc n) t"
  using assms by (auto simp: unused_def dest: injD)

lemma unused_Suc: "unused fresh n s \<Longrightarrow> unused fresh (Suc n) s"
  by (simp add: unused_def)

text \<open>The steps of the loop that returned.\<close>

inductive integration_run ::
    "(string \<Rightarrow> 'w workshop \<Rightarrow> integration_attempt option) \<Rightarrow>
     (nat \<Rightarrow> string \<Rightarrow> ('w workshop, integration_result \<times> bool) prog) \<Rightarrow>
     nat \<Rightarrow> string list \<Rightarrow> 'w workshop \<Rightarrow> integration_result list \<Rightarrow> 'w workshop \<Rightarrow> bool" for look one where
  finished: "integration_run look one n [] s [] s"
| integrated: "look r s = Some a \<Longrightarrow> ia_status a = IS_integrated \<Longrightarrow>
    integration_run look one (Suc n) rs s results t \<Longrightarrow>
    integration_run look one n (r # rs) s (integration_result_of a # results) t"
| failed: "look r s = Some a \<Longrightarrow> ia_status a \<in> {IS_conflicted, IS_rejected} \<Longrightarrow>
    integration_run look one n (r # rs) s [integration_result_of a] s"
| incomplete: "look r s = Some a \<Longrightarrow> ia_status a \<in> {IS_queued, IS_running} \<Longrightarrow>
    integration_run look one n (r # rs) s [blocked_result r ''integration_incomplete'' None None] s"
| proceeds: "look r s = None \<Longrightarrow> one n r s = (Inr (result, True), u) \<Longrightarrow>
    integration_run look one (Suc n) rs u results t \<Longrightarrow>
    integration_run look one n (r # rs) s (result # results) t"
| stops: "look r s = None \<Longrightarrow> one n r s = (Inr (result, False), t) \<Longrightarrow>
    integration_run look one n (r # rs) s [result] t"

inductive_cases integration_run_ConsE: "integration_run look one n (r # rs) s results t"
inductive_cases integration_run_NilE: "integration_run look one n [] s results t"

definition lookup_of :: "service_config \<Rightarrow> bool \<Rightarrow> string option \<Rightarrow> string \<Rightarrow> 'w workshop \<Rightarrow> integration_attempt option" where
  "lookup_of cfg recover parent r s =
     (if sc_store cfg \<and> recover then latest_integration_attempt r parent s else None)"

lemma integrate_each_run:
  "integrate_each H B message_of cfg adapter ls parent recover fresh changesets n rs s = (Inr results, t) \<longleftrightarrow>
   integration_run (lookup_of cfg recover parent)
     (\<lambda>n r. integrate_fresh H B message_of cfg adapter ls parent r n (fresh n) (dget changesets r)) n rs s results t"
   (is "?l n rs s results t \<longleftrightarrow> integration_run ?look ?one n rs s results t")
proof
  show "?l n rs s results t \<Longrightarrow> integration_run ?look ?one n rs s results t"
  proof (induction rs arbitrary: n s results)
    case Nil
    then show ?case by (auto intro: finished)
  next
    case (Cons r rs)
    show ?case
    proof (cases "?look r s")
      case (Some a)
      with Cons show ?thesis
        by (cases "ia_status a") (auto simp: lookup_of_def prog_simps intro: integrated failed incomplete)
    next
      case None
      obtain out u where one: "?one n r s = (Inr out, u)"
        and rest: "(if snd out
         then bind (integrate_each H B message_of cfg adapter ls parent recover fresh changesets (Suc n) rs)
                (\<lambda>results. ret (fst out # results))
         else ret [fst out]) u = (Inr results, t)"
        using Cons.prems None by (auto simp: lookup_of_def bind_eq_Inr)
      show ?thesis
      proof (cases "snd out")
        case True
        with rest obtain tl' where "?l (Suc n) rs u tl' t" "results = fst out # tl'"
          by (auto simp: prog_simps)
        moreover have "?one n r s = (Inr (fst out, True), u)"
          using one True by (metis (full_types) prod.collapse)
        ultimately show ?thesis using proceeds [of ?look r s ?one n "fst out" u rs tl' t] None Cons.IH by simp
      next
        case False
        then have out: "out = (fst out, False)" by (simp add: prod_eq_iff)
        from rest False have "results = [fst out]" "t = u" by simp_all
        moreover have "?one n r s = (Inr (fst out, False), u)" using one out by metis
        ultimately show ?thesis using stops [of ?look r s ?one n "fst out" u rs] None by simp
      qed
    qed
  qed
  show "integration_run ?look ?one n rs s results t \<Longrightarrow> ?l n rs s results t"
  proof (induction rule: integration_run.induct)
    case (integrated r s a n rs results t)
    then show ?case by (simp add: lookup_of_def [symmetric] bind_def)
  next
    case (failed r s a n rs)
    then show ?case by (auto simp: lookup_of_def [symmetric])
  next
    case (incomplete r s a n rs)
    then show ?case by (auto simp: lookup_of_def [symmetric])
  next
    case (proceeds r s n result u rs results t)
    then show ?case by (simp add: lookup_of_def [symmetric] bind_def)
  next
    case (stops r s n result t rs)
    then show ?case by (simp add: lookup_of_def [symmetric] bind_def)
  qed simp
qed

section \<open>Lemmas on runs\<close>

lemma lookup_client: "lookup_of cfg recover parent r s = Some a \<Longrightarrow> ia_client_ref a = r"
  by (auto simp: lookup_of_def latest_integration_attempt_def Let_def split: if_splits
      dest: last_in_set)

definition stops_at_failure :: "integration_result list \<Rightarrow> string list \<Rightarrow> bool" where
  "stops_at_failure results order \<longleftrightarrow>
     map ir_client_ref results = take (length results) order \<and>
     (\<forall>x \<in> set (butlast results). ir_status x = IO_integrated) \<and>
     (length results < length order \<longrightarrow> results \<noteq> [] \<and> ir_status (last results) = IO_blocked) \<and>
     (\<forall>x \<in> set results. ir_status x \<in> {IO_integrated, IO_blocked})"

lemma stops_at_failure_simps [simp]:
  "stops_at_failure [] []"
  "stops_at_failure [x] (r # rs) \<longleftrightarrow> ir_client_ref x = r \<and>
     (ir_status x = IO_blocked \<or> rs = [] \<and> ir_status x = IO_integrated)"
  by (auto simp: stops_at_failure_def)

lemma stops_at_failure_Cons:
  assumes "ir_client_ref x = r" and "ir_status x = IO_integrated" and "stops_at_failure results rs"
  shows "stops_at_failure (x # results) (r # rs)"
  using assms by (cases results) (auto simp: stops_at_failure_def)

lemma integration_run_stops:
  assumes "integration_run (lookup_of cfg recover parent)
     (\<lambda>n r. integrate_fresh H B message_of cfg adapter ls parent r n (fresh n) (dget changesets r)) n rs s results t"
  shows "stops_at_failure results rs"
  using assms
proof (induction rule: integration_run.induct)
  case (integrated r s a n rs results t)
  then show ?case using lookup_client [of cfg recover parent r s a]
    by (intro stops_at_failure_Cons) (simp_all add: integration_result_of_def)
next
  case (failed r s a n rs)
  then show ?case using lookup_client [of cfg recover parent r s a] by (auto simp: integration_result_of_def)
next
  case (incomplete r s a n rs)
  then show ?case by (simp add: blocked_result_def)
next
  case (proceeds r s n result u rs results t)
  then show ?case using integrate_fresh_result [OF proceeds.hyps(2)] by (intro stops_at_failure_Cons) simp_all
next
  case (stops r s n result t rs)
  then show ?case using integrate_fresh_result [OF stops.hyps(2)] by simp
qed simp

lemma integration_run_keeps_latest:
  assumes "integration_run (lookup_of cfg True parent)
     (\<lambda>n r. integrate_fresh H B message_of cfg adapter ls parent r n (fresh n) (dget changesets r)) n rs s results t"
    and "sc_store cfg" and "unused fresh n s" and "latest_integration_attempt r' parent s = Some b"
  shows "latest_integration_attempt r' parent t = Some b"
  using assms
proof (induction rule: integration_run.induct)
  case (integrated r s a n rs results t)
  then show ?case using unused_Suc by blast
next
  case (proceeds r s n result u rs results t)
  obtain a where a: "st_integration_attempts u = dput (fa_id (fresh n)) a (st_integration_attempts s)"
    "settles a r parent result True" using integrate_fresh_Inr [OF proceeds.hyps(2) proceeds.prems(1)] by auto
  have "r' \<noteq> r" using proceeds.hyps(1) proceeds.prems by (auto simp: lookup_of_def)
  moreover have "dget (st_integration_attempts s) (fa_id (fresh n)) = None"
    using proceeds.prems(2) by (simp add: unused_def)
  ultimately have "latest_integration_attempt r' parent u = Some b"
    using latest_fresh(2) [OF a(1) _ a(2)] proceeds.prems(3) by simp
  then show ?case using proceeds.IH proceeds.prems(1) unused_step [OF proceeds.prems(2) a(1)] by blast
next
  case (stops r s n result t rs)
  obtain a where a: "st_integration_attempts t = dput (fa_id (fresh n)) a (st_integration_attempts s)"
    "settles a r parent result False" using integrate_fresh_Inr [OF stops.hyps(2) stops.prems(1)] by auto
  have "r' \<noteq> r" using stops.hyps(1) stops.prems by (auto simp: lookup_of_def)
  moreover have "dget (st_integration_attempts s) (fa_id (fresh n)) = None"
    using stops.prems(2) by (simp add: unused_def)
  ultimately show ?case using latest_fresh(2) [OF a(1) _ a(2)] stops.prems(3) by simp
qed simp_all

lemma integration_run_again:
  assumes "integration_run (lookup_of cfg True parent)
     (\<lambda>n r. integrate_fresh H B message_of cfg adapter ls parent r n (fresh n) (dget changesets r)) n rs s results t"
    and "sc_store cfg" and "sc_store cfg'" and "unused fresh n s"
    and "\<And>r a. latest_integration_attempt r parent t = Some a \<Longrightarrow> latest_integration_attempt r parent u = Some a"
  shows "integration_run (lookup_of cfg' True parent) one' n rs u results u"
  using assms
proof (induction rule: integration_run.induct)
  case (finished n s)
  show ?case by (rule integration_run.finished)
next
  case (integrated r s a n rs results t)
  have "latest_integration_attempt r parent t = Some a"
    using integration_run_keeps_latest [OF integrated.hyps(3) integrated.prems(1) unused_Suc [OF integrated.prems(3)], of r a]
      integrated.hyps(1) integrated.prems(1) by (simp add: lookup_of_def)
  then have "lookup_of cfg' True parent r u = Some a" using integrated.prems by (simp add: lookup_of_def)
  moreover have "integration_run (lookup_of cfg' True parent) one' (Suc n) rs u results u"
    using integrated.prems unused_Suc by (intro integrated.IH) auto
  ultimately show ?case using integrated.hyps(2) by (intro integration_run.integrated)
next
  case (failed r s a n rs)
  then have "lookup_of cfg' True parent r u = Some a" by (simp add: lookup_of_def)
  then show ?case using failed.hyps(2) by (rule integration_run.failed)
next
  case (incomplete r s a n rs)
  then have "lookup_of cfg' True parent r u = Some a" by (simp add: lookup_of_def)
  then show ?case using incomplete.hyps(2) by (rule integration_run.incomplete)
next
  case (proceeds r s n result v rs results t)
  obtain a where a: "st_integration_attempts v = dput (fa_id (fresh n)) a (st_integration_attempts s)"
    "settles a r parent result True" using integrate_fresh_Inr [OF proceeds.hyps(2) proceeds.prems(1)] by auto
  have new: "dget (st_integration_attempts s) (fa_id (fresh n)) = None"
    using proceeds.prems(3) by (simp add: unused_def)
  have "latest_integration_attempt r parent t = Some a"
    using integration_run_keeps_latest [OF proceeds.hyps(3) proceeds.prems(1) unused_step [OF proceeds.prems(3) a(1)]]
      latest_fresh(1) [OF a(1) new a(2)] by blast
  then have "lookup_of cfg' True parent r u = Some a" using proceeds.prems by (simp add: lookup_of_def)
  moreover have "integration_run (lookup_of cfg' True parent) one' (Suc n) rs u results u"
    using proceeds.prems unused_step [OF proceeds.prems(3) a(1)] by (intro proceeds.IH) auto
  ultimately show ?case using a(2) integration_run.integrated [of "lookup_of cfg' True parent" r u a one' n rs results u]
    by (simp add: settles_def)
next
  case (stops r s n result t rs)
  obtain a where a: "st_integration_attempts t = dput (fa_id (fresh n)) a (st_integration_attempts s)"
    "settles a r parent result False" using integrate_fresh_Inr [OF stops.hyps(2) stops.prems(1)] by auto
  have "dget (st_integration_attempts s) (fa_id (fresh n)) = None" using stops.prems(3) by (simp add: unused_def)
  then have "lookup_of cfg' True parent r u = Some a"
    using latest_fresh(1) [OF a(1) _ a(2)] stops.prems by (simp add: lookup_of_def)
  then show ?case using a(2) integration_run.failed [of "lookup_of cfg' True parent" r u a one' n rs]
    by (simp add: settles_def)
qed

section \<open>The workspace interface: workspaces/interfaces.py\<close>

text \<open>
  What the service relies on: an integration keeps the directory well formed, and what it changes,
  it changes because the change set and the leases permit it.
\<close>

lemma keeps_ws_tree:
  assumes "\<And>w. keeps (\<lambda>s. ws_tree s = w) m"
  shows "keeps (\<lambda>s. Q (ws_tree s)) m"
proof (rule keepsI)
  fix s r t
  assume "Q (ws_tree s)" and "m s = (r, t)"
  then show "Q (ws_tree t)" using keepsD [OF assms [of "ws_tree s"] refl] by simp
qed

lemma keeps_try_run: "keeps P m \<Longrightarrow> keeps P (try_run m)"
  by (fastforce simp: keeps_def try_run_def split: prod.split)

locale workspace_port =
  fixes integrate :: "'w workspace_adapter" and valid_tree :: "'w \<Rightarrow> bool" and valid_changes :: "changeset \<Rightarrow> bool"
    and read :: "'w \<Rightarrow> string \<Rightarrow> string option" and permits :: "writer_lease list \<Rightarrow> changeset \<Rightarrow> string \<Rightarrow> bool"
  assumes integrate_permitted: "valid_tree w \<Longrightarrow> valid_changes c \<Longrightarrow> integrate c ls w = (r, v) \<Longrightarrow>
    valid_tree v \<and> (\<forall>q. read v q \<noteq> read w q \<longrightarrow> \<not> isl r \<and> permits ls c q)"
begin

definition within_permits :: "'w \<Rightarrow> writer_lease list \<Rightarrow> changeset set \<Rightarrow> 'w \<Rightarrow> bool" where
  "within_permits w ls C v \<longleftrightarrow> valid_tree v \<and> (\<forall>q. read v q \<noteq> read w q \<longrightarrow> (\<exists>c \<in> C. permits ls c q))"

lemma keeps_adapter:
  assumes "c \<in> C" and "valid_changes c"
  shows "keeps (\<lambda>s. within_permits w ls C (ws_tree s)) (on_tree (integrate c ls))"
proof (rule keepsI)
  fix s r t
  assume w: "within_permits w ls C (ws_tree s)" and run: "on_tree (integrate c ls) s = (r, t)"
  obtain v where v: "integrate c ls (ws_tree s) = (r, v)" and t: "ws_tree t = v"
    using run by (auto simp: on_tree_def split: prod.splits)
  have "valid_tree (ws_tree s)" using w by (simp add: within_permits_def)
  note step = integrate_permitted [OF this assms(2) v]
  have "\<exists>c \<in> C. permits ls c q" if "read v q \<noteq> read w q" for q
  proof (cases "read v q = read (ws_tree s) q")
    case True
    with that w show ?thesis by (auto simp: within_permits_def)
  next
    case False
    with step assms(1) show ?thesis by blast
  qed
  with step show "within_permits w ls C (ws_tree t)" by (simp add: t within_permits_def)
qed

lemma keeps_fresh:
  assumes "\<And>c. found = Some c \<Longrightarrow> c \<in> C \<and> valid_changes c"
  shows "keeps (\<lambda>s. within_permits w ls C (ws_tree s))
     (integrate_fresh H B message_of cfg integrate ls parent r n f found)"
proof -
  have at: "keeps (\<lambda>s. within_permits w ls C (ws_tree s)) (persist_attempt H cfg a k t)"
    and fin: "keeps (\<lambda>s. within_permits w ls C (ws_tree s)) (persist_terminal H cfg a k result)" for a k t result
    by (rule keeps_ws_tree, rule keeps_persist_tree)+
  have "keeps (\<lambda>s. within_permits w ls C (ws_tree s)) (conclude H cfg out)" for out
    by (cases out) (auto intro!: keeps_intros fin)
  with at fin show ?thesis
    unfolding integrate_fresh_def Let_def using assms
    by (intro keeps_intros keeps_try_run keeps_adapter) auto
qed

lemma keeps_integrate_each:
  assumes "\<And>c. c \<in> set (dvalues changesets) \<Longrightarrow> valid_changes c"
  shows "keeps (\<lambda>s. within_permits w ls (set (dvalues changesets)) (ws_tree s))
     (integrate_each H B message_of cfg integrate ls parent recover fresh changesets n rs)"
proof (induction rs arbitrary: n)
  case (Cons r rs)
  have one: "keeps (\<lambda>s. within_permits w ls (set (dvalues changesets)) (ws_tree s))
     (integrate_fresh H B message_of cfg integrate ls parent r n (fresh n) (dget changesets r))"
    using assms dget_value [of changesets r] by (intro keeps_fresh) auto
  have old: "keeps (\<lambda>s. within_permits w ls (set (dvalues changesets)) (ws_tree s))
     (case ia_status a of
            IS_integrated \<Rightarrow>
              bind (integrate_each H B message_of cfg integrate ls parent recover fresh changesets (Suc n) rs)
                (\<lambda>results. ret (integration_result_of a # results))
          | IS_conflicted \<Rightarrow> ret [integration_result_of a]
          | IS_rejected \<Rightarrow> ret [integration_result_of a]
          | _ \<Rightarrow> ret [blocked_result r ''integration_incomplete'' None None])" for a
    by (cases "ia_status a"; simp only: integration_attempt_status.case; intro keeps_intros Cons.IH)
  show ?case unfolding integrate_each.simps
    by (intro keeps_intros one old Cons.IH)
qed (simp add: keeps_ret)

lemma integrate_in_order_permitted:
  assumes "integrate_in_order H B message_of cfg integrate order changesets ls parent recover fresh s = (r, t)"
    and "valid_tree (ws_tree s)" and "\<And>c. c \<in> set (dvalues changesets) \<Longrightarrow> valid_changes c"
  shows "within_permits (ws_tree s) ls (set (dvalues changesets)) (ws_tree t)"
proof (rule keepsD [OF keeps_integrate_each [OF assms(3)] _ assms(1) [unfolded integrate_in_order_def]])
  show "within_permits (ws_tree s) ls (set (dvalues changesets)) (ws_tree s)"
    using assms(2) by (simp add: within_permits_def)
qed

end

text \<open>A lease of the owner of the change set, active and on its base revision, that allows the path.\<close>

definition lease_permits :: "builtins \<Rightarrow> writer_lease list \<Rightarrow> changeset \<Rightarrow> string \<Rightarrow> bool" where
  "lease_permits B ls c q \<longleftrightarrow> (\<exists>l \<in> set ls. le_status l = LS_active \<and> le_owner_agent_id l = ch_owner_id c \<and>
     rr_base_revision (le_region l) = ch_base_revision c \<and> allows B q (le_region l) (ch_base_revision c) = Inr True)"

interpretation local_directory:
  workspace_port "integrate_tree W B head" wf_tree "\<lambda>c. good_changes (ch_files c)" content "lease_permits B"
  for W B head
proof
  fix w c ls r v
  assume w: "wf_tree w" and c: "good_changes (ch_files c)" and run: "integrate_tree W B head c ls w = (r, v)"
  have "wf_tree v"
  proof (cases "for_each (ch_files c) apply_change w = (Inr (), v)")
    case True
    then show ?thesis using apply_changes_content c w by blast
  next
    case False
    with integrate_tree_cases [OF run] have "tr_files v = tr_files w" by auto
    with w show ?thesis by (simp add: wf_tree_def)
  qed
  then show "wf_tree v \<and> (\<forall>q. content v q \<noteq> content w q \<longrightarrow> \<not> isl r \<and> lease_permits B ls c q)"
    using integrate_tree_guarded [OF run w c] unfolding lease_permits_def by blast
qed

section \<open>Lemmas on recovery\<close>

lemma last_filter_dput:
  "dget d k = Some w \<Longrightarrow> p v = p w \<Longrightarrow>
     (filter p (dvalues (dput k v d)) = [] \<longleftrightarrow> filter p (dvalues d) = []) \<and>
     (filter p (dvalues d) \<noteq> [] \<longrightarrow> last (filter p (dvalues (dput k v d))) \<in> {v, last (filter p (dvalues d))})"
  by (induction d) (auto split: if_splits)

lemma latest_put:
  assumes "dget (st_integration_attempts s) (ia_id b) = Some w"
    and "ia_client_ref b = ia_client_ref w" and "ia_parent_task_id b = ia_parent_task_id w"
    and "latest_integration_attempt r parent s = Some a"
    and "st_integration_attempts t = dput (ia_id b) b (st_integration_attempts s)"
  shows "latest_integration_attempt r parent t \<in> {Some a, Some b}"
proof -
  let ?p = "\<lambda>a. ia_client_ref a = r \<and> (parent = None \<or> ia_parent_task_id a = parent)"
  have "filter ?p (dvalues (st_integration_attempts s)) \<noteq> []" "last (filter ?p (dvalues (st_integration_attempts s))) = a"
    using assms(4) by (auto simp: latest_integration_attempt_def Let_def split: if_splits)
  then show ?thesis
    using last_filter_dput [OF assms(1), of ?p b] assms(2,3)
    by (auto simp: latest_integration_attempt_def Let_def assms(5))
qed

definition still_pending :: "string \<Rightarrow> string option \<Rightarrow> integration_attempt list \<Rightarrow> 'w workshop \<Rightarrow> bool" where
  "still_pending r parent running s \<longleftrightarrow>
     (\<exists>a. latest_integration_attempt r parent s = Some a \<and> ia_status a \<in> {IS_queued, IS_running}) \<and>
     (\<forall>x \<in> set running. \<exists>w. dget (st_integration_attempts s) (ia_id x) = Some w \<and>
        ia_client_ref x = ia_client_ref w \<and> ia_parent_task_id x = ia_parent_task_id w)"

lemma keeps_pending_record:
  assumes "x \<in> set running"
  shows "keeps (still_pending r parent running) (record_integration_attempt H (requeued t x) IE_requeued)"
proof (rule keepsI)
  fix s q u
  assume p: "still_pending r parent running s" and run: "record_integration_attempt H (requeued t x) IE_requeued s = (q, u)"
  show "still_pending r parent running u"
  proof (cases q)
    case (Inl e)
    then obtain j where "u = s\<lparr>st_journal := j\<rparr>" using record_integration_run [OF run] by auto
    with p show ?thesis by (simp add: still_pending_def latest_integration_attempt_def)
  next
    case (Inr y)
    note u = record_integration_Inr [OF run [unfolded Inr]]
    obtain w where w: "dget (st_integration_attempts s) (ia_id x) = Some w"
      "ia_client_ref x = ia_client_ref w" "ia_parent_task_id x = ia_parent_task_id w"
      using p assms by (auto simp: still_pending_def)
    have id: "ia_id (requeued t x) = ia_id x" "ia_status (requeued t x) = IS_queued"
      "ia_client_ref (requeued t x) = ia_client_ref x" "ia_parent_task_id (requeued t x) = ia_parent_task_id x"
      by (simp_all add: requeued_def)
    obtain a where a: "latest_integration_attempt r parent s = Some a" "ia_status a \<in> {IS_queued, IS_running}"
      using p by (auto simp: still_pending_def)
    have "latest_integration_attempt r parent u \<in> {Some a, Some (requeued t x)}"
      using w u a(1) by (intro latest_put [where b = "requeued t x" and w = w and s = s]) (simp_all add: id)
    then have "\<exists>b. latest_integration_attempt r parent u = Some b \<and> ia_status b \<in> {IS_queued, IS_running}"
      using a(2) id(2) by auto
    moreover have "\<exists>v. dget (st_integration_attempts u) (ia_id y) = Some v \<and>
        ia_client_ref y = ia_client_ref v \<and> ia_parent_task_id y = ia_parent_task_id v" if "y \<in> set running" for y
      using that p w u by (cases "ia_id y = ia_id x") (auto simp: still_pending_def id)
    ultimately show ?thesis by (simp add: still_pending_def)
  qed
qed

lemma keeps_pending_claims: "keeps (still_pending r parent running) (modify (ws_queue_claims_update f))"
  by (simp add: keeps_def still_pending_def latest_integration_attempt_def)

lemma recover_pending:
  assumes "integration_recover H t s = (q, u)" and "still_pending r parent
      (filter (\<lambda>a. ia_status a = IS_running) (dvalues (st_integration_attempts s))) s"
  shows "\<exists>a. latest_integration_attempt r parent u = Some a \<and> ia_status a \<in> {IS_queued, IS_running}"
proof -
  let ?rs = "filter (\<lambda>a. ia_status a = IS_running) (dvalues (st_integration_attempts s))"
  have "keeps (still_pending r parent ?rs) (andthen (for_each ?rs
      (\<lambda>a. andthen (record_integration_attempt H (requeued t a) IE_requeued) (ret ())))
    (andthen (modify (ws_queue_claims_update (\<lambda>_. []))) (ret (length ?rs))))"
    by (intro keeps_intros keeps_pending_record keeps_pending_claims)
  from keepsD [OF this assms(2)] assms(1) have "still_pending r parent ?rs u"
    by (simp add: integration_recover_def)
  then show ?thesis by (simp add: still_pending_def)
qed

section \<open>An example run\<close>

definition example_shop :: "tree \<Rightarrow> tree workshop" where
  "example_shop w = store.extend (new_store [])
     \<lparr>ws_tree = w, ws_queue_claims = [], ws_claims = [], ws_events = []\<rparr>"

definition example_fresh :: "nat \<Rightarrow> fresh_attempt" where
  "example_fresh n = \<lparr>fa_id = replicate n (CHR ''i''), fa_created_at = 0, fa_started_at = 1, fa_claimed_at = 1,
     fa_ended_at = 2\<rparr>"

lemma example_shop_select [simp]:
  "ws_tree (example_shop w) = w" "ws_queue_claims (example_shop w) = []" "ws_claims (example_shop w) = []"
  "st_integration_attempts (example_shop w) = []" "st_journal (example_shop w) = fresh_journal []"
  by (simp_all add: example_shop_def new_store_def empty_view_def view.defs store.defs)

lemma example_shop_healthy: "healthy unit_hashing (example_shop w)"
  using healthy_new_store by (simp add: healthy_def)

lemma example_unused: "unused example_fresh 0 (example_shop w)"
  by (auto simp: unused_def example_fresh_def inj_def dest: arg_cong [where f = length])

lemma healthy_record:
  assumes "healthy H s"
  shows "\<exists>j. record_integration_attempt H a k s = (Inr a, put_integration a (s\<lparr>st_journal := j\<rparr>)) \<and>
    healthy H (put_integration a (s\<lparr>st_journal := j\<rparr>))"
proof -
  obtain j where "commit H (IntegrationEvent k a) None s = (Inr (), s\<lparr>st_journal := j\<rparr>)" "healthy H (s\<lparr>st_journal := j\<rparr>)"
    using healthy_commit [OF assms] by blast
  then show ?thesis
    by (intro exI [of _ j]) (simp add: record_integration_attempt_def andthen_def bind_def healthy_def)
qed

definition quiet_config :: service_config where
  "quiet_config = \<lparr>sc_store = False, sc_queue = False, sc_events = False\<rparr>"

definition journal_config :: service_config where
  "journal_config = \<lparr>sc_store = True, sc_queue = False, sc_events = False\<rparr>"

definition example_change :: changeset where
  "example_change = one_change example_hashes ''w'' ''h'' ''a'' (Some ''0'') ''1''"

lemma example_resolve:
  "resolve_changeset plain_builtins example_change [example_lease ''w'' ''a'' ''h''] = Inr [le_region (example_lease ''w'' ''a'' ''h'')]"
  by (simp add: resolve_changeset_def example_change_def one_change_def resolve_change_path_def example_lease_def Let_def)

lemma example_directory:
  "integrate_tree example_hashes plain_builtins (Some ''h'') example_change [example_lease ''w'' ''a'' ''h'']
     (example_tree ''0'' ''0'') = (Inr \<lparr>sn_revision = ''h'', sn_files = [(''a'', ''1''), (''b'', ''0'')]\<rparr>, example_tree ''1'' ''0'')"
  unfolding example_change_def
  by (subst example_integrate [where u = "example_tree ''1'' ''0''"]) (auto simp: example_validate example_snapshot_of)

lemma example_run:
  "\<exists>x y. integrate_in_order unit_hashing plain_builtins (\<lambda>e. []) quiet_config
     (integrate_tree example_hashes plain_builtins (Some ''h'')) [''a'', ''b''] [(''a'', example_change)]
     [example_lease ''w'' ''a'' ''h''] None True example_fresh (example_shop (example_tree ''0'' ''0'')) =
     (Inr [x, y], example_shop (example_tree ''0'' ''0'')\<lparr>ws_tree := example_tree ''1'' ''0''\<rparr>) \<and>
     ir_status x = IO_integrated \<and> ir_status y = IO_blocked"
  by (simp add: integrate_in_order_def quiet_config_def integrate_fresh_def persist_attempt_def persist_terminal_def
      try_run_def on_tree_def example_resolve example_directory integration_outcome_of_def andthen_def bind_def Let_def
      blocked_result_def)

lemma example_missing:
  "\<exists>x t. integrate_in_order unit_hashing plain_builtins (\<lambda>e. []) journal_config
     (integrate_tree example_hashes plain_builtins (Some ''h'')) [''a''] [] [] (Some ''p'') True example_fresh
     (example_shop (example_tree ''0'' ''0'')) = (Inr [x], t) \<and> ir_code x = Some ''changeset_missing''"
proof -
  let ?s = "example_shop (example_tree ''0'' ''0'')" and ?f = "example_fresh 0"
  let ?a = "new_integration_attempt (fa_id ?f) (fa_created_at ?f) ''a'' 0 (Some ''p'') None"
  let ?b = "started (fa_started_at ?f) ?a"
  let ?c = "(ended IS_rejected (fa_ended_at ?f) ?b)\<lparr>ia_code := Some ''changeset_missing''\<rparr>"
  obtain u v t where steps:
    "record_integration_attempt unit_hashing ?a IE_queued ?s = (Inr ?a, u)"
    "record_integration_attempt unit_hashing ?b IE_started u = (Inr ?b, v)"
    "record_integration_attempt unit_hashing ?c IE_blocked (ws_claims_update (dpop (ia_id ?c)) v) = (Inr ?c, t)"
  proof -
    obtain u where u: "record_integration_attempt unit_hashing ?a IE_queued ?s = (Inr ?a, u)" "healthy unit_hashing u"
      using healthy_record [OF example_shop_healthy] by blast
    obtain v where v: "record_integration_attempt unit_hashing ?b IE_started u = (Inr ?b, v)" "healthy unit_hashing v"
      using healthy_record [OF u(2)] by blast
    have "healthy unit_hashing (ws_claims_update (dpop (ia_id ?c)) v)"
      using v(2) by (simp add: healthy_def)
    from healthy_record [OF this] obtain t where
      "record_integration_attempt unit_hashing ?c IE_blocked (ws_claims_update (dpop (ia_id ?c)) v) = (Inr ?c, t)" by blast
    with u v show ?thesis by (intro that)
  qed
  have "latest_integration_attempt ''a'' (Some ''p'') ?s = None" by (simp add: latest_integration_attempt_def)
  then show ?thesis using steps
    by (simp add: integrate_in_order_def journal_config_def integrate_fresh_def persist_attempt_def persist_terminal_def
        andthen_def bind_def Let_def blocked_result_def)
qed

section \<open>Properties\<close>

text \<open>
  The results of an ordered integration name the positions in the order given, one each, and the
  run ends at the first position that is not integrated: every result but the last is integrated,
  and when positions are left over the last result is blocked. This holds with and without a store, a
  queue and recorded attempts.
\<close>

theorem integration_follows_order:
  assumes "integrate_in_order H B message_of cfg adapter order changesets ls parent recover fresh s = (Inr results, t)"
  shows "map ir_client_ref results = take (length results) order \<and>
    (\<forall>x \<in> set (butlast results). ir_status x = IO_integrated) \<and>
    (length results < length order \<longrightarrow> results \<noteq> [] \<and> ir_status (last results) = IO_blocked)"
  using integration_run_stops assms unfolding integrate_in_order_def integrate_each_run stops_at_failure_def by blast

theorem integration_follows_order_witness:
  "\<exists>(x :: integration_result) (y :: integration_result). ir_client_ref x = ''a'' \<and> ir_client_ref y = ''b'' \<and> ir_status x = IO_integrated"
proof -
  obtain x y where run: "integrate_in_order unit_hashing plain_builtins (\<lambda>e. []) quiet_config
     (integrate_tree example_hashes plain_builtins (Some ''h'')) [''a'', ''b''] [(''a'', example_change)]
     [example_lease ''w'' ''a'' ''h''] None True example_fresh (example_shop (example_tree ''0'' ''0'')) =
     (Inr [x, y], example_shop (example_tree ''0'' ''0'')\<lparr>ws_tree := example_tree ''1'' ''0''\<rparr>)"
    using example_run by blast
  from integration_follows_order [OF run] have "ir_client_ref x = ''a'' \<and> ir_client_ref y = ''b'' \<and> ir_status x = IO_integrated"
    by simp
  then show ?thesis by blast
qed

text \<open>
  A journal-backed integration is done once. When a run returned, another run for the same order
  and parent in any state with the same recorded attempts, for instance after a restart, returns the
  same results and changes nothing: no change set is applied again, whatever adapter, change sets and
  leases it is given. The identifiers of the first run are new.
\<close>

theorem integration_runs_once:
  assumes "integrate_in_order H B message_of cfg adapter order changesets ls parent True fresh s = (Inr results, t)"
    and "sc_store cfg" and "sc_store cfg'" and "unused fresh 0 s"
    and "st_integration_attempts u = st_integration_attempts t"
  shows "integrate_in_order H' B' message_of' cfg' adapter' order changesets' ls' parent True fresh' u = (Inr results, u)"
  unfolding integrate_in_order_def integrate_each_run
proof (rule integration_run_again [OF assms(1) [unfolded integrate_in_order_def integrate_each_run] assms(2-4)])
  fix r a
  assume "latest_integration_attempt r parent t = Some a"
  then show "latest_integration_attempt r parent u = Some a"
    by (simp add: latest_integration_attempt_def assms(5))
qed

theorem integration_runs_once_witness:
  "\<exists>x t. integrate_in_order unit_hashing plain_builtins (\<lambda>e. []) journal_config
     (integrate_tree example_hashes plain_builtins (Some ''h'')) [''a''] [(''a'', example_change)]
     [example_lease ''w'' ''a'' ''h''] (Some ''p'') True example_fresh t = (Inr [x], t) \<and>
     ir_code x = Some ''changeset_missing''"
proof -
  obtain x t where run: "integrate_in_order unit_hashing plain_builtins (\<lambda>e. []) journal_config
     (integrate_tree example_hashes plain_builtins (Some ''h'')) [''a''] [] [] (Some ''p'') True example_fresh
     (example_shop (example_tree ''0'' ''0'')) = (Inr [x], t)" and x: "ir_code x = Some ''changeset_missing''"
    using example_missing by blast
  have cfg: "sc_store journal_config" by (simp add: journal_config_def)
  from integration_runs_once [OF run cfg cfg example_unused refl] x show ?thesis by blast
qed



text \<open>
  An integration that was interrupted blocks its position for good: while the latest attempt of
  the position is queued or running, a run returns \<^verbatim>\<open>integration_incomplete\<close> and does nothing, and
  the queue's recovery, however it ends, only makes running attempts queued ones, so that the same
  holds afterwards.
\<close>

theorem interrupted_integration_blocks:
  assumes "latest_integration_attempt r parent s = Some a" and "ia_status a \<in> {IS_queued, IS_running}"
    and "dwf (st_integration_attempts s)" and "keyed ia_id (st_integration_attempts s)"
    and "integration_recover H' now s = (q, t)" and "sc_store cfg"
  shows "integrate_in_order H B message_of cfg adapter (r # rs) changesets ls parent True fresh t =
    (Inr [blocked_result r ''integration_incomplete'' None None], t)"
proof -
  have "\<exists>w. dget (st_integration_attempts s) (ia_id x) = Some w \<and> ia_client_ref x = ia_client_ref w \<and>
      ia_parent_task_id x = ia_parent_task_id w" if "x \<in> set (dvalues (st_integration_attempts s))" for x
    using keyed_values [OF assms(3,4) that] by blast
  then have "still_pending r parent (filter (\<lambda>a. ia_status a = IS_running) (dvalues (st_integration_attempts s))) s"
    using assms(1,2) by (auto simp: still_pending_def)
  from recover_pending [OF assms(5) this] obtain b where
    "latest_integration_attempt r parent t = Some b" "ia_status b \<in> {IS_queued, IS_running}" by blast
  then have "integration_run (lookup_of cfg True parent)
     (\<lambda>n r. integrate_fresh H B message_of cfg adapter ls parent r n (fresh n) (dget changesets r)) 0 (r # rs) t
     [blocked_result r ''integration_incomplete'' None None] t"
    using assms(6) by (intro incomplete [where a = b]) (simp_all add: lookup_of_def)
  then show ?thesis unfolding integrate_in_order_def integrate_each_run .
qed

theorem interrupted_integration_blocks_witness:
  "\<exists>t. integrate_in_order unit_hashing plain_builtins (\<lambda>e. []) journal_config
     (integrate_tree example_hashes plain_builtins (Some ''h'')) [''a''] [] [] (Some ''p'') True example_fresh t =
     (Inr [blocked_result ''a'' ''integration_incomplete'' None None], t)"
proof -
  let ?a = "started 1 (new_integration_attempt ''i'' 0 ''a'' 0 (Some ''p'') None)"
  let ?s = "put_integration ?a (example_shop (example_tree ''0'' ''0''))"
  have l: "latest_integration_attempt ''a'' (Some ''p'') ?s = Some ?a"
    by (simp add: latest_integration_attempt_def started_def new_integration_attempt_def)
  have st: "ia_status ?a \<in> {IS_queued, IS_running}" by (simp add: started_def)
  have k: "dwf (st_integration_attempts ?s)" "keyed ia_id (st_integration_attempts ?s)" by (simp_all add: keyed_def)
  obtain q t where run: "integration_recover unit_hashing 0 ?s = (q, t)" by fastforce
  have cfg: "sc_store journal_config" by (simp add: journal_config_def)
  show ?thesis using interrupted_integration_blocks [OF l st k run cfg] by blast
qed

end
