(* ===== verification/Completion.thy ===== *)
theory Completion
  imports Evidence Integration "HOL-Library.Product_Lexorder"
begin

text \<open>
  \<^verbatim>\<open>integration/parent_verification.py\<close> and the handlers of \<^verbatim>\<open>api/app.py\<close> that use it: what decides
  the outcome of a parent task, the facts it is given, the write of the outcome and of evidence, and
  the read view of a task.

  An \<^verbatim>\<open>HTTPException\<close> of a handler is a \<open>DomainError\<close> with its code and status. A replayed request
  returns the stored event.
\<close>

section \<open>The parent verification\<close>

text \<open>
  A change fact: a mapping or an object, of which the four entries below are read; an absent status
  is \<open>None\<close>.
\<close>

record change_fact =
  cf_status :: "string option"
  cf_integrated :: bool
  cf_conflict :: bool
  cf_code :: "string option"

record parent_verification_result =
  pv_status :: task_status
  pv_can_complete :: bool
  pv_reasons :: "string list"

definition verdict :: "task_status \<Rightarrow> string \<Rightarrow> parent_verification_result" where
  "verdict st reason = \<lparr>pv_status = st, pv_can_complete = False, pv_reasons = [reason]\<rparr>"

definition conflicting_fact :: "change_fact \<Rightarrow> bool" where
  "conflicting_fact f \<longleftrightarrow>
     cf_conflict f \<or> cf_status f \<in> {Some ''conflicted'', Some ''conflict''} \<or>
     cf_code f = Some ''integration_conflict''"

definition unintegrated_fact :: "change_fact \<Rightarrow> bool" where
  "unintegrated_fact f \<longleftrightarrow> cf_status f \<noteq> Some ''integrated'' \<and> \<not> cf_integrated f"

definition parent_verification ::
    "string list \<Rightarrow> change_fact list \<Rightarrow> evidence_gate_result \<Rightarrow> parent_verification_result" where
  "parent_verification children changes gate =
     (if list_ex (\<lambda>s. s \<in> {''failed'', ''failure'', ''error''}) children then verdict TS_failed ''a child task failed''
      else if list_ex (\<lambda>s. s = ''cancelled'') children then verdict TS_blocked ''a child task was cancelled''
      else if list_ex (\<lambda>s. s = ''blocked'') children then verdict TS_blocked ''a child task is blocked''
      else if filter conflicting_fact changes \<noteq> [] then verdict TS_blocked ''a ChangeSet has an integration conflict''
      else if filter unintegrated_fact changes \<noteq> [] then verdict TS_blocked ''a ChangeSet is not integrated''
      else if \<not> eg_passed gate
      then (if eg_failed_required gate \<noteq> [] then verdict TS_failed ''required evidence failed''
            else if eg_unobserved_required gate \<noteq> [] then verdict TS_blocked ''required evidence is unobserved''
            else verdict TS_blocked ''required evidence is missing'')
      else if list_ex (\<lambda>s. s \<noteq> ''completed'') children then verdict TS_partial ''not all child tasks completed''
      else \<lparr>pv_status = TS_completed, pv_can_complete = True, pv_reasons = []\<rparr>)"

section \<open>The facts of a task: api/app.py\<close>

definition task_integration_attempts :: "string \<Rightarrow> 'r view_scheme \<Rightarrow> integration_attempt list" where
  "task_integration_attempts task_id s =
     sort_key (\<lambda>a. (ia_order_index a, ia_created_at a, ia_id a))
       (filter (\<lambda>a. ia_parent_task_id a = Some task_id) (dvalues (st_integration_attempts s)))"

definition plan_of :: "parent_task \<Rightarrow> 'r view_scheme \<Rightarrow> worker_plan option" where
  "plan_of t s =
     (case pt_plan_id t of None \<Rightarrow> None | Some i \<Rightarrow> if i = [] then None else dget (st_plans s) i)"

definition task_integration_results :: "parent_task \<Rightarrow> 'r view_scheme \<Rightarrow> integration_result list" where
  "task_integration_results t s =
     (let attempts = task_integration_attempts (pt_id t) s in
      case plan_of t s of
        Some p \<Rightarrow> if wl_integration_order p \<noteq> []
                  then recover_integration_results (wl_integration_order p) (Some (pt_id t)) s
                  else map integration_result_of attempts
      | None \<Rightarrow> map integration_result_of attempts)"

definition incomplete_result :: "string \<Rightarrow> integration_result" where
  "incomplete_result r = blocked_result r ''integration_incomplete'' None None"

text \<open>\<open>fallback\<close>: whether the request carries change summaries.\<close>

definition integration_facts :: "parent_task \<Rightarrow> bool \<Rightarrow> 'r view_scheme \<Rightarrow> integration_result list" where
  "integration_facts t fallback s =
     (let results = task_integration_results t s in
      case plan_of t s of
        None \<Rightarrow> results
      | Some p \<Rightarrow>
          if wl_integration_order p = [] then results
          else if results = [] then map incomplete_result (wl_integration_order p)
          else if \<not> fallback then results
          else let by_ref = fold (\<lambda>r. dput (ir_client_ref r) r) results []
               in map (\<lambda>c. case dget by_ref c of None \<Rightarrow> incomplete_result c | Some r \<Rightarrow> r)
                    (wl_integration_order p))"

fun outcome_text :: "integration_outcome \<Rightarrow> string" where
  "outcome_text IO_blocked = ''blocked''"
| "outcome_text IO_queued = ''queued''"
| "outcome_text IO_running = ''running''"
| "outcome_text IO_integrated = ''integrated''"

definition fact_of :: "integration_result \<Rightarrow> change_fact" where
  "fact_of r = \<lparr>cf_status = Some (outcome_text (ir_status r)), cf_integrated = False, cf_conflict = False,
               cf_code = ir_code r\<rparr>"

fun child_status_text :: "worker_attempt_status \<Rightarrow> string" where
  "child_status_text WS_succeeded = ''completed''"
| "child_status_text WS_partial = ''partial''"
| "child_status_text WS_blocked = ''blocked''"
| "child_status_text WS_failed = ''failed''"
| "child_status_text WS_cancelled = ''cancelled''"
| "child_status_text _ = ''partial''"

definition child_results :: "parent_task \<Rightarrow> 'r view_scheme \<Rightarrow> string list" where
  "child_results t s =
     map (\<lambda>a. child_status_text (wa_status a))
       (filter (\<lambda>a. wa_child_task_id a \<in> set (pt_child_task_ids t)) (dvalues (st_attempts s)))"

definition verification_of_task :: "parent_task \<Rightarrow> bool \<Rightarrow> 'r view_scheme \<Rightarrow> parent_verification_result" where
  "verification_of_task t fallback s =
     parent_verification (child_results t s) (map fact_of (integration_facts t fallback s))
       (evaluate_gate (pt_acceptance_contract t) (pt_evidence t))"

section \<open>The writes of verify and evidence\<close>

datatype 'a answer = Replayed "event response" | Answered 'a

record task_verified =
  tv_id :: string
  tv_version :: int
  tv_status :: task_status
  tv_reasons :: "string list"
  tv_can_complete :: bool

definition store_task :: "string \<Rightarrow> parent_task \<Rightarrow> 'r store_scheme \<Rightarrow> 'r store_scheme" where
  "store_task i t = st_tasks_update (dput i t)"

text \<open>The outcome is stored, then committed twice: the event of the request and the task.\<close>

definition settle_task ::
    "event hashing \<Rightarrow> string \<Rightarrow> parent_task \<Rightarrow> parent_verification_result \<Rightarrow> nat \<Rightarrow> idem \<Rightarrow> time \<Rightarrow>
     ('r store_scheme, task_verified) prog" where
  "settle_task H task_id t v children key now =
     bind (rewrap (\<lambda>e. e = StateTransitionError) (DomainError ''invalid_transition'' 409)
       (lift (transition_task t (pv_status v) (pt_version t)
          (if pv_status v = TS_completed
           then Some \<lparr>pc_child_statuses = replicate children TS_completed,
                      pc_changes_integrated = pv_can_complete v,
                      pc_parent_verification_passed = pv_can_complete v\<rparr>
           else None) now))) (\<lambda>u.
     andthen (modify (store_task task_id u))
    (andthen (commit H (TaskMoved task_id (pt_status u)) key)
    (andthen (commit H (TaskUpdated u) None)
    (ret \<lparr>tv_id = task_id, tv_version = pt_version u, tv_status = pt_status u, tv_reasons = pv_reasons v,
          tv_can_complete = pv_can_complete v\<rparr>))))"

definition verify_task ::
    "event hashing \<Rightarrow> string \<Rightarrow> int \<Rightarrow> bool \<Rightarrow> idem \<Rightarrow> time \<Rightarrow>
     ('r store_scheme, task_verified answer) prog" where
  "verify_task H task_id expected fallback key now =
     bind (get (\<lambda>s. dget (st_tasks s) task_id)) (\<lambda>found.
     case found of
       None \<Rightarrow> raise_exn (DomainError ''not_found'' 404)
     | Some t \<Rightarrow>
       bind (get (check_idempotency key)) (\<lambda>checked.
       bind (lift checked) (\<lambda>duplicate.
       case duplicate of
         Some r \<Rightarrow> ret (Replayed r)
       | None \<Rightarrow>
         andthen (raise_when (expected \<noteq> pt_version t) (DomainError ''version_conflict'' 409))
        (bind (get (verification_of_task t fallback)) (\<lambda>v.
         bind (get (\<lambda>s. length (child_results t s))) (\<lambda>n.
         bind (settle_task H task_id t v n key now) (\<lambda>out. ret (Answered out))))))))"

definition record_evidence ::
    "event hashing \<Rightarrow> string \<Rightarrow> int \<Rightarrow> evidence_record \<Rightarrow> idem \<Rightarrow>
     ('r store_scheme, (evidence_record \<times> evidence_gate_result) answer) prog" where
  "record_evidence H task_id expected record key =
     bind (get (\<lambda>s. dget (st_tasks s) task_id)) (\<lambda>found.
     case found of
       None \<Rightarrow> raise_exn (DomainError ''not_found'' 404)
     | Some t \<Rightarrow>
       bind (get (check_idempotency key)) (\<lambda>checked.
       bind (lift checked) (\<lambda>duplicate.
       case duplicate of
         Some r \<Rightarrow> ret (Replayed r)
       | None \<Rightarrow>
         andthen (raise_when (expected \<noteq> pt_version t) (DomainError ''version_conflict'' 409))
        (let u = t\<lparr>pt_evidence := pt_evidence t @ [record], pt_version := pt_version t + 1\<rparr> in
         andthen (modify (store_task task_id u))
        (andthen (commit H (TaskUpdated u) key)
        (ret (Answered (record, evaluate_gate (pt_acceptance_contract t) (pt_evidence u)))))))))"

section \<open>The read view of a task\<close>

datatype integration_view = IV_pending | IV_running | IV_integrated | IV_conflicted

record task_view =
  vw_task :: parent_task
  vw_integration_status :: integration_view
  vw_required :: nat
  vw_satisfied :: nat
  vw_failed :: nat

text \<open>The view takes the last record of a requirement in the list.\<close>

definition last_evidence :: "evidence_record list \<Rightarrow> (string, evidence_record) dict" where
  "last_evidence es = fold (\<lambda>r. dput (ev_requirement_id r) r) es []"

definition task_view_of :: "parent_task \<Rightarrow> 'r view_scheme \<Rightarrow> task_view" where
  "task_view_of t s =
     (let required = filter ac_required (pt_acceptance_contract t);
          latest = last_evidence (pt_evidence t);
          observed = (\<lambda>ok a. case dget latest (ac_id a) of None \<Rightarrow> False | Some r \<Rightarrow> ev_observation_status r \<in> ok);
          results = task_integration_results t s;
          statuses = ir_status ` set results
      in \<lparr>vw_task = t,
          vw_integration_status =
            (if IO_blocked \<in> statuses then IV_conflicted
             else if results \<noteq> [] \<and> statuses = {IO_integrated} then IV_integrated
             else if results \<noteq> [] then IV_running else IV_pending),
          vw_required = length required,
          vw_satisfied = length (filter (observed {OS_observed_pass, OS_not_applicable}) required),
          vw_failed = length (filter (observed {OS_observed_fail}) required)\<rparr>)"

section \<open>Lemmas\<close>

lemma parent_verification_completed:
  "pv_status (parent_verification children changes gate) = TS_completed \<longleftrightarrow>
     (\<forall>c \<in> set children. c = ''completed'') \<and>
     (\<forall>f \<in> set changes. \<not> conflicting_fact f \<and> \<not> unintegrated_fact f) \<and> eg_passed gate"
  by (auto simp: parent_verification_def verdict_def list_ex_iff filter_empty_conv)

lemma parent_verification_outcome:
  "pv_can_complete (parent_verification children changes gate) \<longleftrightarrow>
     pv_status (parent_verification children changes gate) = TS_completed"
  "pv_status (parent_verification children changes gate) \<in> {TS_completed, TS_partial, TS_blocked, TS_failed}"
  by (auto simp: parent_verification_def verdict_def)

lemma child_status_completed: "child_status_text st = ''completed'' \<longleftrightarrow> st = WS_succeeded"
  by (cases st) auto

lemma fact_of_accepted:
  "\<not> conflicting_fact (fact_of r) \<and> \<not> unintegrated_fact (fact_of r) \<longleftrightarrow>
     ir_status r = IO_integrated \<and> ir_code r \<noteq> Some ''integration_conflict''"
  by (cases "ir_status r") (auto simp: conflicting_fact_def unintegrated_fact_def fact_of_def)

lemma verification_completed:
  "pv_status (verification_of_task t fallback s) = TS_completed \<longleftrightarrow>
     (\<forall>a \<in> set (dvalues (st_attempts s)). wa_child_task_id a \<in> set (pt_child_task_ids t) \<longrightarrow> wa_status a = WS_succeeded) \<and>
     (\<forall>r \<in> set (integration_facts t fallback s). ir_status r = IO_integrated \<and> ir_code r \<noteq> Some ''integration_conflict'') \<and>
     eg_passed (evaluate_gate (pt_acceptance_contract t) (pt_evidence t))"
  unfolding verification_of_task_def parent_verification_completed
  by (simp add: fact_of_accepted child_results_def child_status_completed) blast

text \<open>
  C20. The parent verification completes a task exactly when every child result is completed, every
  change fact is integrated and free of conflict, and the evidence gate passed; it says that the task
  can complete exactly then, and gives a reason otherwise. The outcome is always one of completed,
  partial, blocked and failed, and a failed child always makes it failed.
\<close>

theorem parent_verification_decides:
  "(pv_status (parent_verification children changes gate) = TS_completed \<longleftrightarrow>
      (\<forall>c \<in> set children. c = ''completed'') \<and>
      (\<forall>f \<in> set changes. (cf_status f = Some ''integrated'' \<or> cf_integrated f) \<and> \<not> cf_conflict f \<and>
         cf_status f \<notin> {Some ''conflicted'', Some ''conflict''} \<and> cf_code f \<noteq> Some ''integration_conflict'') \<and>
      eg_passed gate) \<and>
   (pv_can_complete (parent_verification children changes gate) \<longleftrightarrow>
      pv_status (parent_verification children changes gate) = TS_completed) \<and>
   (pv_reasons (parent_verification children changes gate) = [] \<longleftrightarrow>
      pv_status (parent_verification children changes gate) = TS_completed) \<and>
   pv_status (parent_verification children changes gate) \<in> {TS_completed, TS_partial, TS_blocked, TS_failed} \<and>
   (''failed'' \<in> set children \<longrightarrow> pv_status (parent_verification children changes gate) = TS_failed)"
proof -
  have "pv_reasons (parent_verification children changes gate) = [] \<longleftrightarrow>
      pv_status (parent_verification children changes gate) = TS_completed"
    by (simp add: parent_verification_def verdict_def)
  moreover have "''failed'' \<in> set children \<Longrightarrow> pv_status (parent_verification children changes gate) = TS_failed"
    by (auto simp: parent_verification_def verdict_def list_ex_iff)
  moreover have "(\<forall>f \<in> set changes. \<not> conflicting_fact f \<and> \<not> unintegrated_fact f) \<longleftrightarrow>
      (\<forall>f \<in> set changes. (cf_status f = Some ''integrated'' \<or> cf_integrated f) \<and> \<not> cf_conflict f \<and>
         cf_status f \<notin> {Some ''conflicted'', Some ''conflict''} \<and> cf_code f \<noteq> Some ''integration_conflict'')"
    unfolding conflicting_fact_def unintegrated_fact_def by blast
  ultimately show ?thesis
    using parent_verification_outcome [of children changes gate] parent_verification_completed [of children changes gate]
    by blast
qed

theorem parent_verification_decides_witness:
  "pv_status (parent_verification [''completed'', ''failed''] [] (evaluate_gate [] [])) = TS_failed \<and>
   pv_status (parent_verification [''completed''] [fact_of (incomplete_result ''a'')] (evaluate_gate [] [])) \<noteq> TS_completed"
  using parent_verification_decides [of "[''completed'', ''failed'']" "[]" "evaluate_gate [] []"]
    parent_verification_decides [of "[''completed'']" "[fact_of (incomplete_result ''a'')]" "evaluate_gate [] []"]
  by (simp add: fact_of_def incomplete_result_def blocked_result_def)

lemma commit_on_journal:
  assumes "st_journal s' = st_journal s" and "commit H e k s' = (r, t)"
  shows "\<exists>j. t = s'\<lparr>st_journal := j\<rparr> \<and> commit H e k s = (r, s\<lparr>st_journal := j\<rparr>)"
proof -
  let ?m = "append_frame H [e] [] (case k of None \<Rightarrow> None
        | Some (k, h) \<Rightarrow> Some (k, h, if length [e] = 1 then OneEvent (hd [e]) else ManyEvents [e])) [] 0"
  obtain q j where "?m (st_journal s) = (q, j)" by fastforce
  with assms show ?thesis unfolding commit_def commit_frame_def on_journal_def by (auto simp del: One_nat_def)
qed

lemma settle_task_Inr:
  assumes "settle_task H task_id tk v n key now s = (Inr out, t)" and "pt_id tk = task_id"
  obtains u j k where "transition_task tk (pv_status v) (pt_version tk)
      (if pv_status v = TS_completed then Some \<lparr>pc_child_statuses = replicate n TS_completed,
          pc_changes_integrated = pv_can_complete v, pc_parent_verification_passed = pv_can_complete v\<rparr> else None) now = Inr u"
    and "commit H (TaskMoved task_id (pt_status u)) key s = (Inr (), s\<lparr>st_journal := j\<rparr>)"
    and "commit H (TaskUpdated u) None (put_task u (s\<lparr>st_journal := j\<rparr>)) = (Inr (), t)"
    and "t = put_task u (s\<lparr>st_journal := k\<rparr>)" and "pt_id u = task_id"
    and "out = \<lparr>tv_id = task_id, tv_version = pt_version u, tv_status = pt_status u, tv_reasons = pv_reasons v,
          tv_can_complete = pv_can_complete v\<rparr>"
proof -
  from assms(1) obtain u w where u: "transition_task tk (pv_status v) (pt_version tk)
      (if pv_status v = TS_completed then Some \<lparr>pc_child_statuses = replicate n TS_completed,
          pc_changes_integrated = pv_can_complete v, pc_parent_verification_passed = pv_can_complete v\<rparr> else None) now = Inr u"
    and w: "commit H (TaskMoved task_id (pt_status u)) key (store_task task_id u s) = (Inr (), w)"
    and t: "commit H (TaskUpdated u) None w = (Inr (), t)"
    and out: "out = \<lparr>tv_id = task_id, tv_version = pt_version u, tv_status = pt_status u, tv_reasons = pv_reasons v,
          tv_can_complete = pv_can_complete v\<rparr>"
    unfolding settle_task_def by (auto simp: prog_simps split: sum.splits)
  have id: "pt_id u = task_id"
    using u assms(2) by (auto simp: transition_task_def split: sum.splits if_splits)
  then have put: "store_task task_id u = put_task u"
    by (simp add: store_task_def put_task_def)
  obtain j where j: "w = (put_task u s)\<lparr>st_journal := j\<rparr>"
    "commit H (TaskMoved task_id (pt_status u)) key s = (Inr (), s\<lparr>st_journal := j\<rparr>)"
    using commit_on_journal [OF _ w [unfolded put], of s] by auto
  have w2: "w = put_task u (s\<lparr>st_journal := j\<rparr>)" by (simp add: j(1) put_task_def)
  obtain k where "t = w\<lparr>st_journal := k\<rparr>" using commit_view [OF t] by blast
  then have "t = put_task u (s\<lparr>st_journal := k\<rparr>)" by (simp add: w2 put_task_def)
  with u j(2) t [unfolded w2] id out show ?thesis by (intro that)
qed

lemma settle_task_consistent:
  assumes "settle_task H task_id tk v n key now s = (Inr out, t)" and "pt_id tk = task_id" and "consistent H s"
  shows "consistent H t"
proof (rule settle_task_Inr [OF assms(1,2)])
  fix u j k
  assume moved: "commit H (TaskMoved task_id (pt_status u)) key s = (Inr (), s\<lparr>st_journal := j\<rparr>)"
    and updated: "commit H (TaskUpdated u) None (put_task u (s\<lparr>st_journal := j\<rparr>)) = (Inr (), t)"
  have "consistent H (s\<lparr>st_journal := j\<rparr>)" using consistent_silent [OF assms(3) moved] by simp
  from consistent_update_commit [OF this _ updated] show ?thesis by simp
qed

lemma verify_task_Inr:
  assumes "verify_task H task_id expected fallback key now s = (Inr (Answered out), t)"
  obtains tk where "dget (st_tasks s) task_id = Some tk" and "expected = pt_version tk"
    and "settle_task H task_id tk (verification_of_task tk fallback s) (length (child_results tk s)) key now s = (Inr out, t)"
  using assms by (auto simp: verify_task_def prog_simps split: option.splits if_splits)

text \<open>
  C21. A task is verified on its facts. When the verify request is answered, the task had the expected
  version, takes the outcome of the parent verification as its status if the state machine allows
  the step, and gets the next version; it is completed only if every attempt of its child tasks
  succeeded, every integration fact is integrated and every required acceptance item is satisfied by
  its latest evidence. The outcome survives a restart.
\<close>

theorem verified_task_is_supported:
  assumes "verify_task H task_id expected fallback key now s = (Inr (Answered out), t)"
    and "consistent H s" and "keyed pt_id (st_tasks s)"
  shows "\<exists>tk u. dget (st_tasks s) task_id = Some tk \<and> pt_version tk = expected \<and>
     tv_status out \<in> set (TASK_TRANSITIONS (pt_status tk)) \<and>
     st_tasks t = dput task_id u (st_tasks s) \<and> u = tk\<lparr>pt_status := tv_status out, pt_version := expected + 1, pt_updated_at := now\<rparr> \<and>
     tv_status out = pv_status (verification_of_task tk fallback s) \<and>
     (tv_status out = TS_completed \<longrightarrow>
        (\<forall>a \<in> set (dvalues (st_attempts s)). wa_child_task_id a \<in> set (pt_child_task_ids tk) \<longrightarrow> wa_status a = WS_succeeded) \<and>
        (\<forall>r \<in> set (integration_facts tk fallback s). ir_status r = IO_integrated) \<and>
        required_acceptance_is_satisfied tk) \<and>
     (\<exists>v. restart H m f io t = Inr v \<and> recorded v = recorded t)"
proof -
  obtain tk where tk: "dget (st_tasks s) task_id = Some tk" "expected = pt_version tk"
    and run: "settle_task H task_id tk (verification_of_task tk fallback s) (length (child_results tk s)) key now s = (Inr out, t)"
    using assms(1) by (rule verify_task_Inr)
  have id: "pt_id tk = task_id" using keyedD [OF assms(3) tk(1)] .
  let ?v = "verification_of_task tk fallback s"
  from settle_task_Inr [OF run id] obtain u k where
    u: "transition_task tk (pv_status ?v) (pt_version tk)
      (if pv_status ?v = TS_completed then Some \<lparr>pc_child_statuses = replicate (length (child_results tk s)) TS_completed,
          pc_changes_integrated = pv_can_complete ?v, pc_parent_verification_passed = pv_can_complete ?v\<rparr> else None) now = Inr u"
    and t: "t = put_task u (s\<lparr>st_journal := k\<rparr>)" and uid: "pt_id u = task_id"
    and out: "out = \<lparr>tv_id = task_id, tv_version = pt_version u, tv_status = pt_status u, tv_reasons = pv_reasons ?v,
          tv_can_complete = pv_can_complete ?v\<rparr>" .
  have ueq: "u = tk\<lparr>pt_status := pv_status ?v, pt_version := pt_version tk + 1, pt_updated_at := now\<rparr>"
    and moves: "pv_status ?v \<in> set (TASK_TRANSITIONS (pt_status tk))"
    and guard: "pv_status ?v = TS_completed \<Longrightarrow> required_acceptance_is_satisfied tk"
    using u by (auto simp: transition_task_def validate_transition_def parent_completion_is_supported_def
        split: sum.splits if_splits)
  have "consistent H t" using settle_task_consistent [OF run id assms(2)] .
  then have "\<exists>v. restart H m f io t = Inr v \<and> recorded v = recorded t" using restart_same by blast
  moreover have "st_tasks t = dput task_id u (st_tasks s)" by (simp add: t put_task_def uid)
  moreover have "pv_status ?v = TS_completed \<longrightarrow>
        (\<forall>a \<in> set (dvalues (st_attempts s)). wa_child_task_id a \<in> set (pt_child_task_ids tk) \<longrightarrow> wa_status a = WS_succeeded) \<and>
        (\<forall>r \<in> set (integration_facts tk fallback s). ir_status r = IO_integrated) \<and>
        required_acceptance_is_satisfied tk"
    using guard verification_completed [of tk fallback s] by blast
  moreover have "tv_status out = pv_status ?v" by (simp add: out ueq)
  ultimately show ?thesis
    using tk moves ueq by (intro exI [of _ tk] exI [of _ u]) simp
qed

text \<open>A store with one running task whose evidence is complete.\<close>

lemma running_store:
  "\<exists>s :: store. healthy unit_hashing s \<and> consistent unit_hashing s \<and> st_tasks s = [(''t'', running_task)] \<and>
     st_attempts s = [] \<and> st_integration_attempts s = []"
proof -
  have h: "healthy unit_hashing (new_store [])" and c: "consistent unit_hashing (new_store [])"
    by (simp_all add: consistent_new_store)
  obtain j where "consistent unit_hashing ((put_task running_task (new_store []))\<lparr>st_journal := j\<rparr>)"
    "healthy unit_hashing ((put_task running_task (new_store []))\<lparr>st_journal := j\<rparr>)"
    using extend_store [OF h c, of "TaskCreated running_task"] by auto
  then show ?thesis by (intro exI) (auto simp: put_task_def running_task_def)
qed

lemma running_task_verdict:
  assumes "st_attempts s = []" and "st_integration_attempts s = []"
  shows "verification_of_task running_task False s = \<lparr>pv_status = TS_completed, pv_can_complete = True, pv_reasons = []\<rparr>"
  using assms
  by (simp add: verification_of_task_def child_results_def integration_facts_def task_integration_results_def plan_of_def
      task_integration_attempts_def parent_verification_def evaluate_gate_def latest_evidence_def note_latest_def running_task_def)

theorem verified_task_is_supported_witness:
  "\<exists>(s :: store) out t. verify_task unit_hashing ''t'' 4 False None 9 s = (Inr (Answered out), t) \<and>
     tv_status out = TS_completed \<and> required_acceptance_is_satisfied running_task"
proof -
  let ?H = "unit_hashing :: event hashing"
  obtain s :: store where s: "healthy ?H s" "consistent ?H s" "st_tasks s = [(''t'', running_task)]"
    "st_attempts s = []" "st_integration_attempts s = []" using running_store by blast
  let ?u = "running_task\<lparr>pt_status := TS_completed, pt_version := 5, pt_updated_at := 9\<rparr>"
  have acc: "required_acceptance_is_satisfied running_task"
    by (simp add: required_acceptance_is_satisfied_def latest_evidence_def note_latest_def running_task_def)
  then have move: "transition_task running_task TS_completed 4
      (Some \<lparr>pc_child_statuses = [], pc_changes_integrated = True, pc_parent_verification_passed = True\<rparr>) 9 = Inr ?u"
    by (simp add: transition_task_def validate_expected_version_def validate_transition_def parent_completion_is_supported_def
        TASK_TERMINAL_def) (simp add: running_task_def)
  have "healthy ?H (store_task ''t'' ?u s)" using s(1) by (simp add: healthy_def store_task_def)
  then obtain j where j: "commit ?H (TaskMoved ''t'' TS_completed) None (store_task ''t'' ?u s) =
      (Inr (), (store_task ''t'' ?u s)\<lparr>st_journal := j\<rparr>)" "healthy ?H ((store_task ''t'' ?u s)\<lparr>st_journal := j\<rparr>)"
    using healthy_commit by blast
  obtain k where k: "commit ?H (TaskUpdated ?u) None ((store_task ''t'' ?u s)\<lparr>st_journal := j\<rparr>) =
      (Inr (), ((store_task ''t'' ?u s)\<lparr>st_journal := j\<rparr>)\<lparr>st_journal := k\<rparr>)"
    using healthy_commit [OF j(2)] by blast
  have v: "pt_version running_task = 4" by (simp add: running_task_def)
  have kids: "child_results running_task s = []" by (simp add: child_results_def s)
  obtain out t where run: "verify_task ?H ''t'' 4 False None 9 s = (Inr (Answered out), t)" and fin: "tv_status out = TS_completed"
    using j k by (simp add: verify_task_def s check_idempotency_def v kids running_task_verdict settle_task_def move andthen_def
        bind_def rewrap_def lift_def)
  have "keyed pt_id (st_tasks s)" by (simp add: s keyed_def running_task_def)
  from verified_task_is_supported [OF run s(2) this] obtain tk where
    "dget (st_tasks s) ''t'' = Some tk" "tv_status out = TS_completed \<longrightarrow> required_acceptance_is_satisfied tk" by blast
  with run fin show ?thesis by (intro exI [of _ s] exI [of _ out] exI [of _ t]) (simp add: s)
qed

section \<open>Unrecorded positions\<close>

lemma dget_by_ref: "k \<notin> f ` set rs \<Longrightarrow> dget (fold (\<lambda>r. dput (f r) r) rs d) k = dget d k"
  by (induction rs arbitrary: d) auto

lemma results_in_order:
  assumes "plan_of t s = Some p" and "wl_integration_order p \<noteq> []"
  shows "task_integration_results t s =
    map integration_result_of (integration_attempts_for_order (wl_integration_order p) (Some (pt_id t)) s)"
  using assms by (simp add: task_integration_results_def recover_integration_results_def Let_def)

lemma set_attempts_for_order:
  "set (integration_attempts_for_order order parent s) = {a. \<exists>r \<in> set order. latest_integration_attempt r parent s = Some a}"
  by (auto simp: integration_attempts_for_order_def map_filter_def image_iff) force

lemma latest_client: "latest_integration_attempt r parent s = Some a \<Longrightarrow> ia_client_ref a = r"
  by (auto simp: latest_integration_attempt_def Let_def split: if_splits dest: last_in_set)

text \<open>
  The verification does not ask for every position of the plan. When some positions of the
  integration order have no recorded attempt at all, the recorded ones are integrated, the children
  succeeded and the gate passed, then a verify request without change summaries, the default,
  completes the task; the same request with a summary is blocked, because then the missing positions
  count as incomplete.
\<close>

theorem verification_skips_unrecorded_positions:
  assumes "plan_of t s = Some p" and "r \<in> set (wl_integration_order p)"
    and "latest_integration_attempt r (Some (pt_id t)) s = None"
    and "r' \<in> set (wl_integration_order p)" and "latest_integration_attempt r' (Some (pt_id t)) s = Some b"
    and "\<forall>c \<in> set (wl_integration_order p). \<forall>a. latest_integration_attempt c (Some (pt_id t)) s = Some a \<longrightarrow>
      ia_status a = IS_integrated \<and> ia_code a = None"
    and "\<forall>a \<in> set (dvalues (st_attempts s)). wa_child_task_id a \<in> set (pt_child_task_ids t) \<longrightarrow> wa_status a = WS_succeeded"
    and "eg_passed (evaluate_gate (pt_acceptance_contract t) (pt_evidence t))"
  shows "pv_status (verification_of_task t False s) = TS_completed \<and>
    pv_status (verification_of_task t True s) \<noteq> TS_completed"
proof -
  let ?rs = "integration_attempts_for_order (wl_integration_order p) (Some (pt_id t)) s"
  have ne: "wl_integration_order p \<noteq> []" using assms(2) by auto
  note results = results_in_order [OF assms(1) ne]
  have some: "b \<in> set ?rs" using assms(4,5) by (auto simp: set_attempts_for_order)
  then have full: "task_integration_results t s \<noteq> []" by (auto simp: results)
  have good: "ir_status x = IO_integrated \<and> ir_code x \<noteq> Some ''integration_conflict''"
    if "x \<in> set (task_integration_results t s)" for x
    using that assms(6) by (auto simp: results set_attempts_for_order integration_result_of_def)
  have "integration_facts t False s = task_integration_results t s"
    using assms(1) ne full by (simp add: integration_facts_def Let_def)
  then have now: "pv_status (verification_of_task t False s) = TS_completed"
    using good assms(7,8) by (simp add: verification_completed)
  have "incomplete_result r \<in> set (integration_facts t True s)"
  proof -
    have "r \<notin> ir_client_ref ` set (task_integration_results t s)"
    proof
      assume "r \<in> ir_client_ref ` set (task_integration_results t s)"
      then obtain a c where a: "latest_integration_attempt c (Some (pt_id t)) s = Some a" "ia_client_ref a = r"
        by (auto simp: results set_attempts_for_order integration_result_of_def)
      with latest_client [OF a(1)] assms(3) show False by simp
    qed
    from dget_by_ref [OF this] have "dget (fold (\<lambda>r. dput (ir_client_ref r) r) (task_integration_results t s) []) r = None"
      by simp
    then show ?thesis using assms(1,2) ne full by (force simp: integration_facts_def Let_def)
  qed
  moreover have "ir_status (incomplete_result r) \<noteq> IO_integrated"
    by (simp add: incomplete_result_def blocked_result_def)
  ultimately have "pv_status (verification_of_task t True s) \<noteq> TS_completed"
    using verification_completed [of t True s] by blast
  with now show ?thesis ..
qed

definition planned_task :: parent_task where
  "planned_task = running_task\<lparr>pt_plan_id := Some ''p''\<rparr>"

definition half_integrated :: view where
  "half_integrated = empty_view\<lparr>
     st_plans := [(''p'', \<lparr>wl_id = ''p'', wl_parent_task_id = ''t'', wl_proposal_hash = [], wl_children = [],
                          wl_integration_order = [''a'', ''b''], wl_version = 1\<rparr>)],
     st_integration_attempts := [(''i'', ended IS_integrated 2 (new_integration_attempt ''i'' 0 ''a'' 0 (Some ''t'') None))]\<rparr>"

theorem verification_skips_unrecorded_positions_witness:
  "pv_status (verification_of_task planned_task False half_integrated) = TS_completed"
proof -
  have plan: "plan_of planned_task half_integrated = Some \<lparr>wl_id = ''p'', wl_parent_task_id = ''t'', wl_proposal_hash = [],
      wl_children = [], wl_integration_order = [''a'', ''b''], wl_version = 1\<rparr>"
    by (simp add: plan_of_def planned_task_def half_integrated_def)
  have look: "latest_integration_attempt c (Some (pt_id planned_task)) half_integrated =
      (if c = ''a'' then Some (ended IS_integrated 2 (new_integration_attempt ''i'' 0 ''a'' 0 (Some ''t'') None)) else None)" for c
    by (simp add: latest_integration_attempt_def half_integrated_def planned_task_def running_task_def ended_def
        new_integration_attempt_def)
  have gate: "eg_passed (evaluate_gate (pt_acceptance_contract planned_task) (pt_evidence planned_task))"
    by (simp add: evaluate_gate_def latest_evidence_def note_latest_def planned_task_def running_task_def)
  have none: "st_attempts half_integrated = []" by (simp add: half_integrated_def empty_view_def)
  show ?thesis
    using verification_skips_unrecorded_positions [OF plan, of "''b''" "''a''"] look gate none
    by (simp add: ended_def new_integration_attempt_def)
qed

text \<open>The read view and the gate may disagree: the gate reads the latest record, the view the last one.\<close>

lemma view_disagrees_with_gate:
  "\<exists>t. eg_passed (evaluate_gate (pt_acceptance_contract t) (pt_evidence t)) \<and> vw_failed (task_view_of t empty_view) = 1"
proof -
  let ?old = "(hd (pt_evidence running_task))\<lparr>ev_recorded_at := 0, ev_observation_status := OS_observed_fail\<rparr>"
  let ?t = "running_task\<lparr>pt_evidence := pt_evidence running_task @ [?old]\<rparr>"
  have "eg_passed (evaluate_gate (pt_acceptance_contract ?t) (pt_evidence ?t)) \<and> vw_failed (task_view_of ?t empty_view) = 1"
    by (simp add: evaluate_gate_def latest_evidence_def note_latest_def running_task_def task_view_of_def last_evidence_def
        Let_def)
  then show ?thesis by (rule exI)
qed

end
