(* ===== verification/Approvals.thy ===== *)
theory Approvals
  imports Completion
begin

text \<open>
  \<^verbatim>\<open>approvals/service.py\<close> and the approval handlers of \<^verbatim>\<open>api/app.py\<close>: the request of a human decision
  and the decision, taken once, before the deadline, among the decisions offered.
\<close>

section \<open>The transition rules: approvals/service.py\<close>

datatype approval_error = VersionConflict | DecisionNotAllowed | ApprovalHasExpired | DecisionConflict | NaiveTimestamp

fun approval_utc :: "datetime \<Rightarrow> approval_error + time" where
  "approval_utc (Aware t) = Inr t"
| "approval_utc (Naive t) = Inl NaiveTimestamp"

text \<open>The deadline is read only while the approval is pending.\<close>

definition expire_approval :: "approval \<Rightarrow> datetime \<Rightarrow> approval_error + approval" where
  "expire_approval a now =
     (case approval_utc now of
        Inl e \<Rightarrow> Inl e
      | Inr moment \<Rightarrow>
          if ap_status a \<noteq> AP_pending then Inr a
          else case approval_utc (ap_expires_at a) of
                 Inl e \<Rightarrow> Inl e
               | Inr deadline \<Rightarrow>
                   if deadline \<le> moment then Inr (a\<lparr>ap_status := AP_expired, ap_version := ap_version a + 1\<rparr>)
                   else Inr a)"

definition decide ::
    "approval \<Rightarrow> approval_decision \<Rightarrow> string option \<Rightarrow> int option \<Rightarrow> datetime \<Rightarrow> approval_error + approval" where
  "decide a d reason expected now =
     (if expected \<noteq> None \<and> expected \<noteq> Some (ap_version a) then Inl VersionConflict
      else if d \<notin> set (ap_allowed_decisions a) then Inl DecisionNotAllowed
      else case expire_approval a now of
             Inl e \<Rightarrow> Inl e
           | Inr c \<Rightarrow>
               if ap_status c = AP_expired then Inl ApprovalHasExpired
               else if ap_status c = AP_approved \<or> ap_status c = AP_rejected
               then (if ap_decision c = Some d then Inr c else Inl DecisionConflict)
               else (case approval_utc now of
                       Inl e \<Rightarrow> Inl e
                     | Inr moment \<Rightarrow>
                         Inr (c\<lparr>ap_status := (if d = AD_approve then AP_approved else AP_rejected),
                                ap_decision := Some d, ap_reason := reason,
                                ap_decided_at := Some (Aware moment), ap_version := ap_version c + 1\<rparr>)))"

section \<open>The handlers: api/app.py\<close>

definition new_approval :: "string \<Rightarrow> string \<Rightarrow> string \<Rightarrow> datetime \<Rightarrow> approval_decision list \<Rightarrow> approval" where
  "new_approval i summary risk expires allowed =
     \<lparr>ap_id = i, ap_action_summary = summary, ap_risk = risk, ap_expires_at = expires, ap_version = 1,
      ap_allowed_decisions = allowed, ap_status = AP_pending, ap_decision = None, ap_reason = None,
      ap_decided_at = None\<rparr>"

text \<open>The commit comes first, then the two dictionaries.\<close>

definition request_approval ::
    "event hashing \<Rightarrow> string \<Rightarrow> approval \<Rightarrow> idem \<Rightarrow> ('r store_scheme, approval answer) prog" where
  "request_approval H task_id a key =
     bind (get (\<lambda>s. dget (st_tasks s) task_id)) (\<lambda>found.
     andthen (raise_when (found = None) (DomainError ''not_found'' 404))
    (bind (get (check_idempotency key)) (\<lambda>checked.
     bind (lift checked) (\<lambda>duplicate.
     case duplicate of
       Some r \<Rightarrow> ret (Replayed r)
     | None \<Rightarrow>
         andthen (commit H (ApprovalEvent AP_pending a (Some task_id)) key)
        (andthen (modify (put_approval a))
        (andthen (modify (st_approval_task_update (dput (ap_id a) task_id)))
        (ret (Answered a))))))))"

definition approval_failure :: "approval_error \<Rightarrow> exn" where
  "approval_failure e =
     DomainError (case e of VersionConflict \<Rightarrow> ''version_conflict'' | DecisionConflict \<Rightarrow> ''approval_conflict''
                  | _ \<Rightarrow> ''approval_denied'') 409"

definition decide_approval ::
    "event hashing \<Rightarrow> string \<Rightarrow> string \<Rightarrow> approval_decision \<Rightarrow> string option \<Rightarrow> int \<Rightarrow> idem \<Rightarrow> datetime \<Rightarrow>
     ('r store_scheme, approval answer) prog" where
  "decide_approval H task_id approval_id d reason expected key now =
     bind (get (\<lambda>s. (dget (st_approvals s) approval_id, dget (st_approval_task s) approval_id))) (\<lambda>found.
     case found of
       (Some a, Some owner) \<Rightarrow>
         andthen (raise_when (owner \<noteq> task_id) (DomainError ''not_found'' 404))
        (bind (get (check_idempotency key)) (\<lambda>checked.
         bind (lift checked) (\<lambda>duplicate.
         case duplicate of
           Some r \<Rightarrow> ret (Replayed r)
         | None \<Rightarrow>
           andthen (raise_when (expected \<noteq> ap_version a) (DomainError ''version_conflict'' 409))
          (case decide a d reason (Some expected) now of
             Inl e \<Rightarrow> raise_exn (approval_failure e)
           | Inr b \<Rightarrow>
               andthen (commit_frame H [ApprovalEvent (ap_status b) b (Some task_id)]
                          [(''approval:'' @ approval_id, ap_version a)] key)
              (andthen (modify (st_approvals_update (dput approval_id b)))
              (ret (Answered b)))))))
     | _ \<Rightarrow> raise_exn (DomainError ''not_found'' 404))"

definition task_approvals :: "string \<Rightarrow> 'r view_scheme \<Rightarrow> approval list res" where
  "task_approvals task_id s =
     (case dget (st_tasks s) task_id of
        None \<Rightarrow> Inl (DomainError ''not_found'' 404)
      | Some t \<Rightarrow> Inr (map snd (filter (\<lambda>(i, a). dget (st_approval_task s) i = Some task_id) (st_approvals s))))"

definition get_approval :: "string \<Rightarrow> string \<Rightarrow> 'r view_scheme \<Rightarrow> approval res" where
  "get_approval task_id approval_id s =
     (case (dget (st_tasks s) task_id, dget (st_approvals s) approval_id) of
        (Some _, Some a) \<Rightarrow> if dget (st_approval_task s) approval_id = Some task_id then Inr a
                            else Inl (DomainError ''not_found'' 404)
      | _ \<Rightarrow> Inl (DomainError ''not_found'' 404))"

section \<open>Lemmas\<close>

lemma decide_Inr:
  assumes "decide a d reason expected now = Inr b"
  shows "d \<in> set (ap_allowed_decisions a) \<and> ap_decision b = Some d \<and> ap_id b = ap_id a \<and>
    (b = a \<and> ap_status a \<in> {AP_approved, AP_rejected} \<or>
     ap_status a = AP_pending \<and> ap_version b = ap_version a + 1 \<and>
     ap_status b = (if d = AD_approve then AP_approved else AP_rejected) \<and>
     (\<exists>moment deadline. now = Aware moment \<and> ap_expires_at a = Aware deadline \<and> moment < deadline))"
proof (cases now)
  case (Aware m)
  show ?thesis
  proof (cases "ap_status a")
    case AP_pending
    with assms Aware show ?thesis
      by (cases "ap_expires_at a") (auto simp: decide_def expire_approval_def split: if_splits)
  qed (use assms Aware in \<open>auto simp: decide_def expire_approval_def split: if_splits\<close>)
qed (use assms in \<open>auto simp: decide_def expire_approval_def split: if_splits\<close>)

lemma decide_approval_cases:
  assumes "decide_approval H task_id approval_id d reason expected key now s = (r, t)"
  shows "(\<exists>j. t = s\<lparr>st_journal := j\<rparr>) \<and> (\<forall>b. r \<noteq> Inr (Answered b)) \<or>
    (\<exists>a b j. dget (st_approvals s) approval_id = Some a \<and> dget (st_approval_task s) approval_id = Some task_id \<and>
       ap_version a = expected \<and> decide a d reason (Some expected) now = Inr b \<and> r = Inr (Answered b) \<and>
       commit_frame H [ApprovalEvent (ap_status b) b (Some task_id)] [(''approval:'' @ approval_id, ap_version a)] key s =
         (Inr (), s\<lparr>st_journal := j\<rparr>) \<and>
       t = s\<lparr>st_journal := j\<rparr>\<lparr>st_approvals := dput approval_id b (st_approvals s)\<rparr>)"
proof -
  have same: ?thesis if "t = s" and "isl r \<or> (\<exists>x. r = Inr (Replayed x))"
    using that by (intro disjI1 conjI exI [of _ "st_journal s"]) auto
  show ?thesis
  proof (cases "dget (st_approvals s) approval_id")
    case None
    then show ?thesis using assms by (intro same) (auto simp: decide_approval_def)
  next
    case (Some a)
    show ?thesis
    proof (cases "dget (st_approval_task s) approval_id = Some task_id \<and> check_idempotency key s = Inr None \<and> expected = ap_version a")
      case False
      then consider "dget (st_approval_task s) approval_id \<noteq> Some task_id"
        | e where "dget (st_approval_task s) approval_id = Some task_id" "check_idempotency key s = Inl e"
        | x where "dget (st_approval_task s) approval_id = Some task_id" "check_idempotency key s = Inr (Some x)"
        | "dget (st_approval_task s) approval_id = Some task_id" "check_idempotency key s = Inr None" "expected \<noteq> ap_version a"
        by (metis old.sum.exhaust option.exhaust)
      then show ?thesis
      proof cases
        case 1
        with assms Some show ?thesis
          by (cases "dget (st_approval_task s) approval_id") (intro same; auto simp: decide_approval_def)+
      qed (use assms Some in \<open>intro same; auto simp: decide_approval_def\<close>)+
    next
      case True
      show ?thesis
      proof (cases "decide a d reason (Some expected) now")
        case (Inl e)
        then show ?thesis using assms Some True by (intro same) (auto simp: decide_approval_def)
      next
        case (Inr b)
        obtain q u where c: "commit_frame H [ApprovalEvent (ap_status b) b (Some task_id)]
            [(''approval:'' @ approval_id, ap_version a)] key s = (q, u)" by fastforce
        then obtain j where u: "u = s\<lparr>st_journal := j\<rparr>"
          by (auto simp: commit_frame_def on_journal_def split: prod.splits)
        show ?thesis
        proof (cases q)
          case (Inl e)
          with assms Some True Inr c u show ?thesis
            by (auto simp: decide_approval_def andthen_def [of "commit_frame _ _ _ _"] bind_def [of "commit_frame _ _ _ _"])
        next
          case q: (Inr x)
          with assms Some True Inr c u show ?thesis
            by (intro disjI2 exI [of _ a] exI [of _ b] exI [of _ j])
              (auto simp: decide_approval_def andthen_def [of "commit_frame _ _ _ _"] bind_def [of "commit_frame _ _ _ _"])
        qed
      qed
    qed
  qed
qed

lemma consistent_frame_update:
  assumes "consistent H s" and "commit_frame H [e] x k s = (Inr (), t)" and "apply_event e t = Inr u"
  shows "consistent H u"
proof -
  have t: "sound_store H t" "event_log t = event_log s @ [e]" "\<exists>j. t = s\<lparr>st_journal := j\<rparr>"
    using commit_frame_Inr [OF consistentD [OF assms(1)] _ assms(2)] by simp_all
  then have "recorded t = recorded s" by auto
  then have "replay (event_log t) empty_view = Inr (recorded u)"
    using assms(1) apply_event_recorded [OF assms(3)] t(2)
    by (simp add: consistent_def replay_def store_log.log_append)
  moreover have "event_log u = event_log t" "sound_store H u"
    using apply_event_journal [OF assms(3)] t(1)
    by (simp_all add: event_log_def sound_store_def)
  ultimately show ?thesis by (simp add: consistent_def)
qed

text \<open>
  C22. A human decision is taken once. Whatever a decide request answers, a recorded approval changes
  only if it is the one named, belongs to the task, is pending, has the expected version, offers the
  decision and has not reached its deadline; then it carries the decision, approved or rejected, at the
  next version. An approval that is not pending keeps its record. An answered decision is stored and
  found by the next process.
\<close>

theorem approval_decided_once:
  assumes "decide_approval H task_id approval_id d reason expected key now s = (r, t)"
    and "keyed ap_id (st_approvals s)" and "consistent H s"
  shows "(\<forall>i a. dget (st_approvals s) i = Some a \<longrightarrow>
      (\<exists>b. dget (st_approvals t) i = Some b \<and>
        (b = a \<or>
         i = approval_id \<and> dget (st_approval_task s) i = Some task_id \<and> ap_status a = AP_pending \<and>
         ap_version a = expected \<and> d \<in> set (ap_allowed_decisions a) \<and>
         (\<exists>moment deadline. now = Aware moment \<and> ap_expires_at a = Aware deadline \<and> moment < deadline) \<and>
         ap_decision b = Some d \<and> ap_status b = (if d = AD_approve then AP_approved else AP_rejected) \<and>
         ap_version b = expected + 1))) \<and>
    (\<forall>b. r = Inr (Answered b) \<longrightarrow> dget (st_approvals t) approval_id = Some b \<and> ap_decision b = Some d \<and>
       (\<exists>u. restart H m f io t = Inr u \<and> recorded u = recorded t))"
  using decide_approval_cases [OF assms(1)]
proof
  assume same: "(\<exists>j. t = s\<lparr>st_journal := j\<rparr>) \<and> (\<forall>b. r \<noteq> Inr (Answered b))"
  then have "st_approvals t = st_approvals s" by auto
  with same show ?thesis by simp
next
  assume "\<exists>a b j. dget (st_approvals s) approval_id = Some a \<and> dget (st_approval_task s) approval_id = Some task_id \<and>
       ap_version a = expected \<and> decide a d reason (Some expected) now = Inr b \<and> r = Inr (Answered b) \<and>
       commit_frame H [ApprovalEvent (ap_status b) b (Some task_id)] [(''approval:'' @ approval_id, ap_version a)] key s =
         (Inr (), s\<lparr>st_journal := j\<rparr>) \<and>
       t = s\<lparr>st_journal := j\<rparr>\<lparr>st_approvals := dput approval_id b (st_approvals s)\<rparr>"
  then obtain a b j where a: "dget (st_approvals s) approval_id = Some a"
      "dget (st_approval_task s) approval_id = Some task_id" "ap_version a = expected"
    and b: "decide a d reason (Some expected) now = Inr b" and r: "r = Inr (Answered b)"
    and c: "commit_frame H [ApprovalEvent (ap_status b) b (Some task_id)] [(''approval:'' @ approval_id, ap_version a)] key s =
         (Inr (), s\<lparr>st_journal := j\<rparr>)"
    and t: "t = s\<lparr>st_journal := j\<rparr>\<lparr>st_approvals := dput approval_id b (st_approvals s)\<rparr>" by blast
  note d = decide_Inr [OF b]
  have id: "ap_id b = approval_id" using keyedD [OF assms(2) a(1)] d by simp
  have "apply_event (ApprovalEvent (ap_status b) b (Some task_id)) (s\<lparr>st_journal := j\<rparr>) = Inr t"
    using a(2) by (simp add: t id put_approval_task_def put_approval_def)
  from consistent_frame_update [OF assms(3) c this]
  have "\<exists>u. restart H m f io t = Inr u \<and> recorded u = recorded t" using restart_same by blast
  moreover have "dget (st_approvals t) i = (if i = approval_id then Some b else dget (st_approvals s) i)" for i
    by (simp add: t)
  ultimately show ?thesis using d a r by auto
qed

definition some_approval :: approval where
  "some_approval = new_approval ''a'' ''s'' ''r'' (Aware 10) [AD_approve, AD_reject]"

lemma approval_store:
  "\<exists>s :: store. healthy unit_hashing s \<and> consistent unit_hashing s \<and> st_approvals s = [(''a'', some_approval)] \<and>
     st_approval_task s = [(''a'', ''t'')]"
proof -
  have h: "healthy unit_hashing (new_store [])" and c: "consistent unit_hashing (new_store [])"
    by (simp_all add: consistent_new_store)
  obtain j where "consistent unit_hashing ((put_approval_task ''a'' (Some ''t'') (put_approval some_approval (new_store [])))\<lparr>st_journal := j\<rparr>)"
    "healthy unit_hashing ((put_approval_task ''a'' (Some ''t'') (put_approval some_approval (new_store [])))\<lparr>st_journal := j\<rparr>)"
    using extend_store [OF h c, of "ApprovalEvent AP_pending some_approval (Some ''t'')"]
    by (auto simp: some_approval_def new_approval_def)
  then show ?thesis by (intro exI) (auto simp: put_approval_task_def put_approval_def some_approval_def new_approval_def)
qed

theorem approval_decided_once_witness:
  "\<exists>(s :: store) b t. decide_approval unit_hashing ''t'' ''a'' AD_approve None 1 None (Aware 5) s = (Inr (Answered b), t) \<and>
     ap_status b = AP_approved \<and> dget (st_approvals t) ''a'' = Some b"
proof -
  obtain s :: store where s: "healthy unit_hashing s" "consistent unit_hashing s" "st_approvals s = [(''a'', some_approval)]"
    "st_approval_task s = [(''a'', ''t'')]" using approval_store by blast
  let ?b = "some_approval\<lparr>ap_status := AP_approved, ap_decision := Some AD_approve, ap_reason := None,
    ap_decided_at := Some (Aware 5), ap_version := 2\<rparr>"
  have d: "decide some_approval AD_approve None (Some 1) (Aware 5) = Inr ?b"
    by (simp add: decide_def expire_approval_def some_approval_def new_approval_def)
  obtain j where j: "commit_frame unit_hashing [ApprovalEvent AP_approved ?b (Some ''t'')] [(''approval:a'', 1)] None s =
      (Inr (), s\<lparr>st_journal := j\<rparr>)" using healthy_commit_frame [OF s(1)] by blast
  have v: "ap_version some_approval = 1" by (simp add: some_approval_def new_approval_def)
  obtain t where run: "decide_approval unit_hashing ''t'' ''a'' AD_approve None 1 None (Aware 5) s = (Inr (Answered ?b), t)"
    using j by (simp add: decide_approval_def s check_idempotency_def v d andthen_def bind_def)
  have k: "keyed ap_id (st_approvals s)" by (simp add: s keyed_def some_approval_def new_approval_def)
  have "dget (st_approvals t) ''a'' = Some ?b" using approval_decided_once [OF run k s(2)] by blast
  with run show ?thesis by (intro exI [of _ s] exI [of _ ?b] exI [of _ t]) simp
qed

end
