(* ===== verification/Application.thy ===== *)
theory Application
  imports Manager Completion
begin

text \<open>
  \<^verbatim>\<open>application/service.py\<close> and \<^verbatim>\<open>application/control.py\<close>: sessions, tasks and plans, and the control of
  a task; \<^verbatim>\<open>control_task\<close> of \<^verbatim>\<open>api/app.py\<close> on top of them.

  The records a request constructs are arguments, with the identifiers drawn for them; validating a
  region of a proposal (\<^verbatim>\<open>ResourceRegion.model_validate\<close>) is the parameter \<open>parse_region\<close>, and the
  digest of a proposal is the parameter \<open>hash\<close>. A replayed request answers with the stored event.
\<close>

section \<open>Sessions and tasks\<close>

definition create_session ::
    "event hashing \<Rightarrow> controller_session \<Rightarrow> idem \<Rightarrow> ('r store_scheme, controller_session answer) prog" where
  "create_session H cs key =
     bind (get (check_idempotency key)) (\<lambda>checked.
     bind (lift checked) (\<lambda>old.
     case old of
       Some r \<Rightarrow> ret (Replayed r)
     | None \<Rightarrow>
         andthen (lift (if wf_controller_session cs then Inr () else Inl (ValueError ''invalid'')))
        (andthen (modify (put_session cs))
        (andthen (commit H (SessionCreated cs) key) (ret (Answered cs))))))"

definition register_epoch ::
    "event hashing \<Rightarrow> string \<Rightarrow> controller_epoch \<Rightarrow> int \<Rightarrow> idem \<Rightarrow> ('r store_scheme, controller_epoch) prog" where
  "register_epoch H session_id ce expected key =
     bind (get (\<lambda>s. dget (st_sessions s) session_id)) (\<lambda>found.
     case found of
       None \<Rightarrow> raise_exn (DomainError ''not_found'' 404)
     | Some cs \<Rightarrow>
         andthen (lift (require_version (cs_version cs) expected))
        (andthen (raise_when (cs_active_controller_epoch_id cs \<notin> {None, Some []})
                    (DomainError ''controller_already_registered'' 409))
        (andthen (modify (put_epoch ce))
        (andthen (modify (put_session (cs\<lparr>cs_active_controller_epoch_id := Some (ce_id ce),
                                         cs_version := cs_version cs + 1\<rparr>)))
        (andthen (commit H (EpochRegistered ce) key) (ret ce))))))"

definition create_task ::
    "event hashing \<Rightarrow> parent_task \<Rightarrow> idem \<Rightarrow> ('r store_scheme, parent_task answer) prog" where
  "create_task H t key =
     bind (get (check_idempotency key)) (\<lambda>checked.
     bind (lift checked) (\<lambda>old.
     case old of
       Some r \<Rightarrow> ret (Replayed r)
     | None \<Rightarrow>
       bind (get (\<lambda>s. dget (st_sessions s) (pt_controller_session_id t))) (\<lambda>found.
         andthen (raise_when (found = None) (DomainError ''not_found'' 404))
        (andthen (modify (put_task t))
        (andthen (commit H (TaskCreated t) key) (ret (Answered t)))))))"

section \<open>The validation of a plan\<close>

definition plan_issue :: "string \<Rightarrow> nat option \<Rightarrow> nat option \<Rightarrow> plan_validation_issue" where
  "plan_issue code child region =
     \<lparr>pi_severity = SV_error, pi_code = code, pi_child = child, pi_region = region\<rparr>"

definition region_keys :: "string list" where
  "region_keys = [''resource_kind'', ''resource_id'', ''selector_type'', ''selector_value'', ''base_revision'']"

fun region_issues :: "nat \<Rightarrow> nat \<Rightarrow> (string \<times> pyval) list list \<Rightarrow> plan_validation_issue list" where
  "region_issues i j [] = []"
| "region_issues i j (r # rs) =
     (if set region_keys \<subseteq> set (dkeys r) then [] else [plan_issue ''invalid_region'' (Some i) (Some j)]) @
     region_issues i (Suc j) rs"

fun child_issues :: "string list \<Rightarrow> nat \<Rightarrow> child_proposal list \<Rightarrow> plan_validation_issue list" where
  "child_issues refs i [] = []"
| "child_issues refs i (c # cs) =
     (if set (cp_depends_on c) \<subseteq> set refs then [] else [plan_issue ''unknown_dependency'' (Some i) None]) @
     region_issues i 0 (cp_write_regions c) @ child_issues refs (Suc i) cs"

definition plan_issues :: "worker_plan_proposal \<Rightarrow> plan_validation_issue list" where
  "plan_issues p =
     (let refs = map cp_client_ref (wp_children p) in
      (if distinct refs then [] else [plan_issue ''duplicate_client_ref'' None None]) @
      (if set (wp_integration_order p) = set refs then [] else [plan_issue ''integration_order_incomplete'' None None]) @
      child_issues refs 0 (wp_children p) @
      (if list_ex (\<lambda>c. cp_client_ref c \<in> set (cp_depends_on c)) (wp_children p)
       then [plan_issue ''dependency_cycle'' None None] else []))"

definition validate_plan :: "(worker_plan_proposal \<Rightarrow> string) \<Rightarrow> worker_plan_proposal \<Rightarrow> plan_validation_result" where
  "validate_plan hash p =
     (let issues = plan_issues p in
      \<lparr>pv_valid = (\<not> list_ex (\<lambda>x. pi_severity x = SV_error) issues), pv_proposal_hash = hash p,
       pv_issues = issues, pv_normalized_plan_id = None\<rparr>)"

section \<open>The commit of a plan\<close>

fun parse_regions ::
    "((string \<times> pyval) list \<Rightarrow> resource_region res) \<Rightarrow> (string \<times> pyval) list list \<Rightarrow> resource_region list res" where
  "parse_regions parse_region [] = Inr []"
| "parse_regions parse_region (r # rs) =
     (case parse_region r of
        Inl e \<Rightarrow> Inl e
      | Inr x \<Rightarrow> (case parse_regions parse_region rs of Inl e \<Rightarrow> Inl e | Inr xs \<Rightarrow> Inr (x # xs)))"

text \<open>One child: its boundary, registered with its owner service, stored and committed.\<close>

definition create_child ::
    "event hashing \<Rightarrow> ((string \<times> pyval) list \<Rightarrow> resource_region res) \<Rightarrow> string \<Rightarrow> string \<Rightarrow> child_proposal \<Rightarrow>
     ('r app_store_scheme, string) prog" where
  "create_child H parse_region task_id i c =
     bind (lift (parse_regions parse_region (cp_write_regions c))) (\<lambda>rs.
     let b = \<lparr>cb_id = i, cb_parent_task_id = task_id, cb_objective = cp_objective c, cb_write_regions = rs,
              cb_version = 1\<rparr> in
     andthen (lift (if wf_child_task_boundary b then Inr () else Inl (ValueError ''invalid'')))
    (andthen (bind (persistent_register H b) (\<lambda>_. ret ()))
    (andthen (modify (put_child b))
    (andthen (modify (st_child_ref_ids_update (dput (task_id, cp_client_ref c) i)))
    (andthen (commit H (ChildTaskCreated b) None) (ret i))))))"

fun create_children ::
    "event hashing \<Rightarrow> ((string \<times> pyval) list \<Rightarrow> resource_region res) \<Rightarrow> string \<Rightarrow> (nat \<Rightarrow> string) \<Rightarrow> nat \<Rightarrow>
     child_proposal list \<Rightarrow> ('r app_store_scheme, string list) prog" where
  "create_children H parse_region task_id ids n [] = ret []"
| "create_children H parse_region task_id ids n (c # cs) =
     bind (create_child H parse_region task_id (ids n) c) (\<lambda>i.
     bind (create_children H parse_region task_id ids (Suc n) cs) (\<lambda>is. ret (i # is)))"

definition commit_plan ::
    "event hashing \<Rightarrow> ((string \<times> pyval) list \<Rightarrow> resource_region res) \<Rightarrow> parent_task \<Rightarrow> worker_plan \<Rightarrow>
     (nat \<Rightarrow> string) \<Rightarrow> idem \<Rightarrow> time \<Rightarrow> ('r app_store_scheme, unit) prog" where
  "commit_plan H parse_region t p ids key now =
     bind (create_children H parse_region (pt_id t) ids 0 (wl_children p)) (\<lambda>children.
     bind (lift (transition_task t TS_planned (pt_version t) None now)) (\<lambda>moved.
     let u = moved\<lparr>pt_plan_id := Some (wl_id p), pt_child_task_ids := children\<rparr> in
     andthen (modify (put_plan p))
    (andthen (modify (put_task u))
    (andthen (commit H (PlanCommitted p) key) (commit H (TaskUpdated u) None)))))"

datatype plan_answer =
    PlanReplayed "event response"
  | PlanRejected plan_validation_result
  | PlanAccepted worker_plan plan_validation_result

definition plan_task ::
    "event hashing \<Rightarrow> ((string \<times> pyval) list \<Rightarrow> resource_region res) \<Rightarrow> (worker_plan_proposal \<Rightarrow> string) \<Rightarrow>
     string \<Rightarrow> worker_plan_proposal \<Rightarrow> string \<Rightarrow> (nat \<Rightarrow> string) \<Rightarrow> idem \<Rightarrow> time \<Rightarrow>
     ('r app_store_scheme, plan_answer) prog" where
  "plan_task H parse_region hash task_id proposal plan_id ids key now =
     bind (get (\<lambda>s. dget (st_tasks s) task_id)) (\<lambda>found.
     case found of
       None \<Rightarrow> raise_exn (DomainError ''not_found'' 404)
     | Some t \<Rightarrow>
     bind (get (check_idempotency key)) (\<lambda>checked.
     bind (lift checked) (\<lambda>old.
     case old of
       Some r \<Rightarrow> ret (PlanReplayed r)
     | None \<Rightarrow>
         andthen (raise_when (pt_version t \<noteq> wp_expected_parent_version proposal) (DomainError ''version_conflict'' 409))
        (let result = validate_plan hash proposal;
             p = \<lparr>wl_id = plan_id, wl_parent_task_id = task_id, wl_proposal_hash = pv_proposal_hash result,
                  wl_children = wp_children proposal, wl_integration_order = wp_integration_order proposal,
                  wl_version = 1\<rparr>
         in if \<not> pv_valid result then ret (PlanRejected result)
            else andthen (commit_plan H parse_region t p ids key now)
                   (ret (PlanAccepted p (result\<lparr>pv_normalized_plan_id := Some plan_id\<rparr>)))))))"

section \<open>The control of a task: application/control.py\<close>

record runtime = app_store +
  rt_checkpoints :: "checkpoint_store option"

definition invalid_step :: "(runtime, 'a) prog \<Rightarrow> (runtime, 'a) prog" where
  "invalid_step = rewrap (\<lambda>e. e = StateTransitionError) (DomainError ''invalid_transition'' 409)"

definition request_worker_control :: "event hashing \<Rightarrow> parent_task \<Rightarrow> string \<Rightarrow> time \<Rightarrow> (runtime, unit) prog" where
  "request_worker_control H t action now =
     bind (get (\<lambda>s. dvalues (st_attempts s))) (\<lambda>as.
     for_each as (\<lambda>a. if wa_child_task_id a \<in> set (pt_child_task_ids t)
                      then bind (request_control H (wa_id a) action now) (\<lambda>_. ret ()) else ret ()))"

definition step_task :: "task_status \<Rightarrow> time \<Rightarrow> parent_task \<Rightarrow> parent_task res" where
  "step_task st now t = transition_task t st (pt_version t) None now"

definition steps_task :: "task_status list \<Rightarrow> time \<Rightarrow> parent_task \<Rightarrow> parent_task res" where
  "steps_task sts now t =
     fold (\<lambda>st r. case r of Inl e \<Rightarrow> Inl e | Inr u \<Rightarrow> step_task st now u) sts (Inr t)"

definition execute_steps :: "parent_task \<Rightarrow> time \<Rightarrow> parent_task res" where
  "execute_steps t now =
     (case pt_status t of
        TS_draft \<Rightarrow> steps_task [TS_planned, TS_queued, TS_running] now t
      | TS_planned \<Rightarrow> steps_task [TS_queued, TS_running] now t
      | TS_queued \<Rightarrow> steps_task [TS_running] now t
      | TS_paused \<Rightarrow> steps_task [TS_queued, TS_running] now t
      | _ \<Rightarrow> Inl StateTransitionError)"

definition control_execute :: "parent_task \<Rightarrow> controller_session \<Rightarrow> time \<Rightarrow> (runtime, parent_task) prog" where
  "control_execute t cs now =
     andthen (raise_when (cs_active_controller_epoch_id cs \<in> {None, Some []})
                (DomainError ''controller_not_registered'' 409))
       (invalid_step (lift (execute_steps t now)))"

definition control_pause :: "event hashing \<Rightarrow> parent_task \<Rightarrow> time \<Rightarrow> (runtime, parent_task) prog" where
  "control_pause H t now =
     invalid_step (bind (lift (step_task TS_pause_requested now t)) (\<lambda>u.
       andthen (request_worker_control H t ''pause'' now) (lift (step_task TS_paused now u))))"

definition resume_checkpoint :: "checkpoint_codec \<Rightarrow> parent_task \<Rightarrow> runtime \<Rightarrow> unit res" where
  "resume_checkpoint C t s =
     (case rt_checkpoints s of
        None \<Rightarrow> Inr ()
      | Some cp \<Rightarrow>
     (case pt_latest_checkpoint_id t of
        None \<Rightarrow> Inl (DomainError ''not_resumable'' 409)
      | Some i \<Rightarrow>
          if i = [] then Inl (DomainError ''not_resumable'' 409)
          else (case load_checkpoint C i cp of
                  Inl (CheckpointError _) \<Rightarrow> Inl (DomainError ''not_resumable'' 409)
                | Inl e \<Rightarrow> Inl e
                | Inr c \<Rightarrow> if ck_safe_to_resume c then Inr () else Inl (DomainError ''not_resumable'' 409))))"

text \<open>The paused attempts are requeued before the step of the task is checked.\<close>

definition control_resume ::
    "event hashing \<Rightarrow> checkpoint_codec \<Rightarrow> parent_task \<Rightarrow> time \<Rightarrow> (runtime, parent_task) prog" where
  "control_resume H C t now =
     bind (get (resume_checkpoint C t)) (\<lambda>checked.
     andthen (lift checked)
    (rewrap (\<lambda>e. e = StateTransitionError) (DomainError ''not_resumable'' 409)
      (bind (get (\<lambda>s. dvalues (st_attempts s))) (\<lambda>as.
       bind (get rt_checkpoints) (\<lambda>cps.
       andthen (for_each as (\<lambda>a.
           if wa_child_task_id a \<in> set (pt_child_task_ids t) \<and> wa_status a = WS_paused
           then bind (requeue_attempt H C (wa_id a) cps) (\<lambda>_. ret ()) else ret ()))
         (lift (steps_task [TS_queued, TS_running] now t)))))))"

definition control_cancel :: "event hashing \<Rightarrow> parent_task \<Rightarrow> time \<Rightarrow> (runtime, parent_task) prog" where
  "control_cancel H t now =
     invalid_step (bind (if pt_status t = TS_running
         then bind (lift (step_task TS_cancel_requested now t)) (\<lambda>u.
              andthen (request_worker_control H t ''cancel'' now) (ret u))
         else ret t) (\<lambda>u. lift (step_task TS_cancelled now u)))"

definition control_checkpoint :: "string \<Rightarrow> parent_task \<Rightarrow> task_status \<Rightarrow> string \<Rightarrow> checkpoint" where
  "control_checkpoint i u target facts =
     \<lparr>ck_id = i, ck_boundary_version = pt_version u, ck_owner_version = 1, ck_confirmed_facts = [facts],
      ck_open_questions = [], ck_modification_summary = [], ck_executed_commands = [], ck_evidence_refs = [],
      ck_recent_failures = [],
      ck_next_step = (if target = TS_paused then ''resume from this checkpoint'' else ''stop''),
      ck_safe_to_resume = (target = TS_paused), ck_artifact_refs = []\<rparr>"

fun target_text :: "task_status \<Rightarrow> string" where
  "target_text TS_running = ''task transitioned to running''"
| "target_text TS_paused = ''task transitioned to paused''"
| "target_text _ = ''task transitioned to cancelled''"

text \<open>The end of every transition: the checkpoint, the projection, then two commits.\<close>

definition on_checkpoints :: "(checkpoint_store, unit) prog \<Rightarrow> (runtime, unit) prog" where
  "on_checkpoints m =
     (\<lambda>s. case rt_checkpoints s of
        None \<Rightarrow> (Inr (), s)
      | Some cp \<Rightarrow> (case m cp of (r, cp') \<Rightarrow> (r, s\<lparr>rt_checkpoints := Some cp'\<rparr>)))"

definition conclude_control ::
    "event hashing \<Rightarrow> checkpoint_codec \<Rightarrow> disk_usage \<Rightarrow> parent_task \<Rightarrow> task_status \<Rightarrow> string \<Rightarrow> idem \<Rightarrow>
     (runtime, parent_task) prog" where
  "conclude_control H C du u target i key =
     bind (get (\<lambda>s. rt_checkpoints s \<noteq> None)) (\<lambda>stored.
     andthen (on_checkpoints (save_checkpoint C du (control_checkpoint i u target (target_text target))))
    (let v = (if stored then u\<lparr>pt_latest_checkpoint_id := Some i\<rparr> else u) in
     andthen (modify (put_task v))
    (andthen (commit H (TaskMoved (pt_id u) target) None)
    (andthen (commit H (TaskUpdated v) key) (ret v)))))"

datatype control_action = Execute | Pause | Resume | Cancel

definition control_target :: "control_action \<Rightarrow> task_status" where
  "control_target a = (case a of Execute \<Rightarrow> TS_running | Pause \<Rightarrow> TS_paused | Resume \<Rightarrow> TS_running | Cancel \<Rightarrow> TS_cancelled)"

definition control_step ::
    "event hashing \<Rightarrow> checkpoint_codec \<Rightarrow> control_action \<Rightarrow> parent_task \<Rightarrow> controller_session \<Rightarrow> time \<Rightarrow>
     (runtime, parent_task) prog" where
  "control_step H C action t cs now =
     (case action of Execute \<Rightarrow> control_execute t cs now | Pause \<Rightarrow> control_pause H t now
      | Resume \<Rightarrow> control_resume H C t now | Cancel \<Rightarrow> control_cancel H t now)"

definition control_transition ::
    "event hashing \<Rightarrow> checkpoint_codec \<Rightarrow> disk_usage \<Rightarrow> string \<Rightarrow> control_action \<Rightarrow> int \<Rightarrow> string \<Rightarrow> idem \<Rightarrow> time \<Rightarrow>
     (runtime, parent_task answer) prog" where
  "control_transition H C du task_id action expected i key now =
     bind (get (check_idempotency key)) (\<lambda>checked.
     bind (lift checked) (\<lambda>previous.
     case previous of
       Some r \<Rightarrow> ret (Replayed r)
     | None \<Rightarrow>
     bind (get (\<lambda>s. dget (st_tasks s) task_id)) (\<lambda>found.
     case found of
       None \<Rightarrow> raise_exn (DomainError ''not_found'' 404)
     | Some t \<Rightarrow>
         andthen (raise_when (pt_version t \<noteq> expected) (DomainError ''version_conflict'' 409))
        (bind (get (\<lambda>s. dget (st_sessions s) (pt_controller_session_id t))) (\<lambda>session.
         case session of
           None \<Rightarrow> raise_exn KeyError
         | Some cs \<Rightarrow>
             bind (control_step H C action t cs now) (\<lambda>u.
             bind (conclude_control H C du u (control_target action) i key) (\<lambda>v. ret (Answered v))))))))"

section \<open>The handler: control_task of api/app.py\<close>

definition plan_to_run :: "string \<Rightarrow> 'r view_scheme \<Rightarrow> (parent_task \<times> worker_plan) option res" where
  "plan_to_run task_id s =
     (case dget (st_tasks s) task_id of
        None \<Rightarrow> Inr None
      | Some t \<Rightarrow>
     (case dget (st_sessions s) (pt_controller_session_id t) of
        None \<Rightarrow> Inl KeyError
      | Some cs \<Rightarrow>
          if cs_orchestration_mode cs = OM_worker_only \<and> pt_plan_id t \<notin> {None, Some []}
          then (case dget (st_plans s) (the (pt_plan_id t)) of None \<Rightarrow> Inl KeyError | Some p \<Rightarrow> Inr (Some (t, p)))
          else Inr None))"

definition control_task ::
    "event hashing \<Rightarrow> checkpoint_codec \<Rightarrow> disk_usage \<Rightarrow> owner_binder option \<Rightarrow> (string \<Rightarrow> owner_binder option res) \<Rightarrow>
     (nat \<Rightarrow> fresh_ids) \<Rightarrow> string \<Rightarrow> control_action \<Rightarrow> int \<Rightarrow> string \<Rightarrow> idem \<Rightarrow> time \<Rightarrow>
     (runtime, parent_task answer) prog" where
  "control_task H C du adapter local ids task_id action expected i key now =
     bind (get (check_idempotency key)) (\<lambda>checked.
     bind (lift checked) (\<lambda>duplicate.
     let starts = (action = Execute \<and> duplicate = None) in
     bind (if starts then bind (get (plan_to_run task_id)) lift else ret None) (\<lambda>before.
     bind (get (\<lambda>s. case before of None \<Rightarrow> Inr () | Some (t, p) \<Rightarrow> validate_capacity t (Some p) s)) (\<lambda>capacity.
     andthen (lift capacity)
    (bind (control_transition H C du task_id action expected i key now) (\<lambda>result.
     bind (if starts then bind (get (plan_to_run task_id)) lift else ret None) (\<lambda>after.
     andthen (case after of
                None \<Rightarrow> ret ()
              | Some (t, p) \<Rightarrow>
                  bind (enqueue_plan H adapter local ids now t (Some p) ''controller'' 0) (\<lambda>_. ret ()))
       (ret result))))))))"

section \<open>Lemmas on the control of a task\<close>

lemma step_task_simps:
  "step_task st now t =
     (if st \<in> set (TASK_TRANSITIONS (pt_status t))
      then Inr (t\<lparr>pt_status := st, pt_version := pt_version t + 1, pt_updated_at := now\<rparr>)
      else Inl StateTransitionError)" if "st \<noteq> TS_completed"
  using that
  by (cases "pt_status t") (simp_all add: step_task_def transition_task_def validate_expected_version_def
      validate_transition_def TASK_TERMINAL_def)

lemma steps_task_simps [simp]:
  "steps_task [] now t = Inr t"
  "steps_task (st # sts) now t = (case step_task st now t of Inl e \<Rightarrow> Inl e | Inr u \<Rightarrow> steps_task sts now u)"
proof -
  have err: "fold (\<lambda>st r. case r of Inl e \<Rightarrow> Inl e | Inr u \<Rightarrow> step_task st now u) sts (Inl e) = Inl e" for e
    by (induction sts) simp_all
  show "steps_task [] now t = Inr t" by (simp add: steps_task_def)
  show "steps_task (st # sts) now t = (case step_task st now t of Inl e \<Rightarrow> Inl e | Inr u \<Rightarrow> steps_task sts now u)"
    by (cases "step_task st now t") (simp_all add: steps_task_def err)
qed

text \<open>What the steps of a control action leave: a task moved by some steps, everything else of it kept.\<close>

definition advanced :: "parent_task \<Rightarrow> task_status \<Rightarrow> time \<Rightarrow> parent_task \<Rightarrow> bool" where
  "advanced t st now u \<longleftrightarrow>
     (\<exists>n > 0. u = t\<lparr>pt_status := st, pt_version := pt_version t + n, pt_updated_at := now\<rparr>)"

lemma advanced_step:
  "step_task st now t = Inr u \<Longrightarrow> st \<noteq> TS_completed \<Longrightarrow> st \<in> set (TASK_TRANSITIONS (pt_status t)) \<and> advanced t st now u"
  by (auto simp: step_task_simps advanced_def split: if_splits intro: exI [of _ 1])

lemma advanced_trans: "advanced t st now u \<Longrightarrow> advanced u st' now w \<Longrightarrow> advanced t st' now w"
  unfolding advanced_def
proof (elim exE conjE)
  fix n m :: int
  assume "0 < n" "0 < m" "u = t\<lparr>pt_status := st, pt_version := pt_version t + n, pt_updated_at := now\<rparr>"
    "w = u\<lparr>pt_status := st', pt_version := pt_version u + m, pt_updated_at := now\<rparr>"
  then show "\<exists>n>0. w = t\<lparr>pt_status := st', pt_version := pt_version t + n, pt_updated_at := now\<rparr>"
    by (intro exI [of _ "n + m"]) (simp add: add.assoc)
qed

lemma advanced_select: "advanced t st now u \<Longrightarrow>
    pt_status u = st \<and> pt_version t < pt_version u \<and> pt_id u = pt_id t \<and>
    pt_controller_session_id u = pt_controller_session_id t \<and> pt_child_task_ids u = pt_child_task_ids t"
  by (auto simp: advanced_def)

lemma execute_steps_Inr:
  assumes "execute_steps t now = Inr u"
  shows "pt_status t \<in> {TS_draft, TS_planned, TS_queued, TS_paused} \<and> advanced t TS_running now u"
  using assms
  by (auto simp: execute_steps_def step_task_simps split: task_status.splits)
    (auto simp: advanced_def intro: exI [of _ 1] exI [of _ 2] exI [of _ 3])

section \<open>What a control action keeps\<close>

lemma for_each_Inr:
  assumes "for_each xs f s = (Inr (), t)" and "P s"
    and "\<And>x u v. x \<in> set xs \<Longrightarrow> f x u = (Inr (), v) \<Longrightarrow> P u \<Longrightarrow> P v"
  shows "P t"
  using assms
proof (induction xs arbitrary: s)
  case (Cons x xs)
  from Cons.prems(1) obtain u where u: "f x s = (Inr (), u)" "for_each xs f u = (Inr (), t)"
    by (auto simp: prog_simps)
  have "P u" using Cons.prems(3) [OF _ u(1) Cons.prems(2)] by simp
  then show ?case using Cons.IH [OF u(2)] Cons.prems(3) by (metis list.set_intros(2))
qed simp

text \<open>Between the check of a request and its commit only the workers change.\<close>

definition workers_only :: "event hashing \<Rightarrow> runtime \<Rightarrow> runtime \<Rightarrow> bool" where
  "workers_only H s t \<longleftrightarrow>
     st_tasks t = st_tasks s \<and> st_sessions t = st_sessions s \<and> rt_checkpoints t = rt_checkpoints s \<and>
     (consistent H s \<longrightarrow> consistent H t)"

lemma workers_only_refl [simp]: "workers_only H s s"
  by (simp add: workers_only_def)

lemma workers_only_trans: "workers_only H s t \<Longrightarrow> workers_only H t u \<Longrightarrow> workers_only H s u"
  by (simp add: workers_only_def)

lemma commit_keeps_checkpoints: "commit H e k s = (r, t) \<Longrightarrow> rt_checkpoints t = rt_checkpoints s"
  using commit_view by fastforce

lemma put_attempt_keeps [simp]:
  "st_tasks (put_attempt a s) = st_tasks s" "st_sessions (put_attempt a s) = st_sessions s"
  "rt_checkpoints (put_attempt a (q :: runtime)) = rt_checkpoints q"
  by (simp_all add: put_attempt_def)

lemma request_control_workers:
  assumes "request_control H i action now s = (Inr b, t)"
  shows "workers_only H s t"
proof -
  have "st_tasks t = st_tasks s \<and> st_sessions t = st_sessions s \<and> rt_checkpoints t = rt_checkpoints s"
    using assms
  proof (cases rule: request_control_Inr)
    case (asked a u v)
    obtain j where u: "u = s\<lparr>st_journal := j\<rparr>" using commit_view [OF asked(5)] by blast
    obtain k where v: "v = (put_attempt b u)\<lparr>st_journal := k\<rparr>" using commit_view [OF asked(6)] by blast
    show ?thesis by (simp add: asked(7) v u)
  qed simp
  with request_control_consistent [OF _ assms] show ?thesis by (simp add: workers_only_def)
qed

lemma requeue_attempt_workers:
  assumes "requeue_attempt H C i cps s = (Inr b, t)"
  shows "workers_only H s t"
proof -
  have "st_tasks t = st_tasks s \<and> st_sessions t = st_sessions s \<and> rt_checkpoints t = rt_checkpoints s"
    using assms
  proof (cases rule: requeue_attempt_Inr)
    case (moved a)
    from moved(5) obtain u where
      u: "commit H (WorkerEvent WE_requeued b (session_of (wa_id b) s)) None s = (Inr (), u)" "t = put_attempt b u"
      unfolding commit_attempt_Inr by blast
    obtain j where "u = s\<lparr>st_journal := j\<rparr>" using commit_view [OF u(1)] by blast
    then show ?thesis by (simp add: u(2))
  qed simp
  with requeue_attempt_consistent [OF _ assms] show ?thesis by (simp add: workers_only_def)
qed

lemma request_worker_control_workers:
  assumes "request_worker_control H tk action now s = (Inr (), t)"
  shows "workers_only H s t"
  using assms unfolding request_worker_control_def bind_get
proof (rule for_each_Inr [where P = "workers_only H s"])
  fix x u v
  assume "(if wa_child_task_id x \<in> set (pt_child_task_ids tk)
        then bind (request_control H (wa_id x) action now) (\<lambda>_. ret ()) else ret ()) u = (Inr (), v)"
    and s: "workers_only H s u"
  then have "workers_only H u v"
    by (auto simp: prog_simps dest: request_control_workers split: if_splits)
  with s show "workers_only H s v" by (rule workers_only_trans)
qed simp

definition startable :: "checkpoint_codec \<Rightarrow> control_action \<Rightarrow> parent_task \<Rightarrow> controller_session \<Rightarrow> runtime \<Rightarrow> bool" where
  "startable C action t cs s \<longleftrightarrow>
     (case action of
        Execute \<Rightarrow> pt_status t \<in> {TS_draft, TS_planned, TS_queued, TS_paused} \<and>
                   cs_active_controller_epoch_id cs \<notin> {None, Some []}
      | Pause \<Rightarrow> pt_status t = TS_running
      | Resume \<Rightarrow> pt_status t \<in> {TS_planned, TS_paused} \<and> resume_checkpoint C t s = Inr ()
      | Cancel \<Rightarrow> pt_status t \<in> {TS_running, TS_waiting_approval, TS_paused, TS_cancel_requested})"

lemma pause_from: "TS_pause_requested \<in> set (TASK_TRANSITIONS st) \<longleftrightarrow> st = TS_running"
  by (cases st) simp_all

lemma queue_from: "TS_queued \<in> set (TASK_TRANSITIONS st) \<longleftrightarrow> st = TS_planned \<or> st = TS_paused"
  by (cases st) simp_all

lemma cancel_from: "TS_cancelled \<in> set (TASK_TRANSITIONS st) \<longleftrightarrow>
    st = TS_waiting_approval \<or> st = TS_cancel_requested \<or> st = TS_paused"
  by (cases st) simp_all

lemma cancel_request_from: "TS_cancel_requested \<in> set (TASK_TRANSITIONS st) \<longleftrightarrow> st = TS_running"
  by (cases st) simp_all

lemma control_execute_Inr:
  assumes "control_execute t cs now s = (Inr u, r)"
  shows "startable C Execute t cs s \<and> advanced t TS_running now u \<and> workers_only H s r"
  using assms execute_steps_Inr [of t now u]
  unfolding control_execute_def invalid_step_def startable_def rewrap_eq_Inr andthen_eq_Inr
  by (auto simp: raise_when_run simp del: rewrap_lift split: if_splits)

lemma control_pause_Inr:
  assumes "control_pause H t now s = (Inr u, r)"
  shows "startable C Pause t cs s \<and> advanced t TS_paused now u \<and> workers_only H s r"
proof -
  from assms obtain w where w: "step_task TS_pause_requested now t = Inr w" "step_task TS_paused now w = Inr u"
    and run: "request_worker_control H t ''pause'' now s = (Inr (), r)"
    unfolding control_pause_def invalid_step_def by (auto simp: prog_simps)
  from advanced_step [OF w(1)] have 1: "pt_status t = TS_running" "advanced t TS_pause_requested now w"
    by (simp_all add: pause_from)
  have "advanced w TS_paused now u" using advanced_step [OF w(2)] by simp
  with 1 request_worker_control_workers [OF run] show ?thesis
    by (auto simp: startable_def intro: advanced_trans)
qed

lemma control_resume_Inr:
  assumes "control_resume H C t now s = (Inr u, r)"
  shows "startable C Resume t cs s \<and> advanced t TS_running now u \<and> workers_only H s r"
proof -
  let ?f = "\<lambda>a. if wa_child_task_id a \<in> set (pt_child_task_ids t) \<and> wa_status a = WS_paused
           then bind (requeue_attempt H C (wa_id a) (rt_checkpoints s)) (\<lambda>_. ret ()) else ret ()"
  from assms have ok: "resume_checkpoint C t s = Inr ()"
    and run: "for_each (dvalues (st_attempts s)) ?f s = (Inr (), r)" and w: "steps_task [TS_queued, TS_running] now t = Inr u"
    unfolding control_resume_def by (auto simp: prog_simps simp del: steps_task_simps)
  from w obtain q where q: "step_task TS_queued now t = Inr q" "step_task TS_running now q = Inr u"
    by (auto split: sum.splits)
  from advanced_step [OF q(1)] have 1: "pt_status t \<in> {TS_planned, TS_paused}" "advanced t TS_queued now q"
    by (auto simp: queue_from)
  have 2: "advanced q TS_running now u" using advanced_step [OF q(2)] by simp
  have "workers_only H s r" using run
  proof (rule for_each_Inr [where P = "workers_only H s"])
    fix x p v
    assume "?f x p = (Inr (), v)" and s: "workers_only H s p"
    then have "workers_only H p v"
      by (auto simp: prog_simps dest: requeue_attempt_workers split: if_splits)
    with s show "workers_only H s v" by (rule workers_only_trans)
  qed simp
  with ok 1 2 show ?thesis by (auto simp: startable_def intro: advanced_trans)
qed

lemma control_cancel_Inr:
  assumes "control_cancel H t now s = (Inr u, r)"
  shows "startable C Cancel t cs s \<and> advanced t TS_cancelled now u \<and> workers_only H s r"
proof (cases "pt_status t = TS_running")
  case True
  with assms obtain w where w: "step_task TS_cancel_requested now t = Inr w" "step_task TS_cancelled now w = Inr u"
    and run: "request_worker_control H t ''cancel'' now s = (Inr (), r)"
    unfolding control_cancel_def invalid_step_def by (auto simp: prog_simps)
  have "advanced t TS_cancelled now u"
    using advanced_step [OF w(1)] advanced_step [OF w(2)] by (auto intro: advanced_trans)
  with True request_worker_control_workers [OF run] show ?thesis by (simp add: startable_def)
next
  case False
  with assms have w: "step_task TS_cancelled now t = Inr u" "r = s"
    unfolding control_cancel_def invalid_step_def by (auto simp: prog_simps)
  then show ?thesis using advanced_step [OF w(1)] False w(2) by (auto simp: startable_def cancel_from)
qed

lemma control_step_Inr:
  assumes "control_step H C action t cs now s = (Inr u, r)"
  shows "startable C action t cs s \<and> advanced t (control_target action) now u \<and> workers_only H s r"
  using assms control_execute_Inr control_pause_Inr control_resume_Inr control_cancel_Inr
  by (cases action) (auto simp: control_step_def control_target_def)

text \<open>The end of a transition: the checkpoint is found again, and the task is stored and journaled.\<close>

lemma on_checkpoints_Inr:
  assumes "on_checkpoints m s = (Inr (), t)"
  obtains (none) "rt_checkpoints s = None" and "t = s"
    | (some) cp cp' where "rt_checkpoints s = Some cp" and "m cp = (Inr (), cp')"
      and "t = s\<lparr>rt_checkpoints := Some cp'\<rparr>"
  using assms by (auto simp: on_checkpoints_def split: option.splits prod.splits)

lemma runtime_frame [simp]:
  "st_journal (q\<lparr>rt_checkpoints := c\<rparr>) = st_journal (q :: runtime)"
  "st_tasks (q\<lparr>rt_checkpoints := c\<rparr>) = st_tasks q"
  "rt_checkpoints (put_task u q) = rt_checkpoints q"
  "recorded (q\<lparr>rt_checkpoints := c\<rparr>) = recorded q"
  by (simp_all add: put_task_def recorded_def view.defs)

lemma consistent_checkpoints [simp]: "consistent H (q\<lparr>rt_checkpoints := c\<rparr>) = consistent H (q :: runtime)"
  by (simp add: consistent_def sound_store_def event_log_def)

lemma conclude_control_Inr:
  assumes "conclude_control H C du u target i key s = (Inr v, t)"
  shows "v = (if rt_checkpoints s = None then u else u\<lparr>pt_latest_checkpoint_id := Some i\<rparr>) \<and>
    st_tasks t = dput (pt_id u) v (st_tasks s) \<and>
    (\<forall>cp. rt_checkpoints s = Some cp \<longrightarrow> (\<exists>cp'. rt_checkpoints t = Some cp' \<and>
        save_checkpoint C du (control_checkpoint i u target (target_text target)) cp = (Inr (), cp'))) \<and>
    (rt_checkpoints s = None \<longrightarrow> rt_checkpoints t = None) \<and>
    (consistent H s \<longrightarrow> consistent H t)"
proof -
  let ?v = "if rt_checkpoints s = None then u else u\<lparr>pt_latest_checkpoint_id := Some i\<rparr>"
  have id: "pt_id ?v = pt_id u" by simp
  from assms obtain q w where
    q: "on_checkpoints (save_checkpoint C du (control_checkpoint i u target (target_text target))) s = (Inr (), q)"
    and w: "commit H (TaskMoved (pt_id u) target) None (put_task ?v q) = (Inr (), w)"
    and t: "commit H (TaskUpdated ?v) key w = (Inr (), t)" and v: "v = ?v"
    unfolding conclude_control_def by (auto simp: prog_simps Let_def split: if_splits)
  obtain j where j: "w = (put_task ?v q)\<lparr>st_journal := j\<rparr>"
    "commit H (TaskMoved (pt_id u) target) None q = (Inr (), q\<lparr>st_journal := j\<rparr>)"
    using commit_on_journal [OF _ w, of q] by auto
  have w2: "w = put_task ?v (q\<lparr>st_journal := j\<rparr>)" by (simp add: j(1) put_task_def)
  obtain k where k: "t = w\<lparr>st_journal := k\<rparr>" using commit_view [OF t] by blast
  have con: "consistent H t" if "consistent H q"
  proof -
    have "consistent H (q\<lparr>st_journal := j\<rparr>)" using consistent_silent [OF that j(2)] by simp
    from consistent_update_commit [OF this _ t [unfolded w2]] show ?thesis by simp
  qed
  have tasks: "st_tasks t = dput (pt_id u) ?v (st_tasks q)" and cps: "rt_checkpoints t = rt_checkpoints q"
    by (simp_all add: k w2 put_task_def id)
  from q show ?thesis
  proof (cases rule: on_checkpoints_Inr)
    case none
    with con tasks cps v show ?thesis by simp
  next
    case (some cp cp')
    with con tasks cps v show ?thesis by simp
  qed
qed

lemma control_transition_Inr:
  assumes "control_transition H C du task_id action expected i key now s = (Inr (Answered v), t)"
  obtains tk cs u r where "dget (st_tasks s) task_id = Some tk" and "pt_version tk = expected"
    and "dget (st_sessions s) (pt_controller_session_id tk) = Some cs"
    and "control_step H C action tk cs now s = (Inr u, r)"
    and "conclude_control H C du u (control_target action) i key r = (Inr v, t)"
  using assms by (auto simp: control_transition_def prog_simps split: option.splits if_splits)

lemma control_checkpoint_saved:
  assumes "save_checkpoint C du (control_checkpoint i u target facts) cp = (Inr (), cp')" and "1 \<le> pt_version u"
  shows "load_checkpoint C i cp' = Inr (control_checkpoint i u target facts)"
proof -
  note saved = save_checkpoint_Inr [OF assms(1)]
  then have "\<not> bad_checkpoint_id i" by (simp add: control_checkpoint_def)
  moreover have "dget (cp_files cp') i = Some (CheckpointFile \<lparr>ce_format_version = 1,
      ce_sha256 = cc_digest C (control_checkpoint i u target facts), ce_checkpoint = control_checkpoint i u target facts\<rparr>)"
    using saved by (simp add: control_checkpoint_def)
  ultimately show ?thesis using assms(2)
    by (simp add: load_checkpoint_def checkpoint_path_def checkpoint_from_dict_def control_checkpoint_def)
qed

text \<open>A paused task can be resumed from its checkpoint, a cancelled one cannot.\<close>

lemma resume_from_control_checkpoint:
  assumes "save_checkpoint C du (control_checkpoint i u target facts) cp = (Inr (), cp')" and "1 \<le> pt_version u"
    and "rt_checkpoints t = Some cp'"
  shows "resume_checkpoint C (u\<lparr>pt_latest_checkpoint_id := Some i\<rparr>) t = Inr () \<longleftrightarrow> target = TS_paused"
proof -
  have "i \<noteq> []" using save_checkpoint_Inr [OF assms(1)] by (auto simp: control_checkpoint_def bad_checkpoint_id_def)
  then show ?thesis using control_checkpoint_saved [OF assms(1,2)] assms(3)
    by (simp add: resume_checkpoint_def) (simp add: control_checkpoint_def)
qed

section \<open>What the control of a task guarantees\<close>

lemma control_transition_moves:
  assumes "control_transition H C du task_id action expected i key now s = (Inr (Answered v), t)"
    and "consistent H s" and "keyed pt_id (st_tasks s)"
  shows "\<exists>tk cs n. dget (st_tasks s) task_id = Some tk \<and> pt_version tk = expected \<and>
     dget (st_sessions s) (pt_controller_session_id tk) = Some cs \<and> startable C action tk cs s \<and> 0 < n \<and>
     v = tk\<lparr>pt_status := control_target action, pt_version := expected + n, pt_updated_at := now,
            pt_latest_checkpoint_id := (if rt_checkpoints s = None then pt_latest_checkpoint_id tk else Some i)\<rparr> \<and>
     st_tasks t = dput task_id v (st_tasks s) \<and>
     (rt_checkpoints s \<noteq> None \<and> 0 < expected \<longrightarrow> (resume_checkpoint C v t = Inr () \<longleftrightarrow> action = Pause)) \<and>
     consistent H t"
proof -
  obtain tk cs u r where tk: "dget (st_tasks s) task_id = Some tk" "pt_version tk = expected"
    and cs: "dget (st_sessions s) (pt_controller_session_id tk) = Some cs"
    and step: "control_step H C action tk cs now s = (Inr u, r)"
    and concl: "conclude_control H C du u (control_target action) i key r = (Inr v, t)"
    using assms(1) by (rule control_transition_Inr)
  have id: "pt_id tk = task_id" using keyedD [OF assms(3) tk(1)] .
  have start: "startable C action tk cs s" and adv: "advanced tk (control_target action) now u"
    and workers: "workers_only H s r" using control_step_Inr [OF step] by simp_all
  note out = conclude_control_Inr [OF concl]
  obtain n where n: "0 < n" "u = tk\<lparr>pt_status := control_target action, pt_version := expected + n, pt_updated_at := now\<rparr>"
    using adv tk(2) by (auto simp: advanced_def)
  have cps: "rt_checkpoints r = rt_checkpoints s" and tasks: "st_tasks r = st_tasks s" and con: "consistent H r"
    using workers assms(2) by (simp_all add: workers_only_def)
  have v: "v = tk\<lparr>pt_status := control_target action, pt_version := expected + n, pt_updated_at := now,
            pt_latest_checkpoint_id := (if rt_checkpoints s = None then pt_latest_checkpoint_id tk else Some i)\<rparr>"
    using out n(2) by (simp add: cps)
  have stored: "st_tasks t = dput task_id v (st_tasks s)"
    using out n(2) id by (simp add: tasks)
  have "resume_checkpoint C v t = Inr () \<longleftrightarrow> action = Pause" if "rt_checkpoints s \<noteq> None" "0 < expected"
  proof -
    from that(1) cps obtain cp where "rt_checkpoints r = Some cp" by auto
    with out obtain cp' where cp': "rt_checkpoints t = Some cp'"
      "save_checkpoint C du (control_checkpoint i u (control_target action) (target_text (control_target action))) cp = (Inr (), cp')"
      by blast
    have "v = u\<lparr>pt_latest_checkpoint_id := Some i\<rparr>" using out that(1) by (simp add: cps)
    moreover have "1 \<le> pt_version u" using n that(2) by simp
    ultimately have "resume_checkpoint C v t = Inr () \<longleftrightarrow> control_target action = TS_paused"
      using resume_from_control_checkpoint [OF cp'(2) _ cp'(1)] by simp
    then show ?thesis by (cases action) (simp_all add: control_target_def)
  qed
  moreover have "consistent H t" using out con by simp
  ultimately show ?thesis
    using tk(1,2) cs start n(1) v stored
    by (intro exI [of _ tk] exI [of _ cs] exI [of _ n] conjI) simp_all
qed

text \<open>
  C23. A control request moves the task by the state machine. When execute, pause, resume or cancel is
  answered, the task had the expected version and a status the action starts from (an execute has an
  active controller, a resume a checkpoint of the task that is intact and safe); it takes the status
  of the action and a greater version, keeps everything else, and no other task changes. Where
  checkpoints are kept, the new one is its latest, and the task can be resumed from it exactly after
  a pause. The outcome survives a restart.
\<close>

theorem control_moves_task:
  assumes "control_transition H C du task_id action expected i key now s = (Inr (Answered v), t)"
    and "consistent H s" and "keyed pt_id (st_tasks s)"
  shows "\<exists>tk cs n. dget (st_tasks s) task_id = Some tk \<and> pt_version tk = expected \<and>
     dget (st_sessions s) (pt_controller_session_id tk) = Some cs \<and> startable C action tk cs s \<and> 0 < n \<and>
     v = tk\<lparr>pt_status := control_target action, pt_version := expected + n, pt_updated_at := now,
            pt_latest_checkpoint_id := (if rt_checkpoints s = None then pt_latest_checkpoint_id tk else Some i)\<rparr> \<and>
     st_tasks t = dput task_id v (st_tasks s) \<and>
     (rt_checkpoints s \<noteq> None \<and> 0 < expected \<longrightarrow> (resume_checkpoint C v t = Inr () \<longleftrightarrow> action = Pause)) \<and>
     (\<exists>w. restart H m f io t = Inr w \<and> recorded w = recorded t)"
  using control_transition_moves [OF assms] restart_same [of H t m f io] by blast

section \<open>A working disk\<close>

lemma healthy_put_task [simp]: "healthy H (put_task u s) = healthy H s"
  by (simp add: healthy_def put_task_def)

lemma healthy_handles [simp]: "healthy H (s\<lparr>st_handles := h\<rparr>) = healthy H s"
  by (simp add: healthy_def)

lemma healthy_checkpoints [simp]: "healthy H (q\<lparr>rt_checkpoints := c\<rparr>) = healthy H (q :: runtime)"
  by (simp add: healthy_def)

text \<open>A request to a worker goes through, and no worker becomes paused by it alone.\<close>

definition workers_ready :: "event hashing \<Rightarrow> runtime \<Rightarrow> runtime \<Rightarrow> bool" where
  "workers_ready H s t \<longleftrightarrow>
     healthy H t \<and> keyed wa_id (st_attempts t) \<and> dkeys (st_attempts t) = dkeys (st_attempts s) \<and>
     st_tasks t = st_tasks s \<and> st_sessions t = st_sessions s \<and> rt_checkpoints t = rt_checkpoints s \<and>
     (\<forall>i a. dget (st_attempts t) i = Some a \<and> wa_status a = WS_paused \<longrightarrow> dget (st_attempts s) i = Some a)"

lemma request_control_runs:
  assumes workers_ready: "workers_ready H s p" and a: "dget (st_attempts p) i = Some a" and act: "action \<in> {''pause'', ''cancel''}"
  shows "\<exists>b q. request_control H i action now p = (Inr b, q) \<and> workers_ready H s q"
proof (cases "wa_status a = WS_running")
  case False
  then have "request_control H i action now p = (Inr a, p)"
    using a act by (auto simp: request_control_def)
  with workers_ready show ?thesis by blast
next
  case True
  let ?k = "if action = ''pause'' then WE_pause_requested else WE_cancel_requested"
  let ?b = "requested action a now"
  have h: "healthy H p" using workers_ready by (simp add: workers_ready_def)
  have id: "wa_id ?b = i" "wa_id a = i" using workers_ready a by (auto simp: requested_def workers_ready_def dest: keyedD)
  let ?e = "WorkerEvent ?k ?b (session_of i (put_attempt ?b p))"
  have "healthy H (put_attempt ?b p)" using h by simp
  from healthy_commit [OF this, of ?e None] obtain j where
    j: "commit H ?e None (put_attempt ?b p) = (Inr (), (put_attempt ?b p)\<lparr>st_journal := j\<rparr>)"
    "healthy H ((put_attempt ?b p)\<lparr>st_journal := j\<rparr>)" by blast
  let ?e' = "WorkerEvent WE_checkpointed ?b (session_of i (put_attempt ?b p))"
  from healthy_commit [OF j(2), of ?e' None] obtain k where
    k: "commit H ?e' None ((put_attempt ?b p)\<lparr>st_journal := j\<rparr>) = (Inr (), (put_attempt ?b p)\<lparr>st_journal := k\<rparr>)"
    "healthy H ((put_attempt ?b p)\<lparr>st_journal := k\<rparr>)" by auto
  obtain x where x: "request_execution_control i action ((put_attempt ?b p)\<lparr>st_journal := k\<rparr>) =
      (Inr x, ((put_attempt ?b p)\<lparr>st_journal := k\<rparr>)\<lparr>st_handles := woken action i (st_handles p)\<rparr>)"
    using request_execution_control_cases [OF act, of i "(put_attempt ?b p)\<lparr>st_journal := k\<rparr>"]
    by (auto simp: put_attempt_def)
  let ?q = "((put_attempt ?b p)\<lparr>st_journal := k\<rparr>)\<lparr>st_handles := woken action i (st_handles p)\<rparr>"
  have move: "transition_worker_attempt a (if action = ''pause'' then WS_pause_requested else WS_cancel_requested)
       (wa_version a) None now = Inr ?b" by (rule requested_transition [OF True])
  have "request_control H i action now p =
     bind (rewrap (\<lambda>e. e = StateTransitionError) (DomainError ''invalid_transition'' 409) (lift (Inr ?b))) (\<lambda>b.
           andthen (modify (put_attempt b))
          (bind (get (session_of (wa_id a))) (\<lambda>session.
           andthen (commit H (WorkerEvent ?k b session) None)
          (andthen (commit H (WorkerEvent WE_checkpointed b session) None)
          (andthen (request_execution_control (wa_id a) action) (ret b)))))) p"
    unfolding request_control_def bind_get a option.case move Let_def
    using act True by (simp add: WORKER_ATTEMPT_TERMINAL_def del: rewrap_lift)
  also have "\<dots> = (Inr ?b, ?q)"
    using j(1) k(1) x by (simp add: id bind_def andthen_def del: session_of_put)
  finally have "request_control H i action now p = (Inr ?b, ?q)" .
  moreover have "workers_ready H s ?q"
    using workers_ready k(2) a id by (auto simp: workers_ready_def dkeys_dput requested_def)
  ultimately show ?thesis by blast
qed

lemma for_each_runs:
  assumes "\<And>x p. x \<in> set xs \<Longrightarrow> P p \<Longrightarrow> \<exists>q. f x p = (Inr (), q) \<and> P q" and "P s"
  shows "\<exists>t. for_each xs f s = (Inr (), t) \<and> P t"
  using assms
proof (induction xs arbitrary: s)
  case (Cons x xs)
  obtain q where q: "f x s = (Inr (), q)" "P q" using Cons.prems by force
  from Cons.IH [OF _ q(2)] Cons.prems(1) obtain t where "for_each xs f q = (Inr (), t)" "P t" by auto
  with q(1) show ?case by (simp add: andthen_def bind_def)
qed simp

lemma request_worker_control_runs:
  assumes h: "healthy H s" and ok: "attempts_ok s" and act: "action \<in> {''pause'', ''cancel''}"
  shows "\<exists>t. request_worker_control H tk action now s = (Inr (), t) \<and> workers_ready H s t"
  unfolding request_worker_control_def bind_get
proof (rule for_each_runs)
  show "workers_ready H s s" using h ok by (simp add: workers_ready_def attempts_ok_def)
  fix x p assume x: "x \<in> set (dvalues (st_attempts s))" and p: "workers_ready H s p"
  have "dget (st_attempts s) (wa_id x) = Some x" using keyed_values [of "st_attempts s" wa_id x] ok x by (simp add: attempts_ok_def)
  then have "wa_id x \<in> set (dkeys (st_attempts s))" by (force dest: map_of_SomeD)
  then have "wa_id x \<in> set (dkeys (st_attempts p))" using p by (simp add: workers_ready_def)
  then obtain a where "dget (st_attempts p) (wa_id x) = Some a" using map_of_eq_None_iff [of "st_attempts p" "wa_id x"] by fastforce
  from request_control_runs [OF p this act] obtain b q where
    q: "request_control H (wa_id x) action now p = (Inr b, q)" "workers_ready H s q" by blast
  show "\<exists>q. (if wa_child_task_id x \<in> set (pt_child_task_ids tk)
        then bind (request_control H (wa_id x) action now) (\<lambda>_. ret ()) else ret ()) p = (Inr (), q) \<and> workers_ready H s q"
    using p q by (simp add: bind_Inr)
qed

text \<open>Space for any checkpoint.\<close>

definition room :: "checkpoint_codec \<Rightarrow> disk_usage \<Rightarrow> runtime \<Rightarrow> bool" where
  "room C du s \<longleftrightarrow> (\<forall>cp c. rt_checkpoints s = Some cp \<longrightarrow>
     ensure_storage_capacity du (cc_size C c) (cp_max_bytes cp) (cp_min_free_bytes cp) = Inr ())"

lemma conclude_control_runs:
  assumes h: "healthy H s" and room: "room C du s" and i: "\<not> bad_checkpoint_id i"
  shows "\<exists>v t. conclude_control H C du u target i key s = (Inr v, t) \<and> healthy H t \<and> room C du t \<and>
    st_attempts t = st_attempts s \<and> st_sessions t = st_sessions s"
proof -
  let ?c = "control_checkpoint i u target (target_text target)"
  have path: "checkpoint_path i = Inr i" using i by (simp add: checkpoint_path_def)
  obtain q where q: "on_checkpoints (save_checkpoint C du ?c) s = (Inr (), q)" "healthy H q" "room C du q"
    "st_attempts q = st_attempts s" "st_sessions q = st_sessions s"
  proof (cases "rt_checkpoints s")
    case None
    show ?thesis by (rule that [of s]) (use None h room in \<open>simp_all add: on_checkpoints_def\<close>)
  next
    case (Some cp)
    let ?cp = "cp\<lparr>cp_files := dput i (CheckpointFile \<lparr>ce_format_version = 1, ce_sha256 = cc_digest C ?c, ce_checkpoint = ?c\<rparr>) (cp_files cp)\<rparr>"
    have "save_checkpoint C du ?c cp = (Inr (), ?cp)"
      using room Some path
      by (simp add: save_checkpoint_def room_def control_checkpoint_def verify_all_Inr bind_def andthen_def)
    then show ?thesis using Some h room
      by (intro that [of "s\<lparr>rt_checkpoints := Some ?cp\<rparr>"]) (simp_all add: on_checkpoints_def room_def)
  qed
  let ?v = "if rt_checkpoints s \<noteq> None then u\<lparr>pt_latest_checkpoint_id := Some i\<rparr> else u"
  have "healthy H (put_task ?v q)" using q(2) by simp
  from healthy_commit [OF this, of "TaskMoved (pt_id u) target" None] obtain j where
    j: "commit H (TaskMoved (pt_id u) target) None (put_task ?v q) = (Inr (), (put_task ?v q)\<lparr>st_journal := j\<rparr>)"
    "healthy H ((put_task ?v q)\<lparr>st_journal := j\<rparr>)" by blast
  from healthy_commit [OF j(2), of "TaskUpdated ?v" key] obtain k where
    k: "commit H (TaskUpdated ?v) key ((put_task ?v q)\<lparr>st_journal := j\<rparr>) = (Inr (), (put_task ?v q)\<lparr>st_journal := k\<rparr>)"
    "healthy H ((put_task ?v q)\<lparr>st_journal := k\<rparr>)" by auto
  have "conclude_control H C du u target i key s = (Inr ?v, (put_task ?v q)\<lparr>st_journal := k\<rparr>)"
    unfolding conclude_control_def bind_get Let_def
    using q(1) j(1) k(1) by (simp add: bind_def andthen_def split del: if_split)
  moreover have "st_attempts ((put_task ?v q)\<lparr>st_journal := k\<rparr>) = st_attempts s"
    "st_sessions ((put_task ?v q)\<lparr>st_journal := k\<rparr>) = st_sessions s" "room C du ((put_task ?v q)\<lparr>st_journal := k\<rparr>)"
    using q(3-5) by (simp_all add: put_task_def room_def)
  ultimately show ?thesis using k(2) by blast
qed

lemma control_transition_runs:
  assumes new: "check_idempotency key s = Inr None" and tk: "dget (st_tasks s) task_id = Some tk" and cs: "dget (st_sessions s) (pt_controller_session_id tk) = Some cs"
    and step: "control_step H C action tk cs now s = (Inr u, r)"
    and r: "healthy H r" "room C du r" and i: "\<not> bad_checkpoint_id i"
  shows "\<exists>v t. control_transition H C du task_id action (pt_version tk) i key now s = (Inr (Answered v), t) \<and>
    conclude_control H C du u (control_target action) i key r = (Inr v, t) \<and> healthy H t \<and> room C du t \<and>
    st_attempts t = st_attempts r \<and> st_sessions t = st_sessions r"
proof -
  from conclude_control_runs [OF r i, of u "control_target action" key] obtain v t where
    v: "conclude_control H C du u (control_target action) i key r = (Inr v, t)" "healthy H t" "room C du t"
    "st_attempts t = st_attempts r" "st_sessions t = st_sessions r" by blast
  have "control_transition H C du task_id action (pt_version tk) i key now s = (Inr (Answered v), t)"
    using new tk cs step v(1) by (simp add: control_transition_def bind_def)
  with v show ?thesis by blast
qed

lemma no_key: "check_idempotency None s = Inr None"
  by (simp add: check_idempotency_def)

lemma room_ready: "room C du s \<Longrightarrow> workers_ready H s r \<Longrightarrow> room C du r"
  by (simp add: room_def workers_ready_def)

lemma for_each_skip: "(\<And>x. x \<in> set xs \<Longrightarrow> f x = ret ()) \<Longrightarrow> for_each xs f s = (Inr (), s)"
  by (induction xs) (simp_all add: andthen_def)

lemma none_paused:
  assumes "workers_ready H s r" and "attempts_ok s" and "\<forall>a \<in> set (dvalues (st_attempts s)). wa_status a \<noteq> WS_paused"
  shows "\<forall>a \<in> set (dvalues (st_attempts r)). wa_status a \<noteq> WS_paused"
proof
  fix a assume a: "a \<in> set (dvalues (st_attempts r))"
  have "dwf (st_attempts r)" using assms(1,2) by (simp add: workers_ready_def attempts_ok_def)
  with a obtain k where "dget (st_attempts r) k = Some a" using dvalue_dget by fast
  then have "wa_status a = WS_paused \<Longrightarrow> dget (st_attempts s) k = Some a" using assms(1) unfolding workers_ready_def by blast
  then show "wa_status a \<noteq> WS_paused" using assms(3) dget_value by fast
qed


text \<open>A store that keeps checkpoints, with one running task.\<close>

definition new_runtime :: runtime where
  "new_runtime = app_store.extend new_app_store \<lparr>rt_checkpoints = Some empty_checkpoints\<rparr>"

lemma new_runtime_select [simp]:
  "rt_checkpoints new_runtime = Some empty_checkpoints" "recorded new_runtime = empty_view"
  "st_journal new_runtime = st_journal (new_store [])" "st_attempts new_runtime = []"
  by (simp_all add: new_runtime_def new_app_store_def recorded_def app_store.defs store.defs view.defs new_store_def empty_view_def)

lemma controlled_store:
  "\<exists>s :: runtime. healthy unit_hashing s \<and> consistent unit_hashing s \<and> st_tasks s = [(''t'', running_task)] \<and>
     dget (st_sessions s) ''s'' = Some small_session \<and> st_attempts s = [] \<and> rt_checkpoints s = Some empty_checkpoints \<and>
     jl_idempotency (st_journal s) = []"
proof -
  have h: "healthy unit_hashing new_runtime"
    using healthy_journal [of new_runtime "new_store []"] healthy_new_store by simp
  have c: "consistent unit_hashing new_runtime"
    using consistent_new_store [of "unit_hashing :: event hashing" "[]"]
    by (simp add: consistent_def sound_store_def event_log_def)
  obtain j where j: "consistent unit_hashing ((put_session small_session new_runtime)\<lparr>st_journal := j\<rparr>)"
    "healthy unit_hashing ((put_session small_session new_runtime)\<lparr>st_journal := j\<rparr>)"
    "jl_idempotency j = []"
    using extend_store [OF h c, of "SessionCreated small_session"]
    by (auto simp: new_store_def fresh_journal_def boot_def view.defs disk.defs)
  obtain k where k: "consistent unit_hashing ((put_task running_task ((put_session small_session new_runtime)\<lparr>st_journal := j\<rparr>))\<lparr>st_journal := k\<rparr>)"
    "healthy unit_hashing ((put_task running_task ((put_session small_session new_runtime)\<lparr>st_journal := j\<rparr>))\<lparr>st_journal := k\<rparr>)"
    "jl_idempotency k = []"
    using extend_store [OF j(2,1), of "TaskCreated running_task"] j(3) by auto
  have "st_tasks new_runtime = []"
    by (simp add: new_runtime_def new_app_store_def app_store.defs store.defs new_store_def empty_view_def view.defs)
  then show ?thesis using k
    by (intro exI [of _ "(put_task running_task ((put_session small_session new_runtime)\<lparr>st_journal := j\<rparr>))\<lparr>st_journal := k\<rparr>"])
      (simp add: put_task_def put_session_def running_task_def small_session_def)
qed

lemma controlled_store_simps:
  "pt_status running_task = TS_running" "pt_controller_session_id running_task = ''s''" "pt_version running_task = 4"
  "pt_id running_task = ''t''" "\<not> bad_checkpoint_id ''cp''" "\<not> bad_checkpoint_id ''cq''"
  by (simp_all add: running_task_def bad_checkpoint_id_def)


lemma controlled_pause:
  "\<exists>s :: runtime. consistent unit_hashing s \<and> st_tasks s = [(''t'', running_task)] \<and> rt_checkpoints s = Some empty_checkpoints \<and>
     jl_idempotency (st_journal s) = [] \<and>
     (\<forall>key. \<exists>v t. control_transition unit_hashing plain_codec \<lparr>du_used = None, du_free = 9\<rparr> ''t'' Pause 4 ''cp'' key 9 s =
        (Inr (Answered v), t))"
proof -
  let ?H = "unit_hashing :: event hashing" and ?du = "\<lparr>du_used = None, du_free = 9\<rparr>"
  obtain s :: runtime where s: "healthy ?H s" "consistent ?H s" "st_tasks s = [(''t'', running_task)]"
    "dget (st_sessions s) ''s'' = Some small_session" "st_attempts s = []" "rt_checkpoints s = Some empty_checkpoints"
    "jl_idempotency (st_journal s) = []"
    using controlled_store by blast
  have ok: "attempts_ok s" "dget (st_tasks s) ''t'' = Some running_task"
    by (simp_all add: attempts_ok_def s keyed_def running_task_def)
  have room: "room plain_codec ?du s"
    by (simp add: room_def s ensure_storage_capacity_def empty_checkpoints_def plain_codec_def)
  obtain r where run: "request_worker_control ?H running_task ''pause'' 9 s = (Inr (), r)" and r: "workers_ready ?H s r"
    using request_worker_control_runs [OF s(1) ok(1)] by blast
  let ?u = "running_task\<lparr>pt_status := TS_paused, pt_version := pt_version running_task + 2, pt_updated_at := 9\<rparr>"
  have "control_pause ?H running_task 9 s = (Inr ?u, r)"
    using run by (simp add: control_pause_def invalid_step_def rewrap_def bind_def andthen_def step_task_simps controlled_store_simps)
  then have step: "control_step ?H plain_codec Pause running_task small_session 9 s = (Inr ?u, r)" by (simp add: control_step_def)
  have ses: "dget (st_sessions s) (pt_controller_session_id running_task) = Some small_session"
    by (simp add: s controlled_store_simps)
  have "check_idempotency key s = Inr None" for key
    by (cases key) (simp_all add: check_idempotency_def idempotent_result_def s(7))
  moreover have "healthy ?H r" using r by (simp add: workers_ready_def)
  ultimately show ?thesis
    using control_transition_runs [OF _ ok(2) ses step _ room_ready [OF room r] controlled_store_simps(5)] s(2,3,6,7)
    by (intro exI [of _ s]) (simp add: controlled_store_simps, blast)
qed

theorem control_moves_task_witness:
  "\<exists>(s :: runtime) v t.
     control_transition unit_hashing plain_codec \<lparr>du_used = None, du_free = 9\<rparr> ''t'' Pause 4 ''cp'' None 9 s = (Inr (Answered v), t) \<and>
     pt_status v = TS_paused \<and> pt_latest_checkpoint_id v = Some ''cp''"
proof -
  obtain s :: runtime and v t where s: "consistent unit_hashing s" "st_tasks s = [(''t'', running_task)]" "rt_checkpoints s = Some empty_checkpoints"
    and go: "control_transition unit_hashing plain_codec \<lparr>du_used = None, du_free = 9\<rparr> ''t'' Pause 4 ''cp'' None 9 s = (Inr (Answered v), t)"
    using controlled_pause by blast
  have "keyed pt_id (st_tasks s)" by (simp add: s(2) keyed_def running_task_def)
  from control_moves_task [OF go s(1) this, where m = None and f = 0 and io = "[]"] have "pt_status v = TS_paused \<and> pt_latest_checkpoint_id v = Some ''cp''"
    by (auto simp: control_target_def s(3))
  with go show ?thesis by blast
qed

section \<open>Lemmas on plans\<close>

definition region_complete :: "(string \<times> pyval) list \<Rightarrow> bool" where
  "region_complete r \<longleftrightarrow> set region_keys \<subseteq> set (dkeys r)"

lemma region_issues_none:
  "region_issues i j rs = [] \<longleftrightarrow> (\<forall>r \<in> set rs. region_complete r)"
  by (induction rs arbitrary: j) (auto simp: region_complete_def)

lemma child_issues_none:
  "child_issues refs i cs = [] \<longleftrightarrow>
     (\<forall>c \<in> set cs. set (cp_depends_on c) \<subseteq> set refs \<and>
        (\<forall>r \<in> set (cp_write_regions c). region_complete r))"
  by (induction cs arbitrary: i) (auto simp: region_issues_none)

definition plan_accepted :: "worker_plan_proposal \<Rightarrow> bool" where
  "plan_accepted p \<longleftrightarrow>
     distinct (map cp_client_ref (wp_children p)) \<and>
     set (wp_integration_order p) = cp_client_ref ` set (wp_children p) \<and>
     (\<forall>c \<in> set (wp_children p). set (cp_depends_on c) \<subseteq> cp_client_ref ` set (wp_children p) - {cp_client_ref c} \<and>
        (\<forall>r \<in> set (cp_write_regions c). region_complete r))"

lemma plan_issues_none: "plan_issues p = [] \<longleftrightarrow> plan_accepted p"
  by (auto simp: plan_issues_def plan_accepted_def Let_def child_issues_none list_ex_iff)

lemma plan_issues_are_errors: "x \<in> set (plan_issues p) \<Longrightarrow> pi_severity x = SV_error"
proof -
  have r: "pi_severity x = SV_error" if "x \<in> set (region_issues i j rs)" for i j rs
    using that by (induction rs arbitrary: j) (auto simp: plan_issue_def split: if_splits)
  have "pi_severity x = SV_error" if "x \<in> set (child_issues refs i cs)" for refs i cs
    using that by (induction cs arbitrary: i) (auto simp: plan_issue_def dest: r split: if_splits)
  then show "x \<in> set (plan_issues p) \<Longrightarrow> pi_severity x = SV_error"
    by (auto simp: plan_issues_def Let_def plan_issue_def split: if_splits)
qed

lemma validate_plan_valid: "pv_valid (validate_plan hash p) \<longleftrightarrow> plan_accepted p"
proof -
  have "list_ex (\<lambda>x. pi_severity x = SV_error) xs \<longleftrightarrow> xs \<noteq> []" if "\<forall>x \<in> set xs. pi_severity x = SV_error" for xs
    using that by (cases xs) auto
  from this [of "plan_issues p"] plan_issues_are_errors show ?thesis
    by (auto simp: validate_plan_def Let_def plan_issues_none)
qed

text \<open>What registering one child changes.\<close>

definition child_of ::
    "((string \<times> pyval) list \<Rightarrow> resource_region res) \<Rightarrow> string \<Rightarrow> child_proposal \<Rightarrow> string \<Rightarrow> child_task_boundary \<Rightarrow> bool" where
  "child_of parse_region task_id c i b \<longleftrightarrow>
     (\<exists>rs. parse_regions parse_region (cp_write_regions c) = Inr rs \<and>
        b = \<lparr>cb_id = i, cb_parent_task_id = task_id, cb_objective = cp_objective c, cb_write_regions = rs, cb_version = 1\<rparr>)"

lemma create_child_Inr:
  assumes "create_child H parse_region task_id i c s = (Inr k, t)"
  obtains b j where "k = i" and "child_of parse_region task_id c i b"
    and "dget (ob_boundaries (as_ownership s)) i = None"
    and "t = s\<lparr>st_journal := j, st_children := dput i b (st_children s),
        st_child_ref_ids := dput (task_id, cp_client_ref c) i (st_child_ref_ids s),
        as_ownership := ob_boundaries_update (dput i b) (as_ownership s)\<rparr>"
    and "consistent H s \<longrightarrow> consistent H t"
proof -
  from assms obtain rs where rs: "parse_regions parse_region (cp_write_regions c) = Inr rs"
    by (auto simp: create_child_def prog_simps)
  let ?b = "\<lparr>cb_id = i, cb_parent_task_id = task_id, cb_objective = cp_objective c, cb_write_regions = rs, cb_version = 1\<rparr>"
  from assms rs obtain x p where p: "persistent_register H ?b s = (Inr x, p)"
    and w: "commit H (ChildTaskCreated ?b) None
       (st_child_ref_ids_update (dput (task_id, cp_client_ref c) i) (put_child ?b p)) = (Inr (), t)" and k: "k = i"
    by (auto simp: create_child_def prog_simps Let_def split: if_splits)
  let ?o = "ob_boundaries_update (dput i ?b) (as_ownership s)"
  from p have none: "dget (ob_boundaries (as_ownership s)) i = None"
    and q: "commit H (BoundaryRegistered ?b) None (s\<lparr>as_ownership := ?o\<rparr>) = (Inr (), p)"
    by (auto simp: persistent_register_def append_ownership_def on_ownership_Inr register_boundary_def prog_simps split: if_splits)
  obtain j where j: "p = s\<lparr>as_ownership := ?o, st_journal := j\<rparr>" using commit_view [OF q] by blast
  obtain l where l: "t = (st_child_ref_ids_update (dput (task_id, cp_client_ref c) i) (put_child ?b p))\<lparr>st_journal := l\<rparr>"
    using commit_view [OF w] by blast
  show ?thesis
  proof (rule that)
    show "k = i" by (rule k)
    show "child_of parse_region task_id c i ?b" using rs by (simp add: child_of_def)
    show "dget (ob_boundaries (as_ownership s)) i = None" by (rule none)
    show "t = s\<lparr>st_journal := l, st_children := dput i ?b (st_children s),
        st_child_ref_ids := dput (task_id, cp_client_ref c) i (st_child_ref_ids s), as_ownership := ?o\<rparr>"
      by (simp add: l j put_child_def)
    show "consistent H s \<longrightarrow> consistent H t"
    proof
      assume "consistent H s"
      then have "consistent H (s\<lparr>as_ownership := ?o\<rparr>)" by simp
      then have "consistent H p" using q by (rule consistent_silent) simp
      then have c: "consistent H (st_child_ref_ids_update (dput (task_id, cp_client_ref c) i) p)"
        by (simp add: consistent_def sound_store_def event_log_def recorded_def view.defs)
      have "st_child_ref_ids_update (dput (task_id, cp_client_ref c) i) (put_child ?b p) =
          put_child ?b (st_child_ref_ids_update (dput (task_id, cp_client_ref c) i) p)"
        by (simp add: put_child_def)
      with w show "consistent H t" by (intro consistent_update_commit [OF c]) auto
    qed
  qed
qed

definition registered ::
    "((string \<times> pyval) list \<Rightarrow> resource_region res) \<Rightarrow> string \<Rightarrow> 'r app_store_scheme \<Rightarrow> child_proposal \<Rightarrow> string \<Rightarrow> bool" where
  "registered parse_region task_id t c i \<longleftrightarrow>
     (\<exists>b. child_of parse_region task_id c i b \<and> dget (st_children t) i = Some b \<and>
        dget (ob_boundaries (as_ownership t)) i = Some b \<and>
        dget (st_child_ref_ids t) (task_id, cp_client_ref c) = Some i)"

text \<open>Registered children stay: an identifier in use is refused, and each reference is new.\<close>

lemma create_children_Inr:
  assumes "create_children H parse_region task_id ids n cs s = (Inr is, t)" and "distinct (map cp_client_ref cs)"
  shows "is = map ids [n ..< n + length cs] \<and> list_all2 (registered parse_region task_id t) cs is \<and>
    st_tasks t = st_tasks s \<and> st_plans t = st_plans s \<and>
    (\<forall>k b. dget (ob_boundaries (as_ownership s)) k = Some b \<longrightarrow>
       dget (ob_boundaries (as_ownership t)) k = Some b \<and> dget (st_children t) k = dget (st_children s) k) \<and>
    (\<forall>r. r \<notin> cp_client_ref ` set cs \<longrightarrow> dget (st_child_ref_ids t) (task_id, r) = dget (st_child_ref_ids s) (task_id, r)) \<and>
    (consistent H s \<longrightarrow> consistent H t)"
  using assms
proof (induction cs arbitrary: n s "is")
  case (Cons c cs)
  from Cons.prems(1) obtain k u js where k: "create_child H parse_region task_id (ids n) c s = (Inr k, u)"
    and js: "create_children H parse_region task_id ids (Suc n) cs u = (Inr js, t)" and is': "is = k # js"
    by (auto simp: prog_simps)
  from k obtain b j where kn: "k = ids n" and b: "child_of parse_region task_id c (ids n) b"
    and new: "dget (ob_boundaries (as_ownership s)) (ids n) = None"
    and u: "u = s\<lparr>st_journal := j, st_children := dput (ids n) b (st_children s),
        st_child_ref_ids := dput (task_id, cp_client_ref c) (ids n) (st_child_ref_ids s),
        as_ownership := ob_boundaries_update (dput (ids n) b) (as_ownership s)\<rparr>"
    and con: "consistent H s \<longrightarrow> consistent H u" by (rule create_child_Inr)
  have fresh: "cp_client_ref c \<notin> cp_client_ref ` set cs" using Cons.prems(2) by simp
  note rest = Cons.IH [OF js] Cons.prems(2)
  have kept: "dget (ob_boundaries (as_ownership t)) k = Some b' \<and> dget (st_children t) k = dget (st_children u) k"
    if "dget (ob_boundaries (as_ownership u)) k = Some b'" for k b' using rest that by simp
  have "registered parse_region task_id t c k"
    using kept [of "ids n" b] rest fresh b by (auto simp: registered_def u kn)
  moreover have "[n ..< n + length (c # cs)] = n # [Suc n ..< Suc n + length cs]"
    by (simp add: upt_conv_Cons del: upt_Suc)
  moreover have "dget (ob_boundaries (as_ownership t)) l = Some b' \<and> dget (st_children t) l = dget (st_children s) l"
    if "dget (ob_boundaries (as_ownership s)) l = Some b'" for l b'
  proof -
    have "l \<noteq> ids n" using that new by auto
    then show ?thesis using kept [of l b'] that by (simp add: u)
  qed
  ultimately show ?case
    using rest con by (auto simp: is' kn u)
qed simp

lemma put_task_commutes: "put_task u (s\<lparr>st_journal := j\<rparr>) = (put_task u s)\<lparr>st_journal := j\<rparr>"
  by (simp add: put_task_def)

lemma app_frame [simp]:
  "st_children (put_task u s) = st_children s" "st_child_ref_ids (put_task u s) = st_child_ref_ids s"
  "st_children (put_plan p s) = st_children s" "st_child_ref_ids (put_plan p s) = st_child_ref_ids s"
  "st_plans (put_task u s) = st_plans s" "st_tasks (put_plan p s) = st_tasks s"
  "as_ownership (put_task u (a :: 'a app_store_scheme)) = as_ownership a" "as_ownership (put_plan p a) = as_ownership a"
  by (simp_all add: put_task_def put_plan_def)

lemma commit_plan_Inr:
  assumes "commit_plan H parse_region tk p ids key now s = (Inr x, t)" and "distinct (map cp_client_ref (wl_children p))"
    and known: "dget (st_tasks s) (pt_id tk) = Some tk" "wl_parent_task_id p = pt_id tk"
  shows "\<exists>u. pt_status tk = TS_draft \<and>
      u = tk\<lparr>pt_status := TS_planned, pt_version := pt_version tk + 1, pt_updated_at := now, pt_plan_id := Some (wl_id p),
             pt_child_task_ids := map ids [0 ..< length (wl_children p)]\<rparr> \<and>
      st_tasks t = dput (pt_id tk) u (st_tasks s) \<and> st_plans t = dput (wl_id p) p (st_plans s) \<and>
      list_all2 (registered parse_region (pt_id tk) t) (wl_children p) (map ids [0 ..< length (wl_children p)]) \<and>
      (consistent H s \<longrightarrow> consistent H t)"
proof -
  from assms(1) obtain js c moved where c: "create_children H parse_region (pt_id tk) ids 0 (wl_children p) s = (Inr js, c)"
    and moved: "transition_task tk TS_planned (pt_version tk) None now = Inr moved"
    and rest: "andthen (commit H (PlanCommitted p) key)
        (commit H (TaskUpdated (moved\<lparr>pt_plan_id := Some (wl_id p), pt_child_task_ids := js\<rparr>)) None)
        (put_task (moved\<lparr>pt_plan_id := Some (wl_id p), pt_child_task_ids := js\<rparr>) (put_plan p c)) = (Inr x, t)"
    unfolding commit_plan_def by (auto simp: prog_simps Let_def)
  let ?u = "moved\<lparr>pt_plan_id := Some (wl_id p), pt_child_task_ids := js\<rparr>"
  note made = create_children_Inr [OF c assms(2)]
  have "step_task TS_planned now tk = Inr moved" using moved by (simp add: step_task_def)
  then have m: "pt_status tk = TS_draft"
      "moved = tk\<lparr>pt_status := TS_planned, pt_version := pt_version tk + 1, pt_updated_at := now\<rparr>"
    by (cases "pt_status tk"; simp add: step_task_simps)+
  have id: "pt_id ?u = pt_id tk" by (simp add: m(2))
  from rest obtain y w where w: "commit H (PlanCommitted p) key (put_task ?u (put_plan p c)) = (Inr (), w)"
    and t: "commit H (TaskUpdated ?u) None w = (Inr (), t)"
    by (auto simp: prog_simps)
  let ?m = "tk\<lparr>pt_plan_id := Some (wl_id p), pt_status := TS_planned, pt_version := pt_version tk + 1\<rparr>"
  obtain j where j: "w = (put_task ?u (put_plan p c))\<lparr>st_journal := j\<rparr>"
    "commit H (PlanCommitted p) key (put_task ?m (put_plan p c)) = (Inr (), (put_task ?m (put_plan p c))\<lparr>st_journal := j\<rparr>)"
    using commit_on_journal [OF _ w, of "put_task ?m (put_plan p c)"] by (auto simp: put_task_def)
  obtain l where l: "t = w\<lparr>st_journal := l\<rparr>" using commit_view [OF t] by blast
  have con: "consistent H t" if "consistent H s"
  proof -
    have "consistent H c" using made that by simp
    moreover have "apply_event (PlanCommitted p) c = Inr (put_task ?m (put_plan p c))"
      using known made by simp
    ultimately have m: "consistent H ((put_task ?m (put_plan p c))\<lparr>st_journal := j\<rparr>)"
      by (rule consistent_update_commit [OF _ _ j(2)])
    have "apply_event (TaskUpdated ?u) ((put_task ?m (put_plan p c))\<lparr>st_journal := j\<rparr>) = Inr w"
      by (simp add: j(1) put_task_commutes) (simp add: put_task_def id)
    then show ?thesis by (rule consistent_update_commit [OF m _ t])
  qed
  have reg: "registered parse_region (pt_id tk) t = registered parse_region (pt_id tk) c"
    by (intro ext) (simp add: registered_def l j(1))
  have "st_tasks t = dput (pt_id tk) ?u (st_tasks s)"
    using made by (simp add: l j(1) put_task_def put_plan_def m(2))
  moreover have "st_plans t = dput (wl_id p) p (st_plans s)"
    using made by (simp add: l j(1) put_plan_def)
  moreover have js: "js = map ids [0 ..< length (wl_children p)]" using made by simp
  moreover have "list_all2 (registered parse_region (pt_id tk) c) (wl_children p) js" using made by blast
  then have regs: "list_all2 (registered parse_region (pt_id tk) t) (wl_children p) js" by (simp only: reg)
  ultimately show ?thesis
    using con regs [unfolded js] by (intro exI [of _ ?u]) (simp add: m js)
qed

section \<open>What a plan request guarantees\<close>


text \<open>
  Only a child that depends on itself is called a cycle: two children that depend on each other are
  accepted, and so is an integration order that names a child twice.
\<close>

definition child_on :: "string \<Rightarrow> string list \<Rightarrow> child_proposal" where
  "child_on r deps = \<lparr>cp_client_ref = r, cp_objective = ''o'', cp_depends_on = deps, cp_read_scope = [], cp_write_regions = [],
     cp_acceptance_contract = [''a''], cp_requested_model_profile = ''default_worker''\<rparr>"

lemma plan_accepts_dependency_cycle:
  "plan_accepted \<lparr>wp_expected_parent_version = 1, wp_children = [child_on ''a'' [''b''], child_on ''b'' [''a'']],
     wp_integration_order = [''a'', ''b'', ''a'']\<rparr>"
  by (simp add: plan_accepted_def child_on_def insert_commute)

definition draft_task :: parent_task where
  "draft_task = running_task\<lparr>pt_status := TS_draft, pt_version := 1\<rparr>"

lemma draft_store:
  "\<exists>s :: app_store. healthy unit_hashing s \<and> consistent unit_hashing s \<and> st_tasks s = [(''t'', draft_task)] \<and>
     as_ownership s = no_ownership"
proof -
  have h: "healthy unit_hashing new_app_store"
    using healthy_journal [of new_app_store "new_store []"] healthy_new_store by simp
  have c: "consistent unit_hashing new_app_store"
    using own_consistent_new [of unit_hashing] by (simp add: own_consistent_def)
  obtain k where k: "consistent unit_hashing ((put_task draft_task new_app_store)\<lparr>st_journal := k\<rparr>)"
    "healthy unit_hashing ((put_task draft_task new_app_store)\<lparr>st_journal := k\<rparr>)"
    using extend_store [OF h c, of "TaskCreated draft_task"] by auto
  have "st_tasks new_app_store = []"
    by (simp add: new_app_store_def store.defs new_store_def empty_view_def view.defs)
  then show ?thesis using k
    by (intro exI [of _ "(put_task draft_task new_app_store)\<lparr>st_journal := k\<rparr>"])
      (simp add: put_task_def draft_task_def running_task_def)
qed


end
