(* ===== verification/Triples.thy ===== *)
theory Triples
  imports Store
begin

text \<open>
  Weakest preconditions of programs with exceptions: \<open>wp m Q E s\<close> says that running \<open>m\<close> from \<open>s\<close> ends
  in \<open>Q\<close> with the value it returns, or in \<open>E\<close> when it raises. The equations take a program apart step
  by step; a commit may do either, and changes nothing but the journal.
\<close>

definition wp :: "('s, 'a) prog \<Rightarrow> ('a \<Rightarrow> 's \<Rightarrow> bool) \<Rightarrow> ('s \<Rightarrow> bool) \<Rightarrow> 's \<Rightarrow> bool" where
  "wp m Q E s \<longleftrightarrow> (case m s of (Inl e, t) \<Rightarrow> E t | (Inr x, t) \<Rightarrow> Q x t)"

named_theorems wp_simps \<open>equations for wp\<close>

lemma wp_ret [wp_simps]: "wp (ret x) Q E = Q x"
  and wp_raise [wp_simps]: "wp (raise_exn e) Q E = E"
  and wp_get [wp_simps]: "wp (get f) Q' E = (\<lambda>s. Q' (f s) s)"
  and wp_modify [wp_simps]: "wp (modify g) Q'' E = (\<lambda>s. Q'' () (g s))"
  and wp_raise_when [wp_simps]: "wp (raise_when b e) Q'' E = (if b then E else Q'' ())"
  by (simp_all add: wp_def fun_eq_iff)

lemma wp_lift [wp_simps]: "wp (lift r) Q E = (case r of Inl e \<Rightarrow> E | Inr x \<Rightarrow> Q x)"
  by (simp add: wp_def fun_eq_iff split: sum.split)

lemma wp_bind [wp_simps]: "wp (bind m f) Q E = wp m (\<lambda>x. wp (f x) Q E) E"
  by (rule ext) (auto simp: wp_def bind_def split: prod.split sum.split)

lemma wp_andthen [wp_simps]: "wp (andthen m n) Q E = wp m (\<lambda>_. wp n Q E) E"
  by (simp add: andthen_def wp_bind)

lemma wp_ensuring [wp_simps]: "wp (ensuring m f) Q E = wp m (\<lambda>x t. Q x (f t)) (\<lambda>t. E (f t))"
  by (rule ext) (auto simp: wp_def ensuring_def split: prod.split sum.split)

lemma wp_rewrap [wp_simps]: "wp (rewrap p e m) Q E = wp m Q E"
  by (rule ext) (auto simp: wp_def rewrap_def split: prod.split sum.split)

lemma wp_if [wp_simps]: "wp (if b then m else n) Q E = (if b then wp m Q E else wp n Q E)"
  by simp

text \<open>The equations that run a program on a state, to be left out where \<open>wp_simps\<close> are used.\<close>

lemmas run_eqs = bind_ret bind_raise bind_get bind_modify bind_lift_Inr bind_lift_Inl rewrap_lift
  andthen_lift andthen_raise_when andthen_modify

lemma wp_mono:
  "wp m Q E s \<Longrightarrow> (\<And>x t. Q x t \<Longrightarrow> Q' x t) \<Longrightarrow> (\<And>t. E t \<Longrightarrow> E' t) \<Longrightarrow> wp m Q' E' s"
  by (auto simp: wp_def split: prod.splits sum.splits)

lemma wp_catch_all: "wp m Q (\<lambda>t. \<forall>e. wp (h e) Q E t) s \<Longrightarrow> wp (catch_all m h) Q E s"
  unfolding wp_def catch_all_def by (cases "m s"; cases "fst (m s)") auto

lemma wp_Inr: "wp m Q E s \<Longrightarrow> m s = (Inr x, t) \<Longrightarrow> Q x t"
  by (simp add: wp_def)

lemma wpI: "(\<And>x t. m s = (Inr x, t) \<Longrightarrow> Q x t) \<Longrightarrow> (\<And>e t. m s = (Inl e, t) \<Longrightarrow> E t) \<Longrightarrow> wp m Q E s"
  by (auto simp: wp_def split: prod.split sum.split)

lemma wp_keeps: "keeps P m \<Longrightarrow> P s \<Longrightarrow> wp m (\<lambda>_. P) P s"
  by (rule wpI) (auto dest: keepsD)

lemma wp_commit:
  assumes "\<And>j. Q () (s\<lparr>st_journal := j\<rparr>)" and "\<And>j. E (s\<lparr>st_journal := j\<rparr>)"
  shows "wp (commit H e k) Q E s"
proof (rule wpI)
  fix x t assume "commit H e k s = (Inr x, t)"
  with assms(1) show "Q x t" by (auto dest: commit_view)
next
  fix e' t assume "commit H e k s = (Inl e', t)"
  with assms(2) show "E t" by (auto dest: commit_view)
qed

text \<open>\<open>yields P I m\<close>: \<open>m\<close> keeps \<open>I\<close> whatever the outcome, and a value it returns satisfies \<open>P\<close>.\<close>

definition yields :: "('a \<Rightarrow> bool) \<Rightarrow> ('s \<Rightarrow> bool) \<Rightarrow> ('s, 'a) prog \<Rightarrow> bool" where
  "yields P I m \<longleftrightarrow> (\<forall>s. I s \<longrightarrow> wp m (\<lambda>x t. P x \<and> I t) I s)"

named_theorems yields_intros \<open>introduction rules for yields\<close>

lemma yieldsD: "yields P I m \<Longrightarrow> I s \<Longrightarrow> wp m (\<lambda>x t. P x \<and> I t) I s"
  by (simp add: yields_def)

lemma yields_ret [yields_intros]: "P x \<Longrightarrow> yields P I (ret x)"
  and yields_raise [yields_intros]: "yields P I (raise_exn e)"
  by (simp_all add: yields_def wp_simps)

lemma yields_bind: "yields P I m \<Longrightarrow> (\<And>x. P x \<Longrightarrow> yields P' I (f x)) \<Longrightarrow> yields P' I (bind m f)"
  by (auto simp: yields_def wp_bind intro: wp_mono)

lemma yields_keeps: "keeps I m \<Longrightarrow> yields (\<lambda>_. True) I m"
  by (auto simp: yields_def intro: wp_mono [OF wp_keeps])

lemma keeps_yields: "yields P I m \<Longrightarrow> keeps I m"
  by (rule keepsI, drule (1) yieldsD) (auto simp: wp_def split: sum.splits)

lemma yields_weaken: "yields P I m \<Longrightarrow> (\<And>x. P x \<Longrightarrow> P' x) \<Longrightarrow> yields P' I m"
  by (auto simp: yields_def intro: wp_mono)

lemma yields_after [yields_intros]:
  "keeps I m \<Longrightarrow> (\<And>x. yields P I (f x)) \<Longrightarrow> yields P I (bind m f)"
  "keeps I m \<Longrightarrow> yields P I n \<Longrightarrow> yields P I (andthen m n)"
  by (auto intro: yields_bind yields_keeps simp: andthen_def)

lemma yields_if [yields_intros]: "(b \<Longrightarrow> yields P I m) \<Longrightarrow> (\<not> b \<Longrightarrow> yields P I n) \<Longrightarrow> yields P I (if b then m else n)"
  by simp

end
