(* ===== verification/Runner.thy ===== *)
theory Runner
  imports Application Triples
begin

text \<open>
  \<^verbatim>\<open>execution/runner.py\<close>: one worker attempt from its claim to the state it ends in. The lemmas follow
  an attempt through a run by weakest preconditions: \<open>phase\<close> is the attempt and whether its handle has
  been asked to cancel, \<open>live\<close> and \<open>touched\<close> what the world and a failed commit may leave.

  The state is the store with the checkpoint store (\<open>runtime\<close>). Between two awaits the code runs alone;
  what the provider and the other coroutines do during an await is the parameter \<open>run_world\<close>:
  \<open>rw_call\<close> until \<^verbatim>\<open>asyncio.wait\<close> returns, \<open>rw_settle\<close> while the heartbeat task is awaited at the end. The
  handle of a run is the one registered for its attempt with the key of the run; nobody else
  registers a handle for an attempt that is running. All times of one run are \<open>rw_now\<close>.
\<close>

section \<open>The runner and its world\<close>

record runner =
  wr_on_usage :: "(usage_record \<Rightarrow> (runtime, unit) prog) option"
  wr_provider_timeout :: "rat option"
  wr_claim_ttl :: time
  wr_cancel_grace_seconds :: rat

definition worker_runner ::
    "(usage_record \<Rightarrow> (runtime, unit) prog) option \<Rightarrow> rat option \<Rightarrow> time \<Rightarrow> rat \<Rightarrow> rat option \<Rightarrow> runner res" where
  "worker_runner on_usage provider_timeout claim_ttl cancel_grace_seconds cancel_grace =
     (let grace = (case cancel_grace of None \<Rightarrow> cancel_grace_seconds | Some g \<Rightarrow> g) in
      if (case provider_timeout of None \<Rightarrow> False | Some x \<Rightarrow> x \<le> 0)
      then Inl (ValueError ''provider_timeout must be positive or None'')
      else if grace < 0 then Inl (ValueError ''cancel_grace_seconds must not be negative'')
      else Inr \<lparr>wr_on_usage = on_usage, wr_provider_timeout = provider_timeout, wr_claim_ttl = claim_ttl,
                wr_cancel_grace_seconds = grace\<rparr>)"

text \<open>
  What a cancelled provider does: its \<^verbatim>\<open>cancel\<close> method, if it has one (the argument says whether the
  handle is passed; the call may raise, and so may waiting for its answer, which counts if it is a
  boolean), whether its task is done by then,
  and how waiting for the task ends.
\<close>

datatype grace_outcome = GraceFinished | GraceRaised exn | GraceExpired | GraceCancelled

record cancel_world =
  cw_cancel :: "(bool \<Rightarrow> bool option res res) option"
  cw_task_done :: bool
  cw_grace :: grace_outcome

text \<open>How \<^verbatim>\<open>asyncio.wait\<close> ends; a woken cancel wins over a finished provider task.\<close>

datatype wait_outcome =
    WaitTimedOut
  | WaitCancelWoken cancel_world
  | WaitRaised exn
  | WaitReturned usage_record

record run_world =
  rw_token :: string
  rw_clock :: datetime
  rw_now :: time
  rw_key :: nat
  rw_call :: "execution_request \<Rightarrow> string option \<Rightarrow> (runtime, wait_outcome) prog"
  rw_settle :: "runtime \<Rightarrow> runtime"

text \<open>What \<^verbatim>\<open>inspect.signature(self.provider.complete)\<close> tells; \<open>None\<close> when it raises.\<close>

record provider_signature =
  ps_names :: "string list"
  ps_var_keyword :: bool

definition handle_argument :: "provider_signature option \<Rightarrow> bool" where
  "handle_argument sig =
     (case sig of None \<Rightarrow> False | Some p \<Rightarrow> ''execution_handle'' \<in> set (ps_names p) \<or> ps_var_keyword p)"

definition workspace_argument :: "provider_signature option \<Rightarrow> worker_attempt \<Rightarrow> string option" where
  "workspace_argument sig a =
     (case wa_workspace a of
        None \<Rightarrow> None
      | Some binding \<Rightarrow>
     (case sig of
        None \<Rightarrow> None
      | Some p \<Rightarrow> if ''workspace_path'' \<in> set (ps_names p) \<or> ps_var_keyword p
                  then Some (wb_owner_workspace binding) else None))"

section \<open>Handles\<close>

definition own_handle :: "string \<Rightarrow> nat \<Rightarrow> 'r store_scheme \<Rightarrow> execution_handle" where
  "own_handle i k s =
     (case dget (st_handles s) i of
        Some h \<Rightarrow> if hd_key h = k then h
                  else \<lparr>hd_key = k, hd_pause_requested = False, hd_cancel_requested = False, hd_done = False\<rparr>
      | None \<Rightarrow> \<lparr>hd_key = k, hd_pause_requested = False, hd_cancel_requested = False, hd_done = False\<rparr>)"

definition runner_request_pause :: "string \<Rightarrow> ('r store_scheme, bool) prog" where
  "runner_request_pause i =
     bind (get (\<lambda>s. dget (st_handles s) i)) (\<lambda>found.
     case found of
       None \<Rightarrow> ret False
     | Some h \<Rightarrow> andthen (modify (st_handles_update (dput i (request_pause h)))) (ret True))"

definition runner_request_cancel :: "string \<Rightarrow> ('r store_scheme, bool) prog" where
  "runner_request_cancel i =
     bind (get (\<lambda>s. dget (st_handles s) i)) (\<lambda>found.
     case found of
       None \<Rightarrow> ret False
     | Some h \<Rightarrow> andthen (modify (st_handles_update (dput i (request_cancel h)))) (ret True))"

section \<open>Steps of a run\<close>

definition store_attempt :: "string \<Rightarrow> worker_attempt \<Rightarrow> 'r store_scheme \<Rightarrow> 'r store_scheme" where
  "store_attempt i a = st_attempts_update (dput i a)"

definition commit_worker ::
    "event hashing \<Rightarrow> worker_event_kind \<Rightarrow> string \<Rightarrow> worker_attempt \<Rightarrow> ('r store_scheme, unit) prog" where
  "commit_worker H kind i a =
     bind (get (session_of i)) (\<lambda>session. commit H (WorkerEvent kind a session) None)"

definition read_attempt :: "string \<Rightarrow> ('r store_scheme, worker_attempt) prog" where
  "read_attempt i =
     bind (get (\<lambda>s. dget (st_attempts s) i)) (\<lambda>found.
     case found of None \<Rightarrow> raise_exn KeyError | Some a \<Rightarrow> ret a)"

definition persist_provider_request ::
    "event hashing \<Rightarrow> string \<Rightarrow> execution_request \<Rightarrow> ('r store_scheme, unit) prog" where
  "persist_provider_request H i req =
     bind (get (\<lambda>s. dget (st_attempts s) i)) (\<lambda>found.
     case found of
       None \<Rightarrow> raise_exn (ValueError ''worker attempt not found'')
     | Some a \<Rightarrow>
     (case wa_provider_request a of
        Some old \<Rightarrow> raise_when (old \<noteq> req) (ValueError ''provider request is immutable for an attempt'')
      | None \<Rightarrow>
          let u = a\<lparr>wa_provider_request := Some req, wa_version := wa_version a + 1\<rparr>
          in andthen (commit_worker H WE_request_bound i u) (modify (store_attempt i u))))"

definition claimed_attempt :: "string \<Rightarrow> ('r store_scheme, worker_attempt) prog" where
  "claimed_attempt i =
     bind (get (\<lambda>s. dget (st_attempts s) i)) (\<lambda>found.
     case found of
       None \<Rightarrow> raise_exn (ValueError ''attempt must be claimed before claim=False execution'')
     | Some a \<Rightarrow>
         if wa_status a \<noteq> WS_claimed
         then raise_exn (ValueError ''attempt must be claimed before claim=False execution'') else ret a)"

definition runner_checkpoint_of :: "worker_attempt \<Rightarrow> bool \<Rightarrow> string \<Rightarrow> string list \<Rightarrow> checkpoint" where
  "runner_checkpoint_of a safe next_step failures =
     \<lparr>ck_id = ''cp_'' @ wa_id a @ ''_'' @ int_text (wa_version a + 1), ck_boundary_version = wa_version a,
      ck_owner_version = 1, ck_confirmed_facts = [''worker attempt '' @ wa_id a @ '' reached provider boundary''],
      ck_open_questions = [], ck_modification_summary = [], ck_executed_commands = [], ck_evidence_refs = [],
      ck_recent_failures = failures, ck_next_step = next_step, ck_safe_to_resume = safe, ck_artifact_refs = []\<rparr>"

definition runner_checkpoint ::
    "event hashing \<Rightarrow> checkpoint_codec \<Rightarrow> disk_usage \<Rightarrow> worker_attempt \<Rightarrow> bool \<Rightarrow> string \<Rightarrow> string list \<Rightarrow>
     (runtime, worker_attempt) prog" where
  "runner_checkpoint H C du a safe next_step failures =
     bind (get (\<lambda>s. rt_checkpoints s = None)) (\<lambda>off.
     if off then ret a
     else let c = runner_checkpoint_of a safe next_step failures;
              u = a\<lparr>wa_checkpoint_id := Some (ck_id c), wa_checkpoint_safe_to_resume := safe,
                    wa_version := wa_version a + 1\<rparr>
          in andthen (on_checkpoints (save_checkpoint C du c))
            (andthen (modify (store_attempt (wa_id a) u))
            (andthen (commit_worker H WE_checkpointed (wa_id a) u) (ret u))))"

text \<open>\<^verbatim>\<open>transition_worker_attempt\<close>, the update of the dictionary and the commit.\<close>

definition move_attempt ::
    "event hashing \<Rightarrow> string \<Rightarrow> worker_attempt \<Rightarrow> worker_attempt_status \<Rightarrow> worker_attempt_transition_conditions option \<Rightarrow>
     worker_event_kind \<Rightarrow> time \<Rightarrow> ('r store_scheme, worker_attempt) prog" where
  "move_attempt H i a target conditions kind now =
     bind (lift (transition_worker_attempt a target (wa_version a) conditions now)) (\<lambda>u.
     andthen (modify (store_attempt i u)) (andthen (commit_worker H kind i u) (ret u)))"

section \<open>The ends of a run\<close>

definition run_paused ::
    "event hashing \<Rightarrow> checkpoint_codec \<Rightarrow> disk_usage \<Rightarrow> string \<Rightarrow> time \<Rightarrow> (runtime, worker_attempt) prog" where
  "run_paused H C du i now =
     bind (read_attempt i) (\<lambda>a.
     bind (if wa_status a = WS_running then request_control H i ''pause'' now else ret a) (\<lambda>b.
     if wa_status b \<noteq> WS_pause_requested then ret b
     else bind (runner_checkpoint H C du b True ''resume provider call from the last provider boundary'' []) (\<lambda>c.
          bind (move_attempt H i c WS_paused (Some (no_conditions\<lparr>tc_checkpoint_durable := True\<rparr>)) WE_paused now) (\<lambda>u.
          andthen (commit_worker H WE_checkpointed i u) (ret u)))))"

definition run_cancelled :: "event hashing \<Rightarrow> string \<Rightarrow> time \<Rightarrow> ('r store_scheme, worker_attempt) prog" where
  "run_cancelled H i now =
     bind (read_attempt i) (\<lambda>a.
     bind (if wa_status a = WS_running then request_control H i ''cancel'' now else ret a) (\<lambda>b.
     if wa_status b \<noteq> WS_cancel_requested then ret b
     else move_attempt H i b WS_cancelled (Some (no_conditions\<lparr>tc_execution_stopped := True\<rparr>)) WE_stopped now))"

definition run_cancel_failed :: "event hashing \<Rightarrow> string \<Rightarrow> time \<Rightarrow> ('r store_scheme, worker_attempt) prog" where
  "run_cancel_failed H i now =
     bind (read_attempt i) (\<lambda>a.
     if wa_status a \<noteq> WS_cancel_requested then ret a
     else move_attempt H i a WS_failed (Some no_conditions) WE_cancel_failed now)"

fun status_value :: "worker_attempt_status \<Rightarrow> string" where
  "status_value WS_queued = ''queued''"
| "status_value WS_claimed = ''claimed''"
| "status_value WS_running = ''running''"
| "status_value WS_waiting_approval = ''waiting_approval''"
| "status_value WS_pause_requested = ''pause_requested''"
| "status_value WS_cancel_requested = ''cancel_requested''"
| "status_value WS_paused = ''paused''"
| "status_value WS_succeeded = ''succeeded''"
| "status_value WS_partial = ''partial''"
| "status_value WS_blocked = ''blocked''"
| "status_value WS_failed = ''failed''"
| "status_value WS_cancelled = ''cancelled''"

definition run_terminal ::
    "event hashing \<Rightarrow> checkpoint_codec \<Rightarrow> disk_usage \<Rightarrow> string \<Rightarrow> worker_attempt_status \<Rightarrow> time \<Rightarrow>
     (runtime, worker_attempt) prog" where
  "run_terminal H C du i status now =
     bind (read_attempt i) (\<lambda>a.
     bind (runner_checkpoint H C du a (status = WS_succeeded)
             (if status = WS_succeeded then ''stop'' else ''inspect failure before retry'')
             (if status = WS_succeeded then [] else [status_value status])) (\<lambda>b.
     bind (move_attempt H i b status None WE_stopped now) (\<lambda>_. ack_terminal H i (Some status))))"

section \<open>Control requests seen by a run\<close>

definition sync_persisted_control :: "string \<Rightarrow> ('r store_scheme, unit) prog" where
  "sync_persisted_control i =
     bind (read_attempt i) (\<lambda>a.
     if wa_status a = WS_cancel_requested then bind (runner_request_cancel i) (\<lambda>_. ret ())
     else if wa_status a = WS_pause_requested then bind (runner_request_pause i) (\<lambda>_. ret ())
     else ret ())"

definition is_cancel_requested :: "string \<Rightarrow> nat \<Rightarrow> ('r store_scheme, bool) prog" where
  "is_cancel_requested i k =
     bind (get (own_handle i k)) (\<lambda>h.
     if hd_cancel_requested h then ret True
     else bind (read_attempt i) (\<lambda>a. ret (wa_status a = WS_cancel_requested)))"

definition is_pause_requested :: "string \<Rightarrow> nat \<Rightarrow> ('r store_scheme, bool) prog" where
  "is_pause_requested i k =
     bind (get (own_handle i k)) (\<lambda>h.
     if hd_pause_requested h then ret True
     else bind (read_attempt i) (\<lambda>a. ret (wa_status a = WS_pause_requested)))"

text \<open>Whether the provider is known to have stopped; a remote call cancelled only here is not.\<close>

definition cancel_provider :: "cancel_world \<Rightarrow> bool res" where
  "cancel_provider w =
     (case (case cw_cancel w of
              None \<Rightarrow> Inr (Inr None)
            | Some cancel \<Rightarrow> (case cancel True of Inl TypeError \<Rightarrow> cancel False | called \<Rightarrow> called)) of
        Inl e \<Rightarrow> Inl e
      | Inr (Inl e) \<Rightarrow> Inl e
      | Inr (Inr answer) \<Rightarrow>
          if answer = Some False then Inr False
          else if cw_task_done w then Inr True
          else (case cw_grace w of
                  GraceFinished \<Rightarrow> Inr True
                | GraceRaised e \<Rightarrow> Inl e
                | GraceExpired \<Rightarrow> Inr False
                | GraceCancelled \<Rightarrow> Inr True))"

text \<open>One turn of \<^verbatim>\<open>_heartbeat_loop\<close> after its sleep; the result says whether the loop goes on.\<close>

definition heartbeat_turn ::
    "event hashing \<Rightarrow> string \<Rightarrow> string \<Rightarrow> nat \<Rightarrow> datetime \<Rightarrow> time \<Rightarrow> ('r store_scheme, bool) prog" where
  "heartbeat_turn H i token k now ttl =
     bind (get (\<lambda>s. (hd_done (own_handle i k s), dget (st_attempts s) i))) (\<lambda>(finished, found).
     case found of
       None \<Rightarrow> ret False
     | Some a \<Rightarrow>
         if finished \<or> token = [] \<or> wa_status a \<notin> {WS_claimed, WS_running} then ret False
         else catch_all (bind (attempt_heartbeat H i token now ttl) (\<lambda>_. ret True)) (\<lambda>_. ret False))"

section \<open>A run: WorkerRunner.run\<close>

definition use_usage :: "event hashing \<Rightarrow> runner \<Rightarrow> usage_record \<Rightarrow> (runtime, unit) prog" where
  "use_usage H R u =
     (case wr_on_usage R of
        Some f \<Rightarrow> f u
      | None \<Rightarrow> bind (record_usage H u) (\<lambda>_. ret ()))"

text \<open>After the provider returned: the usage, with the control requests checked on both sides of it.\<close>

definition after_return ::
    "event hashing \<Rightarrow> checkpoint_codec \<Rightarrow> disk_usage \<Rightarrow> runner \<Rightarrow> run_world \<Rightarrow> string \<Rightarrow> usage_record \<Rightarrow>
     (runtime, worker_attempt option) prog" where
  "after_return H C du R w i u =
     bind (is_cancel_requested i (rw_key w)) (\<lambda>before.
     if before then bind (run_cancelled H i (rw_now w)) (\<lambda>a. ret (Some a))
     else andthen (use_usage H R u)
         (bind (is_cancel_requested i (rw_key w)) (\<lambda>cancel.
          if cancel then bind (run_cancelled H i (rw_now w)) (\<lambda>a. ret (Some a))
          else bind (is_pause_requested i (rw_key w)) (\<lambda>pause.
               if pause then bind (run_paused H C du i (rw_now w)) (\<lambda>a. ret (Some a)) else ret None))))"

text \<open>The body of the try statement: \<open>None\<close> when it ends without returning.\<close>

definition run_body ::
    "event hashing \<Rightarrow> checkpoint_codec \<Rightarrow> disk_usage \<Rightarrow> runner \<Rightarrow> provider_signature option \<Rightarrow> run_world \<Rightarrow> string \<Rightarrow>
     execution_request \<Rightarrow> (runtime, worker_attempt option) prog" where
  "run_body H C du R sig w i req =
     andthen (sync_persisted_control i)
    (bind (get (own_handle i (rw_key w))) (\<lambda>h.
     if hd_cancel_requested h then bind (run_cancelled H i (rw_now w)) (\<lambda>a. ret (Some a))
     else if hd_pause_requested h then bind (run_paused H C du i (rw_now w)) (\<lambda>a. ret (Some a))
     else bind (read_attempt i) (\<lambda>a.
          bind (rw_call w req (workspace_argument sig a)) (\<lambda>outcome.
          case outcome of
            WaitTimedOut \<Rightarrow> raise_exn OSError
          | WaitCancelWoken cw \<Rightarrow>
              bind (lift (cancel_provider cw)) (\<lambda>stopped.
              bind (if stopped then run_cancelled H i (rw_now w) else run_cancel_failed H i (rw_now w)) (\<lambda>b. ret (Some b)))
          | WaitRaised e \<Rightarrow> raise_exn e
          | WaitReturned u \<Rightarrow> after_return H C du R w i u))))"

definition run_guarded ::
    "event hashing \<Rightarrow> checkpoint_codec \<Rightarrow> disk_usage \<Rightarrow> runner \<Rightarrow> provider_signature option \<Rightarrow> run_world \<Rightarrow> string \<Rightarrow>
     execution_request \<Rightarrow> (runtime, worker_attempt option) prog" where
  "run_guarded H C du R sig w i req =
     ensuring
       (catch_all (run_body H C du R sig w i req) (\<lambda>_.
          bind (is_cancel_requested i (rw_key w)) (\<lambda>cancel.
          if cancel then bind (run_cancelled H i (rw_now w)) (\<lambda>a. ret (Some a))
          else bind (run_terminal H C du i WS_failed (rw_now w)) (\<lambda>a. ret (Some a)))))
       (\<lambda>s. let t = rw_settle w s in release_handle i (mark_done (own_handle i (rw_key w) t)) t)"

definition new_handle :: "nat \<Rightarrow> execution_handle" where
  "new_handle k = \<lparr>hd_key = k, hd_pause_requested = False, hd_cancel_requested = False, hd_done = False\<rparr>"

definition start_run ::
    "event hashing \<Rightarrow> checkpoint_codec \<Rightarrow> disk_usage \<Rightarrow> runner \<Rightarrow> run_world \<Rightarrow> bool \<Rightarrow> string \<Rightarrow>
     (runtime, worker_attempt) prog" where
  "start_run H C du R w claim i =
     bind (if claim then claim_attempt H i (rw_token w) (rw_clock w) (wr_claim_ttl R) else claimed_attempt i) (\<lambda>claimed.
     bind (move_attempt H i claimed WS_running (Some (no_conditions\<lparr>tc_claim_token_valid := True\<rparr>)) WE_started (rw_now w)) (\<lambda>running.
     bind (runner_checkpoint H C du running True ''retry provider call from the last provider boundary'' []) (\<lambda>_.
     andthen (modify (register_handle i (new_handle (rw_key w)))) (ret claimed))))"

definition run_attempt ::
    "event hashing \<Rightarrow> checkpoint_codec \<Rightarrow> disk_usage \<Rightarrow> runner \<Rightarrow> provider_signature option \<Rightarrow> run_world \<Rightarrow> bool \<Rightarrow> string \<Rightarrow>
     execution_request \<Rightarrow> (runtime, worker_attempt) prog" where
  "run_attempt H C du R sig w claim i req =
     andthen (lift (if wf_execution_request req then Inr () else Inl (ValueError ''invalid'')))
    (andthen (persist_provider_request H i req)
    (andthen (start_run H C du R w claim i)
    (bind (run_guarded H C du R sig w i req) (\<lambda>returned.
     case returned of
       Some a \<Rightarrow> ret a
     | None \<Rightarrow> run_terminal H C du i WS_succeeded (rw_now w)))))"

section \<open>The phase of a run\<close>

text \<open>
  What matters of an attempt while it runs: its record, and whether its handle was asked to cancel. A
  cancel is recorded in the attempt before the handle is woken (\<open>request_control\<close>).
\<close>

definition phase :: "string \<Rightarrow> nat \<Rightarrow> 'r store_scheme \<Rightarrow> (worker_attempt \<times> bool) option" where
  "phase i k s =
     (case (dget (st_attempts s) i, dget (st_handles s) i) of
        (Some a, Some h) \<Rightarrow>
          if wa_id a = i \<and> 1 \<le> wa_version a \<and> hd_key h = k \<and> \<not> hd_done h then Some (a, hd_cancel_requested h) else None
      | _ \<Rightarrow> None)"

definition live :: "string \<Rightarrow> nat \<Rightarrow> 'r store_scheme \<Rightarrow> bool" where
  "live i k s \<longleftrightarrow> (\<exists>a f. phase i k s = Some (a, f) \<and>
     wa_status a \<in> {WS_running, WS_pause_requested, WS_cancel_requested} \<and> (f \<longrightarrow> wa_status a = WS_cancel_requested))"

definition touched :: "string \<Rightarrow> nat \<Rightarrow> 'r store_scheme \<Rightarrow> bool" where
  "touched i k s \<longleftrightarrow> (\<exists>a f. phase i k s = Some (a, f) \<and>
     wa_status a \<in> {WS_running, WS_pause_requested, WS_cancel_requested, WS_paused, WS_cancelled, WS_failed} \<and>
     (f \<longrightarrow> wa_status a \<in> {WS_cancel_requested, WS_cancelled, WS_failed}))"

lemma live_touched: "live i k s \<Longrightarrow> touched i k s"
  by (auto simp: live_def touched_def)

lemma phase_Some:
  "phase i k s = Some (a, f) \<longleftrightarrow>
     dget (st_attempts s) i = Some a \<and> wa_id a = i \<and> 1 \<le> wa_version a \<and>
     (\<exists>h. dget (st_handles s) i = Some h \<and> hd_key h = k \<and> \<not> hd_done h \<and> f = hd_cancel_requested h)"
  by (auto simp: phase_def split: option.split)

lemma phase_frame [simp]:
  "phase i k (s\<lparr>st_journal := j\<rparr>) = phase i k s"
  "phase i k (q\<lparr>rt_checkpoints := c\<rparr>) = phase i k (q :: runtime)"
  by (simp_all add: phase_def)

lemma live_frame [simp]:
  "live i k (s\<lparr>st_journal := j\<rparr>) = live i k s" "touched i k (s\<lparr>st_journal := j\<rparr>) = touched i k s"
  "live i k (q\<lparr>rt_checkpoints := c\<rparr>) = live i k (q :: runtime)" "touched i k (q\<lparr>rt_checkpoints := c\<rparr>) = touched i k q"
  by (simp_all add: live_def touched_def)

lemma phase_store:
  "phase i k s = Some (a, f) \<Longrightarrow> wa_id b = i \<Longrightarrow> 1 \<le> wa_version b \<Longrightarrow> phase i k (store_attempt i b s) = Some (b, f)"
  by (simp add: phase_Some store_attempt_def)

lemma store_attempt_attempts [simp]:
  "st_attempts (store_attempt i b s) = dput i b (st_attempts s)"
  "st_handles (store_attempt i b s) = st_handles s"
  "rt_checkpoints (store_attempt i b (q :: runtime)) = rt_checkpoints q"
  "st_terminal_acks (store_attempt i b s) = st_terminal_acks s"
  by (simp_all add: store_attempt_def)

lemma own_handle_phase: "phase i k s = Some (a, f) \<Longrightarrow> hd_cancel_requested (own_handle i k s) = f"
  by (auto simp: phase_Some own_handle_def)

section \<open>The steps of a run\<close>

lemma wp_commit_worker:
  assumes "\<And>j. Q () (s\<lparr>st_journal := j\<rparr>)" and "\<And>j. E (s\<lparr>st_journal := j\<rparr>)"
  shows "wp (commit_worker H kind i a) Q E s"
  unfolding commit_worker_def wp_bind wp_get using assms by (rule wp_commit)

lemma wp_read_attempt: "dget (st_attempts s) i = Some a \<Longrightarrow> wp (read_attempt i) Q E s = Q a s"
  by (simp add: read_attempt_def wp_simps)

lemma wp_move_attempt:
  assumes "\<And>u j. transition_worker_attempt a target (wa_version a) c now = Inr u \<Longrightarrow>
      Q u ((store_attempt i u s)\<lparr>st_journal := j\<rparr>) \<and> E ((store_attempt i u s)\<lparr>st_journal := j\<rparr>)"
    and "E s"
  shows "wp (move_attempt H i a target c kind now) Q E s"
proof (cases "transition_worker_attempt a target (wa_version a) c now")
  case (Inl e)
  with assms(2) show ?thesis by (simp add: move_attempt_def wp_simps)
next
  case (Inr u)
  with assms(1) show ?thesis
    unfolding move_attempt_def wp_bind wp_lift wp_andthen wp_modify
    by (auto simp: wp_simps intro!: wp_commit_worker)
qed

text \<open>The attempt a checkpoint leaves.\<close>

definition checkpointed :: "worker_attempt \<Rightarrow> bool \<Rightarrow> checkpoint \<Rightarrow> worker_attempt" where
  "checkpointed a safe c =
     a\<lparr>wa_checkpoint_id := Some (ck_id c), wa_checkpoint_safe_to_resume := safe, wa_version := wa_version a + 1\<rparr>"

lemma wp_runner_checkpoint:
  assumes off: "rt_checkpoints s = None \<Longrightarrow> Q a s" and E: "E s"
    and on: "\<And>cp cp' j. rt_checkpoints s = Some cp \<Longrightarrow>
        save_checkpoint C du (runner_checkpoint_of a safe ns fs) cp = (Inr (), cp') \<Longrightarrow>
        Q (checkpointed a safe (runner_checkpoint_of a safe ns fs))
          ((store_attempt (wa_id a) (checkpointed a safe (runner_checkpoint_of a safe ns fs)) (s\<lparr>rt_checkpoints := Some cp'\<rparr>))\<lparr>st_journal := j\<rparr>) \<and>
        E ((store_attempt (wa_id a) (checkpointed a safe (runner_checkpoint_of a safe ns fs)) (s\<lparr>rt_checkpoints := Some cp'\<rparr>))\<lparr>st_journal := j\<rparr>)"
    and failed: "\<And>cp. E (s\<lparr>rt_checkpoints := Some cp\<rparr>)"
  shows "wp (runner_checkpoint H C du a safe ns fs) Q E s"
proof (cases "rt_checkpoints s")
  case None
  with off show ?thesis by (simp add: runner_checkpoint_def wp_simps)
next
  case (Some cp)
  let ?c = "runner_checkpoint_of a safe ns fs"
  have "wp (on_checkpoints (save_checkpoint C du ?c)) (\<lambda>_ t. wp (andthen (modify (store_attempt (wa_id a) (checkpointed a safe ?c)))
      (andthen (commit_worker H WE_checkpointed (wa_id a) (checkpointed a safe ?c)) (ret (checkpointed a safe ?c)))) Q E t) E s"
  proof (rule wpI)
    fix x t assume "on_checkpoints (save_checkpoint C du ?c) s = (Inr x, t)"
    then obtain cp' where cp': "save_checkpoint C du ?c cp = (Inr (), cp')" "t = s\<lparr>rt_checkpoints := Some cp'\<rparr>"
      using Some by (auto simp: on_checkpoints_def split: prod.splits)
    from on [OF Some cp'(1)] show "wp (andthen (modify (store_attempt (wa_id a) (checkpointed a safe ?c)))
      (andthen (commit_worker H WE_checkpointed (wa_id a) (checkpointed a safe ?c)) (ret (checkpointed a safe ?c)))) Q E t"
      unfolding cp'(2) wp_andthen wp_modify by (intro wp_commit_worker) (auto simp: wp_simps Let_def)
  next
    fix e t assume "on_checkpoints (save_checkpoint C du ?c) s = (Inl e, t)"
    then show "E t" using Some failed by (auto simp: on_checkpoints_def split: prod.splits)
  qed
  with Some show ?thesis by (simp add: runner_checkpoint_def wp_simps Let_def checkpointed_def)
qed

lemma phase_requested:
  "phase i k s = Some (a, f) \<Longrightarrow> phase i k ((put_attempt (requested action a now) s)\<lparr>st_journal := j\<rparr>) = Some (requested action a now, f)"
  by (auto simp: phase_Some requested_def put_attempt_def)

lemma put_attempt_handles [simp]: "st_handles (put_attempt a s) = st_handles s"
  by (simp add: put_attempt_def)

lemma phase_woken:
  assumes "phase i k s = Some (a, f)"
  shows "phase i k (s\<lparr>st_handles := woken action i (st_handles s)\<rparr>) = Some (a, f \<or> action \<noteq> ''pause'')"
  using assms by (auto simp: phase_Some woken_def request_pause_def request_cancel_def)

lemma wp_request_control:
  assumes a: "phase i k s = Some (a, False)" "wa_status a = WS_running" and act: "action \<in> {''pause'', ''cancel''}"
  shows "wp (request_control H i action now)
     (\<lambda>b t. b = requested action a now \<and> phase i k t = Some (b, action \<noteq> ''pause'') \<and>
        rt_checkpoints t = rt_checkpoints s) (touched i k) (s :: runtime)"
proof -
  let ?b = "requested action a now"
  define kind where "kind = (if action = ''pause'' then WE_pause_requested else WE_cancel_requested)"
  have at: "dget (st_attempts s) i = Some a" "wa_id a = i" using a(1) by (simp_all add: phase_Some)
  have move: "transition_worker_attempt a (if action = ''pause'' then WS_pause_requested else WS_cancel_requested)
       (wa_version a) None now = Inr ?b" by (rule requested_transition [OF a(2)])
  have E: "touched i k ((put_attempt ?b s)\<lparr>st_journal := j\<rparr>)" for j
    using phase_requested [OF a(1), where action = action and now = now and j = j] act unfolding touched_def
    by (intro exI [of _ ?b] exI [of _ False]) (auto simp: requested_def)
  have done': "wp (request_execution_control i action)
      (\<lambda>x t. ?b = ?b \<and> phase i k t = Some (?b, action \<noteq> ''pause'') \<and> rt_checkpoints t = rt_checkpoints s) (touched i k)
      ((put_attempt ?b s)\<lparr>st_journal := j\<rparr>)" for j
  proof -
    let ?t = "(put_attempt ?b s)\<lparr>st_journal := j\<rparr>"
    obtain x where "request_execution_control i action ?t = (Inr x, ?t\<lparr>st_handles := woken action i (st_handles ?t)\<rparr>)"
      using request_execution_control_cases [OF act, of i ?t] by blast
    moreover have "phase i k (?t\<lparr>st_handles := woken action i (st_handles ?t)\<rparr>) = Some (?b, action \<noteq> ''pause'')"
      using phase_woken [OF phase_requested [OF a(1)]] by simp
    ultimately show ?thesis by (simp add: wp_def)
  qed
  have eq: "wp (request_control H i action now) Q E s =
     wp (andthen (modify (put_attempt ?b))
          (bind (get (session_of i)) (\<lambda>session.
           andthen (commit H (WorkerEvent kind ?b session) None)
          (andthen (commit H (WorkerEvent WE_checkpointed ?b session) None)
          (andthen (request_execution_control i action) (ret ?b)))))) Q E s" for Q E
    using act a(2) at move
    by (simp add: kind_def request_control_def wp_simps WORKER_ATTEMPT_TERMINAL_def Let_def del: session_of_put run_eqs)
  show ?thesis
    unfolding eq wp_simps
    by (intro wp_commit) (use E done' in \<open>simp_all del: live_frame(2)\<close>)
qed

section \<open>The ends of a run\<close>

lemma save_then_load:
  assumes "save_checkpoint C du c s = (Inr (), t)" and "checkpoint_from_dict c = Inr c"
  shows "load_checkpoint C (ck_id c) t = Inr c"
proof -
  note t = save_checkpoint_Inr [OF assms(1)]
  have "verify_all (cc_sha C) (ck_artifact_refs c) t = Inr ()"
    using t by (simp add: verify_all_Inr verify_artifact_Inr)
  then show ?thesis using t assms(2) by (simp add: load_checkpoint_def checkpoint_path_def)
qed

text \<open>Where checkpoints are kept, the one the attempt names is intact and safe.\<close>

definition resumable :: "checkpoint_codec \<Rightarrow> worker_attempt \<Rightarrow> runtime \<Rightarrow> bool" where
  "resumable C a s \<longleftrightarrow> (\<forall>cp. rt_checkpoints s = Some cp \<longrightarrow>
     (\<exists>n c. wa_checkpoint_id a = Some n \<and> load_checkpoint C n cp = Inr c \<and> ck_safe_to_resume c))"

lemma runner_checkpoint_loads:
  assumes "save_checkpoint C du (runner_checkpoint_of a safe ns fs) cp = (Inr (), cp')" and "1 \<le> wa_version a"
  shows "load_checkpoint C (ck_id (runner_checkpoint_of a safe ns fs)) cp' = Inr (runner_checkpoint_of a safe ns fs)"
  using assms(1)
proof (rule save_then_load)
  show "checkpoint_from_dict (runner_checkpoint_of a safe ns fs) = Inr (runner_checkpoint_of a safe ns fs)"
    using assms(2) save_checkpoint_Inr [OF assms(1)]
    by (simp add: checkpoint_from_dict_def) (simp add: runner_checkpoint_of_def)
qed

lemma checkpointed_simps [simp]:
  "wa_id (checkpointed a safe c) = wa_id a" "wa_status (checkpointed a safe c) = wa_status a"
  "wa_version (checkpointed a safe c) = wa_version a + 1" "wa_checkpoint_id (checkpointed a safe c) = Some (ck_id c)"
  by (simp_all add: checkpointed_def)

text \<open>The steps from an attempt that is asked to pause.\<close>

lemma wp_pause_steps:
  assumes b: "phase i k s = Some (b, False)" "wa_status b = WS_pause_requested"
  shows "wp (bind (runner_checkpoint H C du b True ns fs) (\<lambda>c.
          bind (move_attempt H i c WS_paused (Some (no_conditions\<lparr>tc_checkpoint_durable := True\<rparr>)) WE_paused now) (\<lambda>u.
          andthen (commit_worker H WE_checkpointed i u) (ret u))))
     (\<lambda>u t. dget (st_attempts t) i = Some u \<and> wa_status u = WS_paused \<and> resumable C u t) (touched i k) s"
proof -
  have id: "wa_id b = i" "1 \<le> wa_version b" using b(1) by (auto simp: phase_Some)
  have E: "touched i k s" using b by (auto simp: touched_def)
  have move: "wp (bind (move_attempt H i c WS_paused (Some (no_conditions\<lparr>tc_checkpoint_durable := True\<rparr>)) WE_paused now) (\<lambda>u.
          andthen (commit_worker H WE_checkpointed i u) (ret u)))
     (\<lambda>u t. dget (st_attempts t) i = Some u \<and> wa_status u = WS_paused \<and> resumable C u t) (touched i k) t"
    if c: "phase i k t = Some (c, False)" "wa_status c = WS_pause_requested" and safe: "resumable C c t" for c t
  proof -
    have Et: "touched i k t" using c by (auto simp: touched_def)
    show ?thesis unfolding wp_bind
    proof (rule wp_move_attempt)
      fix u j
      assume "transition_worker_attempt c WS_paused (wa_version c) (Some (no_conditions\<lparr>tc_checkpoint_durable := True\<rparr>)) now = Inr u"
      then have u: "u = c\<lparr>wa_status := WS_paused, wa_version := wa_version c + 1, wa_updated_at := now\<rparr>"
        by (auto simp: transition_worker_attempt_iff)
      have ph: "phase i k (store_attempt i u t) = Some (u, False)"
        using phase_store [OF c(1), of u] c(1) by (simp add: u phase_Some)
      then have "touched i k (store_attempt i u t)" by (auto simp: touched_def u)
      moreover have "resumable C u ((store_attempt i u t)\<lparr>st_journal := l\<rparr>)" for l
        using safe by (simp add: resumable_def u)
      ultimately show "wp (andthen (commit_worker H WE_checkpointed i u) (ret u))
         (\<lambda>u t. dget (st_attempts t) i = Some u \<and> wa_status u = WS_paused \<and> resumable C u t) (touched i k)
           ((store_attempt i u t)\<lparr>st_journal := j\<rparr>) \<and> touched i k ((store_attempt i u t)\<lparr>st_journal := j\<rparr>)"
        by (auto simp: wp_simps u intro!: wp_commit_worker)
    qed (rule Et)
  qed
  show ?thesis unfolding wp_bind [of "runner_checkpoint H C du b True ns fs"]
  proof (rule wp_runner_checkpoint)
    assume "rt_checkpoints s = None"
    with move [OF b] show "wp (bind (move_attempt H i b WS_paused (Some (no_conditions\<lparr>tc_checkpoint_durable := True\<rparr>)) WE_paused now) (\<lambda>u.
          andthen (commit_worker H WE_checkpointed i u) (ret u)))
     (\<lambda>u t. dget (st_attempts t) i = Some u \<and> wa_status u = WS_paused \<and> resumable C u t) (touched i k) s"
      by (simp add: resumable_def)
  next
    fix cp cp' j
    assume cp: "rt_checkpoints s = Some cp" and save: "save_checkpoint C du (runner_checkpoint_of b True ns fs) cp = (Inr (), cp')"
    let ?c = "checkpointed b True (runner_checkpoint_of b True ns fs)"
    let ?t = "(store_attempt (wa_id b) ?c (s\<lparr>rt_checkpoints := Some cp'\<rparr>))\<lparr>st_journal := j\<rparr>"
    have ph: "phase i k ?t = Some (?c, False)"
      using phase_store [of i k "s\<lparr>rt_checkpoints := Some cp'\<rparr>" b False ?c] b(1) id by simp
    have "resumable C ?c ?t"
      using runner_checkpoint_loads [OF save id(2)] by (simp add: resumable_def runner_checkpoint_of_def)
    from move [OF ph _ this] b(2) ph
    show "wp (bind (move_attempt H i ?c WS_paused (Some (no_conditions\<lparr>tc_checkpoint_durable := True\<rparr>)) WE_paused now) (\<lambda>u.
          andthen (commit_worker H WE_checkpointed i u) (ret u)))
     (\<lambda>u t. dget (st_attempts t) i = Some u \<and> wa_status u = WS_paused \<and> resumable C u t) (touched i k) ?t \<and> touched i k ?t"
      by (auto simp: touched_def)
  qed (use E in simp_all)
qed

lemma wp_run_paused:
  assumes a: "phase i k s = Some (a, False)" "wa_status a \<in> {WS_running, WS_pause_requested}"
  shows "wp (run_paused H C du i now)
     (\<lambda>u t. dget (st_attempts t) i = Some u \<and> wa_status u = WS_paused \<and> resumable C u t) (touched i k) s"
proof -
  have at: "dget (st_attempts s) i = Some a" using a(1) by (simp add: phase_Some)
  let ?Q = "\<lambda>u t. dget (st_attempts t) i = Some u \<and> wa_status u = WS_paused \<and> resumable C u t"
  let ?rest = "\<lambda>b. if wa_status b \<noteq> WS_pause_requested then ret b
     else bind (runner_checkpoint H C du b True ''resume provider call from the last provider boundary'' []) (\<lambda>c.
          bind (move_attempt H i c WS_paused (Some (no_conditions\<lparr>tc_checkpoint_durable := True\<rparr>)) WE_paused now) (\<lambda>u.
          andthen (commit_worker H WE_checkpointed i u) (ret u)))"
  have "wp (if wa_status a = WS_running then request_control H i ''pause'' now else ret a)
     (\<lambda>b t. phase i k t = Some (b, False) \<and> wa_status b = WS_pause_requested) (touched i k) s"
  proof (cases "wa_status a = WS_running")
    case True
    show ?thesis unfolding if_P [OF True]
      by (rule wp_mono [OF wp_request_control [OF a(1) True, of "''pause''"]]) (auto simp: requested_def)
  qed (use a in \<open>simp add: wp_simps\<close>)
  then have "wp (if wa_status a = WS_running then request_control H i ''pause'' now else ret a)
     (\<lambda>b. wp (?rest b) ?Q (touched i k)) (touched i k) s"
  proof (rule wp_mono)
    fix b and t :: runtime assume "phase i k t = Some (b, False) \<and> wa_status b = WS_pause_requested"
    then have b: "phase i k t = Some (b, False)" "wa_status b = WS_pause_requested" by simp_all
    from wp_pause_steps [OF b] show "wp (?rest b) ?Q (touched i k) t" by (simp add: b(2) del: run_eqs)
  qed
  then show ?thesis
    unfolding run_paused_def wp_bind [of "read_attempt i"] wp_read_attempt [OF at] wp_bind [of "if _ then _ else _"] .
qed

lemma wp_run_cancelled:
  assumes a: "phase i k s = Some (a, f)" "wa_status a \<in> {WS_cancel_requested, WS_cancelled, WS_failed}"
  shows "wp (run_cancelled H i now)
     (\<lambda>u t. dget (st_attempts t) i = Some u \<and> wa_status u \<in> {WS_cancelled, WS_failed}) (touched i k) s"
proof -
  have at: "dget (st_attempts s) i = Some a" using a(1) by (simp add: phase_Some)
  have E: "touched i k s" using a by (auto simp: touched_def)
  have run: "wa_status a \<noteq> WS_running" using a(2) by auto
  show ?thesis
  proof (cases "wa_status a = WS_cancel_requested")
    case True
    have "wp (move_attempt H i a WS_cancelled (Some (no_conditions\<lparr>tc_execution_stopped := True\<rparr>)) WE_stopped now)
       (\<lambda>u t. dget (st_attempts t) i = Some u \<and> wa_status u \<in> {WS_cancelled, WS_failed}) (touched i k) s"
    proof (rule wp_move_attempt)
      fix u j
      assume "transition_worker_attempt a WS_cancelled (wa_version a) (Some (no_conditions\<lparr>tc_execution_stopped := True\<rparr>)) now = Inr u"
      then have u: "u = a\<lparr>wa_status := WS_cancelled, wa_version := wa_version a + 1, wa_updated_at := now\<rparr>"
        by (auto simp: transition_worker_attempt_iff)
      have "phase i k (store_attempt i u s) = Some (u, f)"
        using phase_store [OF a(1), of u] a(1) by (simp add: u phase_Some)
      then have "touched i k (store_attempt i u s)" by (auto simp: touched_def u)
      then show "(dget (st_attempts ((store_attempt i u s)\<lparr>st_journal := j\<rparr>)) i = Some u \<and> wa_status u \<in> {WS_cancelled, WS_failed}) \<and>
          touched i k ((store_attempt i u s)\<lparr>st_journal := j\<rparr>)" by (simp add: u)
    qed (rule E)
    with True at run show ?thesis by (simp add: run_cancelled_def wp_simps wp_read_attempt del: run_eqs)
  next
    case False
    with a at run show ?thesis by (auto simp: run_cancelled_def wp_simps wp_read_attempt simp del: run_eqs)
  qed
qed

lemma wp_run_cancel_failed:
  assumes a: "phase i k s = Some (a, f)" "wa_status a = WS_cancel_requested"
  shows "wp (run_cancel_failed H i now)
     (\<lambda>u t. dget (st_attempts t) i = Some u \<and> wa_status u = WS_failed) (touched i k) s"
proof -
  have at: "dget (st_attempts s) i = Some a" using a(1) by (simp add: phase_Some)
  have E: "touched i k s" using a by (auto simp: touched_def)
  have "wp (move_attempt H i a WS_failed (Some no_conditions) WE_cancel_failed now)
     (\<lambda>u t. dget (st_attempts t) i = Some u \<and> wa_status u = WS_failed) (touched i k) s"
  proof (rule wp_move_attempt)
    fix u j
    assume "transition_worker_attempt a WS_failed (wa_version a) (Some no_conditions) now = Inr u"
    then have u: "u = a\<lparr>wa_status := WS_failed, wa_version := wa_version a + 1, wa_updated_at := now\<rparr>"
      by (auto simp: transition_worker_attempt_iff)
    have "phase i k (store_attempt i u s) = Some (u, f)"
      using phase_store [OF a(1), of u] a(1) by (simp add: u phase_Some)
    then have "touched i k (store_attempt i u s)" by (auto simp: touched_def u)
    then show "(dget (st_attempts ((store_attempt i u s)\<lparr>st_journal := j\<rparr>)) i = Some u \<and> wa_status u = WS_failed) \<and>
        touched i k ((store_attempt i u s)\<lparr>st_journal := j\<rparr>)" by (simp add: u)
  qed (rule E)
  with a at show ?thesis by (simp add: run_cancel_failed_def wp_simps wp_read_attempt del: run_eqs)
qed

text \<open>The regular end: only a running attempt succeeds, and the end is acknowledged.\<close>

lemma wp_ack_terminal:
  assumes "dget (st_attempts s) i = Some u"
  shows "wp (ack_terminal H i (Some st)) (\<lambda>v t. v = u \<and> st_attempts t = st_attempts s \<and> i \<in> set (st_terminal_acks t) \<and>
     wa_status u = st) (\<lambda>_. True) s"
  using assms
  by (intro wpI) (auto elim!: ack_terminal_Inr simp: ack_terminal_def prog_simps add_ack_def dest!: commit_view split: if_splits)

lemma wp_run_terminal:
  assumes a: "dget (st_attempts s) i = Some a" "wa_id a = i" and st: "st \<in> {WS_succeeded, WS_failed}"
  shows "wp (run_terminal H C du i st now)
     (\<lambda>u t. dget (st_attempts t) i = Some u \<and> wa_status u = st \<and> i \<in> set (st_terminal_acks t) \<and>
        (st = WS_succeeded \<longrightarrow> wa_status a = WS_running)) (\<lambda>_. True) s"
proof -
  let ?Q = "\<lambda>u t. dget (st_attempts t) i = Some u \<and> wa_status u = st \<and> i \<in> set (st_terminal_acks t) \<and>
        (st = WS_succeeded \<longrightarrow> wa_status a = WS_running)"
  have move: "wp (bind (move_attempt H i b st None WE_stopped now) (\<lambda>_. ack_terminal H i (Some st))) ?Q (\<lambda>_. True) t"
    if b: "wa_status b = wa_status a" for b t
    unfolding wp_bind
  proof (rule wp_move_attempt)
    fix u j
    assume u: "transition_worker_attempt b st (wa_version b) None now = Inr u"
    have "wa_status a = WS_running" if "st = WS_succeeded"
      using u that b by (cases "wa_status b") (auto simp: transition_worker_attempt_iff)
    moreover have "dget (st_attempts ((store_attempt i u t)\<lparr>st_journal := j\<rparr>)) i = Some u" by simp
    ultimately show "wp (ack_terminal H i (Some st)) ?Q (\<lambda>_. True) ((store_attempt i u t)\<lparr>st_journal := j\<rparr>) \<and> True"
      by (intro conjI TrueI wp_mono [OF wp_ack_terminal]) auto
  qed simp
  show ?thesis
    unfolding run_terminal_def wp_bind [of "read_attempt i"] wp_read_attempt [OF a(1)] wp_bind [of "runner_checkpoint _ _ _ _ _ _ _"]
    by (rule wp_runner_checkpoint) (intro conjI TrueI move; simp)+
qed

section \<open>The run between its start and its end\<close>

text \<open>
  What is assumed of the other coroutines: while the attempt is live they only record control requests
  for it and renew its claim; the wait is woken by a cancel only after one was requested; once the run
  has run_ended the attempt they leave it alone until the heartbeat task is gone.
\<close>

definition orderly :: "event hashing \<Rightarrow> runner \<Rightarrow> run_world \<Rightarrow> string \<Rightarrow> bool" where
  "orderly H R w i \<longleftrightarrow>
     (\<forall>req path s. live i (rw_key w) s \<longrightarrow>
        wp (rw_call w req path)
          (\<lambda>x t. live i (rw_key w) t \<and> (\<forall>c. x = WaitCancelWoken c \<longrightarrow> hd_cancel_requested (own_handle i (rw_key w) t)))
          (live i (rw_key w)) s) \<and>
     (\<forall>u. keeps (live i (rw_key w)) (use_usage H R u)) \<and>
     (\<forall>s. live i (rw_key w) s \<longrightarrow> live i (rw_key w) (rw_settle w s)) \<and>
     (\<forall>s. \<not> live i (rw_key w) s \<longrightarrow> rw_settle w s = s)"

definition run_ended :: "checkpoint_codec \<Rightarrow> string \<Rightarrow> worker_attempt \<Rightarrow> runtime \<Rightarrow> bool" where
  "run_ended C i b t \<longleftrightarrow> dget (st_attempts t) i = Some b \<and>
     (wa_status b \<in> {WS_cancelled, WS_failed} \<or> wa_status b = WS_paused \<and> resumable C b t)"

definition provider_returned :: "event hashing \<Rightarrow> runner \<Rightarrow> run_world \<Rightarrow> execution_request \<Rightarrow> bool" where
  "provider_returned H R w req \<longleftrightarrow>
     (\<exists>path s u t v. rw_call w req path s = (Inr (WaitReturned u), t) \<and> use_usage H R u t = (Inr (), v))"

lemma wp_is_cancel_requested:
  "phase i k s = Some (a, f) \<Longrightarrow>
     wp (is_cancel_requested i k) Q E s = Q (f \<or> wa_status a = WS_cancel_requested) s"
  using own_handle_phase [of i k s a f]
  by (auto simp: is_cancel_requested_def wp_simps read_attempt_def phase_Some simp del: run_eqs)

lemma wp_is_pause_requested:
  "phase i k s = Some (a, f) \<Longrightarrow>
     wp (is_pause_requested i k) Q E s = Q (hd_pause_requested (own_handle i k s) \<or> wa_status a = WS_pause_requested) s"
  by (auto simp: is_pause_requested_def wp_simps read_attempt_def phase_Some simp del: run_eqs)

lemma wp_some: "wp m (\<lambda>b. Q (Some b)) E s \<Longrightarrow> wp (bind m (\<lambda>b. ret (Some b))) Q E s"
  by (simp add: wp_simps)

lemma wp_sync_persisted_control:
  assumes "live i k s"
  shows "wp (sync_persisted_control i)
     (\<lambda>_ t. \<exists>a f. phase i k t = Some (a, f) \<and>
        (f \<and> wa_status a = WS_cancel_requested \<or> \<not> f \<and> wa_status a \<in> {WS_running, WS_pause_requested})) E s"
proof -
  from assms obtain a f where a: "phase i k s = Some (a, f)"
    "wa_status a \<in> {WS_running, WS_pause_requested, WS_cancel_requested}" "f \<longrightarrow> wa_status a = WS_cancel_requested"
    by (auto simp: live_def)
  then obtain h where h: "dget (st_attempts s) i = Some a" "dget (st_handles s) i = Some h" "hd_key h = k" "\<not> hd_done h"
    "f = hd_cancel_requested h" by (auto simp: phase_Some)
  have id: "wa_id a = i" "1 \<le> wa_version a" using a(1) by (auto simp: phase_Some)
  show ?thesis
    using a(2,3) h id
    by (auto simp: sync_persisted_control_def wp_simps read_attempt_def runner_request_cancel_def runner_request_pause_def
        phase_Some request_cancel_def request_pause_def simp del: run_eqs)
qed

lemma wp_after_return:
  assumes ord: "orderly H R w i" and live: "live i (rw_key w) s"
    and call: "rw_call w req path p = (Inr (WaitReturned u), s)"
  shows "wp (after_return H C du R w i u)
     (\<lambda>r t. case r of None \<Rightarrow> live i (rw_key w) t \<and> provider_returned H R w req | Some b \<Rightarrow> run_ended C i b t)
     (touched i (rw_key w)) s"
proof -
  let ?k = "rw_key w"
  let ?Q = "\<lambda>r t. case r of None \<Rightarrow> live i ?k t \<and> provider_returned H R w req | Some b \<Rightarrow> run_ended C i b t"
  have cancelled: "wp (bind (run_cancelled H i (rw_now w)) (\<lambda>a. ret (Some a))) ?Q (touched i ?k) t"
    if "phase i ?k t = Some (a, f)" "wa_status a = WS_cancel_requested" for t a f
    by (rule wp_some, rule wp_mono [OF wp_run_cancelled [OF that(1)]]) (use that in \<open>auto simp: run_ended_def\<close>)
  from live obtain a f where a: "phase i ?k s = Some (a, f)" "f \<longrightarrow> wa_status a = WS_cancel_requested" by (auto simp: live_def)
  have rest: "wp (bind (is_cancel_requested i ?k) (\<lambda>cancel.
          if cancel then bind (run_cancelled H i (rw_now w)) (\<lambda>a. ret (Some a))
          else bind (is_pause_requested i ?k) (\<lambda>pause.
               if pause then bind (run_paused H C du i (rw_now w)) (\<lambda>a. ret (Some a)) else ret None))) ?Q (touched i ?k) t"
    if l: "live i ?k t" and used: "provider_returned H R w req" for t
  proof -
    from l obtain b g where b: "phase i ?k t = Some (b, g)" "g \<longrightarrow> wa_status b = WS_cancel_requested"
      "wa_status b \<in> {WS_running, WS_pause_requested, WS_cancel_requested}" by (auto simp: live_def)
    show ?thesis
    proof (cases "g \<or> wa_status b = WS_cancel_requested")
      case True
      with b cancelled [OF b(1)] show ?thesis
        unfolding wp_bind [of "is_cancel_requested i ?k"] wp_is_cancel_requested [OF b(1)] by auto
    next
      case False
      then have ph: "phase i ?k t = Some (b, False)" "wa_status b \<in> {WS_running, WS_pause_requested}" using b by auto
      have "wp (bind (run_paused H C du i (rw_now w)) (\<lambda>a. ret (Some a))) ?Q (touched i ?k) t"
        by (rule wp_some, rule wp_mono [OF wp_run_paused [OF ph]]) (auto simp: run_ended_def)
      with False l used show ?thesis
        unfolding wp_bind [of "is_cancel_requested i ?k"] wp_is_cancel_requested [OF b(1)]
          wp_bind [of "is_pause_requested i ?k"] if_not_P [OF False] wp_is_pause_requested [OF b(1)]
        by (simp add: wp_simps)
    qed
  qed
  have "wp (use_usage H R u) (\<lambda>_ t. wp (bind (is_cancel_requested i ?k) (\<lambda>cancel.
          if cancel then bind (run_cancelled H i (rw_now w)) (\<lambda>a. ret (Some a))
          else bind (is_pause_requested i ?k) (\<lambda>pause.
               if pause then bind (run_paused H C du i (rw_now w)) (\<lambda>a. ret (Some a)) else ret None))) ?Q (touched i ?k) t)
      (touched i ?k) s"
  proof (rule wpI)
    have keep: "keeps (live i ?k) (use_usage H R u)" using ord by (simp add: orderly_def)
    fix x t assume t: "use_usage H R u s = (Inr x, t)"
    have "live i ?k t" using keepsD [OF keep live t] .
    moreover have "provider_returned H R w req" using call t unfolding provider_returned_def by (cases x) blast
    ultimately show "wp (bind (is_cancel_requested i ?k) (\<lambda>cancel.
          if cancel then bind (run_cancelled H i (rw_now w)) (\<lambda>a. ret (Some a))
          else bind (is_pause_requested i ?k) (\<lambda>pause.
               if pause then bind (run_paused H C du i (rw_now w)) (\<lambda>a. ret (Some a)) else ret None))) ?Q (touched i ?k) t"
      by (rule rest)
  next
    fix e t assume t: "use_usage H R u s = (Inl e, t)"
    have "keeps (live i ?k) (use_usage H R u)" using ord by (simp add: orderly_def)
    from keepsD [OF this live t] show "touched i ?k t" by (rule live_touched)
  qed
  then show ?thesis
    unfolding after_return_def wp_bind [of "is_cancel_requested i ?k"] wp_is_cancel_requested [OF a(1)]
    using cancelled [OF a(1)] a(2) by (auto simp: wp_andthen wp_bind [of "is_cancel_requested i (rw_key w)"])
qed

lemma wp_run_body:
  assumes ord: "orderly H R w i" and live: "live i (rw_key w) s"
  shows "wp (run_body H C du R sig w i req)
     (\<lambda>r t. case r of None \<Rightarrow> live i (rw_key w) t \<and> provider_returned H R w req | Some b \<Rightarrow> run_ended C i b t)
     (touched i (rw_key w)) s"
proof -
  let ?k = "rw_key w"
  let ?Q = "\<lambda>r t. case r of None \<Rightarrow> live i ?k t \<and> provider_returned H R w req | Some b \<Rightarrow> run_ended C i b t"
  let ?call = "\<lambda>a. bind (rw_call w req (workspace_argument sig a)) (\<lambda>outcome.
          case outcome of
            WaitTimedOut \<Rightarrow> raise_exn OSError
          | WaitCancelWoken cw \<Rightarrow>
              bind (lift (cancel_provider cw)) (\<lambda>stopped.
              bind (if stopped then run_cancelled H i (rw_now w) else run_cancel_failed H i (rw_now w)) (\<lambda>b. ret (Some b)))
          | WaitRaised e \<Rightarrow> raise_exn e
          | WaitReturned u \<Rightarrow> after_return H C du R w i u)"
  have call: "wp (?call a) ?Q (touched i ?k) t" if l: "live i ?k t" for a t
  proof -
    let ?m = "rw_call w req (workspace_argument sig a)"
    have spec: "wp ?m (\<lambda>x t. live i ?k t \<and> (\<forall>c. x = WaitCancelWoken c \<longrightarrow> hd_cancel_requested (own_handle i ?k t))) (live i ?k) t"
      using ord l by (simp add: orderly_def)
    show ?thesis unfolding wp_bind [of ?m]
    proof (rule wpI)
      fix x v assume run: "?m t = (Inr x, v)"
      have v: "live i ?k v" "\<And>c. x = WaitCancelWoken c \<Longrightarrow> hd_cancel_requested (own_handle i ?k v)"
        using wp_Inr [OF spec run] by auto
      show "wp (case x of
            WaitTimedOut \<Rightarrow> raise_exn OSError
          | WaitCancelWoken cw \<Rightarrow>
              bind (lift (cancel_provider cw)) (\<lambda>stopped.
              bind (if stopped then run_cancelled H i (rw_now w) else run_cancel_failed H i (rw_now w)) (\<lambda>b. ret (Some b)))
          | WaitRaised e \<Rightarrow> raise_exn e
          | WaitReturned u \<Rightarrow> after_return H C du R w i u) ?Q (touched i ?k) v"
      proof (cases x)
        case (WaitCancelWoken cw)
        from v(1) obtain b f where b: "phase i ?k v = Some (b, f)" "f \<longrightarrow> wa_status b = WS_cancel_requested" by (auto simp: live_def)
        have c: "wa_status b = WS_cancel_requested"
          using v(2) [OF WaitCancelWoken] own_handle_phase [OF b(1)] b(2) by simp
        have "wp (bind (if st then run_cancelled H i (rw_now w) else run_cancel_failed H i (rw_now w)) (\<lambda>b. ret (Some b)))
            ?Q (touched i ?k) v" for st
        proof (cases st)
          case True
          then show ?thesis
            by simp (rule wp_some, rule wp_mono [OF wp_run_cancelled [OF b(1)]], use c in \<open>auto simp: run_ended_def\<close>)
        next
          case False
          then show ?thesis
            by simp (rule wp_some, rule wp_mono [OF wp_run_cancel_failed [OF b(1) c]], auto simp: run_ended_def)
        qed
        then show ?thesis using live_touched [OF v(1)]
          by (simp add: WaitCancelWoken wp_bind [of "lift _"] wp_lift split: sum.split)
      next
        case (WaitReturned u)
        with wp_after_return [OF ord v(1)] run show ?thesis by simp
      qed (simp_all add: wp_raise live_touched [OF v(1)])
    next
      fix e v assume "?m t = (Inl e, v)"
      with spec show "touched i ?k v" by (simp add: wp_def live_touched)
    qed
  qed
  show ?thesis unfolding run_body_def wp_andthen
  proof (rule wp_mono [OF wp_sync_persisted_control [OF live]])
    fix x and t :: runtime
    assume "\<exists>a f. phase i ?k t = Some (a, f) \<and>
        (f \<and> wa_status a = WS_cancel_requested \<or> \<not> f \<and> wa_status a \<in> {WS_running, WS_pause_requested})"
    then obtain a f where a: "phase i ?k t = Some (a, f)"
      and st: "f \<and> wa_status a = WS_cancel_requested \<or> \<not> f \<and> wa_status a \<in> {WS_running, WS_pause_requested}" by blast
    have at: "dget (st_attempts t) i = Some a" using a by (simp add: phase_Some)
    have l: "live i ?k t" using a st by (auto simp: live_def)
    have 1: "wp (bind (run_cancelled H i (rw_now w)) (\<lambda>a. ret (Some a))) ?Q (touched i ?k) t" if f
      by (rule wp_some, rule wp_mono [OF wp_run_cancelled [OF a]]) (use st that in \<open>auto simp: run_ended_def\<close>)
    have 2: "wp (bind (run_paused H C du i (rw_now w)) (\<lambda>a. ret (Some a))) ?Q (touched i ?k) t" if "\<not> f"
    proof -
      have p: "phase i ?k t = Some (a, False)" "wa_status a \<in> {WS_running, WS_pause_requested}" using a st that by auto
      show ?thesis by (rule wp_some, rule wp_mono [OF wp_run_paused [OF p]]) (auto simp: run_ended_def)
    qed
    show "wp (bind (get (own_handle i ?k)) (\<lambda>h.
     if hd_cancel_requested h then bind (run_cancelled H i (rw_now w)) (\<lambda>a. ret (Some a))
     else if hd_pause_requested h then bind (run_paused H C du i (rw_now w)) (\<lambda>a. ret (Some a))
     else bind (read_attempt i) ?call)) ?Q (touched i ?k) t"
      unfolding wp_bind [of "get _"] wp_get own_handle_phase [OF a] wp_if
      using 1 2 call [OF l] by (simp add: wp_bind [of "read_attempt i"] wp_read_attempt [OF at] del: run_eqs)
  qed (rule live_touched)
qed

text \<open>The except and finally clauses.\<close>

lemma ended_not_live: "run_ended C i b t \<Longrightarrow> \<not> live i k t"
  by (auto simp: run_ended_def live_def phase_Some)

lemma ended_release [simp]: "run_ended C i b (release_handle j h t) = run_ended C i b t"
  by (auto simp: release_handle_def run_ended_def resumable_def split: option.split)

lemma release_own: "phase i k s = Some (a, f) \<Longrightarrow> st_attempts (release_handle i (mark_done (own_handle i k s)) s) = st_attempts s"
  by (auto simp: release_handle_def split: option.split)

lemma wp_run_guarded:
  assumes ord: "orderly H R w i" and live: "live i (rw_key w) s"
  shows "wp (run_guarded H C du R sig w i req)
     (\<lambda>r t. case r of None \<Rightarrow> provider_returned H R w req \<and> (\<exists>a. dget (st_attempts t) i = Some a \<and> wa_id a = i) | Some b \<Rightarrow> run_ended C i b t)
     (\<lambda>_. True) s"
proof -
  let ?k = "rw_key w"
  let ?final = "\<lambda>s. let t = rw_settle w s in release_handle i (mark_done (own_handle i ?k t)) t"
  let ?Q = "\<lambda>r t. case r of None \<Rightarrow> live i ?k t \<and> provider_returned H R w req | Some b \<Rightarrow> run_ended C i b t"
  let ?R = "\<lambda>r t. case r of None \<Rightarrow> provider_returned H R w req \<and> (\<exists>a. dget (st_attempts t) i = Some a \<and> wa_id a = i) | Some b \<Rightarrow> run_ended C i b t"
  have final: "?R r (?final t)" if "?Q r t" for r t
  proof (cases r)
    case None
    with that have l: "live i ?k t" "provider_returned H R w req" by simp_all
    have "live i ?k (rw_settle w t)" using ord l(1) by (simp add: orderly_def)
    then obtain a f where a: "phase i ?k (rw_settle w t) = Some (a, f)" by (auto simp: live_def)
    then have "dget (st_attempts (?final t)) i = Some a \<and> wa_id a = i" by (simp add: Let_def release_own) (simp add: phase_Some)
    with None l(2) show ?thesis by auto
  next
    case (Some b)
    with that have e: "run_ended C i b t" by simp
    then have "rw_settle w t = t" using ord ended_not_live [OF e] by (simp add: orderly_def)
    with Some e show ?thesis by (simp add: Let_def)
  qed
  have handler: "wp (bind (is_cancel_requested i ?k) (\<lambda>cancel.
          if cancel then bind (run_cancelled H i (rw_now w)) (\<lambda>a. ret (Some a))
          else bind (run_terminal H C du i WS_failed (rw_now w)) (\<lambda>a. ret (Some a)))) ?Q (\<lambda>_. True) t" if t: "touched i ?k t" for t
  proof -
    from t obtain a f where a: "phase i ?k t = Some (a, f)" "f \<longrightarrow> wa_status a \<in> {WS_cancel_requested, WS_cancelled, WS_failed}"
      by (auto simp: touched_def)
    have at: "dget (st_attempts t) i = Some a" "wa_id a = i" using a(1) by (simp_all add: phase_Some)
    show ?thesis
    proof (cases "f \<or> wa_status a = WS_cancel_requested")
      case True
      then have st: "wa_status a \<in> {WS_cancel_requested, WS_cancelled, WS_failed}" using a(2) by auto
      have "wp (bind (run_cancelled H i (rw_now w)) (\<lambda>a. ret (Some a))) ?Q (\<lambda>_. True) t"
        by (rule wp_some, rule wp_mono [OF wp_run_cancelled [OF a(1) st]]) (auto simp: run_ended_def)
      with True show ?thesis unfolding wp_bind [of "is_cancel_requested i ?k"] wp_is_cancel_requested [OF a(1)] by simp
    next
      case False
      have "wp (bind (run_terminal H C du i WS_failed (rw_now w)) (\<lambda>a. ret (Some a))) ?Q (\<lambda>_. True) t"
        by (rule wp_some, rule wp_mono [OF wp_run_terminal [OF at]]) (auto simp: run_ended_def)
      with False show ?thesis unfolding wp_bind [of "is_cancel_requested i ?k"] wp_is_cancel_requested [OF a(1)] by simp
    qed
  qed
  have "wp (catch_all (run_body H C du R sig w i req) (\<lambda>_.
          bind (is_cancel_requested i ?k) (\<lambda>cancel.
          if cancel then bind (run_cancelled H i (rw_now w)) (\<lambda>a. ret (Some a))
          else bind (run_terminal H C du i WS_failed (rw_now w)) (\<lambda>a. ret (Some a))))) ?Q (\<lambda>_. True) s"
    by (rule wp_catch_all, rule wp_mono [OF wp_run_body [OF ord live]]) (use handler in auto)
  then show ?thesis
    unfolding run_guarded_def wp_ensuring by (rule wp_mono) (use final in auto)
qed

section \<open>The start of a run\<close>

definition well_stored :: "string \<Rightarrow> 'r view_scheme \<Rightarrow> bool" where
  "well_stored i s \<longleftrightarrow> (\<forall>a. dget (st_attempts s) i = Some a \<longrightarrow> wa_id a = i \<and> 1 \<le> wa_version a)"

lemma wp_persist_provider_request:
  assumes "well_stored i s"
  shows "wp (persist_provider_request H i req) (\<lambda>_ t. well_stored i t) (\<lambda>_. True) s"
proof (cases "dget (st_attempts s) i")
  case None
  then show ?thesis by (simp add: persist_provider_request_def wp_simps del: run_eqs)
next
  case (Some a)
  have stored: "well_stored i (store_attempt i (a\<lparr>wa_provider_request := Some req, wa_version := wa_version a + 1\<rparr>) (s\<lparr>st_journal := j\<rparr>))" for j
    using assms Some by (simp add: well_stored_def)
  show ?thesis
  proof (cases "wa_provider_request a")
    case None
    show ?thesis
      by (simp add: persist_provider_request_def wp_simps Some None Let_def del: run_eqs) (rule wp_commit_worker; simp add: stored)
  next
    case req: (Some old)
    with Some assms show ?thesis by (simp add: persist_provider_request_def wp_simps del: run_eqs)
  qed
qed

lemma claimed_for_run:
  assumes "(if claim then claim_attempt H i token now ttl else claimed_attempt i) s = (Inr c, t)" and "well_stored i s"
  shows "dget (st_attempts t) i = Some c \<and> wa_id c = i \<and> 1 \<le> wa_version c"
proof (cases claim)
  case True
  with assms(1) have "claim_attempt H i token now ttl s = (Inr c, t)" by simp
  then obtain a where a: "dget (st_attempts s) i = Some a" "c = a\<lparr>wa_status := WS_claimed, wa_claim_token := Some token,
              wa_claim_expires_at := Some (utc now + ttl), wa_version := wa_version a + 1\<rparr>"
    and com: "commit_attempt H WE_claimed c s = (Inr (), t)" by (rule claim_attempt_Inr)
  have "wa_id a = i" "1 \<le> wa_version a" using a(1) assms(2) by (auto simp: well_stored_def)
  with a com show ?thesis by (auto simp: commit_attempt_Inr)
next
  case False
  with assms show ?thesis
    by (auto simp: claimed_attempt_def well_stored_def split: option.splits if_splits)
qed

lemma live_registered:
  "live i k (register_handle i (new_handle k) t) \<longleftrightarrow>
     (\<exists>a. dget (st_attempts t) i = Some a \<and> wa_id a = i \<and> 1 \<le> wa_version a \<and>
        wa_status a \<in> {WS_running, WS_pause_requested, WS_cancel_requested})"
  by (auto simp: live_def phase_Some register_handle_def new_handle_def)

lemma wp_start_run:
  assumes "well_stored i s"
  shows "wp (start_run H C du R w claim i) (\<lambda>_. live i (rw_key w)) (\<lambda>_. True) s"
proof -
  have checkpoint: "wp (bind (runner_checkpoint H C du a True ''retry provider call from the last provider boundary'' []) (\<lambda>_.
     andthen (modify (register_handle i (new_handle (rw_key w)))) (ret c))) (\<lambda>_. live i (rw_key w)) (\<lambda>_. True) t"
    if a: "dget (st_attempts t) i = Some a" "wa_id a = i" "1 \<le> wa_version a" "wa_status a = WS_running" for a c and t :: runtime
    unfolding wp_bind
    by (rule wp_runner_checkpoint) (use a in \<open>auto simp: wp_simps live_registered simp del: run_eqs\<close>)
  have run: "wp (bind (move_attempt H i c WS_running (Some (no_conditions\<lparr>tc_claim_token_valid := True\<rparr>)) WE_started (rw_now w)) (\<lambda>running.
     bind (runner_checkpoint H C du running True ''retry provider call from the last provider boundary'' []) (\<lambda>_.
     andthen (modify (register_handle i (new_handle (rw_key w)))) (ret c)))) (\<lambda>_. live i (rw_key w)) (\<lambda>_. True) t"
    if c: "dget (st_attempts t) i = Some c" "wa_id c = i" "1 \<le> wa_version c" for c and t :: runtime
    unfolding wp_bind [of "move_attempt _ _ _ _ _ _ _"]
  proof (rule wp_move_attempt)
    fix u j
    assume "transition_worker_attempt c WS_running (wa_version c) (Some (no_conditions\<lparr>tc_claim_token_valid := True\<rparr>)) (rw_now w) = Inr u"
    then have "wa_id u = i" "1 \<le> wa_version u" "wa_status u = WS_running" using c by (auto simp: transition_worker_attempt_iff)
    then show "wp (bind (runner_checkpoint H C du u True ''retry provider call from the last provider boundary'' []) (\<lambda>_.
     andthen (modify (register_handle i (new_handle (rw_key w)))) (ret c))) (\<lambda>_. live i (rw_key w)) (\<lambda>_. True)
       ((store_attempt i u t)\<lparr>st_journal := j\<rparr>) \<and> True"
      by (intro conjI checkpoint) simp_all
  qed simp
  show ?thesis
    unfolding start_run_def wp_bind [of "if _ then _ else _"]
    by (rule wpI) (use claimed_for_run [OF _ assms] run in auto)
qed

section \<open>What a run guarantees\<close>

text \<open>
  C26. A run settles its attempt, and reports what happened. When the run of an attempt returns, the
  attempt it returns is the stored one and is succeeded, failed, cancelled or paused. It succeeded
  only if the provider returned a result and its usage was recorded, and then the end is
  acknowledged: an error, a timeout or a cancellation of the provider never becomes a success. Where
  checkpoints are kept, a paused attempt names one that is intact and safe to resume from.
\<close>

theorem run_settles_attempt:
  assumes run: "run_attempt H C du R sig w claim i req s = (Inr b, t)"
    and ord: "orderly H R w i" and ok: "well_stored i s"
  shows "dget (st_attempts t) i = Some b \<and> wa_status b \<in> {WS_succeeded, WS_failed, WS_cancelled, WS_paused} \<and>
    (wa_status b = WS_succeeded \<longrightarrow> provider_returned H R w req \<and> i \<in> set (st_terminal_acks t)) \<and>
    (wa_status b = WS_paused \<longrightarrow> resumable C b t)"
proof -
  have "wp (run_attempt H C du R sig w claim i req)
    (\<lambda>b t. dget (st_attempts t) i = Some b \<and> wa_status b \<in> {WS_succeeded, WS_failed, WS_cancelled, WS_paused} \<and>
      (wa_status b = WS_succeeded \<longrightarrow> provider_returned H R w req \<and> i \<in> set (st_terminal_acks t)) \<and>
      (wa_status b = WS_paused \<longrightarrow> resumable C b t)) (\<lambda>_. True) s" (is "wp _ ?Q _ s")
  proof -
    have finish: "wp (case r of Some a \<Rightarrow> ret a | None \<Rightarrow> run_terminal H C du i WS_succeeded (rw_now w)) ?Q (\<lambda>_. True) u"
      if "case r of None \<Rightarrow> provider_returned H R w req \<and> (\<exists>a. dget (st_attempts u) i = Some a \<and> wa_id a = i) | Some b \<Rightarrow> run_ended C i b u"
      for r u
    proof (cases r)
      case None
      with that obtain a where a: "dget (st_attempts u) i = Some a" "wa_id a = i" and p: "provider_returned H R w req" by auto
      show ?thesis unfolding None option.case
        by (rule wp_mono [OF wp_run_terminal [OF a]]) (use p in auto)
    next
      case (Some c)
      with that show ?thesis by (auto simp: wp_simps run_ended_def)
    qed
    have guarded: "wp (bind (run_guarded H C du R sig w i req) (\<lambda>returned.
     case returned of Some a \<Rightarrow> ret a | None \<Rightarrow> run_terminal H C du i WS_succeeded (rw_now w))) ?Q (\<lambda>_. True) u"
      if "live i (rw_key w) u" for u
      unfolding wp_bind by (rule wp_mono [OF wp_run_guarded [OF ord that]]) (rule finish, auto)
    have start: "wp (andthen (start_run H C du R w claim i) (bind (run_guarded H C du R sig w i req) (\<lambda>returned.
     case returned of Some a \<Rightarrow> ret a | None \<Rightarrow> run_terminal H C du i WS_succeeded (rw_now w)))) ?Q (\<lambda>_. True) u"
      if "well_stored i u" for u
      unfolding wp_andthen by (rule wp_mono [OF wp_start_run [OF that]]) (rule guarded, auto)
    have "wp (andthen (persist_provider_request H i req) (andthen (start_run H C du R w claim i)
      (bind (run_guarded H C du R sig w i req) (\<lambda>returned.
     case returned of Some a \<Rightarrow> ret a | None \<Rightarrow> run_terminal H C du i WS_succeeded (rw_now w))))) ?Q (\<lambda>_. True) s"
      unfolding wp_andthen [of "persist_provider_request H i req"]
      by (rule wp_mono [OF wp_persist_provider_request [OF ok]]) (rule start, auto)
    then show ?thesis unfolding run_attempt_def wp_andthen [of "lift _"] wp_lift by (simp split: if_split)
  qed
  from wp_Inr [OF this run] show ?thesis .
qed

section \<open>A run on a working disk\<close>

lemma wp_commit_healthy:
  assumes "healthy H s" and "\<And>j. healthy H (s\<lparr>st_journal := j\<rparr>) \<Longrightarrow> Q () (s\<lparr>st_journal := j\<rparr>)"
  shows "wp (commit H e k) Q E s"
proof -
  obtain j where "commit H e k s = (Inr (), s\<lparr>st_journal := j\<rparr>)" "healthy H (s\<lparr>st_journal := j\<rparr>)"
    using healthy_commit [OF assms(1)] by blast
  with assms(2) show ?thesis by (simp add: wp_def)
qed

lemma wp_commit_worker_healthy:
  "healthy H s \<Longrightarrow> (\<And>j. healthy H (s\<lparr>st_journal := j\<rparr>) \<Longrightarrow> Q () (s\<lparr>st_journal := j\<rparr>)) \<Longrightarrow> wp (commit_worker H kind i a) Q E s"
  by (simp add: commit_worker_def wp_simps wp_commit_healthy del: run_eqs)

definition quick_world :: run_world where
  "quick_world = \<lparr>rw_token = ''tok'', rw_clock = Aware 1, rw_now = 1, rw_key = 7,
     rw_call = (\<lambda>req path. ret (WaitReturned \<lparr>us_id = ''u'', us_task_id = ''t'', us_provider_id = ''p'', us_model_id = ''m'',
       us_input_tokens = None, us_cached_input_tokens = None, us_output_tokens = None, us_reasoning_tokens = None,
       us_cost_status = CO_unknown, us_cost_usd = None, us_latency_ms = 0, us_retries = 0, us_recorded_at = 0\<rparr>)),
     rw_settle = id\<rparr>"

definition quick_runner :: runner where
  "quick_runner = \<lparr>wr_on_usage = Some (\<lambda>_. ret ()), wr_provider_timeout = None, wr_claim_ttl = 60, wr_cancel_grace_seconds = 10\<rparr>"

definition quick_request :: execution_request where
  "quick_request = \<lparr>er_task_id = ''t'', er_input_text = ''x'', er_reasoning_effort = ''medium'', er_retries = 0\<rparr>"

lemma quick_world_orderly: "orderly H quick_runner quick_world i"
  by (simp add: orderly_def quick_world_def quick_runner_def use_usage_def wp_simps keeps_ret del: run_eqs)

lemma quick_simps:
  "rw_token quick_world = ''tok''" "rw_clock quick_world = Aware 1" "rw_now quick_world = 1" "rw_key quick_world = 7"
  "rw_settle quick_world = id" "wr_claim_ttl quick_runner = 60"
  by (simp_all add: quick_world_def quick_runner_def)

lemma wp_runs: "wp m Q (\<lambda>_. False) s \<Longrightarrow> \<exists>x t. m s = (Inr x, t) \<and> Q x t"
  by (cases "m s"; cases "fst (m s)") (auto simp: wp_def)

lemma healthy_store_attempt [simp]: "healthy H (store_attempt i a s) = healthy H s"
  by (rule healthy_journal) (simp add: store_attempt_def)

lemma healthy_handles_update [simp]: "healthy H (st_handles_update f s) = healthy H s"
  by (rule healthy_journal) simp

lemma wp_move_attempt_healthy:
  assumes "healthy H s" and "transition_worker_attempt a target (wa_version a) c now = Inr u"
    and "\<And>j. healthy H ((store_attempt i u s)\<lparr>st_journal := j\<rparr>) \<Longrightarrow> Q u ((store_attempt i u s)\<lparr>st_journal := j\<rparr>)"
  shows "wp (move_attempt H i a target c kind now) Q E s"
  using assms by (simp add: move_attempt_def wp_simps wp_commit_worker_healthy del: run_eqs)

lemma wp_checkpoint_off: "rt_checkpoints s = None \<Longrightarrow> wp (runner_checkpoint H C du a safe ns fs) Q E s = Q a s"
  by (simp add: runner_checkpoint_def wp_simps del: run_eqs)

text \<open>An attempt whose provider answers succeeds.\<close>

definition quick_store :: runtime where
  "quick_store = (put_attempt (some_attempt ''a'') new_runtime)\<lparr>rt_checkpoints := None\<rparr>"

lemma quick_store_simps:
  "dget (st_attempts quick_store) ''a'' = Some (some_attempt ''a'')" "healthy unit_hashing quick_store"
  "rt_checkpoints quick_store = None" "st_terminal_acks quick_store = []" "st_handles quick_store = []"
proof -
  show "healthy unit_hashing quick_store"
    using healthy_journal [of quick_store "new_store []"] healthy_new_store by (simp add: quick_store_def put_attempt_def)
qed (simp_all add: quick_store_def put_attempt_def new_runtime_def new_app_store_def app_store.defs store.defs view.defs
    new_store_def empty_view_def)

lemma quick_run:
  "wp (run_attempt unit_hashing plain_codec \<lparr>du_used = None, du_free = 9\<rparr> quick_runner None quick_world True ''a'' quick_request)
     (\<lambda>b _. wa_status b = WS_succeeded) (\<lambda>_. False) quick_store"
proof -
  let ?H = "unit_hashing :: event hashing" and ?du = "\<lparr>du_used = None, du_free = 9\<rparr>"
  let ?a = "(some_attempt ''a'')\<lparr>wa_provider_request := Some quick_request, wa_version := 2\<rparr>"
  let ?c = "?a\<lparr>wa_status := WS_claimed, wa_claim_token := Some ''tok'', wa_claim_expires_at := Some 61, wa_version := 3\<rparr>"
  let ?r = "?c\<lparr>wa_status := WS_running, wa_version := 4, wa_updated_at := 1\<rparr>"
  let ?u = "?r\<lparr>wa_status := WS_succeeded, wa_version := 5, wa_updated_at := 1\<rparr>"
  have wf: "wf_execution_request quick_request" by (simp add: wf_execution_request_def quick_request_def len_within_def)
  have none: "wa_provider_request (some_attempt ''a'') = None" by (simp add: some_attempt_def new_worker_attempt_def)
  have req: "wp (persist_provider_request ?H ''a'' quick_request)
      (\<lambda>_ t. healthy ?H t \<and> dget (st_attempts t) ''a'' = Some ?a \<and> rt_checkpoints t = None) (\<lambda>_. False) quick_store"
    by (simp add: persist_provider_request_def wp_simps quick_store_simps none Let_def del: run_eqs)
      (rule wp_commit_worker_healthy; simp add: quick_store_simps)
  have claim: "wp (claim_attempt ?H ''a'' ''tok'' (Aware 1) 60)
      (\<lambda>b t. b = ?c \<and> healthy ?H t \<and> dget (st_attempts t) ''a'' = Some ?c \<and> rt_checkpoints t = None) (\<lambda>_. False) t"
    if "healthy ?H t" "dget (st_attempts t) ''a'' = Some ?a" "rt_checkpoints t = None" for t :: runtime
    using that
    by (simp add: claim_attempt_def wp_simps claim_service_def claim_record_def record_of_def utc_def commit_attempt_def Let_def del: run_eqs)
      (rule wp_commit_healthy; simp add: put_attempt_def healthy_def)
  have start: "wp (start_run ?H plain_codec ?du quick_runner quick_world True ''a'')
      (\<lambda>_ t. healthy ?H t \<and> dget (st_attempts t) ''a'' = Some ?r \<and> rt_checkpoints t = None \<and>
         dget (st_handles t) ''a'' = Some (new_handle 7)) (\<lambda>_. False) t"
    if t: "healthy ?H t" "dget (st_attempts t) ''a'' = Some ?a" "rt_checkpoints t = None" for t :: runtime
    unfolding start_run_def if_P [OF TrueI] wp_bind [of "claim_attempt _ _ _ _ _"] quick_simps
  proof (rule wp_mono [OF claim [OF t]])
    fix x and v :: runtime assume "x = ?c \<and> healthy ?H v \<and> dget (st_attempts v) ''a'' = Some ?c \<and> rt_checkpoints v = None"
    then show "wp (bind (move_attempt ?H ''a'' x WS_running (Some (no_conditions\<lparr>tc_claim_token_valid := True\<rparr>)) WE_started 1)
       (\<lambda>running. bind (runner_checkpoint ?H plain_codec ?du running True ''retry provider call from the last provider boundary'' [])
       (\<lambda>_. andthen (modify (register_handle ''a'' (new_handle 7))) (ret x))))
      (\<lambda>_ t. healthy ?H t \<and> dget (st_attempts t) ''a'' = Some ?r \<and> rt_checkpoints t = None \<and>
         dget (st_handles t) ''a'' = Some (new_handle 7)) (\<lambda>_. False) v"
      unfolding wp_bind [of "move_attempt _ _ _ _ _ _ _"]
      by (intro wp_move_attempt_healthy [where u = ?r])
        (auto simp: transition_worker_attempt_iff worker_guard_def wp_simps wp_checkpoint_off register_handle_def store_attempt_def simp del: run_eqs)
  qed simp
  have body: "wp (run_guarded ?H plain_codec ?du quick_runner None quick_world ''a'' quick_request)
      (\<lambda>r t. r = None \<and> healthy ?H t \<and> dget (st_attempts t) ''a'' = Some ?r \<and> rt_checkpoints t = None) (\<lambda>_. False) t"
    if t: "healthy ?H t" "dget (st_attempts t) ''a'' = Some ?r" "rt_checkpoints t = None"
      "dget (st_handles t) ''a'' = Some (new_handle 7)" for t :: runtime
  proof -
    have ph: "phase ''a'' 7 t = Some (?r, False)" using t by (simp add: phase_Some new_handle_def)
    have own: "own_handle ''a'' 7 t = new_handle 7" using t by (simp add: own_handle_def new_handle_def)
    have "wp (run_body ?H plain_codec ?du quick_runner None quick_world ''a'' quick_request)
       (\<lambda>r t. r = None \<and> healthy ?H t \<and> dget (st_attempts t) ''a'' = Some ?r \<and> rt_checkpoints t = None) (\<lambda>_. False) t"
      using t own
      by (simp add: run_body_def sync_persisted_control_def wp_simps wp_read_attempt quick_world_def after_return_def quick_runner_def
          use_usage_def wp_is_cancel_requested [OF ph] wp_is_pause_requested [OF ph] del: run_eqs) (simp add: new_handle_def)
    then show ?thesis
      unfolding run_guarded_def wp_ensuring
      by (intro wp_catch_all) (erule wp_mono, auto simp: quick_world_def release_handle_def healthy_def split: option.split)
  qed
  have finish: "wp (run_terminal ?H plain_codec ?du ''a'' WS_succeeded 1) (\<lambda>b _. wa_status b = WS_succeeded) (\<lambda>_. False) t"
    if t: "healthy ?H t" "dget (st_attempts t) ''a'' = Some ?r" "rt_checkpoints t = None" for t :: runtime
    unfolding run_terminal_def wp_bind [of "read_attempt ''a''"] wp_read_attempt [OF t(2)] wp_bind [of "runner_checkpoint _ _ _ _ _ _ _"]
      wp_checkpoint_off [OF t(3)] wp_bind [of "move_attempt _ _ _ _ _ _ _"]
  proof (rule wp_move_attempt_healthy [where u = ?u])
    fix j assume h: "healthy ?H ((store_attempt ''a'' ?u t)\<lparr>st_journal := j\<rparr>)"
    show "wp (ack_terminal ?H ''a'' (Some WS_succeeded)) (\<lambda>b _. wa_status b = WS_succeeded) (\<lambda>_. False) ((store_attempt ''a'' ?u t)\<lparr>st_journal := j\<rparr>)"
      using h by (simp add: ack_terminal_def wp_simps WORKER_ATTEMPT_TERMINAL_def del: run_eqs)
        (auto simp: wp_simps intro: wp_commit_healthy simp del: run_eqs)
  qed (use t in \<open>simp_all add: transition_worker_attempt_iff worker_guard_def\<close>)
  show ?thesis
    unfolding run_attempt_def wp_andthen [of "lift _"] wp_lift if_P [OF wf] sum.case wp_andthen [of "persist_provider_request _ _ _"]
  proof (rule wp_mono [OF req])
    fix x and t :: runtime assume t: "healthy ?H t \<and> dget (st_attempts t) ''a'' = Some ?a \<and> rt_checkpoints t = None"
    show "wp (andthen (start_run ?H plain_codec ?du quick_runner quick_world True ''a'')
      (bind (run_guarded ?H plain_codec ?du quick_runner None quick_world ''a'' quick_request) (\<lambda>returned.
       case returned of Some a \<Rightarrow> ret a | None \<Rightarrow> run_terminal ?H plain_codec ?du ''a'' WS_succeeded (rw_now quick_world))))
      (\<lambda>b _. wa_status b = WS_succeeded) (\<lambda>_. False) t"
      unfolding wp_andthen [of "start_run _ _ _ _ _ _ _"]
    proof (rule wp_mono [OF start])
      fix y and v :: runtime assume v: "healthy ?H v \<and> dget (st_attempts v) ''a'' = Some ?r \<and> rt_checkpoints v = None \<and>
         dget (st_handles v) ''a'' = Some (new_handle 7)"
      show "wp (bind (run_guarded ?H plain_codec ?du quick_runner None quick_world ''a'' quick_request) (\<lambda>returned.
       case returned of Some a \<Rightarrow> ret a | None \<Rightarrow> run_terminal ?H plain_codec ?du ''a'' WS_succeeded (rw_now quick_world)))
      (\<lambda>b _. wa_status b = WS_succeeded) (\<lambda>_. False) v"
        unfolding wp_bind
      proof (rule wp_mono [OF body])
        fix r :: "worker_attempt option" and w :: runtime assume "r = None \<and> healthy ?H w \<and> dget (st_attempts w) ''a'' = Some ?r \<and> rt_checkpoints w = None"
        with finish [of w] show "wp (case r of Some a \<Rightarrow> ret a | None \<Rightarrow> run_terminal ?H plain_codec ?du ''a'' WS_succeeded (rw_now quick_world))
          (\<lambda>b _. wa_status b = WS_succeeded) (\<lambda>_. False) w" by (simp add: quick_world_def)
      qed (use v in auto)
    qed (use t in auto)
  qed
qed

theorem run_settles_attempt_witness:
  "\<exists>(b :: worker_attempt) (t :: runtime).
     run_attempt unit_hashing plain_codec \<lparr>du_used = None, du_free = 9\<rparr> quick_runner None quick_world True ''a''
       quick_request quick_store = (Inr b, t) \<and>
     wa_status b = WS_succeeded \<and> dget (st_attempts t) ''a'' = Some b \<and> ''a'' \<in> set (st_terminal_acks t)"
proof -
  obtain b and t :: runtime where run: "run_attempt unit_hashing plain_codec \<lparr>du_used = None, du_free = 9\<rparr> quick_runner None
      quick_world True ''a'' quick_request quick_store = (Inr b, t)" and b: "wa_status b = WS_succeeded"
    using wp_runs [OF quick_run] by blast
  have "well_stored ''a'' quick_store" by (simp add: well_stored_def quick_store_simps some_attempt_def new_worker_attempt_def)
  from run_settles_attempt [OF run quick_world_orderly this] run b show ?thesis by auto
qed

end
