(* ===== verification/Supervisor.thy ===== *)
theory Supervisor
  imports Runner
begin

text \<open>
  \<^verbatim>\<open>execution/supervisor.py\<close>: the local supervisor that claims queued attempts and runs them, and the
  loops over it. The lemmas show that the steps of a run never put an attempt back into the queue, so
  that draining it ends.
\<close>


section \<open>The supervisor: execution/supervisor.py\<close>

type_synonym requests = "(string, execution_request) dict"

definition supervisor_register ::
    "event hashing \<Rightarrow> string \<Rightarrow> execution_request \<Rightarrow> requests \<Rightarrow> ('r store_scheme, requests) prog" where
  "supervisor_register H i req requests =
     bind (get (\<lambda>s. dget (st_attempts s) i)) (\<lambda>found.
     case found of
       None \<Rightarrow> raise_exn (ValueError ''worker attempt not found'')
     | Some a \<Rightarrow>
         andthen (raise_when (wa_provider_request a \<noteq> None \<and> wa_provider_request a \<noteq> Some req)
                    (ValueError ''provider request is immutable for an attempt''))
        (andthen (if wa_provider_request a = None
                  then let u = a\<lparr>wa_provider_request := Some req, wa_version := wa_version a + 1\<rparr>
                       in andthen (commit_worker H WE_request_bound i u) (modify (store_attempt i u))
                  else ret ())
           (ret (dput i req requests))))"

definition request_for :: "requests \<Rightarrow> worker_attempt \<Rightarrow> 'r view_scheme \<Rightarrow> execution_request option" where
  "request_for requests a s =
     (case wa_provider_request a of
        Some r \<Rightarrow> Some r
      | None \<Rightarrow>
     (case dget requests (wa_id a) of
        Some r \<Rightarrow> Some r
      | None \<Rightarrow>
     (case dget (st_children s) (wa_child_task_id a) of
        None \<Rightarrow> None
      | Some b \<Rightarrow> Some \<lparr>er_task_id = cb_id b, er_input_text = cb_objective b, er_reasoning_effort = ''medium'', er_retries = 0\<rparr>)))"

text \<open>
  A supervisor with \<open>max_concurrency\<close> slots, and the keyword arguments it hands to its runner. The
  claims of a batch are taken one after the other under a lock; here a run ends before the next one
  of its batch starts, and what runs beside it, the other slots included, is in its world.
\<close>

record supervisor =
  sv_requests :: requests
  sv_max_concurrency :: nat
  sv_claim_ttl :: time
  sv_runner :: runner

record runner_kwargs =
  rk_on_usage :: "(usage_record \<Rightarrow> (runtime, unit) prog) option"
  rk_provider_timeout :: "rat option"
  rk_claim_ttl :: "time option"
  rk_cancel_grace_seconds :: rat
  rk_cancel_grace :: "rat option"

definition execution_supervisor ::
    "event hashing \<Rightarrow> checkpoint_codec \<Rightarrow> requests option \<Rightarrow> int \<Rightarrow> time \<Rightarrow> runner_kwargs \<Rightarrow> (runtime, supervisor) prog" where
  "execution_supervisor H C requests max_concurrency claim_ttl kw =
     andthen (raise_when (max_concurrency < 1 \<or> 5 < max_concurrency)
                (ValueError ''max_concurrency must be between 1 and 5''))
    (bind (lift (worker_runner (rk_on_usage kw) (rk_provider_timeout kw)
                   (case rk_claim_ttl kw of None \<Rightarrow> claim_ttl | Some ttl \<Rightarrow> ttl)
                   (rk_cancel_grace_seconds kw) (rk_cancel_grace kw))) (\<lambda>R.
     bind (get rt_checkpoints) (\<lambda>cps.
     andthen (case cps of None \<Rightarrow> ret () | Some cp \<Rightarrow> bind (reclaim_attempts H C cp) (\<lambda>_. ret ()))
       (ret \<lparr>sv_requests = (case requests of None \<Rightarrow> [] | Some d \<Rightarrow> d), sv_max_concurrency = nat max_concurrency,
             sv_claim_ttl = claim_ttl, sv_runner = R\<rparr>))))"

definition run_once ::
    "event hashing \<Rightarrow> checkpoint_codec \<Rightarrow> disk_usage \<Rightarrow> supervisor \<Rightarrow> provider_signature option \<Rightarrow> run_world \<Rightarrow>
     (runtime, worker_attempt option) prog" where
  "run_once H C du S sig w =
     bind (get (\<lambda>s. List.find (\<lambda>a. request_for (sv_requests S) a s \<noteq> None) (queued_attempts s))) (\<lambda>candidate.
     case candidate of
       None \<Rightarrow> ret None
     | Some q \<Rightarrow>
       bind (claim_attempt H (wa_id q) (rw_token w) (rw_clock w) (sv_claim_ttl S)) (\<lambda>claimed.
       bind (get (request_for (sv_requests S) claimed)) (\<lambda>request.
       case request of
         None \<Rightarrow> raise_exn (RuntimeError ''assertion failed'')
       | Some req \<Rightarrow>
           bind (run_attempt H C du (sv_runner S) sig w False (wa_id claimed) req) (\<lambda>a. ret (Some a)))))"

fun run_batch ::
    "event hashing \<Rightarrow> checkpoint_codec \<Rightarrow> disk_usage \<Rightarrow> supervisor \<Rightarrow> provider_signature option \<Rightarrow> run_world list \<Rightarrow>
     (runtime, worker_attempt list) prog" where
  "run_batch H C du S sig [] = ret []"
| "run_batch H C du S sig (w # ws) =
     bind (run_once H C du S sig w) (\<lambda>r.
     bind (run_batch H C du S sig ws) (\<lambda>rs. ret (case r of None \<Rightarrow> rs | Some a \<Rightarrow> a # rs)))"

text \<open>\<^verbatim>\<open>while True\<close>: \<open>None\<close> is a loop that does not end. \<open>worlds b n\<close> is the world of slot \<open>n\<close> of batch \<open>b\<close>.\<close>

partial_function (option) run_until_idle ::
    "event hashing \<Rightarrow> checkpoint_codec \<Rightarrow> disk_usage \<Rightarrow> supervisor \<Rightarrow> provider_signature option \<Rightarrow> (nat \<Rightarrow> nat \<Rightarrow> run_world) \<Rightarrow>
     nat \<Rightarrow> worker_attempt list \<Rightarrow> runtime \<Rightarrow> (worker_attempt list res \<times> runtime) option" where
  "run_until_idle H C du S sig worlds b results s =
     (case run_batch H C du S sig (map (worlds b) [0 ..< sv_max_concurrency S]) s of
        (Inl e, t) \<Rightarrow> Some (Inl e, t)
      | (Inr done', t) \<Rightarrow>
          if done' = [] then Some (Inr results, t)
          else run_until_idle H C du S sig worlds (Suc b) (results @ done') t)"

text \<open>\<open>stop n\<close>: the stop event is set before turn \<open>n\<close>; \<open>rest\<close> is what happens during the sleep of a turn.\<close>

partial_function (option) run_forever ::
    "event hashing \<Rightarrow> checkpoint_codec \<Rightarrow> disk_usage \<Rightarrow> supervisor \<Rightarrow> provider_signature option \<Rightarrow> (nat \<Rightarrow> run_world) \<Rightarrow>
     (nat \<Rightarrow> runtime \<Rightarrow> runtime) \<Rightarrow> (nat \<Rightarrow> bool) \<Rightarrow> nat \<Rightarrow> runtime \<Rightarrow> (unit res \<times> runtime) option" where
  "run_forever H C du S sig worlds rest stop n s =
     (if stop n then Some (Inr (), s)
      else case run_once H C du S sig (worlds n) s of
             (Inl e, t) \<Rightarrow> Some (Inl e, t)
           | (Inr r, t) \<Rightarrow>
               run_forever H C du S sig worlds rest stop (Suc n) (if r = None then rest n t else t))"

text \<open>\<^verbatim>\<open>run_forever\<close> with the test of its argument.\<close>

definition supervise ::
    "event hashing \<Rightarrow> checkpoint_codec \<Rightarrow> disk_usage \<Rightarrow> supervisor \<Rightarrow> provider_signature option \<Rightarrow> (nat \<Rightarrow> run_world) \<Rightarrow>
     (nat \<Rightarrow> runtime \<Rightarrow> runtime) \<Rightarrow> (nat \<Rightarrow> bool) \<Rightarrow> rat \<Rightarrow> runtime \<Rightarrow> (unit res \<times> runtime) option" where
  "supervise H C du S sig worlds rest stop idle_sleep_seconds s =
     (if idle_sleep_seconds \<le> 0 then Some (Inl (ValueError ''idle_sleep_seconds must be positive''), s)
      else run_forever H C du S sig worlds rest stop 0 s)"

section \<open>The queue only gets shorter\<close>

text \<open>\<open>waits_in Q\<close>: every queued attempt is one of \<open>Q\<close>.\<close>

definition waits_in :: "string set \<Rightarrow> 'r view_scheme \<Rightarrow> bool" where
  "waits_in Q s \<longleftrightarrow> attempts_ok s \<and> (\<forall>a \<in> set (queued_attempts s). wa_id a \<in> Q)"

definition ticket :: "string set \<Rightarrow> string \<Rightarrow> worker_attempt \<Rightarrow> bool" where
  "ticket Q i a \<longleftrightarrow> wa_id a = i \<and> (wa_status a = WS_queued \<longrightarrow> i \<in> Q)"

lemma waits_in_iff:
  "waits_in Q s \<longleftrightarrow> attempts_ok s \<and> (\<forall>i a. dget (st_attempts s) i = Some a \<longrightarrow> ticket Q i a)"
  by (auto simp: waits_in_def ticket_def queued_attempts_def attempts_ok_def keyed_def dvalue_dget simp del: set_map)
    metis

lemma waits_in_same: "waits_in Q s \<Longrightarrow> st_attempts t = st_attempts s \<Longrightarrow> waits_in Q t"
  by (simp add: waits_in_iff attempts_ok_def)

lemma waits_in_journal [simp]: "waits_in Q (s\<lparr>st_journal := j\<rparr>) = waits_in Q s"
  by (simp add: waits_in_iff attempts_ok_def)

lemma waits_in_put:
  "waits_in Q s \<Longrightarrow> ticket Q i a \<Longrightarrow> st_attempts t = dput i a (st_attempts s) \<Longrightarrow> waits_in Q t"
  by (auto simp: waits_in_iff attempts_ok_def keyed_def ticket_def)

lemma waits_in_store [intro]: "waits_in Q s \<Longrightarrow> ticket Q i a \<Longrightarrow> waits_in Q (store_attempt i a s)"
  by (rule waits_in_put) (auto simp: store_attempt_def)

lemma keeps_waits_commit [keeps_intros]: "keeps (waits_in Q) (commit H e k)"
  by (rule keepsI) (auto dest!: commit_view)

lemma keeps_commit_worker [keeps_intros]: "keeps (waits_in Q) (commit_worker H kind i a)"
  unfolding commit_worker_def by (intro keeps_intros)

lemma yields_found: "yields (\<lambda>x. \<forall>a. x = Some a \<longrightarrow> ticket Q i a) (waits_in Q) (get (\<lambda>s. dget (st_attempts s) i))"
  by (auto simp: yields_def wp_simps waits_in_iff)

lemma yields_read_attempt: "yields (ticket Q i) (waits_in Q) (read_attempt i)"
  by (auto simp: yields_def read_attempt_def wp_simps waits_in_iff split: option.split simp del: run_eqs)

lemma keeps_store_attempt: "ticket Q i a \<Longrightarrow> keeps (waits_in Q) (modify (store_attempt i a))"
  by (auto simp: keeps_def)

lemma yields_move_attempt:
  assumes "wa_id a = i" and "target \<noteq> WS_queued"
  shows "yields (ticket Q i) (waits_in Q) (move_attempt H i a target c kind now)"
proof -
  have "ticket Q i u" if "transition_worker_attempt a target (wa_version a) c now = Inr u" for u
    using that assms by (auto simp: transition_worker_attempt_iff ticket_def)
  then have "yields (ticket Q i) (waits_in Q) (lift (transition_worker_attempt a target (wa_version a) c now))"
    by (auto simp: yields_def wp_simps split: sum.split simp del: run_eqs)
  then show ?thesis
    unfolding move_attempt_def
    by (rule yields_bind) (intro yields_intros keeps_store_attempt keeps_commit_worker)
qed

lemma keeps_on_checkpoints [keeps_intros]: "keeps (waits_in Q) (on_checkpoints m)"
  by (rule keepsI) (auto simp: on_checkpoints_def intro: waits_in_same split: option.splits prod.splits)

lemma yields_runner_checkpoint:
  assumes "ticket Q i a"
  shows "yields (ticket Q i) (waits_in Q) (runner_checkpoint H C du a safe n fs)"
proof -
  have "ticket Q i (a\<lparr>wa_checkpoint_id := c, wa_checkpoint_safe_to_resume := safe, wa_version := v\<rparr>)"
    "wa_id a = i" for c v
    using assms by (simp_all add: ticket_def)
  then show ?thesis using assms unfolding runner_checkpoint_def
    by (auto simp: Let_def intro!: yields_intros keeps_intros keeps_store_attempt keeps_commit_worker)
qed

lemma keeps_control_handle [keeps_intros]: "keeps (waits_in Q) (request_execution_control i action)"
  by (rule keepsI) (auto simp: request_execution_control_def prog_simps intro: waits_in_same split: option.splits if_splits)

lemma yields_case_option [yields_intros]:
  "(x = None \<Longrightarrow> yields P I m) \<Longrightarrow> (\<And>y. x = Some y \<Longrightarrow> yields P I (f y)) \<Longrightarrow>
     yields P I (case x of None \<Rightarrow> m | Some y \<Rightarrow> f y)"
  by (cases x) auto

lemma yields_request_control: "yields (ticket Q i) (waits_in Q) (request_control H i action now)"
  unfolding request_control_def
proof (rule yields_bind [OF yields_found], rule yields_case_option, goal_cases)
  case (2 found a)
  then have a: "ticket Q i a" by simp
  let ?target = "if action = ''pause'' then WS_pause_requested else WS_cancel_requested"
  have move: "yields (ticket Q i) (waits_in Q) (rewrap p e (lift (transition_worker_attempt a ?target (wa_version a) None now)))"
    for p e using a
    by (auto simp: yields_def wp_simps transition_worker_attempt_iff ticket_def split: sum.split simp del: run_eqs)
  have put: "keeps (waits_in Q) (modify (put_attempt b))" if "ticket Q i b" for b
    using that by (auto simp: keeps_def ticket_def put_attempt_def intro: waits_in_put)
  show ?case unfolding Let_def
    by (intro yields_after yields_if keeps_intros yields_ret a yields_bind [OF move] put)
qed (rule yields_raise)

lemmas yields_steps = yields_read_attempt yields_request_control yields_move_attempt yields_runner_checkpoint

lemma ticket_id: "ticket Q i a \<Longrightarrow> wa_id a = i"
  by (simp add: ticket_def)

lemma yields_moved:
  "ticket Q i a \<Longrightarrow> target \<noteq> WS_queued \<Longrightarrow> (\<And>u. ticket Q i u \<Longrightarrow> yields P (waits_in Q) (f u)) \<Longrightarrow>
     yields P (waits_in Q) (bind (move_attempt H i a target c kind now) f)"
  by (rule yields_bind [OF yields_move_attempt]) (auto dest: ticket_id)

lemma yields_run_paused: "yields (ticket Q i) (waits_in Q) (run_paused H C du i now)"
  unfolding run_paused_def
proof (rule yields_bind [OF yields_read_attempt], rule yields_bind)
  show "yields (ticket Q i) (waits_in Q) (if wa_status a = WS_running then request_control H i ''pause'' now else ret a)"
    if "ticket Q i a" for a using that by (intro yields_intros yields_request_control)
  show "yields (ticket Q i) (waits_in Q) (if wa_status b \<noteq> WS_pause_requested then ret b else
      bind (runner_checkpoint H C du b True ''resume provider call from the last provider boundary'' []) (\<lambda>c.
      bind (move_attempt H i c WS_paused (Some (no_conditions\<lparr>tc_checkpoint_durable := True\<rparr>)) WE_paused now) (\<lambda>u.
      andthen (commit_worker H WE_checkpointed i u) (ret u))))" if b: "ticket Q i b" for b
    by (intro yields_if yields_ret b yields_bind [OF yields_runner_checkpoint [OF b]])
      (rule yields_moved, auto intro!: yields_intros keeps_intros)
qed

lemma yields_run_cancelled: "yields (ticket Q i) (waits_in Q) (run_cancelled H i now)"
  unfolding run_cancelled_def
proof (rule yields_bind [OF yields_read_attempt], rule yields_bind)
  show "yields (ticket Q i) (waits_in Q) (if wa_status a = WS_running then request_control H i ''cancel'' now else ret a)"
    if "ticket Q i a" for a using that by (intro yields_intros yields_request_control)
qed (auto intro!: yields_intros yields_move_attempt dest: ticket_id)

lemma yields_run_cancel_failed: "yields (ticket Q i) (waits_in Q) (run_cancel_failed H i now)"
  unfolding run_cancel_failed_def
  by (rule yields_bind [OF yields_read_attempt]) (auto intro!: yields_intros yields_move_attempt dest: ticket_id)

lemma keeps_ack_terminal [keeps_intros]: "keeps (waits_in Q) (ack_terminal H i status)"
  unfolding ack_terminal_def case_prod_beta
  by (intro keeps_intros) (auto simp: keeps_def intro: waits_in_same)

lemma keeps_run_terminal [keeps_intros]: "status \<noteq> WS_queued \<Longrightarrow> keeps (waits_in Q) (run_terminal H C du i status now)"
  unfolding run_terminal_def
  by (rule keeps_yields [where P = "\<lambda>_. True"],
      intro yields_bind [OF yields_read_attempt] yields_bind [OF yields_runner_checkpoint] yields_moved
        yields_keeps keeps_ack_terminal)
    assumption+

lemma keeps_modify_handles [keeps_intros]: "keeps (waits_in Q) (modify (st_handles_update g))"
  by (auto simp: keeps_def intro: waits_in_same)

lemma keeps_control_seen [keeps_intros]:
  "keeps (waits_in Q) (sync_persisted_control i)" "keeps (waits_in Q) (is_cancel_requested i k)"
  "keeps (waits_in Q) (is_pause_requested i k)"
  unfolding sync_persisted_control_def is_cancel_requested_def is_pause_requested_def runner_request_cancel_def
    runner_request_pause_def read_attempt_def
  by (intro keeps_intros)+

text \<open>A world that queues nothing: neither the provider nor what runs beside it adds a queued attempt.\<close>

definition queues_nothing :: "event hashing \<Rightarrow> runner \<Rightarrow> run_world \<Rightarrow> bool" where
  "queues_nothing H R w \<longleftrightarrow>
     (\<forall>Q. (\<forall>req path. keeps (waits_in Q) (rw_call w req path)) \<and> (\<forall>u. keeps (waits_in Q) (use_usage H R u)) \<and>
          (\<forall>s. waits_in Q s \<longrightarrow> waits_in Q (rw_settle w s)))"

lemmas keeps_ends = keeps_yields [OF yields_run_paused] keeps_yields [OF yields_run_cancelled]
  keeps_yields [OF yields_run_cancel_failed] keeps_yields [OF yields_read_attempt]

lemma keeps_run_guarded:
  assumes "queues_nothing H R w"
  shows "keeps (waits_in Q) (run_guarded H C du R sig w i req)"
proof -
  have w: "keeps (waits_in Q) (rw_call w req path)" "keeps (waits_in Q) (use_usage H R u)"
    "waits_in Q s \<Longrightarrow> waits_in Q (rw_settle w s)" for path u s
    using assms by (auto simp: queues_nothing_def)
  have returned: "keeps (waits_in Q) (after_return H C du R w i u)" for u
    unfolding after_return_def by (intro keeps_intros keeps_ends w)
  have body: "keeps (waits_in Q) (run_body H C du R sig w i req)"
    unfolding run_body_def
    by (intro keeps_intros keeps_ends w) (auto intro!: keeps_intros keeps_ends returned split: wait_outcome.split)
  show ?thesis unfolding run_guarded_def Let_def
    by (intro keeps_intros keeps_ends body) (auto simp: release_handle_def intro: waits_in_same [OF w(3)] split: option.split)
qed

lemma wp_claim_attempt:
  assumes "waits_in Q s"
  shows "wp (claim_attempt H i token now ttl) (\<lambda>b t. wa_id b = i \<and> i \<in> Q \<and> waits_in (Q - {i}) t) (waits_in Q) s"
proof (rule wpI)
  fix b t assume run: "claim_attempt H i token now ttl s = (Inr b, t)"
  then obtain a where a: "dget (st_attempts s) i = Some a" "wa_status a = WS_queued"
    and b: "b = a\<lparr>wa_status := WS_claimed, wa_claim_token := Some token,
              wa_claim_expires_at := Some (utc now + ttl), wa_version := wa_version a + 1\<rparr>"
    and c: "commit_attempt H WE_claimed b s = (Inr (), t)"
    by (rule claim_attempt_Inr)
  have i: "wa_id b = i" "i \<in> Q" using assms a by (auto simp: b waits_in_iff ticket_def)
  obtain j where "t = put_attempt b (s\<lparr>st_journal := j\<rparr>)" using c by (auto simp: commit_attempt_Inr dest!: commit_view)
  moreover from this assms have "attempts_ok t" by (simp add: waits_in_iff attempts_ok_def)
  ultimately have "waits_in (Q - {i}) t" using assms i b by (auto simp: waits_in_iff ticket_def)
  with i show "wa_id b = i \<and> i \<in> Q \<and> waits_in (Q - {i}) t" by simp
next
  fix e t assume "claim_attempt H i token now ttl s = (Inl e, t)"
  then have "same_view s t" by (rule claim_attempt_Inl)
  with assms show "waits_in Q t" by (auto simp: same_view_def intro: waits_in_same)
qed

lemma wp_start_claimed:
  assumes "waits_in Q s"
  shows "wp (start_run H C du R w False i) (\<lambda>_. waits_in Q) (waits_in Q) s"
proof -
  have claimed: "yields (\<lambda>a. ticket Q i a) (waits_in Q) (claimed_attempt i)"
    unfolding claimed_attempt_def
    by (rule yields_bind [OF yields_found]) (auto intro!: yields_intros)
  have "yields (\<lambda>_. True) (waits_in Q) (start_run H C du R w False i)"
    unfolding start_run_def register_handle_def if_False simp_thms
    by (rule yields_bind [OF claimed], rule yields_moved)
      (auto intro!: yields_intros keeps_yields [OF yields_runner_checkpoint] keeps_intros)
  from yieldsD [OF this assms] show ?thesis by (rule wp_mono) auto
qed

lemma keeps_persist_request [keeps_intros]: "keeps (waits_in Q) (persist_provider_request H i req)"
proof (rule keeps_yields [where P = "\<lambda>_. True"])
  show "yields (\<lambda>_. True) (waits_in Q) (persist_provider_request H i req)"
    unfolding persist_provider_request_def
  proof (rule yields_bind [OF yields_found], rule yields_case_option, goal_cases)
    case (2 found a)
    then have "ticket Q i (a\<lparr>wa_provider_request := Some req, wa_version := wa_version a + 1\<rparr>)"
      by (simp add: ticket_def)
    then show ?case
      by (auto simp: Let_def intro!: yields_intros yields_keeps keeps_intros keeps_store_attempt split: option.split)
  qed (rule yields_raise)
qed

lemma waits_in_mono: "waits_in A s \<Longrightarrow> A \<subseteq> B \<Longrightarrow> waits_in B s"
  by (auto simp: waits_in_def)

lemma wp_run_claimed:
  assumes "waits_in Q s" and w: "queues_nothing H R w"
  shows "wp (run_attempt H C du R sig w False i req) (\<lambda>_. waits_in Q) (waits_in Q) s"
proof -
  have start: "keeps (waits_in Q) (start_run H C du R w False i)"
    using wp_start_claimed by (auto intro!: keeps_yields [where P = "\<lambda>_. True"] simp: yields_def)
  have "keeps (waits_in Q) (run_attempt H C du R sig w False i req)"
    unfolding run_attempt_def
    by (intro keeps_intros start keeps_run_guarded [OF w]) simp
  from wp_keeps [OF this assms(1)] show ?thesis .
qed

definition idle :: "supervisor \<Rightarrow> runtime \<Rightarrow> bool" where
  "idle S s \<longleftrightarrow> (\<forall>a \<in> set (queued_attempts s). request_for (sv_requests S) a s = None)"

text \<open>\<open>fewer n Q t\<close>: at least \<open>n\<close> attempts of \<open>Q\<close> have left the queue.\<close>

definition fewer :: "nat \<Rightarrow> string set \<Rightarrow> runtime \<Rightarrow> bool" where
  "fewer n Q t \<longleftrightarrow> (\<exists>P \<subseteq> Q. waits_in P t \<and> card P + n \<le> card Q)"

lemma fewer_one:
  assumes "finite Q" and "i \<in> Q" and "waits_in (Q - {i}) t"
  shows "fewer 1 Q t"
proof -
  have "card (Q - {i}) + 1 \<le> card Q" using assms(1,2) card_Diff1_less [of Q i] by linarith
  then show ?thesis using assms(3) unfolding fewer_def by (intro exI [of _ "Q - {i}"]) auto
qed

lemma fewer_trans:
  assumes "P \<subseteq> Q" and "card P + m \<le> card Q" and "fewer n P t"
  shows "fewer (m + n) Q t"
proof -
  obtain R where "R \<subseteq> P" "waits_in R t" "card R + n \<le> card P" using assms(3) by (auto simp: fewer_def)
  then show ?thesis using assms(1,2) unfolding fewer_def by (intro exI [of _ R]) auto
qed

lemma wp_run_once:
  assumes s: "waits_in Q s" and fin: "finite Q" and w: "queues_nothing H (sv_runner S) w"
  shows "wp (run_once H C du S sig w)
    (\<lambda>r t. case r of None \<Rightarrow> t = s \<and> idle S t | Some _ \<Rightarrow> fewer 1 Q t) (\<lambda>_. True) s"
proof (cases "List.find (\<lambda>a. request_for (sv_requests S) a s \<noteq> None) (queued_attempts s)")
  case None
  then have "idle S s" by (auto simp: idle_def find_None_iff)
  then show ?thesis
    unfolding run_once_def wp_bind [of "get _"] wp_get None option.case by (simp add: wp_simps del: run_eqs)
next
  case (Some q)
  show ?thesis
    unfolding run_once_def wp_bind [of "get _"] wp_get Some option.case wp_bind [of "claim_attempt _ _ _ _ _"]
  proof (rule wp_mono [OF wp_claim_attempt [OF s]])
    fix b :: worker_attempt and t :: runtime assume b: "wa_id b = wa_id q \<and> wa_id q \<in> Q \<and> waits_in (Q - {wa_id q}) t"
    have "wp (run_attempt H C du (sv_runner S) sig w False (wa_id b) req) (\<lambda>_. fewer 1 Q) (\<lambda>_. True) t" for req
      using b by (intro wp_mono [OF wp_run_claimed [OF _ w]]) (auto intro: fewer_one [OF fin, simplified])
    then show "wp (case request_for (sv_requests S) b t of
        None \<Rightarrow> raise_exn (RuntimeError ''assertion failed'')
      | Some req \<Rightarrow> bind (run_attempt H C du (sv_runner S) sig w False (wa_id b) req) (\<lambda>a. ret (Some a)))
      (\<lambda>r t. case r of None \<Rightarrow> t = s \<and> idle S t | Some _ \<Rightarrow> fewer 1 Q t) (\<lambda>_. True) t"
      by (simp add: wp_simps split: option.split del: run_eqs)
  qed simp
qed

lemma wp_run_batch:
  assumes "waits_in Q s" and "finite Q" and "\<forall>w \<in> set ws. queues_nothing H (sv_runner S) w"
  shows "wp (run_batch H C du S sig ws)
    (\<lambda>rs t. fewer (length rs) Q t \<and> (rs = [] \<longrightarrow> t = s \<and> (ws \<noteq> [] \<longrightarrow> idle S t))) (\<lambda>_. True) s"
  using assms
proof (induction ws arbitrary: s Q)
  case Nil
  then show ?case unfolding run_batch.simps wp_ret by (auto simp: fewer_def)
next
  case (Cons w ws)
  show ?case
    unfolding run_batch.simps wp_bind [of "run_once _ _ _ _ _ _"]
  proof (rule wp_mono [OF wp_run_once [OF Cons.prems(1,2)]])
    fix r :: "worker_attempt option" and t :: runtime assume r: "case r of None \<Rightarrow> t = s \<and> idle S t | Some _ \<Rightarrow> fewer 1 Q t"
    obtain P where P: "P \<subseteq> Q" "card P + (if r = None then 0 else 1) \<le> card Q" "waits_in P t"
      using r Cons.prems(1) by (cases r) (auto simp: fewer_def)
    then have "finite P" using Cons.prems(2) finite_subset by blast
    from Cons.IH [OF P(3) this] Cons.prems(3)
    have "wp (run_batch H C du S sig ws) (\<lambda>rs u. fewer (length rs) P u \<and> (rs = [] \<longrightarrow> u = t)) (\<lambda>_. True) t"
      by (auto elim: wp_mono)
    then have "wp (run_batch H C du S sig ws) (\<lambda>rs u. fewer ((if r = None then 0 else 1) + length rs) Q u \<and>
        (rs = [] \<longrightarrow> u = t)) (\<lambda>_. True) t"
      by (rule wp_mono) (auto dest: fewer_trans [OF P(1,2)])
    then have "wp (run_batch H C du S sig ws) (\<lambda>rs u. case r of
        None \<Rightarrow> fewer (length rs) Q u \<and> (rs = [] \<longrightarrow> u = s \<and> idle S u) | Some a \<Rightarrow> fewer (length (a # rs)) Q u) (\<lambda>_. True) t"
      by (rule wp_mono) (use r in \<open>auto split: option.splits\<close>)
    then show "wp (bind (run_batch H C du S sig ws) (\<lambda>rs. ret (case r of None \<Rightarrow> rs | Some a \<Rightarrow> a # rs)))
        (\<lambda>rs t. fewer (length rs) Q t \<and> (rs = [] \<longrightarrow> t = s \<and> (w # ws \<noteq> [] \<longrightarrow> idle S t))) (\<lambda>_. True) t"
      by (cases r) (auto simp: wp_simps elim: wp_mono simp del: run_eqs)
  qed (use Cons.prems in auto)
qed

lemma run_until_idle_within:
  assumes "waits_in Q s" and "finite Q" and w: "\<And>b n. queues_nothing H (sv_runner S) (worlds b n)"
    and slots: "0 < sv_max_concurrency S"
  shows "\<exists>r t. run_until_idle H C du S sig worlds b results s = Some (r, t) \<and>
    (\<forall>rs. r = Inr rs \<longrightarrow> idle S t \<and> length rs \<le> length results + card Q)"
  using assms(1,2)
proof (induction "card Q" arbitrary: Q s b results rule: less_induct)
  case less
  let ?m = "run_batch H C du S sig (map (worlds b) [0 ..< sv_max_concurrency S])"
  obtain x t where m: "?m s = (x, t)" by fastforce
  have batch: "wp ?m (\<lambda>rs t. fewer (length rs) Q t \<and> (rs = [] \<longrightarrow> idle S t)) (\<lambda>_. True) s"
    by (rule wp_mono [OF wp_run_batch [OF less.prems]]) (use w slots in auto)
  show ?case
  proof (cases x)
    case (Inl e)
    then show ?thesis using m by (subst run_until_idle.simps) simp
  next
    case (Inr rs)
    then have rs: "fewer (length rs) Q t" "rs = [] \<longrightarrow> idle S t" using wp_Inr [OF batch] m by auto
    show ?thesis
    proof (cases "rs = []")
      case True
      then show ?thesis using m Inr rs by (subst run_until_idle.simps) simp
    next
      case False
      obtain P where P: "P \<subseteq> Q" "waits_in P t" "card P + length rs \<le> card Q" using rs(1) by (auto simp: fewer_def)
      then have "card P < card Q" "finite P" using False less.prems(2) finite_subset by (auto simp: neq_Nil_conv)
      then obtain r u where "run_until_idle H C du S sig worlds (Suc b) (results @ rs) t = Some (r, u)"
        "\<forall>rs'. r = Inr rs' \<longrightarrow> idle S u \<and> length rs' \<le> length (results @ rs) + card P"
        using less.hyps [of P t] P(2) by blast
      then show ?thesis using m Inr False P(3) by (subst run_until_idle.simps) force
    qed
  qed
qed

text \<open>
  C27. Draining the queue ends. Where neither a provider nor what runs beside it queues attempts,
  the supervisor's loop over batches ends whatever the runs do, each queued attempt is run at most
  once, and when no run raised, no attempt is left in the queue that has a request.
\<close>

theorem run_until_idle_drains:
  assumes "attempts_ok s" and "\<And>b n. queues_nothing H (sv_runner S) (worlds b n)" and "0 < sv_max_concurrency S"
  shows "\<exists>r t. run_until_idle H C du S sig worlds 0 [] s = Some (r, t) \<and>
    (\<forall>rs. r = Inr rs \<longrightarrow> length rs \<le> length (queued_attempts s) \<and>
       (\<forall>a \<in> set (queued_attempts t). request_for (sv_requests S) a t = None))"
proof -
  let ?Q = "wa_id ` set (queued_attempts s)"
  have "waits_in ?Q s" using assms(1) by (simp add: waits_in_def)
  moreover have "card ?Q \<le> length (queued_attempts s)"
    using card_image_le [of "set (queued_attempts s)" wa_id] card_length [of "queued_attempts s"] by simp
  ultimately show ?thesis
    using run_until_idle_within [where Q = ?Q and s = s and b = 0 and results = "[]", OF _ _ assms(2,3)] unfolding idle_def by fastforce
qed

text \<open>The loop over one attempt whose provider answers at once.\<close>

definition quick_supervisor :: supervisor where
  "quick_supervisor = \<lparr>sv_requests = [(''a'', quick_request)], sv_max_concurrency = 2, sv_claim_ttl = 60,
     sv_runner = quick_runner\<rparr>"

theorem run_until_idle_drains_witness:
  "\<exists>r t. run_until_idle unit_hashing plain_codec \<lparr>du_used = None, du_free = 9\<rparr> quick_supervisor None
       (\<lambda>_ _. quick_world) 0 [] quick_store = Some (r, t) \<and>
    (\<forall>rs. r = Inr rs \<longrightarrow> length rs \<le> length (queued_attempts quick_store) \<and>
       (\<forall>a \<in> set (queued_attempts t). request_for (sv_requests quick_supervisor) a t = None))"
proof (rule run_until_idle_drains)
  show "attempts_ok quick_store"
    by (simp add: quick_store_def attempts_ok_def new_runtime_def new_app_store_def app_store.defs store.defs view.defs
      new_store_def empty_view_def keyed_def some_attempt_def new_worker_attempt_def)
  show "queues_nothing unit_hashing (sv_runner quick_supervisor) quick_world"
    by (auto simp: queues_nothing_def quick_supervisor_def quick_runner_def quick_world_def use_usage_def intro: keeps_ret)
qed (simp add: quick_supervisor_def)

end
