(* ===== verification/Routing.thy ===== *)
theory Routing
  imports Completion
begin

text \<open>
  The routing pipeline that advises and never executes: \<^verbatim>\<open>routing/boundary.py\<close>, \<^verbatim>\<open>routing/profiler.py\<close>,
  \<^verbatim>\<open>routing/advisory.py\<close>, \<^verbatim>\<open>routing/shadow.py\<close>, \<^verbatim>\<open>routing/service.py\<close> and the advisory handlers of \<^verbatim>\<open>api/app.py\<close>.

  \<open>unicode\<close> holds the two tables of the language that the rules read (\<^verbatim>\<open>str.lower\<close> and the class \<^verbatim>\<open>\w\<close> of
  regular expressions), \<open>price\<close> is the float expression of the estimated cost; the other estimates are
  floats with an exact integer part, written with \<open>div\<close>. Identifiers and the time are arguments. A
  model that fails its validation raises \<^verbatim>\<open>ValidationError\<close>, a \<^verbatim>\<open>ValueError\<close>.
\<close>

record unicode =
  un_lower :: "utext \<Rightarrow> utext"
  un_word :: "nat \<Rightarrow> bool"

definition validated :: "('a \<Rightarrow> bool) \<Rightarrow> 'a \<Rightarrow> 'a res" where
  "validated ok x = (if ok x then Inr x else Inl (ValueError ''invalid''))"

fun collect :: "'a res list \<Rightarrow> 'a list res" where
  "collect [] = Inr []"
| "collect (r # rs) =
     (case r of
        Inl e \<Rightarrow> Inl e
      | Inr x \<Rightarrow> (case collect rs of Inl e \<Rightarrow> Inl e | Inr xs \<Rightarrow> Inr (x # xs)))"

section \<open>The boundary of a request: routing/boundary.py\<close>

definition AMENDMENT_MARKERS :: "utext list" where
  "AMENDMENT_MARKERS =
     [[0x6539], [0x6269, 0x5C55], [0x53D8, 0x66F4], [0x52A0, 0x4E2A], [0x589E, 0x52A0], [0x8865, 0x5145],
      codes ''amendment'', codes ''change the'', codes ''also'', codes ''additionally'', codes ''scope'',
      [0x8303, 0x56F4], [0x8C03, 0x6574]]"

definition CONTINUATION_MARKERS :: "utext list" where
  "CONTINUATION_MARKERS =
     [[0x7EE7, 0x7EED], [0x63A5, 0x7740], codes ''continuation'', codes ''continue'', codes ''keep going'',
      [0x63A5, 0x7740, 0x4E0A, 0x6B21], [0x4E0B, 0x4E00, 0x6B65], codes ''next step'']"

definition CONTROL_MARKERS :: "utext list" where
  "CONTROL_MARKERS =
     [[0x53D6, 0x6D88], [0x6682, 0x505C], [0x6062, 0x590D], codes ''cancel'', codes ''pause'', codes ''resume'',
      [0x505C, 0x6B62], [0x72B6, 0x6001], codes ''status'', [0x67E5, 0x770B], codes ''what'', [0x8FDB, 0x5EA6],
      codes ''progress'']"

definition CLARIFICATION_MARKERS :: "utext list" where
  "CLARIFICATION_MARKERS =
     [codes ''?'', [0xFF1F], [0x662F, 0x4EC0, 0x4E48], [0x5982, 0x4F55], [0x4E3A, 0x4EC0, 0x4E48], codes ''clarif'',
      codes ''explain'', [0x7591, 0x95EE], [0x786E, 0x8BA4]]"

fun request_type_value :: "request_type \<Rightarrow> string" where
  "request_type_value RT_new_task = ''new_task''"
| "request_type_value RT_material_amendment = ''material_amendment''"
| "request_type_value RT_continuation = ''continuation''"
| "request_type_value RT_clarification = ''clarification''"
| "request_type_value RT_control = ''control''"

definition marker_score :: "utext \<Rightarrow> utext list \<Rightarrow> nat" where
  "marker_score t markers = length (filter (\<lambda>m. sublist m t) markers)"

definition boundary_scores :: "utext \<Rightarrow> (request_type \<times> nat) list" where
  "boundary_scores t =
     [(RT_material_amendment, marker_score t AMENDMENT_MARKERS),
      (RT_continuation, marker_score t CONTINUATION_MARKERS),
      (RT_clarification, marker_score t CLARIFICATION_MARKERS),
      (RT_control, marker_score t CONTROL_MARKERS)]"

text \<open>\<^verbatim>\<open>max\<close> with a key: the first of the greatest.\<close>

fun first_max :: "('a \<times> nat) \<Rightarrow> ('a \<times> nat) list \<Rightarrow> 'a \<times> nat" where
  "first_max b [] = b"
| "first_max b (x # xs) = first_max (if snd b < snd x then x else b) xs"

definition boundary_confidence :: "nat \<Rightarrow> rat" where
  "boundary_confidence n = min 1 (2 / 5 + 3 / 20 * of_nat n)"

definition boundary_of :: "request_type \<Rightarrow> rat \<Rightarrow> boundary_method \<Rightarrow> string \<Rightarrow> request_boundary_decision" where
  "boundary_of t c m r = \<lparr>bd_request_type = t, bd_confidence = c, bd_method = m, bd_rationale = r\<rparr>"

definition classify_boundary :: "unicode \<Rightarrow> routing_request_envelope \<Rightarrow> request_boundary_decision" where
  "classify_boundary U e =
     (case re_host_declared_request_type e of
        Some declared \<Rightarrow>
          boundary_of declared 1 BM_host_declared (''host declared request type '' @ request_type_value declared)
      | None \<Rightarrow>
          let t = un_lower U (re_user_text e);
              scores = boundary_scores t;
              (best, n) = first_max (hd scores) (tl scores)
          in if 0 < n
             then boundary_of best (boundary_confidence n) BM_rule_based
                    (''matched '' @ int_text (int n) @ '' marker(s) for '' @ request_type_value best)
             else if list_ex (\<lambda>c. 0x4e00 \<le> c \<and> c \<le> 0x9fff \<or> un_word U c) t
             then boundary_of RT_new_task (1 / 2) BM_rule_based
                    ''no marker matched; conservative new_task fallback with low confidence''
             else boundary_of RT_new_task (3 / 10) BM_rule_based
                    ''empty or unparseable input; host should provide request_type'')"

section \<open>The profiler: routing/profiler.py\<close>

fun classification_value :: "data_classification \<Rightarrow> string" where
  "classification_value DC_public = ''public''"
| "classification_value DC_internal = ''internal''"
| "classification_value DC_confidential = ''confidential''"
| "classification_value DC_restricted = ''restricted''"

fun comma_join :: "string list \<Rightarrow> string" where
  "comma_join [] = []"
| "comma_join [x] = x"
| "comma_join (x # y # zs) = x @ '', '' @ comma_join (y # zs)"

definition requirement_nodes :: "routing_request_envelope \<Rightarrow> requirement_node list" where
  "requirement_nodes e =
     \<lparr>rn_id = ''req_goal'', rn_description = codes ''goal: '' @ re_user_text e, rn_required = True,
      rn_verification_required = True\<rparr> #
     (case re_resource_summary e of
        None \<Rightarrow> []
      | Some r \<Rightarrow>
          if rs_referenced_paths r = [] then []
          else [\<lparr>rn_id = ''req_resources'', rn_description = codes ''modify only the referenced resource summary'',
                 rn_required = True, rn_verification_required = False\<rparr>])"

definition requirement_constraints :: "routing_request_envelope \<Rightarrow> requirement_constraint list" where
  "requirement_constraints e =
     \<lparr>rc_id = ''cstr_data_classification'',
      rc_description = ''data classification: '' @ classification_value (re_data_classification e), rc_kind = CK_data\<rparr> #
     (if rq_read_scope (re_permissions e) = [] then []
      else [\<lparr>rc_id = ''cstr_read_scope'',
             rc_description = ''read scope is limited to: '' @ comma_join (take 20 (rq_read_scope (re_permissions e))),
             rc_kind = CK_scope\<rparr>]) @
     (if rq_available_tools (re_permissions e) = [] then []
      else [\<lparr>rc_id = ''cstr_tools'',
             rc_description = ''available tools: '' @ comma_join (take 20 (rq_available_tools (re_permissions e))),
             rc_kind = CK_tool\<rparr>])"

definition evidence_gaps_of :: "routing_request_envelope \<Rightarrow> evidence_gap list" where
  "evidence_gaps_of e =
     (if re_user_text e = [] then [\<lparr>gp_id = ''gap_user_text'', gp_description = ''user text is empty''\<rparr>] else []) @
     (case re_resource_summary e of
        None \<Rightarrow> [\<lparr>gp_id = ''gap_resource_summary'',
                  gp_description = ''no resource summary; region independence cannot be verified''\<rparr>]
      | Some r \<Rightarrow>
          if rs_referenced_paths r = [] \<and> rs_referenced_symbols r = []
          then [\<lparr>gp_id = ''gap_regions'', gp_description =
                   ''resource summary lists no paths or symbols; write regions cannot be proven independent''\<rparr>]
          else [])"

definition profile :: "string \<Rightarrow> string \<Rightarrow> time \<Rightarrow> routing_request_envelope \<Rightarrow> requirement_graph res" where
  "profile graph_id version now e =
     (case collect (map (validated wf_requirement_node) (requirement_nodes e)) of
        Inl x \<Rightarrow> Inl x
      | Inr rs \<Rightarrow>
     (case collect (map (validated wf_requirement_constraint) (requirement_constraints e)) of
        Inl x \<Rightarrow> Inl x
      | Inr cs \<Rightarrow>
          Inr \<lparr>rg_id = graph_id, rg_requirements = rs, rg_constraints = cs, rg_evidence_gaps = evidence_gaps_of e,
               rg_profiler_version = version, rg_created_at = now\<rparr>))"

section \<open>The advice: routing/advisory.py\<close>

definition max_workers :: nat where
  "max_workers = 5"

type_synonym pricing = "int \<Rightarrow> int \<Rightarrow> pyfloat"

definition estimate :: "pricing \<Rightarrow> nat \<Rightarrow> nat \<Rightarrow> int \<times> int \<times> pyfloat \<times> int" where
  "estimate price len workers =
     (let input_tokens = int len div 4 + 100;
          output_tokens = input_tokens div 2
      in (input_tokens, output_tokens, price input_tokens output_tokens,
          input_tokens div 50 * int (max 1 workers)))"

definition candidate_of ::
    "pricing \<Rightarrow> string \<Rightarrow> nat \<Rightarrow> string \<Rightarrow> candidate_mode \<Rightarrow> nat \<Rightarrow> string list \<Rightarrow> rat \<Rightarrow> string \<Rightarrow> routing_candidate" where
  "candidate_of price version len i mode workers codes' confidence rationale =
     (case estimate price len workers of (input_tokens, output_tokens, cost, latency) \<Rightarrow>
        \<lparr>rk_id = i, rk_mode = mode, rk_worker_count = int workers, rk_rejection_codes = codes',
         rk_estimated_input_tokens = Some input_tokens, rk_estimated_output_tokens = Some output_tokens,
         rk_estimated_cost_usd = Some cost, rk_estimated_latency_ms = Some latency,
         rk_confidence = confidence, rk_rationale = rationale, rk_basis_version = version\<rparr>)"

definition direct_candidate :: "pricing \<Rightarrow> string \<Rightarrow> string \<Rightarrow> nat \<Rightarrow> routing_candidate" where
  "direct_candidate price version i len =
     candidate_of price version len i CM_direct 0 [] (9 / 10)
       ''host controller executes directly with zero workers; this is the always-available baseline''"

definition worker_slots :: "routing_request_envelope \<Rightarrow> nat" where
  "worker_slots e = min (length (rq_requested_write_regions (re_permissions e))) max_workers"

definition worker_rejections :: "routing_request_envelope \<Rightarrow> request_boundary_decision \<Rightarrow> string list" where
  "worker_rejections e d =
     (let regions = rq_requested_write_regions (re_permissions e) in
      (if bd_request_type d = RT_material_amendment \<and> regions \<noteq> []
       then [''amendments touch existing ownership and must not be delegated without a re-plan''] else []) @
      (if regions = [] then [''no declared write regions means we cannot prove any delegation is safe'']
       else if max_workers < length regions
       then [''more than '' @ int_text (int max_workers) @ '' write regions exceed the worker cap''] else []) @
      (if (case re_resource_summary e of
             None \<Rightarrow> True
           | Some r \<Rightarrow> rs_referenced_paths r = [] \<and> rs_referenced_symbols r = [])
       then [''no resource summary means region independence cannot be proven; fail closed''] else []) @
      (if worker_slots e = 0 then [''no workers are safely schedulable from this envelope''] else []))"

definition worker_candidate ::
    "pricing \<Rightarrow> string \<Rightarrow> string \<Rightarrow> routing_request_envelope \<Rightarrow> request_boundary_decision \<Rightarrow> routing_candidate" where
  "worker_candidate price version i e d =
     (let rejected = worker_rejections e d; len = length (re_user_text e); n = worker_slots e in
      if rejected \<noteq> []
      then candidate_of price version len i CM_workers 0 rejected (1 / 5)
             ''worker delegation rejected by conservative advisory rules; see rejection_codes''
      else candidate_of price version len i CM_workers n [] (4 / 5)
             (int_text (int n) @ '' write region(s) declared with a resource summary; conservative advisory split''))"

definition first_occurrences :: "'a list \<Rightarrow> 'a list" where
  "first_occurrences xs = rev (remdups (rev xs))"

text \<open>The identifiers of one answer.\<close>

record routing_ids =
  ri_graph :: string
  ri_advice :: string
  ri_direct :: string
  ri_worker :: string

definition advise ::
    "pricing \<Rightarrow> string \<Rightarrow> routing_ids \<Rightarrow> time \<Rightarrow> routing_request_envelope \<Rightarrow> request_boundary_decision \<Rightarrow>
     requirement_graph \<Rightarrow> routing_advice" where
  "advise price version ids now e d g =
     (let refused = bd_request_type d \<in> {RT_control, RT_clarification};
          reasons = (if refused
                     then [request_type_value (bd_request_type d) @ '' requests are not candidate work for delegation'']
                     else []);
          direct = direct_candidate price version (ri_direct ids) (length (re_user_text e));
          worker = worker_candidate price version (ri_worker ids) e d;
          asked = \<not> refused \<and> rg_requirements g \<noteq> [];
          codes' = (if asked then rk_rejection_codes worker else [])
      in \<lparr>ra_id = ri_advice ids, ra_envelope_id = re_id e, ra_boundary_decision = d, ra_requirement_graph = g,
          ra_candidates = direct # (if asked \<and> codes' = [] then [worker] else []),
          ra_rejected = (refused \<or> codes' \<noteq> []),
          ra_rejection_reasons = first_occurrences (reasons @ codes'), ra_created_at = now\<rparr>)"

section \<open>Shadow records and the service: routing/shadow.py, routing/service.py\<close>

record routing_service =
  rv_unicode :: unicode
  rv_price :: pricing
  rv_profiler_version :: string
  rv_advisory_version :: string

definition analyze ::
    "routing_service \<Rightarrow> routing_ids \<Rightarrow> time \<Rightarrow> routing_request_envelope \<Rightarrow>
     (routing_advice \<times> request_boundary_decision) res" where
  "analyze R ids now e =
     (let d = classify_boundary (rv_unicode R) e in
      case profile (ri_graph ids) (rv_profiler_version R) now e of
        Inl x \<Rightarrow> Inl x
      | Inr g \<Rightarrow> Inr (advise (rv_price R) (rv_advisory_version R) ids now e d g, d))"

definition record_shadow ::
    "event hashing \<Rightarrow> string \<Rightarrow> string \<Rightarrow> time \<Rightarrow> routing_advice \<Rightarrow> idem \<Rightarrow> ('r store_scheme, shadow_record) prog" where
  "record_shadow H i envelope_hash now advice key =
     (let r = \<lparr>sr_id = i, sr_envelope_hash = envelope_hash, sr_advice = advice, sr_status = SH_proposed,
               sr_real_outcome_ref = None, sr_created_at = now\<rparr>
      in andthen (modify (put_shadow r)) (andthen (commit H (ShadowRecorded r) key) (ret r)))"

definition mark_compared ::
    "event hashing \<Rightarrow> string \<Rightarrow> string \<Rightarrow> ('r store_scheme, shadow_record) prog" where
  "mark_compared H record_id outcome_ref =
     bind (get (\<lambda>s. dget (st_shadow_records s) record_id)) (\<lambda>found.
     case found of
       None \<Rightarrow> raise_exn KeyError
     | Some r \<Rightarrow>
         let u = r\<lparr>sr_status := SH_compared, sr_real_outcome_ref := Some outcome_ref\<rparr>
         in andthen (modify (st_shadow_records_update (dput record_id u)))
           (andthen (commit H (ShadowCompared u record_id outcome_ref) None) (ret u)))"

definition list_shadow :: "'r view_scheme \<Rightarrow> shadow_record list" where
  "list_shadow s = dvalues (st_shadow_records s)"

definition analyze_and_shadow ::
    "event hashing \<Rightarrow> routing_service \<Rightarrow> routing_ids \<Rightarrow> string \<Rightarrow> string \<Rightarrow> time \<Rightarrow> routing_request_envelope \<Rightarrow> idem \<Rightarrow>
     ('r store_scheme, (routing_advice \<times> shadow_record) answer) prog" where
  "analyze_and_shadow H R ids shadow_id envelope_hash now e key =
     bind (get (check_idempotency key)) (\<lambda>checked.
     bind (lift checked) (\<lambda>old.
     case old of
       Some r \<Rightarrow> ret (Replayed r)
     | None \<Rightarrow>
       bind (lift (analyze R ids now e)) (\<lambda>(advice, _).
       bind (record_shadow H shadow_id envelope_hash now advice key) (\<lambda>r. ret (Answered (advice, r))))))"

text \<open>The handlers of \<^verbatim>\<open>api/app.py\<close>; \<open>record_it\<close> is the field \<^verbatim>\<open>record_shadow\<close> of the request.\<close>

definition advisory ::
    "event hashing \<Rightarrow> routing_service \<Rightarrow> routing_ids \<Rightarrow> string \<Rightarrow> string \<Rightarrow> time \<Rightarrow> bool \<Rightarrow> routing_request_envelope \<Rightarrow> idem \<Rightarrow>
     ('r store_scheme, (routing_advice \<times> shadow_record option) answer) prog" where
  "advisory H R ids shadow_id envelope_hash now record_it e key =
     (if record_it
      then bind (analyze_and_shadow H R ids shadow_id envelope_hash now e key) (\<lambda>a.
           ret (case a of Replayed r \<Rightarrow> Replayed r | Answered (advice, r) \<Rightarrow> Answered (advice, Some r)))
      else bind (lift (analyze R ids now e)) (\<lambda>(advice, _). ret (Answered (advice, None))))"

definition get_shadow :: "string \<Rightarrow> 'r view_scheme \<Rightarrow> shadow_record res" where
  "get_shadow record_id s =
     (case List.find (\<lambda>r. sr_id r = record_id) (list_shadow s) of
        None \<Rightarrow> Inl (DomainError ''not_found'' 404)
      | Some r \<Rightarrow> Inr r)"

section \<open>What the advice promises\<close>

lemma first_max_in: "first_max b xs \<in> insert b (set xs)"
  by (induction xs arbitrary: b) auto

lemma first_max_greatest: "x \<in> insert b (set xs) \<Longrightarrow> snd x \<le> snd (first_max b xs)"
proof (induction xs arbitrary: b x)
  case (Cons y ys)
  let ?b = "if snd b < snd y then y else b"
  have "snd z \<le> snd (first_max ?b ys)" if "z = ?b \<or> z \<in> set ys" for z using that Cons.IH [of z ?b] by auto
  from this [of x] this [of ?b] Cons.prems show ?case by (auto split: if_splits)
qed auto

lemma marker_score_le: "marker_score t ms \<le> length ms"
  by (simp add: marker_score_def)

lemma boundary_score_le: "first_max (hd (boundary_scores t)) (tl (boundary_scores t)) = (k, n) \<Longrightarrow> n \<le> 13"
  using first_max_in [of "hd (boundary_scores t)" "tl (boundary_scores t)"]
    marker_score_le [of t AMENDMENT_MARKERS] marker_score_le [of t CONTINUATION_MARKERS]
    marker_score_le [of t CLARIFICATION_MARKERS] marker_score_le [of t CONTROL_MARKERS]
  by (auto simp: boundary_scores_def AMENDMENT_MARKERS_def CONTINUATION_MARKERS_def CLARIFICATION_MARKERS_def CONTROL_MARKERS_def)

lemma decimal_nonempty: "decimal n \<noteq> []"
  by (subst decimal.simps) simp

lemma decimal_short: "n < 100 \<Longrightarrow> length (decimal n) \<le> 2"
  by (subst decimal.simps) (auto simp: decimal.simps [of "n div 10"])

lemma int_text_short: "n \<le> 13 \<Longrightarrow> length (int_text (int n)) \<le> 2"
  by (simp add: int_text_def decimal_short)

lemma int_text_nonempty: "int_text n \<noteq> []"
  by (simp add: int_text_def decimal_nonempty)

lemma wf_classify_boundary: "wf_request_boundary_decision (classify_boundary U e)"
proof -
  have type: "length (request_type_value t) \<le> 1000" for t by (cases t) simp_all
  have conf: "0 \<le> boundary_confidence n" "boundary_confidence n \<le> 1" for n
    by (simp_all add: boundary_confidence_def)
  have "length (int_text (int n)) + length (request_type_value t) \<le> 1977" if "length (int_text (int n)) \<le> 2" for n t
    using that type [of t] by linarith
  moreover have "length (request_type_value t) \<le> 1973" for t using type [of t] by linarith
  ultimately show ?thesis
    using conf
    by (auto simp: classify_boundary_def wf_request_boundary_decision_def boundary_of_def Let_def
        split: option.split prod.split dest!: boundary_score_le int_text_short)
qed

definition delegable :: "routing_request_envelope \<Rightarrow> request_type \<Rightarrow> bool" where
  "delegable e t \<longleftrightarrow>
     t \<notin> {RT_control, RT_clarification, RT_material_amendment} \<and>
     rq_requested_write_regions (re_permissions e) \<noteq> [] \<and>
     length (rq_requested_write_regions (re_permissions e)) \<le> 5 \<and>
     (\<exists>r. re_resource_summary e = Some r \<and> (rs_referenced_paths r \<noteq> [] \<or> rs_referenced_symbols r \<noteq> []))"

lemma worker_rejections_none:
  "worker_rejections e d = [] \<and> bd_request_type d \<notin> {RT_control, RT_clarification} \<longleftrightarrow> delegable e (bd_request_type d)"
  by (auto simp: worker_rejections_def delegable_def worker_slots_def max_workers_def Let_def split: option.splits)

definition candidate_summary :: "routing_candidate \<Rightarrow> candidate_mode \<times> int" where
  "candidate_summary c = (rk_mode c, rk_worker_count c)"

lemma collect_validated:
  "collect (map (validated ok) xs) = (if list_all ok xs then Inr xs else Inl (ValueError ''invalid''))"
  by (induction xs) (auto simp: validated_def)

lemma profile_cases:
  "profile i v now e =
     (if list_all wf_requirement_node (requirement_nodes e) \<and> list_all wf_requirement_constraint (requirement_constraints e)
      then Inr \<lparr>rg_id = i, rg_requirements = requirement_nodes e, rg_constraints = requirement_constraints e,
                rg_evidence_gaps = evidence_gaps_of e, rg_profiler_version = v, rg_created_at = now\<rparr>
      else Inl (ValueError ''invalid''))"
  by (simp add: profile_def collect_validated)

lemma profile_has_goal: "profile i v now e = Inr g \<Longrightarrow> rg_requirements g \<noteq> []"
  by (auto simp: profile_cases requirement_nodes_def split: if_splits)

lemma analyze_Inr:
  assumes "analyze R ids now e = Inr (a, d)"
  obtains g where "profile (ri_graph ids) (rv_profiler_version R) now e = Inr g"
    and "a = advise (rv_price R) (rv_advisory_version R) ids now e (classify_boundary (rv_unicode R) e) g"
    and "d = classify_boundary (rv_unicode R) e"
proof (cases "profile (ri_graph ids) (rv_profiler_version R) now e")
  case (Inl x)
  with assms show ?thesis unfolding analyze_def Let_def Inl sum.case by blast
next
  case (Inr g)
  from assms have "advise (rv_price R) (rv_advisory_version R) ids now e (classify_boundary (rv_unicode R) e) g = a"
    and "classify_boundary (rv_unicode R) e = d"
    unfolding analyze_def Let_def Inr sum.case sum.inject prod.inject by blast+
  with that [OF Inr] show ?thesis by blast
qed

text \<open>
  Delegation is advised exactly when it can be justified. The direct candidate with no worker is
  always offered first. A second candidate is offered, with one worker for each write region, if and
  only if the request is not a control, clarification or amendment request, names between one and
  five write regions and comes with a resource summary that lists paths or symbols; otherwise the
  advice is marked rejected and gives a reason.
\<close>

theorem advice_is_conservative:
  assumes "analyze R ids now e = Inr (a, d)"
  shows "d = classify_boundary (rv_unicode R) e \<and>
    map candidate_summary (ra_candidates a) =
      (CM_direct, 0) # (if delegable e (bd_request_type d)
                        then [(CM_workers, int (length (rq_requested_write_regions (re_permissions e))))] else []) \<and>
    ra_rejected a = (\<not> delegable e (bd_request_type d)) \<and>
    (ra_rejected a \<longleftrightarrow> ra_rejection_reasons a \<noteq> [])"
proof -
  obtain g where g: "profile (ri_graph ids) (rv_profiler_version R) now e = Inr g"
    and "a = advise (rv_price R) (rv_advisory_version R) ids now e (classify_boundary (rv_unicode R) e) g"
    and d: "d = classify_boundary (rv_unicode R) e"
    by (rule analyze_Inr [OF assms])
  then have a: "a = advise (rv_price R) (rv_advisory_version R) ids now e d g" by (simp only:)
  have goal: "rg_requirements g \<noteq> []" by (rule profile_has_goal [OF g])
  have slots: "worker_slots e = length (rq_requested_write_regions (re_permissions e))" if "delegable e (bd_request_type d)"
    using that by (simp add: worker_slots_def max_workers_def delegable_def)
  have codes: "rk_rejection_codes (worker_candidate p v i e d) = worker_rejections e d" for p v i
    by (simp add: worker_candidate_def candidate_of_def Let_def split: prod.split)
  have worker: "candidate_summary (worker_candidate p v i e d) = (CM_workers, int (worker_slots e))"
    if "worker_rejections e d = []" for p v i
    using that by (simp add: worker_candidate_def candidate_of_def candidate_summary_def Let_def split: prod.split)
  have direct: "candidate_summary (direct_candidate p v i n) = (CM_direct, 0)" for p v i n
    by (simp add: direct_candidate_def candidate_of_def candidate_summary_def split: prod.split)
  let ?reject = "worker_rejections e d"
  have none: "delegable e (bd_request_type d) \<longleftrightarrow> ?reject = [] \<and> bd_request_type d \<notin> {RT_control, RT_clarification}"
    by (rule worker_rejections_none [symmetric])
  have cands: "map candidate_summary (ra_candidates a) = (CM_direct, 0) #
      (if delegable e (bd_request_type d) then [(CM_workers, int (worker_slots e))] else [])"
    unfolding a none advise_def Let_def codes by (cases "?reject = []") (simp_all add: worker direct goal)
  have rejected: "ra_rejected a = (\<not> delegable e (bd_request_type d))"
    unfolding a none advise_def Let_def codes by (simp add: goal)
  have "ra_rejected a \<longleftrightarrow> ra_rejection_reasons a \<noteq> []"
    unfolding a advise_def Let_def codes by (simp add: goal first_occurrences_def)
  with cands rejected slots d show ?thesis by simp
qed

text \<open>The texts the profiler copies fit their fields.\<close>

definition texts_fit :: "routing_request_envelope \<Rightarrow> bool" where
  "texts_fit e \<longleftrightarrow>
     length (re_user_text e) \<le> 3994 \<and>
     length (comma_join (take 20 (rq_read_scope (re_permissions e)))) \<le> 3974 \<and>
     length (comma_join (take 20 (rq_available_tools (re_permissions e)))) \<le> 3983"

lemma nodes_fit: "list_all wf_requirement_node (requirement_nodes e) \<longleftrightarrow> length (re_user_text e) \<le> 3994"
  by (auto simp: requirement_nodes_def wf_requirement_node_def codes_def len_within_def split: option.split)

lemma constraints_fit:
  "list_all wf_requirement_constraint (requirement_constraints e) \<longleftrightarrow>
     length (comma_join (take 20 (rq_read_scope (re_permissions e)))) \<le> 3974 \<and>
     length (comma_join (take 20 (rq_available_tools (re_permissions e)))) \<le> 3983"
  by (cases "re_data_classification e")
    (auto simp: requirement_constraints_def wf_requirement_constraint_def len_within_def)

lemma wf_profile:
  assumes "profile i v now e = Inr g" and "len_within 1 200 i"
  shows "wf_requirement_graph g"
proof -
  have "length (requirement_nodes e) \<le> 200" "length (requirement_constraints e) \<le> 200"
    by (auto simp: requirement_nodes_def requirement_constraints_def split: option.split)
  moreover have "length (evidence_gaps_of e) \<le> 200"
    "list_all (\<lambda>p. len_within 1 200 (gp_id p) \<and> len_within 1 4000 (gp_description p)) (evidence_gaps_of e)"
    by (auto simp: evidence_gaps_of_def len_within_def split: option.split)
  ultimately show ?thesis using assms by (auto simp: profile_cases wf_requirement_graph_def split: if_splits)
qed

lemma estimate_nonneg:
  "estimate price len n = (a, b, c, d) \<Longrightarrow> 0 \<le> a \<and> 0 \<le> b \<and> 0 \<le> d"
  by (auto simp: estimate_def Let_def)

lemma wf_candidate_of:
  assumes "len_within 1 200 i" and "len_within 1 100 version" and "n \<le> 5" and "length xs \<le> 20"
    and "0 \<le> confidence \<and> confidence \<le> 1" and "len_within 1 4000 rationale"
  shows "wf_routing_candidate (candidate_of price version len i mode n xs confidence rationale)"
  using assms estimate_nonneg [of price len n]
  by (auto simp: candidate_of_def wf_routing_candidate_def split: prod.split)

lemma wf_direct: "len_within 1 200 i \<Longrightarrow> len_within 1 100 version \<Longrightarrow> wf_routing_candidate (direct_candidate price version i len)"
  unfolding direct_candidate_def by (rule wf_candidate_of) (simp_all add: len_within_def)

lemma wf_worker:
  assumes "len_within 1 200 i" and "len_within 1 100 version"
  shows "wf_routing_candidate (worker_candidate price version i e d)"
proof -
  have "length (worker_rejections e d) \<le> 20" by (simp add: worker_rejections_def Let_def)
  moreover have "worker_slots e \<le> 5" by (simp add: worker_slots_def max_workers_def)
  moreover from this have "length (int_text (int (worker_slots e))) \<le> 2" by (intro int_text_short) simp
  ultimately show ?thesis
    using assms unfolding worker_candidate_def Let_def
    by (auto intro!: wf_candidate_of simp: len_within_def)
qed


section \<open>Shadow records\<close>

lemma record_shadow_Inr:
  "record_shadow H i h now a key s = (Inr r, t) \<longleftrightarrow>
     r = \<lparr>sr_id = i, sr_envelope_hash = h, sr_advice = a, sr_status = SH_proposed, sr_real_outcome_ref = None,
          sr_created_at = now\<rparr> \<and> commit H (ShadowRecorded r) key (put_shadow r s) = (Inr (), t)"
  by (auto simp: record_shadow_def Let_def prog_simps)

text \<open>
  A recorded advice is durable and grants nothing. When an analysis is recorded, the record holds
  the advice of the analysis, the store differs from the store before in the shadow records and
  the journal only, and the next process lists the record; until it is compared with an outcome its
  status is proposed.
\<close>

theorem shadow_record_is_durable:
  fixes s :: "'r store_scheme"
  assumes inv: "consistent H s"
    and run: "analyze_and_shadow H R ids i h now e key s = (Inr (Answered (a, r)), t)"
  shows "(\<exists>d. analyze R ids now e = Inr (a, d)) \<and> sr_advice r = a \<and> sr_status r = SH_proposed \<and> sr_id r = i \<and>
    (\<exists>j. t = (put_shadow r s)\<lparr>st_journal := j\<rparr>) \<and>
    (\<exists>u. restart H m f io t = Inr u \<and> r \<in> set (list_shadow u))"
proof -
  from run obtain d where d: "analyze R ids now e = Inr (a, d)" and rec: "record_shadow H i h now a key s = (Inr r, t)"
    by (auto simp: analyze_and_shadow_def prog_simps split: option.splits)
  then have c: "commit H (ShadowRecorded r) key (put_shadow r s) = (Inr (), t)"
    and r: "sr_advice r = a" "sr_status r = SH_proposed" "sr_id r = i" by (auto simp: record_shadow_Inr)
  have "apply_event (ShadowRecorded r) s = Inr (put_shadow r s)" by simp
  from consistent_update_commit [OF inv this c] have "consistent H t" .
  then obtain u where u: "restart H m f io t = Inr u" "recorded u = recorded t" using restart_same by blast
  obtain j where t: "t = (put_shadow r s)\<lparr>st_journal := j\<rparr>" using commit_view [OF c] by blast
  have "st_shadow_records u = st_shadow_records t"
    using arg_cong [OF u(2), of st_shadow_records] by simp
  then have "dget (st_shadow_records u) i = Some r" by (simp add: t put_shadow_def r)
  then have "r \<in> set (list_shadow u)" unfolding list_shadow_def by (rule dget_value)
  with d r t u(1) show ?thesis by blast
qed

section \<open>A request for two workers\<close>

definition split_request :: routing_request_envelope where
  "split_request = \<lparr>re_id = ''env'', re_tenant_id = ''t'', re_host_session_id = ''h'', re_host_declared_request_type = None,
     re_user_text = codes ''build it'', re_permissions = \<lparr>rq_read_scope = [''src''], rq_available_tools = [],
       rq_requested_write_regions = [[], []]\<rparr>,
     re_resource_summary = Some \<lparr>rs_canonical_uri = ''u'', rs_base_revision = ''r'', rs_referenced_paths = [''a''],
       rs_referenced_symbols = []\<rparr>,
     re_data_classification = DC_internal, re_created_at = 0\<rparr>"

definition sample_routing :: routing_service where
  "sample_routing = \<lparr>rv_unicode = \<lparr>un_lower = id, un_word = (\<lambda>c. 97 \<le> c \<and> c \<le> 122)\<rparr>, rv_price = (\<lambda>_ _. Fin 0),
     rv_profiler_version = ''0.0.2'', rv_advisory_version = ''0.0.2''\<rparr>"

definition sample_ids :: routing_ids where
  "sample_ids = \<lparr>ri_graph = ''rg'', ri_advice = ''adv'', ri_direct = ''d'', ri_worker = ''w''\<rparr>"

lemma split_request_fits: "texts_fit split_request" "wf_routing_request_envelope split_request"
  by (simp_all add: texts_fit_def wf_routing_request_envelope_def split_request_def codes_def len_within_def)

lemma split_request_analyzed: "\<exists>a d. analyze sample_routing sample_ids 0 split_request = Inr (a, d)"
proof -
  obtain g where g: "profile (ri_graph sample_ids) (rv_profiler_version sample_routing) 0 split_request = Inr g"
    using split_request_fits(1) by (simp add: profile_cases nodes_fit constraints_fit texts_fit_def)
  show ?thesis unfolding analyze_def Let_def g sum.case by blast
qed

lemma split_request_type: "bd_request_type (classify_boundary (rv_unicode sample_routing) split_request) = RT_new_task"
  by (simp add: classify_boundary_def split_request_def sample_routing_def boundary_scores_def marker_score_def
      AMENDMENT_MARKERS_def CONTINUATION_MARKERS_def CLARIFICATION_MARKERS_def CONTROL_MARKERS_def codes_def boundary_of_def Let_def
      sublist_code)

lemma advice_is_conservative_witness:
  "\<exists>a d. analyze sample_routing sample_ids 0 split_request = Inr (a, d) \<and>
     map candidate_summary (ra_candidates a) = [(CM_direct, 0), (CM_workers, 2)] \<and> \<not> ra_rejected a"
proof -
  obtain a d where run: "analyze sample_routing sample_ids 0 split_request = Inr (a, d)"
    using split_request_analyzed by blast
  have "delegable split_request RT_new_task" by (simp add: delegable_def split_request_def)
  then have "map candidate_summary (ra_candidates a) = [(CM_direct, 0), (CM_workers, 2)] \<and> \<not> ra_rejected a"
    using advice_is_conservative [OF run] split_request_type by (simp add: split_request_def)
  with run show ?thesis by (intro exI [of _ a] exI [of _ d]) simp
qed


lemma shadow_record_is_durable_witness:
  "\<exists>a r (t :: store) u. analyze_and_shadow unit_hashing sample_routing sample_ids ''s'' ''h'' 0 split_request None (new_store []) =
      (Inr (Answered (a, r)), t) \<and> restart unit_hashing None 0 [] t = Inr u \<and> r \<in> set (list_shadow u)"
proof -
  obtain a d where run: "analyze sample_routing sample_ids 0 split_request = Inr (a, d)"
    using split_request_analyzed by blast
  let ?r = "\<lparr>sr_id = ''s'', sr_envelope_hash = ''h'', sr_advice = a, sr_status = SH_proposed, sr_real_outcome_ref = None,
          sr_created_at = 0\<rparr>"
  have "healthy unit_hashing (put_shadow ?r (new_store []))"
    using healthy_new_store healthy_journal [of "put_shadow ?r (new_store [])" "new_store []" unit_hashing] by simp
  from healthy_commit [OF this, of "ShadowRecorded ?r" None]
  obtain t where "commit unit_hashing (ShadowRecorded ?r) None (put_shadow ?r (new_store [])) = (Inr (), t)" by blast
  then have "record_shadow unit_hashing ''s'' ''h'' 0 a None (new_store []) = (Inr ?r, t)" by (simp add: record_shadow_Inr)
  with run have full: "analyze_and_shadow unit_hashing sample_routing sample_ids ''s'' ''h'' 0 split_request None (new_store []) =
      (Inr (Answered (a, ?r)), t)"
    by (simp add: analyze_and_shadow_def check_idempotency_def prog_simps)
  from shadow_record_is_durable [OF consistent_new_store full, of None 0 "[]"] full show ?thesis by blast
qed

end
