(* ===== verification/Texts.thy ===== *)
theory Texts
  imports Prelude
begin

text \<open>
  The two operations of \<^verbatim>\<open>str\<close> the code applies to keys, names and the output of commands: \<^verbatim>\<open>strip\<close> and
  \<^verbatim>\<open>splitlines\<close>, on the characters of Latin-1.
\<close>

definition py_space :: "char \<Rightarrow> bool" where
  "py_space c = (let n = of_char c :: nat in 9 \<le> n \<and> n \<le> 13 \<or> 28 \<le> n \<and> n \<le> 32 \<or> n = 133 \<or> n = 160)"

definition strip :: "string \<Rightarrow> string" where
  "strip s = rev (dropWhile py_space (rev (dropWhile py_space s)))"

fun line_end :: "char \<Rightarrow> bool" where
  "line_end c = (let n = of_char c :: nat in n \<in> {10, 11, 12, 13, 28, 29, 30, 133})"

definition newline :: char where
  "newline = char_of (10 :: nat)"

text \<open>\<^verbatim>\<open>"\n".join(lines)\<close>\<close>

fun newline_join :: "string list \<Rightarrow> string" where
  "newline_join [] = []"
| "newline_join [l] = l"
| "newline_join (l # ls) = l @ [newline] @ newline_join ls"

text \<open>A carriage return and the line feed after it end one line.\<close>

fun split_lines_from :: "string \<Rightarrow> string \<Rightarrow> string list" where
  "split_lines_from acc [] = (if acc = [] then [] else [rev acc])"
| "split_lines_from acc (c # cs) =
     (if line_end c
      then rev acc # (if c = char_of (13 :: nat) \<and> cs \<noteq> [] \<and> hd cs = char_of (10 :: nat)
                      then split_lines_from [] (tl cs) else split_lines_from [] cs)
      else split_lines_from (c # acc) cs)"

definition split_lines :: "string \<Rightarrow> string list" where
  "split_lines = split_lines_from []"

lemma strip_solid: "list_all (\<lambda>c. \<not> py_space c) s \<Longrightarrow> strip s = s"
proof -
  have "dropWhile py_space xs = xs" if "list_all (\<lambda>c. \<not> py_space c) xs" for xs
    using that by (cases xs) auto
  then show "list_all (\<lambda>c. \<not> py_space c) s \<Longrightarrow> strip s = s" by (simp add: strip_def list_all_rev)
qed

lemma strip_not_Nil:
  assumes "c \<in> set s" and "\<not> py_space c"
  shows "strip s \<noteq> []"
proof -
  obtain d ds where d: "dropWhile py_space s = d # ds" using assms by (cases "dropWhile py_space s") auto
  then have "\<not> py_space d" by (metis hd_dropWhile list.distinct(1) list.sel(1))
  with d show ?thesis by (auto simp: strip_def)
qed

end
