(* ===== verification/Observability.thy ===== *)
theory Observability
  imports Completion Texts
begin

text \<open>
  \<^verbatim>\<open>observability/events.py\<close>, \<^verbatim>\<open>observability/usage.py\<close> and the handlers of \<^verbatim>\<open>api/app.py\<close> that use them: the
  stream of the events of a task, which a client resumes with the number of the last event it has
  seen, and the usage report.

  What pydantic makes of an event (its type and the JSON object of its data) is the parameter \<open>dump\<close>,
  the text of a JSON value the parameter \<open>encode\<close>, the sum of floats the parameter \<open>fsum\<close>.
\<close>

section \<open>Cursors\<close>

definition digit :: "char \<Rightarrow> bool" where
  "digit c = (let n = of_char c :: nat in 48 \<le> n \<and> n \<le> 57)"

definition decimal_value :: "string \<Rightarrow> nat" where
  "decimal_value s = fold (\<lambda>c n. 10 * n + (of_char c - 48)) s 0"

text \<open>\<^verbatim>\<open>int\<close> and \<^verbatim>\<open>str\<close> refuse numbers of more than 4300 digits.\<close>

definition int_of_digits :: "string \<Rightarrow> int res" where
  "int_of_digits s =
     (if 4300 < length s then Inl (ValueError ''Exceeds the limit for integer string conversion'')
      else Inr (int (decimal_value s)))"

definition bad_cursor :: "int res" where
  "bad_cursor = Inl (EventStreamError ''last_event_id must be a non-negative integer'')"

definition parse_last_event_id :: "pyval \<Rightarrow> int res" where
  "parse_last_event_id v =
     (case v of
        VNone \<Rightarrow> Inr 0
      | VStr s \<Rightarrow> if strip s = [] then Inr 0
                  else if list_all digit (strip s) then int_of_digits (strip s) else bad_cursor
      | VInt n \<Rightarrow> if 4300 < length (int_text \<bar>n\<bar>)
                  then Inl (ValueError ''Exceeds the limit for integer string conversion'')
                  else if n < 0 then bad_cursor else Inr n
      | _ \<Rightarrow> bad_cursor)"

section \<open>Events\<close>

type_synonym json_object = "(string, pyval) dict"

definition event_sequence :: "json_object \<Rightarrow> int res" where
  "event_sequence e =
     (case dget e ''sequence'' of
        Some (VInt n) \<Rightarrow> if n \<le> 0 then Inl (EventStreamError ''event sequence must be a positive integer'') else Inr n
      | _ \<Rightarrow> Inl (EventStreamError ''event sequence must be a positive integer''))"

definition event_id :: "json_object \<Rightarrow> string res" where
  "event_id e =
     (case dget e ''id'' of
        Some (VStr s) \<Rightarrow> if strip s = [] then Inl (EventStreamError ''event id must be a non-empty string'') else Inr s
      | _ \<Rightarrow> Inl (EventStreamError ''event id must be a non-empty string''))"

text \<open>The loop of \<^verbatim>\<open>deduplicate_events\<close>, with the identifiers and numbers it has seen and the last it has kept.\<close>

fun dedupe_from :: "string set \<Rightarrow> int set \<Rightarrow> int \<Rightarrow> pyval list \<Rightarrow> json_object list res" where
  "dedupe_from ids seqs previous [] = Inr []"
| "dedupe_from ids seqs previous (raw # rest) =
     (case raw of
        VDict e \<Rightarrow>
       (case event_sequence e of
          Inl x \<Rightarrow> Inl x
        | Inr n \<Rightarrow>
       (case event_id e of
          Inl x \<Rightarrow> Inl x
        | Inr i \<Rightarrow>
            if n < previous \<and> n \<notin> seqs then Inl (EventStreamError ''event sequences must be monotonic'')
            else if i \<in> ids \<or> n \<in> seqs then dedupe_from (insert i ids) (insert n seqs) previous rest
            else (case dedupe_from (insert i ids) (insert n seqs) n rest of
                    Inl x \<Rightarrow> Inl x | Inr es \<Rightarrow> Inr (e # es))))
      | _ \<Rightarrow> Inl (EventStreamError ''event must be an object''))"

definition deduplicate_events :: "pyval list \<Rightarrow> json_object list res" where
  "deduplicate_events = dedupe_from {} {} 0"

definition format_sse_frame :: "(json_object \<Rightarrow> string) \<Rightarrow> pyval \<Rightarrow> string res" where
  "format_sse_frame encode raw =
     (case deduplicate_events [raw] of
        Inl x \<Rightarrow> Inl x
      | Inr es \<Rightarrow>
     (case event_sequence (hd es) of
        Inl x \<Rightarrow> Inl x
      | Inr n \<Rightarrow> Inr (''id: '' @ int_text n @ [newline] @ ''data: '' @ encode (hd es) @ [newline, newline])))"

section \<open>The stream of a task\<close>

type_synonym dumper = "event \<Rightarrow> string \<times> json_object"

definition belongs :: "dumper \<Rightarrow> string \<Rightarrow> event \<Rightarrow> bool" where
  "belongs dump task_id e =
     (let data = snd (dump e) in
      dget data ''id'' = Some (VStr task_id) \<or> dget data ''task_id'' = Some (VStr task_id) \<or>
      dget data ''parent_task_id'' = Some (VStr task_id))"

definition stream_event :: "dumper \<Rightarrow> int \<times> event \<Rightarrow> json_object" where
  "stream_event dump x =
     (case x of (n, e) \<Rightarrow>
        [(''id'', VStr (''evt_'' @ int_text n)), (''sequence'', VInt n), (''type'', VStr (fst (dump e))),
         (''data'', VDict (snd (dump e)))])"

definition replay_events :: "dumper \<Rightarrow> string \<Rightarrow> int \<Rightarrow> event journal \<Rightarrow> json_object list res" where
  "replay_events dump task_id after j =
     deduplicate_events (map (\<lambda>x. VDict (stream_event dump x))
       (filter (\<lambda>(n, e). belongs dump task_id e) (journal_events after j)))"

text \<open>
  One turn of the loop that follows the journal: the events after the cursor that belong to the task and
  have not been sent. Its state is the cursor and the numbers sent.
\<close>

fun follow_turn ::
    "dumper \<Rightarrow> string \<Rightarrow> int \<times> int set \<Rightarrow> (int \<times> event) list \<Rightarrow> json_object list \<times> int \<times> int set" where
  "follow_turn dump task_id (cursor, sent) [] = ([], cursor, sent)"
| "follow_turn dump task_id (cursor, sent) ((n, e) # rest) =
     (if n \<in> sent \<or> \<not> belongs dump task_id e
      then follow_turn dump task_id (max cursor n, sent) rest
      else (case follow_turn dump task_id (max cursor n, insert n sent) rest of
              (out, s) \<Rightarrow> (stream_event dump (n, e) # out, s)))"

text \<open>The loop over the journals its turns find.\<close>

fun follow :: "dumper \<Rightarrow> string \<Rightarrow> int \<times> int set \<Rightarrow> event journal list \<Rightarrow> json_object list" where
  "follow dump task_id s [] = []"
| "follow dump task_id s (j # js) =
     (case follow_turn dump task_id s (journal_events (fst s) j) of
        (out, s') \<Rightarrow> out @ follow dump task_id s' js)"

fun numbers_of :: "json_object list \<Rightarrow> int list" where
  "numbers_of [] = []"
| "numbers_of (e # es) = (case event_sequence e of Inl x \<Rightarrow> [] | Inr n \<Rightarrow> [n]) @ numbers_of es"

text \<open>
  \<^verbatim>\<open>GET /v1/tasks/{task_id}/events\<close>: the events sent to a client with the header \<open>last_event_id\<close>, where \<open>js\<close> are
  the journals of the turns, none if the request does not follow.
\<close>

definition task_events ::
    "dumper \<Rightarrow> string \<Rightarrow> string option \<Rightarrow> 'r store_scheme \<Rightarrow> event journal list \<Rightarrow> json_object list res" where
  "task_events dump task_id last_event_id s js =
     (if dget (st_tasks s) task_id = None then Inl (DomainError ''not_found'' 404)
      else case parse_last_event_id (case last_event_id of None \<Rightarrow> VNone | Some x \<Rightarrow> VStr x) of
             Inl (EventStreamError _) \<Rightarrow> Inl (DomainError ''invalid_last_event_id'' 400)
           | Inl x \<Rightarrow> Inl x
           | Inr after \<Rightarrow>
          (case replay_events dump task_id after (st_journal s) of
             Inl x \<Rightarrow> Inl x
           | Inr es \<Rightarrow>
               Inr (es @ follow dump task_id (fold max (numbers_of es) (if es = [] then after else 0), set (numbers_of es)) js)))"

section \<open>Usage: observability/usage.py\<close>

definition usage_cost_agrees :: "cost_status \<Rightarrow> pyfloat option \<Rightarrow> unit res" where
  "usage_cost_agrees status cost =
     (if status = CO_unknown \<and> cost \<noteq> None then Inl (ValueError ''unknown cost must not include cost_usd'')
      else if status = CO_known \<and> cost = None then Inl (ValueError ''known cost requires cost_usd'')
      else Inr ())"

record usage_totals =
  ut_input_tokens :: int
  ut_cached_input_tokens :: int
  ut_output_tokens :: int
  ut_reasoning_tokens :: int
  ut_latency_ms :: int
  ut_retries :: int
  ut_cost_status :: cost_status
  ut_cost_usd :: "pyfloat option"

record task_usage_report =
  tr_task_id :: string
  tr_records :: "usage_record list"
  tr_totals :: usage_totals

definition or_zero :: "int option \<Rightarrow> int" where
  "or_zero x = (case x of None \<Rightarrow> 0 | Some n \<Rightarrow> n)"

definition build_usage_report :: "(pyfloat list \<Rightarrow> pyfloat) \<Rightarrow> string \<Rightarrow> usage_record list \<Rightarrow> task_usage_report res" where
  "build_usage_report fsum task_id us =
     (let known = map us_cost_usd (filter (\<lambda>u. us_cost_status u = CO_known) us);
          unknown = list_ex (\<lambda>u. us_cost_status u = CO_unknown) us;
          (status, cost) =
            (if unknown \<or> length known \<noteq> length us then (CO_unknown, None)
             else (CO_known, Some (fsum (List.map_filter id known))))
      in case usage_cost_agrees status cost of
           Inl x \<Rightarrow> Inl x
         | Inr _ \<Rightarrow>
             Inr \<lparr>tr_task_id = task_id, tr_records = us, tr_totals =
               \<lparr>ut_input_tokens = sum_list (map (or_zero \<circ> us_input_tokens) us),
                ut_cached_input_tokens = sum_list (map (or_zero \<circ> us_cached_input_tokens) us),
                ut_output_tokens = sum_list (map (or_zero \<circ> us_output_tokens) us),
                ut_reasoning_tokens = sum_list (map (or_zero \<circ> us_reasoning_tokens) us),
                ut_latency_ms = sum_list (map us_latency_ms us), ut_retries = sum_list (map us_retries us),
                ut_cost_status = status, ut_cost_usd = cost\<rparr>\<rparr>)"

definition get_usage :: "(pyfloat list \<Rightarrow> pyfloat) \<Rightarrow> string \<Rightarrow> 'r view_scheme \<Rightarrow> task_usage_report res" where
  "get_usage fsum task_id s =
     (if dget (st_tasks s) task_id = None then Inl (DomainError ''not_found'' 404)
      else build_usage_report fsum task_id (case dget (st_usage s) task_id of None \<Rightarrow> [] | Some us \<Rightarrow> us))"

definition USAGE_EXPORT_FIELDS :: "string list" where
  "USAGE_EXPORT_FIELDS =
     [''id'', ''task_id'', ''provider_id'', ''model_id'', ''input_tokens'', ''cached_input_tokens'', ''output_tokens'',
      ''reasoning_tokens'', ''cost_status'', ''cost_usd'', ''latency_ms'', ''retries'', ''recorded_at'']"

definition opt_int :: "int option \<Rightarrow> pyval" where
  "opt_int x = (case x of None \<Rightarrow> VNone | Some n \<Rightarrow> VInt n)"

text \<open>\<^verbatim>\<open>model_dump(mode="json")\<close> of a record; \<open>isoformat\<close> is the text of a time.\<close>

definition usage_json :: "(time \<Rightarrow> string) \<Rightarrow> usage_record \<Rightarrow> json_object" where
  "usage_json isoformat u =
     [(''id'', VStr (us_id u)), (''task_id'', VStr (us_task_id u)), (''provider_id'', VStr (us_provider_id u)),
      (''model_id'', VStr (us_model_id u)), (''input_tokens'', opt_int (us_input_tokens u)),
      (''cached_input_tokens'', opt_int (us_cached_input_tokens u)), (''output_tokens'', opt_int (us_output_tokens u)),
      (''reasoning_tokens'', opt_int (us_reasoning_tokens u)),
      (''cost_status'', VStr (case us_cost_status u of CO_known \<Rightarrow> ''known'' | CO_unknown \<Rightarrow> ''unknown'')),
      (''cost_usd'', case us_cost_usd u of None \<Rightarrow> VNone | Some x \<Rightarrow> VFloat x),
      (''latency_ms'', VInt (us_latency_ms u)), (''retries'', VInt (us_retries u)),
      (''recorded_at'', VStr (isoformat (us_recorded_at u)))]"

definition usage_export_rows :: "(time \<Rightarrow> string) \<Rightarrow> task_usage_report \<Rightarrow> (string \<times> pyval) list list" where
  "usage_export_rows isoformat r =
     map (\<lambda>u. map (\<lambda>f. (f, case dget (usage_json isoformat u) f of None \<Rightarrow> VNone | Some v \<Rightarrow> v)) USAGE_EXPORT_FIELDS) (tr_records r)"

definition export_usage ::
    "(pyfloat list \<Rightarrow> pyfloat) \<Rightarrow> (time \<Rightarrow> string) \<Rightarrow> string \<Rightarrow> 'r view_scheme \<Rightarrow> (string \<times> pyval) list list res" where
  "export_usage fsum isoformat task_id s =
     (case get_usage fsum task_id s of Inl x \<Rightarrow> Inl x | Inr r \<Rightarrow> Inr (usage_export_rows isoformat r))"

section \<open>Numbers in texts\<close>

lemma digit_code: "(n :: nat) < 10 \<Longrightarrow> digit (char_of (48 + n)) \<and> of_char (char_of (48 + n)) - 48 = n"
proof -
  assume n: "n < 10"
  then have "of_char (char_of (48 + n)) = 48 + n" by simp
  with n show ?thesis by (simp add: digit_def Let_def)
qed

lemma decimal_value_snoc: "decimal_value (s @ [c]) = 10 * decimal_value s + (of_char c - 48)"
  by (simp add: decimal_value_def)

lemma decimal_round_trip: "list_all digit (decimal n) \<and> decimal_value (decimal n) = n \<and> decimal n \<noteq> []"
proof (induction n rule: decimal.induct)
  case (1 n)
  show ?case
  proof (cases "n < 10")
    case True
    then show ?thesis using digit_code [OF True] by (subst (1 2 3) decimal.simps) (simp add: decimal_value_def)
  next
    case False
    have "n mod 10 < 10" by simp
    from 1 [OF False] digit_code [OF this] False show ?thesis
      by (subst (1 2 3) decimal.simps) (simp add: decimal_value_snoc)
  qed
qed

lemma digit_no_space: "digit c \<Longrightarrow> \<not> py_space c"
  by (auto simp: digit_def py_space_def Let_def)

lemma decimal_inject: "decimal m = decimal n \<longleftrightarrow> m = n"
  using decimal_round_trip by metis

lemma int_text_inject: "0 \<le> m \<Longrightarrow> 0 \<le> n \<Longrightarrow> int_text m = int_text n \<longleftrightarrow> m = n"
  by (simp add: int_text_def decimal_inject nat_eq_iff)

lemma parse_cursor:
  assumes "0 \<le> n" and "length (int_text n) \<le> 4300"
  shows "parse_last_event_id (VStr (int_text n)) = Inr n"
proof -
  have d: "int_text n = decimal (nat n)" using assms(1) by (simp add: int_text_def)
  have "strip (decimal (nat n)) = decimal (nat n)"
    using decimal_round_trip [of "nat n"] digit_no_space by (intro strip_solid) (auto simp: list_all_iff)
  then show ?thesis
    using assms decimal_round_trip [of "nat n"] by (simp add: parse_last_event_id_def d int_of_digits_def)
qed

section \<open>The stream is complete\<close>

text \<open>The events of a journal are numbered upwards from a positive number.\<close>

definition numbered :: "'e journal \<Rightarrow> bool" where
  "numbered j \<longleftrightarrow> sorted_wrt (<) (map fst (journal_events 0 j)) \<and> (\<forall>x \<in> set (journal_events 0 j). 0 < fst x)"

lemma journal_events_after:
  fixes j :: "'e journal"
  assumes "0 \<le> n"
  shows "journal_events n j = filter (\<lambda>x. n < fst x) (journal_events 0 j)"
proof -
  have "event_after n r = filter (\<lambda>x. n < fst x) (event_after 0 r)" for r :: "'e jrecord"
    using assms by (cases r) auto
  then have "map (event_after n) (jl_records j) = map (filter (\<lambda>x. n < fst x) \<circ> event_after 0) (jl_records j)"
    by simp
  then show ?thesis unfolding journal_events_def by (simp only: filter_concat map_map)
qed

lemma stream_event_fields:
  "0 < n \<Longrightarrow> event_sequence (stream_event dump (n, e)) = Inr n"
  "event_id (stream_event dump (n, e)) = Inr (''evt_'' @ int_text n)"
proof -
  have "strip (''evt_'' @ int_text n) \<noteq> []"
    by (rule strip_not_Nil [of "CHR ''e''"]) (simp_all add: py_space_def)
  then show "event_id (stream_event dump (n, e)) = Inr (''evt_'' @ int_text n)"
    by (simp add: event_id_def stream_event_def)
qed (simp add: event_sequence_def stream_event_def)

lemma dedupe_numbered:
  assumes "sorted_wrt (<) (map fst xs)" and "\<forall>x \<in> set xs. previous < fst x" and "0 \<le> previous"
    and "seqs \<subseteq> {.. previous}" and "ids \<subseteq> (\<lambda>n. ''evt_'' @ int_text n) ` {0 .. previous}"
  shows "dedupe_from ids seqs previous (map (\<lambda>x. VDict (stream_event dump x)) xs) = Inr (map (stream_event dump) xs)"
  using assms
proof (induction xs arbitrary: ids seqs previous)
  case (Cons x xs)
  obtain n e where x: "x = (n, e)" by fastforce
  have n: "previous < n" "0 < n" using Cons.prems(2,3) x by auto
  have new: "n \<notin> seqs" "''evt_'' @ int_text n \<notin> ids"
    using n Cons.prems(3,4,5) by (auto simp: int_text_inject)
  have "dedupe_from (insert (''evt_'' @ int_text n) ids) (insert n seqs) n (map (\<lambda>x. VDict (stream_event dump x)) xs) =
      Inr (map (stream_event dump) xs)"
    using Cons.prems n x by (intro Cons.IH) auto
  then show ?case using n new by (simp add: x stream_event_fields)
qed simp

definition of_task :: "dumper \<Rightarrow> string \<Rightarrow> int \<Rightarrow> (int \<times> event) list \<Rightarrow> (int \<times> event) list" where
  "of_task dump task_id after xs = filter (\<lambda>x. after < fst x \<and> belongs dump task_id (snd x)) xs"

lemma replay_numbered:
  assumes "numbered j" and "0 \<le> after"
  shows "replay_events dump task_id after j = Inr (map (stream_event dump) (of_task dump task_id after (journal_events 0 j)))"
proof -
  have eq: "filter (\<lambda>(n, e). belongs dump task_id e) (journal_events after j) = of_task dump task_id after (journal_events 0 j)"
    by (simp add: journal_events_after [OF assms(2)] of_task_def case_prod_beta conj_commute)
  show ?thesis unfolding replay_events_def deduplicate_events_def eq
    using assms by (intro dedupe_numbered) (auto simp: numbered_def of_task_def sorted_wrt_map sorted_wrt_filter)
qed

text \<open>What one turn sends and how it moves the cursor.\<close>

lemma follow_turn_sends:
  assumes "sorted_wrt (<) (map fst xs)" and "\<forall>x \<in> set xs. cursor < fst x \<and> fst x \<notin> sent"
  shows "follow_turn dump task_id (cursor, sent) xs =
    (map (stream_event dump) (filter (\<lambda>x. belongs dump task_id (snd x)) xs),
     fold max (map fst xs) cursor, sent \<union> fst ` set (filter (\<lambda>x. belongs dump task_id (snd x)) xs))"
  using assms
proof (induction xs arbitrary: cursor sent)
  case (Cons x xs)
  obtain n e where x: "x = (n, e)" by fastforce
  have n: "cursor < n" "n \<notin> sent" using Cons.prems(2) x by auto
  have step: "follow_turn dump task_id (n, s) xs =
    (map (stream_event dump) (filter (\<lambda>x. belongs dump task_id (snd x)) xs),
     fold max (map fst xs) n, s \<union> fst ` set (filter (\<lambda>x. belongs dump task_id (snd x)) xs))" if "s \<subseteq> insert n sent" for s
    using Cons.prems x that by (intro Cons.IH) fastforce+
  show ?case
  proof (cases "belongs dump task_id e")
    case True
    then show ?thesis using n step [of "insert n sent"] by (simp add: x max.absorb2 less_imp_le)
  next
    case False
    then show ?thesis using n step [of sent] by (simp add: x max.absorb2 less_imp_le subset_insertI)
  qed
qed simp

definition caught_up :: "dumper \<Rightarrow> string \<Rightarrow> int \<Rightarrow> int \<Rightarrow> int set \<Rightarrow> (int \<times> event) list \<Rightarrow> bool" where
  "caught_up dump task_id after cursor sent xs \<longleftrightarrow>
     after \<le> cursor \<and> (cursor = after \<or> cursor \<in> fst ` set xs) \<and> sent \<subseteq> {.. cursor} \<and>
     (\<forall>x \<in> set (of_task dump task_id after xs). fst x \<le> cursor)"

lemma fold_max: "fold max ns (c :: int) \<in> insert c (set ns) \<and> (\<forall>n \<in> insert c (set ns). n \<le> fold max ns c)"
proof (induction ns arbitrary: c)
  case (Cons n ns)
  from Cons [of "max n c"] show ?case by (auto simp: max_def split: if_splits)
qed simp

lemma sorted_filter_split:
  assumes "sorted_wrt (<) (map fst xs)" and "a \<le> (c :: int)"
  shows "filter (\<lambda>x. a < fst x \<and> P x) xs =
    filter (\<lambda>x. a < fst x \<and> fst x \<le> c \<and> P x) xs @ filter (\<lambda>x. c < fst x \<and> P x) xs"
  using assms
proof (induction xs)
  case (Cons x xs)
  show ?case
  proof (cases "c < fst x")
    case True
    then have "\<forall>y \<in> set (x # xs). c < fst y" using Cons.prems(1) by auto
    then have "filter (\<lambda>x. a < fst x \<and> fst x \<le> c \<and> P x) (x # xs) = []"
      "filter (\<lambda>x. a < fst x \<and> P x) (x # xs) = filter (\<lambda>x. c < fst x \<and> P x) (x # xs)"
      using Cons.prems(2) by (auto simp: filter_empty_conv intro: filter_cong)
    then show ?thesis by simp
  next
    case False
    then show ?thesis using Cons by simp
  qed
qed simp

lemma follow_step:
  assumes sorted: "sorted_wrt (<) (map fst ys)" and "0 \<le> after" and old: "caught_up dump t after cursor sent xs" and ext: "prefix xs ys"
  defines "turn \<equiv> follow_turn dump t (cursor, sent) (filter (\<lambda>x. cursor < fst x) ys)"
  shows "map (stream_event dump) (of_task dump t after xs) @ fst turn = map (stream_event dump) (of_task dump t after ys)"
    and "caught_up dump t after (fst (snd turn)) (snd (snd turn)) ys"
proof -
  let ?new = "filter (\<lambda>x. cursor < fst x) ys"
  let ?B = "\<lambda>x. belongs dump t (snd x)"
  have turn: "turn = (map (stream_event dump) (filter ?B ?new), fold max (map fst ?new) cursor, sent \<union> fst ` set (filter ?B ?new))"
    unfolding turn_def using sorted old
    by (intro follow_turn_sends) (auto simp: sorted_wrt_map sorted_wrt_filter caught_up_def)
  obtain zs where ys: "ys = xs @ zs" using ext by (auto simp: prefix_def)
  have late: "fst x < fst z" if "x \<in> set xs" "z \<in> set zs" for x z
    using sorted that by (auto simp: ys sorted_wrt_append)
  have "filter (\<lambda>x. after < fst x \<and> fst x \<le> cursor \<and> ?B x) zs = []"
  proof (intro filter_False ballI notI)
    fix z assume z: "z \<in> set zs" "after < fst z \<and> fst z \<le> cursor \<and> ?B z"
    then have "cursor \<in> fst ` set xs" using old by (auto simp: caught_up_def)
    then show False using late z by fastforce
  qed
  moreover have "filter (\<lambda>x. after < fst x \<and> fst x \<le> cursor \<and> ?B x) xs = of_task dump t after xs"
    unfolding of_task_def
  proof (intro filter_cong refl)
    fix x assume "x \<in> set xs"
    then have "x \<in> set (of_task dump t after xs)" if "after < fst x \<and> ?B x" using that by (simp add: of_task_def)
    then have "fst x \<le> cursor" if "after < fst x \<and> ?B x" using that old unfolding caught_up_def by blast
    then show "(after < fst x \<and> fst x \<le> cursor \<and> ?B x) = (after < fst x \<and> ?B x)" by blast
  qed
  ultimately have "of_task dump t after xs = filter (\<lambda>x. after < fst x \<and> fst x \<le> cursor \<and> ?B x) ys"
    by (simp add: ys)
  moreover have "after \<le> cursor" using old by (simp add: caught_up_def)
  ultimately have all: "of_task dump t after ys = of_task dump t after xs @ filter ?B ?new"
    using sorted_filter_split [OF sorted, of after cursor ?B] by (simp add: of_task_def conj_commute)
  then show "map (stream_event dump) (of_task dump t after xs) @ fst turn = map (stream_event dump) (of_task dump t after ys)"
    by (simp add: turn)
  have max: "fold max (map fst ?new) cursor \<in> insert cursor (fst ` set ?new)"
    "\<forall>n \<in> insert cursor (fst ` set ?new). n \<le> fold max (map fst ?new) cursor"
    using fold_max [of "map fst ?new" cursor] by simp_all
  show "caught_up dump t after (fst (snd turn)) (snd (snd turn)) ys"
    unfolding caught_up_def turn fst_conv snd_conv
  proof (intro conjI ballI subsetI)
    show "after \<le> fold max (map fst ?new) cursor" using max(2) \<open>after \<le> cursor\<close> by auto
    show "fold max (map fst ?new) cursor = after \<or> fold max (map fst ?new) cursor \<in> fst ` set ys"
      using max(1) old by (auto simp: caught_up_def ys)
    show "n \<in> {.. fold max (map fst ?new) cursor}" if "n \<in> sent \<union> fst ` set (filter ?B ?new)" for n
      using that max(2) old by (fastforce simp: caught_up_def)
    show "fst x \<le> fold max (map fst ?new) cursor" if "x \<in> set (of_task dump t after ys)" for x
    proof -
      have "x \<in> set (of_task dump t after xs) \<or> x \<in> set ?new" using that unfolding all by auto
      then have "fst x \<le> cursor \<or> fst x \<in> fst ` set ?new" using old unfolding caught_up_def by blast
      then show ?thesis using max(2) by fastforce
    qed
  qed
qed

lemma follow_complete:
  assumes "0 \<le> after" and "caught_up dump t after cursor sent xs"
    and "sorted_wrt prefix (xs # map (journal_events 0) js)" and "\<forall>j \<in> set js. numbered j"
  shows "map (stream_event dump) (of_task dump t after xs) @ follow dump t (cursor, sent) js =
    map (stream_event dump) (of_task dump t after (last (xs # map (journal_events 0) js)))"
  using assms(2-)
proof (induction js arbitrary: xs cursor sent)
  case (Cons j js)
  let ?ys = "journal_events 0 j"
  obtain out c s where turn: "follow_turn dump t (cursor, sent) (journal_events cursor j) = (out, c, s)" by (cases "follow_turn dump t (cursor, sent) (journal_events cursor j)") auto
  have "0 \<le> cursor" using assms(1) Cons.prems(1) by (simp add: caught_up_def)
  then have new: "journal_events cursor j = filter (\<lambda>x. cursor < fst x) ?ys" by (rule journal_events_after)
  have sorted: "sorted_wrt (<) (map fst ?ys)" using Cons.prems(3) by (simp add: numbered_def)
  have ext: "prefix xs ?ys" using Cons.prems(2) by simp
  note step = follow_step [OF sorted assms(1) Cons.prems(1) ext, folded new, unfolded turn fst_conv snd_conv]
  have "map (stream_event dump) (of_task dump t after ?ys) @ follow dump t (c, s) js =
      map (stream_event dump) (of_task dump t after (last (?ys # map (journal_events 0) js)))"
    using Cons.prems step(2) by (intro Cons.IH) auto
  then show ?case
    by (simp only: follow.simps turn prod.case fst_conv step(1) [symmetric] append_assoc list.map last_ConsR list.distinct simp_thms if_False last.simps)
qed simp


lemma numbers_of_stream:
  "\<forall>x \<in> set xs. 0 < fst x \<Longrightarrow> numbers_of (map (stream_event dump) xs) = map fst xs"
  by (induction xs) (auto simp: stream_event_fields)

lemma caught_up_replay:
  fixes dump :: dumper and t :: string
  assumes "numbered j" and "0 \<le> after"
  defines "es \<equiv> map (stream_event dump) (of_task dump t after (journal_events 0 j))"
  shows "caught_up dump t after (fold max (numbers_of es) (if es = [] then after else 0)) (set (numbers_of es)) (journal_events 0 j)"
proof -
  let ?xs = "of_task dump t after (journal_events 0 j)"
  have n: "numbers_of es = map fst ?xs"
    unfolding es_def using assms(1,2) by (intro numbers_of_stream) (auto simp: of_task_def numbered_def)
  have sub: "set ?xs \<subseteq> set (journal_events 0 j)" "\<forall>x \<in> set ?xs. after < fst x" by (auto simp: of_task_def)
  show ?thesis
  proof (cases "?xs = []")
    case True
    then show ?thesis by (simp add: caught_up_def es_def)
  next
    case False
    let ?m = "fold max (map fst ?xs) 0"
    have m: "?m \<in> insert 0 (fst ` set ?xs)" "\<forall>n \<in> insert 0 (fst ` set ?xs). n \<le> ?m"
      using fold_max [of "map fst ?xs" 0] by simp_all
    obtain x where x: "x \<in> set ?xs" using False by (cases ?xs) auto
    have "after < ?m" using m(2) x sub(2) by force
    moreover have "?m \<in> fst ` set (journal_events 0 j)" using m(1) sub(1) assms(2) \<open>after < ?m\<close> by auto
    ultimately have "caught_up dump t after ?m (fst ` set ?xs) (journal_events 0 j)"
      using m(2) by (auto simp: caught_up_def)
    then show ?thesis using False by (simp add: n) (simp add: es_def)
  qed
qed

text \<open>Every commit numbers its events after those of the journal and only adds to them.\<close>

lemma journal_events_frame:
  assumes "0 \<le> n"
  shows "concat (map (event_after 0) (frame_of n es idem)) = zip (map (\<lambda>i. n + 1 + int i) [0..<length es]) es"
proof -
  have "concat (map (event_after 0) (number_events m es)) = zip (map (\<lambda>i. m + int i) [0..<length es]) es" if "0 < m" for m
    using that
  proof (induction m es rule: number_events.induct)
    case (2 m e es)
    then show ?case
      by (simp add: upt_conv_Cons map_Suc_upt [symmetric] add.assoc comp_def del: upt_Suc)
  qed simp
  from this [of "n + 1"] assms show ?thesis by (auto simp: frame_of_def split: option.splits prod.splits)
qed

lemma append_numbered:
  assumes "append_frame H es x idem c t j = (Inr (), k)" and "es \<noteq> []" and "journal_inv H j" and "numbered j"
    and "\<forall>x \<in> set (journal_events 0 j). fst x \<le> jl_sequence j" and "0 \<le> jl_sequence j"
  shows "numbered k \<and> prefix (journal_events 0 j) (journal_events 0 k)"
proof -
  have k: "journal_events 0 k = journal_events 0 j @ zip (map (\<lambda>i. jl_sequence j + 1 + int i) [0..<length es]) es"
    using append_keeps_inv [OF assms(3,2,1)] journal_events_frame [OF assms(6), of es idem]
    by (simp add: journal_events_def)
  have new: "map fst (zip (map (\<lambda>i. jl_sequence j + 1 + int i) [0..<length es]) es) = map (\<lambda>i. jl_sequence j + 1 + int i) [0..<length es]"
    by simp
  have "sorted_wrt (<) (map fst (journal_events 0 k))"
    using assms(4,5) unfolding k map_append new
    by (fastforce simp: sorted_wrt_append sorted_wrt_map numbered_def)
  moreover have "\<forall>x \<in> set (journal_events 0 k). 0 < fst x"
    using assms(4,6) by (fastforce simp: k numbered_def dest: set_zip_leftD)
  ultimately show ?thesis by (simp add: numbered_def k)
qed

lemma task_events_numbered:
  assumes "dget (st_tasks s) t \<noteq> None"
    and "header = None \<and> after = 0 \<or> header = Some (int_text after) \<and> 0 \<le> after \<and> length (int_text after) \<le> 4300"
    and "\<forall>j \<in> set (st_journal s # js). numbered j"
    and "sorted_wrt prefix (map (journal_events 0) (st_journal s # js))"
  shows "task_events dump t header s js =
    Inr (map (stream_event dump) (of_task dump t after (journal_events 0 (last (st_journal s # js)))))"
proof -
  let ?j = "st_journal s"
  have after: "0 \<le> after" "parse_last_event_id (case header of None \<Rightarrow> VNone | Some x \<Rightarrow> VStr x) = Inr after"
    using assms(2) parse_cursor [of after] by (auto simp: parse_last_event_id_def)
  have j: "numbered ?j" and js: "\<forall>j \<in> set js. numbered j" using assms(3) by auto
  have ends: "last (journal_events 0 ?j # map (journal_events 0) js) = journal_events 0 (last (?j # js))"
    by (simp add: last_map)
  have "sorted_wrt prefix (journal_events 0 ?j # map (journal_events 0) js)" using assms(4) by simp
  from follow_complete [OF after(1) caught_up_replay [OF j after(1), of dump t] this js]
  show ?thesis
    using assms(1) unfolding task_events_def after(2) replay_numbered [OF j after(1)] sum.case ends by simp
qed

text \<open>
  C31. The stream of a task is complete and resumable: if the journals the turns of the loop find each extend the one
  before, a client that has seen the events up to number n and sends n as \<^verbatim>\<open>Last-Event-ID\<close> (or nothing, for n = 0)
  is sent exactly the events of the task after n in the last of these journals, in order, each once, under their own
  numbers. So one that reconnects with the number of the last event it got misses none and gets none twice.
\<close>

theorem event_stream_resumes:
  assumes "dget (st_tasks s) t \<noteq> None"
    and "header = None \<and> after = 0 \<or> header = Some (int_text after) \<and> 0 \<le> after \<and> length (int_text after) \<le> 4300"
    and "\<forall>j \<in> set (st_journal s # js). numbered j"
    and "sorted_wrt prefix (map (journal_events 0) (st_journal s # js))"
  shows "task_events dump t header s js =
    Inr (map (stream_event dump) (of_task dump t after (journal_events 0 (last (st_journal s # js)))))"
  using assms by (rule task_events_numbered)

definition moved :: "int \<Rightarrow> string \<Rightarrow> event jrecord" where
  "moved n t = EventRecord n (TaskMoved t TS_planned)"

definition plain_dump :: dumper where
  "plain_dump e = (case e of TaskMoved t x \<Rightarrow> (''task.status'', [(''id'', VStr t)]) | _ \<Rightarrow> (''other'', []))"

definition sample_events :: "event jrecord list \<Rightarrow> event journal" where
  "sample_events rs = (fresh_journal [])\<lparr>jl_records := rs\<rparr>"

definition streamed_store :: store where
  "streamed_store = new_store []\<lparr>st_tasks := [(''t'', running_task)], st_journal := sample_events [moved 1 ''t'', moved 2 ''t'']\<rparr>"

lemma event_stream_resumes_witness:
  "task_events plain_dump ''t'' (Some (int_text 1)) streamed_store
     [sample_events [moved 1 ''t'', moved 2 ''t'', moved 3 ''u'', moved 4 ''t'']] =
    Inr (map (stream_event plain_dump) [(2, TaskMoved ''t'' TS_planned), (4, TaskMoved ''t'' TS_planned)])"
proof -
  have events: "journal_events 0 (sample_events rs) = concat (map (event_after 0) rs)" for rs
    by (simp add: sample_events_def journal_events_def)
  have "int_text 1 = ''1''" by (simp add: int_text_def decimal.simps) code_simp
  then show ?thesis
    using event_stream_resumes [where s = streamed_store and t = "''t''" and header = "Some (int_text 1)" and after = 1
        and js = "[sample_events [moved 1 ''t'', moved 2 ''t'', moved 3 ''u'', moved 4 ''t'']]" and dump = plain_dump]
    by (simp add: streamed_store_def numbered_def events moved_def) (simp add: of_task_def belongs_def plain_dump_def)
qed

section \<open>The usage report\<close>

text \<open>
  The usage report of a task holds every record of the task and the sums of their counters, a missing counter
  as 0. It never makes a number of an unknown cost: the total cost is a number only if the cost of every record is known,
  and then their sum, and an exported row has no number for the cost of a record whose cost is unknown.
\<close>

theorem usage_never_guesses_cost:
  fixes s :: "'r view_scheme"
  assumes "dget (st_tasks s) t \<noteq> None" and "dget (st_usage s) t = Some us"
    and "\<forall>u \<in> set us. usage_cost_agrees (us_cost_status u) (us_cost_usd u) = Inr ()"
  shows "\<exists>r rows. get_usage fsum t s = Inr r \<and> export_usage fsum isoformat t s = Inr rows \<and> tr_records r = us \<and>
    ut_input_tokens (tr_totals r) = sum_list [n. u \<leftarrow> us, Some n \<leftarrow> [us_input_tokens u]] \<and>
    ut_output_tokens (tr_totals r) = sum_list [n. u \<leftarrow> us, Some n \<leftarrow> [us_output_tokens u]] \<and>
    ut_cost_usd (tr_totals r) =
      (if \<forall>u \<in> set us. us_cost_usd u \<noteq> None then Some (fsum (map (the \<circ> us_cost_usd) us)) else None) \<and>
    length rows = length us \<and>
    (\<forall>(u, row) \<in> set (zip us rows). map fst row = USAGE_EXPORT_FIELDS \<and>
      dget row ''cost_usd'' = Some (case us_cost_usd u of None \<Rightarrow> VNone | Some x \<Rightarrow> VFloat x))"
proof -
  have known: "us_cost_status u = CO_known \<longleftrightarrow> us_cost_usd u \<noteq> None" if "u \<in> set us" for u
    using assms(3) that by (cases "us_cost_status u") (force simp: usage_cost_agrees_def split: if_splits)+
  have sums: "sum_list (map (or_zero \<circ> f) xs) = sum_list [n. u \<leftarrow> xs, Some n \<leftarrow> [f u]]" for f :: "usage_record \<Rightarrow> int option" and xs
    by (induction xs) (simp_all add: or_zero_def split: option.splits)
  let ?all = "\<forall>u \<in> set us. us_cost_usd u \<noteq> None"
  let ?known = "filter (\<lambda>u. us_cost_status u = CO_known) us"
  have unknown: "list_ex (\<lambda>u. us_cost_status u = CO_unknown) us \<longleftrightarrow> \<not> ?all"
  proof -
    have "us_cost_status u = CO_unknown \<longleftrightarrow> us_cost_usd u = None" if "u \<in> set us" for u
      using known [OF that] by (cases "us_cost_status u") simp_all
    then show ?thesis by (auto simp: list_ex_iff)
  qed
  have all: "?known = us" "List.map_filter id (map us_cost_usd us) = map (the \<circ> us_cost_usd) us" if ?all
  proof -
    show "?known = us" using that known by (simp add: filter_id_conv)
    show "List.map_filter id (map us_cost_usd us) = map (the \<circ> us_cost_usd) us"
      using that by (induction us) (auto simp: List.map_filter_def)
  qed
  obtain r where r: "build_usage_report fsum t us = Inr r" "tr_records r = us"
    "ut_input_tokens (tr_totals r) = sum_list (map (or_zero \<circ> us_input_tokens) us)"
    "ut_output_tokens (tr_totals r) = sum_list (map (or_zero \<circ> us_output_tokens) us)"
    "ut_cost_usd (tr_totals r) = (if ?all then Some (fsum (map (the \<circ> us_cost_usd) us)) else None)"
    using all by (cases ?all) (simp_all add: build_usage_report_def unknown usage_cost_agrees_def Let_def)
  then have get: "get_usage fsum t s = Inr r" using assms(1,2) by (auto simp: get_usage_def)
  define row where "row u = map (\<lambda>f. (f, case dget (usage_json isoformat u) f of None \<Rightarrow> VNone | Some v \<Rightarrow> v)) USAGE_EXPORT_FIELDS"
    for u
  have export: "export_usage fsum isoformat t s = Inr (map row us)"
    by (simp add: export_usage_def get usage_export_rows_def r(2) row_def)
  have row: "map fst (row u) = USAGE_EXPORT_FIELDS \<and>
      dget (row u) ''cost_usd'' = Some (case us_cost_usd u of None \<Rightarrow> VNone | Some x \<Rightarrow> VFloat x)" for u
    by (simp add: row_def USAGE_EXPORT_FIELDS_def usage_json_def)
  show ?thesis
    using get export r row by (intro exI [of _ r] exI [of _ "map row us"]) (auto simp: sums zip_map2 zip_same_conv_map)
qed

definition priced_call :: "pyfloat option \<Rightarrow> usage_record" where
  "priced_call c =
     \<lparr>us_id = ''u'', us_task_id = ''t'', us_provider_id = ''p'', us_model_id = ''m'', us_input_tokens = Some 3,
      us_cached_input_tokens = None, us_output_tokens = None, us_reasoning_tokens = None,
      us_cost_status = (if c = None then CO_unknown else CO_known), us_cost_usd = c, us_latency_ms = 5, us_retries = 0,
      us_recorded_at = 0\<rparr>"

lemma usage_never_guesses_cost_witness:
  "\<exists>r. get_usage hd ''t'' (view.st_usage_update (\<lambda>_. [(''t'', [priced_call (Some (Fin 1)), priced_call None])]) streamed_store) = Inr r \<and>
     ut_input_tokens (tr_totals r) = 6 \<and> ut_cost_usd (tr_totals r) = None"
  using usage_never_guesses_cost [where t = "''t''" and us = "[priced_call (Some (Fin 1)), priced_call None]" and fsum = hd
      and isoformat = "\<lambda>_. []" and s = "view.st_usage_update (\<lambda>_. [(''t'', [priced_call (Some (Fin 1)), priced_call None])]) streamed_store"]
  by (auto simp: streamed_store_def priced_call_def usage_cost_agrees_def)

end
