(* ===== verification/Controllers.thy ===== *)
theory Controllers
  imports Application
begin

text \<open>
  \<^verbatim>\<open>routing/rank.py\<close> and \<^verbatim>\<open>routing/automatic.py\<close>: the ranking of certified controllers, the choice of a
  controller for a session in automatic mode and the switch to another one. The identifier and the
  time of a new epoch are arguments. Every score is the constant \<^verbatim>\<open>1.0\<close>.
\<close>

section \<open>Ranking: routing/rank.py\<close>

datatype preference = Latency | Cost

record controller_rank =
  cr_profile :: model_profile
  cr_score :: rat
  cr_reason :: string

definition controller_ranker :: "string \<Rightarrow> preference res" where
  "controller_ranker prefer =
     (if prefer = ''latency'' then Inr Latency
      else if prefer = ''cost'' then Inr Cost
      else Inl (ValueError ''prefer must be latency or cost''))"

definition rank_profile :: "preference \<Rightarrow> model_profile \<Rightarrow> controller_rank" where
  "rank_profile prefer p =
     \<lparr>cr_profile = p, cr_score = 1,
      cr_reason = (case prefer of
          Cost \<Rightarrow> ''controller certified; deterministic preference (cost) without measured ranking evidence''
        | Latency \<Rightarrow> ''controller certified; deterministic preference (latency) without measured ranking evidence'')\<rparr>"

definition rank_controllers :: "preference \<Rightarrow> model_profile list \<Rightarrow> controller_rank list" where
  "rank_controllers prefer profiles =
     (let eligible = sort_key (\<lambda>p. (mp_provider_id p, mp_model_id p)) (filter eligible_for_controller profiles)
      in sort_key (\<lambda>r. - cr_score r) (map (rank_profile prefer) eligible))"

definition select_controller :: "preference \<Rightarrow> model_profile list \<Rightarrow> controller_rank option" where
  "select_controller prefer profiles =
     (case rank_controllers prefer profiles of [] \<Rightarrow> None | r # _ \<Rightarrow> Some r)"

definition build_controller_epoch ::
    "string \<Rightarrow> int \<Rightarrow> string \<Rightarrow> controller_rank \<Rightarrow> string \<Rightarrow> time \<Rightarrow> controller_epoch" where
  "build_controller_epoch epoch_id version session_id r effort now =
     \<lparr>ce_id = epoch_id, ce_version = version, ce_controller_session_id = session_id,
      ce_provider_id = mp_provider_id (cr_profile r), ce_model_id = mp_model_id (cr_profile r),
      ce_model_snapshot = None, ce_reasoning_effort = effort, ce_status = ES_active, ce_activated_at = now\<rparr>"

section \<open>The automatic controller: routing/automatic.py\<close>

definition RUNNING_TASK_STATUSES :: "task_status list" where
  "RUNNING_TASK_STATUSES =
     [TS_queued, TS_running, TS_pause_requested, TS_cancel_requested, TS_waiting_approval]"

record automatic_service =
  au_profiles :: "model_profile list"
  au_prefer :: preference

definition require_session_version :: "int \<Rightarrow> int \<Rightarrow> ('s, unit) prog" where
  "require_session_version actual expected =
     rewrap is_value_error (DomainError ''version_conflict'' 409) (lift (require_version actual expected))"

text \<open>The new epoch, the session that points to it, and their one event.\<close>

definition activate_epoch ::
    "event hashing \<Rightarrow> controller_session \<Rightarrow> controller_epoch \<Rightarrow> idem \<Rightarrow> ('r store_scheme, controller_epoch) prog" where
  "activate_epoch H cs e key =
     andthen (modify (put_epoch e))
    (andthen (modify (put_session (cs\<lparr>cs_active_controller_epoch_id := Some (ce_id e), cs_version := cs_version cs + 1\<rparr>)))
    (andthen (commit H (EpochRegistered e) key) (ret e)))"

definition ensure_controller ::
    "event hashing \<Rightarrow> automatic_service \<Rightarrow> string \<Rightarrow> int \<Rightarrow> string \<Rightarrow> string \<Rightarrow> time \<Rightarrow> idem \<Rightarrow>
     ('r store_scheme, controller_epoch) prog" where
  "ensure_controller H A session_id expected effort epoch_id now key =
     bind (get (\<lambda>s. dget (st_sessions s) session_id)) (\<lambda>found.
     case found of
       None \<Rightarrow> raise_exn (DomainError ''not_found'' 404)
     | Some cs \<Rightarrow>
       andthen (require_session_version (cs_version cs) expected)
      (andthen (raise_when (cs_orchestration_mode cs \<noteq> OM_automatic) (DomainError ''not_automatic_mode'' 422))
      (case cs_active_controller_epoch_id cs of
         Some (c # i) \<Rightarrow>
           bind (get (\<lambda>s. dget (st_epochs s) (c # i))) (\<lambda>e.
           case e of None \<Rightarrow> raise_exn (DomainError ''epoch_not_found'' 500) | Some ce \<Rightarrow> ret ce)
       | _ \<Rightarrow>
         (case select_controller (au_prefer A) (au_profiles A) of
            None \<Rightarrow> raise_exn (DomainError ''no_certified_controller'' 409)
          | Some r \<Rightarrow> activate_epoch H cs (build_controller_epoch epoch_id 1 session_id r effort now) key))))"

definition session_busy :: "string \<Rightarrow> 'r view_scheme \<Rightarrow> bool" where
  "session_busy session_id s \<longleftrightarrow>
     list_ex (\<lambda>t. pt_controller_session_id t = session_id \<and> pt_status t \<in> set RUNNING_TASK_STATUSES) (dvalues (st_tasks s))"

definition current_epoch :: "controller_session \<Rightarrow> 'r view_scheme \<Rightarrow> controller_epoch option" where
  "current_epoch cs s =
     (case cs_active_controller_epoch_id cs of Some (c # i) \<Rightarrow> dget (st_epochs s) (c # i) | _ \<Rightarrow> None)"

definition release_epoch :: "event hashing \<Rightarrow> controller_epoch option \<Rightarrow> ('r store_scheme, unit) prog" where
  "release_epoch H current =
     (case current of
        None \<Rightarrow> ret ()
      | Some e \<Rightarrow>
          let u = e\<lparr>ce_status := ES_released\<rparr>
          in andthen (modify (put_epoch u)) (commit H (EpochReleased u) None))"

definition switch_controller ::
    "event hashing \<Rightarrow> automatic_service \<Rightarrow> string \<Rightarrow> int \<Rightarrow> string \<Rightarrow> string \<Rightarrow> time \<Rightarrow> idem \<Rightarrow>
     ('r store_scheme, controller_epoch answer) prog" where
  "switch_controller H A session_id expected effort epoch_id now key =
     bind (get (check_idempotency key)) (\<lambda>checked.
     bind (lift checked) (\<lambda>old.
     case old of
       Some r \<Rightarrow> ret (Replayed r)
     | None \<Rightarrow>
       bind (get (\<lambda>s. dget (st_sessions s) session_id)) (\<lambda>found.
       case found of
         None \<Rightarrow> raise_exn (DomainError ''not_found'' 404)
       | Some cs \<Rightarrow>
         andthen (require_session_version (cs_version cs) expected)
        (andthen (raise_when (cs_orchestration_mode cs \<noteq> OM_automatic) (DomainError ''not_automatic_mode'' 422))
        (bind (get (session_busy session_id)) (\<lambda>busy.
         andthen (raise_when busy (DomainError ''session_busy'' 409))
        (case select_controller (au_prefer A) (au_profiles A) of
           None \<Rightarrow> raise_exn (DomainError ''no_certified_controller'' 409)
         | Some r \<Rightarrow>
           bind (get (current_epoch cs)) (\<lambda>current.
           let version = (case current of None \<Rightarrow> 1 | Some e \<Rightarrow> ce_version e + 1);
               e = build_controller_epoch epoch_id version session_id r effort now
           in andthen (release_epoch H current)
                (bind (activate_epoch H cs e key) (\<lambda>e. ret (Answered e)))))))))))"

lemma session_busy_iff:
  "session_busy i s \<longleftrightarrow>
     (\<exists>t \<in> set (dvalues (st_tasks s)). pt_controller_session_id t = i \<and>
        pt_status t \<in> {TS_queued, TS_running, TS_pause_requested, TS_cancel_requested, TS_waiting_approval})"
  by (auto simp: session_busy_def RUNNING_TASK_STATUSES_def list_ex_iff)

section \<open>Which controller is chosen\<close>

definition profile_key :: "model_profile \<Rightarrow> string \<times> string" where
  "profile_key p = (mp_provider_id p, mp_model_id p)"

text \<open>All scores are equal, so the second sort keeps the order of the first.\<close>

lemma rank_controllers_sorted:
  "rank_controllers prefer ps = map (rank_profile prefer) (sort_key profile_key (filter eligible_for_controller ps))"
proof -
  have "sorted (map (\<lambda>r. - cr_score r) (map (rank_profile prefer) qs))" for qs
    by (induction qs) (auto simp: rank_profile_def)
  then show ?thesis
    unfolding rank_controllers_def Let_def profile_key_def [abs_def] by (rule sort_key_id_if_sorted)
qed

definition best_controller :: "model_profile list \<Rightarrow> model_profile \<Rightarrow> bool" where
  "best_controller ps p \<longleftrightarrow>
     p \<in> set ps \<and> eligible_for_controller p \<and>
     (\<forall>q \<in> set ps. eligible_for_controller q \<longrightarrow> profile_key p \<le> profile_key q)"

lemma select_controller_Some:
  assumes "select_controller prefer ps = Some r"
  shows "best_controller ps (cr_profile r)"
proof -
  let ?qs = "sort_key profile_key (filter eligible_for_controller ps)"
  obtain q rest where qs: "?qs = q # rest" "r = rank_profile prefer q"
    using assms by (auto simp: select_controller_def rank_controllers_sorted split: list.splits)
  have "set (q # rest) = set ps \<inter> {p. eligible_for_controller p}" unfolding qs(1) [symmetric] by auto
  moreover have "sorted (map profile_key (q # rest))" unfolding qs(1) [symmetric] by simp
  ultimately show ?thesis unfolding best_controller_def qs(2) by (auto simp: rank_profile_def)
qed

lemma select_controller_None: "select_controller prefer ps = None \<longleftrightarrow> (\<forall>p \<in> set ps. \<not> eligible_for_controller p)"
proof -
  have "select_controller prefer ps = None \<longleftrightarrow> sort_key profile_key (filter eligible_for_controller ps) = []"
    by (auto simp: select_controller_def rank_controllers_sorted split: list.splits)
  then show ?thesis by (metis filter_empty_conv set_empty2 set_sort)
qed

section \<open>What a choice and a switch leave behind\<close>

lemma restart_recovered:
  assumes "consistent H t"
  shows "\<exists>u. restart H m f io t = Inr u \<and> recorded u = recorded t"
  using restart_same [OF assms] by blast

lemma recorded_epochs_sessions:
  assumes "recorded u = recorded t"
  shows "st_epochs u = st_epochs t" and "st_sessions u = st_sessions t"
  using arg_cong [OF assms, of st_epochs] arg_cong [OF assms, of st_sessions] by (simp_all add: recorded_def view.defs)

definition activated :: "controller_session \<Rightarrow> controller_epoch \<Rightarrow> controller_session" where
  "activated cs e = cs\<lparr>cs_active_controller_epoch_id := Some (ce_id e), cs_version := cs_version cs + 1\<rparr>"

lemma activate_epoch_Inr:
  "activate_epoch H cs e key s = (Inr x, t) \<longleftrightarrow>
     x = e \<and> commit H (EpochRegistered e) key (put_session (activated cs e) (put_epoch e s)) = (Inr (), t)"
  by (auto simp: activate_epoch_def activated_def prog_simps)

lemma apply_activation:
  "dget (st_sessions s) (ce_controller_session_id e) = Some cs \<Longrightarrow>
     apply_event (EpochRegistered e) s = Inr (put_session (activated cs e) (put_epoch e s))"
  by (simp add: activated_def)

lemma restart_journal: "st_journal s = st_journal t \<Longrightarrow> restart H m f io s = restart H m f io t"
  by (simp add: restart_def)

lemma commit_journal:
  fixes s t :: "'r store_scheme"
  assumes "commit H e k s = (r, s')" and "st_journal s = st_journal t"
  shows "commit H e k t = (r, t\<lparr>st_journal := st_journal s'\<rparr>)"
proof -
  obtain m where m: "(commit H e k :: ('r store_scheme, unit) prog) = on_journal m" unfolding commit_def commit_frame_def by blast
  obtain x j where j: "m (st_journal t) = (x, j)" by fastforce
  have "r = x" and "s' = s\<lparr>st_journal := j\<rparr>" using assms(1) unfolding m on_journal_def assms(2) j by simp_all
  then show ?thesis unfolding m on_journal_def j by simp
qed

text \<open>
  The automatic controller is chosen once and stays. A request that is answered was made for a
  session in automatic mode with its current version. If the session had a controller, that epoch is
  returned and nothing changes; otherwise the new epoch is that of the certified and compatible profile
  that comes first by provider and model, the session points to it under the next version, and the
  next process finds both.
\<close>

theorem controller_choice_is_sticky:
  fixes s :: "'r store_scheme"
  assumes inv: "consistent H s" and run: "ensure_controller H A i expected effort epoch_id now key s = (Inr e, t)"
  shows "\<exists>cs. dget (st_sessions s) i = Some cs \<and> cs_version cs = expected \<and> cs_orchestration_mode cs = OM_automatic \<and>
    (if cs_active_controller_epoch_id cs \<in> {None, Some []}
     then (\<exists>p. best_controller (au_profiles A) p \<and> ce_provider_id e = mp_provider_id p \<and> ce_model_id e = mp_model_id p) \<and>
       ce_id e = epoch_id \<and> ce_status e = ES_active \<and>
       (\<exists>u. restart H m f io t = Inr u \<and> dget (st_epochs u) epoch_id = Some e \<and>
            dget (st_sessions u) (cs_id cs) = Some (activated cs e))
     else t = s \<and> (\<exists>c. cs_active_controller_epoch_id cs = Some c \<and> dget (st_epochs s) c = Some e))"
proof -
  from run obtain cs where cs: "dget (st_sessions s) i = Some cs" "cs_version cs = expected"
      "cs_orchestration_mode cs = OM_automatic"
    and rest: "(case cs_active_controller_epoch_id cs of
         Some (c # j) \<Rightarrow>
           bind (get (\<lambda>s. dget (st_epochs s) (c # j))) (\<lambda>e.
           case e of None \<Rightarrow> raise_exn (DomainError ''epoch_not_found'' 500) | Some ce \<Rightarrow> ret ce)
       | _ \<Rightarrow>
         (case select_controller (au_prefer A) (au_profiles A) of
            None \<Rightarrow> raise_exn (DomainError ''no_certified_controller'' 409)
          | Some r \<Rightarrow> activate_epoch H cs (build_controller_epoch epoch_id 1 i r effort now) key)) s = (Inr e, t)"
    by (auto simp: ensure_controller_def require_session_version_def require_version_def prog_simps
        split: option.splits if_splits)
  show ?thesis
  proof (cases "cs_active_controller_epoch_id cs \<in> {None, Some []}")
    case True
    then obtain r where r: "select_controller (au_prefer A) (au_profiles A) = Some r"
      and act: "activate_epoch H cs (build_controller_epoch epoch_id 1 i r effort now) key s = (Inr e, t)"
      using rest by (auto split: option.splits)
    then have e: "e = build_controller_epoch epoch_id 1 i r effort now"
      and c: "commit H (EpochRegistered e) key (put_session (activated cs e) (put_epoch e s)) = (Inr (), t)"
      by (auto simp: activate_epoch_Inr)
    have "apply_event (EpochRegistered e) s = Inr (put_session (activated cs e) (put_epoch e s))"
      using cs by (intro apply_activation) (simp add: e build_controller_epoch_def)
    from consistent_update_commit [OF inv this c] have "consistent H t" .
    then obtain u where u: "restart H m f io t = Inr u" "recorded u = recorded t" using restart_recovered by blast
    obtain j where t: "t = (put_session (activated cs e) (put_epoch e s))\<lparr>st_journal := j\<rparr>" using commit_view [OF c] by blast
    have "dget (st_epochs u) epoch_id = Some e" "dget (st_sessions u) (cs_id cs) = Some (activated cs e)"
      using recorded_epochs_sessions [OF u(2)]
      by (simp_all add: t put_session_def put_epoch_def activated_def e build_controller_epoch_def)
    then show ?thesis
      using cs True u(1) select_controller_Some [OF r] by (auto simp: e build_controller_epoch_def)
  next
    case False
    then obtain c j where "cs_active_controller_epoch_id cs = Some (c # j)"
      by (cases "cs_active_controller_epoch_id cs") (auto simp: neq_Nil_conv)
    then show ?thesis using cs rest by (auto split: option.splits)
  qed
qed

text \<open>
  C29. A controller is switched only between tasks, but the release of the old one is not durable. A
  switch that is answered was made for a session in automatic mode with its current version and
  no task of the session queued, running, waiting or being stopped; the new epoch is that of the best
  certified profile, numbered after the current one, and the next process finds it and the session
  that points to it. The old epoch is released in this process, while the next process finds it as
  it was before.
\<close>

theorem controller_switch_is_safe:
  fixes s :: "'r store_scheme"
  assumes inv: "consistent H s" and keyed: "keyed ce_id (st_epochs s)" and fresh: "dget (st_epochs s) epoch_id = None"
    and run: "switch_controller H A i expected effort epoch_id now key s = (Inr (Answered e), t)"
  shows "\<exists>cs u. dget (st_sessions s) i = Some cs \<and> cs_version cs = expected \<and> cs_orchestration_mode cs = OM_automatic \<and>
    (\<forall>t \<in> set (dvalues (st_tasks s)). pt_controller_session_id t = i \<longrightarrow>
       pt_status t \<notin> {TS_queued, TS_running, TS_pause_requested, TS_cancel_requested, TS_waiting_approval}) \<and>
    (\<exists>p. best_controller (au_profiles A) p \<and> ce_provider_id e = mp_provider_id p \<and> ce_model_id e = mp_model_id p) \<and>
    ce_id e = epoch_id \<and> ce_version e = (case current_epoch cs s of None \<Rightarrow> 1 | Some c \<Rightarrow> ce_version c + 1) \<and>
    restart H m f io t = Inr u \<and> dget (st_epochs u) epoch_id = Some e \<and>
    dget (st_sessions u) (cs_id cs) = Some (activated cs e) \<and>
    (\<forall>c. current_epoch cs s = Some c \<longrightarrow>
       dget (st_epochs t) (ce_id c) = Some (c\<lparr>ce_status := ES_released\<rparr>) \<and> dget (st_epochs u) (ce_id c) = Some c)"
proof -
  from run obtain cs r where cs: "dget (st_sessions s) i = Some cs" "cs_version cs = expected"
      "cs_orchestration_mode cs = OM_automatic" and busy: "\<not> session_busy i s"
    and r: "select_controller (au_prefer A) (au_profiles A) = Some r"
    and rest: "andthen (release_epoch H (current_epoch cs s))
       (bind (activate_epoch H cs (build_controller_epoch epoch_id
          (case current_epoch cs s of None \<Rightarrow> 1 | Some c \<Rightarrow> ce_version c + 1) i r effort now) key)
         (\<lambda>e. ret (Answered e))) s = (Inr (Answered e), t)"
    by (auto simp: switch_controller_def require_session_version_def require_version_def prog_simps Let_def
        split: option.splits if_splits)
  define e' where "e' = build_controller_epoch epoch_id
     (case current_epoch cs s of None \<Rightarrow> 1 | Some c \<Rightarrow> ce_version c + 1) i r effort now"
  define s1 where "s1 = (case current_epoch cs s of None \<Rightarrow> s | Some c \<Rightarrow> put_epoch (c\<lparr>ce_status := ES_released\<rparr>) s)"
  from rest [folded e'_def] obtain j1 where inv1: "consistent H (s\<lparr>st_journal := j1\<rparr>)"
    and act: "activate_epoch H cs e' key (s1\<lparr>st_journal := j1\<rparr>) = (Inr e, t)"
  proof (cases "current_epoch cs s")
    case None
    then show ?thesis using rest [folded e'_def] that [of "st_journal s"] inv
      by (auto simp: release_epoch_def s1_def prog_simps)
  next
    case (Some c)
    let ?u = "c\<lparr>ce_status := ES_released\<rparr>"
    obtain w where w: "commit H (EpochReleased ?u) None (put_epoch ?u s) = (Inr (), w)"
      and act: "activate_epoch H cs e' key w = (Inr e, t)"
      using rest [folded e'_def] by (auto simp: Some release_epoch_def Let_def prog_simps)
    obtain j where j: "w = (put_epoch ?u s)\<lparr>st_journal := j\<rparr>" using commit_view [OF w] by blast
    have "commit H (EpochReleased ?u) None s = (Inr (), s\<lparr>st_journal := j\<rparr>)"
      using commit_journal [OF w, of s] by (simp add: j)
    from consistent_silent [OF inv this] have "consistent H (s\<lparr>st_journal := j\<rparr>)" by simp
    with act j show ?thesis by (intro that [of j]) (simp_all add: s1_def Some)
  qed
  have e: "e = e'" and c: "commit H (EpochRegistered e') key (put_session (activated cs e') (put_epoch e' (s1\<lparr>st_journal := j1\<rparr>))) = (Inr (), t)"
    using act by (auto simp: activate_epoch_Inr)
  let ?g = "put_session (activated cs e') (put_epoch e' (s\<lparr>st_journal := j1\<rparr>))"
  have ghost: "commit H (EpochRegistered e') key ?g = (Inr (), ?g\<lparr>st_journal := st_journal t\<rparr>)"
    by (rule commit_journal [OF c]) simp
  have "apply_event (EpochRegistered e') (s\<lparr>st_journal := j1\<rparr>) = Inr ?g"
    using cs by (intro apply_activation) (simp add: e'_def build_controller_epoch_def)
  from consistent_update_commit [OF inv1 this ghost] have "consistent H (?g\<lparr>st_journal := st_journal t\<rparr>)" .
  then obtain u where u: "restart H m f io (?g\<lparr>st_journal := st_journal t\<rparr>) = Inr u"
    "recorded u = recorded (?g\<lparr>st_journal := st_journal t\<rparr>)" using restart_recovered by blast
  have restart: "restart H m f io t = Inr u" using u(1) restart_journal [of t "?g\<lparr>st_journal := st_journal t\<rparr>" H m f io] by simp
  obtain j2 where t: "t = (put_session (activated cs e') (put_epoch e' (s1\<lparr>st_journal := j1\<rparr>)))\<lparr>st_journal := j2\<rparr>"
    using commit_view [OF c] by blast
  have ids: "ce_id e' = epoch_id" "ce_version e' = (case current_epoch cs s of None \<Rightarrow> 1 | Some c \<Rightarrow> ce_version c + 1)"
    "ce_provider_id e' = mp_provider_id (cr_profile r)" "ce_model_id e' = mp_model_id (cr_profile r)"
    by (simp_all add: e'_def build_controller_epoch_def)
  have old: "dget (st_epochs t) (ce_id c) = Some (c\<lparr>ce_status := ES_released\<rparr>) \<and> dget (st_epochs u) (ce_id c) = Some c"
    if now_active: "current_epoch cs s = Some c" for c
  proof -
    obtain k where "dget (st_epochs s) k = Some c" using now_active unfolding current_epoch_def by (cases "cs_active_controller_epoch_id cs") (auto split: list.splits)
    moreover from this keyed have "ce_id c = k" by (auto simp: keyed_def)
    ultimately have "dget (st_epochs s) (ce_id c) = Some c" "ce_id c \<noteq> epoch_id" using fresh by auto
    then show ?thesis using recorded_epochs_sessions [OF u(2)] now_active
      by (simp add: t s1_def put_session_def put_epoch_def ids)
  qed
  have new: "dget (st_epochs u) epoch_id = Some e'" "dget (st_sessions u) (cs_id cs) = Some (activated cs e')"
    using recorded_epochs_sessions [OF u(2)] by (simp_all add: put_session_def put_epoch_def activated_def ids)
  show ?thesis
    using cs busy [unfolded session_busy_iff] restart old new ids select_controller_Some [OF r] unfolding e by (intro exI [of _ cs] exI [of _ u]) auto
qed

section \<open>A session in automatic mode\<close>

definition auto_session :: controller_session where
  "auto_session = \<lparr>cs_id = ''c'', cs_version = 1, cs_tenant_id = ''t'', cs_host_session_id = ''h'',
     cs_orchestration_mode = OM_automatic, cs_active_controller_epoch_id = None, cs_max_active_workers = 5, cs_created_at = 0\<rparr>"

definition sample_profile :: "string \<Rightarrow> role_status \<Rightarrow> model_profile" where
  "sample_profile model status = \<lparr>mp_provider_id = ''p'', mp_model_id = model, mp_measured_at = ''now'',
     mp_protocol_status = PS_compatible, mp_worker_status = RO_candidate, mp_controller_status = status,
     mp_supported_modalities = [], mp_supported_tools = [], mp_effort_mapping = [], mp_region = ''eu'', mp_evidence_refs = []\<rparr>"

definition auto_service :: automatic_service where
  "auto_service = \<lparr>au_profiles = [sample_profile ''a'' RO_candidate, sample_profile ''b'' RO_certified], au_prefer = Latency\<rparr>"

lemma auto_session_simps [simp]:
  "cs_id auto_session = ''c''" "cs_version auto_session = 1" "cs_orchestration_mode auto_session = OM_automatic"
  "cs_active_controller_epoch_id auto_session = None"
  by (simp_all add: auto_session_def)

lemma activated_simps [simp]:
  "cs_id (activated cs e) = cs_id cs" "cs_version (activated cs e) = cs_version cs + 1"
  "cs_orchestration_mode (activated cs e) = cs_orchestration_mode cs"
  "cs_active_controller_epoch_id (activated cs e) = Some (ce_id e)"
  by (simp_all add: activated_def)

lemma build_controller_epoch_simps [simp]:
  "ce_id (build_controller_epoch i v c r effort now) = i" "ce_version (build_controller_epoch i v c r effort now) = v"
  "ce_controller_session_id (build_controller_epoch i v c r effort now) = c"
  by (simp_all add: build_controller_epoch_def)

lemma auto_select [simp]: "select_controller (au_prefer auto_service) (au_profiles auto_service) =
    Some (rank_profile Latency (sample_profile ''b'' RO_certified))"
  by (simp add: select_controller_def rank_controllers_def auto_service_def sample_profile_def eligible_for_controller_def)

lemma activate_epoch_runs:
  assumes "healthy H s"
  shows "\<exists>t. activate_epoch H cs e key s = (Inr e, t) \<and> healthy H t"
proof -
  have "healthy H (put_session (activated cs e) (put_epoch e s))"
    using assms healthy_journal [of s "put_session (activated cs e) (put_epoch e s)" H] by simp
  from healthy_commit [OF this, of "EpochRegistered e" key] show ?thesis by (auto simp: activate_epoch_Inr)
qed

lemma auto_store:
  obtains j where "consistent unit_hashing ((put_session auto_session (new_store []))\<lparr>st_journal := j\<rparr>)"
    and "healthy unit_hashing ((put_session auto_session (new_store []))\<lparr>st_journal := j\<rparr>)"
  using extend_store [OF healthy_new_store consistent_new_store, of "SessionCreated auto_session"] by auto

theorem controller_choice_is_sticky_witness:
  "\<exists>(s :: store) t e u. ensure_controller unit_hashing auto_service ''c'' 1 ''high'' ''e1'' 5 None s = (Inr e, t) \<and>
     restart unit_hashing None 0 [] t = Inr u \<and> dget (st_epochs u) ''e1'' = Some e"
proof -
  obtain j where c: "consistent unit_hashing ((put_session auto_session (new_store []))\<lparr>st_journal := j\<rparr>)"
    and h: "healthy unit_hashing ((put_session auto_session (new_store []))\<lparr>st_journal := j\<rparr>)" by (rule auto_store)
  let ?s = "(put_session auto_session (new_store []))\<lparr>st_journal := j\<rparr>"
  let ?e = "build_controller_epoch ''e1'' 1 ''c'' (rank_profile Latency (sample_profile ''b'' RO_certified)) ''high'' 5"
  have at: "dget (st_sessions ?s) ''c'' = Some auto_session" by (simp add: put_session_def)
  obtain t where "activate_epoch unit_hashing auto_session ?e None ?s = (Inr ?e, t)"
    using activate_epoch_runs [OF h] by blast
  then have run: "ensure_controller unit_hashing auto_service ''c'' 1 ''high'' ''e1'' 5 None ?s = (Inr ?e, t)"
    using at by (simp add: ensure_controller_def require_session_version_def require_version_def prog_simps)
  from controller_choice_is_sticky [OF c run, of None 0 "[]"] at
  obtain u where "restart unit_hashing None 0 [] t = Inr u" "dget (st_epochs u) ''e1'' = Some ?e"
    by auto
  with run show ?thesis by blast
qed

lemma release_epoch_runs:
  assumes "healthy H s"
  shows "\<exists>j. release_epoch H (Some e) s = (Inr (), (put_epoch (e\<lparr>ce_status := ES_released\<rparr>) s)\<lparr>st_journal := j\<rparr>) \<and>
    healthy H ((put_epoch (e\<lparr>ce_status := ES_released\<rparr>) s)\<lparr>st_journal := j\<rparr>)"
proof -
  have "healthy H (put_epoch (e\<lparr>ce_status := ES_released\<rparr>) s)"
    using assms healthy_journal [of s "put_epoch (e\<lparr>ce_status := ES_released\<rparr>) s" H] by simp
  from healthy_commit [OF this, of "EpochReleased (e\<lparr>ce_status := ES_released\<rparr>)" None]
  show ?thesis by (auto simp: release_epoch_def Let_def prog_simps)
qed

theorem controller_switch_is_safe_witness:
  "\<exists>(s :: store) t c e u. switch_controller unit_hashing auto_service ''c'' 2 ''high'' ''e2'' 7 None s = (Inr (Answered e), t) \<and>
     restart unit_hashing None 0 [] t = Inr u \<and> dget (st_epochs u) ''e2'' = Some e \<and>
     dget (st_epochs t) ''e1'' = Some (c\<lparr>ce_status := ES_released\<rparr>) \<and> dget (st_epochs u) ''e1'' = Some c"
proof -
  obtain j where c: "consistent unit_hashing ((put_session auto_session (new_store []))\<lparr>st_journal := j\<rparr>)"
    and h: "healthy unit_hashing ((put_session auto_session (new_store []))\<lparr>st_journal := j\<rparr>)" by (rule auto_store)
  let ?s = "(put_session auto_session (new_store []))\<lparr>st_journal := j\<rparr>"
  let ?r = "rank_profile Latency (sample_profile ''b'' RO_certified)"
  let ?e1 = "build_controller_epoch ''e1'' 1 ''c'' ?r ''high'' 5"
  let ?e2 = "build_controller_epoch ''e2'' 2 ''c'' ?r ''high'' 7"
  let ?cs = "activated auto_session ?e1"
  let ?v = "put_session ?cs (put_epoch ?e1 ?s)"
  have "apply_event (EpochRegistered ?e1) ?s = Inr ?v"
    by (intro apply_activation) (simp add: put_session_def)
  from extend_store [OF h c this] obtain k where cv: "consistent unit_hashing (?v\<lparr>st_journal := k\<rparr>)"
    and hv: "healthy unit_hashing (?v\<lparr>st_journal := k\<rparr>)" by blast
  let ?w = "?v\<lparr>st_journal := k\<rparr>"
  have sess: "dget (st_sessions ?w) ''c'' = Some ?cs" and eps: "st_epochs ?w = [(''e1'', ?e1)]"
    and tasks: "st_tasks ?w = []"
    by (simp_all add: put_session_def put_epoch_def)
  have cur: "current_epoch ?cs ?w = Some ?e1"
    unfolding current_epoch_def eps by simp
  obtain w' where rel: "release_epoch unit_hashing (Some ?e1) ?w = (Inr (), w')" and hw: "healthy unit_hashing w'"
    using release_epoch_runs [OF hv] by blast
  obtain t where act: "activate_epoch unit_hashing ?cs ?e2 None w' = (Inr ?e2, t)" using activate_epoch_runs [OF hw] by blast
  have "\<not> session_busy ''c'' ?w" unfolding session_busy_def tasks by simp
  with sess cur rel act have run: "switch_controller unit_hashing auto_service ''c'' 2 ''high'' ''e2'' 7 None ?w = (Inr (Answered ?e2), t)"
    by (simp add: switch_controller_def check_idempotency_def require_session_version_def require_version_def prog_simps Let_def)
  have "keyed ce_id (st_epochs ?w)" "dget (st_epochs ?w) ''e2'' = None" unfolding eps by (simp_all add: keyed_def)
  from controller_switch_is_safe [OF cv this run, of None 0 "[]"] sess cur
  show ?thesis using run by force
qed

end
