(* ===== verification/Egress.thy ===== *)
theory Egress
  imports Controllers
begin

text \<open>
  \<^verbatim>\<open>egress/models.py\<close>, \<^verbatim>\<open>egress/ledger.py\<close> and \<^verbatim>\<open>egress/handoff.py\<close>: which data may leave for another provider,
  the durable record of what left, and the handoff of an attempt, with the handlers of \<^verbatim>\<open>api/app.py\<close>. The
  identifier and the time of the new record are arguments.
\<close>

section \<open>The policy and the ledger\<close>

record egress_policy =
  ep_allowed_classifications :: "string list"
  ep_allowed_field_prefixes :: "string list"
  ep_allowed_target_providers :: "string list"

definition default_egress_policy :: egress_policy where
  "default_egress_policy =
     \<lparr>ep_allowed_classifications = [''public'', ''internal''],
      ep_allowed_field_prefixes = [''task_id'', ''child_task_id'', ''goal'', ''acceptance''],
      ep_allowed_target_providers = []\<rparr>"

definition field_allowed :: "egress_policy \<Rightarrow> string \<Rightarrow> bool" where
  "field_allowed P f \<longleftrightarrow> list_ex (\<lambda>p. f = p \<or> prefix (p @ ''_'') f) (ep_allowed_field_prefixes P)"

definition egress_allows :: "egress_policy \<Rightarrow> string \<Rightarrow> string \<Rightarrow> string list \<Rightarrow> bool" where
  "egress_allows P classification target_provider names =
     (if classification \<notin> set (ep_allowed_classifications P) then False
      else if ep_allowed_target_providers P \<noteq> [] \<and> target_provider \<notin> set (ep_allowed_target_providers P) then False
      else if names = [] then True
      else list_all (field_allowed P) names)"

definition record_egress :: "event hashing \<Rightarrow> egress_record \<Rightarrow> idem \<Rightarrow> ('r store_scheme, egress_record) prog" where
  "record_egress H r key =
     andthen (lift (if wf_egress_record r then Inr () else Inl (ValueError ''invalid'')))
    (andthen (modify (put_egress r)) (andthen (commit H (EgressRecorded r) key) (ret r)))"

definition list_egress :: "string option \<Rightarrow> string option \<Rightarrow> 'r view_scheme \<Rightarrow> egress_record list" where
  "list_egress task_id target_provider s =
     (let records = dvalues (st_egress_records s);
          records = (case task_id of None \<Rightarrow> records | Some i \<Rightarrow> filter (\<lambda>r. eg_task_id r = Some i) records);
          records = (case target_provider of None \<Rightarrow> records | Some p \<Rightarrow> filter (\<lambda>r. eg_target_provider r = p) records)
      in sort_key (\<lambda>r. (eg_recorded_at r, eg_id r)) records)"

section \<open>The handoff of an attempt\<close>

definition task_of_child :: "string \<Rightarrow> 'r view_scheme \<Rightarrow> parent_task option" where
  "task_of_child child s = List.find (\<lambda>t. child \<in> set (pt_child_task_ids t)) (dvalues (st_tasks s))"

definition source_provider :: "parent_task option \<Rightarrow> 'r view_scheme \<Rightarrow> string" where
  "source_provider task s =
     (case task of
        None \<Rightarrow> ''unknown''
      | Some t \<Rightarrow>
     (case dget (st_sessions s) (pt_controller_session_id t) of
        None \<Rightarrow> ''unknown''
      | Some cs \<Rightarrow>
     (case cs_active_controller_epoch_id cs of
        None \<Rightarrow> ''unknown''
      | Some i \<Rightarrow> (case dget (st_epochs s) i of None \<Rightarrow> ''unknown'' | Some e \<Rightarrow> ce_provider_id e))))"

definition handed_off :: "worker_attempt \<Rightarrow> string \<Rightarrow> string \<Rightarrow> worker_attempt" where
  "handed_off a provider model =
     a\<lparr>wa_version := wa_version a + 1, wa_provider_id := Some provider, wa_model_id := Some model\<rparr>"

definition egress_of ::
    "string \<Rightarrow> parent_task option \<Rightarrow> worker_attempt \<Rightarrow> string \<Rightarrow> string \<Rightarrow> string \<Rightarrow> string list \<Rightarrow> time \<Rightarrow> egress_record" where
  "egress_of i task a source target classification names now =
     \<lparr>eg_id = i, eg_task_id = map_option pt_id task, eg_child_task_id = Some (wa_child_task_id a),
      eg_source_provider = source, eg_target_provider = target, eg_data_classification = classification,
      eg_fields = names, eg_recorded_at = now\<rparr>"

definition carry_out_handoff ::
    "event hashing \<Rightarrow> worker_attempt \<Rightarrow> egress_record \<Rightarrow> handoff_result \<Rightarrow> idem \<Rightarrow> ('r store_scheme, handoff_result answer) prog"
  where
  "carry_out_handoff H a r result key =
     (let u = handed_off a (hr_target_provider result) (hr_target_model result) in
      bind (record_egress H r None) (\<lambda>_.
      andthen (modify (put_attempt u))
     (andthen (commit H (WorkerHandedOff u) None)
     (andthen (if key = None then ret () else commit H (HandoffResult result) key) (ret (Answered result))))))"

definition handoff_attempt ::
    "event hashing \<Rightarrow> egress_policy \<Rightarrow> string option \<Rightarrow> string \<Rightarrow> string \<Rightarrow> string list \<Rightarrow> string \<Rightarrow> string \<Rightarrow> string \<Rightarrow> time \<Rightarrow>
     idem \<Rightarrow> ('r store_scheme, handoff_result answer) prog" where
  "handoff_attempt H P attempt_id target_provider target_model names classification reason egress_id now key =
     bind (get (check_idempotency key)) (\<lambda>checked.
     bind (lift checked) (\<lambda>old.
     case old of
       Some r \<Rightarrow> ret (Replayed r)
     | None \<Rightarrow>
       bind (get (\<lambda>s. case attempt_id of None \<Rightarrow> None | Some i \<Rightarrow> dget (st_attempts s) i)) (\<lambda>found.
       case found of
         None \<Rightarrow> raise_exn (DomainError ''not_found'' 404)
       | Some a \<Rightarrow>
         andthen (raise_when (\<not> egress_allows P classification target_provider names) (DomainError ''egress_denied'' 409))
        (bind (get (task_of_child (wa_child_task_id a))) (\<lambda>task.
         bind (get (source_provider task)) (\<lambda>source.
         carry_out_handoff H a (egress_of egress_id task a source target_provider classification names now)
           \<lparr>hr_attempt_id = wa_id a, hr_egress_id = egress_id, hr_source_provider = source,
            hr_target_provider = target_provider, hr_target_model = target_model,
            hr_data_classification = classification, hr_fields = names, hr_reason = reason\<rparr> key))))))"

text \<open>\<^verbatim>\<open>POST /v1/tasks/{task_id}/handoff\<close>: the first attempt of the child task.\<close>

definition handoff_task ::
    "event hashing \<Rightarrow> egress_policy \<Rightarrow> string \<Rightarrow> string \<Rightarrow> string \<Rightarrow> string \<Rightarrow> string list \<Rightarrow> string \<Rightarrow> string \<Rightarrow> time \<Rightarrow>
     idem \<Rightarrow> ('r store_scheme, handoff_result answer) prog" where
  "handoff_task H P task_id child_task_id target_provider target_model names classification egress_id now key =
     bind (get (\<lambda>s. dget (st_tasks s) task_id)) (\<lambda>found.
     case found of
       None \<Rightarrow> raise_exn (DomainError ''not_found'' 404)
     | Some t \<Rightarrow>
       andthen (raise_when (child_task_id \<notin> set (pt_child_task_ids t)) (DomainError ''not_found'' 404))
      (bind (get (\<lambda>s. List.find (\<lambda>a. wa_child_task_id a = child_task_id) (dvalues (st_attempts s)))) (\<lambda>attempt.
       handoff_attempt H P (map_option wa_id attempt) target_provider target_model names classification
         ''read_only_handoff'' egress_id now key)))"

section \<open>What a handoff leaves behind\<close>

lemma egress_allows_iff:
  "egress_allows P cls provider names \<longleftrightarrow>
     cls \<in> set (ep_allowed_classifications P) \<and>
     (ep_allowed_target_providers P = [] \<or> provider \<in> set (ep_allowed_target_providers P)) \<and>
     (\<forall>f \<in> set names. \<exists>p \<in> set (ep_allowed_field_prefixes P). f = p \<or> prefix (p @ ''_'') f)"
  by (auto simp: egress_allows_def field_allowed_def list_all_iff list_ex_iff)

lemma record_egress_Inr:
  "record_egress H r key s = (Inr x, t) \<longleftrightarrow>
     x = r \<and> wf_egress_record r \<and> commit H (EgressRecorded r) key (put_egress r s) = (Inr (), t)"
  by (auto simp: record_egress_def prog_simps split: if_splits)

lemma carry_out_handoff_Inr:
  fixes s :: "'r store_scheme"
  assumes inv: "consistent H s" and run: "carry_out_handoff H a r result key s = (Inr x, t)"
  shows "x = Answered result \<and> wf_egress_record r \<and> consistent H t \<and>
    (\<exists>j. t = (put_attempt (handed_off a (hr_target_provider result) (hr_target_model result)) (put_egress r s))\<lparr>st_journal := j\<rparr>)"
proof -
  let ?u = "handed_off a (hr_target_provider result) (hr_target_model result)"
  from run obtain v w where rec: "record_egress H r None s = (Inr r, v)"
    and c: "commit H (WorkerHandedOff ?u) None (put_attempt ?u v) = (Inr (), w)"
    and last: "andthen (if key = None then ret () else commit H (HandoffResult result) key) (ret (Answered result)) w = (Inr x, t)"
    by (auto simp: carry_out_handoff_def Let_def prog_simps record_egress_Inr elim!: bind_InrE andthen_InrE)
  then have wf: "wf_egress_record r" and c0: "commit H (EgressRecorded r) None (put_egress r s) = (Inr (), v)"
    by (auto simp: record_egress_Inr)
  have v: "consistent H v" by (rule consistent_update_commit [OF inv _ c0]) simp
  have w: "consistent H w" by (rule consistent_update_commit [OF v _ c]) simp
  obtain j1 where j1: "v = (put_egress r s)\<lparr>st_journal := j1\<rparr>" using commit_view [OF c0] by blast
  obtain j2 where j2: "w = (put_attempt ?u v)\<lparr>st_journal := j2\<rparr>" using commit_view [OF c] by blast
  have "x = Answered result \<and> consistent H t \<and> (\<exists>j. t = w\<lparr>st_journal := j\<rparr>)"
  proof (cases "key = None")
    case True
    then have "x = Answered result" "t = w" using last by (auto simp: andthen_def bind_def)
    then show ?thesis using w by (metis store.surjective store.update_convs(1))
  next
    case False
    then have x: "x = Answered result" and c2: "commit H (HandoffResult result) key w = (Inr (), t)"
      using last by (auto simp: prog_simps elim!: andthen_InrE)
    have "consistent H t" by (rule consistent_silent [OF w c2]) simp
    with x commit_view [OF c2] show ?thesis by blast
  qed
  then show ?thesis using wf j1 j2 by (auto simp: put_attempt_def)
qed

text \<open>
  C30. A handoff is permitted, recorded and nothing more. When an attempt is handed to another
  provider, the policy allows the declared classification, the destination and every field; the next
  process lists exactly those in its ledger, with the provider the data came from, and finds the
  attempt re-pointed to the new provider and model under its next version, with its status, claim
  and checkpoint unchanged. No other attempt and no task changes.
\<close>

theorem handoff_is_permitted_and_recorded:
  fixes s :: "'r store_scheme"
  assumes inv: "consistent H s" and ok: "attempts_ok s"
    and run: "handoff_attempt H P (Some i) provider model names cls reason egress_id now key s = (Inr (Answered r), t)"
  shows "\<exists>a u. dget (st_attempts s) i = Some a \<and>
    cls \<in> set (ep_allowed_classifications P) \<and>
    (ep_allowed_target_providers P = [] \<or> provider \<in> set (ep_allowed_target_providers P)) \<and>
    (\<forall>f \<in> set names. \<exists>p \<in> set (ep_allowed_field_prefixes P). f = p \<or> prefix (p @ ''_'') f) \<and>
    restart H m f io t = Inr u \<and>
    dget (st_egress_records u) egress_id = Some \<lparr>eg_id = egress_id,
      eg_task_id = map_option pt_id (task_of_child (wa_child_task_id a) s), eg_child_task_id = Some (wa_child_task_id a),
      eg_source_provider = source_provider (task_of_child (wa_child_task_id a) s) s, eg_target_provider = provider,
      eg_data_classification = cls, eg_fields = names, eg_recorded_at = now\<rparr> \<and>
    dget (st_attempts u) i = Some (a\<lparr>wa_version := wa_version a + 1, wa_provider_id := Some provider, wa_model_id := Some model\<rparr>) \<and>
    (\<forall>k. k \<noteq> i \<longrightarrow> dget (st_attempts u) k = dget (st_attempts s) k) \<and> st_tasks u = st_tasks s"
proof -
  from run obtain a where a: "dget (st_attempts s) i = Some a" and allowed: "egress_allows P cls provider names"
    and go: "carry_out_handoff H a (egress_of egress_id (task_of_child (wa_child_task_id a) s) a
        (source_provider (task_of_child (wa_child_task_id a) s) s) provider cls names now)
       \<lparr>hr_attempt_id = wa_id a, hr_egress_id = egress_id,
        hr_source_provider = source_provider (task_of_child (wa_child_task_id a) s) s,
        hr_target_provider = provider, hr_target_model = model,
        hr_data_classification = cls, hr_fields = names, hr_reason = reason\<rparr> key s = (Inr (Answered r), t)"
    by (auto simp: handoff_attempt_def prog_simps split: option.splits if_splits)
  define e where "e = egress_of egress_id (task_of_child (wa_child_task_id a) s) a
        (source_provider (task_of_child (wa_child_task_id a) s) s) provider cls names now"
  have wa: "wa_id a = i" using a ok by (auto simp: attempts_ok_def keyed_def)
  obtain j where t: "t = (put_attempt (handed_off a provider model) (put_egress e s))\<lparr>st_journal := j\<rparr>" and c: "consistent H t"
    using carry_out_handoff_Inr [OF inv go] by (auto simp: e_def)
  obtain u where u: "restart H m f io t = Inr u" "recorded u = recorded t" using restart_same [OF c] by blast
  have eq: "st_attempts u = st_attempts t" "st_tasks u = st_tasks t" "st_egress_records u = st_egress_records t"
    using arg_cong [OF u(2), of st_attempts] arg_cong [OF u(2), of st_tasks] arg_cong [OF u(2), of st_egress_records]
    by (simp_all add: recorded_def view.defs)
  show ?thesis
    using a allowed [unfolded egress_allows_iff] u(1) wa
    by (intro exI [of _ a] exI [of _ u])
      (auto simp: eq t put_attempt_def put_egress_def handed_off_def e_def egress_of_def)
qed

section \<open>Restricted data under a declared classification\<close>

definition restricted_task :: parent_task where
  "restricted_task = running_task\<lparr>pt_data_classification := DC_restricted, pt_child_task_ids := [''ct'']\<rparr>"

lemma carry_out_handoff_runs:
  assumes "healthy H s" and "wf_egress_record r"
  shows "\<exists>t. carry_out_handoff H a r result None s = (Inr (Answered result), t)"
proof -
  let ?u = "handed_off a (hr_target_provider result) (hr_target_model result)"
  have "healthy H (put_egress r s)" using assms(1) healthy_journal [of s "put_egress r s" H] by simp
  from healthy_commit [OF this, of "EgressRecorded r" None] obtain v
    where v: "record_egress H r None s = (Inr r, v)" "healthy H v" using assms(2) by (auto simp: record_egress_Inr)
  have "healthy H (put_attempt ?u v)" using v(2) by simp
  from healthy_commit [OF this, of "WorkerHandedOff ?u" None] v(1) show ?thesis
    by (auto simp: carry_out_handoff_def Let_def bind_def andthen_def)
qed

text \<open>The classification of the task plays no part: restricted data leaves when it is declared internal.\<close>

lemma handoff_is_permitted_and_recorded_witness:
  "\<exists>(s :: store) t r u. pt_data_classification restricted_task = DC_restricted \<and>
     task_of_child ''ct'' s = Some restricted_task \<and>
     handoff_attempt unit_hashing default_egress_policy (Some ''a'') ''other'' ''m'' [''goal'', ''goal_text''] ''internal''
       ''read_only_handoff'' ''e'' 3 None s = (Inr (Answered r), t) \<and>
     restart unit_hashing None 0 [] t = Inr u \<and> map_option eg_fields (dget (st_egress_records u) ''e'') = Some [''goal'', ''goal_text'']"
proof -
  have "apply_event (TaskCreated restricted_task) (new_store []) = Inr (put_task restricted_task (new_store []))" by simp
  from extend_store [OF healthy_new_store consistent_new_store this] obtain j where
    c: "consistent unit_hashing ((put_task restricted_task (new_store []))\<lparr>st_journal := j\<rparr>)" and
    h: "healthy unit_hashing ((put_task restricted_task (new_store []))\<lparr>st_journal := j\<rparr>)" by blast
  let ?s = "(put_task restricted_task (new_store []))\<lparr>st_journal := j\<rparr>"
  have "apply_event (WorkerEvent WE_queued (some_attempt ''a'') None) ?s = Inr (put_attempt (some_attempt ''a'') ?s)"
    by (simp add: replayed_worker_events_def put_attempt_session_def)
  from extend_store [OF h c this] obtain k where
    c: "consistent unit_hashing ((put_attempt (some_attempt ''a'') ?s)\<lparr>st_journal := k\<rparr>)" and
    h: "healthy unit_hashing ((put_attempt (some_attempt ''a'') ?s)\<lparr>st_journal := k\<rparr>)" by blast
  let ?w = "(put_attempt (some_attempt ''a'') ?s)\<lparr>st_journal := k\<rparr>"
  have at: "st_attempts ?w = [(''a'', some_attempt ''a'')]" and tasks: "st_tasks ?w = [(''t'', restricted_task)]"
    by (simp_all add: put_attempt_def put_task_def restricted_task_def running_task_def)
  have ok: "attempts_ok ?w" unfolding attempts_ok_def at by (simp add: keyed_def)
  have ct: "wa_child_task_id (some_attempt ''a'') = ''ct''" by (simp add: some_attempt_def new_worker_attempt_def)
  have task: "task_of_child ''ct'' ?w = Some restricted_task" unfolding task_of_child_def tasks by (simp add: restricted_task_def)
  let ?src = "source_provider (Some restricted_task) ?w"
  let ?r = "\<lparr>hr_attempt_id = ''a'', hr_egress_id = ''e'', hr_source_provider = ?src, hr_target_provider = ''other'',
     hr_target_model = ''m'', hr_data_classification = ''internal'', hr_fields = [''goal'', ''goal_text''], hr_reason = ''read_only_handoff''\<rparr>"
  have allowed: "egress_allows default_egress_policy ''internal'' ''other'' [''goal'', ''goal_text'']"
    by (simp add: egress_allows_def default_egress_policy_def field_allowed_def)
  have wf: "wf_egress_record (egress_of ''e'' (Some restricted_task) (some_attempt ''a'') ?src ''other'' ''internal'' [''goal'', ''goal_text''] 3)"
    by (simp add: wf_egress_record_def egress_of_def)
  obtain t where "carry_out_handoff unit_hashing (some_attempt ''a'')
      (egress_of ''e'' (Some restricted_task) (some_attempt ''a'') ?src ''other'' ''internal'' [''goal'', ''goal_text''] 3) ?r None ?w =
      (Inr (Answered ?r), t)"
    using carry_out_handoff_runs [OF h wf] by blast
  then have run: "handoff_attempt unit_hashing default_egress_policy (Some ''a'') ''other'' ''m'' [''goal'', ''goal_text''] ''internal''
       ''read_only_handoff'' ''e'' 3 None ?w = (Inr (Answered ?r), t)"
    using allowed by (simp add: handoff_attempt_def check_idempotency_def prog_simps at ct task)
  from handoff_is_permitted_and_recorded [OF c ok run, of None 0 "[]"]
  obtain u where "restart unit_hashing None 0 [] t = Inr u"
    "map_option eg_fields (dget (st_egress_records u) ''e'') = Some [''goal'', ''goal_text'']" by auto
  with run task show ?thesis by (intro exI [of _ ?w] exI [of _ t] exI [of _ ?r] exI [of _ u]) (simp add: restricted_task_def)
qed

end
