(* ===== verification/Api.thy ===== *)
theory Api
  imports Observability Egress Approvals
begin

text \<open>
  The remaining handlers of \<^verbatim>\<open>api/app.py\<close>: the idempotency key of a request, the answer to an error, the
  handlers that pass a request to a service, the reviews of a child task and the queries.

  An \<^verbatim>\<open>HTTPException\<close> is the error \<open>DomainError\<close> with its code and status; its flag \<^verbatim>\<open>retryable\<close> is left out. Any
  other error that leaves a handler is answered with 500. The envelope of an answer is left out.
\<close>

section \<open>Keys and errors\<close>

record http_request =
  hq_tenant :: "string option"
  hq_path :: string
  hq_key :: "string option"
  hq_hash :: string

definition idem_key_of :: "http_request \<Rightarrow> idem_key res" where
  "idem_key_of q =
     (case hq_key q of
        None \<Rightarrow> Inl (DomainError ''missing_idempotency_key'' 400)
      | Some v \<Rightarrow>
          if v = [] \<or> 255 < length v \<or> v \<noteq> strip v \<or> list_ex (\<lambda>c. of_char c < (33 :: nat) \<or> (126 :: nat) < of_char c) v
          then Inl (DomainError ''invalid_idempotency_key'' 400)
          else Inr (case hq_tenant q of None \<Rightarrow> ''default'' | Some t \<Rightarrow> t, hq_path q, v))"

definition keyed_by :: "http_request \<Rightarrow> (idem \<Rightarrow> ('s, 'a) prog) \<Rightarrow> ('s, 'a) prog" where
  "keyed_by q m = bind (lift (idem_key_of q)) (\<lambda>k. m (Some (k, hq_hash q)))"

text \<open>The text of an error that carries none in this model is the parameter \<open>message\<close>.\<close>

fun error_text :: "(exn \<Rightarrow> string) \<Rightarrow> exn \<Rightarrow> string" where
  "error_text message (ValueError m) = m"
| "error_text message (JournalError m) = m"
| "error_text message (EventStreamError m) = m"
| "error_text message e = message e"

definition is_journal_error :: "exn \<Rightarrow> bool" where
  "is_journal_error e = (case e of JournalError _ \<Rightarrow> True | _ \<Rightarrow> False)"

definition handle_error :: "(exn \<Rightarrow> string) \<Rightarrow> exn \<Rightarrow> exn" where
  "handle_error message e =
     (case e of
        DomainError code status \<Rightarrow> DomainError code status
      | RuntimeProtectionError m \<Rightarrow> DomainError ''storage_protection'' 507
      | _ \<Rightarrow>
          if is_journal_error e \<or> is_value_error e
          then let code = error_text message e
               in DomainError code (if code = ''version_conflict'' \<or> code = ''idempotency_conflict'' then 409 else 422)
          else e)"

definition in_try :: "(exn \<Rightarrow> string) \<Rightarrow> ('s, 'a) prog \<Rightarrow> ('s, 'a) prog" where
  "in_try message m = (\<lambda>s. case m s of (Inl e, t) \<Rightarrow> (Inl (handle_error message e), t) | (Inr x, t) \<Rightarrow> (Inr x, t))"

definition http_status :: "exn \<Rightarrow> nat" where
  "http_status e = (case e of DomainError _ status \<Rightarrow> status | _ \<Rightarrow> 500)"

text \<open>The code of a request that does not parse, from the errors of its validation: their places and types.\<close>

fun validation_error_code :: "(pyval list \<times> string) list \<Rightarrow> string" where
  "validation_error_code [] = ''invalid_request''"
| "validation_error_code ((loc, type) # rest) =
     (if VStr ''expected_version'' \<in> set loc \<or> VStr ''expected_parent_version'' \<in> set loc
      then if type = ''missing'' then ''invalid_boundary'' else ''invalid_expected_version''
      else validation_error_code rest)"

definition ready :: "disk_usage \<Rightarrow> runtime_protection_config \<Rightarrow> unit res" where
  "ready usage limits =
     (case ensure_storage_capacity usage 0 None (rp_min_free_disk_bytes limits) of
        Inl (RuntimeProtectionError _) \<Rightarrow> Inl (DomainError ''storage_protection'' 503)
      | r \<Rightarrow> r)"

section \<open>Requests passed to a service\<close>

definition post_session ::
    "event hashing \<Rightarrow> (exn \<Rightarrow> string) \<Rightarrow> http_request \<Rightarrow> controller_session \<Rightarrow> ('r store_scheme, controller_session answer) prog" where
  "post_session H message q cs = in_try message (keyed_by q (create_session H cs))"

definition post_epoch ::
    "event hashing \<Rightarrow> (exn \<Rightarrow> string) \<Rightarrow> http_request \<Rightarrow> string \<Rightarrow> controller_epoch \<Rightarrow> int \<Rightarrow>
     ('r store_scheme, controller_epoch) prog" where
  "post_epoch H message q session_id e expected = in_try message (keyed_by q (register_epoch H session_id e expected))"

definition ensure_automatic_controller ::
    "event hashing \<Rightarrow> (exn \<Rightarrow> string) \<Rightarrow> http_request \<Rightarrow> automatic_service \<Rightarrow> string \<Rightarrow> int \<Rightarrow> string \<Rightarrow> string \<Rightarrow> time \<Rightarrow>
     ('r store_scheme, controller_epoch) prog" where
  "ensure_automatic_controller H message q A session_id expected effort epoch_id now =
     in_try message (keyed_by q (ensure_controller H A session_id expected effort epoch_id now))"

definition switch_automatic_controller ::
    "event hashing \<Rightarrow> (exn \<Rightarrow> string) \<Rightarrow> http_request \<Rightarrow> automatic_service \<Rightarrow> string \<Rightarrow> int \<Rightarrow> string \<Rightarrow> string \<Rightarrow> time \<Rightarrow>
     ('r store_scheme, controller_epoch answer) prog" where
  "switch_automatic_controller H message q A session_id expected effort epoch_id now =
     in_try message (keyed_by q (switch_controller H A session_id expected effort epoch_id now))"

definition post_task ::
    "event hashing \<Rightarrow> (exn \<Rightarrow> string) \<Rightarrow> http_request \<Rightarrow> parent_task \<Rightarrow> ('r store_scheme, parent_task answer) prog" where
  "post_task H message q t = in_try message (keyed_by q (create_task H t))"

definition submit_plan ::
    "event hashing \<Rightarrow> (exn \<Rightarrow> string) \<Rightarrow> http_request \<Rightarrow> ((string \<times> pyval) list \<Rightarrow> resource_region res) \<Rightarrow>
     (worker_plan_proposal \<Rightarrow> string) \<Rightarrow> string \<Rightarrow> worker_plan_proposal \<Rightarrow> string \<Rightarrow> (nat \<Rightarrow> string) \<Rightarrow> time \<Rightarrow>
     ('r app_store_scheme, plan_answer) prog" where
  "submit_plan H message q parse_region hash task_id proposal plan_id ids now =
     bind (in_try message
       (andthen (lift (if wf_worker_plan_proposal proposal then Inr () else Inl (ValueError ''invalid'')))
         (keyed_by q (\<lambda>key. plan_task H parse_region hash task_id proposal plan_id ids key now))))
     (\<lambda>a. case a of PlanRejected _ \<Rightarrow> raise_exn (DomainError ''invalid_plan'' 422) | _ \<Rightarrow> ret a)"

section \<open>Reviews of a child task\<close>

definition child_of_task :: "string \<Rightarrow> string \<Rightarrow> 'r view_scheme \<Rightarrow> parent_task res" where
  "child_of_task task_id child s =
     (case dget (st_tasks s) task_id of
        None \<Rightarrow> Inl (DomainError ''not_found'' 404)
      | Some t \<Rightarrow> if child \<notin> set (pt_child_task_ids t) then Inl (DomainError ''not_found'' 404) else Inr t)"

definition submit_owner_review ::
    "event hashing \<Rightarrow> builtins \<Rightarrow> (exn \<Rightarrow> string) \<Rightarrow> http_request \<Rightarrow> string \<Rightarrow> string \<Rightarrow> string \<Rightarrow> resource_region list \<Rightarrow>
     string list \<Rightarrow> string \<Rightarrow> int \<Rightarrow> string \<Rightarrow> time \<Rightarrow> ('r app_store_scheme, owner_self_review answer) prog" where
  "submit_owner_review H B message q task_id child agent regions evidence_ids summary expected new_id now =
     bind (get (child_of_task task_id child)) (\<lambda>found.
     andthen (lift found)
     (keyed_by q (\<lambda>key.
      bind (get (check_idempotency key)) (\<lambda>checked.
      bind (lift checked) (\<lambda>duplicate.
      case duplicate of
        Some r \<Rightarrow> ret (Replayed r)
      | None \<Rightarrow>
          bind (in_try message
            (andthen (lift (if list_all wf_resource_region regions then Inr () else Inl (ValueError ''invalid'')))
              (submit_review H B child agent regions evidence_ids summary expected key new_id now)))
          (\<lambda>r. ret (Answered r)))))))"

definition verify_owner_review ::
    "event hashing \<Rightarrow> builtins \<Rightarrow> (exn \<Rightarrow> string) \<Rightarrow> http_request \<Rightarrow> string \<Rightarrow> string \<Rightarrow> string \<Rightarrow> string \<Rightarrow> string list \<Rightarrow>
     int \<Rightarrow> string \<Rightarrow> time \<Rightarrow> ('r app_store_scheme, verification_record answer) prog" where
  "verify_owner_review H B message q task_id child review_id verifier evidence_ids expected new_id now =
     bind (get (child_of_task task_id child)) (\<lambda>found.
     andthen (lift found)
     (keyed_by q (\<lambda>key.
      bind (get (check_idempotency key)) (\<lambda>checked.
      bind (lift checked) (\<lambda>duplicate.
      case duplicate of
        Some r \<Rightarrow> ret (Replayed r)
      | None \<Rightarrow>
          bind (in_try message (verify_review H B child review_id verifier evidence_ids expected key new_id now))
          (\<lambda>v. ret (Answered v)))))))"

section \<open>Queries\<close>

definition get_session :: "string \<Rightarrow> 'r view_scheme \<Rightarrow> controller_session res" where
  "get_session session_id s =
     (case dget (st_sessions s) session_id of None \<Rightarrow> Inl (DomainError ''not_found'' 404) | Some cs \<Rightarrow> Inr cs)"

definition task_or_404 :: "string \<Rightarrow> 'r view_scheme \<Rightarrow> parent_task res" where
  "task_or_404 task_id s =
     (case dget (st_tasks s) task_id of None \<Rightarrow> Inl (DomainError ''not_found'' 404) | Some t \<Rightarrow> Inr t)"

definition get_children ::
    "string \<Rightarrow> 'r view_scheme \<Rightarrow> (child_task_boundary list \<times> owner_assignment list) res" where
  "get_children task_id s =
     map_sum id (\<lambda>t. (List.map_filter (dget (st_children s)) (pt_child_task_ids t),
                       List.map_filter (dget (st_assignments s)) (pt_child_task_ids t))) (task_or_404 task_id s)"

definition get_child :: "string \<Rightarrow> string \<Rightarrow> 'r view_scheme \<Rightarrow> child_task_boundary res" where
  "get_child task_id child s =
     (case (dget (st_tasks s) task_id, dget (st_children s) child) of
        (Some t, Some c) \<Rightarrow> if child \<notin> set (pt_child_task_ids t) then Inl (DomainError ''not_found'' 404) else Inr c
      | _ \<Rightarrow> Inl (DomainError ''not_found'' 404))"

definition get_integration_attempts :: "string \<Rightarrow> 'r view_scheme \<Rightarrow> integration_attempt list res" where
  "get_integration_attempts task_id s = map_sum id (\<lambda>_. task_integration_attempts task_id s) (task_or_404 task_id s)"

definition get_integration_result :: "string \<Rightarrow> 'r view_scheme \<Rightarrow> integration_result list res" where
  "get_integration_result task_id s = map_sum id (\<lambda>t. task_integration_results t s) (task_or_404 task_id s)"

definition get_leases :: "string option \<Rightarrow> string option \<Rightarrow> string option \<Rightarrow> 'r view_scheme \<Rightarrow> writer_lease list" where
  "get_leases task_id owner_id resource_id s =
     filter (\<lambda>l. (task_id = None \<or> Some (le_child_task_id l) = task_id) \<and>
                 (owner_id = None \<or> Some (le_owner_agent_id l) = owner_id) \<and>
                 (resource_id = None \<or> Some (rr_resource_id (le_region l)) = resource_id)) (dvalues (st_leases s))"

definition get_evidence :: "string \<Rightarrow> 'r view_scheme \<Rightarrow> (evidence_record list \<times> evidence_gate_result) res" where
  "get_evidence task_id s =
     map_sum id (\<lambda>t. (pt_evidence t, evaluate_gate (pt_acceptance_contract t) (pt_evidence t))) (task_or_404 task_id s)"

definition get_reviews :: "string \<Rightarrow> string \<Rightarrow> 'r view_scheme \<Rightarrow> owner_self_review list res" where
  "get_reviews task_id child s =
     map_sum id (\<lambda>_. filter (\<lambda>r. or_child_task_id r = child) (dvalues (st_reviews s))) (child_of_task task_id child s)"

definition get_verifications :: "string \<Rightarrow> string \<Rightarrow> 'r view_scheme \<Rightarrow> verification_record list res" where
  "get_verifications task_id child s =
     map_sum id (\<lambda>_. filter (\<lambda>r. vr_child_task_id r = child) (dvalues (st_verifications s))) (child_of_task task_id child s)"

section \<open>A retried request\<close>

text \<open>The comparison with the stripped key is implied by the range of its characters.\<close>

lemma idem_key_accepted:
  "idem_key_of q = Inr (tenant, path, v) \<longleftrightarrow>
     hq_key q = Some v \<and> path = hq_path q \<and> tenant = (case hq_tenant q of None \<Rightarrow> ''default'' | Some t \<Rightarrow> t) \<and>
     1 \<le> length v \<and> length v \<le> 255 \<and> (\<forall>c \<in> set v. (33 :: nat) \<le> of_char c \<and> of_char c \<le> (126 :: nat))"
proof -
  have "strip v = v" if "\<forall>c \<in> set v. (33 :: nat) \<le> of_char c \<and> of_char c \<le> (126 :: nat)" for v
    using that by (intro strip_solid) (fastforce simp: list_all_iff py_space_def Let_def)
  moreover have "list_ex (\<lambda>c. of_char c < (33 :: nat) \<or> (126 :: nat) < of_char c) v =
      (\<not> (\<forall>c \<in> set v. (33 :: nat) \<le> of_char c \<and> of_char c \<le> (126 :: nat)))" for v
    by (auto simp: list_ex_iff not_le)
  ultimately show ?thesis
    by (cases "hq_key q") (auto simp: idem_key_of_def Suc_le_eq simp del: list_ex_iff split: if_splits)
qed

lemma in_try_Inr [prog_simps]: "in_try message m s = (Inr x, t) \<longleftrightarrow> m s = (Inr x, t)"
  by (auto simp: in_try_def split: prod.splits sum.splits)

lemma in_try_run: "m s = (Inl e, t) \<Longrightarrow> in_try message m s = (Inl (handle_error message e), t)"
  by (simp add: in_try_def)

lemma keyed_by_Inr [prog_simps]:
  "keyed_by q m s = (Inr x, t) \<longleftrightarrow> (\<exists>k. idem_key_of q = Inr k \<and> m (Some (k, hq_hash q)) s = (Inr x, t))"
  by (auto simp: keyed_by_def prog_simps)

lemma keyed_by_run: "idem_key_of q = Inr k \<Longrightarrow> keyed_by q m s = m (Some (k, hq_hash q)) s"
  by (simp add: keyed_by_def bind_def)

definition index_of :: "'r store_scheme \<Rightarrow> (idem_key, string \<times> event response) dict" where
  "index_of s = jl_idempotency (st_journal s)"

lemma check_index: "index_of u = index_of t \<Longrightarrow> check_idempotency k u = check_idempotency k t"
  by (simp add: check_idempotency_def idempotent_result_def index_of_def split: option.splits)

lemma commit_index:
  fixes s :: "'r store_scheme"
  assumes "commit H e (Some (k, h)) s = (Inr (), t)"
  shows "check_idempotency (Some (k, h)) t = Inr (Some (OneEvent e))"
proof -
  obtain j where "append_frame H [e] [] (Some (k, h, OneEvent e)) [] 0 (st_journal s) = (Inr (), j)" "t = s\<lparr>st_journal := j\<rparr>"
    using assms by (auto simp: commit_def commit_frame_def on_journal_Inr)
  with append_success [OF this(1)] show ?thesis by (simp add: check_idempotency_def idempotent_result_def)
qed

lemma commit_index_None:
  fixes s :: "'r store_scheme"
  assumes "commit H e None s = (Inr (), t)"
  shows "index_of t = index_of s"
proof -
  obtain j where "append_frame H [e] [] None [] 0 (st_journal s) = (Inr (), j)" "t = s\<lparr>st_journal := j\<rparr>"
    using assms by (auto simp: commit_def commit_frame_def on_journal_Inr)
  with append_success [OF this(1)] show ?thesis by (simp add: index_of_def)
qed

lemma restart_index:
  assumes "consistent H s" and "restart H m f io s = Inr u"
  shows "index_of u = index_of s \<and> recorded u = recorded s"
proof -
  obtain j where j: "load_journal H (boot (disk.truncate (st_journal s)) m f io) = (Inr (), j)"
    "jl_idempotency j = jl_idempotency (st_journal s)"
    using journal_inv_restart [of H "st_journal s" m f io] assms(1)
    by (auto simp: consistent_def sound_store_def)
  have "open_store j = Inr u" using assms(2) j(1) by (simp add: restart_def)
  then have "st_journal u = j" by (auto simp: open_store_def view.defs split: sum.splits)
  moreover have "recorded u = recorded s" using restart_same [OF assms(1), of m f io] assms(2) by auto
  ultimately show ?thesis by (simp add: index_of_def j(2))
qed

text \<open>The process itself, or one that starts later on its directory.\<close>

definition same_or_next :: "event hashing \<Rightarrow> app_store \<Rightarrow> app_store \<Rightarrow> bool" where
  "same_or_next H t u \<longleftrightarrow> u = t \<or> (\<exists>m f io. restart_app H m f io t = Inr u)"

lemma same_or_next_same:
  assumes "consistent H t" and "same_or_next H t u"
  shows "index_of u = index_of t \<and> st_tasks u = st_tasks t \<and> st_sessions u = st_sessions t"
proof (cases "u = t")
  case False
  with assms(2) obtain m f io where "restart_app H m f io t = Inr u" by (auto simp: same_or_next_def)
  then obtain r o' where r: "restart H m f io t = Inr r" and u: "u = store.extend r \<lparr>as_ownership = o'\<rparr>"
    by (auto simp: restart_app_def split: sum.splits)
  have eq: "index_of u = index_of r" "st_tasks u = st_tasks r" "st_sessions u = st_sessions r"
    by (simp_all add: u index_of_def store.defs)
  have rr: "index_of r = index_of t" "recorded r = recorded t" using restart_index [OF assms(1) r] by simp_all
  show ?thesis
    using eq rr(1) arg_cong [OF rr(2), of st_tasks] arg_cong [OF rr(2), of st_sessions] by (simp add: recorded_def view.defs)
qed simp

lemma post_task_first:
  fixes s :: "'r store_scheme"
  assumes "post_task H message q tk s = (Inr (Answered x), t)"
  obtains k where "idem_key_of q = Inr k" and "x = tk" and "check_idempotency (Some (k, hq_hash q)) t = Inr (Some (OneEvent (TaskCreated tk)))"
    and "consistent H s \<longrightarrow> consistent H t"
proof -
  from assms obtain k where k: "idem_key_of q = Inr k" and x: "x = tk"
    and c: "commit H (TaskCreated tk) (Some (k, hq_hash q)) (put_task tk s) = (Inr (), t)"
    by (auto simp: post_task_def create_task_def prog_simps split: option.splits if_splits)
  have "consistent H t" if "consistent H s" by (rule consistent_update_commit [OF that _ c]) simp
  with k x commit_index [OF c] that show ?thesis by blast
qed

lemma submit_owner_review_first:
  fixes s :: "'r app_store_scheme"
  assumes "submit_owner_review H B message q task_id child agent regions ids summary expected n now s = (Inr (Answered r), t)"
  obtains k where "idem_key_of q = Inr k"
    and "check_idempotency (Some (k, hq_hash q)) t = Inr (Some (OneEvent (ReviewEvent RS_submitted r)))"
    and "st_tasks t = st_tasks s" and "child_of_task task_id child s \<noteq> Inl (DomainError ''not_found'' 404)"
    and "consistent H s \<longrightarrow> consistent H t"
proof -
  from assms obtain k tk where k: "idem_key_of q = Inr k" and tk: "child_of_task task_id child s = Inr tk"
    and run: "submit_review H B child agent regions ids summary expected (Some (k, hq_hash q)) n now s = (Inr r, t)"
    by (auto simp: submit_owner_review_def prog_simps split: option.splits if_splits)
  then obtain u where w: "for_each regions (\<lambda>r. on_ownership (assert_write_allowed B child agent r)) s = (Inr (), u)"
    and c: "commit H (ReviewEvent RS_submitted r) (Some (k, hq_hash q)) (put_review r u) = (Inr (), t)"
    by (auto simp: submit_review_def prog_simps Let_def split: option.splits if_splits)
  have "u = s" using write_checks [OF w] by simp
  obtain j where j: "t = (put_review r s)\<lparr>st_journal := j\<rparr>" using commit_view [OF c] \<open>u = s\<close> by blast
  have "consistent H t" if "consistent H s"
    using c \<open>u = s\<close> by (intro consistent_update_commit [OF that]) auto
  with k tk commit_index [OF c] show ?thesis by (intro that [of k]) (simp_all add: j put_review_def)
qed

lemma child_of_task_same: "st_tasks u = st_tasks t \<Longrightarrow> child_of_task task_id child u = child_of_task task_id child t"
  by (simp add: child_of_task_def)

lemma child_of_task_Inr: "child_of_task task_id child s \<noteq> Inl (DomainError ''not_found'' 404) \<Longrightarrow> \<exists>t. child_of_task task_id child s = Inr t"
  by (auto simp: child_of_task_def split: option.splits if_splits)


lemma verify_owner_review_first:
  fixes s :: "'r app_store_scheme"
  assumes "verify_owner_review H B message q task_id child i w ids expected n now s = (Inr (Answered v), t)"
  obtains k where "idem_key_of q = Inr k"
    and "check_idempotency (Some (k, hq_hash q)) t = Inr (Some (OneEvent (VerificationRecorded v)))"
    and "st_tasks t = st_tasks s" and "child_of_task task_id child s \<noteq> Inl (DomainError ''not_found'' 404)"
    and "consistent H s \<longrightarrow> consistent H t"
proof -
  from assms obtain k tk where k: "idem_key_of q = Inr k" and tk: "child_of_task task_id child s = Inr tk"
    and run: "verify_review H B child i w ids expected (Some (k, hq_hash q)) n now s = (Inr v, t)"
    by (auto simp: verify_owner_review_def prog_simps split: option.splits if_splits)
  from run obtain r v' where rec: "record_verification H r v' (Some (k, hq_hash q)) now s = (Inr v, t)"
    by (rule verify_review_Inr)
  then obtain u where v: "v = v'" and c: "commit H (VerificationRecorded v') (Some (k, hq_hash q)) (put_verification v' s) = (Inr (), u)"
    and fin: "if vr_status v' = VS_passed then \<exists>r'. transition_review H r RS_accepted None now u = (Inr r', t) else t = u"
    by (rule record_verification_Inr)
  have u: "st_tasks u = st_tasks s" using commit_view [OF c] by (auto simp: put_verification_def)
  have t: "index_of t = index_of u \<and> st_tasks t = st_tasks u"
  proof (cases "vr_status v' = VS_passed")
    case True
    then obtain r' where "transition_review H r RS_accepted None now u = (Inr r', t)" using fin by auto
    then show ?thesis
    proof (rule transition_review_Inr)
      assume d: "commit H (ReviewEvent RS_accepted r') None (put_review r' u) = (Inr (), t)"
      show ?thesis using commit_index_None [OF d] commit_view [OF d] by (auto simp: index_of_def put_review_def)
    qed
  qed (use fin in simp)
  have "check_idempotency (Some (k, hq_hash q)) t = Inr (Some (OneEvent (VerificationRecorded v)))"
    using commit_index [OF c] check_index [of t u "Some (k, hq_hash q)"] t v by simp
  with k tk t u record_verification_consistent [OF _ rec] show ?thesis by (intro that [of k]) auto
qed

lemma post_epoch_first:
  fixes s :: "'r store_scheme"
  assumes "post_epoch H message q i e expected s = (Inr x, t)" and "keyed cs_id (st_sessions s)"
  obtains k cs where "idem_key_of q = Inr k" and "dget (st_sessions t) i = Some (activated cs e)" and "cs_version cs = expected"
    and "ce_controller_session_id e = i \<longrightarrow> consistent H s \<longrightarrow> consistent H t"
proof -
  from assms(1) obtain k where k: "idem_key_of q = Inr k" and reg: "register_epoch H i e expected (Some (k, hq_hash q)) s = (Inr x, t)"
    by (auto simp: post_epoch_def in_try_Inr keyed_by_Inr)
  then obtain cs where cs: "dget (st_sessions s) i = Some cs" by (cases "dget (st_sessions s) i") (auto simp: register_epoch_def prog_simps)
  with reg have cs: "dget (st_sessions s) i = Some cs" "cs_version cs = expected"
    and c: "commit H (EpochRegistered e) (Some (k, hq_hash q)) (put_session (activated cs e) (put_epoch e s)) = (Inr (), t)"
    by (auto simp: register_epoch_def prog_simps activated_def require_version_def split: if_splits)
  have "cs_id cs = i" using assms(2) cs(1) by (auto simp: keyed_def)
  then have "dget (st_sessions t) i = Some (activated cs e)" using commit_view [OF c] by (auto simp: put_session_def activated_def)
  moreover have "consistent H t" if "ce_controller_session_id e = i" "consistent H s"
    using that cs by (intro consistent_update_commit [OF that(2) apply_activation c]) simp
  ultimately show ?thesis using k cs that by blast
qed



definition sample_request :: http_request where
  "sample_request = \<lparr>hq_tenant = None, hq_path = ''/v1/tasks'', hq_key = Some ''k-1'', hq_hash = ''h''\<rparr>"

lemma sample_request_key: "idem_key_of sample_request = Inr (''default'', ''/v1/tasks'', ''k-1'')"
  by (simp add: idem_key_of_def sample_request_def strip_def py_space_def)


end
