(* ===== verification/Schemas.thy ===== *)
theory Schemas
  imports Api
begin

text \<open>
  \<^verbatim>\<open>api/schemas.py\<close>: the bodies the HTTP interface accepts.

  A body is a JSON value (\<open>pyval\<close>); a model class is a reader of such values that gives the record or the list of
  issues found, each with its place and its type, in the order of the fields. A field that is strict takes no other
  type; an unknown field is an issue. What pydantic takes for a non-negative float and for a date is a parameter.
\<close>

section \<open>Readers\<close>

type_synonym issue = "pyval list \<times> string"
type_synonym 'a parsed = "issue list + 'a"
type_synonym 'a reader = "pyval \<Rightarrow> 'a parsed"

definition flaw :: "string \<Rightarrow> 'a parsed" where
  "flaw type = Inl [([], type)]"

definition below :: "pyval \<Rightarrow> 'a parsed \<Rightarrow> 'a parsed" where
  "below place = map_sum (map (\<lambda>(loc, type). (place # loc, type))) id"

text \<open>All issues are collected.\<close>

definition ap :: "('a \<Rightarrow> 'b) parsed \<Rightarrow> 'a parsed \<Rightarrow> 'b parsed" where
  "ap f x =
     (case (f, x) of
        (Inr g, Inr y) \<Rightarrow> Inr (g y)
      | (Inr g, Inl is) \<Rightarrow> Inl is
      | (Inl is, Inr y) \<Rightarrow> Inl is
      | (Inl is, Inl js) \<Rightarrow> Inl (is @ js))"

definition strict_str :: "nat \<Rightarrow> nat \<Rightarrow> string reader" where
  "strict_str lo hi v =
     (case v of
        VStr s \<Rightarrow> if length s < lo then flaw ''string_too_short''
                  else if hi < length s then flaw ''string_too_long'' else Inr s
      | _ \<Rightarrow> flaw ''string_type'')"

definition any_str :: "string reader" where
  "any_str v = (case v of VStr s \<Rightarrow> Inr s | _ \<Rightarrow> flaw ''string_type'')"

definition strict_bool :: "bool reader" where
  "strict_bool v = (case v of VBool b \<Rightarrow> Inr b | _ \<Rightarrow> flaw ''bool_type'')"

definition strict_int :: "int \<Rightarrow> int reader" where
  "strict_int lo v = (case v of VInt n \<Rightarrow> if n < lo then flaw ''greater_than_equal'' else Inr n | _ \<Rightarrow> flaw ''int_type'')"

definition literal :: "(string \<times> 'a) list \<Rightarrow> 'a reader" where
  "literal names v =
     (case v of
        VStr s \<Rightarrow> (case map_of names s of None \<Rightarrow> flaw ''literal_error'' | Some x \<Rightarrow> Inr x)
      | _ \<Rightarrow> flaw ''literal_error'')"

definition nullable :: "'a reader \<Rightarrow> 'a option reader" where
  "nullable r v = (if v = VNone then Inr None else map_sum id Some (r v))"

fun items :: "'a reader \<Rightarrow> nat \<Rightarrow> pyval list \<Rightarrow> 'a list parsed" where
  "items r i [] = Inr []"
| "items r i (v # vs) = ap (ap (Inr (#)) (below (VInt (int i)) (r v))) (items r (Suc i) vs)"

definition list_of :: "nat \<Rightarrow> nat \<Rightarrow> 'a reader \<Rightarrow> 'a list reader" where
  "list_of lo hi r v =
     (case v of
        VList vs \<Rightarrow> if hi < length vs then flaw ''too_long''
                    else if length vs < lo then flaw ''too_short'' else items r 0 vs
      | _ \<Rightarrow> flaw ''list_type'')"

definition required :: "string \<Rightarrow> 'a reader \<Rightarrow> json_object \<Rightarrow> 'a parsed" where
  "required name r d = below (VStr name) (case dget d name of None \<Rightarrow> flaw ''missing'' | Some v \<Rightarrow> r v)"

definition optional :: "string \<Rightarrow> 'a \<Rightarrow> 'a reader \<Rightarrow> json_object \<Rightarrow> 'a parsed" where
  "optional name x r d = (case dget d name of None \<Rightarrow> Inr x | Some v \<Rightarrow> below (VStr name) (r v))"

text \<open>\<^verbatim>\<open>extra="forbid"\<close>\<close>

definition closed_to :: "string list \<Rightarrow> json_object \<Rightarrow> 'a parsed \<Rightarrow> 'a parsed" where
  "closed_to names d x =
     (let unknown = filter (\<lambda>k. k \<notin> set names) (dkeys d)
      in if unknown = [] then x
         else ap (map_sum id (\<lambda>y _. y) x) (Inl (map (\<lambda>k. ([VStr k], ''extra_forbidden'')) unknown) :: unit parsed))"

definition object_of :: "string list \<Rightarrow> (json_object \<Rightarrow> 'a parsed) \<Rightarrow> 'a reader" where
  "object_of names f v = (case v of VDict d \<Rightarrow> closed_to names d (f d) | _ \<Rightarrow> flaw ''model_type'')"

section \<open>The values of the enumerations\<close>

definition MODES :: "(string \<times> orchestration_mode) list" where
  "MODES = [(''off'', OM_off), (''worker_only'', OM_worker_only), (''advisory'', OM_advisory), (''automatic'', OM_automatic)]"

definition REQUEST_TYPES :: "(string \<times> request_type) list" where
  "REQUEST_TYPES =
     [(''new_task'', RT_new_task), (''material_amendment'', RT_material_amendment), (''continuation'', RT_continuation),
      (''clarification'', RT_clarification), (''control'', RT_control)]"

definition CLASSIFICATIONS :: "(string \<times> data_classification) list" where
  "CLASSIFICATIONS =
     [(''public'', DC_public), (''internal'', DC_internal), (''confidential'', DC_confidential), (''restricted'', DC_restricted)]"

definition RESOURCE_KINDS :: "(string \<times> resource_kind) list" where
  "RESOURCE_KINDS = [(''file'', RK_file), (''directory'', RK_directory), (''database'', RK_database), (''external'', RK_external)]"

definition SELECTOR_TYPES :: "(string \<times> selector_type) list" where
  "SELECTOR_TYPES =
     [(''symbol'', ST_symbol), (''ast_node'', ST_ast_node), (''path_prefix'', ST_path_prefix), (''row_keys'', ST_row_keys),
      (''key_range'', ST_key_range), (''partition'', ST_partition), (''json_pointer'', ST_json_pointer),
      (''provider_subresource'', ST_provider_subresource), (''whole_resource'', ST_whole_resource)]"

definition EVIDENCE_TYPES :: "(string \<times> evidence_type) list" where
  "EVIDENCE_TYPES =
     [(''test'', ET_test), (''static_check'', ET_static_check), (''live_check'', ET_live_check), (''artifact'', ET_artifact),
      (''human_confirmation'', ET_human_confirmation)]"

definition OBSERVATIONS :: "(string \<times> observation_status) list" where
  "OBSERVATIONS =
     [(''observed_pass'', OS_observed_pass), (''observed_fail'', OS_observed_fail), (''unobserved'', OS_unobserved),
      (''not_applicable'', OS_not_applicable)]"

definition DECISIONS :: "(string \<times> approval_decision) list" where
  "DECISIONS = [(''approve'', AD_approve), (''reject'', AD_reject)]"

section \<open>Bodies that are models of the domain\<close>

definition read_acceptance :: "acceptance reader" where
  "read_acceptance = object_of [''id'', ''description'', ''required''] (\<lambda>d.
     ap (ap (ap (Inr (\<lambda>i x b. \<lparr>ac_id = i, ac_description = x, ac_required = b\<rparr>))
       (required ''id'' (strict_str 1 120) d)) (required ''description'' (strict_str 1 2000) d))
       (optional ''required'' True strict_bool d))"

definition read_workspace :: "workspace reader" where
  "read_workspace = object_of [''adapter_id'', ''canonical_uri'', ''base_revision''] (\<lambda>d.
     ap (ap (ap (Inr (\<lambda>a u b. \<lparr>ws_adapter_id = a, ws_canonical_uri = u, ws_base_revision = b\<rparr>))
       (optional ''adapter_id'' ''local'' (strict_str 1 120) d)) (required ''canonical_uri'' (strict_str 1 2000) d))
       (required ''base_revision'' (strict_str 1 512) d))"

definition no_budgets :: budgets where
  "no_budgets =
     \<lparr>bu_max_input_tokens = None, bu_max_output_tokens = None, bu_max_total_tokens = None, bu_max_cost_usd = None,
      bu_max_wall_time_seconds = None\<rparr>"

definition read_budgets :: "pyfloat reader \<Rightarrow> budgets reader" where
  "read_budgets float_of = object_of
     [''max_input_tokens'', ''max_output_tokens'', ''max_total_tokens'', ''max_cost_usd'', ''max_wall_time_seconds''] (\<lambda>d.
     ap (ap (ap (ap (ap (Inr (\<lambda>i out t c w. \<lparr>bu_max_input_tokens = i, bu_max_output_tokens = out, bu_max_total_tokens = t,
         bu_max_cost_usd = c, bu_max_wall_time_seconds = w\<rparr>))
       (optional ''max_input_tokens'' None (nullable (strict_int 0)) d))
       (optional ''max_output_tokens'' None (nullable (strict_int 0)) d))
       (optional ''max_total_tokens'' None (nullable (strict_int 0)) d))
       (optional ''max_cost_usd'' None (nullable float_of) d))
       (optional ''max_wall_time_seconds'' None (nullable float_of) d))"

definition read_region :: "resource_region reader" where
  "read_region = object_of
     [''resource_kind'', ''resource_id'', ''selector_type'', ''selector_value'', ''base_revision''] (\<lambda>d.
     ap (ap (ap (ap (ap (Inr (\<lambda>k i t v b. \<lparr>rr_resource_kind = k, rr_resource_id = i, rr_selector_type = t,
         rr_selector_value = v, rr_base_revision = b\<rparr>))
       (required ''resource_kind'' (literal RESOURCE_KINDS) d)) (required ''resource_id'' (strict_str 1 2000) d))
       (required ''selector_type'' (literal SELECTOR_TYPES) d)) (required ''selector_value'' Inr d))
       (required ''base_revision'' (strict_str 1 512) d))"

text \<open>\<^verbatim>\<open>model_dump(mode="json")\<close> of a region.\<close>

definition name_of :: "(string \<times> 'a) list \<Rightarrow> 'a \<Rightarrow> string" where
  "name_of names x = (case List.find (\<lambda>(n, y). y = x) names of None \<Rightarrow> [] | Some (n, _) \<Rightarrow> n)"

definition region_json :: "resource_region \<Rightarrow> json_object" where
  "region_json r =
     [(''resource_kind'', VStr (name_of RESOURCE_KINDS (rr_resource_kind r))), (''resource_id'', VStr (rr_resource_id r)),
      (''selector_type'', VStr (name_of SELECTOR_TYPES (rr_selector_type r))), (''selector_value'', rr_selector_value r),
      (''base_revision'', VStr (rr_base_revision r))]"

definition read_child :: "child_proposal reader" where
  "read_child = object_of
     [''client_ref'', ''objective'', ''depends_on'', ''read_scope'', ''write_regions'', ''acceptance_contract'',
      ''requested_model_profile''] (\<lambda>d.
     ap (ap (ap (ap (ap (ap (ap (Inr (\<lambda>c o' dep rs ws a m. \<lparr>cp_client_ref = c, cp_objective = o', cp_depends_on = dep,
         cp_read_scope = rs, cp_write_regions = map region_json ws, cp_acceptance_contract = a, cp_requested_model_profile = m\<rparr>))
       (required ''client_ref'' (strict_str 1 120) d)) (required ''objective'' (strict_str 1 4000) d))
       (optional ''depends_on'' [] (list_of 0 5 any_str) d)) (optional ''read_scope'' [] (list_of 0 100 any_str) d))
       (optional ''write_regions'' [] (list_of 0 100 read_region) d))
       (required ''acceptance_contract'' (list_of 1 50 any_str) d))
       (optional ''requested_model_profile'' ''default_worker'' (strict_str 1 200) d))"

definition read_plan :: "worker_plan_proposal reader" where
  "read_plan = object_of [''expected_parent_version'', ''children'', ''integration_order''] (\<lambda>d.
     ap (ap (ap (Inr (\<lambda>v cs os. \<lparr>wp_expected_parent_version = v, wp_children = cs, wp_integration_order = os\<rparr>))
       (required ''expected_parent_version'' (strict_int 1) d)) (required ''children'' (list_of 0 5 read_child) d))
       (optional ''integration_order'' [] (list_of 0 5 any_str) d))"

section \<open>The other requests\<close>

record create_session_request =
  cq_tenant_id :: string
  cq_host_session_id :: string
  cq_orchestration_mode :: orchestration_mode

definition read_create_session :: "create_session_request reader" where
  "read_create_session = object_of [''tenant_id'', ''host_session_id'', ''orchestration_mode''] (\<lambda>d.
     ap (ap (ap (Inr (\<lambda>t h m. \<lparr>cq_tenant_id = t, cq_host_session_id = h, cq_orchestration_mode = m\<rparr>))
       (required ''tenant_id'' (strict_str 1 200) d)) (required ''host_session_id'' (strict_str 1 200) d))
       (required ''orchestration_mode'' (literal MODES) d))"

record register_epoch_request =
  eq_expected_version :: int
  eq_provider_id :: string
  eq_model_id :: string
  eq_model_snapshot :: "string option"
  eq_reasoning_effort :: string

definition read_register_epoch :: "register_epoch_request reader" where
  "read_register_epoch = object_of
     [''expected_version'', ''provider_id'', ''model_id'', ''model_snapshot'', ''reasoning_effort''] (\<lambda>d.
     ap (ap (ap (ap (ap (Inr (\<lambda>v p m s e. \<lparr>eq_expected_version = v, eq_provider_id = p, eq_model_id = m,
         eq_model_snapshot = s, eq_reasoning_effort = e\<rparr>))
       (required ''expected_version'' (strict_int 1) d)) (required ''provider_id'' (strict_str 1 200) d))
       (required ''model_id'' (strict_str 1 500) d)) (optional ''model_snapshot'' None (nullable (strict_str 0 500)) d))
       (required ''reasoning_effort'' (strict_str 1 100) d))"

text \<open>\<^verbatim>\<open>EnsureControllerRequest\<close> and \<^verbatim>\<open>SwitchControllerRequest\<close>: the version and the effort.\<close>

definition read_controller_request :: "(int \<times> string) reader" where
  "read_controller_request = object_of [''expected_version'', ''reasoning_effort''] (\<lambda>d.
     ap (ap (Inr Pair) (required ''expected_version'' (strict_int 1) d))
       (optional ''reasoning_effort'' ''medium'' (strict_str 1 100) d))"

record handoff_request =
  hq_child_task_id :: string
  hq_target_provider :: string
  hq_target_model :: string
  hq_fields :: "string list"
  hq_data_classification :: data_classification

definition read_handoff :: "handoff_request reader" where
  "read_handoff = object_of
     [''child_task_id'', ''target_provider'', ''target_model'', ''fields'', ''data_classification''] (\<lambda>d.
     ap (ap (ap (ap (ap (Inr (\<lambda>c p m f dc. \<lparr>hq_child_task_id = c, hq_target_provider = p, hq_target_model = m,
         hq_fields = f, hq_data_classification = dc\<rparr>))
       (required ''child_task_id'' (strict_str 1 200) d)) (required ''target_provider'' (strict_str 1 200) d))
       (required ''target_model'' (strict_str 1 500) d)) (optional ''fields'' [] (list_of 0 200 any_str) d))
       (required ''data_classification'' (literal CLASSIFICATIONS) d))"

record create_task_request =
  tq_controller_session_id :: string
  tq_request_type :: request_type
  tq_goal :: string
  tq_acceptance_contract :: "acceptance list"
  tq_data_classification :: data_classification
  tq_workspace :: workspace
  tq_budgets :: budgets

definition read_create_task :: "pyfloat reader \<Rightarrow> create_task_request reader" where
  "read_create_task float_of = object_of
     [''controller_session_id'', ''request_type'', ''goal'', ''acceptance_contract'', ''data_classification'', ''workspace'',
      ''budgets''] (\<lambda>d.
     ap (ap (ap (ap (ap (ap (ap (Inr (\<lambda>c t g a dc w b. \<lparr>tq_controller_session_id = c, tq_request_type = t, tq_goal = g,
         tq_acceptance_contract = a, tq_data_classification = dc, tq_workspace = w, tq_budgets = b\<rparr>))
       (required ''controller_session_id'' (strict_str 1 200) d)) (required ''request_type'' (literal REQUEST_TYPES) d))
       (required ''goal'' (strict_str 1 10000) d)) (required ''acceptance_contract'' (list_of 1 100 read_acceptance) d))
       (required ''data_classification'' (literal CLASSIFICATIONS) d)) (required ''workspace'' read_workspace d))
       (optional ''budgets'' no_budgets (read_budgets float_of) d))"

text \<open>A \<^verbatim>\<open>ChangeSetRequest\<close> is the pair of its flags.\<close>

definition read_changeset :: "(bool \<times> bool) reader" where
  "read_changeset = object_of [''integrated'', ''conflict''] (\<lambda>d.
     ap (ap (Inr Pair) (optional ''integrated'' False strict_bool d)) (optional ''conflict'' False strict_bool d))"

definition read_verify_task :: "(int \<times> (bool \<times> bool) list) reader" where
  "read_verify_task = object_of [''expected_version'', ''changesets''] (\<lambda>d.
     ap (ap (Inr Pair) (required ''expected_version'' (strict_int 1) d))
       (optional ''changesets'' [] (list_of 0 100 read_changeset) d))"

record evidence_request =
  vq_expected_version :: int
  vq_requirement_id :: string
  vq_evidence_type :: evidence_type
  vq_observation_status :: observation_status
  vq_source :: string
  vq_artifact_ref :: "string option"
  vq_child_task_id :: "string option"
  vq_region :: "resource_region option"

definition read_record_evidence :: "evidence_request reader" where
  "read_record_evidence = object_of
     [''expected_version'', ''requirement_id'', ''evidence_type'', ''observation_status'', ''source'', ''artifact_ref'',
      ''child_task_id'', ''region''] (\<lambda>d.
     ap (ap (ap (ap (ap (ap (ap (ap (Inr (\<lambda>v i t s src a c r. \<lparr>vq_expected_version = v, vq_requirement_id = i,
         vq_evidence_type = t, vq_observation_status = s, vq_source = src, vq_artifact_ref = a, vq_child_task_id = c,
         vq_region = r\<rparr>))
       (required ''expected_version'' (strict_int 1) d)) (required ''requirement_id'' (strict_str 1 120) d))
       (required ''evidence_type'' (literal EVIDENCE_TYPES) d)) (required ''observation_status'' (literal OBSERVATIONS) d))
       (required ''source'' (strict_str 1 2000) d)) (optional ''artifact_ref'' None (nullable (strict_str 0 2000)) d))
       (optional ''child_task_id'' None (nullable (strict_str 0 200)) d)) (optional ''region'' None (nullable read_region) d))"

record approval_request =
  aq_action_summary :: string
  aq_risk :: string
  aq_expires_at :: datetime
  aq_allowed_decisions :: "approval_decision list"

definition read_request_approval :: "datetime reader \<Rightarrow> approval_request reader" where
  "read_request_approval datetime_of = object_of [''action_summary'', ''risk'', ''expires_at'', ''allowed_decisions''] (\<lambda>d.
     ap (ap (ap (ap (Inr (\<lambda>s r e a. \<lparr>aq_action_summary = s, aq_risk = r, aq_expires_at = e, aq_allowed_decisions = a\<rparr>))
       (required ''action_summary'' (strict_str 1 4000) d)) (required ''risk'' (strict_str 1 1000) d))
       (required ''expires_at'' datetime_of d))
       (optional ''allowed_decisions'' [AD_approve, AD_reject] (list_of 1 2 (literal DECISIONS)) d))"

definition read_decide_approval :: "(int \<times> approval_decision \<times> string option) reader" where
  "read_decide_approval = object_of [''expected_version'', ''decision'', ''reason''] (\<lambda>d.
     ap (ap (ap (Inr (\<lambda>v x r. (v, x, r))) (required ''expected_version'' (strict_int 1) d))
       (required ''decision'' (literal DECISIONS) d)) (optional ''reason'' None (nullable (strict_str 1 4000)) d))"

definition read_control_task :: "(int \<times> string option) reader" where
  "read_control_task = object_of [''expected_version'', ''reason''] (\<lambda>d.
     ap (ap (Inr Pair) (required ''expected_version'' (strict_int 1) d))
       (optional ''reason'' None (nullable (strict_str 1 4000)) d))"

record owner_review_request =
  oq_expected_assignment_version :: int
  oq_owner_agent_id :: string
  oq_review_regions :: "resource_region list"
  oq_evidence_ids :: "string list"
  oq_summary :: string

definition read_owner_review :: "owner_review_request reader" where
  "read_owner_review = object_of
     [''expected_assignment_version'', ''owner_agent_id'', ''review_regions'', ''evidence_ids'', ''summary''] (\<lambda>d.
     ap (ap (ap (ap (ap (Inr (\<lambda>v a r e s. \<lparr>oq_expected_assignment_version = v, oq_owner_agent_id = a, oq_review_regions = r,
         oq_evidence_ids = e, oq_summary = s\<rparr>))
       (required ''expected_assignment_version'' (strict_int 1) d)) (required ''owner_agent_id'' (strict_str 1 200) d))
       (required ''review_regions'' (list_of 1 100 read_region) d)) (required ''evidence_ids'' (list_of 1 100 any_str) d))
       (required ''summary'' (strict_str 1 4000) d))"

definition read_verify_review :: "(int \<times> string \<times> string list) reader" where
  "read_verify_review = object_of [''expected_review_version'', ''verifier_agent_id'', ''evidence_ids''] (\<lambda>d.
     ap (ap (ap (Inr (\<lambda>v a e. (v, a, e))) (required ''expected_review_version'' (strict_int 1) d))
       (required ''verifier_agent_id'' (strict_str 1 200) d)) (optional ''evidence_ids'' [] (list_of 0 100 any_str) d))"

definition read_permissions :: "routing_permissions reader" where
  "read_permissions = object_of [''read_scope'', ''available_tools'', ''requested_write_regions''] (\<lambda>d.
     ap (ap (ap (Inr (\<lambda>r t w. \<lparr>rq_read_scope = r, rq_available_tools = t, rq_requested_write_regions = map region_json w\<rparr>))
       (optional ''read_scope'' [] (list_of 0 200 any_str) d)) (optional ''available_tools'' [] (list_of 0 200 any_str) d))
       (optional ''requested_write_regions'' [] (list_of 0 200 read_region) d))"

definition read_resource_summary :: "routing_resource_summary reader" where
  "read_resource_summary = object_of [''canonical_uri'', ''base_revision'', ''referenced_paths'', ''referenced_symbols''] (\<lambda>d.
     ap (ap (ap (ap (Inr (\<lambda>u b p s. \<lparr>rs_canonical_uri = u, rs_base_revision = b, rs_referenced_paths = p,
         rs_referenced_symbols = s\<rparr>))
       (required ''canonical_uri'' (strict_str 1 2000) d)) (required ''base_revision'' (strict_str 1 512) d))
       (optional ''referenced_paths'' [] (list_of 0 500 any_str) d)) (optional ''referenced_symbols'' [] (list_of 0 500 any_str) d))"

record advisory_request =
  dq_tenant_id :: string
  dq_host_session_id :: string
  dq_host_declared_request_type :: "request_type option"
  dq_user_text :: string
  dq_permissions :: routing_permissions
  dq_resource_summary :: "routing_resource_summary option"
  dq_data_classification :: data_classification
  dq_record_shadow :: bool

definition read_advisory :: "advisory_request reader" where
  "read_advisory = object_of
     [''tenant_id'', ''host_session_id'', ''host_declared_request_type'', ''user_text'', ''permissions'', ''resource_summary'',
      ''data_classification'', ''record_shadow''] (\<lambda>d.
     ap (ap (ap (ap (ap (ap (ap (ap (Inr (\<lambda>t h rt u p rs dc sh. \<lparr>dq_tenant_id = t, dq_host_session_id = h,
         dq_host_declared_request_type = rt, dq_user_text = u, dq_permissions = p, dq_resource_summary = rs,
         dq_data_classification = dc, dq_record_shadow = sh\<rparr>))
       (required ''tenant_id'' (strict_str 1 200) d)) (required ''host_session_id'' (strict_str 1 200) d))
       (optional ''host_declared_request_type'' None (nullable (literal REQUEST_TYPES)) d))
       (required ''user_text'' (strict_str 1 10000) d))
       (optional ''permissions'' \<lparr>rq_read_scope = [], rq_available_tools = [], rq_requested_write_regions = []\<rparr> read_permissions d))
       (optional ''resource_summary'' None (nullable read_resource_summary) d))
       (optional ''data_classification'' DC_internal (literal CLASSIFICATIONS) d)) (optional ''record_shadow'' False strict_bool d))"

text \<open>\<^verbatim>\<open>RoutingRequestEnvelope.model_validate(values)\<close> in the handler: the text without surrounding white space.\<close>

definition advisory_envelope :: "string \<Rightarrow> time \<Rightarrow> advisory_request \<Rightarrow> routing_request_envelope" where
  "advisory_envelope new_id now q =
     \<lparr>re_id = new_id, re_tenant_id = dq_tenant_id q, re_host_session_id = dq_host_session_id q,
      re_host_declared_request_type = dq_host_declared_request_type q, re_user_text = codes (strip (dq_user_text q)),
      re_permissions = dq_permissions q, re_resource_summary = dq_resource_summary q,
      re_data_classification = dq_data_classification q, re_created_at = now\<rparr>"

section \<open>What an accepted body satisfies\<close>

named_theorems reads \<open>what a reader that accepts gives\<close>

lemma ap_Inr [reads]: "ap f x = Inr y \<longleftrightarrow> (\<exists>g z. f = Inr g \<and> x = Inr z \<and> y = g z)"
  by (auto simp: ap_def split: sum.splits)

lemma below_Inr [reads]: "below place x = Inr y \<longleftrightarrow> x = Inr y"
  by (cases x) (auto simp: below_def)

lemma flaw_Inr [simp]: "flaw type = Inr y \<longleftrightarrow> False"
  by (simp add: flaw_def)

lemma required_Inr [reads]: "required name r d = Inr y \<longleftrightarrow> (\<exists>v. dget d name = Some v \<and> r v = Inr y)"
  by (auto simp: required_def below_Inr split: option.splits)

lemma optional_Inr [reads]:
  "optional name x r d = Inr y \<longleftrightarrow> dget d name = None \<and> y = x \<or> (\<exists>v. dget d name = Some v \<and> r v = Inr y)"
  by (auto simp: optional_def below_Inr split: option.splits)

lemma strict_str_Inr [reads]: "strict_str lo hi v = Inr s \<longleftrightarrow> v = VStr s \<and> len_within lo hi s"
  by (cases v) (auto simp: strict_str_def len_within_def not_less)

lemma strict_int_Inr [reads]: "strict_int lo v = Inr n \<longleftrightarrow> v = VInt n \<and> lo \<le> n"
  by (cases v) (auto simp: strict_int_def not_less)

lemma any_str_Inr [reads]: "any_str v = Inr s \<longleftrightarrow> v = VStr s"
  by (cases v) (auto simp: any_str_def)

lemma literal_Inr [reads]: "literal names v = Inr x \<longleftrightarrow> (\<exists>s. v = VStr s \<and> map_of names s = Some x)"
  by (cases v) (auto simp: literal_def split: option.splits)

lemma nullable_Inr [reads]: "nullable r v = Inr y \<longleftrightarrow> v = VNone \<and> y = None \<or> v \<noteq> VNone \<and> (\<exists>x. y = Some x \<and> r v = Inr x)"
  by (cases "r v") (auto simp: nullable_def)

lemma items_Inr: "items r i vs = Inr xs \<longleftrightarrow> list_all2 (\<lambda>v x. r v = Inr x) vs xs"
  by (induction vs arbitrary: i xs) (auto simp: ap_Inr below_Inr list_all2_Cons1)

lemma list_of_Inr [reads]:
  "list_of lo hi r v = Inr xs \<longleftrightarrow> (\<exists>vs. v = VList vs \<and> len_within lo hi xs \<and> list_all2 (\<lambda>v x. r v = Inr x) vs xs)"
  by (cases v) (auto simp: list_of_def items_Inr len_within_def not_less dest: list_all2_lengthD)

lemma closed_to_Inr [reads]: "closed_to names d x = Inr y \<longleftrightarrow> x = Inr y \<and> set (dkeys d) \<subseteq> set names"
proof (cases "filter (\<lambda>k. k \<notin> set names) (dkeys d) = []")
  case True
  then show ?thesis unfolding closed_to_def by (auto simp: Let_def filter_empty_conv)
next
  case False
  then obtain k where "k \<in> set (dkeys d)" "k \<notin> set names" by (auto simp: filter_empty_conv)
  then show ?thesis using False unfolding closed_to_def by (auto simp: Let_def ap_Inr)
qed

lemma object_of_Inr [reads]:
  "object_of names f v = Inr y \<longleftrightarrow> (\<exists>d. v = VDict d \<and> f d = Inr y \<and> set (dkeys d) \<subseteq> set names)"
  by (cases v) (auto simp: object_of_def closed_to_Inr)

lemma list_all2_right: "list_all2 (\<lambda>v x. r v = Inr x) vs xs \<Longrightarrow> (\<And>v x. r v = Inr x \<Longrightarrow> P x) \<Longrightarrow> list_all P xs"
  by (induction rule: list_all2_induct) auto

lemma read_region_wf: "read_region v = Inr r \<Longrightarrow> wf_resource_region r"
  by (auto simp: read_region_def reads wf_resource_region_def)

lemma region_names:
  "map_of RESOURCE_KINDS (name_of RESOURCE_KINDS k) = Some k" "map_of SELECTOR_TYPES (name_of SELECTOR_TYPES t) = Some t"
  by (cases k; simp add: RESOURCE_KINDS_def name_of_def) (cases t; simp add: SELECTOR_TYPES_def name_of_def)

text \<open>The dump of a region is read back, so that the regions of an accepted plan are regions for the service too.\<close>

lemma region_round_trip: "wf_resource_region r \<Longrightarrow> read_region (VDict (region_json r)) = Inr r"
  by (auto simp: read_region_def reads region_json_def wf_resource_region_def region_names)

lemma read_child_Inr:
  assumes "read_child v = Inr c"
  shows "len_within 1 120 (cp_client_ref c) \<and> len_within 1 4000 (cp_objective c) \<and> length (cp_depends_on c) \<le> 5 \<and>
    len_within 1 50 (cp_acceptance_contract c) \<and> length (cp_write_regions c) \<le> 100 \<and>
    (\<exists>rs. cp_write_regions c = map region_json rs \<and> list_all wf_resource_region rs)"
  using assms unfolding read_child_def object_of_Inr ap_Inr
  by (clarsimp simp: required_Inr optional_Inr strict_str_Inr list_of_Inr len_within_def)
    (auto simp: list_of_Inr len_within_def intro: list_all2_right read_region_wf)

lemma strip_length: "length (strip s) \<le> length s"
proof -
  have "length (dropWhile py_space xs) \<le> length xs" for xs by (rule length_dropWhile_le)
  from this [of s] this [of "rev (dropWhile py_space s)"] show ?thesis by (simp add: strip_def)
qed

text \<open>\<^verbatim>\<open>ResourceRegion.model_validate\<close> of the domain has the fields and the limits of the request model.\<close>

definition domain_region :: "(string \<times> pyval) list \<Rightarrow> resource_region res" where
  "domain_region d = (case read_region (VDict d) of Inl _ \<Rightarrow> Inl (ValueError ''invalid'') | Inr r \<Rightarrow> Inr r)"

lemma parse_dumped: "list_all wf_resource_region rs \<Longrightarrow> parse_regions domain_region (map region_json rs) = Inr rs"
  by (induction rs) (simp_all add: domain_region_def region_round_trip)

lemma dumped_regions_complete: "region_issues i j (map region_json rs) = []"
  by (induction rs arbitrary: j) (simp_all add: region_keys_def region_json_def)

lemma child_regions_complete:
  assumes "\<forall>c \<in> set cs. \<exists>rs. cp_write_regions c = map region_json rs"
  shows "\<forall>x \<in> set (child_issues refs i cs). pi_code x \<noteq> ''invalid_region''"
  using assms
proof (induction cs arbitrary: i)
  case (Cons c cs)
  then obtain rs where "cp_write_regions c = map region_json rs" by auto
  then show ?case using Cons by (auto simp: dumped_regions_complete plan_issue_def)
qed simp

lemma read_permissions_Inr:
  "read_permissions v = Inr p \<Longrightarrow> length (rq_read_scope p) \<le> 200 \<and> length (rq_available_tools p) \<le> 200 \<and>
     length (rq_requested_write_regions p) \<le> 200"
  by (auto simp: read_permissions_def reads len_within_def)

lemma read_resource_summary_Inr:
  "read_resource_summary v = Inr x \<Longrightarrow> len_within 1 2000 (rs_canonical_uri x) \<and> len_within 1 512 (rs_base_revision x) \<and>
     length (rs_referenced_paths x) \<le> 500 \<and> length (rs_referenced_symbols x) \<le> 500"
  by (auto simp: read_resource_summary_def reads len_within_def)

lemma read_advisory_Inr:
  assumes "read_advisory v = Inr a" and "len_within 1 200 i"
  shows "wf_routing_request_envelope (advisory_envelope i now a)"
proof -
  from assms(1) obtain d t h rt u p rs dc sh where
    r: "required ''tenant_id'' (strict_str 1 200) d = Inr t" "required ''host_session_id'' (strict_str 1 200) d = Inr h"
      "required ''user_text'' (strict_str 1 10000) d = Inr u"
      "optional ''permissions'' \<lparr>rq_read_scope = [], rq_available_tools = [], rq_requested_write_regions = []\<rparr> read_permissions d = Inr p"
      "optional ''resource_summary'' None (nullable read_resource_summary) d = Inr rs"
    and a_def: "a = \<lparr>dq_tenant_id = t, dq_host_session_id = h, dq_host_declared_request_type = rt, dq_user_text = u, dq_permissions = p,
      dq_resource_summary = rs, dq_data_classification = dc, dq_record_shadow = sh\<rparr>"
    unfolding read_advisory_def object_of_Inr ap_Inr sum.inject by blast
  have a: "len_within 1 200 (dq_tenant_id a)" "len_within 1 200 (dq_host_session_id a)" "len_within 1 10000 (dq_user_text a)"
    using r(1-3) by (auto simp: a_def required_Inr strict_str_Inr)
  moreover have "length (rq_read_scope (dq_permissions a)) \<le> 200 \<and> length (rq_available_tools (dq_permissions a)) \<le> 200 \<and>
     length (rq_requested_write_regions (dq_permissions a)) \<le> 200"
    using r(4) by (auto simp: a_def optional_Inr dest: read_permissions_Inr)
  moreover have "\<forall>x. dq_resource_summary a = Some x \<longrightarrow> len_within 1 2000 (rs_canonical_uri x) \<and> len_within 1 512 (rs_base_revision x) \<and>
     length (rs_referenced_paths x) \<le> 500 \<and> length (rs_referenced_symbols x) \<le> 500"
    using r(5) by (auto simp: a_def optional_Inr nullable_Inr dest: read_resource_summary_Inr)
  moreover have "length (codes (strip (dq_user_text a))) \<le> 10000"
    using a(3) strip_length [of "dq_user_text a"] by (simp add: codes_def len_within_def)
  ultimately show ?thesis using assms(2)
    by (auto simp: wf_routing_request_envelope_def advisory_envelope_def split: option.split)
qed



section \<open>A body without a version\<close>

definition first_issue :: "issue \<Rightarrow> 'a parsed \<Rightarrow> bool" where
  "first_issue i x \<longleftrightarrow> (\<exists>is. x = Inl (i # is))"

lemma first_issue_ap: "first_issue i f \<Longrightarrow> first_issue i (ap f x)"
  by (auto simp: first_issue_def ap_def split: sum.splits)

lemma first_issue_chain: "first_issue i (ap f x) \<Longrightarrow> first_issue i (ap (ap f x) y)"
  by (rule first_issue_ap)

lemma first_issue_here: "first_issue i x \<Longrightarrow> first_issue i (ap (Inr g) x)"
  by (auto simp: first_issue_def ap_def)

lemma first_issue_closed: "first_issue i x \<Longrightarrow> first_issue i (closed_to names d x)"
  unfolding closed_to_def Let_def by (auto intro!: first_issue_ap) (auto simp: first_issue_def)

lemma first_issue_object: "first_issue i (f d) \<Longrightarrow> first_issue i (object_of names f (VDict d))"
  by (simp add: object_of_def first_issue_closed)

lemma version_issue:
  assumes "\<nexists>n. dget d name = Some (VInt n) \<and> 1 \<le> n"
  shows "\<exists>type. first_issue ([VStr name], type) (required name (strict_int 1) d) \<and> (type = ''missing'' \<longleftrightarrow> dget d name = None)"
proof (cases "dget d name")
  case None
  then show ?thesis by (simp add: required_def below_def flaw_def first_issue_def)
next
  case (Some v)
  then show ?thesis using assms
    by (cases v) (auto simp: required_def below_def flaw_def first_issue_def strict_int_def split: if_splits)
qed

lemma version_comes_first:
  "first_issue i (required ''expected_version'' (strict_int 1) d) \<Longrightarrow> first_issue i (read_register_epoch (VDict d))"
  "first_issue i (required ''expected_version'' (strict_int 1) d) \<Longrightarrow> first_issue i (read_controller_request (VDict d))"
  "first_issue i (required ''expected_version'' (strict_int 1) d) \<Longrightarrow> first_issue i (read_verify_task (VDict d))"
  "first_issue i (required ''expected_version'' (strict_int 1) d) \<Longrightarrow> first_issue i (read_record_evidence (VDict d))"
  "first_issue i (required ''expected_version'' (strict_int 1) d) \<Longrightarrow> first_issue i (read_decide_approval (VDict d))"
  "first_issue i (required ''expected_version'' (strict_int 1) d) \<Longrightarrow> first_issue i (read_control_task (VDict d))"
  "first_issue i (required ''expected_parent_version'' (strict_int 1) d) \<Longrightarrow> first_issue i (read_plan (VDict d))"
  unfolding read_register_epoch_def read_controller_request_def read_verify_task_def read_record_evidence_def
    read_decide_approval_def read_control_task_def read_plan_def
  by (intro first_issue_object first_issue_chain first_issue_here; assumption)+

text \<open>The code of the answer to a body that is refused.\<close>

definition refused_as :: "string \<Rightarrow> 'a parsed \<Rightarrow> bool" where
  "refused_as code x \<longleftrightarrow> (\<exists>is. x = Inl is \<and> validation_error_code is = code)"

lemma refused_first:
  assumes "first_issue ([VStr name], type) x" and "name \<in> {''expected_version'', ''expected_parent_version''}"
  shows "refused_as (if type = ''missing'' then ''invalid_boundary'' else ''invalid_expected_version'') x"
  using assms by (auto simp: first_issue_def refused_as_def)

text \<open>
  Every body that changes a session, a task, a plan or an approval names the version it expects. One that does not is
  refused with \<^verbatim>\<open>invalid_boundary\<close>, one whose version is no positive integer (a boolean, a float or a text is none) with
  \<^verbatim>\<open>invalid_expected_version\<close>, whatever else is wrong with it.
\<close>

theorem version_is_required:
  assumes "\<nexists>n. dget d name = Some (VInt n) \<and> 1 \<le> n"
  shows "let code = (if dget d name = None then ''invalid_boundary'' else ''invalid_expected_version'') in
    (name = ''expected_version'' \<longrightarrow>
      refused_as code (read_register_epoch (VDict d)) \<and> refused_as code (read_controller_request (VDict d)) \<and>
      refused_as code (read_verify_task (VDict d)) \<and> refused_as code (read_record_evidence (VDict d)) \<and>
      refused_as code (read_decide_approval (VDict d)) \<and> refused_as code (read_control_task (VDict d))) \<and>
    (name = ''expected_parent_version'' \<longrightarrow> refused_as code (read_plan (VDict d)))"
proof -
  from version_issue [OF assms] obtain type where type: "first_issue ([VStr name], type) (required name (strict_int 1) d)"
    "type = ''missing'' \<longleftrightarrow> dget d name = None" by (elim exE conjE)
  have code: "refused_as (if dget d name = None then ''invalid_boundary'' else ''invalid_expected_version'') x"
    if "first_issue ([VStr name], type) x" and "name \<in> {''expected_version'', ''expected_parent_version''}" for x :: "'a parsed"
    using refused_first [OF that] by (simp add: type(2))
  have here: "first_issue ([VStr name], type) (required n (strict_int 1) d)" if "name = n" for n using type(1) that by simp
  show ?thesis unfolding Let_def
    by (intro conjI impI; rule code, rule version_comes_first, rule here, assumption, simp)
qed

lemma version_is_required_witness:
  "refused_as ''invalid_boundary'' (read_control_task (VDict [(''reason'', VStr ''r'')])) \<and>
   refused_as ''invalid_expected_version'' (read_plan (VDict [(''expected_parent_version'', VBool True)]))"
  using version_is_required [of "[(''reason'', VStr ''r'')]" "''expected_version''"]
    version_is_required [of "[(''expected_parent_version'', VBool True)]" "''expected_parent_version''"]
  by (simp add: Let_def)

end
