(* ===== verification/Manifests.thy ===== *)
theory Manifests
  imports Schemas Controllers "HOL-Library.Multiset"
begin

text \<open>
  \<^verbatim>\<open>routing/manifest.py\<close>: the model profiles read from a directory of JSON files.

  A directory is what \<^verbatim>\<open>glob\<close> and \<^verbatim>\<open>read_text\<close> find in it: the names of its entries, in any order, each with its text or
  the error of reading it; \<open>decode\<close> is \<^verbatim>\<open>json.loads\<close>.
\<close>

section \<open>A profile\<close>

definition PROTOCOL_STATUSES :: "(string \<times> protocol_status) list" where
  "PROTOCOL_STATUSES = [(''compatible'', PS_compatible), (''incompatible'', PS_incompatible)]"

definition ROLE_STATUSES :: "(string \<times> role_status) list" where
  "ROLE_STATUSES = [(''candidate'', RO_candidate), (''certified'', RO_certified), (''suspended'', RO_suspended)]"

text \<open>The validators \<^verbatim>\<open>provider_required\<close> and \<^verbatim>\<open>model_required\<close> run on a text that has passed its limits.\<close>

definition not_blank :: "string reader \<Rightarrow> string reader" where
  "not_blank r v = (case r v of Inl is \<Rightarrow> Inl is | Inr s \<Rightarrow> if strip s = [] then flaw ''value_error'' else Inr s)"

fun text_items :: "json_object \<Rightarrow> (string, string) dict parsed" where
  "text_items [] = Inr []"
| "text_items ((k, v) # d) = ap (ap (Inr (\<lambda>s m. (k, s) # m)) (below (VStr k) (any_str v))) (text_items d)"

definition text_map :: "(string, string) dict reader" where
  "text_map v = (case v of VDict d \<Rightarrow> text_items d | _ \<Rightarrow> flaw ''dict_type'')"

definition read_model_profile :: "model_profile reader" where
  "read_model_profile = object_of
     [''provider_id'', ''model_id'', ''measured_at'', ''protocol_status'', ''worker_status'', ''controller_status'',
      ''supported_modalities'', ''supported_tools'', ''effort_mapping'', ''region'', ''evidence_refs''] (\<lambda>d.
     ap (ap (ap (ap (ap (ap (ap (ap (ap (ap (ap (Inr (\<lambda>p m t ps ws cs sm st em r er.
         \<lparr>mp_provider_id = p, mp_model_id = m, mp_measured_at = t, mp_protocol_status = ps, mp_worker_status = ws,
          mp_controller_status = cs, mp_supported_modalities = sm, mp_supported_tools = st, mp_effort_mapping = em,
          mp_region = r, mp_evidence_refs = er\<rparr>))
       (required ''provider_id'' (not_blank (strict_str 1 200)) d)) (required ''model_id'' (not_blank (strict_str 1 200)) d))
       (required ''measured_at'' (strict_str 1 200) d)) (required ''protocol_status'' (literal PROTOCOL_STATUSES) d))
       (required ''worker_status'' (literal ROLE_STATUSES) d)) (required ''controller_status'' (literal ROLE_STATUSES) d))
       (optional ''supported_modalities'' [] (list_of 0 200 any_str) d))
       (optional ''supported_tools'' [] (list_of 0 200 any_str) d)) (optional ''effort_mapping'' [] text_map d))
       (required ''region'' (strict_str 1 200) d)) (optional ''evidence_refs'' [] (list_of 0 500 any_str) d))"

section \<open>A directory of manifests\<close>

type_synonym directory = "(string \<times> string res) list"

definition SCHEMA_FILE :: string where
  "SCHEMA_FILE = ''model-manifest.schema.json''"

definition load_manifest :: "(string \<Rightarrow> pyval option) \<Rightarrow> string res \<Rightarrow> model_profile res" where
  "load_manifest decode file =
     bind_res file (\<lambda>body.
     bind_res (case decode body of None \<Rightarrow> Inl (ValueError ''JSONDecodeError'') | Some v \<Rightarrow> Inr v) (\<lambda>data.
     case data of
       VDict d \<Rightarrow>
         (case read_model_profile (case dget d ''model_profile'' of None \<Rightarrow> data | Some payload \<Rightarrow> payload) of
            Inl _ \<Rightarrow> Inl (ValueError ''ValidationError'')
          | Inr p \<Rightarrow> Inr p)
     | _ \<Rightarrow> Inl AttributeError))"

text \<open>The errors of the except clause: the file is skipped.\<close>

definition skipped :: "exn \<Rightarrow> bool" where
  "skipped e \<longleftrightarrow> e = OSError \<or> is_value_error e"

fun load_each :: "(string \<Rightarrow> pyval option) \<Rightarrow> directory \<Rightarrow> model_profile list res" where
  "load_each decode [] = Inr []"
| "load_each decode ((name, file) # files) =
     (if name = SCHEMA_FILE then load_each decode files
      else case load_manifest decode file of
             Inr p \<Rightarrow> bind_res (load_each decode files) (\<lambda>ps. Inr (p # ps))
           | Inl e \<Rightarrow> if skipped e then load_each decode files else Inl e)"

definition json_files :: "directory \<Rightarrow> directory" where
  "json_files files = sort_key fst (filter (\<lambda>(name, _). suffix ''.json'' name) files)"

text \<open>\<open>None\<close> is a path that is no directory.\<close>

definition load_model_manifests :: "(string \<Rightarrow> pyval option) \<Rightarrow> directory option \<Rightarrow> model_profile list res" where
  "load_model_manifests decode dir =
     (case dir of None \<Rightarrow> Inl OSError | Some files \<Rightarrow> load_each decode (json_files files))"


section \<open>What a load gives\<close>

definition wf_model_profile :: "model_profile \<Rightarrow> bool" where
  "wf_model_profile p \<longleftrightarrow>
     len_within 1 200 (mp_provider_id p) \<and> strip (mp_provider_id p) \<noteq> [] \<and>
     len_within 1 200 (mp_model_id p) \<and> strip (mp_model_id p) \<noteq> [] \<and>
     len_within 1 200 (mp_measured_at p) \<and> len_within 1 200 (mp_region p) \<and>
     length (mp_supported_modalities p) \<le> 200 \<and> length (mp_supported_tools p) \<le> 200 \<and> length (mp_evidence_refs p) \<le> 500"

lemma not_blank_Inr [reads]: "not_blank r v = Inr s \<longleftrightarrow> r v = Inr s \<and> strip s \<noteq> []"
  by (auto simp: not_blank_def flaw_def split: sum.splits)

lemma some_items: "list_of lo hi r v = Inr xs \<Longrightarrow> length xs \<le> hi"
  by (auto simp: list_of_Inr len_within_def dest: list_all2_lengthD)

lemma read_model_profile_wf:
  assumes "read_model_profile v = Inr p"
  shows "wf_model_profile p"
proof -
  from assms obtain d a b t ps ws cs sm st em r er where
    f: "required ''provider_id'' (not_blank (strict_str 1 200)) d = Inr a" "required ''model_id'' (not_blank (strict_str 1 200)) d = Inr b"
      "required ''measured_at'' (strict_str 1 200) d = Inr t" "required ''region'' (strict_str 1 200) d = Inr r"
    and l: "optional ''supported_modalities'' [] (list_of 0 200 any_str) d = Inr sm"
      "optional ''supported_tools'' [] (list_of 0 200 any_str) d = Inr st"
      "optional ''evidence_refs'' [] (list_of 0 500 any_str) d = Inr er"
    and p: "p = \<lparr>mp_provider_id = a, mp_model_id = b, mp_measured_at = t, mp_protocol_status = ps, mp_worker_status = ws,
          mp_controller_status = cs, mp_supported_modalities = sm, mp_supported_tools = st, mp_effort_mapping = em,
          mp_region = r, mp_evidence_refs = er\<rparr>"
    unfolding read_model_profile_def object_of_Inr ap_Inr sum.inject by blast
  have "length sm \<le> 200" "length st \<le> 200" "length er \<le> 500" using l by (auto simp: optional_Inr dest: some_items)
  then show ?thesis using f by (auto simp: wf_model_profile_def p required_Inr not_blank_Inr strict_str_Inr)
qed

text \<open>The entries of a directory that are manifests, and what one of them does to a load.\<close>

definition manifest_of :: "string \<times> string res \<Rightarrow> bool" where
  "manifest_of f \<longleftrightarrow> suffix ''.json'' (fst f) \<and> fst f \<noteq> SCHEMA_FILE"

definition stops :: "(string \<Rightarrow> pyval option) \<Rightarrow> string \<times> string res \<Rightarrow> bool" where
  "stops decode f \<longleftrightarrow> manifest_of f \<and> (\<exists>e. load_manifest decode (snd f) = Inl e \<and> \<not> skipped e)"

definition profile_in :: "(string \<Rightarrow> pyval option) \<Rightarrow> string \<times> string res \<Rightarrow> model_profile option" where
  "profile_in decode f =
     (if manifest_of f then (case load_manifest decode (snd f) of Inl _ \<Rightarrow> None | Inr p \<Rightarrow> Some p) else None)"

lemma load_each_Inr:
  assumes "\<forall>f \<in> set files. suffix ''.json'' (fst f) \<and> \<not> stops decode f"
  shows "load_each decode files = Inr (List.map_filter (profile_in decode) files)"
  using assms
proof (induction files)
  case (Cons f files)
  then have rest: "load_each decode files = Inr (List.map_filter (profile_in decode) files)" "suffix ''.json'' (fst f)" "\<not> stops decode f"
    by simp_all
  obtain name body where f: "f = (name, body)" by fastforce
  have "load_each decode (f # files) = Inr ((case profile_in decode f of None \<Rightarrow> [] | Some p \<Rightarrow> [p]) @ List.map_filter (profile_in decode) files)"
  proof (cases "name = SCHEMA_FILE \<or> isl (load_manifest decode body)")
    case True
    then show ?thesis using rest by (auto simp: f profile_in_def stops_def manifest_of_def isl_def)
  next
    case False
    then show ?thesis using rest by (cases "load_manifest decode body") (simp_all add: f profile_in_def manifest_of_def)
  qed
  then show ?case by (simp add: map_filter_simps split: option.split)
qed (simp add: map_filter_simps)

lemma load_each_Inl:
  assumes "f \<in> set files" and "stops decode f"
  shows "\<exists>e. load_each decode files = Inl e \<and> \<not> skipped e"
  using assms
proof (induction files)
  case (Cons g files)
  show ?case
  proof (cases "stops decode g")
    case True
    then show ?thesis by (cases g) (auto simp: stops_def manifest_of_def)
  next
    case False
    then have "f \<in> set files" using Cons.prems by auto
    with Cons.IH Cons.prems obtain e where "load_each decode files = Inl e" "\<not> skipped e" by blast
    then show ?thesis by (cases g) (auto split: sum.splits)
  qed
qed simp

lemma filter_key: "distinct (map f xs) \<Longrightarrow> k \<in> set xs \<Longrightarrow> filter (\<lambda>x. f k = f x) xs = [k]"
proof (induction xs)
  case (Cons x xs)
  show ?case
  proof (cases "x = k")
    case True
    then have "\<forall>y \<in> set xs. f k \<noteq> f y" using Cons.prems(1) by force
    then show ?thesis using True by simp
  next
    case False
    then have "k \<in> set xs" using Cons.prems(2) by simp
    with Cons have "filter (\<lambda>x. f k = f x) xs = [k]" by simp
    moreover have "f k \<noteq> f x" using \<open>k \<in> set xs\<close> Cons.prems(1) by (auto simp: image_iff)
    ultimately show ?thesis by simp
  qed
qed simp

lemma json_files_perm:
  assumes "mset files = mset files'" and "distinct (map fst files)"
  shows "json_files files = json_files files'"
proof -
  let ?p = "\<lambda>(name, _ :: string res). suffix ''.json'' name"
  have m: "mset (filter ?p files) = mset (filter ?p files')" using assms(1) by simp
  have "mset (map fst files) = mset (map fst files')" using assms(1) by simp
  then have "distinct (map fst files')" using assms(2) by (metis mset_eq_imp_distinct_iff)
  then have d: "distinct (map fst (filter ?p files))" "distinct (map fst (filter ?p files'))"
    using assms(2) by (simp_all add: distinct_map_filter)
  have "mset (map fst (sort_key fst (filter ?p files'))) = mset (map fst (filter ?p files'))" by (simp only: mset_map mset_sort)
  from mset_eq_imp_distinct_iff [OF this] have d': "distinct (map fst (sort_key fst (filter ?p files')))" using d(2) by simp
  show ?thesis unfolding json_files_def
  proof (rule properties_for_sort_key)
    show "mset (sort_key fst (filter ?p files')) = mset (filter ?p files)" using m by simp
    fix k assume k: "k \<in> set (sort_key fst (filter ?p files'))"
    moreover have "k \<in> set (filter ?p files)" using k m by (metis set_mset_mset mset_sort)
    ultimately show "filter (\<lambda>x. fst k = fst x) (sort_key fst (filter ?p files')) = filter (\<lambda>x. fst k = fst x) (filter ?p files)"
      using filter_key [OF d(1)] filter_key [OF d'] by simp
  qed simp
qed

lemma load_manifest_Inr:
  "load_manifest decode file = Inr p \<longleftrightarrow>
     (\<exists>body d. file = Inr body \<and> decode body = Some (VDict d) \<and>
        read_model_profile (case dget d ''model_profile'' of None \<Rightarrow> VDict d | Some payload \<Rightarrow> payload) = Inr p)"
proof (cases "\<exists>body d. file = Inr body \<and> decode body = Some (VDict d)")
  case True
  then obtain body d where "file = Inr body" "decode body = Some (VDict d)" by (elim exE conjE)
  then show ?thesis by (simp add: load_manifest_def split: sum.split)
next
  case False
  have "load_manifest decode file \<noteq> Inr p"
  proof (cases "file")
    case (Inr body)
    with False have "\<forall>d. decode body \<noteq> Some (VDict d)" by blast
    then show ?thesis using Inr by (simp add: load_manifest_def split: option.split pyval.split)
  qed (simp add: load_manifest_def)
  with False show ?thesis by blast
qed

lemma profile_in_Some: "profile_in decode f = Some p \<longleftrightarrow> manifest_of f \<and> load_manifest decode (snd f) = Inr p"
  by (auto simp: profile_in_def split: sum.splits)

lemma json_files_set: "set (json_files files) = {f \<in> set files. suffix ''.json'' (fst f)}"
  by (auto simp: json_files_def)

lemma set_of_found: "set (List.map_filter f xs) = {y. \<exists>x \<in> set xs. f x = Some y}"
  by (induction xs) (auto split: option.split)

lemma set_loaded:
  "set (List.map_filter (profile_in decode) (json_files files)) = {p. \<exists>f \<in> set files. profile_in decode f = Some p}"
proof -
  have "suffix ''.json'' (fst f)" if "profile_in decode f = Some p" for f p
    using that by (simp add: profile_in_Some manifest_of_def)
  then show ?thesis unfolding set_of_found json_files_set by blast
qed

lemma load_model_manifests_cases:
  "load_model_manifests decode (Some files) =
     (if \<exists>f \<in> set files. stops decode f then load_model_manifests decode (Some files)
      else Inr (List.map_filter (profile_in decode) (json_files files)))"
  "(\<exists>f \<in> set files. stops decode f) \<Longrightarrow> \<exists>e. load_model_manifests decode (Some files) = Inl e \<and> \<not> skipped e"
proof -
  have "\<forall>f \<in> set (json_files files). suffix ''.json'' (fst f)" by (simp add: json_files_set)
  then show "load_model_manifests decode (Some files) =
     (if \<exists>f \<in> set files. stops decode f then load_model_manifests decode (Some files)
      else Inr (List.map_filter (profile_in decode) (json_files files)))"
    using load_each_Inr [of "json_files files" decode] by (auto simp: load_model_manifests_def json_files_set)
  assume "\<exists>f \<in> set files. stops decode f"
  then obtain f where "f \<in> set (json_files files)" "stops decode f" by (auto simp: json_files_set stops_def manifest_of_def)
  then show "\<exists>e. load_model_manifests decode (Some files) = Inl e \<and> \<not> skipped e"
    using load_each_Inl by (simp add: load_model_manifests_def)
qed

text \<open>
  A load does not depend on the order in which the directory is listed. It returns unless a manifest raises an error that is
  not skipped, as one does whose JSON value is no object; then it has exactly the valid profiles, and the controller selected from them
  is certified by a manifest of the directory and has the least name of those that are.
\<close>

theorem manifests_are_loaded:
  assumes "distinct (map fst files)"
  shows "\<And>files'. mset files' = mset files \<Longrightarrow>
      load_model_manifests decode (Some files') = load_model_manifests decode (Some files)"
    and "isl (load_model_manifests decode (Some files)) \<longleftrightarrow> (\<exists>f \<in> set files. stops decode f)"
    and "(name, Inr body) \<in> set files \<Longrightarrow> manifest_of (name, Inr body) \<Longrightarrow> decode body = Some v \<Longrightarrow> (\<And>d. v \<noteq> VDict d) \<Longrightarrow>
      isl (load_model_manifests decode (Some files))"
    and "load_model_manifests decode (Some files) = Inr ps \<Longrightarrow>
      set ps = {p. \<exists>f \<in> set files. profile_in decode f = Some p} \<and> list_all wf_model_profile ps"
    and "load_model_manifests decode (Some files) = Inr ps \<Longrightarrow> select_controller prefer ps = Some r \<Longrightarrow>
      \<exists>f \<in> set files. profile_in decode f = Some (cr_profile r) \<and> eligible_for_controller (cr_profile r) \<and>
        (\<forall>g \<in> set files. \<forall>q. profile_in decode g = Some q \<and> eligible_for_controller q \<longrightarrow> profile_key (cr_profile r) \<le> profile_key q)"
proof -
  show "load_model_manifests decode (Some files') = load_model_manifests decode (Some files)" if "mset files' = mset files" for files'
    using json_files_perm [OF that [symmetric] assms] by (simp add: load_model_manifests_def)
  show stop: "isl (load_model_manifests decode (Some files)) \<longleftrightarrow> (\<exists>f \<in> set files. stops decode f)"
    using load_model_manifests_cases [where decode = decode and files = files] by (auto simp: isl_def split: if_splits)
  show "isl (load_model_manifests decode (Some files))"
    if "(name, Inr body) \<in> set files" "manifest_of (name, Inr body)" "decode body = Some v" "\<And>d. v \<noteq> VDict d"
  proof -
    have "load_manifest decode (Inr body) = Inl AttributeError"
      using that(3) by (cases v) (use that(4) in \<open>auto simp: load_manifest_def\<close>)
    then have "stops decode (name, Inr body)" using that(2) by (simp add: stops_def skipped_def)
    then show ?thesis using stop that(1) by blast
  qed
  have ps: "set ps = {p. \<exists>f \<in> set files. profile_in decode f = Some p} \<and> list_all wf_model_profile ps"
    if "load_model_manifests decode (Some files) = Inr ps" for ps
  proof -
    have "ps = List.map_filter (profile_in decode) (json_files files)"
      using that stop load_model_manifests_cases(1) [where decode = decode and files = files] by (auto split: if_splits)
    then have "set ps = {p. \<exists>f \<in> set files. profile_in decode f = Some p}"
      by (simp add: set_loaded)
    moreover from this have "list_all wf_model_profile ps"
      by (auto simp: list_all_iff profile_in_Some load_manifest_Inr dest: read_model_profile_wf)
    ultimately show ?thesis by simp
  qed
  show "set ps = {p. \<exists>f \<in> set files. profile_in decode f = Some p} \<and> list_all wf_model_profile ps"
    if "load_model_manifests decode (Some files) = Inr ps" using ps [OF that] .
  show "\<exists>f \<in> set files. profile_in decode f = Some (cr_profile r) \<and> eligible_for_controller (cr_profile r) \<and>
      (\<forall>g \<in> set files. \<forall>q. profile_in decode g = Some q \<and> eligible_for_controller q \<longrightarrow> profile_key (cr_profile r) \<le> profile_key q)"
    if "load_model_manifests decode (Some files) = Inr ps" "select_controller prefer ps = Some r"
    using ps [OF that(1)] select_controller_Some [OF that(2)] by (auto simp: best_controller_def)
qed

end
