(* ===== verification/Hosts.thy ===== *)
theory Hosts
  imports Api
begin

text \<open>
  \<^verbatim>\<open>frameworks/agentscope/adapter.py\<close>: the bridge of a host to the HTTP interface.

  The HTTP client of the host is the parameter \<open>http_client\<close>, a program on the world behind it; the JSON values
  of hosts and answers are \<open>pyval\<close>, \<open>decode\<close> is \<^verbatim>\<open>json.loads\<close>. An \<^verbatim>\<open>AgentScopeLifecycleError\<close> is a \<open>RuntimeError\<close>,
  its text is not modelled.
\<close>

section \<open>The HTTP bridge\<close>

record http_answer =
  ha_status :: int
  ha_text :: string

record 'w http_client =
  hc_post :: "string \<Rightarrow> pyval \<Rightarrow> string \<Rightarrow> ('w, http_answer) prog"
  hc_get :: "string \<Rightarrow> string option \<Rightarrow> ('w, http_answer) prog"

record 'w host_api =
  va_post :: "string \<Rightarrow> pyval \<Rightarrow> string \<Rightarrow> ('w, pyval) prog"
  va_events :: "string \<Rightarrow> string option \<Rightarrow> ('w, json_object list) prog"

type_synonym decoder = "string \<Rightarrow> pyval option"

definition raise_for_status :: "http_answer \<Rightarrow> unit res" where
  "raise_for_status a = (if 200 \<le> ha_status a \<and> ha_status a < 300 then Inr () else Inl (HTTPStatusError (ha_status a)))"

definition lstrip :: "string \<Rightarrow> string" where
  "lstrip = dropWhile py_space"

text \<open>What \<^verbatim>\<open>_parse_sse\<close> makes of the fields of a frame, at the empty line that ends it.\<close>

definition sse_event :: "decoder \<Rightarrow> json_object \<Rightarrow> string list \<Rightarrow> json_object" where
  "sse_event decode current data_lines =
     (let body = newline_join data_lines;
          v = (case decode body of None \<Rightarrow> VStr body | Some x \<Rightarrow> x)
      in case v of
           VDict d \<Rightarrow>
             if ''type'' \<in> set (dkeys d) \<and> ''data'' \<in> set (dkeys d)
             then (case dget current ''id'' of
                     Some x \<Rightarrow> if ''id'' \<notin> set (dkeys d) then dput ''id'' x d else d
                   | None \<Rightarrow> d)
             else dput ''data'' v current
         | _ \<Rightarrow> dput ''data'' v current)"

fun sse_lines :: "decoder \<Rightarrow> json_object \<Rightarrow> string list \<Rightarrow> string list \<Rightarrow> json_object list" where
  "sse_lines decode current data_lines [] = []"
| "sse_lines decode current data_lines (line # rest) =
     (if line = []
      then (if current \<noteq> [] \<or> data_lines \<noteq> [] then [sse_event decode current data_lines] else []) @
           sse_lines decode [] [] rest
      else let name = takeWhile (\<lambda>c. c \<noteq> CHR '':'') line;
               v = lstrip (tl (dropWhile (\<lambda>c. c \<noteq> CHR '':'') line))
           in if name = ''data'' then sse_lines decode current (data_lines @ [v]) rest
              else if name = ''id'' then sse_lines decode (dput ''id'' (VStr v) current) data_lines rest
              else if name = ''event'' then sse_lines decode (dput ''type'' (VStr v) current) data_lines rest
              else sse_lines decode current data_lines rest)"

definition parse_sse :: "decoder \<Rightarrow> string \<Rightarrow> json_object list" where
  "parse_sse decode body = sse_lines decode [] [] (split_lines body @ [[]])"

definition httpx_post :: "'w http_client \<Rightarrow> string \<Rightarrow> decoder \<Rightarrow> string \<Rightarrow> pyval \<Rightarrow> string \<Rightarrow> ('w, pyval) prog" where
  "httpx_post C base_url decode path json key =
     bind (hc_post C (rstrip_slash base_url @ path) json key) (\<lambda>a.
     andthen (lift (raise_for_status a))
       (lift (case decode (ha_text a) of None \<Rightarrow> Inl (ValueError ''JSONDecodeError'') | Some v \<Rightarrow> Inr v)))"

definition httpx_events ::
    "'w http_client \<Rightarrow> string \<Rightarrow> decoder \<Rightarrow> string \<Rightarrow> string option \<Rightarrow> ('w, json_object list) prog" where
  "httpx_events C base_url decode path last_event_id =
     bind (hc_get C (rstrip_slash base_url @ path) last_event_id) (\<lambda>a.
     andthen (lift (raise_for_status a)) (ret (parse_sse decode (ha_text a))))"

definition httpx_api :: "'w http_client \<Rightarrow> string \<Rightarrow> decoder \<Rightarrow> 'w host_api" where
  "httpx_api C base_url decode = \<lparr>va_post = httpx_post C base_url decode, va_events = httpx_events C base_url decode\<rparr>"

text \<open>The probe for the optional package: its version, if installed, and the error its import raises, if any.\<close>

record installation =
  is_available :: bool
  is_version :: "string option"
  is_reason :: "string option"

definition detect_agentscope :: "string option \<Rightarrow> string option \<Rightarrow> installation" where
  "detect_agentscope installed import_error =
     (case installed of
        None \<Rightarrow> \<lparr>is_available = False, is_version = None, is_reason = Some ''install valueroute[agentscope] (Python 3.11+)''\<rparr>
      | Some v \<Rightarrow>
     (case import_error of
        Some e \<Rightarrow> \<lparr>is_available = False, is_version = Some v, is_reason = Some (''agentscope import failed: '' @ e)\<rparr>
      | None \<Rightarrow> \<lparr>is_available = True, is_version = Some v, is_reason = None\<rparr>))"

section \<open>The adapter\<close>

definition item :: "pyval \<Rightarrow> string \<Rightarrow> pyval res" where
  "item v k =
     (case v of
        VDict d \<Rightarrow> (case dget d k of None \<Rightarrow> Inl KeyError | Some x \<Rightarrow> Inr x)
      | _ \<Rightarrow> Inl TypeError)"

definition get_or :: "json_object \<Rightarrow> string \<Rightarrow> pyval \<Rightarrow> pyval" where
  "get_or d k x = (case dget d k of None \<Rightarrow> x | Some v \<Rightarrow> v)"

definition session_payload :: "json_object \<Rightarrow> pyval res" where
  "session_payload host =
     bind_res (item (VDict host) ''tenant_id'') (\<lambda>tenant.
     bind_res (item (VDict host) ''session_id'') (\<lambda>session.
     Inr (VDict [(''tenant_id'', tenant), (''host_session_id'', session),
                 (''orchestration_mode'', get_or host ''orchestration_mode'' (VStr ''worker_only''))])))"

definition task_payload :: "json_object \<Rightarrow> pyval \<Rightarrow> pyval res" where
  "task_payload host session_id =
     bind_res (item (VDict host) ''goal'') (\<lambda>goal.
     bind_res (item (VDict host) ''acceptance_contract'') (\<lambda>contract.
     bind_res (item (VDict host) ''workspace'') (\<lambda>workspace.
     Inr (VDict [(''controller_session_id'', session_id),
                 (''request_type'', get_or host ''request_type'' (VStr ''new_task'')), (''goal'', goal),
                 (''acceptance_contract'', contract),
                 (''data_classification'', get_or host ''data_classification'' (VStr ''internal'')),
                 (''workspace'', workspace), (''budgets'', get_or host ''budgets'' (VDict []))]))))"

definition event_to_host :: "json_object \<Rightarrow> json_object" where
  "event_to_host e =
     [(''event_id'', get_or e ''id'' VNone), (''sequence'', get_or e ''sequence'' VNone), (''type'', get_or e ''type'' VNone),
      (''data'', get_or e ''data'' (VDict []))]"

text \<open>\<^verbatim>\<open>dict(value)\<close>: a copy of a mapping, or the dictionary of a sequence of pairs.\<close>

fun pairs_from :: "json_object \<Rightarrow> pyval list \<Rightarrow> json_object res" where
  "pairs_from d [] = Inr d"
| "pairs_from d (p # ps) =
     (case p of
        VList [VStr k, v] \<Rightarrow> pairs_from (dput k v d) ps
      | VList [_, _] \<Rightarrow> Inl TypeError
      | VList _ \<Rightarrow> Inl (ValueError ''dictionary update sequence'')
      | _ \<Rightarrow> Inl TypeError)"

definition dict_of :: "pyval \<Rightarrow> json_object res" where
  "dict_of v =
     (case v of
        VDict d \<Rightarrow> Inr d
      | VList ps \<Rightarrow> pairs_from [] ps
      | VStr s \<Rightarrow> if s = [] then Inr [] else Inl (ValueError ''dictionary update sequence'')
      | _ \<Rightarrow> Inl TypeError)"

text \<open>\<open>{**value, "version": version}\<close>: only a mapping can be spread.\<close>

definition with_version :: "pyval \<Rightarrow> pyval \<Rightarrow> pyval res" where
  "with_version v n = (case v of VDict d \<Rightarrow> Inr (VDict (dput ''version'' n d)) | _ \<Rightarrow> Inl TypeError)"

record started_task =
  sd_session :: pyval
  sd_epoch :: pyval
  sd_task :: pyval
  sd_plan :: pyval

text \<open>The key of a step of the life cycle, from the session of the host.\<close>

definition step_key :: "builtins \<Rightarrow> pyval \<Rightarrow> string \<Rightarrow> string" where
  "step_key B session step = ''agentscope:'' @ py_str B session @ '':'' @ step"

definition submit_host_plan ::
    "builtins \<Rightarrow> 'w host_api \<Rightarrow> json_object \<Rightarrow> pyval \<Rightarrow> pyval \<Rightarrow> ('w, pyval \<times> pyval) prog" where
  "submit_host_plan B api host session task =
     (case get_or host ''plan'' VNone of
        VNone \<Rightarrow> ret (VNone, task)
      | p \<Rightarrow>
          bind (lift (dict_of p)) (\<lambda>plan.
          bind (lift (item task ''version'')) (\<lambda>version.
          bind (lift (item task ''id'')) (\<lambda>task_id.
          bind (va_post api (''/v1/tasks/'' @ py_str B task_id @ ''/plan'')
                  (VDict (dput ''expected_parent_version'' version plan)) (step_key B session ''plan'')) (\<lambda>answer.
          bind (lift (item answer ''meta'')) (\<lambda>meta.
          bind (lift (item meta ''resource_version'')) (\<lambda>now_version.
          bind (lift (with_version task now_version)) (\<lambda>task'. ret (answer, task')))))))))"

definition start_task :: "builtins \<Rightarrow> 'w host_api \<Rightarrow> json_object \<Rightarrow> ('w, started_task) prog" where
  "start_task B api host =
     bind (lift (item (VDict host) ''session_id'')) (\<lambda>session.
     bind (lift (session_payload host)) (\<lambda>payload.
     bind (va_post api ''/v1/controller-sessions'' payload (step_key B session ''session'')) (\<lambda>a1.
     bind (lift (item a1 ''data'')) (\<lambda>session_data.
     bind (lift (item session_data ''id'')) (\<lambda>session_id.
     bind (lift (item session_data ''version'')) (\<lambda>session_version.
     bind (va_post api (''/v1/controller-sessions/'' @ py_str B session_id @ ''/epochs'')
             (VDict [(''expected_version'', session_version),
                     (''provider_id'', get_or host ''provider_id'' (VStr ''openai'')),
                     (''model_id'', get_or host ''model_id'' (VStr [])),
                     (''reasoning_effort'', get_or host ''reasoning_effort'' (VStr ''medium''))])
             (step_key B session ''epoch'')) (\<lambda>a2.
     bind (lift (task_payload host session_id)) (\<lambda>payload.
     bind (va_post api ''/v1/tasks'' payload (step_key B session ''task'')) (\<lambda>a3.
     bind (lift (item a3 ''data'')) (\<lambda>task.
     bind (submit_host_plan B api host session task) (\<lambda>(plan, task).
     bind (lift (item task ''id'')) (\<lambda>task_id.
     bind (lift (item task ''version'')) (\<lambda>version.
     bind (va_post api (''/v1/tasks/'' @ py_str B task_id @ ''/execute'')
             (VDict [(''expected_version'', version)]) (step_key B session ''execute'')) (\<lambda>a4.
     bind (lift (item a2 ''data'')) (\<lambda>epoch.
     bind (lift (item a4 ''data'')) (\<lambda>executed.
     bind (lift (if plan = VNone then Inr VNone else item plan ''data'')) (\<lambda>plan_data.
     ret \<lparr>sd_session = session_data, sd_epoch = epoch, sd_task = executed, sd_plan = plan_data\<rparr>)))))))))))))))))"

definition control_request :: "builtins \<Rightarrow> 'w host_api \<Rightarrow> pyval \<Rightarrow> string \<Rightarrow> pyval \<Rightarrow> string \<Rightarrow> ('w, pyval) prog" where
  "control_request B api task_id action expected_version key =
     va_post api (''/v1/tasks/'' @ py_str B task_id @ ''/'' @ action) (VDict [(''expected_version'', expected_version)]) key"

definition resume_events ::
    "builtins \<Rightarrow> 'w host_api \<Rightarrow> pyval \<Rightarrow> string option \<Rightarrow> ('w, json_object list) prog" where
  "resume_events B api task_id last_event_id =
     bind (va_events api (''/v1/tasks/'' @ py_str B task_id @ ''/events'') last_event_id) (\<lambda>es.
     ret (map event_to_host es))"

section \<open>The host\<close>

record task_handle =
  th_task_id :: pyval
  th_version :: pyval

definition host_create :: "builtins \<Rightarrow> 'w host_api \<Rightarrow> json_object \<Rightarrow> ('w, task_handle) prog" where
  "host_create B api host =
     bind (start_task B api host) (\<lambda>started_task.
     bind (lift (item (sd_task started_task) ''id'')) (\<lambda>task_id.
     bind (lift (item (sd_task started_task) ''version'')) (\<lambda>version.
     ret \<lparr>th_task_id = task_id, th_version = version\<rparr>)))"

definition host_subscribe ::
    "builtins \<Rightarrow> 'w host_api \<Rightarrow> task_handle \<Rightarrow> string option \<Rightarrow> ('w, json_object list) prog" where
  "host_subscribe B api handle last_event_id = resume_events B api (th_task_id handle) last_event_id"

definition EXPECTED_STATUS :: "(string \<times> string) list" where
  "EXPECTED_STATUS = [(''pause'', ''paused''), (''resume'', ''running''), (''cancel'', ''cancelled'')]"

text \<open>The answer and the moved handle; when an exception is raised the handle is as it was.\<close>

definition host_control ::
    "builtins \<Rightarrow> 'w host_api \<Rightarrow> task_handle \<Rightarrow> string \<Rightarrow> string \<Rightarrow> ('w, pyval \<times> task_handle) prog" where
  "host_control B api handle action key =
     bind (control_request B api (th_task_id handle) action (th_version handle) key) (\<lambda>answer.
     bind (lift (item answer ''data'')) (\<lambda>data.
     case dget EXPECTED_STATUS action of
       None \<Rightarrow> raise_exn KeyError
     | Some expected \<Rightarrow>
    (case data of
       VDict d \<Rightarrow>
         andthen (raise_when (\<not> py_eq (get_or d ''status'' VNone) (VStr expected)) (RuntimeError ''lifecycle''))
        (bind (lift (item data ''version'')) (\<lambda>version. ret (data, handle\<lparr>th_version := version\<rparr>)))
     | _ \<Rightarrow> raise_exn AttributeError)))"

definition host_pause :: "builtins \<Rightarrow> 'w host_api \<Rightarrow> task_handle \<Rightarrow> string \<Rightarrow> ('w, pyval \<times> task_handle) prog" where
  "host_pause B api handle key = host_control B api handle ''pause'' key"

definition host_resume :: "builtins \<Rightarrow> 'w host_api \<Rightarrow> task_handle \<Rightarrow> string \<Rightarrow> ('w, pyval \<times> task_handle) prog" where
  "host_resume B api handle key = host_control B api handle ''resume'' key"

definition host_cancel :: "builtins \<Rightarrow> 'w host_api \<Rightarrow> task_handle \<Rightarrow> string \<Rightarrow> ('w, pyval \<times> task_handle) prog" where
  "host_cancel B api handle key = host_control B api handle ''cancel'' key"

section \<open>The host reads what the server streams\<close>

definition one_line :: "string \<Rightarrow> bool" where
  "one_line s \<longleftrightarrow> list_all (\<lambda>c. \<not> line_end c) s"

lemma split_lines_acc:
  assumes "line_end c" and "c \<noteq> char_of (13 :: nat)"
  shows "one_line a \<Longrightarrow> split_lines_from acc (a @ c # b) = (rev acc @ a) # split_lines_from [] b"
proof (induction a arbitrary: acc)
  case Nil
  then show ?case using assms by simp
next
  case (Cons d ds)
  then show ?case using Cons.IH [of "d # acc"] by (simp add: one_line_def del: line_end.simps)
qed

lemma split_lines_at: "line_end c \<Longrightarrow> c \<noteq> char_of (13 :: nat) \<Longrightarrow> one_line a \<Longrightarrow> split_lines (a @ c # b) = a # split_lines b"
  by (simp add: split_lines_def split_lines_acc del: line_end.simps)

lemma split_lines_line: "one_line a \<Longrightarrow> split_lines (a @ newline # b) = a # split_lines b"
  by (rule split_lines_at) (simp_all add: newline_def)

lemma digit_one_line: "list_all digit s \<Longrightarrow> one_line s"
  unfolding one_line_def digit_def Let_def by (erule list.pred_mono_strong) auto

text \<open>The body of the answer: the frames of the events, one after the other.\<close>

fun stream_body :: "(json_object \<Rightarrow> string) \<Rightarrow> json_object list \<Rightarrow> string res" where
  "stream_body encode [] = Inr []"
| "stream_body encode (e # es) =
     bind_res (format_sse_frame encode (VDict e)) (\<lambda>frame. bind_res (stream_body encode es) (\<lambda>rest. Inr (frame @ rest)))"

text \<open>
  What the host relies on: its decoder reads the texts of the encoder, which are on one line and begin with no
  white space. \<^verbatim>\<open>json.dumps\<close> escapes the control characters below the space only, so that no other line
  separator may occur in the event.
\<close>

definition readable :: "(json_object \<Rightarrow> string) \<Rightarrow> decoder \<Rightarrow> json_object \<Rightarrow> bool" where
  "readable encode decode e \<longleftrightarrow>
     decode (encode e) = Some (VDict e) \<and> one_line (encode e) \<and> encode e \<noteq> [] \<and> \<not> py_space (hd (encode e))"

lemma int_text_digits: "0 < n \<Longrightarrow> list_all digit (int_text n) \<and> int_text n \<noteq> []"
  using decimal_round_trip by (simp add: int_text_def)

lemma frame_of:
  assumes "0 < n"
  shows "format_sse_frame encode (VDict (stream_event dump (n, e))) =
    Inr (''id: '' @ int_text n @ [newline] @ ''data: '' @ encode (stream_event dump (n, e)) @ [newline, newline])"
  using assms stream_event_fields(1) [OF assms, of dump e] stream_event_fields(2) [of dump n e]
  by (simp add: format_sse_frame_def deduplicate_events_def)

lemma lstrip_space: "x \<noteq> [] \<Longrightarrow> \<not> py_space (hd x) \<Longrightarrow> lstrip (CHR '' '' # x) = x"
  by (cases x) (simp_all add: lstrip_def py_space_def)

lemma frame_lines:
  assumes "0 < n" and "readable encode decode (stream_event dump (n, e))"
  shows "sse_lines decode [] [] (split_lines ((''id: '' @ int_text n @ [newline] @ ''data: '' @
      encode (stream_event dump (n, e)) @ [newline, newline]) @ rest) @ ls) =
    stream_event dump (n, e) # sse_lines decode [] [] (split_lines rest @ ls)"
proof -
  let ?x = "encode (stream_event dump (n, e))"
  have enc: "one_line ?x" "?x \<noteq> []" "\<not> py_space (hd ?x)" "decode ?x = Some (VDict (stream_event dump (n, e)))"
    using assms(2) by (simp_all add: readable_def)
  have digits: "list_all digit (int_text n)" "int_text n \<noteq> []" using int_text_digits [OF assms(1)] by simp_all
  then have hd: "\<not> py_space (hd (int_text n))" using digit_no_space by (cases "int_text n") auto
  have one: "one_line (''id: '' @ int_text n)" "one_line (''data: '' @ ?x)" "one_line []"
    using digit_one_line [OF digits(1)] enc(1) by (simp_all add: one_line_def)
  have "split_lines ((''id: '' @ int_text n @ [newline] @ ''data: '' @ ?x @ [newline, newline]) @ rest) =
      [''id: '' @ int_text n, ''data: '' @ ?x, []] @ split_lines rest"
    using split_lines_line [OF one(1), of "(''data: '' @ ?x) @ newline # newline # rest"]
      split_lines_line [OF one(2), of "newline # rest"] split_lines_line [OF one(3), of rest] by simp
  moreover have "sse_event decode [(''id'', VStr (int_text n))] [?x] = stream_event dump (n, e)"
    by (simp add: sse_event_def enc(4)) (simp add: stream_event_def)
  ultimately show ?thesis using lstrip_space [OF digits(2) hd] lstrip_space [OF enc(2,3)] by (simp add: Let_def)
qed

lemma stream_read:
  assumes "\<forall>x \<in> set xs. 0 < fst x \<and> readable encode decode (stream_event dump x)"
  shows "\<exists>body. stream_body encode (map (stream_event dump) xs) = Inr body \<and>
    sse_lines decode [] [] (split_lines body @ ls) = map (stream_event dump) xs @ sse_lines decode [] [] ls"
  using assms
proof (induction xs)
  case Nil
  then show ?case by (simp add: split_lines_def)
next
  case (Cons x xs)
  obtain n e where x: "x = (n, e)" by fastforce
  from Cons obtain body where body: "stream_body encode (map (stream_event dump) xs) = Inr body"
    "sse_lines decode [] [] (split_lines body @ ls) = map (stream_event dump) xs @ sse_lines decode [] [] ls" by auto
  have n: "0 < n" "readable encode decode (stream_event dump (n, e))" using Cons.prems by (auto simp: x)
  show ?case using body frame_lines [OF n, of body ls] frame_of [OF n(1), of encode dump e] by (simp add: x)
qed

lemma host_id_refused:
  assumes "0 < n" and "dget (st_tasks s) t \<noteq> None"
  shows "task_events dump t (Some (''evt_'' @ int_text n)) s js = Inl (DomainError ''invalid_last_event_id'' 400)"
proof -
  have "list_all (\<lambda>c. \<not> py_space c) (''evt_'' @ int_text n)"
    using int_text_digits [OF assms(1)] digit_no_space by (auto simp: list_all_iff py_space_def)
  then have "strip (''evt_'' @ int_text n) = ''evt_'' @ int_text n" by (rule strip_solid)
  then show ?thesis using assms(2) by (simp add: task_events_def parse_last_event_id_def bad_cursor_def digit_def)
qed

text \<open>The event of a host for an event of the journal.\<close>

definition host_event :: "dumper \<Rightarrow> int \<times> event \<Rightarrow> json_object" where
  "host_event dump x =
     [(''event_id'', VStr (''evt_'' @ int_text (fst x))), (''sequence'', VInt (fst x)),
      (''type'', VStr (fst (dump (snd x)))), (''data'', VDict (snd (dump (snd x))))]"

lemma event_to_host_stream: "event_to_host (stream_event dump x) = host_event dump x"
  by (cases x) (simp add: event_to_host_def stream_event_def host_event_def get_or_def)

text \<open>
  C35. What the server streams is what the host receives. If the body that the HTTP client hands over is the stream of
  the server for a task and a cursor, and every event of the task after the cursor is encoded on one line that
  the host can decode, then a host that subscribes receives exactly these events, each once and in order, with their
  numbers, types and data. The number of an event is the cursor to resume with: its \<^verbatim>\<open>event_id\<close>, which the host receives in the
  place of the number of the frame, is refused by the server as a cursor.
\<close>

theorem host_receives_stream:
  assumes "dget (st_tasks s) t \<noteq> None"
    and "header = None \<and> after = 0 \<or> header = Some (int_text after) \<and> 0 \<le> after \<and> length (int_text after) \<le> 4300"
    and "\<forall>j \<in> set (st_journal s # js). numbered j"
    and "sorted_wrt prefix (map (journal_events 0) (st_journal s # js))"
    and "\<forall>x \<in> set (of_task dump t after (journal_events 0 (last (st_journal s # js)))). readable encode decode (stream_event dump x)"
    and "task_events dump t header s js = Inr es" and "stream_body encode es = Inr body"
    and "hc_get C (rstrip_slash base_url @ ''/v1/tasks/'' @ t @ ''/events'') header w = (Inr \<lparr>ha_status = 200, ha_text = body\<rparr>, w')"
  shows "host_subscribe B (httpx_api C base_url decode) \<lparr>th_task_id = VStr t, th_version = v\<rparr> header w =
      (Inr (map (host_event dump) (of_task dump t after (journal_events 0 (last (st_journal s # js))))), w') \<and>
    (\<forall>x \<in> set (of_task dump t after (journal_events 0 (last (st_journal s # js)))).
       task_events dump t (Some (''evt_'' @ int_text (fst x))) s js = Inl (DomainError ''invalid_last_event_id'' 400))"
proof
  let ?xs = "of_task dump t after (journal_events 0 (last (st_journal s # js)))"
  have es: "es = map (stream_event dump) ?xs" using task_events_numbered [OF assms(1-4)] assms(6) by simp
  have "last (st_journal s # js) \<in> set (st_journal s # js)" by (rule last_in_set) simp
  then have "numbered (last (st_journal s # js))" using assms(3) by blast
  then have pos: "\<forall>x \<in> set ?xs. 0 < fst x" by (auto simp: numbered_def of_task_def)
  have "parse_sse decode body = es"
    using stream_read [of ?xs encode decode dump "[[]]"] pos assms(5,7) by (auto simp: es parse_sse_def)
  then show "host_subscribe B (httpx_api C base_url decode) \<lparr>th_task_id = VStr t, th_version = v\<rparr> header w =
      (Inr (map (host_event dump) ?xs), w')"
    using assms(8) by (simp add: host_subscribe_def resume_events_def httpx_api_def httpx_events_def bind_def andthen_def
        raise_for_status_def py_str_def es event_to_host_stream comp_def)
  show "\<forall>x \<in> set ?xs. task_events dump t (Some (''evt_'' @ int_text (fst x))) s js = Inl (DomainError ''invalid_last_event_id'' 400)"
    using pos host_id_refused assms(1) by blast
qed

definition toy_decode :: decoder where
  "toy_decode x = (if x = ''{2}'' then Some (VDict (stream_event plain_dump (2, TaskMoved ''t'' TS_planned))) else None)"

definition toy_client :: "http_answer \<Rightarrow> unit http_client" where
  "toy_client a = \<lparr>hc_post = (\<lambda>_ _ _ w. (Inl OSError, w)), hc_get = (\<lambda>_ _ w. (Inr a, w))\<rparr>"

lemma host_receives_stream_witness:
  "\<exists>body. host_subscribe plain_builtins (httpx_api (toy_client \<lparr>ha_status = 200, ha_text = body\<rparr>) ''http://h/'' toy_decode)
       \<lparr>th_task_id = VStr ''t'', th_version = VInt 1\<rparr> (Some (int_text 1)) () =
     (Inr [host_event plain_dump (2, TaskMoved ''t'' TS_planned)], ())"
proof -
  have events: "journal_events 0 (st_journal streamed_store) = [(1, TaskMoved ''t'' TS_planned), (2, TaskMoved ''t'' TS_planned)]"
    by (simp add: streamed_store_def sample_events_def journal_events_def moved_def)
  have one: "int_text 1 = ''1''" by (simp add: int_text_def decimal.simps) code_simp
  have xs: "of_task plain_dump ''t'' 1 (journal_events 0 (last (st_journal streamed_store # []))) = [(2, TaskMoved ''t'' TS_planned)]"
    by (simp add: events of_task_def belongs_def plain_dump_def)
  let ?e = "stream_event plain_dump (2, TaskMoved ''t'' TS_planned)"
  have task: "dget (st_tasks streamed_store) ''t'' \<noteq> None" by (simp add: streamed_store_def)
  have num: "\<forall>j \<in> set (st_journal streamed_store # []). numbered j" by (simp add: numbered_def events)
  have header: "Some (int_text 1) = None \<and> (1 :: int) = 0 \<or> Some (int_text 1) = Some (int_text 1) \<and> (0 :: int) \<le> 1 \<and> length (int_text 1) \<le> 4300"
    by (simp add: one)
  have read: "readable (\<lambda>_. ''{2}'') toy_decode ?e" by (simp add: readable_def toy_decode_def one_line_def py_space_def)
  have es: "task_events plain_dump ''t'' (Some (int_text 1)) streamed_store [] = Inr [?e]"
    using task_events_numbered [OF task header num, of plain_dump] xs by simp
  obtain body where body: "stream_body (\<lambda>_. ''{2}'') [?e] = Inr body"
    using frame_of [of 2 "\<lambda>_. ''{2}''" plain_dump "TaskMoved ''t'' TS_planned"] by simp
  have get: "hc_get (toy_client \<lparr>ha_status = 200, ha_text = body\<rparr>) (rstrip_slash ''http://h/'' @ ''/v1/tasks/'' @ ''t'' @ ''/events'')
      (Some (int_text 1)) () = (Inr \<lparr>ha_status = 200, ha_text = body\<rparr>, ())" by (simp add: toy_client_def)
  have "sorted_wrt prefix (map (journal_events 0) (st_journal streamed_store # []))" by simp
  from host_receives_stream [OF task header num this _ es body get, THEN conjunct1] read
  show ?thesis unfolding xs by auto
qed

text \<open>
  A line separator that the encoder leaves as it is (U+0085 here) cuts the data of an event: the host receives the
  number of the frame and the first part of the text, without a type and a number.
\<close>

theorem unescaped_separator_breaks_event:
  assumes "0 < n" and "encode (stream_event dump (n, e)) = a @ c # b" and "line_end c" and "c \<noteq> char_of (13 :: nat)"
    and "one_line a" and "one_line b" and "b \<noteq> []" and "a \<noteq> []" and "\<not> py_space (hd a)" and "decode a = None"
    and "takeWhile (\<lambda>c. c \<noteq> CHR '':'') b \<notin> {''data'', ''id'', ''event''}"
  shows "\<exists>body. stream_body encode [stream_event dump (n, e)] = Inr body \<and>
    map event_to_host (parse_sse decode body) =
      [[(''event_id'', VStr (int_text n)), (''sequence'', VNone), (''type'', VNone), (''data'', VStr a)]]"
proof -
  let ?body = "(''id: '' @ int_text n) @ newline # (''data: '' @ a) @ c # b @ newline # [] @ newline # []"
  have digits: "list_all digit (int_text n)" "int_text n \<noteq> []" using int_text_digits [OF assms(1)] by simp_all
  then have hd: "\<not> py_space (hd (int_text n))" using digit_no_space by (cases "int_text n") auto
  have one: "one_line (''id: '' @ int_text n)" "one_line (''data: '' @ a)" "one_line []"
    using digit_one_line [OF digits(1)] assms(5) by (simp_all add: one_line_def)
  have "split_lines ?body = [''id: '' @ int_text n, ''data: '' @ a, b, []]"
    by (simp only: split_lines_line [OF one(1)] split_lines_at [OF assms(3,4) one(2)] split_lines_line [OF assms(6)]
        split_lines_line [OF one(3)]) (simp add: split_lines_def)
  then have "parse_sse decode ?body = [sse_event decode [(''id'', VStr (int_text n))] [a]]"
    using lstrip_space [OF digits(2) hd] lstrip_space [OF assms(8,9)] assms(7,11) by (simp add: parse_sse_def Let_def)
  moreover have "stream_body encode [stream_event dump (n, e)] = Inr ?body"
    using frame_of [OF assms(1), of encode dump e] by (simp add: assms(2))
  ultimately show ?thesis by (simp add: sse_event_def assms(10) event_to_host_def get_or_def)
qed

text \<open>
  A control of the host that returns was answered with the status it asked for, and the handle names the version of
  that answer.
\<close>

theorem control_is_confirmed:
  assumes "host_control B api handle action key w = (Inr (data, handle'), w')"
  shows "\<exists>answer d expected. dget EXPECTED_STATUS action = Some expected \<and>
    va_post api (''/v1/tasks/'' @ py_str B (th_task_id handle) @ ''/'' @ action)
      (VDict [(''expected_version'', th_version handle)]) key w = (Inr answer, w') \<and>
    item answer ''data'' = Inr (VDict d) \<and> data = VDict d \<and> dget d ''status'' = Some (VStr expected) \<and>
    dget d ''version'' = Some (th_version handle') \<and> th_task_id handle' = th_task_id handle"
proof -
  have status: "dget d ''status'' = Some (VStr x)" if "py_eq (get_or d ''status'' VNone) (VStr x)" for d x
    using that by (cases "get_or d ''status'' VNone") (auto simp: get_or_def split: option.splits)
  from assms show ?thesis
    unfolding host_control_def control_request_def
    by (elim bind_InrE) (auto simp: prog_simps item_def status split: option.splits pyval.splits if_splits)
qed

end
