(* ===== verification/Providers.thy ===== *)
theory Providers
  imports Observability
begin

text \<open>
  \<^verbatim>\<open>providers/openai/adapter.py\<close>: the call of an OpenAI-compatible endpoint with its retries, and its cancellation.

  The HTTP client, the clock and asyncio are the parameter \<open>provider_world\<close>. The lax conversion of a counter that pydantic
  makes is the parameter \<open>coerce\<close>. The state keeps a log of the requests sent and of the pauses between them.
\<close>

section \<open>The adapter and its world\<close>

text \<open>
  What an awaited request ends with: a status and what reading its body as JSON gives, a timeout, another error of
  the transport, or another exception (the task was cancelled).
\<close>

datatype exchange = Reply int "pyval res" | TimedOut | TransportFailed | Interrupted exn

text \<open>What waiting for a cancelled task ends with: it returned, it raised, or the wait timed out or was cancelled.\<close>

datatype cancel_wait = TaskReturned | TaskRaised exn | WaitEnded

record 'w provider_world =
  pw_post :: "string \<Rightarrow> pyval \<Rightarrow> string \<Rightarrow> 'w \<Rightarrow> exchange \<times> 'w"
  pw_sleep :: "rat \<Rightarrow> 'w \<Rightarrow> exn option \<times> 'w"
  pw_latency :: "'w \<Rightarrow> int"
  pw_done :: "nat \<Rightarrow> 'w \<Rightarrow> bool"
  pw_cancel :: "nat \<Rightarrow> 'w \<Rightarrow> cancel_wait \<times> 'w"

record openai_adapter =
  op_provider_id :: string
  op_model_id :: string
  op_base_url :: string
  op_api_key :: "string option"

datatype provider_step = Sent string pyval | Slept rat

record 'w provider_state =
  ps_world :: 'w
  ps_in_flight :: "(string, nat) dict"
  ps_log :: "provider_step list"

record provider_result =
  pr_text :: string
  pr_usage :: usage_record
  pr_raw :: pyval

definition openai_provider :: "string \<Rightarrow> string \<Rightarrow> string \<Rightarrow> string option \<Rightarrow> string option \<Rightarrow> openai_adapter" where
  "openai_provider model_id provider_id base_url api_key env_key =
     \<lparr>op_provider_id = provider_id, op_model_id = model_id,
      op_base_url = rstrip_slash base_url,
      op_api_key = (if api_key \<noteq> None then api_key else env_key)\<rparr>"

section \<open>Reading an answer\<close>

fun falsy :: "pyval \<Rightarrow> bool" where
  "falsy VNone = True"
| "falsy (VBool b) = (\<not> b)"
| "falsy (VInt n) = (n = 0)"
| "falsy (VFloat f) = (f = NegZero \<or> f = Fin 0)"
| "falsy (VStr s) = (s = [])"
| "falsy (VList xs) = (xs = [])"
| "falsy (VDict d) = (d = [])"

text \<open>\<^verbatim>\<open>value.get(key, default)\<close>\<close>

definition get_of :: "pyval \<Rightarrow> string \<Rightarrow> pyval \<Rightarrow> pyval res" where
  "get_of v k x =
     (case v of VDict d \<Rightarrow> Inr (case dget d k of None \<Rightarrow> x | Some y \<Rightarrow> y) | _ \<Rightarrow> Inl AttributeError)"

text \<open>What \<^verbatim>\<open>for ... in value or []\<close> runs over.\<close>

definition elements_of :: "pyval \<Rightarrow> pyval list res" where
  "elements_of v =
     (if falsy v then Inr []
      else case v of
             VList xs \<Rightarrow> Inr xs
           | VDict d \<Rightarrow> Inr (map VStr (dkeys d))
           | VStr s \<Rightarrow> Inr (map (\<lambda>c. VStr [c]) s)
           | _ \<Rightarrow> Inl TypeError)"

fun content_texts :: "pyval list \<Rightarrow> string res" where
  "content_texts [] = Inr []"
| "content_texts (c # cs) =
     bind_res (get_of c ''text'' VNone) (\<lambda>v.
     bind_res (content_texts cs) (\<lambda>rest. Inr ((case v of VStr s \<Rightarrow> s | _ \<Rightarrow> []) @ rest)))"

fun output_texts :: "pyval list \<Rightarrow> string res" where
  "output_texts [] = Inr []"
| "output_texts (i # is) =
     bind_res (get_of i ''content'' (VList [])) (\<lambda>v.
     bind_res (elements_of v) (\<lambda>cs.
     bind_res (content_texts cs) (\<lambda>x.
     bind_res (output_texts is) (\<lambda>rest. Inr (x @ rest)))))"

definition response_text :: "pyval \<Rightarrow> string res" where
  "response_text raw =
     bind_res (get_of raw ''output_text'' VNone) (\<lambda>v.
     case v of
       VStr s \<Rightarrow> Inr s
     | _ \<Rightarrow>
         bind_res (get_of raw ''output'' (VList [])) (\<lambda>out.
         bind_res (elements_of out) output_texts))"

text \<open>A counter of the usage record: converted, and not negative.\<close>

definition counter :: "(pyval \<Rightarrow> int option res) \<Rightarrow> pyval \<Rightarrow> int option res" where
  "counter coerce v =
     bind_res (coerce v) (\<lambda>n. if (case n of None \<Rightarrow> False | Some x \<Rightarrow> x < 0) then Inl (ValueError ''invalid'') else Inr n)"

definition usage_of ::
    "(pyval \<Rightarrow> int option res) \<Rightarrow> openai_adapter \<Rightarrow> string \<Rightarrow> string \<Rightarrow> int \<Rightarrow> int \<Rightarrow> time \<Rightarrow> pyval \<Rightarrow> usage_record res" where
  "usage_of coerce A usage_id task_id latency retries now raw =
     bind_res (get_of raw ''usage'' VNone) (\<lambda>u.
     let usage_data = (if falsy u then VDict [] else u) in
     bind_res (get_of usage_data ''input_tokens'' VNone) (\<lambda>input_tokens.
     bind_res (get_of usage_data ''input_tokens_details'' (VDict [])) (\<lambda>details.
     bind_res (get_of details ''cached_tokens'' VNone) (\<lambda>cached.
     bind_res (get_of usage_data ''output_tokens'' VNone) (\<lambda>output_tokens.
     bind_res (get_of usage_data ''reasoning_tokens'' VNone) (\<lambda>reasoning.
     bind_res (counter coerce input_tokens) (\<lambda>i.
     bind_res (counter coerce cached) (\<lambda>c.
     bind_res (counter coerce output_tokens) (\<lambda>out.
     bind_res (counter coerce reasoning) (\<lambda>r.
     if latency < 0 \<or> retries < 0 then Inl (ValueError ''invalid'')
     else Inr \<lparr>us_id = usage_id, us_task_id = task_id, us_provider_id = op_provider_id A, us_model_id = op_model_id A,
               us_input_tokens = i, us_cached_input_tokens = c, us_output_tokens = out, us_reasoning_tokens = r,
               us_cost_status = CO_unknown, us_cost_usd = None, us_latency_ms = latency, us_retries = retries,
               us_recorded_at = now\<rparr>))))))))))"

section \<open>A call with its retries\<close>

record call_request =
  cr_task_id :: string
  cr_input_text :: string
  cr_reasoning_effort :: string
  cr_retries :: int
  cr_usage_id :: string
  cr_now :: time

definition request_body :: "openai_adapter \<Rightarrow> call_request \<Rightarrow> pyval" where
  "request_body A q =
     VDict [(''model'', VStr (op_model_id A)), (''input'', VStr (cr_input_text q)),
            (''reasoning'', VDict [(''effort'', VStr (cr_reasoning_effort q))])]"

definition read_reply ::
    "(pyval \<Rightarrow> int option res) \<Rightarrow> openai_adapter \<Rightarrow> call_request \<Rightarrow> int \<Rightarrow> int \<Rightarrow> exchange \<Rightarrow> provider_result res" where
  "read_reply coerce A q latency performed x =
     (case x of
        TimedOut \<Rightarrow> Inl (ProviderCallError ''provider timeout'' True None)
      | TransportFailed \<Rightarrow> Inl (ProviderCallError ''provider transport error'' True None)
      | Interrupted e \<Rightarrow> Inl e
      | Reply status body \<Rightarrow>
          if 400 \<le> status
          then Inl (ProviderCallError (''provider returned HTTP '' @ int_text status) (500 \<le> status) (Some status))
          else bind_res body (\<lambda>raw.
               bind_res (usage_of coerce A (cr_usage_id q) (cr_task_id q) latency performed (cr_now q) raw) (\<lambda>u.
               bind_res (response_text raw) (\<lambda>t. Inr \<lparr>pr_text = t, pr_usage = u, pr_raw = raw\<rparr>))))"

definition send_once ::
    "(pyval \<Rightarrow> int option res) \<Rightarrow> openai_adapter \<Rightarrow> 'w provider_world \<Rightarrow> call_request \<Rightarrow> int \<Rightarrow> ('w provider_state, provider_result) prog" where
  "send_once coerce A P q performed =
     (\<lambda>s. let url = op_base_url A @ ''/responses'';
              body = request_body A q
          in case pw_post P url body (''Bearer '' @ (case op_api_key A of None \<Rightarrow> [] | Some k \<Rightarrow> k)) (ps_world s) of
               (x, w) \<Rightarrow>
                 (read_reply coerce A q (pw_latency P w) performed x,
                  s\<lparr>ps_world := w, ps_log := ps_log s @ [Sent url body]\<rparr>))"

definition backoff :: "int \<Rightarrow> rat" where
  "backoff performed = min (1 / 4 * 2 ^ nat (performed - 1)) 2"

definition pause :: "'w provider_world \<Rightarrow> rat \<Rightarrow> ('w provider_state, unit) prog" where
  "pause P delay =
     (\<lambda>s. case pw_sleep P delay (ps_world s) of
        (x, w) \<Rightarrow> ((case x of None \<Rightarrow> Inr () | Some e \<Rightarrow> Inl e), s\<lparr>ps_world := w, ps_log := ps_log s @ [Slept delay]\<rparr>))"

text \<open>The \<^verbatim>\<open>while True\<close>, from the number of retries made.\<close>

function call_loop ::
    "(pyval \<Rightarrow> int option res) \<Rightarrow> openai_adapter \<Rightarrow> 'w provider_world \<Rightarrow> call_request \<Rightarrow> int \<Rightarrow> 'w provider_state \<Rightarrow>
     provider_result res \<times> 'w provider_state" where
  "call_loop coerce A P q performed s =
     (case send_once coerce A P q performed s of
        (Inr r, t) \<Rightarrow> (Inr r, t)
      | (Inl (ProviderCallError m retryable code), t) \<Rightarrow>
          if \<not> retryable \<or> cr_retries q \<le> performed then (Inl (ProviderCallError m retryable code), t)
          else (case pause P (backoff (performed + 1)) t of
                  (Inl e, u) \<Rightarrow> (Inl e, u)
                | (Inr _, u) \<Rightarrow> call_loop coerce A P q (performed + 1) u)
      | (Inl e, t) \<Rightarrow> (Inl e, t))"
  by pat_completeness auto

termination by (relation "measure (\<lambda>(_, _, _, q, performed, _). nat (cr_retries q - performed))") auto

declare call_loop.simps [simp del]

text \<open>\<open>task\<close> is the asyncio task that runs the call.\<close>

definition complete ::
    "(pyval \<Rightarrow> int option res) \<Rightarrow> openai_adapter \<Rightarrow> 'w provider_world \<Rightarrow> nat \<Rightarrow> call_request \<Rightarrow> ('w provider_state, provider_result) prog" where
  "complete coerce A P task q =
     (\<lambda>s. if op_api_key A = None \<or> op_api_key A = Some []
          then (Inl (ProviderCallError ''provider credential is not configured'' False None), s)
          else case call_loop coerce A P q 0 (s\<lparr>ps_in_flight := dput (cr_task_id q) task (ps_in_flight s)\<rparr>) of
                 (r, t) \<Rightarrow> (r, t\<lparr>ps_in_flight := dpop (cr_task_id q) (ps_in_flight t)\<rparr>))"

definition cancel_call :: "'w provider_world \<Rightarrow> string \<Rightarrow> ('w provider_state, bool) prog" where
  "cancel_call P task_id =
     (\<lambda>s. case dget (ps_in_flight s) task_id of
        None \<Rightarrow> (Inr False, s)
      | Some task \<Rightarrow>
          if pw_done P task (ps_world s) then (Inr False, s)
          else (case pw_cancel P task (ps_world s) of
                  (x, w) \<Rightarrow>
                    (case x of
                       TaskReturned \<Rightarrow> Inr True
                     | TaskRaised e \<Rightarrow> Inl e
                     | WaitEnded \<Rightarrow> Inr (pw_done P task w), s\<lparr>ps_world := w\<rparr>)))"

section \<open>A call is bounded\<close>

text \<open>The log of \<open>k\<close> rounds: the request, and the pause before the next.\<close>

fun rounds :: "provider_step \<Rightarrow> int \<Rightarrow> nat \<Rightarrow> provider_step list" where
  "rounds r performed 0 = []"
| "rounds r performed (Suc k) = r # Slept (backoff (performed + 1)) # rounds r (performed + 1) k"

definition the_request :: "openai_adapter \<Rightarrow> call_request \<Rightarrow> provider_step" where
  "the_request A q = Sent (op_base_url A @ ''/responses'') (request_body A q)"

lemma backoff_bounds: "1 \<le> n \<Longrightarrow> 1 / 4 \<le> backoff n \<and> backoff n \<le> 2"
proof -
  have "(1 :: rat) \<le> 2 ^ nat (n - 1)" by simp
  then show ?thesis by (simp add: backoff_def)
qed

lemma rounds_delays: "0 \<le> performed \<Longrightarrow> Slept d \<in> set (rounds (Sent u b) performed k) \<Longrightarrow> 1 / 4 \<le> d \<and> d \<le> 2"
proof (induction k arbitrary: performed)
  case (Suc k)
  then show ?case using backoff_bounds [of "performed + 1"] Suc.IH [of "performed + 1"] by auto
qed simp

definition keeps_count :: "usage_record \<Rightarrow> bool" where
  "keeps_count u \<longleftrightarrow>
     list_all (\<lambda>x. case x of None \<Rightarrow> True | Some n \<Rightarrow> 0 \<le> n)
       [us_input_tokens u, us_cached_input_tokens u, us_output_tokens u, us_reasoning_tokens u] \<and>
     0 \<le> us_latency_ms u \<and> us_cost_status u = CO_unknown \<and> us_cost_usd u = None"

lemma counter_Inr: "counter coerce v = Inr x \<Longrightarrow> case x of None \<Rightarrow> True | Some n \<Rightarrow> 0 \<le> n"
  by (cases "coerce v"; cases x) (simp_all add: counter_def split: if_splits)

lemma usage_of_Inr:
  assumes "usage_of coerce A i0 t latency n now raw = Inr u"
  shows "keeps_count u \<and> us_retries u = n \<and> us_task_id u = t"
proof -
  let ?u = "\<lambda>i c out r. \<lparr>us_id = i0, us_task_id = t, us_provider_id = op_provider_id A, us_model_id = op_model_id A,
               us_input_tokens = i, us_cached_input_tokens = c, us_output_tokens = out, us_reasoning_tokens = r,
               us_cost_status = CO_unknown, us_cost_usd = None, us_latency_ms = latency, us_retries = n,
               us_recorded_at = now\<rparr>"
  from assms obtain v1 v2 v3 v4 i c out r where
    k: "counter coerce v1 = Inr i" "counter coerce v2 = Inr c" "counter coerce v3 = Inr out" "counter coerce v4 = Inr r"
    and u: "(if latency < 0 \<or> n < 0 then Inl (ValueError ''invalid'') else Inr (?u i c out r)) = Inr u"
    unfolding usage_of_def Let_def bind_res_Inr by blast
  from u have "u = ?u i c out r" "0 \<le> latency" by (simp_all split: if_splits)
  then show ?thesis using k [THEN counter_Inr] by (simp add: keeps_count_def)
qed

lemma send_once_run:
  "send_once coerce A P q performed s = (r, t) \<Longrightarrow>
     ps_in_flight t = ps_in_flight s \<and> ps_log t = ps_log s @ [the_request A q]"
  by (auto simp: send_once_def Let_def the_request_def split: prod.splits)

lemma send_once_Inr:
  assumes "send_once coerce A P q performed s = (Inr x, t)"
  shows "keeps_count (pr_usage x) \<and> us_retries (pr_usage x) = performed \<and> us_task_id (pr_usage x) = cr_task_id q"
  using assms
  by (auto simp: send_once_def Let_def read_reply_def bind_res_Inr dest!: usage_of_Inr split: prod.splits exchange.splits if_splits)

lemma pause_run:
  "pause P d s = (r, t) \<Longrightarrow> ps_in_flight t = ps_in_flight s \<and> ps_log t = ps_log s @ [Slept d]"
  by (auto simp: pause_def split: prod.splits)

text \<open>What the loop has done when it ends: \<open>k\<close> rounds, and a last request unless a pause was interrupted.\<close>

definition allowed_retries :: "call_request \<Rightarrow> int \<Rightarrow> nat" where
  "allowed_retries q performed = nat (cr_retries q - performed)"

definition answered :: "call_request \<Rightarrow> int \<Rightarrow> nat \<Rightarrow> provider_result res \<Rightarrow> bool" where
  "answered q performed k r \<longleftrightarrow>
     (\<forall>x. r = Inr x \<longrightarrow>
        us_retries (pr_usage x) = performed + int k \<and> us_task_id (pr_usage x) = cr_task_id q \<and> keeps_count (pr_usage x)) \<and>
     (\<forall>m code. r = Inl (ProviderCallError m True code) \<longrightarrow> k = allowed_retries q performed)"

definition interrupted :: "provider_result res \<Rightarrow> bool" where
  "interrupted r \<longleftrightarrow> isl r \<and> (\<forall>m b code. r \<noteq> Inl (ProviderCallError m b code))"

definition loop_result :: "openai_adapter \<Rightarrow> call_request \<Rightarrow> int \<Rightarrow> provider_result res \<Rightarrow> provider_step list \<Rightarrow> bool" where
  "loop_result A q performed r steps \<longleftrightarrow>
     (\<exists>k \<le> allowed_retries q performed.
        steps = rounds (the_request A q) performed k @ [the_request A q] \<and> answered q performed k r \<or>
        steps = rounds (the_request A q) performed k \<and> interrupted r)"

lemma loop_result_step:
  assumes "loop_result A q (performed + 1) r steps" and "performed < cr_retries q"
  shows "loop_result A q performed r (the_request A q # Slept (backoff (performed + 1)) # steps)"
proof -
  have one: "allowed_retries q performed = Suc (allowed_retries q (performed + 1))"
    using assms(2) by (simp add: allowed_retries_def)
  then have "answered q (performed + 1) k r \<Longrightarrow> answered q performed (Suc k) r" for k by (auto simp: answered_def)
  moreover obtain k where k: "k \<le> allowed_retries q (performed + 1)"
    "steps = rounds (the_request A q) (performed + 1) k @ [the_request A q] \<and> answered q (performed + 1) k r \<or>
     steps = rounds (the_request A q) (performed + 1) k \<and> interrupted r" using assms(1) unfolding loop_result_def by blast
  ultimately show ?thesis unfolding loop_result_def using one k(1) by (intro exI [of _ "Suc k"] conjI) auto
qed

definition sleeps :: "'w provider_world \<Rightarrow> bool" where
  "sleeps P \<longleftrightarrow> (\<forall>d w m b code. fst (pw_sleep P d w) \<noteq> Some (ProviderCallError m b code))"

lemma pause_interrupted:
  assumes "sleeps P" and "pause P d s = (Inl e, t)"
  shows "interrupted (Inl e)"
proof -
  obtain x w where x: "pw_sleep P d (ps_world s) = (x, w)" by fastforce
  with assms(2) have "x = Some e" by (auto simp: pause_def split: option.splits)
  with x have "fst (pw_sleep P d (ps_world s)) = Some e" by simp
  then show ?thesis using assms(1) by (auto simp: sleeps_def interrupted_def)
qed

lemma call_loop_run:
  assumes "sleeps P" and "call_loop coerce A P q performed s = (r, t)"
  shows "ps_in_flight t = ps_in_flight s \<and> (\<exists>steps. ps_log t = ps_log s @ steps \<and> loop_result A q performed r steps)"
  using assms
proof (induction coerce A P q performed s arbitrary: r t rule: call_loop.induct)
  case (1 coerce A P q performed s)
  obtain x u where once: "send_once coerce A P q performed s = (x, u)" by fastforce
  note sent = send_once_run [OF once]
  have stop: "loop_result A q performed x [the_request A q]"
    if "\<forall>m code. x = Inl (ProviderCallError m True code) \<longrightarrow> cr_retries q \<le> performed"
  proof -
    have "answered q performed 0 x"
      using that send_once_Inr once by (fastforce simp: answered_def allowed_retries_def)
    then show ?thesis unfolding loop_result_def by (intro exI [of _ 0]) simp
  qed
  show ?case
  proof (cases "\<exists>m code. x = Inl (ProviderCallError m True code) \<and> performed < cr_retries q")
    case False
    have "(r, t) = (x, u)"
      using "1.prems"(2) False by (subst (asm) call_loop.simps) (auto simp: once split: sum.splits exn.splits if_splits)
    then show ?thesis using sent stop False by (auto simp: not_less)
  next
    case True
    then obtain m code where x: "x = Inl (ProviderCallError m True code)" and more: "performed < cr_retries q" by blast
    obtain y v where p: "pause P (backoff (performed + 1)) u = (y, v)" by fastforce
    note slept = pause_run [OF p]
    show ?thesis
    proof (cases y)
      case (Inl e)
      have rt: "r = Inl e" "t = v" using "1.prems"(2) more by (subst (asm) call_loop.simps, simp add: once x p Inl)+
      have "interrupted r" using pause_interrupted [OF "1.prems"(1)] p unfolding rt(1) Inl by blast
      moreover have "1 \<le> allowed_retries q performed" using more by (simp add: allowed_retries_def)
      ultimately have "loop_result A q performed r [the_request A q, Slept (backoff (performed + 1))]"
        unfolding loop_result_def by (intro exI [of _ 1]) simp
      then show ?thesis using sent slept by (simp add: rt(2))
    next
      case (Inr z)
      have rest: "call_loop coerce A P q (performed + 1) v = (r, t)"
        using "1.prems"(2) more by (subst (asm) call_loop.simps) (simp add: once x p Inr)
      have "ps_in_flight t = ps_in_flight v \<and> (\<exists>steps. ps_log t = ps_log v @ steps \<and> loop_result A q (performed + 1) r steps)"
        by (rule "1.IH" [OF once [symmetric] x refl _ p [symmetric] Inr "1.prems"(1) rest]) (use more in simp_all)
      then obtain steps where "ps_log t = ps_log v @ steps" "loop_result A q (performed + 1) r steps" "ps_in_flight t = ps_in_flight v" by blast
      with loop_result_step [OF this(2) more] sent slept show ?thesis by auto
    qed
  qed
qed

fun requests_of :: "provider_step list \<Rightarrow> provider_step list" where
  "requests_of [] = []"
| "requests_of (Slept d # xs) = requests_of xs"
| "requests_of (Sent u b # xs) = Sent u b # requests_of xs"

lemma requests_append [simp]: "requests_of (xs @ ys) = requests_of xs @ requests_of ys"
  by (induction xs rule: requests_of.induct) simp_all

lemma requests_rounds: "requests_of (rounds (the_request A q) performed k) = replicate k (the_request A q)"
  by (induction k arbitrary: performed) (simp_all add: the_request_def)

lemma loop_result_log:
  assumes "loop_result A q 0 r steps"
  obtains n where "requests_of steps = replicate n (the_request A q)" and "n \<le> nat (cr_retries q) + 1"
    and "\<And>d. Slept d \<in> set steps \<Longrightarrow> 1 / 4 \<le> d \<and> d \<le> 2"
    and "\<And>m code. r = Inl (ProviderCallError m True code) \<Longrightarrow> n = nat (cr_retries q) + 1"
    and "\<And>x. r = Inr x \<Longrightarrow> us_retries (pr_usage x) + 1 = int n \<and> us_task_id (pr_usage x) = cr_task_id q \<and> keeps_count (pr_usage x)"
proof -
  from assms obtain k where k: "k \<le> nat (cr_retries q)"
    and steps: "steps = rounds (the_request A q) 0 k @ [the_request A q] \<and> answered q 0 k r \<or>
      steps = rounds (the_request A q) 0 k \<and> interrupted r" by (auto simp: loop_result_def allowed_retries_def)
  have delays: "Slept d \<in> set steps \<Longrightarrow> 1 / 4 \<le> d \<and> d \<le> 2" for d
    using steps rounds_delays [of 0 d] by (auto simp: the_request_def)
  from steps show thesis
  proof
    assume a: "steps = rounds (the_request A q) 0 k @ [the_request A q] \<and> answered q 0 k r"
    then have "requests_of steps = replicate (k + 1) (the_request A q)"
      using requests_rounds [of A q 0 k] by (simp add: the_request_def replicate_append_same)
    then show thesis using k a delays by (intro that [of "k + 1"]) (auto simp: answered_def allowed_retries_def)
  next
    assume a: "steps = rounds (the_request A q) 0 k \<and> interrupted r"
    then show thesis using k delays requests_rounds [of A q 0 k]
      by (intro that [of k]) (auto simp: interrupted_def)
  qed
qed

text \<open>
  C36. A call of the provider ends. Without a credential nothing is sent. Otherwise it sends one and the same request at most once
  more than the retries allow, with a pause of a quarter of a second to two seconds between two of them; when it raises a
  retryable error it has used all of them, and when it returns, the record of the usage belongs to the task, counts the retries made,
  has no negative counter and claims no cost. However it ends, the call is no longer registered as in flight.
\<close>

theorem provider_call_is_bounded:
  assumes "sleeps P" and "complete coerce A P task q s = (r, t)"
  shows "if op_api_key A = None \<or> op_api_key A = Some []
    then r = Inl (ProviderCallError ''provider credential is not configured'' False None) \<and> t = s
    else dget (ps_in_flight t) (cr_task_id q) = None \<and>
      (\<exists>n steps. ps_log t = ps_log s @ steps \<and> requests_of steps = replicate n (the_request A q) \<and>
         n \<le> nat (cr_retries q) + 1 \<and> (\<forall>d. Slept d \<in> set steps \<longrightarrow> 1 / 4 \<le> d \<and> d \<le> 2) \<and>
         (\<forall>m code. r = Inl (ProviderCallError m True code) \<longrightarrow> n = nat (cr_retries q) + 1) \<and>
         (\<forall>x. r = Inr x \<longrightarrow> us_retries (pr_usage x) + 1 = int n \<and> us_task_id (pr_usage x) = cr_task_id q \<and>
            keeps_count (pr_usage x)))"
proof (cases "op_api_key A = None \<or> op_api_key A = Some []")
  case False
  let ?s = "s\<lparr>ps_in_flight := dput (cr_task_id q) task (ps_in_flight s)\<rparr>"
  obtain x u where loop: "call_loop coerce A P q 0 ?s = (x, u)" by fastforce
  with assms(2) False have t: "r = x" "t = u\<lparr>ps_in_flight := dpop (cr_task_id q) (ps_in_flight u)\<rparr>"
    by (simp_all add: complete_def)
  from call_loop_run [OF assms(1) loop] obtain steps where "ps_log u = ps_log ?s @ steps" and l: "loop_result A q 0 x steps"
    by blast
  moreover from l obtain n where "requests_of steps = replicate n (the_request A q)" "n \<le> nat (cr_retries q) + 1"
    "\<And>d. Slept d \<in> set steps \<Longrightarrow> 1 / 4 \<le> d \<and> d \<le> 2"
    "\<And>m code. x = Inl (ProviderCallError m True code) \<Longrightarrow> n = nat (cr_retries q) + 1"
    "\<And>y. x = Inr y \<Longrightarrow> us_retries (pr_usage y) + 1 = int n \<and> us_task_id (pr_usage y) = cr_task_id q \<and> keeps_count (pr_usage y)"
    by (rule loop_result_log) blast
  ultimately have "\<exists>n steps. ps_log t = ps_log s @ steps \<and> requests_of steps = replicate n (the_request A q) \<and>
         n \<le> nat (cr_retries q) + 1 \<and> (\<forall>d. Slept d \<in> set steps \<longrightarrow> 1 / 4 \<le> d \<and> d \<le> 2) \<and>
         (\<forall>m code. r = Inl (ProviderCallError m True code) \<longrightarrow> n = nat (cr_retries q) + 1) \<and>
         (\<forall>y. r = Inr y \<longrightarrow> us_retries (pr_usage y) + 1 = int n \<and> us_task_id (pr_usage y) = cr_task_id q \<and>
            keeps_count (pr_usage y))" unfolding t by (intro exI [of _ n] exI [of _ steps]) simp
  moreover have "dget (ps_in_flight t) (cr_task_id q) = None" by (simp add: t(2) delete_conv)
  ultimately show ?thesis unfolding if_not_P [OF False] by blast
qed (use assms(2) in \<open>auto simp: complete_def\<close>)

definition flaky :: "nat provider_world" where
  "flaky = \<lparr>pw_post = (\<lambda>_ _ _ n. (if n = 0 then Reply 503 (Inr VNone) else Reply 200 (Inr (VDict [(''output_text'', VStr ''done'')])), n + 1)),
     pw_sleep = (\<lambda>_ n. (None, n)), pw_latency = (\<lambda>_. 7), pw_done = (\<lambda>_ _. False), pw_cancel = (\<lambda>_ n. (WaitEnded, n))\<rparr>"

definition sample_call :: call_request where
  "sample_call = \<lparr>cr_task_id = ''a'', cr_input_text = ''hi'', cr_reasoning_effort = ''low'', cr_retries = 1, cr_usage_id = ''u'', cr_now = 0\<rparr>"

definition sample_adapter :: openai_adapter where
  "sample_adapter = openai_provider ''m'' ''openai'' ''https://api/v1/'' (Some ''key'') None"

lemma provider_call_is_bounded_witness:
  "\<exists>x t. complete (\<lambda>_. Inr None) sample_adapter flaky 0 sample_call \<lparr>ps_world = 0, ps_in_flight = [], ps_log = []\<rparr> = (Inr x, t) \<and>
     pr_text x = ''done'' \<and> us_retries (pr_usage x) = 1 \<and> length (requests_of (ps_log t)) = 2 \<and> dget (ps_in_flight t) ''a'' = None"
proof -
  let ?s = "\<lparr>ps_world = 0 :: nat, ps_in_flight = [], ps_log = []\<rparr>"
  have "\<exists>x t. complete (\<lambda>_. Inr None) sample_adapter flaky 0 sample_call ?s = (Inr x, t) \<and> pr_text x = ''done'' \<and> us_retries (pr_usage x) = 1"
    by (simp add: complete_def call_loop.simps send_once_def read_reply_def flaky_def sample_call_def sample_adapter_def
        openai_provider_def pause_def usage_of_def get_of_def counter_def response_text_def Let_def)
  then obtain x t where run: "complete (\<lambda>_. Inr None) sample_adapter flaky 0 sample_call ?s = (Inr x, t)"
    and x: "pr_text x = ''done''" "us_retries (pr_usage x) = 1" by blast
  have "sleeps flaky" by (simp add: sleeps_def flaky_def)
  from provider_call_is_bounded [OF this run] x(2) have
    "dget (ps_in_flight t) ''a'' = None" "length (requests_of (ps_log t)) = 2"
    by (auto simp: sample_adapter_def openai_provider_def sample_call_def)
  with run x show ?thesis by blast
qed

text \<open>
  The details of the input tokens are read without a check: an answer that gives them as null, or the usage as a text or
  a list, makes the call raise an AttributeError, although the provider has answered; it is not retried.
\<close>

theorem null_details_lose_answer:
  assumes "op_api_key A = Some (c # cs)" and "pw_post P (op_base_url A @ ''/responses'') (request_body A q) (''Bearer '' @ c # cs) (ps_world s) =
      (Reply 200 (Inr (VDict raw)), w)"
    and "dget raw ''usage'' = Some (VDict u)" and "dget u ''input_tokens_details'' = Some VNone"
  shows "fst (complete coerce A P task q s) = Inl AttributeError"
proof -
  have "u \<noteq> []" using assms(4) by auto
  then have "usage_of coerce A i t l n now (VDict raw) = Inl AttributeError" for i t l n now
    using assms(3,4) by (cases "get_of (VDict u) ''input_tokens'' VNone") (simp_all add: usage_of_def get_of_def)
  then have "\<exists>v. send_once coerce A P q 0 (s\<lparr>ps_in_flight := d\<rparr>) = (Inl AttributeError, v)" for d
    using assms(1,2) by (simp add: send_once_def Let_def read_reply_def)
  then obtain v where "send_once coerce A P q 0 (s\<lparr>ps_in_flight := dput (cr_task_id q) task (ps_in_flight s)\<rparr>) = (Inl AttributeError, v)"
    by blast
  then show ?thesis using assms(1) by (simp add: complete_def call_loop.simps)
qed

text \<open>A cancellation that answers true has stopped the task, if a task that returned to a waiter is done.\<close>

theorem cancel_is_confirmed:
  assumes "cancel_call P task_id s = (Inr True, t)"
    and "\<And>k w v. pw_cancel P k w = (TaskReturned, v) \<Longrightarrow> pw_done P k v"
  shows "\<exists>k. dget (ps_in_flight s) task_id = Some k \<and> \<not> pw_done P k (ps_world s) \<and> pw_done P k (ps_world t)"
  using assms by (auto simp: cancel_call_def split: option.splits if_splits prod.splits cancel_wait.splits)

end
