(* ===== verification/Evaluation.thy ===== *)
theory Evaluation
  imports Routing Hosts Providers
begin

text \<open>
  \<^verbatim>\<open>scripts/evaluate_offline.py\<close>: the evaluation of the advisory routing against a frozen set of tasks, and the three
  configurations measured on a live model.

  The tasks are the JSON objects of the file. The HTTP client and the clock are the parameter \<open>chat_client\<close>; Python's sums and
  rounding of numbers are the record \<open>numbers\<close>. The fingerprint of the sources, the environment and the command line are not modelled.
\<close>

section \<open>The frozen tasks\<close>

text \<open>What a \<^verbatim>\<open>for\<close> runs over.\<close>

definition iterated :: "pyval \<Rightarrow> pyval list res" where
  "iterated v =
     (case v of
        VList xs \<Rightarrow> Inr xs
      | VDict d \<Rightarrow> Inr (map VStr (dkeys d))
      | VStr s \<Rightarrow> Inr (map (\<lambda>c. VStr [c]) s)
      | _ \<Rightarrow> Inl TypeError)"

text \<open>\<^verbatim>\<open>value or default\<close>\<close>

definition value_or :: "pyval \<Rightarrow> pyval \<Rightarrow> pyval" where
  "value_or v x = (if falsy v then x else v)"

fun family_tasks :: "pyval \<Rightarrow> pyval list \<Rightarrow> json_object list res" where
  "family_tasks family [] = Inr []"
| "family_tasks family (task # tasks) =
     bind_res (item family ''id'') (\<lambda>family_id.
     case task of
       VDict t \<Rightarrow>
         bind_res (item family ''label'') (\<lambda>label.
         let t' = dput ''family_label'' label (dput ''family_id'' family_id t) in
         bind_res
           (if ''default_write_regions'' \<in> set (dkeys t') then Inr t'
            else map_sum id (\<lambda>r. dput ''default_write_regions'' (value_or r (VList [])) t') (get_of family ''default_write_regions'' VNone))
           (\<lambda>t''. bind_res (family_tasks family tasks) (\<lambda>ts. Inr (t'' # ts))))
     | _ \<Rightarrow> Inl TypeError)"

fun all_tasks :: "pyval list \<Rightarrow> json_object list res" where
  "all_tasks [] = Inr []"
| "all_tasks (family # families) =
     bind_res (item family ''tasks'') (\<lambda>v.
     bind_res (iterated v) (\<lambda>tasks.
     bind_res (family_tasks family tasks) (\<lambda>ts.
     bind_res (all_tasks families) (\<lambda>rest. Inr (ts @ rest)))))"

definition load_tasks :: "decoder \<Rightarrow> string \<Rightarrow> json_object list res" where
  "load_tasks decode file =
     bind_res (case decode file of None \<Rightarrow> Inl (ValueError ''JSONDecodeError'') | Some v \<Rightarrow> Inr v) (\<lambda>data.
     bind_res (get_of data ''schema_version'' VNone) (\<lambda>version.
     if version \<noteq> VStr ''v1'' then Inl (ValueError ''unsupported frozen-task schema'')
     else bind_res (item data ''families'') (\<lambda>v. bind_res (iterated v) all_tasks)))"

section \<open>The advice for a task\<close>

text \<open>\<^verbatim>\<open>list[dict[str, Any]]\<close> with at most 200 items.\<close>

definition region_dicts :: "pyval \<Rightarrow> json_object list res" where
  "region_dicts v =
     (case v of
        VList xs \<Rightarrow>
          if length xs \<le> 200 \<and> list_all (\<lambda>x. case x of VDict _ \<Rightarrow> True | _ \<Rightarrow> False) xs
          then Inr (map (\<lambda>x. case x of VDict d \<Rightarrow> d | _ \<Rightarrow> []) xs) else Inl (ValueError ''ValidationError'')
      | _ \<Rightarrow> Inl (ValueError ''ValidationError''))"

definition unhashable :: "pyval \<Rightarrow> bool" where
  "unhashable v \<longleftrightarrow> (case v of VList _ \<Rightarrow> True | VDict _ \<Rightarrow> True | _ \<Rightarrow> False)"

fun selector_values :: "json_object list \<Rightarrow> pyval list res" where
  "selector_values [] = Inr []"
| "selector_values (r # rs) =
     bind_res (item (VDict r) ''selector_value'') (\<lambda>v.
     if unhashable v then Inl TypeError else bind_res (selector_values rs) (\<lambda>vs. Inr (v # vs)))"

definition is_text :: "pyval \<Rightarrow> bool" where
  "is_text v \<longleftrightarrow> (case v of VStr _ \<Rightarrow> True | _ \<Rightarrow> False)"

definition text_of :: "pyval \<Rightarrow> string" where
  "text_of v = (case v of VStr s \<Rightarrow> s | _ \<Rightarrow> [])"

text \<open>
  The sorted set of the selectors as \<^verbatim>\<open>referenced_paths\<close>: values that cannot be compared raise a \<open>TypeError\<close>, a sorted list
  of other values than texts is refused by the model.
\<close>

definition sorted_paths :: "pyval list \<Rightarrow> string list res" where
  "sorted_paths vs =
     (if list_all is_text vs
      then (let ps = sort (remdups (map text_of vs)) in if length ps \<le> 500 then Inr ps else Inl (ValueError ''ValidationError''))
      else if list_ex is_text vs \<or> VNone \<in> set vs \<and> list_ex (\<lambda>v. v \<noteq> VNone) vs then Inl TypeError
      else Inl (ValueError ''ValidationError''))"

definition build_envelope :: "builtins \<Rightarrow> time \<Rightarrow> json_object \<Rightarrow> routing_request_envelope res" where
  "build_envelope B now task =
     (let regions = value_or (get_or task ''default_write_regions'' VNone) (VList []) in
      bind_res (item (VDict task) ''id'') (\<lambda>i.
      bind_res (item (VDict task) ''user_text'') (\<lambda>user_text.
      bind_res (region_dicts regions) (\<lambda>rs.
      bind_res (item (VDict task) ''family_id'') (\<lambda>family.
      bind_res (selector_values rs) (\<lambda>vs.
      bind_res (sorted_paths vs) (\<lambda>paths.
      let uri = ''file:///repos/valueroute/'' @ py_str B family;
          e = \<lparr>re_id = ''env-'' @ py_str B i, re_tenant_id = ''eval_tenant'', re_host_session_id = ''sess-'' @ py_str B i,
               re_host_declared_request_type = None, re_user_text = codes (strip (text_of user_text)),
               re_permissions = \<lparr>rq_read_scope = [], rq_available_tools = [], rq_requested_write_regions = rs\<rparr>,
               re_resource_summary = Some \<lparr>rs_canonical_uri = uri, rs_base_revision = ''0000000'', rs_referenced_paths = paths,
                 rs_referenced_symbols = []\<rparr>,
               re_data_classification = DC_internal, re_created_at = now\<rparr>
      in if length uri \<le> 2000 \<and> len_within 1 200 (re_id e) \<and> len_within 1 200 (re_host_session_id e) \<and>
            is_text user_text \<and> len_within 1 10000 (text_of user_text)
         then Inr e else Inl (ValueError ''ValidationError''))))))))"

record eval_decision =
  ed_request_type :: request_type
  ed_boundary_method :: boundary_method
  ed_suggestion :: string
  ed_suggested_worker_count :: int
  ed_rejection_codes :: "string list"
  ed_basis_version :: string
  ed_rationale :: "string list"

text \<open>The envelope is validated a second time, now with the stripped text.\<close>

definition advisory_decision ::
    "builtins \<Rightarrow> routing_service \<Rightarrow> routing_ids \<Rightarrow> time \<Rightarrow> json_object \<Rightarrow> eval_decision res" where
  "advisory_decision B R ids now task =
     bind_res (build_envelope B now task) (\<lambda>e.
     if re_user_text e = [] then Inl (ValueError ''ValidationError'')
     else bind_res (analyze R ids now e) (\<lambda>(advice, boundary).
       let workers = filter (\<lambda>c. rk_mode c = CM_workers) (ra_candidates advice);
           n = (case workers of [] \<Rightarrow> 0 | c # _ \<Rightarrow> if rk_rejection_codes c = [] then rk_worker_count c else 0)
       in Inr \<lparr>ed_request_type = bd_request_type boundary, ed_boundary_method = bd_method boundary,
               ed_suggestion = (if n = 0 then ''direct'' else ''workers''), ed_suggested_worker_count = n,
               ed_rejection_codes = (case workers of [] \<Rightarrow> [] | c # _ \<Rightarrow> rk_rejection_codes c),
               ed_basis_version = rg_profiler_version (ra_requirement_graph advice),
               ed_rationale = map rk_rationale (ra_candidates advice)\<rparr>))"

definition delegation_verdict :: "string \<Rightarrow> pyval \<Rightarrow> string res" where
  "delegation_verdict suggestion ground =
     bind_res (get_of ground ''delegation'' VNone) (\<lambda>d.
     let expected = (if d = VStr ''workers'' then ''workers'' else ''direct'') in
     Inr (if suggestion = expected then ''correct''
          else if suggestion = ''workers'' then ''over_delegated'' else ''under_delegated''))"

section \<open>The live calls\<close>

record numbers =
  nu_sum :: "pyval list \<Rightarrow> pyval res"
  nu_int :: "pyval \<Rightarrow> int res"
  nu_cost :: "pyval \<Rightarrow> pyval \<Rightarrow> pyfloat res"
  nu_total :: "pyfloat list \<Rightarrow> pyfloat"
  nu_rate :: "nat \<Rightarrow> nat \<Rightarrow> pyfloat"

record chat_reply =
  cy_status :: int
  cy_body :: "pyval res"
  cy_elapsed_ms :: int

record 'w chat_client =
  ct_post :: "string \<Rightarrow> string \<Rightarrow> pyval \<Rightarrow> ('w, chat_reply) prog"
  ct_clock :: "'w \<Rightarrow> int"

record chat_call =
  cl_text :: pyval
  cl_latency_ms :: int
  cl_input_tokens :: pyval
  cl_output_tokens :: pyval
  cl_total_tokens :: pyval
  cl_status :: int

definition CHAT_SYSTEM :: string where
  "CHAT_SYSTEM =
     ''You are ValueRoute'' @ [CHR 0x27] @ ''s evaluation worker. Complete the assigned change precisely. State the root cause, the exact files you changed, and how you verified the result. Do not invent files or credentials.''"

definition chat_body :: "string \<Rightarrow> string \<Rightarrow> pyval" where
  "chat_body model user_text =
     VDict [(''model'', VStr model),
            (''messages'', VList
               [VDict [(''role'', VStr ''system''), (''content'', VStr CHAT_SYSTEM)],
                VDict [(''role'', VStr ''user''), (''content'', VStr user_text)]]),
            (''max_tokens'', VInt 1024)]"

text \<open>\<^verbatim>\<open>value[0]\<close>\<close>

definition first_of :: "pyval \<Rightarrow> pyval res" where
  "first_of v =
     (case v of
        VList (x # _) \<Rightarrow> Inr x
      | VList [] \<Rightarrow> Inl IndexError
      | VStr (c # _) \<Rightarrow> Inr (VStr [c])
      | VStr [] \<Rightarrow> Inl IndexError
      | VDict _ \<Rightarrow> Inl KeyError
      | _ \<Rightarrow> Inl TypeError)"

definition read_chat :: "chat_reply \<Rightarrow> chat_call res" where
  "read_chat a =
     bind_res (cy_body a) (\<lambda>body.
     bind_res (get_of body ''choices'' VNone) (\<lambda>choices.
     bind_res (first_of (value_or choices (VList [VDict []]))) (\<lambda>choice.
     bind_res (get_of choice ''message'' VNone) (\<lambda>message.
     bind_res (get_of body ''usage'' VNone) (\<lambda>u.
     let usage = value_or u (VDict []) in
     bind_res (get_of (value_or message (VDict [])) ''content'' VNone) (\<lambda>content.
     bind_res (get_of usage ''prompt_tokens'' VNone) (\<lambda>i.
     bind_res (get_of usage ''completion_tokens'' VNone) (\<lambda>out.
     bind_res (get_of usage ''total_tokens'' VNone) (\<lambda>total.
     Inr \<lparr>cl_text = value_or content (VStr []), cl_latency_ms = cy_elapsed_ms a, cl_input_tokens = i, cl_output_tokens = out,
          cl_total_tokens = total, cl_status = cy_status a\<rparr>)))))))))"

definition call_chat :: "'w chat_client \<Rightarrow> string \<Rightarrow> string \<Rightarrow> string \<Rightarrow> string \<Rightarrow> ('w, chat_call) prog" where
  "call_chat C base_url api_key model user_text =
     bind (ct_post C (rstrip_slash base_url @ ''/chat/completions'') (''Bearer '' @ api_key) (chat_body model user_text)) (\<lambda>a.
     andthen (raise_when (400 \<le> cy_status a) (RuntimeError (''provider returned HTTP '' @ int_text (cy_status a))))
       (lift (read_chat a)))"

definition estimate_cost :: "numbers \<Rightarrow> chat_call \<Rightarrow> pyfloat option res" where
  "estimate_cost N c =
     (if cl_input_tokens c = VNone \<or> cl_output_tokens c = VNone then Inr None
      else map_sum id Some (nu_cost N (cl_input_tokens c) (cl_output_tokens c)))"

definition execution_prompt :: "builtins \<Rightarrow> json_object \<Rightarrow> string \<Rightarrow> string res" where
  "execution_prompt B task role =
     bind_res (item (VDict task) ''family_label'') (\<lambda>label.
     bind_res (item (VDict task) ''id'') (\<lambda>i.
     bind_res (item (VDict task) ''description'') (\<lambda>description.
     bind_res (item (VDict task) ''user_text'') (\<lambda>user_text.
     Inr (newline_join
       [''[role: '' @ role @ '']'', ''Task ('' @ py_str B label @ '' / '' @ py_str B i @ ''): '' @ py_str B description,
        ''User request: '' @ py_str B user_text,
        ''Ground truth delegation expectation is NOT to be revealed; complete the task as asked.''])))))"

text \<open>\<^verbatim>\<open>str.split()\<close>\<close>

fun split_words :: "string \<Rightarrow> string \<Rightarrow> string list" where
  "split_words acc [] = (if acc = [] then [] else [rev acc])"
| "split_words acc (c # cs) =
     (if py_space c then (if acc = [] then [] else [rev acc]) @ split_words [] cs else split_words (c # acc) cs)"

definition length_of :: "pyval \<Rightarrow> nat res" where
  "length_of v =
     (case v of VStr s \<Rightarrow> Inr (length s) | VList xs \<Rightarrow> Inr (length xs) | VDict d \<Rightarrow> Inr (length d) | _ \<Rightarrow> Inl TypeError)"

fun long_tokens :: "pyval list \<Rightarrow> pyval list res" where
  "long_tokens [] = Inr []"
| "long_tokens (v # vs) =
     bind_res (length_of v) (\<lambda>n. bind_res (long_tokens vs) (\<lambda>ks. Inr (if 3 < n then v # ks else ks)))"

fun count_matches :: "unicode \<Rightarrow> utext \<Rightarrow> pyval list \<Rightarrow> nat res" where
  "count_matches U lowered [] = Inr 0"
| "count_matches U lowered (k # ks) =
     (case k of
        VStr s \<Rightarrow> map_sum id (\<lambda>n. if sublist (un_lower U (codes s)) lowered then Suc n else n) (count_matches U lowered ks)
      | _ \<Rightarrow> Inl AttributeError)"

definition acceptance_met :: "unicode \<Rightarrow> json_object \<Rightarrow> string \<Rightarrow> bool res" where
  "acceptance_met U task answer =
     (let given = get_or task ''acceptance_keywords'' VNone in
      bind_res
        (if \<not> falsy given then iterated given
         else bind_res (item (VDict task) ''description'') (\<lambda>d.
              case d of VStr s \<Rightarrow> Inr (map VStr (split_words [] s)) | _ \<Rightarrow> Inl AttributeError))
        (\<lambda>tokens.
      bind_res (long_tokens tokens) (\<lambda>keywords.
      if keywords = [] then Inr True
      else bind_res (count_matches U (un_lower U (codes answer)) keywords) (\<lambda>matched.
           Inr (max 1 (length keywords div 2) \<le> matched)))))"


record config_result =
  cf_config :: string
  cf_worker_count :: int
  cf_calls :: nat
  cf_passed :: bool
  cf_input_tokens :: pyval
  cf_output_tokens :: pyval
  cf_total_tokens :: pyval
  cf_latency_ms :: int
  cf_wall_ms :: int
  cf_estimated_cost_usd :: pyfloat
  cf_text_excerpt :: string
  cf_per_call :: "chat_call list"

text \<open>The roles that are called in a configuration, in order.\<close>

definition config_roles :: "string \<Rightarrow> int \<Rightarrow> string list" where
  "config_roles config worker_count =
     (if config = ''A'' then [''host-controller'']
      else if config = ''B'' then [''host-controller'', ''fixed-worker'']
      else ''host-controller'' #
           map (\<lambda>index. ''adaptive-worker-'' @ int_text (int index + 1)) [0..<nat (max 1 worker_count)])"

fun call_roles ::
    "builtins \<Rightarrow> 'w chat_client \<Rightarrow> string \<Rightarrow> string \<Rightarrow> string \<Rightarrow> json_object \<Rightarrow> string list \<Rightarrow> ('w, chat_call list) prog" where
  "call_roles B C base_url api_key model task [] = ret []"
| "call_roles B C base_url api_key model task (role # roles) =
     bind (lift (execution_prompt B task role)) (\<lambda>prompt.
     bind (call_chat C base_url api_key model prompt) (\<lambda>c.
     bind (call_roles B C base_url api_key model task roles) (\<lambda>cs. ret (c # cs))))"

fun sequence_res :: "'a res list \<Rightarrow> 'a list res" where
  "sequence_res [] = Inr []"
| "sequence_res (r # rs) = bind_res r (\<lambda>x. bind_res (sequence_res rs) (\<lambda>xs. Inr (x # xs)))"

definition value_or_zero :: "pyval \<Rightarrow> pyval" where
  "value_or_zero v = value_or v (VInt 0)"

definition summarize ::
    "builtins \<Rightarrow> unicode \<Rightarrow> numbers \<Rightarrow> json_object \<Rightarrow> string \<Rightarrow> int \<Rightarrow> int \<Rightarrow> chat_call list \<Rightarrow> config_result res" where
  "summarize B U N task config worker_count wall calls =
     (let combined = newline_join (map (\<lambda>c. py_str B (cl_text c)) calls) in
      bind_res (nu_sum N (map (\<lambda>c. value_or_zero (cl_input_tokens c)) calls)) (\<lambda>i.
      bind_res (nu_sum N (map (\<lambda>c. value_or_zero (cl_output_tokens c)) calls)) (\<lambda>out.
      bind_res (sequence_res (map (estimate_cost N) calls)) (\<lambda>costs.
      bind_res (acceptance_met U task combined) (\<lambda>passed.
      bind_res (nu_sum N [i, out]) (\<lambda>total.
      Inr \<lparr>cf_config = config, cf_worker_count = worker_count, cf_calls = length calls, cf_passed = passed,
           cf_input_tokens = i, cf_output_tokens = out, cf_total_tokens = total,
           cf_latency_ms = sum_list (map cl_latency_ms calls), cf_wall_ms = wall,
           cf_estimated_cost_usd = nu_total N (map (\<lambda>c. case c of None \<Rightarrow> Fin 0 | Some x \<Rightarrow> x) costs),
           cf_text_excerpt = take 400 combined, cf_per_call = calls\<rparr>))))))"

definition run_config ::
    "builtins \<Rightarrow> unicode \<Rightarrow> numbers \<Rightarrow> 'w chat_client \<Rightarrow> string \<Rightarrow> string \<Rightarrow> string \<Rightarrow> json_object \<Rightarrow> string \<Rightarrow> int \<Rightarrow>
     ('w, config_result) prog" where
  "run_config B U N C base_url api_key model task config worker_count =
     bind (get (ct_clock C)) (\<lambda>started.
     bind (call_roles B C base_url api_key model task (config_roles config worker_count)) (\<lambda>calls.
     bind (get (ct_clock C)) (\<lambda>now. lift (summarize B U N task config worker_count (now - started) calls))))"

datatype config_outcome = Measured config_result | Failed string int exn

fun outcome_config :: "config_outcome \<Rightarrow> string" where
  "outcome_config (Measured r) = cf_config r"
| "outcome_config (Failed config _ _) = config"

record task_result =
  xr_task_id :: pyval
  xr_family_id :: pyval
  xr_description :: pyval
  xr_ground_truth :: pyval
  xr_advisory :: eval_decision
  xr_delegation_verdict :: string
  xr_configs :: "config_outcome list"

fun run_configs ::
    "builtins \<Rightarrow> unicode \<Rightarrow> numbers \<Rightarrow> 'w chat_client \<Rightarrow> string \<Rightarrow> string \<Rightarrow> string \<Rightarrow> json_object \<Rightarrow> (string \<times> int) list \<Rightarrow>
     ('w, config_outcome list) prog" where
  "run_configs B U N C base_url api_key model task [] = ret []"
| "run_configs B U N C base_url api_key model task ((config, n) # rest) =
     bind (catch_all (bind (run_config B U N C base_url api_key model task config n) (\<lambda>r. ret (Measured r)))
             (\<lambda>e. ret (Failed config n e))) (\<lambda>x.
     bind (run_configs B U N C base_url api_key model task rest) (\<lambda>xs. ret (x # xs)))"

text \<open>One turn of the loop of \<^verbatim>\<open>run_tasks\<close>; \<open>R\<close> is the routing with its identifiers and time.\<close>

definition run_task ::
    "builtins \<Rightarrow> routing_service \<Rightarrow> routing_ids \<Rightarrow> time \<Rightarrow> numbers \<Rightarrow> 'w chat_client \<Rightarrow> string \<Rightarrow> string \<Rightarrow> string \<Rightarrow> bool \<Rightarrow>
     json_object \<Rightarrow> ('w, task_result) prog" where
  "run_task B R ids now N C base_url api_key model skip_live task =
     bind (lift (advisory_decision B R ids now task)) (\<lambda>decision.
     bind (lift (item (VDict task) ''ground_truth'')) (\<lambda>ground.
     bind (if skip_live then ret []
           else run_configs B (rv_unicode R) N C base_url api_key model task
                  [(''A'', 0), (''B'', 1), (''C'', ed_suggested_worker_count decision)]) (\<lambda>configs.
     bind (lift (item (VDict task) ''id'')) (\<lambda>i.
     bind (lift (item (VDict task) ''family_id'')) (\<lambda>family.
     bind (lift (item (VDict task) ''description'')) (\<lambda>description.
     bind (lift (delegation_verdict (ed_suggestion decision) ground)) (\<lambda>verdict.
     ret \<lparr>xr_task_id = i, xr_family_id = family, xr_description = description, xr_ground_truth = ground,
          xr_advisory = decision, xr_delegation_verdict = verdict, xr_configs = configs\<rparr>)))))))"

fun run_tasks ::
    "builtins \<Rightarrow> routing_service \<Rightarrow> routing_ids \<Rightarrow> time \<Rightarrow> numbers \<Rightarrow> 'w chat_client \<Rightarrow> string \<Rightarrow> string \<Rightarrow> string \<Rightarrow> bool \<Rightarrow>
     json_object list \<Rightarrow> ('w, task_result list) prog" where
  "run_tasks B R ids now N C base_url api_key model skip_live [] = ret []"
| "run_tasks B R ids now N C base_url api_key model skip_live (task # tasks) =
     bind (run_task B R ids now N C base_url api_key model skip_live task) (\<lambda>r.
     bind (run_tasks B R ids now N C base_url api_key model skip_live tasks) (\<lambda>rs. ret (r # rs)))"

section \<open>The aggregate\<close>

record bucket =
  bk_count :: nat
  bk_passed :: nat
  bk_total_tokens :: int
  bk_latency_ms :: int
  bk_wall_ms :: int
  bk_cost_usd :: pyfloat

definition new_bucket :: bucket where
  "new_bucket = \<lparr>bk_count = 0, bk_passed = 0, bk_total_tokens = 0, bk_latency_ms = 0, bk_wall_ms = 0, bk_cost_usd = Fin 0\<rparr>"

definition add_config :: "numbers \<Rightarrow> config_outcome \<Rightarrow> bucket \<Rightarrow> bucket res" where
  "add_config N x b =
     (case x of
        Failed _ _ _ \<Rightarrow> Inr (b\<lparr>bk_count := bk_count b + 1\<rparr>)
      | Measured r \<Rightarrow>
          bind_res (nu_int N (value_or_zero (cf_total_tokens r))) (\<lambda>tokens.
          Inr \<lparr>bk_count = bk_count b + 1, bk_passed = bk_passed b + (if cf_passed r then 1 else 0),
               bk_total_tokens = bk_total_tokens b + tokens, bk_latency_ms = bk_latency_ms b + cf_latency_ms r,
               bk_wall_ms = bk_wall_ms b + cf_wall_ms r,
               bk_cost_usd = nu_total N [bk_cost_usd b, cf_estimated_cost_usd r]\<rparr>))"

fun add_configs :: "numbers \<Rightarrow> config_outcome list \<Rightarrow> (string, bucket) dict \<Rightarrow> (string, bucket) dict res" where
  "add_configs N [] d = Inr d"
| "add_configs N (x # xs) d =
     (let key = outcome_config x in
      bind_res (add_config N x (case dget d key of None \<Rightarrow> new_bucket | Some b \<Rightarrow> b)) (\<lambda>b.
      add_configs N xs (dput key b d)))"

record aggregated =
  ag_task_count :: nat
  ag_correct :: nat
  ag_over_delegated :: nat
  ag_under_delegated :: nat
  ag_correct_rate :: "pyfloat option"
  ag_over_delegated_rate :: "pyfloat option"
  ag_under_delegated_rate :: "pyfloat option"
  ag_per_config :: "(string, bucket) dict"

definition aggregate :: "numbers \<Rightarrow> task_result list \<Rightarrow> aggregated res" where
  "aggregate N results =
     (let verdicts = map xr_delegation_verdict results;
          total = length verdicts;
          correct = count_list verdicts ''correct'';
          over = count_list verdicts ''over_delegated'';
          under = count_list verdicts ''under_delegated'';
          rate = (\<lambda>n. if total = 0 then None else Some (nu_rate N n total))
      in bind_res (add_configs N (concat (map xr_configs results)) []) (\<lambda>per_config.
         Inr \<lparr>ag_task_count = total, ag_correct = correct, ag_over_delegated = over, ag_under_delegated = under,
              ag_correct_rate = rate correct, ag_over_delegated_rate = rate over, ag_under_delegated_rate = rate under,
              ag_per_config = per_config\<rparr>))"

text \<open>\<^verbatim>\<open>base_url.split("://")[1].split("/")[0]\<close>\<close>

fun after_scheme :: "string \<Rightarrow> string option" where
  "after_scheme s =
     (if startswith s ''://'' then Some (drop 3 s) else case s of [] \<Rightarrow> None | _ # cs \<Rightarrow> after_scheme cs)"

fun before_scheme :: "string \<Rightarrow> string" where
  "before_scheme s = (if startswith s ''://'' then [] else case s of [] \<Rightarrow> [] | c # cs \<Rightarrow> c # before_scheme cs)"

definition endpoint_host :: "string \<Rightarrow> string res" where
  "endpoint_host base_url =
     (case after_scheme base_url of
        None \<Rightarrow> Inl IndexError
      | Some rest \<Rightarrow> Inr (takeWhile (\<lambda>c. c \<noteq> CHR ''/'') (before_scheme rest)))"

record evaluation_report =
  eo_mode :: string
  eo_endpoint_host :: string
  eo_model_id :: string
  eo_task_count :: nat
  eo_results :: "task_result list"
  eo_aggregate :: aggregated

text \<open>
  \<^verbatim>\<open>main_async\<close>: \<open>keys\<close> are the key of the command line and those of the environment, \<open>file\<close> is the text of the file of tasks.
\<close>

definition first_key :: "string option list \<Rightarrow> string option" where
  "first_key keys = (case filter (\<lambda>k. k \<noteq> None \<and> k \<noteq> Some []) keys of [] \<Rightarrow> None | k # _ \<Rightarrow> k)"

definition evaluate ::
    "builtins \<Rightarrow> decoder \<Rightarrow> routing_service \<Rightarrow> routing_ids \<Rightarrow> time \<Rightarrow> numbers \<Rightarrow> 'w chat_client \<Rightarrow> string option list \<Rightarrow> string \<Rightarrow>
     string \<Rightarrow> string \<Rightarrow> bool \<Rightarrow> ('w, evaluation_report) prog" where
  "evaluate B decode R ids now N C keys base_url model body skip_live =
     (case first_key keys of
        None \<Rightarrow> raise_exn SystemExit
      | Some api_key \<Rightarrow>
          bind (lift (load_tasks decode body)) (\<lambda>tasks.
          bind (run_tasks B R ids now N C base_url api_key model skip_live tasks) (\<lambda>results.
          bind (lift (endpoint_host base_url)) (\<lambda>host.
          bind (lift (aggregate N results)) (\<lambda>total.
          ret \<lparr>eo_mode = (if skip_live then ''advisory_only'' else ''live_model''), eo_endpoint_host = host,
               eo_model_id = model, eo_task_count = length results, eo_results = results, eo_aggregate = total\<rparr>)))))"


section \<open>What the evaluation counts\<close>

lemma worker_candidates_clean:
  assumes "analyze R ids now e = Inr (a, d)" and "c \<in> set (ra_candidates a)"
  shows "rk_rejection_codes c = []"
proof -
  have direct: "rk_rejection_codes (direct_candidate price version i len) = []" for price version i len
    by (simp add: direct_candidate_def candidate_of_def split: prod.split)
  show ?thesis using assms
    by (auto simp: analyze_def Let_def advise_def direct split: sum.splits if_splits)
qed

text \<open>
  The advice the evaluation compares with the ground truth: workers are suggested exactly when the request can be delegated, then one
  for each declared region, at most five. The codes of a rejection are never recorded: a rejected candidate is not in the advice.
\<close>

theorem evaluated_advice:
  assumes "advisory_decision B R ids now task = Inr x" and "build_envelope B now task = Inr e"
  shows "ed_rejection_codes x = [] \<and>
    (ed_suggestion x = ''workers'' \<longleftrightarrow> delegable e (ed_request_type x)) \<and>
    (ed_suggested_worker_count x =
      (if delegable e (ed_request_type x) then int (length (rq_requested_write_regions (re_permissions e))) else 0)) \<and>
    0 \<le> ed_suggested_worker_count x \<and> ed_suggested_worker_count x \<le> 5"
proof -
  from assms obtain a d where a: "analyze R ids now e = Inr (a, d)"
    and x: "ed_request_type x = bd_request_type d"
      "ed_rejection_codes x = (case filter (\<lambda>c. rk_mode c = CM_workers) (ra_candidates a) of [] \<Rightarrow> [] | c # _ \<Rightarrow> rk_rejection_codes c)"
      "ed_suggested_worker_count x = (case filter (\<lambda>c. rk_mode c = CM_workers) (ra_candidates a) of
         [] \<Rightarrow> 0 | c # _ \<Rightarrow> if rk_rejection_codes c = [] then rk_worker_count c else 0)"
      "ed_suggestion x = (if ed_suggested_worker_count x = 0 then ''direct'' else ''workers'')"
    by (auto simp: advisory_decision_def bind_res_Inr Let_def split: if_splits)
  note clean = worker_candidates_clean [OF a]
  have cands: "map candidate_summary (ra_candidates a) =
      (CM_direct, 0) # (if delegable e (bd_request_type d)
                        then [(CM_workers, int (length (rq_requested_write_regions (re_permissions e))))] else [])"
    using advice_is_conservative [OF a] by blast
  have "map candidate_summary (filter (\<lambda>c. rk_mode c = CM_workers) (ra_candidates a)) =
      filter (\<lambda>p. fst p = CM_workers) (map candidate_summary (ra_candidates a))"
    by (simp add: filter_map comp_def candidate_summary_def)
  then have ws: "map candidate_summary (filter (\<lambda>c. rk_mode c = CM_workers) (ra_candidates a)) =
      (if delegable e (bd_request_type d) then [(CM_workers, int (length (rq_requested_write_regions (re_permissions e))))] else [])"
    unfolding cands by simp
  have sub: "set (filter (\<lambda>c. rk_mode c = CM_workers) (ra_candidates a)) \<subseteq> set (ra_candidates a)" by auto
  have range: "delegable e t \<Longrightarrow> 1 \<le> length (rq_requested_write_regions (re_permissions e)) \<and> length (rq_requested_write_regions (re_permissions e)) \<le> 5" for t
    by (simp add: delegable_def Suc_le_eq)
  show ?thesis
  proof (cases "delegable e (bd_request_type d)")
    case True
    then obtain c where c: "filter (\<lambda>c. rk_mode c = CM_workers) (ra_candidates a) = [c]"
      "rk_worker_count c = int (length (rq_requested_write_regions (re_permissions e)))"
      using ws by (auto simp: candidate_summary_def)
    then have "rk_rejection_codes c = []" using sub clean by auto
    then show ?thesis using True c range [OF True] by (auto simp: x)
  next
    case False
    then show ?thesis using ws by (simp add: x)
  qed
qed

lemma config_roles_length:
  "length (config_roles config n) = (if config = ''A'' then 1 else if config = ''B'' then 2 else 1 + nat (max 1 n))"
  by (simp add: config_roles_def)

lemma call_roles_length: "call_roles B C u k m task roles w = (Inr cs, w') \<Longrightarrow> length cs = length roles"
  by (induction roles arbitrary: w w' cs) (auto simp: prog_simps)

lemma run_config_Inr:
  assumes "run_config B U N C u k m task config n w = (Inr r, w')"
  shows "cf_config r = config \<and> cf_calls r = length (config_roles config n)"
proof -
  from assms obtain cs w1 t0 t1 where "call_roles B C u k m task (config_roles config n) w = (Inr cs, w1)"
    and s: "summarize B U N task config n (t1 - t0) cs = Inr r"
    by (auto simp: run_config_def prog_simps)
  from call_roles_length [OF this(1)] s show ?thesis by (auto simp: summarize_def bind_res_Inr Let_def)
qed


lemma run_configs_Inr:
  "\<exists>xs w'. run_configs B U N C u k m task cs w = (Inr xs, w') \<and> map outcome_config xs = map fst cs"
proof (induction cs arbitrary: w)
  case (Cons c cs)
  obtain config n where c: "c = (config, n)" by fastforce
  obtain r w1 where r: "run_config B U N C u k m task config n w = (r, w1)" by fastforce
  from Cons.IH [of w1] obtain xs w2 where xs: "run_configs B U N C u k m task cs w1 = (Inr xs, w2)" "map outcome_config xs = map fst cs"
    by blast
  show ?case
  proof (cases r)
    case (Inl e)
    then show ?thesis using xs r by (simp add: c catch_all_def bind_def ret_def)
  next
    case (Inr x)
    then show ?thesis using xs r run_config_Inr [of B U N C u k m task config n w x w1] by (simp add: c catch_all_def bind_def ret_def)
  qed
qed (simp add: ret_def)

lemma delegation_verdict_cases:
  "delegation_verdict s g = Inr v \<Longrightarrow> v \<in> {''correct'', ''over_delegated'', ''under_delegated''}"
  by (auto simp: delegation_verdict_def bind_res_Inr Let_def split: if_splits)

definition complete_result :: "bool \<Rightarrow> task_result \<Rightarrow> bool" where
  "complete_result skip_live r \<longleftrightarrow>
     xr_delegation_verdict r \<in> {''correct'', ''over_delegated'', ''under_delegated''} \<and>
     map outcome_config (xr_configs r) = (if skip_live then [] else [''A'', ''B'', ''C''])"

lemma run_task_complete:
  assumes "run_task B R ids now N C u k m skip_live task w = (Inr r, w')"
  shows "complete_result skip_live r"
proof -
  have configs: "map outcome_config xs = (if skip_live then [] else [''A'', ''B'', ''C''])"
    if "(if skip_live then ret [] else run_configs B U N C u k m task [(''A'', 0), (''B'', 1), (''C'', n)]) v = (Inr xs, v')" for U n v v' xs
    using that run_configs_Inr [of B U N C u k m task "[(''A'', 0), (''B'', 1), (''C'', n)]" v]
    by (auto simp: ret_def split: if_splits)
  from assms show ?thesis
    unfolding run_task_def by (elim bind_InrE) (auto simp: prog_simps complete_result_def dest!: delegation_verdict_cases configs)
qed

lemma run_tasks_complete:
  "run_tasks B R ids now N C u k m skip_live tasks w = (Inr rs, w') \<Longrightarrow>
     length rs = length tasks \<and> list_all (complete_result skip_live) rs"
proof (induction tasks arbitrary: w w' rs)
  case (Cons task tasks)
  then obtain r w1 xs where r: "run_task B R ids now N C u k m skip_live task w = (Inr r, w1)"
    "run_tasks B R ids now N C u k m skip_live tasks w1 = (Inr xs, w')" "rs = r # xs"
    by (auto elim!: bind_InrE simp: prog_simps)
  from Cons.IH [OF r(2)] run_task_complete [OF r(1)] show ?case by (simp add: r(3))
qed (simp add: ret_def)

definition counted_in :: "(string, bucket) dict \<Rightarrow> string \<Rightarrow> nat" where
  "counted_in d key = (case dget d key of None \<Rightarrow> 0 | Some b \<Rightarrow> bk_count b)"

lemma add_config_Inr: "add_config N x b = Inr b' \<Longrightarrow> bk_count b' = bk_count b + 1 \<and> bk_passed b' \<le> bk_passed b + 1"
  by (auto simp: add_config_def bind_res_Inr split: config_outcome.splits)

lemma add_configs_Inr:
  assumes "add_configs N xs d = Inr d'" and "\<forall>key b. dget d key = Some b \<longrightarrow> bk_passed b \<le> bk_count b"
  shows "counted_in d' key = counted_in d key + length (filter (\<lambda>x. outcome_config x = key) xs) \<and>
    (\<forall>key b. dget d' key = Some b \<longrightarrow> bk_passed b \<le> bk_count b)"
  using assms
proof (induction xs arbitrary: d)
  case (Cons x xs)
  let ?old = "case dget d (outcome_config x) of None \<Rightarrow> new_bucket | Some b \<Rightarrow> b"
  from Cons.prems(1) obtain b where b: "add_config N x ?old = Inr b" "add_configs N xs (dput (outcome_config x) b d) = Inr d'"
    by (auto simp: Let_def bind_res_Inr)
  have old: "bk_passed ?old \<le> bk_count ?old" "bk_count ?old = counted_in d (outcome_config x)"
    using Cons.prems(2) by (auto simp: new_bucket_def counted_in_def split: option.split)
  have "\<forall>key c. dget (dput (outcome_config x) b d) key = Some c \<longrightarrow> bk_passed c \<le> bk_count c"
    using Cons.prems(2) add_config_Inr [OF b(1)] old(1) by auto
  from Cons.IH [OF b(2) this] show ?case using add_config_Inr [OF b(1)] old(2) by (auto simp: counted_in_def)
qed simp

lemma verdict_counts:
  "list_all (\<lambda>v. v \<in> {''correct'', ''over_delegated'', ''under_delegated''}) vs \<Longrightarrow>
     count_list vs ''correct'' + count_list vs ''over_delegated'' + count_list vs ''under_delegated'' = length vs"
  by (induction vs) auto

lemma configs_counts:
  assumes "list_all (complete_result skip_live) rs" and "config \<in> {''A'', ''B'', ''C''}"
  shows "length (filter (\<lambda>x. outcome_config x = config) (concat (map xr_configs rs))) = (if skip_live then 0 else length rs)"
  using assms(1)
proof (induction rs)
  case (Cons r rs)
  then have "map outcome_config (xr_configs r) = (if skip_live then [] else [''A'', ''B'', ''C''])" by (simp add: complete_result_def)
  then have "length (filter (\<lambda>c. c = config) (map outcome_config (xr_configs r))) = (if skip_live then 0 else 1)" using assms(2) by auto
  then have "length (filter (\<lambda>x. outcome_config x = config) (xr_configs r)) = (if skip_live then 0 else 1)" by (simp add: filter_map comp_def)
  then show ?case using Cons by simp
qed simp

text \<open>
  The aggregate counts every task once: its verdicts are correct, over- or under-delegated and nothing else, and each configuration
  has been run for every task, also where its calls failed, with no more passes than runs.
\<close>

theorem evaluation_counts_every_task:
  assumes "run_tasks B R ids now N C u k m skip_live tasks w = (Inr rs, w')" and "aggregate N rs = Inr a"
  shows "ag_task_count a = length tasks \<and>
    ag_correct a + ag_over_delegated a + ag_under_delegated a = length tasks \<and>
    (\<forall>config \<in> {''A'', ''B'', ''C''}. counted_in (ag_per_config a) config = (if skip_live then 0 else length tasks)) \<and>
    (\<forall>config b. dget (ag_per_config a) config = Some b \<longrightarrow> bk_passed b \<le> bk_count b)"
proof -
  note finished = run_tasks_complete [OF assms(1)]
  from assms(2) obtain d where d: "add_configs N (concat (map xr_configs rs)) [] = Inr d" "ag_per_config a = d"
    and a: "ag_task_count a = length rs" "ag_correct a = count_list (map xr_delegation_verdict rs) ''correct''"
      "ag_over_delegated a = count_list (map xr_delegation_verdict rs) ''over_delegated''"
      "ag_under_delegated a = count_list (map xr_delegation_verdict rs) ''under_delegated''"
    by (auto simp: aggregate_def bind_res_Inr Let_def)
  have "list_all (\<lambda>v. v \<in> {''correct'', ''over_delegated'', ''under_delegated''}) (map xr_delegation_verdict rs)"
    using finished by (auto simp: list_all_iff complete_result_def)
  from verdict_counts [OF this] have "ag_correct a + ag_over_delegated a + ag_under_delegated a = length tasks"
    using finished by (simp add: a)
  moreover have "counted_in d config = (if skip_live then 0 else length tasks)" if "config \<in> {''A'', ''B'', ''C''}" for config
    using add_configs_Inr [OF d(1), of config] configs_counts [of skip_live rs config] finished that by (simp add: counted_in_def)
  moreover have "\<forall>config b. dget d config = Some b \<longrightarrow> bk_passed b \<le> bk_count b" using add_configs_Inr [OF d(1)] by simp
  ultimately show ?thesis using finished a(1) d(2) by auto
qed

text \<open>
  The adaptive configuration is never run without a worker: for advice to work directly it makes the two calls of the
  configuration with one fixed worker.
\<close>

theorem adaptive_has_a_worker:
  assumes "run_config B U N C u k m task ''C'' 0 w = (Inr r, w')"
  shows "cf_calls r = 2"
  using run_config_Inr [OF assms] by (simp add: config_roles_length)

text \<open>
  The host of the endpoint is read from its address after all calls have been made: for an address without \<^verbatim>\<open>://\<close> the evaluation
  raises and the results of the calls are lost.
\<close>

theorem schemeless_address_loses_results:
  assumes "after_scheme base_url = None" and "first_key keys = Some k" and "load_tasks decode body = Inr tasks"
    and "run_tasks B R ids now N C base_url k m skip_live tasks w = (Inr rs, w')"
  shows "evaluate B decode R ids now N C keys base_url m body skip_live w = (Inl IndexError, w')"
  using assms by (simp add: evaluate_def bind_def lift_def endpoint_host_def)

end
