(* ===== verification/Plugins.thy ===== *)
theory Plugins
  imports Texts "HOL-Library.List_Lexorder" "HOL-Library.Char_ord"
begin

text \<open>
  \<^verbatim>\<open>plugins/contracts.py\<close> and \<^verbatim>\<open>plugins/registry.py\<close>: the public roles, the members each contract asks for, and the
  registry of plugins.

  A plugin is known by the names that \<^verbatim>\<open>isinstance\<close> of a runtime-checkable protocol looks up (those it has with a
  value other than \<^verbatim>\<open>None\<close>) and by whether its \<open>complete\<close> is a coroutine function. A \<^verbatim>\<open>PluginRegistrationError\<close> is a
  \<open>ValueError\<close>.
\<close>

record plugin =
  pg_identity :: nat
  pg_members :: "string list"
  pg_async_complete :: bool

definition CONTRACT_VERSION :: string where
  "CONTRACT_VERSION = ''0.1.0''"

definition ROLE_CONTRACTS :: "(string, string list) dict" where
  "ROLE_CONTRACTS =
     [(''profiler'', [''profile'']), (''controller_selector'', [''select'']), (''worker_policy'', [''decide'']),
      (''provider'', [''complete'']), (''framework'', [''start_task'', ''control'', ''resume_events'']),
      (''verifier'', [''verify''])]"

definition PLUGIN_ROLES :: "string set" where
  "PLUGIN_ROLES =
     {''profiler'', ''controller_selector'', ''worker_policy'', ''provider'', ''framework'', ''verifier''}"

definition satisfies :: "plugin \<Rightarrow> string list \<Rightarrow> bool" where
  "satisfies p contract \<longleftrightarrow> list_all (\<lambda>m. m \<in> set (pg_members p)) contract"

record plugin_registry =
  pl_contract_version :: string
  pl_plugins :: "(string, (string, plugin) dict) dict"

definition empty_registry :: "string \<Rightarrow> plugin_registry" where
  "empty_registry contract_version = \<lparr>pl_contract_version = contract_version, pl_plugins = []\<rparr>"

definition of_role :: "plugin_registry \<Rightarrow> string \<Rightarrow> (string, plugin) dict" where
  "of_role R role = (case dget (pl_plugins R) role of None \<Rightarrow> [] | Some d \<Rightarrow> d)"

definition register_plugin :: "string \<Rightarrow> string \<Rightarrow> plugin \<Rightarrow> string option \<Rightarrow> (plugin_registry, unit) prog" where
  "register_plugin role name p contract_version =
     andthen (raise_when (role \<notin> PLUGIN_ROLES) (ValueError (''unknown plugin role: '' @ role)))
    (andthen (raise_when (strip name = []) (ValueError ''plugin name must not be blank''))
    (bind (get pl_contract_version) (\<lambda>expected.
     andthen (raise_when (contract_version \<noteq> None \<and> contract_version \<noteq> Some expected) (ValueError ''contract version''))
    (bind (lift (case dget ROLE_CONTRACTS role of None \<Rightarrow> Inl KeyError | Some c \<Rightarrow> Inr c)) (\<lambda>contract.
     andthen (raise_when (\<not> satisfies p contract)
                (ValueError (''plugin '' @ name @ '' does not satisfy the '' @ role @ '' contract'')))
    (andthen (raise_when (role = ''provider'' \<and> (''complete'' \<notin> set (pg_members p) \<or> \<not> pg_async_complete p))
                (ValueError (''plugin '' @ name @ '' does not satisfy the provider contract: complete must be async'')))
     (modify (\<lambda>R. R\<lparr>pl_plugins := dput role (dput name p (of_role R role)) (pl_plugins R)\<rparr>))))))))"

definition get_plugin :: "string \<Rightarrow> string \<Rightarrow> plugin_registry \<Rightarrow> plugin res" where
  "get_plugin role name R = (case dget (of_role R role) name of None \<Rightarrow> Inl KeyError | Some p \<Rightarrow> Inr p)"

definition resolve_plugin :: "string \<Rightarrow> string option \<Rightarrow> plugin_registry \<Rightarrow> plugin option" where
  "resolve_plugin role preferred R =
     (let by_role = of_role R role in
      if by_role = [] then None
      else case preferred of
             None \<Rightarrow> Some (snd (hd by_role))
           | Some name \<Rightarrow> (case dget by_role name of None \<Rightarrow> Some (snd (hd by_role)) | Some p \<Rightarrow> Some p))"

definition registered_plugins :: "plugin_registry \<Rightarrow> (string \<times> string list) list" where
  "registered_plugins R = map (\<lambda>(role, names). (role, sort (dkeys names))) (pl_plugins R)"

section \<open>What the registry holds\<close>

definition fits :: "string \<Rightarrow> plugin \<Rightarrow> bool" where
  "fits role p \<longleftrightarrow>
     role \<in> PLUGIN_ROLES \<and> (\<exists>contract. dget ROLE_CONTRACTS role = Some contract \<and> satisfies p contract) \<and>
     (role = ''provider'' \<longrightarrow> pg_async_complete p)"

lemma register_plugin_Inr:
  "register_plugin role name p version R = (Inr (), R') \<longleftrightarrow>
     fits role p \<and> strip name \<noteq> [] \<and> (version = None \<or> version = Some (pl_contract_version R)) \<and>
     R' = R\<lparr>pl_plugins := dput role (dput name p (of_role R role)) (pl_plugins R)\<rparr>"
proof (cases "role \<in> PLUGIN_ROLES")
  case True
  then obtain c where c: "dget ROLE_CONTRACTS role = Some c" "role = ''provider'' \<Longrightarrow> c = [''complete'']"
    by (auto simp: PLUGIN_ROLES_def ROLE_CONTRACTS_def)
  then show ?thesis using True
    by (auto simp: register_plugin_def prog_simps fits_def satisfies_def split: if_splits)
qed (auto simp: register_plugin_def fits_def)

lemma register_plugin_Inl: "register_plugin role name p version R = (Inl e, R') \<Longrightarrow> R' = R"
  by (auto simp: register_plugin_def bind_def andthen_def raise_when_def split: if_splits option.splits)

definition sound_registry :: "plugin_registry \<Rightarrow> bool" where
  "sound_registry R \<longleftrightarrow> (\<forall>(role, d) \<in> set (pl_plugins R). \<forall>p \<in> set (dvalues d). fits role p)"

lemma sound_role: "sound_registry R \<Longrightarrow> p \<in> set (dvalues (of_role R role)) \<Longrightarrow> fits role p"
proof -
  assume sound: "sound_registry R" and p: "p \<in> set (dvalues (of_role R role))"
  then obtain d where "dget (pl_plugins R) role = Some d" "p \<in> set (dvalues d)"
    by (cases "dget (pl_plugins R) role") (simp_all add: of_role_def)
  with sound map_of_SomeD [of "pl_plugins R" role d] show "fits role p" by (auto simp: sound_registry_def)
qed

lemma register_sound:
  assumes "sound_registry R" and "register_plugin role name p version R = (r, R')"
  shows "sound_registry R'"
proof (cases r)
  case (Inl e)
  then show ?thesis using register_plugin_Inl assms by blast
next
  case (Inr u)
  then have f: "fits role p" and R': "R' = R\<lparr>pl_plugins := dput role (dput name p (of_role R role)) (pl_plugins R)\<rparr>"
    using assms(2) by (auto simp: register_plugin_Inr)
  have here: "fits role q" if "q \<in> set (dvalues (dput name p (of_role R role)))" for q
    using that dvalues_dput_subset [of name p "of_role R role"] f sound_role [OF assms(1)] by blast
  have "set (dput role d xs) \<subseteq> insert (role, d) (set xs)" for d and xs :: "(string, (string, plugin) dict) dict"
    by (induction xs) auto
  from this [of "dput name p (of_role R role)" "pl_plugins R"] here assms(1) show ?thesis
    unfolding sound_registry_def R' by fastforce
qed

text \<open>The registry after a list of registrations, whether they were accepted or not.\<close>

type_synonym registration = "string \<times> string \<times> plugin \<times> string option"

fun register_all :: "registration list \<Rightarrow> plugin_registry \<Rightarrow> plugin_registry" where
  "register_all [] R = R"
| "register_all ((role, name, p, version) # rest) R = register_all rest (snd (register_plugin role name p version R))"

lemma register_all_sound: "sound_registry R \<Longrightarrow> sound_registry (register_all rs R)"
  by (induction rs R rule: register_all.induct) (auto intro: register_sound prod.collapse [symmetric])

lemma get_resolve:
  "get_plugin role name R = Inr p \<Longrightarrow> p \<in> set (dvalues (of_role R role))"
  "resolve_plugin role preferred R = Some p \<Longrightarrow> p \<in> set (dvalues (of_role R role))"
  by (auto simp: get_plugin_def resolve_plugin_def Let_def split: option.splits if_splits dest: dget_value)

definition registry_of :: "string \<Rightarrow> registration list \<Rightarrow> plugin_registry" where
  "registry_of version rs = register_all rs (empty_registry version)"

lemma registry_of_sound: "sound_registry (registry_of version rs)"
  unfolding registry_of_def by (intro register_all_sound) (simp add: sound_registry_def empty_registry_def)

text \<open>
  The registry holds what fits its role. Whatever registrations were tried, a plugin that is found or resolved for a role has
  every member the contract of the role asks for, and an asynchronous \<^verbatim>\<open>complete\<close> if the role is the provider's. A registration
  is accepted exactly for such a plugin, a name that is not blank and a contract version that is none or the registry's; then
  the plugin is found under its name and preferred by it, and every other name and role has the plugin it had. One that is refused
  changes nothing. Nothing is resolved only for a role without plugins.
\<close>

theorem registry_holds_contracts:
  assumes "R = registry_of version rs"
  shows "(get_plugin role name R = Inr p \<longrightarrow> fits role p) \<and>
    (resolve_plugin role preferred R = Some p \<longrightarrow> fits role p) \<and>
    (resolve_plugin role preferred R = None \<longleftrightarrow> of_role R role = []) \<and>
    (fst (register_plugin role name q v R) = Inr () \<longleftrightarrow>
       fits role q \<and> strip name \<noteq> [] \<and> (v = None \<or> v = Some (pl_contract_version R))) \<and>
    (let R' = snd (register_plugin role name q v R) in
       if fst (register_plugin role name q v R) = Inr ()
       then get_plugin role name R' = Inr q \<and> resolve_plugin role (Some name) R' = Some q \<and>
         (\<forall>role' name'. (role', name') \<noteq> (role, name) \<longrightarrow> get_plugin role' name' R' = get_plugin role' name' R)
       else R' = R)"
proof -
  have sound: "sound_registry R" unfolding assms by (rule registry_of_sound)
  obtain r R' where run: "register_plugin role name q v R = (r, R')" by fastforce
  have "fits role p" if "get_plugin role name R = Inr p" using sound_role [OF sound get_resolve(1) [OF that]] .
  moreover have "fits role p" if "resolve_plugin role preferred R = Some p" using sound_role [OF sound get_resolve(2) [OF that]] .
  moreover have "resolve_plugin role preferred R = None \<longleftrightarrow> of_role R role = []"
    by (auto simp: resolve_plugin_def Let_def split: option.splits)
  moreover have "r = Inr () \<longleftrightarrow> fits role q \<and> strip name \<noteq> [] \<and> (v = None \<or> v = Some (pl_contract_version R))"
    using run register_plugin_Inr [of role name q v R] by (metis prod.inject)
  moreover have "if r = Inr () then get_plugin role name R' = Inr q \<and> resolve_plugin role (Some name) R' = Some q \<and>
         (\<forall>role' name'. (role', name') \<noteq> (role, name) \<longrightarrow> get_plugin role' name' R' = get_plugin role' name' R)
       else R' = R"
  proof (cases r)
    case (Inl e)
    then show ?thesis using run register_plugin_Inl by auto
  next
    case (Inr u)
    then have R': "R' = R\<lparr>pl_plugins := dput role (dput name q (of_role R role)) (pl_plugins R)\<rparr>"
      using run by (auto simp: register_plugin_Inr)
    have "dput name q d \<noteq> []" for d :: "(string, plugin) dict" by (cases d) auto
    then show ?thesis
      by (auto simp: Inr R' get_plugin_def resolve_plugin_def of_role_def Let_def update_conv split: option.splits)
  qed
  ultimately show ?thesis by (simp add: run Let_def)
qed

definition sample_provider :: plugin where
  "sample_provider = \<lparr>pg_identity = 1, pg_members = [''complete'', ''cancel''], pg_async_complete = True\<rparr>"

lemma registry_holds_contracts_witness:
  "fst (register_plugin ''provider'' ''openai'' sample_provider None (registry_of CONTRACT_VERSION [])) = Inr () \<and>
   fits ''provider'' sample_provider \<and>
   get_plugin ''provider'' ''openai'' (registry_of CONTRACT_VERSION [(''provider'', ''openai'', sample_provider, None)]) = Inr sample_provider"
proof -
  have "fits ''provider'' sample_provider" and name: "strip ''openai'' \<noteq> []"
    by (simp_all add: fits_def PLUGIN_ROLES_def ROLE_CONTRACTS_def satisfies_def sample_provider_def strip_def py_space_def)
  moreover note registry_holds_contracts [OF refl, where role = "''provider''" and name = "''openai''" and q = sample_provider and version = CONTRACT_VERSION and
      rs = "[]" and v = None]
  ultimately show ?thesis by (simp add: Let_def registry_of_def)
qed

end
