(* ===== verification/TraceUi.thy ===== *)
theory TraceUi
  imports Runner Routing Schemas
begin

text \<open>
  \<^verbatim>\<open>api/trace_ui.py\<close>: the page that shows the sessions, epochs, tasks, attempts and shadow records of the store.
\<close>

section \<open>The rows\<close>

definition escape_char :: "char \<Rightarrow> string" where
  "escape_char c =
     (if c = CHR ''&'' then ''&amp;''
      else if c = CHR ''<'' then ''&lt;''
      else if c = CHR ''>'' then ''&gt;''
      else if c = CHR 0x22 then ''&quot;''
      else if c = CHR 0x27 then ''&#x27;''
      else [c])"

text \<open>\<^verbatim>\<open>html.escape\<close>\<close>

definition escape :: "string \<Rightarrow> string" where
  "escape s = concat (map escape_char s)"

definition cell :: "string \<Rightarrow> string" where
  "cell s = ''<td>'' @ s @ ''</td>''"

definition row :: "string list \<Rightarrow> string" where
  "row cells = ''<tr>'' @ concat (map cell cells) @ ''</tr>''"

fun task_status_value :: "task_status \<Rightarrow> string" where
  "task_status_value TS_draft = ''draft''"
| "task_status_value TS_planned = ''planned''"
| "task_status_value TS_queued = ''queued''"
| "task_status_value TS_running = ''running''"
| "task_status_value TS_waiting_approval = ''waiting_approval''"
| "task_status_value TS_pause_requested = ''pause_requested''"
| "task_status_value TS_cancel_requested = ''cancel_requested''"
| "task_status_value TS_paused = ''paused''"
| "task_status_value TS_completed = ''completed''"
| "task_status_value TS_partial = ''partial''"
| "task_status_value TS_blocked = ''blocked''"
| "task_status_value TS_failed = ''failed''"
| "task_status_value TS_cancelled = ''cancelled''"

fun epoch_status_value :: "epoch_status \<Rightarrow> string" where
  "epoch_status_value ES_active = ''active''"
| "epoch_status_value ES_released = ''released''"

fun mode_value :: "candidate_mode \<Rightarrow> string" where
  "mode_value CM_direct = ''direct''"
| "mode_value CM_workers = ''workers''"

fun shadow_status_value :: "shadow_status \<Rightarrow> string" where
  "shadow_status_value SH_proposed = ''proposed''"
| "shadow_status_value SH_compared = ''compared''"

definition active_epoch :: "(string, controller_epoch) dict \<Rightarrow> controller_session \<Rightarrow> controller_epoch option" where
  "active_epoch epochs x =
     (case cs_active_controller_epoch_id x of
        None \<Rightarrow> None
      | Some i \<Rightarrow> if i = [] then None else dget epochs i)"

definition session_row :: "(string, controller_epoch) dict \<Rightarrow> controller_session \<Rightarrow> string" where
  "session_row epochs x =
     (let epoch_desc =
        (case active_epoch epochs x of
           Some e \<Rightarrow> escape (ce_provider_id e) @ ''/'' @ escape (ce_model_id e) @ '' ('' @ escape (epoch_status_value (ce_status e)) @ '')''
         | None \<Rightarrow> ''none'')
      in row [escape (cs_id x), escape (name_of MODES (cs_orchestration_mode x)), epoch_desc, int_text (cs_version x)])"

definition session_rows :: "(string, controller_session) dict \<Rightarrow> (string, controller_epoch) dict \<Rightarrow> string" where
  "session_rows sessions epochs = newline_join (map (session_row epochs) (sort_key cs_created_at (dvalues sessions)))"

definition task_row :: "parent_task \<Rightarrow> string" where
  "task_row x =
     row [escape (pt_id x), escape (pt_controller_session_id x), escape (task_status_value (pt_status x)),
          escape (request_type_value (pt_request_type x)), int_text (int (length (pt_child_task_ids x))), int_text (pt_version x)]"

definition task_rows :: "(string, parent_task) dict \<Rightarrow> string" where
  "task_rows tasks = newline_join (map task_row (sort_key pt_created_at (dvalues tasks)))"

definition attempt_row :: "worker_attempt \<Rightarrow> string" where
  "attempt_row x =
     row [escape (wa_id x), escape (wa_child_task_id x), escape (status_value (wa_status x)), escape (wa_worker_session_id x),
          int_text (wa_version x)]"

definition attempt_rows :: "(string, worker_attempt) dict \<Rightarrow> string" where
  "attempt_rows attempts = newline_join (map attempt_row (sort_key wa_created_at (dvalues attempts)))"

definition epoch_row :: "controller_epoch \<Rightarrow> string" where
  "epoch_row x =
     row [escape (ce_id x), escape (ce_controller_session_id x), escape (ce_provider_id x) @ ''/'' @ escape (ce_model_id x),
          escape (epoch_status_value (ce_status x)), int_text (ce_version x)]"

definition epoch_rows :: "(string, controller_epoch) dict \<Rightarrow> string" where
  "epoch_rows epochs = newline_join (map epoch_row (sort_key ce_activated_at (dvalues epochs)))"

definition suggestion_text :: "routing_advice \<Rightarrow> string" where
  "suggestion_text a = comma_join (map (\<lambda>c. mode_value (rk_mode c) @ ''='' @ int_text (rk_worker_count c)) (ra_candidates a))"

definition shadow_row :: "shadow_record \<Rightarrow> string" where
  "shadow_row x =
     row [escape (sr_id x), escape (shadow_status_value (sr_status x)),
          escape (request_type_value (bd_request_type (ra_boundary_decision (sr_advice x)))),
          escape (suggestion_text (sr_advice x)), escape (case sr_real_outcome_ref x of None \<Rightarrow> [] | Some r \<Rightarrow> r)]"

definition shadow_rows :: "(string, shadow_record) dict \<Rightarrow> string" where
  "shadow_rows records = newline_join (map shadow_row (sort_key sr_created_at (dvalues records)))"

section \<open>The page\<close>

definition PAGE_HEAD :: "string list" where
  \<open>PAGE_HEAD =
     [''<!DOCTYPE html>'', ''<html lang="en">'', ''<head>'', ''<meta charset="utf-8">'',
      ''<meta name="viewport" content="width=device-width, initial-scale=1">'',
      ''<title>ValueRoute runtime trace</title>'', ''<style>'',
      ''  body { font-family: -apple-system, BlinkMacSystemFont, "Segoe UI", sans-serif; margin: 2rem; color: #1a1a1a; }'',
      ''  h1 { font-size: 1.4rem; } h2 { font-size: 1.1rem; margin-top: 1.5rem; }'',
      ''  table { border-collapse: collapse; width: 100%; margin-bottom: 1rem; font-size: 0.85rem; }'',
      ''  th, td { border: 1px solid #ddd; padding: 0.35rem 0.5rem; text-align: left; }'',
      ''  th { background: #f5f5f5; }'', ''  .summary { color: #555; font-size: 0.9rem; }'', ''</style>'', ''</head>'',
      ''<body>'', ''<h1>ValueRoute runtime trace</h1>'', ''<p class="summary">'']\<close>

definition counted :: "nat \<Rightarrow> string" where
  "counted n = int_text (int n)"

definition running_count :: "(string, parent_task) dict \<Rightarrow> nat" where
  "running_count tasks = length (filter (\<lambda>x. pt_status x \<in> {TS_running, TS_queued}) (dvalues tasks))"

text \<open>A table: its title, its header, and its rows or a row that says there are none.\<close>

definition page_table :: "string \<Rightarrow> string list \<Rightarrow> string \<Rightarrow> string list" where
  \<open>page_table title columns rows =
     [[], ''<h2>'' @ title @ ''</h2>'', ''<table>'',
      ''  <tr>'' @ concat (map (\<lambda>c. ''<th>'' @ c @ ''</th>'') columns) @ ''</tr>'',
      ''  '' @ (if rows = [] then ''<tr><td colspan="'' @ counted (length columns) @ ''">none</td></tr>'' else rows),
      ''</table>'']\<close>

definition render_trace_page :: "'r view_scheme \<Rightarrow> string" where
  "render_trace_page s =
     newline_join (PAGE_HEAD @
       [''  '' @ counted (length (st_sessions s)) @ '' session(s), '' @ counted (length (st_epochs s)) @ '' epoch(s), '' @
          counted (length (st_tasks s)) @ '' task(s),'',
        ''  '' @ counted (length (st_attempts s)) @ '' attempt(s), '' @ counted (running_count (st_tasks s)) @ '' running, '' @
          counted (length (st_shadow_records s)) @ '' shadow record(s).'',
        ''  Read-only view; refresh to update.'', ''</p>''] @
       page_table ''Sessions'' [''id'', ''mode'', ''active epoch'', ''version''] (session_rows (st_sessions s) (st_epochs s)) @
       page_table ''Epochs'' [''id'', ''session'', ''controller'', ''status'', ''version''] (epoch_rows (st_epochs s)) @
       page_table ''Tasks'' [''id'', ''session'', ''status'', ''type'', ''children'', ''version''] (task_rows (st_tasks s)) @
       page_table ''Worker attempts'' [''id'', ''child'', ''status'', ''worker session'', ''version''] (attempt_rows (st_attempts s)) @
       page_table ''Shadow records'' [''id'', ''status'', ''request type'', ''suggestions'', ''real outcome''] (shadow_rows (st_shadow_records s)) @
       [''</body>'', ''</html>'', []])"


section \<open>What a browser reads\<close>

text \<open>The page as a sequence of tags and characters, the entities of the escape decoded.\<close>

datatype piece = Markup string | Shown char

datatype reading = Outside | Within string | Entity string

definition ENTITIES :: "(string \<times> char) list" where
  "ENTITIES = [(''amp'', CHR ''&''), (''lt'', CHR ''<''), (''gt'', CHR ''>''), (''quot'', CHR 0x22), (''#x27'', CHR 0x27)]"

fun read_html :: "reading \<Rightarrow> string \<Rightarrow> piece list" where
  "read_html m [] = []"
| "read_html Outside (c # cs) =
     (if c = CHR ''<'' then read_html (Within []) cs
      else if c = CHR ''&'' then read_html (Entity []) cs
      else Shown c # read_html Outside cs)"
| "read_html (Within a) (c # cs) =
     (if c = CHR ''>'' then Markup (rev a) # read_html Outside cs else read_html (Within (c # a)) cs)"
| "read_html (Entity a) (c # cs) =
     (if c = CHR '';''
      then (case map_of ENTITIES (rev a) of None \<Rightarrow> [] | Some d \<Rightarrow> [Shown d]) @ read_html Outside cs
      else read_html (Entity (c # a)) cs)"

fun mode_after :: "reading \<Rightarrow> string \<Rightarrow> reading" where
  "mode_after m [] = m"
| "mode_after Outside (c # cs) =
     mode_after (if c = CHR ''<'' then Within [] else if c = CHR ''&'' then Entity [] else Outside) cs"
| "mode_after (Within a) (c # cs) = mode_after (if c = CHR ''>'' then Outside else Within (c # a)) cs"
| "mode_after (Entity a) (c # cs) = mode_after (if c = CHR '';'' then Outside else Entity (c # a)) cs"

lemma read_html_append: "read_html m (a @ b) = read_html m a @ read_html (mode_after m a) b"
  by (induction m a rule: mode_after.induct) (simp_all split: if_splits)

lemma mode_after_append: "mode_after m (a @ b) = mode_after (mode_after m a) b"
  by (induction m a rule: mode_after.induct) (simp_all split: if_splits)

definition reads_as :: "string \<Rightarrow> piece list \<Rightarrow> bool" where
  "reads_as s ps \<longleftrightarrow> read_html Outside s = ps \<and> mode_after Outside s = Outside"

named_theorems readable_html \<open>how the parts of the page read\<close>

lemma reads_as_append [readable_html]: "reads_as a ps \<Longrightarrow> reads_as b qs \<Longrightarrow> reads_as (a @ b) (ps @ qs)"
  by (simp add: reads_as_def read_html_append mode_after_append)

lemma reads_as_Nil [readable_html]: "reads_as [] []"
  by (simp add: reads_as_def)

lemma reads_as_concat:
  "(\<And>x. x \<in> set xs \<Longrightarrow> reads_as (f x) (g x)) \<Longrightarrow> reads_as (concat (map f xs)) (concat (map g xs))"
  by (induction xs) (simp_all add: reads_as_Nil reads_as_append)

definition shown :: "string \<Rightarrow> piece list" where
  "shown s = map Shown s"

lemma shown_append: "shown (a @ b) = shown a @ shown b"
  by (simp add: shown_def)

lemma escape_char_reads: "reads_as (escape_char c) [Shown c]"
  by (simp add: escape_char_def reads_as_def ENTITIES_def)

lemma escape_reads [readable_html]: "reads_as (escape s) (shown s)"
proof -
  have "reads_as (escape s) (concat (map (\<lambda>c. [Shown c]) s))"
    unfolding escape_def by (rule reads_as_concat) (rule escape_char_reads)
  then show ?thesis by (simp add: shown_def concat_map_singleton)
qed

definition harmless :: "string \<Rightarrow> bool" where
  "harmless s \<longleftrightarrow> CHR ''<'' \<notin> set s \<and> CHR ''&'' \<notin> set s"

lemma harmless_reads [readable_html]: "harmless s \<Longrightarrow> reads_as s (shown s)"
  by (induction s) (auto simp: harmless_def reads_as_def shown_def)

lemma tag_reads:
  assumes "CHR ''>'' \<notin> set t"
  shows "reads_as (CHR ''<'' # t @ ''>'') [Markup t]"
proof -
  have "read_html (Within a) (t @ ''>'') = [Markup (rev a @ t)] \<and> mode_after (Within a) (t @ ''>'') = Outside" for a
    using assms by (induction t arbitrary: a) auto
  then show ?thesis by (simp add: reads_as_def)
qed

lemma int_text_solid: "\<not> digit c \<Longrightarrow> c \<noteq> CHR ''-'' \<Longrightarrow> c \<notin> set (int_text k)"
  using decimal_round_trip by (auto simp: int_text_def list_all_iff)

lemma int_text_harmless: "harmless (int_text k)"
  unfolding harmless_def by (intro conjI int_text_solid) (simp_all add: digit_def)

lemma int_text_reads [readable_html]: "reads_as (int_text k) (shown (int_text k))"
  by (rule harmless_reads [OF int_text_harmless])


section \<open>The page shows the store\<close>

text \<open>The same page as a view: tags, and the texts of the store as they are.\<close>

definition view_row :: "string list \<Rightarrow> piece list" where
  "view_row cells =
     [Markup ''tr''] @ concat (map (\<lambda>c. [Markup ''td''] @ shown c @ [Markup ''/td'']) cells) @ [Markup ''/tr'']"

fun view_lines :: "piece list list \<Rightarrow> piece list" where
  "view_lines [] = []"
| "view_lines [l] = l"
| "view_lines (l # ls) = l @ [Shown newline] @ view_lines ls"

definition view_table :: "string \<Rightarrow> string list \<Rightarrow> string list list \<Rightarrow> piece list list" where
  "view_table title columns rows =
     [[], [Markup ''h2''] @ shown title @ [Markup ''/h2''], [Markup ''table''],
      shown ''  '' @ [Markup ''tr''] @ concat (map (\<lambda>c. [Markup ''th''] @ shown c @ [Markup ''/th'']) columns) @ [Markup ''/tr''],
      shown ''  '' @
        (if rows = []
         then [Markup ''tr'', Markup (''td colspan='' @ [CHR 0x22] @ counted (length columns) @ [CHR 0x22])] @ shown ''none'' @
              [Markup ''/td'', Markup ''/tr'']
         else view_lines (map view_row rows)),
      [Markup ''/table'']]"

definition session_cells :: "(string, controller_epoch) dict \<Rightarrow> controller_session \<Rightarrow> string list" where
  "session_cells epochs x =
     [cs_id x, name_of MODES (cs_orchestration_mode x),
      (case active_epoch epochs x of
         None \<Rightarrow> ''none''
       | Some e \<Rightarrow> ce_provider_id e @ ''/'' @ ce_model_id e @ '' ('' @ epoch_status_value (ce_status e) @ '')''),
      int_text (cs_version x)]"

definition epoch_cells :: "controller_epoch \<Rightarrow> string list" where
  "epoch_cells x =
     [ce_id x, ce_controller_session_id x, ce_provider_id x @ ''/'' @ ce_model_id x, epoch_status_value (ce_status x),
      int_text (ce_version x)]"

definition task_cells :: "parent_task \<Rightarrow> string list" where
  "task_cells x =
     [pt_id x, pt_controller_session_id x, task_status_value (pt_status x), request_type_value (pt_request_type x),
      int_text (int (length (pt_child_task_ids x))), int_text (pt_version x)]"

definition attempt_cells :: "worker_attempt \<Rightarrow> string list" where
  "attempt_cells x = [wa_id x, wa_child_task_id x, status_value (wa_status x), wa_worker_session_id x, int_text (wa_version x)]"

definition shadow_cells :: "shadow_record \<Rightarrow> string list" where
  "shadow_cells x =
     [sr_id x, shadow_status_value (sr_status x), request_type_value (bd_request_type (ra_boundary_decision (sr_advice x))),
      suggestion_text (sr_advice x), (case sr_real_outcome_ref x of None \<Rightarrow> [] | Some r \<Rightarrow> r)]"

lemma row_reads:
  assumes "list_all2 (\<lambda>c v. reads_as c (shown v)) cells texts"
  shows "reads_as (row cells) (view_row texts)"
proof -
  have tag: "reads_as ''<tr>'' [Markup ''tr'']" "reads_as ''</tr>'' [Markup ''/tr'']"
    "reads_as ''<td>'' [Markup ''td'']" "reads_as ''</td>'' [Markup ''/td'']" by (simp_all add: reads_as_def)
  have "reads_as (concat (map cell cells)) (concat (map (\<lambda>c. [Markup ''td''] @ shown c @ [Markup ''/td'']) texts))"
    using assms
  proof (induction rule: list_all2_induct)
    case (Cons c cs v vs)
    have "reads_as (cell c) ([Markup ''td''] @ shown v @ [Markup ''/td''])"
      unfolding cell_def by (intro reads_as_append tag Cons.hyps)
    from reads_as_append [OF this Cons.IH] show ?case by simp
  qed (simp add: reads_as_Nil)
  then show ?thesis unfolding row_def view_row_def by (intro reads_as_append tag)
qed

lemma sep_reads: "reads_as ''/'' (shown ''/'')" "reads_as '' ('' (shown '' ('')" "reads_as '')'' (shown '')'')" "reads_as ''none'' (shown ''none'')"
  by (simp_all add: reads_as_def shown_def)

lemma session_row_reads: "reads_as (session_row epochs x) (view_row (session_cells epochs x))"
proof -
  have "reads_as (escape (ce_provider_id e) @ ''/'' @ escape (ce_model_id e) @ '' ('' @ escape (epoch_status_value (ce_status e)) @ '')'')
      (shown (ce_provider_id e @ ''/'' @ ce_model_id e @ '' ('' @ epoch_status_value (ce_status e) @ '')''))" for e
    unfolding shown_append by (intro reads_as_append escape_reads sep_reads)
  then have desc: "reads_as (case active_epoch epochs x of
        Some e \<Rightarrow> escape (ce_provider_id e) @ ''/'' @ escape (ce_model_id e) @ '' ('' @ escape (epoch_status_value (ce_status e)) @ '')''
      | None \<Rightarrow> ''none'')
    (shown (case active_epoch epochs x of
        None \<Rightarrow> ''none''
      | Some e \<Rightarrow> ce_provider_id e @ ''/'' @ ce_model_id e @ '' ('' @ epoch_status_value (ce_status e) @ '')''))"
    by (cases "active_epoch epochs x") (simp_all only: option.case sep_reads)
  show ?thesis unfolding session_row_def session_cells_def Let_def
    by (intro row_reads list.rel_intros escape_reads int_text_reads desc)
qed

lemma epoch_row_reads: "reads_as (epoch_row x) (view_row (epoch_cells x))"
proof -
  have "reads_as (escape a @ ''/'' @ escape b) (shown (a @ ''/'' @ b))" for a b
    unfolding shown_append by (intro reads_as_append escape_reads sep_reads)
  then show ?thesis unfolding epoch_row_def epoch_cells_def by (intro row_reads) (simp add: escape_reads int_text_reads)
qed

lemma other_rows_read:
  "reads_as (task_row t) (view_row (task_cells t))"
  "reads_as (attempt_row a) (view_row (attempt_cells a))"
  "reads_as (shadow_row r) (view_row (shadow_cells r))"
  unfolding task_row_def task_cells_def attempt_row_def attempt_cells_def shadow_row_def shadow_cells_def
  by (rule row_reads, simp add: escape_reads int_text_reads)+

lemma lines_read:
  assumes "list_all2 reads_as ls vs"
  shows "reads_as (newline_join ls) (view_lines vs)"
proof -
  have "newline \<noteq> CHR ''&''" "newline \<noteq> CHR ''<''" unfolding newline_def by code_simp+
  then have n: "reads_as [newline] [Shown newline]" by (simp add: reads_as_def)
  show ?thesis using assms
  proof (induction ls arbitrary: vs rule: newline_join.induct)
    case (3 l k ls)
    from 3(2) obtain v ws where vs: "vs = v # ws" "reads_as l v" "list_all2 reads_as (k # ls) ws" by (auto simp: list_all2_Cons1)
    then obtain w us where ws: "ws = w # us" by (auto simp: list_all2_Cons1)
    from reads_as_append [OF vs(2) reads_as_append [OF n 3(1) [OF vs(3)]]] show ?case by (simp add: vs(1) ws)
  qed (auto simp: list_all2_Cons1 reads_as_Nil)
qed

lemma rows_read:
  assumes "\<And>x. reads_as (f x) (view_row (g x))"
  shows "reads_as (newline_join (map f xs)) (view_lines (map view_row (map g xs)))"
  by (rule lines_read) (simp add: list_all2_conv_all_nth assms)

lemma newline_join_Nil: "\<forall>l \<in> set ls. l \<noteq> [] \<Longrightarrow> newline_join ls = [] \<longleftrightarrow> ls = []"
  by (cases ls rule: newline_join.cases) auto

lemma row_not_Nil: "row cells \<noteq> []"
  by (simp add: row_def)

lemma reads_as_Cons: "reads_as a ps \<Longrightarrow> list_all2 reads_as ls vs \<Longrightarrow> list_all2 reads_as (a # ls) (ps # vs)"
  by simp

lemma table_reads:
  assumes "harmless title" and "\<forall>c \<in> set columns. harmless c" and "\<And>x. reads_as (f x) (view_row (g x))" and "\<And>x. f x \<noteq> []"
  shows "list_all2 reads_as (page_table title columns (newline_join (map f xs))) (view_table title columns (map g xs))"
proof -
  have tag: "reads_as ''<h2>'' [Markup ''h2'']" "reads_as ''</h2>'' [Markup ''/h2'']" "reads_as ''<table>'' [Markup ''table'']"
    "reads_as ''</table>'' [Markup ''/table'']" "reads_as ''  <tr>'' (shown ''  '' @ [Markup ''tr''])" "reads_as ''</tr>'' [Markup ''/tr'']"
    "reads_as ''<th>'' [Markup ''th'']" "reads_as ''</th>'' [Markup ''/th'']" "reads_as ''  '' (shown ''  '')"
    by (simp_all add: reads_as_def shown_def)
  have heads: "reads_as (concat (map (\<lambda>c. ''<th>'' @ c @ ''</th>'') columns))
      (concat (map (\<lambda>c. [Markup ''th''] @ shown c @ [Markup ''/th'']) columns))"
    using assms(2) by (intro reads_as_concat reads_as_append tag harmless_reads) simp
  have none: "reads_as (''<tr><td colspan='' @ [CHR 0x22] @ counted n @ [CHR 0x22] @ ''>none</td></tr>'')
      ([Markup ''tr'', Markup (''td colspan='' @ [CHR 0x22] @ counted n @ [CHR 0x22])] @ shown ''none'' @ [Markup ''/td'', Markup ''/tr''])" for n
  proof -
    have "CHR ''>'' \<notin> set (counted n)" unfolding counted_def by (rule int_text_solid) (simp_all add: digit_def)
    then have t: "reads_as (''<'' @ (''td colspan='' @ [CHR 0x22] @ counted n @ [CHR 0x22]) @ ''>'') [Markup (''td colspan='' @ [CHR 0x22] @ counted n @ [CHR 0x22])]"
      using tag_reads [of "''td colspan='' @ [CHR 0x22] @ counted n @ [CHR 0x22]"] by simp
    have "reads_as ''<tr>'' [Markup ''tr'']" "reads_as ''none</td></tr>'' (shown ''none'' @ [Markup ''/td'', Markup ''/tr''])"
      by (simp_all add: reads_as_def shown_def)
    from reads_as_append [OF this(1) reads_as_append [OF t this(2)]] show ?thesis by simp
  qed
  have empty: "newline_join (map f xs) = [] \<longleftrightarrow> map g xs = []" using assms(4) by (subst newline_join_Nil) auto
  have body: "reads_as (''  '' @ (if newline_join (map f xs) = [] then ''<tr><td colspan='' @ [CHR 0x22] @ counted (length columns) @ [CHR 0x22] @ ''>none</td></tr>''
        else newline_join (map f xs)))
      (shown ''  '' @ (if map g xs = [] then [Markup ''tr'', Markup (''td colspan='' @ [CHR 0x22] @ counted (length columns) @ [CHR 0x22])] @ shown ''none'' @
              [Markup ''/td'', Markup ''/tr''] else view_lines (map view_row (map g xs))))"
    using none rows_read [OF assms(3), where xs = xs] by (intro reads_as_append tag) (auto simp: empty)
  have header: "reads_as (''  <tr>'' @ concat (map (\<lambda>c. ''<th>'' @ c @ ''</th>'') columns) @ ''</tr>'')
      (shown ''  '' @ [Markup ''tr''] @ concat (map (\<lambda>c. [Markup ''th''] @ shown c @ [Markup ''/th'']) columns) @ [Markup ''/tr''])"
    using reads_as_append [OF tag(5) reads_as_append [OF heads tag(6)]] by (simp only: append_assoc)
  have same: \<open>''<tr><td colspan='' @ [CHR 0x22] @ counted n @ [CHR 0x22] @ ''>none</td></tr>'' =
      ''<tr><td colspan="'' @ counted n @ ''">none</td></tr>''\<close> for n by simp
  show ?thesis unfolding page_table_def view_table_def
    by (intro reads_as_Cons list.rel_intros header body [unfolded same] reads_as_append reads_as_Nil tag harmless_reads assms(1))
qed

text \<open>The page as it is meant: the counts, and one table for each kind of record, in the order of time.\<close>

definition view_page :: "'r view_scheme \<Rightarrow> piece list" where
  "view_page s =
     view_lines (map (read_html Outside) PAGE_HEAD @
       [shown (''  '' @ counted (length (st_sessions s)) @ '' session(s), '' @ counted (length (st_epochs s)) @ '' epoch(s), '' @
          counted (length (st_tasks s)) @ '' task(s),''),
        shown (''  '' @ counted (length (st_attempts s)) @ '' attempt(s), '' @ counted (running_count (st_tasks s)) @ '' running, '' @
          counted (length (st_shadow_records s)) @ '' shadow record(s).''),
        shown ''  Read-only view; refresh to update.'', [Markup ''/p'']] @
       view_table ''Sessions'' [''id'', ''mode'', ''active epoch'', ''version'']
         (map (session_cells (st_epochs s)) (sort_key cs_created_at (dvalues (st_sessions s)))) @
       view_table ''Epochs'' [''id'', ''session'', ''controller'', ''status'', ''version'']
         (map epoch_cells (sort_key ce_activated_at (dvalues (st_epochs s)))) @
       view_table ''Tasks'' [''id'', ''session'', ''status'', ''type'', ''children'', ''version'']
         (map task_cells (sort_key pt_created_at (dvalues (st_tasks s)))) @
       view_table ''Worker attempts'' [''id'', ''child'', ''status'', ''worker session'', ''version'']
         (map attempt_cells (sort_key wa_created_at (dvalues (st_attempts s)))) @
       view_table ''Shadow records'' [''id'', ''status'', ''request type'', ''suggestions'', ''real outcome'']
         (map shadow_cells (sort_key sr_created_at (dvalues (st_shadow_records s)))) @
       [[Markup ''/body''], [Markup ''/html''], []])"

lemma head_reads: "list_all2 reads_as PAGE_HEAD (map (read_html Outside) PAGE_HEAD)"
proof -
  have "list_all (\<lambda>l. mode_after Outside l = Outside) PAGE_HEAD" by code_simp
  then show ?thesis by (simp add: list_all2_conv_all_nth list_all_length reads_as_def)
qed

lemma counts_read:
  assumes "harmless a" "harmless b" "harmless c" "harmless d"
  shows "reads_as (a @ counted k @ b @ counted m @ c @ counted n @ d) (shown (a @ counted k @ b @ counted m @ c @ counted n @ d))"
  unfolding shown_append by (intro reads_as_append harmless_reads assms) (simp_all add: counted_def int_text_harmless)

text \<open>
  C38. The trace page shows the store and nothing else: a browser reads it as the fixed tags of the page, the counts, and for each record,
  ordered by time, a row with its texts as they are. No text of the store, whatever characters a host put into a name or an
  identifier, becomes a tag, ends a cell or is lost.
\<close>

theorem trace_page_shows_store: "read_html Outside (render_trace_page s) = view_page s"
proof -
  note tables = table_reads [OF _ _ session_row_reads] table_reads [OF _ _ epoch_row_reads] table_reads [OF _ _ other_rows_read(1)]
    table_reads [OF _ _ other_rows_read(2)] table_reads [OF _ _ other_rows_read(3)]
  have rows: "session_row es x \<noteq> []" "epoch_row e \<noteq> []" "task_row t \<noteq> []" "attempt_row a \<noteq> []" "shadow_row r \<noteq> []" for es x e t a r
    by (simp_all add: session_row_def epoch_row_def task_row_def attempt_row_def shadow_row_def row_not_Nil Let_def)
  have tail: "list_all2 reads_as [''</body>'', ''</html>'', []] [[Markup ''/body''], [Markup ''/html''], []]"
    by (simp add: reads_as_def)
  have p: "reads_as ''  Read-only view; refresh to update.'' (shown ''  Read-only view; refresh to update.'')" "reads_as ''</p>'' [Markup ''/p'']"
    by (simp_all add: reads_as_def shown_def)
  have "reads_as (render_trace_page s) (view_page s)"
    unfolding render_trace_page_def view_page_def session_rows_def epoch_rows_def task_rows_def attempt_rows_def shadow_rows_def
    by (intro lines_read list_all2_appendI head_reads tail tables rows reads_as_Cons list.rel_intros counts_read p)
      (simp_all add: harmless_def)
  then show ?thesis by (simp add: reads_as_def)
qed

end
