(* ===== verification/Serving.thy ===== *)
theory Serving
  imports Hosts TraceUi
begin

text \<open>
  The HTTP interface as a whole: how \<^verbatim>\<open>api/app.py\<close> turns the body and the headers of a request into a call of a
  service and its result into an answer, for the control of a task, and a host on the other side of it.

  An answer is its status and its JSON body. The body of a refusal has its code; the message and the flag
  \<^verbatim>\<open>retryable\<close> are left out. The routing of a path to its handler, the transport and the text of the JSON are what
  a client does with a request: they are the hypothesis \<open>carries\<close>.
\<close>

section \<open>Models as JSON\<close>

definition STATUSES :: "(string \<times> task_status) list" where
  "STATUSES =
     [(''draft'', TS_draft), (''planned'', TS_planned), (''queued'', TS_queued), (''running'', TS_running),
      (''waiting_approval'', TS_waiting_approval), (''pause_requested'', TS_pause_requested),
      (''cancel_requested'', TS_cancel_requested), (''paused'', TS_paused), (''completed'', TS_completed),
      (''partial'', TS_partial), (''blocked'', TS_blocked), (''failed'', TS_failed), (''cancelled'', TS_cancelled)]"

definition or_null :: "('a \<Rightarrow> pyval) \<Rightarrow> 'a option \<Rightarrow> pyval" where
  "or_null f x = (case x of None \<Rightarrow> VNone | Some y \<Rightarrow> f y)"

definition acceptance_json :: "acceptance \<Rightarrow> pyval" where
  "acceptance_json a =
     VDict [(''id'', VStr (ac_id a)), (''description'', VStr (ac_description a)), (''required'', VBool (ac_required a))]"

definition workspace_json :: "workspace \<Rightarrow> pyval" where
  "workspace_json w =
     VDict [(''adapter_id'', VStr (ws_adapter_id w)), (''canonical_uri'', VStr (ws_canonical_uri w)),
            (''base_revision'', VStr (ws_base_revision w))]"

definition budgets_json :: "budgets \<Rightarrow> pyval" where
  "budgets_json b =
     VDict [(''max_input_tokens'', or_null VInt (bu_max_input_tokens b)),
            (''max_output_tokens'', or_null VInt (bu_max_output_tokens b)),
            (''max_total_tokens'', or_null VInt (bu_max_total_tokens b)),
            (''max_cost_usd'', or_null VFloat (bu_max_cost_usd b)),
            (''max_wall_time_seconds'', or_null VFloat (bu_max_wall_time_seconds b))]"

text \<open>The text of a time is the parameter \<open>stamp\<close>.\<close>

definition evidence_json :: "(time \<Rightarrow> string) \<Rightarrow> evidence_record \<Rightarrow> pyval" where
  "evidence_json stamp e =
     VDict [(''id'', VStr (ev_id e)), (''requirement_id'', VStr (ev_requirement_id e)),
            (''evidence_type'', VStr (name_of EVIDENCE_TYPES (ev_evidence_type e))),
            (''observation_status'', VStr (name_of OBSERVATIONS (ev_observation_status e))), (''source'', VStr (ev_source e)),
            (''artifact_ref'', or_null VStr (ev_artifact_ref e)), (''child_task_id'', or_null VStr (ev_child_task_id e)),
            (''region'', or_null (\<lambda>r. VDict (region_json r)) (ev_region e)), (''recorded_at'', VStr (stamp (ev_recorded_at e)))]"

definition task_json :: "(time \<Rightarrow> string) \<Rightarrow> parent_task \<Rightarrow> json_object" where
  "task_json stamp t =
     [(''id'', VStr (pt_id t)), (''version'', VInt (pt_version t)),
      (''controller_session_id'', VStr (pt_controller_session_id t)),
      (''request_type'', VStr (name_of REQUEST_TYPES (pt_request_type t))), (''goal'', VStr (pt_goal t)),
      (''acceptance_contract'', VList (map acceptance_json (pt_acceptance_contract t))),
      (''data_classification'', VStr (name_of CLASSIFICATIONS (pt_data_classification t))),
      (''workspace'', workspace_json (pt_workspace t)), (''budgets'', budgets_json (pt_budgets t)),
      (''status'', VStr (name_of STATUSES (pt_status t))), (''plan_id'', or_null VStr (pt_plan_id t)),
      (''child_task_ids'', VList (map VStr (pt_child_task_ids t))),
      (''evidence'', VList (map (evidence_json stamp) (pt_evidence t))),
      (''latest_checkpoint_id'', or_null VStr (pt_latest_checkpoint_id t)), (''created_at'', VStr (stamp (pt_created_at t))),
      (''updated_at'', VStr (stamp (pt_updated_at t)))]"

section \<open>Answers\<close>

record http_reply =
  hr_status :: int
  hr_body :: pyval

definition response_envelope :: "pyval \<Rightarrow> pyval \<Rightarrow> pyval" where
  "response_envelope data version =
     VDict [(''data'', data), (''meta'', VDict [(''request_id'', VStr ''req_local''), (''resource_version'', version)]),
            (''error'', VNone)]"

definition refusal :: "exn \<Rightarrow> http_reply" where
  "refusal e =
     (case e of
        DomainError code status \<Rightarrow> \<lparr>hr_status = int status, hr_body = VDict [(''detail'', VDict [(''code'', VStr code)])]\<rparr>
      | _ \<Rightarrow> \<lparr>hr_status = 500, hr_body = VStr ''Internal Server Error''\<rparr>)"

definition respond :: "int \<Rightarrow> ('w, pyval \<times> pyval) prog \<Rightarrow> 'w \<Rightarrow> http_reply \<times> 'w" where
  "respond status m =
     (\<lambda>s. case m s of
        (Inl e, t) \<Rightarrow> (refusal e, t)
      | (Inr (data, version), t) \<Rightarrow> (\<lparr>hr_status = status, hr_body = response_envelope data version\<rparr>, t))"

text \<open>The handler of a body that does not validate.\<close>

definition accepted :: "'a parsed \<Rightarrow> 'a res" where
  "accepted r = (case r of Inl issues \<Rightarrow> Inl (DomainError (validation_error_code issues) 422) | Inr x \<Rightarrow> Inr x)"

section \<open>The control of a task\<close>

text \<open>The objects of the application, and what a request draws: its identifiers and the time.\<close>

record server =
  srv_hashing :: "event hashing"
  srv_codec :: checkpoint_codec
  srv_usage :: disk_usage
  srv_adapter :: "owner_binder option"
  srv_local :: "string \<Rightarrow> owner_binder option res"
  srv_message :: "exn \<Rightarrow> string"
  srv_digest :: "json_object \<Rightarrow> string"
  srv_stamp :: "time \<Rightarrow> string"

record draws =
  dr_id :: string
  dr_ids :: "nat \<Rightarrow> fresh_ids"
  dr_now :: time

definition action_name :: "control_action \<Rightarrow> string" where
  "action_name a = (case a of Execute \<Rightarrow> ''execute'' | Pause \<Rightarrow> ''pause'' | Resume \<Rightarrow> ''resume'' | Cancel \<Rightarrow> ''cancel'')"

definition control_path :: "string \<Rightarrow> control_action \<Rightarrow> string" where
  "control_path task_id a = ''/v1/tasks/'' @ task_id @ ''/'' @ action_name a"

definition control_payload :: "int \<Rightarrow> string option \<Rightarrow> json_object" where
  "control_payload expected reason = [(''expected_version'', VInt expected), (''reason'', or_null VStr reason)]"

text \<open>\<^verbatim>\<open>ParentTask.model_validate(previous["event"]["data"])\<close>\<close>

definition task_of_event :: "event \<Rightarrow> parent_task res" where
  "task_of_event e = (case e of TaskCreated t \<Rightarrow> Inr t | TaskUpdated t \<Rightarrow> Inr t | _ \<Rightarrow> Inl (ValueError ''invalid''))"

definition task_of_answer :: "parent_task answer \<Rightarrow> parent_task res" where
  "task_of_answer a =
     (case a of
        Answered t \<Rightarrow> Inr t
      | Replayed (OneEvent e) \<Rightarrow> task_of_event e
      | Replayed (ManyEvents _) \<Rightarrow> Inl KeyError)"

definition control_request_of :: "server \<Rightarrow> string option \<Rightarrow> string \<Rightarrow> control_action \<Rightarrow> int \<Rightarrow> string option \<Rightarrow> string option \<Rightarrow> http_request" where
  "control_request_of S tenant task_id action expected reason key =
     \<lparr>hq_tenant = tenant, hq_path = control_path task_id action, hq_key = key,
      hq_hash = srv_digest S (control_payload expected reason)\<rparr>"

definition control_handler ::
    "server \<Rightarrow> draws \<Rightarrow> string option \<Rightarrow> string \<Rightarrow> control_action \<Rightarrow> int \<Rightarrow> string option \<Rightarrow> string option \<Rightarrow> (runtime, parent_task) prog" where
  "control_handler S D tenant task_id action expected reason key =
     keyed_by (control_request_of S tenant task_id action expected reason key) (\<lambda>idem.
       bind (get (check_idempotency idem)) (\<lambda>checked. andthen (lift (map_sum id (\<lambda>_. ()) checked))
       (in_try (srv_message S)
         (bind (control_task (srv_hashing S) (srv_codec S) (srv_usage S) (srv_adapter S) (srv_local S) (dr_ids D) task_id action
                  expected (dr_id D) idem (dr_now D))
           (\<lambda>a. lift (task_of_answer a))))))"

definition control_endpoint ::
    "server \<Rightarrow> draws \<Rightarrow> string option \<Rightarrow> string \<Rightarrow> control_action \<Rightarrow> pyval \<Rightarrow> string option \<Rightarrow> runtime \<Rightarrow> http_reply \<times> runtime" where
  "control_endpoint S D tenant task_id action body key =
     respond 202
       (bind (lift (accepted (read_control_task body))) (\<lambda>(expected, reason).
        bind (control_handler S D tenant task_id action expected reason key) (\<lambda>v.
        ret (VDict (task_json (srv_stamp S) v), VInt (pt_version v)))))"

section \<open>The client of the host\<close>

text \<open>
  A client carries a request to its handler: it hands over the status of the answer, and a text that the decoder
  reads as the body if the request succeeded.
\<close>

definition carries ::
    "'w http_client \<Rightarrow> decoder \<Rightarrow> string \<Rightarrow> pyval \<Rightarrow> string \<Rightarrow> ('w \<Rightarrow> http_reply \<times> 'w) \<Rightarrow> 'w \<Rightarrow> bool" where
  "carries C decode url body key handler w \<longleftrightarrow>
     (case handler w of (r, w') \<Rightarrow>
        \<exists>text. hc_post C url body key w = (Inr \<lparr>ha_status = hr_status r, ha_text = text\<rparr>, w') \<and>
          (200 \<le> hr_status r \<and> hr_status r < 300 \<longrightarrow> decode text = Some (hr_body r)))"

lemma carried_success:
  assumes "carries C decode (rstrip_slash base @ path) body key handler w" and "httpx_post C base decode path body key w = (Inr v, w')"
  obtains r where "handler w = (r, w')" and "v = hr_body r" and "200 \<le> hr_status r \<and> hr_status r < 300"
  using assms by (auto simp: carries_def httpx_post_def prog_simps raise_for_status_def split: prod.splits if_splits option.splits)

lemma carried_run:
  assumes "carries C decode (rstrip_slash base @ path) body key handler w" and "handler w = (r, w')"
  shows "httpx_post C base decode path body key w =
    ((if 200 \<le> hr_status r \<and> hr_status r < 300 then Inr (hr_body r) else Inl (HTTPStatusError (hr_status r))), w')"
  using assms by (auto simp: carries_def httpx_post_def bind_def andthen_def raise_for_status_def)


section \<open>What a control request does\<close>

lemma control_task_moves:
  assumes "a \<noteq> Execute"
  shows "control_task H C du ad lo ids i a n c key now s = control_transition H C du i a n c key now s"
proof (cases "check_idempotency key s")
  case (Inl e)
  then show ?thesis by (simp add: control_task_def control_transition_def bind_def)
next
  case (Inr old)
  have "bind (ret None) f = f None" for f :: "_ \<Rightarrow> (runtime, parent_task answer) prog" by (rule bind_ret)
  obtain r t where "control_transition H C du i a n c key now s = (r, t)" by fastforce
  then show ?thesis using Inr assms by (cases r) (simp_all add: control_task_def bind_def andthen_def)
qed

lemma conclude_control_index:
  assumes "conclude_control H C du u target i (Some (k, h)) s = (Inr v, t)"
  shows "check_idempotency (Some (k, h)) t = Inr (Some (OneEvent (TaskUpdated v)))"
  using assms unfolding conclude_control_def by (auto simp: prog_simps Let_def dest: commit_index split: if_splits)

lemma control_transition_cases:
  assumes "control_transition H C du i a n c (Some (k, h)) now s = (Inr x, t)"
  obtains (old) r where "x = Replayed r" and "check_idempotency (Some (k, h)) s = Inr (Some r)" and "t = s"
    | (new) v where "x = Answered v" and "check_idempotency (Some (k, h)) t = Inr (Some (OneEvent (TaskUpdated v)))"
proof (cases x)
  case (Replayed r)
  have "check_idempotency (Some (k, h)) s = Inr (Some r) \<and> t = s"
    using assms unfolding control_transition_def Replayed
    by (elim bind_InrE) (auto simp: get_run lift_run ret_run raise_run elim!: bind_InrE andthen_InrE split: option.splits if_splits)
  with Replayed that(1) show ?thesis by auto
next
  case (Answered v)
  from assms [unfolded Answered] obtain u r where "conclude_control H C du u (control_target a) c (Some (k, h)) r = (Inr v, t)"
    by (rule control_transition_Inr)
  then show ?thesis using Answered conclude_control_index that(2) by blast
qed

lemma control_transition_again:
  "check_idempotency key s = Inr (Some r) \<Longrightarrow> control_transition H C du i a n c key now s = (Inr (Replayed r), s)"
  by (simp add: control_transition_def bind_def)

lemma control_transition_stale:
  "check_idempotency key s = Inr None \<Longrightarrow> dget (st_tasks s) i = Some tk \<Longrightarrow> pt_version tk \<noteq> n \<Longrightarrow>
   control_transition H C du i a n c key now s = (Inl (DomainError ''version_conflict'' 409), s)"
  by (simp add: control_transition_def bind_def andthen_def)

lemma control_request_hash: "hq_hash (control_request_of S tenant i a n reason key) = srv_digest S (control_payload n reason)"
  by (simp add: control_request_of_def)

lemma control_handler_Inr:
  assumes "control_handler S D tenant i a n reason key s = (Inr v, t)" and "a \<noteq> Execute"
  obtains k x where "idem_key_of (control_request_of S tenant i a n reason key) = Inr k"
    and "control_transition (srv_hashing S) (srv_codec S) (srv_usage S) i a n (dr_id D)
           (Some (k, srv_digest S (control_payload n reason))) (dr_now D) s = (Inr x, t)"
    and "task_of_answer x = Inr v"
  using assms
  by (auto simp: control_handler_def prog_simps control_task_moves control_request_hash)

lemma control_handler_again:
  assumes "idem_key_of (control_request_of S tenant i a n reason key) = Inr k" and "a \<noteq> Execute"
    and "check_idempotency (Some (k, srv_digest S (control_payload n reason))) s = Inr (Some r)" and "task_of_answer (Replayed r) = Inr v"
  shows "control_handler S D tenant i a n reason key s = (Inr v, s)"
  using assms control_transition_again [OF assms(3)]
  by (simp add: control_handler_def keyed_by_run [OF assms(1)] control_request_hash bind_def andthen_def in_try_def control_task_moves)

lemma control_handler_first:
  assumes "idem_key_of (control_request_of S tenant i a n reason key) = Inr k" and "a \<noteq> Execute"
    and "check_idempotency (Some (k, srv_digest S (control_payload n reason))) s = Inr None"
    and "control_transition (srv_hashing S) (srv_codec S) (srv_usage S) i a n (dr_id D)
           (Some (k, srv_digest S (control_payload n reason))) (dr_now D) s = (Inr (Answered v), t)"
  shows "control_handler S D tenant i a n reason key s = (Inr v, t)"
  using assms
  by (simp add: control_handler_def keyed_by_run [OF assms(1)] control_request_hash bind_def andthen_def in_try_def
      control_task_moves task_of_answer_def)

lemma control_handler_stale:
  assumes "idem_key_of (control_request_of S tenant i a n reason key) = Inr k" and "a \<noteq> Execute"
    and "check_idempotency (Some (k, srv_digest S (control_payload n reason))) s = Inr None"
    and "dget (st_tasks s) i = Some tk" and "pt_version tk \<noteq> n"
  shows "control_handler S D tenant i a n reason key s = (Inl (DomainError ''version_conflict'' 409), s)"
  using assms control_transition_stale [OF assms(3-5)]
  by (simp add: control_handler_def keyed_by_run [OF assms(1)] control_request_hash bind_def andthen_def in_try_def
      control_task_moves handle_error_def)

lemma control_handler_conflict:
  assumes "idem_key_of (control_request_of S tenant i a n reason key) = Inr k"
    and "dget (index_of s) k = Some (h, q)" and "h \<noteq> srv_digest S (control_payload n reason)"
  shows "control_handler S D tenant i a n reason key s = (Inl (JournalError ''idempotency_conflict''), s)"
  using assms(2,3)
  by (simp add: control_handler_def keyed_by_run [OF assms(1)] control_request_hash bind_def andthen_def check_idempotency_def
      idempotent_result_def index_of_def)

lemma read_version: "read_control_task (VDict [(''expected_version'', v)]) =
    (case strict_int 1 v of Inl e \<Rightarrow> below (VStr ''expected_version'') (Inl e) | Inr n \<Rightarrow> Inr (n, None))"
  by (auto simp: read_control_task_def object_of_def closed_to_def required_def optional_def below_def ap_def split: sum.splits)

lemma control_endpoint_run:
  assumes "control_handler S D tenant i a n None key s = (r, t)" and "1 \<le> n"
  shows "control_endpoint S D tenant i a (VDict [(''expected_version'', VInt n)]) key s =
    (case r of
       Inl e \<Rightarrow> (refusal e, t)
     | Inr v \<Rightarrow> (\<lparr>hr_status = 202, hr_body = response_envelope (VDict (task_json (srv_stamp S) v)) (VInt (pt_version v))\<rparr>, t))"
proof -
  have "read_control_task (VDict [(''expected_version'', VInt n)]) = Inr (n, None)"
    using assms(2) by (simp add: read_version strict_int_def)
  with assms(1) show ?thesis
    by (simp add: control_endpoint_def respond_def accepted_def bind_def split: sum.split)
qed

lemma refusal_has_no_data [simp]: "item (hr_body (refusal e)) ''data'' \<noteq> Inr x"
  by (cases e) (simp_all add: refusal_def item_def)

lemma item_VDict: "item (VDict d) k = (case dget d k of None \<Rightarrow> Inl KeyError | Some x \<Rightarrow> Inr x)"
  by (simp add: item_def)

lemma response_data [simp]: "item (response_envelope data version) ''data'' = Inr data"
  by (simp add: response_envelope_def item_def)

lemma task_json_fields [simp]:
  "dget (task_json stamp v) ''status'' = Some (VStr (name_of STATUSES (pt_status v)))"
  "dget (task_json stamp v) ''version'' = Some (VInt (pt_version v))"
  by (simp_all add: task_json_def)

lemma status_name: "name_of STATUSES x = name_of STATUSES y \<longleftrightarrow> x = y"
  by (cases x; cases y) (simp_all add: name_of_def STATUSES_def)

lemma expected_status:
  "a \<noteq> Execute \<Longrightarrow> dget EXPECTED_STATUS (action_name a) = Some (name_of STATUSES (control_target a))"
  by (cases a) (simp_all add: EXPECTED_STATUS_def action_name_def name_of_def STATUSES_def control_target_def)

section \<open>A host controls a task\<close>

text \<open>What a control request that succeeds has done, the first time or again.\<close>

definition moved_task ::
    "event hashing \<Rightarrow> checkpoint_codec \<Rightarrow> string \<Rightarrow> control_action \<Rightarrow> int \<Rightarrow> string \<Rightarrow> time \<Rightarrow> parent_task \<Rightarrow> runtime \<Rightarrow> runtime \<Rightarrow> bool" where
  "moved_task H C i a n c now v s t \<longleftrightarrow>
     (\<exists>tk cs m. dget (st_tasks s) i = Some tk \<and> pt_version tk = n \<and>
        dget (st_sessions s) (pt_controller_session_id tk) = Some cs \<and> startable C a tk cs s \<and> 0 < m \<and>
        v = tk\<lparr>pt_status := control_target a, pt_version := n + m, pt_updated_at := now,
               pt_latest_checkpoint_id := (if rt_checkpoints s = None then pt_latest_checkpoint_id tk else Some c)\<rparr> \<and>
        st_tasks t = dput i v (st_tasks s) \<and> (\<forall>x f io. \<exists>w. restart H x f io t = Inr w \<and> recorded w = recorded t))"

definition answered_before :: "server \<Rightarrow> string \<Rightarrow> control_action \<Rightarrow> int \<Rightarrow> string \<Rightarrow> parent_task \<Rightarrow> runtime \<Rightarrow> bool" where
  "answered_before S i a n key v s \<longleftrightarrow>
     (\<exists>k e. idem_key_of (control_request_of S None i a n None (Some key)) = Inr k \<and>
        dget (index_of s) k = Some (srv_digest S (control_payload n None), OneEvent e) \<and> task_of_event e = Inr v)"

lemma transition_moved:
  assumes "control_transition H C du i a n c key now s = (Inr (Answered v), t)" and "consistent H s" and "keyed pt_id (st_tasks s)"
  shows "moved_task H C i a n c now v s t"
  unfolding moved_task_def using control_transition_moves [OF assms] restart_same by blast

lemma httpx_control:
  assumes "carries C decode (rstrip_slash base @ control_path i a) (VDict [(''expected_version'', n)]) key handler s"
    and "handler s = (r, t)"
  shows "control_request B (httpx_api C base decode) (VStr i) (action_name a) n key s =
    ((if 200 \<le> hr_status r \<and> hr_status r < 300 then Inr (hr_body r) else Inl (HTTPStatusError (hr_status r))), t)"
  using carried_run [OF assms] by (simp add: control_request_def httpx_api_def control_path_def py_str_def)

text \<open>A success of the host is a success of the server: a refusal has no data, whatever its status.\<close>

lemma host_control_success:
  assumes "a \<noteq> Execute" and "1 \<le> n"
    and carried: "carries C decode (rstrip_slash base @ control_path i a) (VDict [(''expected_version'', VInt n)]) key
      (control_endpoint S D None i a (VDict [(''expected_version'', VInt n)]) (Some key)) s"
  shows "host_control B (httpx_api C base decode) \<lparr>th_task_id = VStr i, th_version = VInt n\<rparr> (action_name a) key s =
      (Inr (data, handle), t) \<longleftrightarrow>
    (\<exists>v. control_handler S D None i a n None (Some key) s = (Inr v, t) \<and> pt_status v = control_target a \<and>
       data = VDict (task_json (srv_stamp S) v) \<and> handle = \<lparr>th_task_id = VStr i, th_version = VInt (pt_version v)\<rparr>)"
proof -
  obtain r u where run: "control_handler S D None i a n None (Some key) s = (r, u)" by fastforce
  note ends = control_endpoint_run [OF run assms(2)]
  show ?thesis
  proof (cases r)
    case (Inl e)
    with ends have "control_endpoint S D None i a (VDict [(''expected_version'', VInt n)]) (Some key) s = (refusal e, u)" by simp
    from httpx_control [OF carried this, of B] run Inl show ?thesis
      by (auto simp: host_control_def prog_simps lift_run split: if_splits)
  next
    case (Inr v)
    with ends have "control_endpoint S D None i a (VDict [(''expected_version'', VInt n)]) (Some key) s =
      (\<lparr>hr_status = 202, hr_body = response_envelope (VDict (task_json (srv_stamp S) v)) (VInt (pt_version v))\<rparr>, u)" by simp
    from httpx_control [OF carried this, of B] run Inr expected_status [OF assms(1)] show ?thesis
      by (auto simp: host_control_def prog_simps lift_run get_or_def status_name item_VDict)
  qed
qed

text \<open>
  C40. A control of a host reaches the store, and the host knows what it did. If its pause, resume or cancel succeeds,
  the handle has the version of the task in the answer, and either the server has moved the task to
  the status of the action by the state machine, durably, or the request is a repetition that is answered by the recorded
  event and changes nothing. Sent again with the same key and the handle it had before, the request
  succeeds with the same answer and changes nothing. A handle that is behind the task is refused
  with 409, and a key that was used for another payload with 500 (the lookup is outside the \<^verbatim>\<open>try\<close> block); neither
  changes anything.
\<close>

theorem host_control_reaches_store:
  assumes a: "a \<noteq> Execute" and n: "1 \<le> n" and s: "consistent (srv_hashing S) s" "keyed pt_id (st_tasks s)"
    and carried: "carries C decode (rstrip_slash base @ control_path i a) (VDict [(''expected_version'', VInt n)]) key
      (control_endpoint S D None i a (VDict [(''expected_version'', VInt n)]) (Some key)) s"
    and run: "host_control B (httpx_api C base decode) \<lparr>th_task_id = VStr i, th_version = VInt n\<rparr> (action_name a) key s = (r, t)"
  shows "(\<forall>data handle. r = Inr (data, handle) \<longrightarrow>
      (\<exists>v. data = VDict (task_json (srv_stamp S) v) \<and> handle = \<lparr>th_task_id = VStr i, th_version = VInt (pt_version v)\<rparr> \<and>
         pt_status v = control_target a \<and>
         (moved_task (srv_hashing S) (srv_codec S) i a n (dr_id D) (dr_now D) v s t \<or> t = s \<and> answered_before S i a n key v s)) \<and>
      (\<forall>E. carries C decode (rstrip_slash base @ control_path i a) (VDict [(''expected_version'', VInt n)]) key
          (control_endpoint S E None i a (VDict [(''expected_version'', VInt n)]) (Some key)) t \<longrightarrow>
        host_control B (httpx_api C base decode) \<lparr>th_task_id = VStr i, th_version = VInt n\<rparr> (action_name a) key t = (r, t))) \<and>
    (\<forall>k tk. idem_key_of (control_request_of S None i a n None (Some key)) = Inr k \<and> dget (index_of s) k = None \<and>
        dget (st_tasks s) i = Some tk \<and> pt_version tk \<noteq> n \<longrightarrow> r = Inl (HTTPStatusError 409) \<and> t = s) \<and>
    (\<forall>k h q. idem_key_of (control_request_of S None i a n None (Some key)) = Inr k \<and> dget (index_of s) k = Some (h, q) \<and>
        h \<noteq> srv_digest S (control_payload n None) \<longrightarrow> r = Inl (HTTPStatusError 500) \<and> t = s)"
proof (intro conjI allI impI)
  fix data handle
  assume r: "r = Inr (data, handle)"
  from run r host_control_success [OF a n carried] obtain v where
    v: "control_handler S D None i a n None (Some key) s = (Inr v, t)" "pt_status v = control_target a"
      "data = VDict (task_json (srv_stamp S) v)" "handle = \<lparr>th_task_id = VStr i, th_version = VInt (pt_version v)\<rparr>" by metis
  from control_handler_Inr [OF v(1) a] obtain k x where
    k: "idem_key_of (control_request_of S None i a n None (Some key)) = Inr k"
    and tr: "control_transition (srv_hashing S) (srv_codec S) (srv_usage S) i a n (dr_id D)
           (Some (k, srv_digest S (control_payload n None))) (dr_now D) s = (Inr x, t)"
    and x: "task_of_answer x = Inr v" by metis
  have out: "(moved_task (srv_hashing S) (srv_codec S) i a n (dr_id D) (dr_now D) v s t \<or> t = s \<and> answered_before S i a n key v s) \<and>
      (\<exists>q. check_idempotency (Some (k, srv_digest S (control_payload n None))) t = Inr (Some q) \<and> task_of_answer (Replayed q) = Inr v)"
    using tr
  proof (cases rule: control_transition_cases)
    case (old q)
    then show ?thesis using x k by (auto simp: answered_before_def check_idempotency_def idempotent_result_def index_of_def task_of_answer_def
        split: option.splits prod.splits if_splits response.splits)
  next
    case (new w)
    then show ?thesis using x tr transition_moved [OF _ s] by (auto simp: task_of_answer_def task_of_event_def)
  qed
  then show "\<exists>v. data = VDict (task_json (srv_stamp S) v) \<and> handle = \<lparr>th_task_id = VStr i, th_version = VInt (pt_version v)\<rparr> \<and>
         pt_status v = control_target a \<and>
         (moved_task (srv_hashing S) (srv_codec S) i a n (dr_id D) (dr_now D) v s t \<or> t = s \<and> answered_before S i a n key v s)"
    using v by blast
  fix E
  assume "carries C decode (rstrip_slash base @ control_path i a) (VDict [(''expected_version'', VInt n)]) key
          (control_endpoint S E None i a (VDict [(''expected_version'', VInt n)]) (Some key)) t"
  from host_control_success [OF a n this] out control_handler_again [OF k a] v(2-4) r
  show "host_control B (httpx_api C base decode) \<lparr>th_task_id = VStr i, th_version = VInt n\<rparr> (action_name a) key t = (r, t)"
    by metis
next
  fix k tk
  assume stale: "idem_key_of (control_request_of S None i a n None (Some key)) = Inr k \<and> dget (index_of s) k = None \<and>
        dget (st_tasks s) i = Some tk \<and> pt_version tk \<noteq> n"
  then have "check_idempotency (Some (k, srv_digest S (control_payload n None))) s = Inr None"
    by (simp add: check_idempotency_def idempotent_result_def index_of_def)
  with stale have "control_handler S D None i a n None (Some key) s = (Inl (DomainError ''version_conflict'' 409), s)"
    using control_handler_stale a by blast
  from httpx_control [OF carried control_endpoint_run [OF this n, simplified], of B] run
  show "r = Inl (HTTPStatusError 409)" and "t = s"
    by (simp_all add: host_control_def bind_def refusal_def)
next
  fix k h q
  assume "idem_key_of (control_request_of S None i a n None (Some key)) = Inr k \<and> dget (index_of s) k = Some (h, q) \<and>
      h \<noteq> srv_digest S (control_payload n None)"
  then have "control_handler S D None i a n None (Some key) s = (Inl (JournalError ''idempotency_conflict''), s)"
    using control_handler_conflict by blast
  from httpx_control [OF carried control_endpoint_run [OF this n, simplified], of B] run
  show "r = Inl (HTTPStatusError 500)" and "t = s"
    by (simp_all add: host_control_def bind_def refusal_def)
qed

definition sample_server :: server where
  "sample_server =
     \<lparr>srv_hashing = unit_hashing, srv_codec = plain_codec, srv_usage = \<lparr>du_used = None, du_free = 9\<rparr>, srv_adapter = None,
      srv_local = (\<lambda>_. Inr None), srv_message = (\<lambda>_. []), srv_digest = (\<lambda>_. ''h''), srv_stamp = int_text\<rparr>"

lemma sample_server_select:
  "srv_hashing sample_server = unit_hashing" "srv_codec sample_server = plain_codec"
  "srv_usage sample_server = \<lparr>du_used = None, du_free = 9\<rparr>" "srv_digest sample_server x = ''h''" "srv_stamp sample_server = int_text"
  by (simp_all add: sample_server_def)

text \<open>A client that reaches the handler of one request, and a decoder that knows its answer.\<close>

definition sample_client :: "(string \<Rightarrow> 'w \<Rightarrow> http_reply \<times> 'w) \<Rightarrow> 'w http_client" where
  "sample_client handler =
     \<lparr>hc_post = (\<lambda>_ _ key w. case handler key w of (r, w') \<Rightarrow> (Inr \<lparr>ha_status = hr_status r, ha_text = ''answer''\<rparr>, w')),
      hc_get = (\<lambda>_ _ w. (Inl OSError, w))\<rparr>"

lemma sample_client_carries: "carries (sample_client handler) (\<lambda>_. Some (hr_body (fst (handler key w)))) url body key (handler key) w"
  by (cases "handler key w") (simp add: carries_def sample_client_def)

lemma host_control_reaches_store_witness:
  "\<exists>(s :: runtime) C decode data handle t.
     host_control plain_builtins (httpx_api C ''http://h/'' decode) \<lparr>th_task_id = VStr ''t'', th_version = VInt 4\<rparr> ''pause'' ''k-1'' s =
       (Inr (data, handle), t) \<and> item data ''status'' = Inr (VStr ''paused'') \<and>
     (\<exists>m. moved_task unit_hashing plain_codec ''t'' Pause 4 ''cp'' 9 m s t)"
proof -
  obtain s :: runtime where s: "consistent unit_hashing s" "st_tasks s = [(''t'', running_task)]"
    "jl_idempotency (st_journal s) = []"
    and go: "\<And>key. \<exists>v t. control_transition unit_hashing plain_codec \<lparr>du_used = None, du_free = 9\<rparr> ''t'' Pause 4 ''cp'' key 9 s =
      (Inr (Answered v), t)"
    using controlled_pause by blast
  have keyed: "keyed pt_id (st_tasks s)" by (simp add: s(2) keyed_def running_task_def)
  obtain ids :: "nat \<Rightarrow> fresh_ids" where True by simp
  let ?D = "\<lparr>dr_id = ''cp'', dr_ids = ids, dr_now = 9\<rparr>"
  let ?body = "VDict [(''expected_version'', VInt 4)]" and ?base = "''http://h/''"
  let ?handler = "\<lambda>key. control_endpoint sample_server ?D None ''t'' Pause ?body (Some key)"
  let ?C = "sample_client ?handler" and ?decode = "\<lambda>_. Some (hr_body (fst (?handler ''k-1'' s)))"
  have key: "idem_key_of (control_request_of sample_server None ''t'' Pause 4 None (Some ''k-1'')) =
      Inr (''default'', control_path ''t'' Pause, ''k-1'')"
    by (simp add: idem_key_of_def control_request_of_def strip_def py_space_def)
  obtain v t where tr: "control_transition unit_hashing plain_codec \<lparr>du_used = None, du_free = 9\<rparr> ''t'' Pause 4 ''cp''
      (Some ((''default'', control_path ''t'' Pause, ''k-1''), ''h'')) 9 s = (Inr (Answered v), t)" using go by blast
  have "check_idempotency (Some ((''default'', control_path ''t'' Pause, ''k-1''), ''h'')) s = Inr None"
    by (simp add: check_idempotency_def idempotent_result_def s(3))
  with tr have "control_handler sample_server ?D None ''t'' Pause 4 None (Some ''k-1'') s = (Inr v, t)"
    by (intro control_handler_first [OF key]) (simp_all add: sample_server_select)
  moreover have "pt_status v = control_target Pause"
    using transition_moved [OF tr s(1) keyed] by (auto simp: moved_task_def)
  moreover have "carries ?C ?decode (rstrip_slash ?base @ control_path ''t'' Pause) ?body ''k-1'' (?handler ''k-1'') s"
    by (rule sample_client_carries)
  ultimately obtain data handle where
    run: "host_control plain_builtins (httpx_api ?C ?base ?decode) \<lparr>th_task_id = VStr ''t'', th_version = VInt 4\<rparr>
      (action_name Pause) ''k-1'' s = (Inr (data, handle), t)"
    using host_control_success [of Pause 4] by (metis control_action.distinct(1) one_le_numeral)
  have "host_control plain_builtins (httpx_api ?C ?base ?decode) \<lparr>th_task_id = VStr ''t'', th_version = VInt 4\<rparr> ''pause'' ''k-1'' s =
      (Inr (data, handle), t)" using run by (simp add: action_name_def)
  moreover obtain w where w: "data = VDict (task_json int_text w)" "pt_status w = TS_paused"
    "moved_task unit_hashing plain_codec ''t'' Pause 4 ''cp'' 9 w s t \<or> t = s \<and> answered_before sample_server ''t'' Pause 4 ''k-1'' w s"
    using host_control_reaches_store [OF _ _ _ keyed sample_client_carries run] s(1)
    by (auto simp: sample_server_select control_target_def)
  moreover have "\<not> answered_before sample_server ''t'' Pause 4 ''k-1'' w s"
    by (simp add: answered_before_def index_of_def s(3))
  ultimately show ?thesis by (fastforce simp: item_VDict name_of_def STATUSES_def)
qed

end
