(* ===== verification/Starting.thy ===== *)
theory Starting
  imports Serving "HOL-Library.Countable"
begin

text \<open>
  How a host starts a task: the handlers of \<^verbatim>\<open>api/app.py\<close> that create a session, register its epoch and create a task,
  from the body of the request to the answer, and \<^verbatim>\<open>AgentScopeHost.create\<close> over them.
\<close>

section \<open>The handlers\<close>

definition session_json :: "(time \<Rightarrow> string) \<Rightarrow> controller_session \<Rightarrow> json_object" where
  "session_json stamp cs =
     [(''id'', VStr (cs_id cs)), (''version'', VInt (cs_version cs)), (''tenant_id'', VStr (cs_tenant_id cs)),
      (''host_session_id'', VStr (cs_host_session_id cs)),
      (''orchestration_mode'', VStr (name_of MODES (cs_orchestration_mode cs))),
      (''active_controller_epoch_id'', or_null VStr (cs_active_controller_epoch_id cs)),
      (''max_active_workers'', VInt (cs_max_active_workers cs)), (''created_at'', VStr (stamp (cs_created_at cs)))]"

definition epoch_json :: "(time \<Rightarrow> string) \<Rightarrow> controller_epoch \<Rightarrow> json_object" where
  "epoch_json stamp e =
     [(''id'', VStr (ce_id e)), (''version'', VInt (ce_version e)),
      (''controller_session_id'', VStr (ce_controller_session_id e)), (''provider_id'', VStr (ce_provider_id e)),
      (''model_id'', VStr (ce_model_id e)), (''model_snapshot'', or_null VStr (ce_model_snapshot e)),
      (''reasoning_effort'', VStr (ce_reasoning_effort e)), (''status'', VStr (epoch_status_value (ce_status e))),
      (''activated_at'', VStr (stamp (ce_activated_at e)))]"

text \<open>The records the services construct from a request.\<close>

definition session_of_request :: "draws \<Rightarrow> create_session_request \<Rightarrow> controller_session" where
  "session_of_request D q =
     \<lparr>cs_id = dr_id D, cs_version = 1, cs_tenant_id = cq_tenant_id q, cs_host_session_id = cq_host_session_id q,
      cs_orchestration_mode = cq_orchestration_mode q, cs_active_controller_epoch_id = None, cs_max_active_workers = 5,
      cs_created_at = dr_now D\<rparr>"

definition epoch_of_request :: "draws \<Rightarrow> string \<Rightarrow> register_epoch_request \<Rightarrow> controller_epoch" where
  "epoch_of_request D session_id q =
     \<lparr>ce_id = dr_id D, ce_version = 1, ce_controller_session_id = session_id, ce_provider_id = eq_provider_id q,
      ce_model_id = eq_model_id q, ce_model_snapshot = eq_model_snapshot q, ce_reasoning_effort = eq_reasoning_effort q,
      ce_status = ES_active, ce_activated_at = dr_now D\<rparr>"

definition task_of_request :: "draws \<Rightarrow> create_task_request \<Rightarrow> parent_task" where
  "task_of_request D q =
     \<lparr>pt_id = dr_id D, pt_version = 1, pt_controller_session_id = tq_controller_session_id q,
      pt_request_type = tq_request_type q, pt_goal = tq_goal q, pt_acceptance_contract = tq_acceptance_contract q,
      pt_data_classification = tq_data_classification q, pt_workspace = tq_workspace q, pt_budgets = tq_budgets q,
      pt_status = TS_draft, pt_plan_id = None, pt_child_task_ids = [], pt_evidence = [], pt_latest_checkpoint_id = None,
      pt_created_at = dr_now D, pt_updated_at = dr_now D\<rparr>"

text \<open>\<^verbatim>\<open>payload.model_dump(mode="json")\<close>: what the digest of a request is taken of.\<close>

definition session_payload_of :: "create_session_request \<Rightarrow> json_object" where
  "session_payload_of q =
     [(''tenant_id'', VStr (cq_tenant_id q)), (''host_session_id'', VStr (cq_host_session_id q)),
      (''orchestration_mode'', VStr (name_of MODES (cq_orchestration_mode q)))]"

definition epoch_payload_of :: "register_epoch_request \<Rightarrow> json_object" where
  "epoch_payload_of q =
     [(''provider_id'', VStr (eq_provider_id q)), (''model_id'', VStr (eq_model_id q)),
      (''model_snapshot'', or_null VStr (eq_model_snapshot q)), (''reasoning_effort'', VStr (eq_reasoning_effort q)),
      (''expected_version'', VInt (eq_expected_version q))]"

definition task_payload_of :: "create_task_request \<Rightarrow> json_object" where
  "task_payload_of q =
     [(''controller_session_id'', VStr (tq_controller_session_id q)),
      (''request_type'', VStr (name_of REQUEST_TYPES (tq_request_type q))), (''goal'', VStr (tq_goal q)),
      (''acceptance_contract'', VList (map acceptance_json (tq_acceptance_contract q))),
      (''data_classification'', VStr (name_of CLASSIFICATIONS (tq_data_classification q))),
      (''workspace'', workspace_json (tq_workspace q)), (''budgets'', budgets_json (tq_budgets q))]"

definition SESSIONS_PATH :: string where
  "SESSIONS_PATH = ''/v1/controller-sessions''"

definition epochs_path :: "string \<Rightarrow> string" where
  "epochs_path session_id = ''/v1/controller-sessions/'' @ session_id @ ''/epochs''"

definition TASKS_PATH :: string where
  "TASKS_PATH = ''/v1/tasks''"

definition posted :: "server \<Rightarrow> string option \<Rightarrow> string \<Rightarrow> json_object \<Rightarrow> string option \<Rightarrow> http_request" where
  "posted S tenant path payload key =
     \<lparr>hq_tenant = tenant, hq_path = path, hq_key = key, hq_hash = srv_digest S payload\<rparr>"

definition session_of_answer :: "controller_session answer \<Rightarrow> controller_session res" where
  "session_of_answer a =
     (case a of
        Answered cs \<Rightarrow> Inr cs
      | Replayed (OneEvent (SessionCreated cs)) \<Rightarrow> Inr cs
      | Replayed (OneEvent _) \<Rightarrow> Inl (ValueError ''invalid'')
      | Replayed (ManyEvents _) \<Rightarrow> Inl KeyError)"

definition session_endpoint ::
    "server \<Rightarrow> draws \<Rightarrow> string option \<Rightarrow> pyval \<Rightarrow> string option \<Rightarrow> runtime \<Rightarrow> http_reply \<times> runtime" where
  "session_endpoint S D tenant body key =
     respond 201
       (bind (lift (accepted (read_create_session body))) (\<lambda>q.
        bind (post_session (srv_hashing S) (srv_message S) (posted S tenant SESSIONS_PATH (session_payload_of q) key)
                (session_of_request D q)) (\<lambda>a.
        bind (in_try (srv_message S) (lift (session_of_answer a))) (\<lambda>cs.
        ret (VDict (session_json (srv_stamp S) cs), VInt (cs_version cs))))))"

definition epoch_endpoint ::
    "server \<Rightarrow> draws \<Rightarrow> string option \<Rightarrow> string \<Rightarrow> pyval \<Rightarrow> string option \<Rightarrow> runtime \<Rightarrow> http_reply \<times> runtime" where
  "epoch_endpoint S D tenant session_id body key =
     respond 201
       (bind (lift (accepted (read_register_epoch body))) (\<lambda>q.
        bind (post_epoch (srv_hashing S) (srv_message S) (posted S tenant (epochs_path session_id) (epoch_payload_of q) key)
                session_id (epoch_of_request D session_id q) (eq_expected_version q)) (\<lambda>e.
        ret (VDict (epoch_json (srv_stamp S) e), VInt (ce_version e)))))"

definition task_endpoint ::
    "server \<Rightarrow> pyfloat reader \<Rightarrow> draws \<Rightarrow> string option \<Rightarrow> pyval \<Rightarrow> string option \<Rightarrow> runtime \<Rightarrow> http_reply \<times> runtime" where
  "task_endpoint S float_of D tenant body key =
     respond 201
       (bind (lift (accepted (read_create_task float_of body))) (\<lambda>q.
        bind (post_task (srv_hashing S) (srv_message S) (posted S tenant TASKS_PATH (task_payload_of q) key)
                (task_of_request D q)) (\<lambda>a.
        bind (in_try (srv_message S) (lift (task_of_answer a))) (\<lambda>t.
        ret (VDict (task_json (srv_stamp S) t), VInt (pt_version t))))))"

text \<open>A client that reaches these handlers: the server draws anew for every request.\<close>

definition serves_start ::
    "'w http_client \<Rightarrow> decoder \<Rightarrow> string \<Rightarrow> (pyval \<Rightarrow> string option \<Rightarrow> 'w \<Rightarrow> http_reply \<times> 'w) \<Rightarrow>
     (string \<Rightarrow> pyval \<Rightarrow> string option \<Rightarrow> 'w \<Rightarrow> http_reply \<times> 'w) \<Rightarrow> (pyval \<Rightarrow> string option \<Rightarrow> 'w \<Rightarrow> http_reply \<times> 'w) \<Rightarrow>
     (string \<Rightarrow> pyval \<Rightarrow> string option \<Rightarrow> 'w \<Rightarrow> http_reply \<times> 'w) \<Rightarrow> bool" where
  "serves_start C decode base sessions epochs tasks execute \<longleftrightarrow>
     (\<forall>body key w.
        carries C decode (rstrip_slash base @ SESSIONS_PATH) body key (sessions body (Some key)) w \<and>
        (\<forall>i. carries C decode (rstrip_slash base @ epochs_path i) body key (epochs i body (Some key)) w) \<and>
        carries C decode (rstrip_slash base @ TASKS_PATH) body key (tasks body (Some key)) w \<and>
        (\<forall>i. carries C decode (rstrip_slash base @ control_path i Execute) body key (execute i body (Some key)) w))"

section \<open>What the handlers do\<close>

lemma carried_data:
  assumes "carries C decode (rstrip_slash base @ path) body key (respond status m) w"
    and "httpx_post C base decode path body key w = (Inr v, w')" and "item v ''data'' = Inr data"
  obtains version where "m w = (Inr (data, version), w')"
proof -
  from assms(1,2) obtain r where r: "respond status m w = (r, w')" "v = hr_body r" by (rule carried_success)
  obtain x u where x: "m w = (x, u)" by fastforce
  with r assms(3) that show ?thesis by (cases x) (auto simp: respond_def)
qed

lemma commit_index_frame:
  fixes s :: "'r store_scheme"
  assumes "commit H e (Some (k, h)) s = (Inr (), t)"
  shows "index_of t = dput k (h, OneEvent e) (index_of s)"
proof -
  obtain j where "append_frame H [e] [] (Some (k, h, OneEvent e)) [] 0 (st_journal s) = (Inr (), j)" "t = s\<lparr>st_journal := j\<rparr>"
    using assms by (auto simp: commit_def commit_frame_def on_journal_Inr)
  with append_success [OF this(1)] show ?thesis by (simp add: index_of_def)
qed

text \<open>No request was answered under this key.\<close>

definition fresh_key :: "string \<Rightarrow> 'r store_scheme \<Rightarrow> bool" where
  "fresh_key key s \<longleftrightarrow> (\<forall>tenant path. dget (index_of s) (tenant, path, key) = None)"

lemma fresh_after: "fresh_key key s \<Longrightarrow> index_of t = dput (a, b, c) x (index_of s) \<Longrightarrow> c \<noteq> key \<Longrightarrow> fresh_key key t"
  by (simp add: fresh_key_def)

lemma fresh_check: "fresh_key key s \<Longrightarrow> check_idempotency (Some ((a, b, key), h)) s = Inr None"
  by (simp add: fresh_key_def check_idempotency_def idempotent_result_def index_of_def)

lemma posted_key:
  "idem_key_of (posted S tenant path payload (Some key)) = Inr k \<Longrightarrow> k = (case tenant of None \<Rightarrow> ''default'' | Some t \<Rightarrow> t, path, key)"
  "hq_hash (posted S tenant path payload key') = srv_digest S payload"
  by (cases k) (auto simp: idem_key_accepted posted_def)

lemma accepted_Inr: "accepted r = Inr x \<longleftrightarrow> r = Inr x"
  by (auto simp: accepted_def split: sum.splits)

text \<open>What a commit that answers a request leaves: the updated store, consistent, and the key taken.\<close>

definition committed :: "event hashing \<Rightarrow> string \<Rightarrow> runtime \<Rightarrow> runtime \<Rightarrow> runtime \<Rightarrow> bool" where
  "committed H key s u t \<longleftrightarrow>
     (\<exists>j. t = u\<lparr>st_journal := j\<rparr>) \<and> (consistent H s \<longrightarrow> consistent H t) \<and> (\<forall>k. k \<noteq> key \<and> fresh_key k s \<longrightarrow> fresh_key k t)"

lemma committed_fresh: "committed H key s u t \<Longrightarrow> fresh_key k s \<Longrightarrow> k \<noteq> key \<Longrightarrow> fresh_key k t"
  by (simp add: committed_def)

lemma commit_committed:
  assumes "commit H e (Some ((a, b, key), h)) u = (Inr (), t)" and "apply_event e s = Inr u"
  shows "committed H key s u t"
proof -
  have "index_of u = index_of s" using apply_event_journal [OF assms(2)] by (simp add: index_of_def)
  with commit_index_frame [OF assms(1)] have i: "index_of t = dput (a, b, key) (h, OneEvent e) (index_of s)" by simp
  show ?thesis
    using commit_view [OF assms(1)] consistent_update_commit [OF _ assms(2,1)] fresh_after [OF _ i]
    by (auto simp: committed_def)
qed

lemma session_posted:
  assumes "carries C decode (rstrip_slash base @ SESSIONS_PATH) body key (session_endpoint S D None body (Some key)) s"
    and "httpx_post C base decode SESSIONS_PATH body key s = (Inr v, t)" and "item v ''data'' = Inr data" and "fresh_key key s"
  obtains q where "read_create_session body = Inr q" and "data = VDict (session_json (srv_stamp S) (session_of_request D q))"
    and "committed (srv_hashing S) key s (put_session (session_of_request D q) s) t"
proof -
  note endpoint = session_endpoint_def [of S D None body "Some key"]
  from carried_data [OF assms(1) [unfolded endpoint] assms(2,3)] obtain version where
    run: "bind (lift (accepted (read_create_session body))) (\<lambda>q.
        bind (post_session (srv_hashing S) (srv_message S) (posted S None SESSIONS_PATH (session_payload_of q) (Some key))
                (session_of_request D q)) (\<lambda>a.
        bind (in_try (srv_message S) (lift (session_of_answer a))) (\<lambda>cs.
        ret (VDict (session_json (srv_stamp S) cs), VInt (cs_version cs))))) s = (Inr (data, version), t)" by blast
  then obtain q a cs where q: "read_create_session body = Inr q"
    and post: "post_session (srv_hashing S) (srv_message S) (posted S None SESSIONS_PATH (session_payload_of q) (Some key))
                (session_of_request D q) s = (Inr a, t)"
    and cs: "session_of_answer a = Inr cs" "data = VDict (session_json (srv_stamp S) cs)"
    by (auto simp: prog_simps accepted_Inr)
  from post obtain k where k: "idem_key_of (posted S None SESSIONS_PATH (session_payload_of q) (Some key)) = Inr k"
    and "create_session (srv_hashing S) (session_of_request D q) (Some (k, srv_digest S (session_payload_of q))) s = (Inr a, t)"
    by (auto simp: post_session_def in_try_Inr keyed_by_Inr posted_key)
  then have "commit (srv_hashing S) (SessionCreated (session_of_request D q)) (Some (k, srv_digest S (session_payload_of q)))
      (put_session (session_of_request D q) s) = (Inr (), t)" and "a = Answered (session_of_request D q)"
    using fresh_check [OF assms(4)] by (auto simp: create_session_def prog_simps posted_key(1) [OF k])
  then show ?thesis
    using q cs posted_key(1) [OF k] by (intro that [of q]) (auto simp: session_of_answer_def intro: commit_committed)
qed

lemma epoch_posted:
  fixes s :: runtime
  assumes "carries C decode (rstrip_slash base @ epochs_path i) body key (epoch_endpoint S D None i body (Some key)) s"
    and "httpx_post C base decode (epochs_path i) body key s = (Inr v, t)" and "item v ''data'' = Inr data"
  obtains q cs where "read_register_epoch body = Inr q" and "data = VDict (epoch_json (srv_stamp S) (epoch_of_request D i q))"
    and "dget (st_sessions s) i = Some cs" and "cs_version cs = eq_expected_version q"
    and "committed (srv_hashing S) key s
           (put_session (activated cs (epoch_of_request D i q)) (put_epoch (epoch_of_request D i q) s)) t"
proof -
  note endpoint = epoch_endpoint_def [of S D None i body "Some key"]
  from carried_data [OF assms(1) [unfolded endpoint] assms(2,3)] obtain version where
    run: "bind (lift (accepted (read_register_epoch body))) (\<lambda>q.
        bind (post_epoch (srv_hashing S) (srv_message S) (posted S None (epochs_path i) (epoch_payload_of q) (Some key))
                i (epoch_of_request D i q) (eq_expected_version q)) (\<lambda>e.
        ret (VDict (epoch_json (srv_stamp S) e), VInt (ce_version e)))) s = (Inr (data, version), t)" by blast
  then obtain q e where q: "read_register_epoch body = Inr q" and data: "data = VDict (epoch_json (srv_stamp S) e)"
    and post: "post_epoch (srv_hashing S) (srv_message S) (posted S None (epochs_path i) (epoch_payload_of q) (Some key))
                i (epoch_of_request D i q) (eq_expected_version q) s = (Inr e, t)"
    by (auto simp: prog_simps accepted_Inr)
  from post obtain k where k: "idem_key_of (posted S None (epochs_path i) (epoch_payload_of q) (Some key)) = Inr k"
    and reg: "register_epoch (srv_hashing S) i (epoch_of_request D i q) (eq_expected_version q)
      (Some (k, srv_digest S (epoch_payload_of q))) s = (Inr e, t)"
    by (auto simp: post_epoch_def in_try_Inr keyed_by_Inr posted_key)
  from reg obtain cs where cs: "dget (st_sessions s) i = Some cs"
    by (cases "dget (st_sessions s) i") (auto simp: register_epoch_def prog_simps)
  with reg have "cs_version cs = eq_expected_version q" and e: "e = epoch_of_request D i q"
    and c: "commit (srv_hashing S) (EpochRegistered (epoch_of_request D i q)) (Some (k, srv_digest S (epoch_payload_of q)))
      (put_session (activated cs (epoch_of_request D i q)) (put_epoch (epoch_of_request D i q) s)) = (Inr (), t)"
    by (auto simp: register_epoch_def prog_simps activated_def require_version_def split: if_splits)
  moreover have "dget (st_sessions s) (ce_controller_session_id (epoch_of_request D i q)) = Some cs"
    using cs by (simp add: epoch_of_request_def)
  from commit_committed [OF c [unfolded posted_key(1) [OF k]] apply_activation [OF this]]
  have "committed (srv_hashing S) key s (put_session (activated cs (epoch_of_request D i q)) (put_epoch (epoch_of_request D i q) s)) t" .
  ultimately show ?thesis using that q data cs by blast
qed

lemma task_posted:
  assumes "carries C decode (rstrip_slash base @ TASKS_PATH) body key (task_endpoint S float_of D None body (Some key)) s"
    and "httpx_post C base decode TASKS_PATH body key s = (Inr v, t)" and "item v ''data'' = Inr data" and "fresh_key key s"
  obtains q where "read_create_task float_of body = Inr q" and "data = VDict (task_json (srv_stamp S) (task_of_request D q))"
    and "committed (srv_hashing S) key s (put_task (task_of_request D q) s) t"
proof -
  note endpoint = task_endpoint_def [of S float_of D None body "Some key"]
  from carried_data [OF assms(1) [unfolded endpoint] assms(2,3)] obtain version where
    run: "bind (lift (accepted (read_create_task float_of body))) (\<lambda>q.
        bind (post_task (srv_hashing S) (srv_message S) (posted S None TASKS_PATH (task_payload_of q) (Some key))
                (task_of_request D q)) (\<lambda>a.
        bind (in_try (srv_message S) (lift (task_of_answer a))) (\<lambda>x.
        ret (VDict (task_json (srv_stamp S) x), VInt (pt_version x))))) s = (Inr (data, version), t)" by blast
  then obtain q a x where q: "read_create_task float_of body = Inr q"
    and post: "post_task (srv_hashing S) (srv_message S) (posted S None TASKS_PATH (task_payload_of q) (Some key))
                (task_of_request D q) s = (Inr a, t)"
    and x: "task_of_answer a = Inr x" "data = VDict (task_json (srv_stamp S) x)"
    by (auto simp: prog_simps accepted_Inr)
  from post obtain k where k: "idem_key_of (posted S None TASKS_PATH (task_payload_of q) (Some key)) = Inr k"
    and "create_task (srv_hashing S) (task_of_request D q) (Some (k, srv_digest S (task_payload_of q))) s = (Inr a, t)"
    by (auto simp: post_task_def in_try_Inr keyed_by_Inr posted_key)
  then have "commit (srv_hashing S) (TaskCreated (task_of_request D q)) (Some (k, srv_digest S (task_payload_of q)))
      (put_task (task_of_request D q) s) = (Inr (), t)" and "a = Answered (task_of_request D q)"
    using fresh_check [OF assms(4)] by (auto simp: create_task_def prog_simps posted_key(1) [OF k] split: if_splits)
  then show ?thesis
    using q x posted_key(1) [OF k] by (intro that [of q]) (auto simp: task_of_answer_def intro: commit_committed)
qed

text \<open>An execute of a task without a plan moves the task and queues nothing.\<close>

lemma conclude_control_frame:
  assumes "conclude_control H C du u target c key s = (Inr v, t)"
  shows "st_sessions t = st_sessions s \<and> st_epochs t = st_epochs s"
proof -
  let ?v = "if rt_checkpoints s = None then u else u\<lparr>pt_latest_checkpoint_id := Some c\<rparr>"
  from assms obtain q w where
    q: "on_checkpoints (save_checkpoint C du (control_checkpoint c u target (target_text target))) s = (Inr (), q)"
    and w: "commit H (TaskMoved (pt_id u) target) None (put_task ?v q) = (Inr (), w)"
    and t: "commit H (TaskUpdated ?v) key w = (Inr (), t)"
    unfolding conclude_control_def by (auto simp: prog_simps Let_def split: if_splits)
  have "st_sessions q = st_sessions s \<and> st_epochs q = st_epochs s"
    using q by (cases rule: on_checkpoints_Inr) simp_all
  then show ?thesis using commit_view [OF w] commit_view [OF t] by (auto simp: put_task_def)
qed

lemma execute_frame:
  assumes "control_transition H C du i Execute n c key now s = (Inr (Answered v), t)"
  shows "st_sessions t = st_sessions s \<and> st_epochs t = st_epochs s"
  using assms
proof (rule control_transition_Inr)
  fix tk cs u r
  assume "control_step H C Execute tk cs now s = (Inr u, r)" and "conclude_control H C du u (control_target Execute) c key r = (Inr v, t)"
  moreover from this have "r = s"
    by (auto simp: control_step_def control_execute_def invalid_step_def rewrap_eq_Inr andthen_eq_Inr lift_run split: if_splits)
  ultimately show ?thesis using conclude_control_frame by blast
qed

lemma no_plan_to_run:
  "dget (st_tasks s) i = Some tk \<Longrightarrow> pt_plan_id tk = None \<Longrightarrow> plan_to_run i s = Inr None \<or> plan_to_run i s = Inl KeyError"
  by (simp add: plan_to_run_def split: option.split)

lemma execute_without_plan:
  assumes run: "control_task H C du ad lo ids i Execute n c (Some (k, h)) now s = (Inr a, t)"
    and new: "check_idempotency (Some (k, h)) s = Inr None" and tk: "dget (st_tasks s) i = Some tk" "pt_plan_id tk = None"
    and s: "consistent H s" "keyed pt_id (st_tasks s)"
  obtains v where "a = Answered v" and "moved_task H C i Execute n c now v s t" and "st_sessions t = st_sessions s" and "st_epochs t = st_epochs s"
proof -
  from no_plan_to_run [OF tk] run new obtain u where
    tr: "control_transition H C du i Execute n c (Some (k, h)) now s = (Inr a, u)"
    and after: "bind (bind (get (plan_to_run i)) lift) (\<lambda>after.
       andthen (case after of
                  None \<Rightarrow> ret ()
                | Some (t, p) \<Rightarrow> bind (enqueue_plan H ad lo ids now t (Some p) ''controller'' 0) (\<lambda>_. ret ()))
         (ret a)) u = (Inr a, t)"
    unfolding control_task_def by (auto simp: bind_eq_Inr get_run lift_run ret_run andthen_eq_Inr)
  from tr new obtain v where a: "a = Answered v" by (cases rule: control_transition_cases) auto
  note moved = transition_moved [OF tr [unfolded a] s]
  then have "dget (st_tasks u) i = Some v" and "pt_plan_id v = None" using tk by (auto simp: moved_task_def)
  from no_plan_to_run [OF this] after have "t = u" by (auto simp: bind_eq_Inr get_run lift_run ret_run andthen_eq_Inr)
  then show ?thesis using that a moved execute_frame [OF tr [unfolded a]] by blast
qed

lemma execute_posted:
  assumes "carries C decode (rstrip_slash base @ control_path i Execute) body key (control_endpoint S D None i Execute body (Some key)) s"
    and "httpx_post C base decode (control_path i Execute) body key s = (Inr x, t)" and "item x ''data'' = Inr data"
    and "fresh_key key s" and tk: "dget (st_tasks s) i = Some tk" "pt_plan_id tk = None"
    and s: "consistent (srv_hashing S) s" "keyed pt_id (st_tasks s)"
  obtains n v where "data = VDict (task_json (srv_stamp S) v)"
    and "moved_task (srv_hashing S) (srv_codec S) i Execute n (dr_id D) (dr_now D) v s t"
    and "st_sessions t = st_sessions s" and "st_epochs t = st_epochs s"
proof -
  note endpoint = control_endpoint_def [of S D None i Execute body "Some key"]
  from carried_data [OF assms(1) [unfolded endpoint] assms(2,3)] obtain version where
    run: "bind (lift (accepted (read_control_task body))) (\<lambda>(n, reason).
        bind (control_handler S D None i Execute n reason (Some key)) (\<lambda>v.
        ret (VDict (task_json (srv_stamp S) v), VInt (pt_version v)))) s = (Inr (data, version), t)" by blast
  then obtain n reason v where v: "control_handler S D None i Execute n reason (Some key) s = (Inr v, t)"
    "data = VDict (task_json (srv_stamp S) v)" by (auto simp: prog_simps)
  from v(1) obtain k a where k: "idem_key_of (control_request_of S None i Execute n reason (Some key)) = Inr k"
    and go: "control_task (srv_hashing S) (srv_codec S) (srv_usage S) (srv_adapter S) (srv_local S) (dr_ids D) i Execute n (dr_id D)
        (Some (k, srv_digest S (control_payload n reason))) (dr_now D) s = (Inr a, t)" and a: "task_of_answer a = Inr v"
    by (auto simp: control_handler_def prog_simps control_request_hash)
  have "check_idempotency (Some (k, srv_digest S (control_payload n reason))) s = Inr None"
    using k fresh_check [OF assms(4)] by (cases k) (auto simp: idem_key_accepted control_request_of_def)
  from execute_without_plan [OF go this tk s] obtain w where "a = Answered w"
    "moved_task (srv_hashing S) (srv_codec S) i Execute n (dr_id D) (dr_now D) w s t"
    "st_sessions t = st_sessions s" "st_epochs t = st_epochs s" by metis
  with a v(2) that show ?thesis by (auto simp: task_of_answer_def)
qed

section \<open>A host starts a task\<close>

text \<open>The requests of \<^verbatim>\<open>create\<close> for a host without a plan, and what it takes from their answers.\<close>

lemma start_task_unplanned:
  assumes "get_or host ''plan'' VNone = VNone"
  shows "start_task B api host =
     bind (lift (item (VDict host) ''session_id'')) (\<lambda>session.
     bind (lift (session_payload host)) (\<lambda>payload.
     bind (va_post api SESSIONS_PATH payload (step_key B session ''session'')) (\<lambda>a1.
     bind (lift (item a1 ''data'')) (\<lambda>d1.
     bind (lift (item d1 ''id'')) (\<lambda>i1.
     bind (lift (item d1 ''version'')) (\<lambda>v1.
     bind (va_post api (epochs_path (py_str B i1))
             (VDict [(''expected_version'', v1), (''provider_id'', get_or host ''provider_id'' (VStr ''openai'')),
                     (''model_id'', get_or host ''model_id'' (VStr [])),
                     (''reasoning_effort'', get_or host ''reasoning_effort'' (VStr ''medium''))])
             (step_key B session ''epoch'')) (\<lambda>a2.
     bind (lift (task_payload host i1)) (\<lambda>payload.
     bind (va_post api TASKS_PATH payload (step_key B session ''task'')) (\<lambda>a3.
     bind (lift (item a3 ''data'')) (\<lambda>d3.
     bind (lift (item d3 ''id'')) (\<lambda>i3.
     bind (lift (item d3 ''version'')) (\<lambda>v3.
     bind (va_post api (control_path (py_str B i3) Execute) (VDict [(''expected_version'', v3)]) (step_key B session ''execute'')) (\<lambda>a4.
     bind (lift (item a2 ''data'')) (\<lambda>epoch.
     bind (lift (item a4 ''data'')) (\<lambda>executed.
     ret \<lparr>sd_session = d1, sd_epoch = epoch, sd_task = executed, sd_plan = VNone\<rparr>)))))))))))))))"
  unfolding start_task_def submit_host_plan_def assms SESSIONS_PATH_def TASKS_PATH_def epochs_path_def control_path_def
  by (simp add: action_name_def) (simp add: ret_def)

lemma host_create_Inr:
  assumes "host_create B api host s = (Inr h, t)" and "get_or host ''plan'' VNone = VNone"
  obtains session payload a1 d1 i1 v1 s1 a2 s2 task_body a3 d3 s3 i3 v3 a4 d4 where
    "dget host ''session_id'' = Some session" and "session_payload host = Inr payload"
    and "va_post api SESSIONS_PATH payload (step_key B session ''session'') s = (Inr a1, s1)" and "item a1 ''data'' = Inr d1"
    and "item d1 ''id'' = Inr i1" and "item d1 ''version'' = Inr v1"
    and "va_post api (epochs_path (py_str B i1))
             (VDict [(''expected_version'', v1), (''provider_id'', get_or host ''provider_id'' (VStr ''openai'')),
                     (''model_id'', get_or host ''model_id'' (VStr [])),
                     (''reasoning_effort'', get_or host ''reasoning_effort'' (VStr ''medium''))])
             (step_key B session ''epoch'') s1 = (Inr a2, s2)" and "\<exists>d. item a2 ''data'' = Inr d"
    and "task_payload host i1 = Inr task_body" and "va_post api TASKS_PATH task_body (step_key B session ''task'') s2 = (Inr a3, s3)"
    and "item a3 ''data'' = Inr d3" and "item d3 ''id'' = Inr i3" and "item d3 ''version'' = Inr v3"
    and "va_post api (control_path (py_str B i3) Execute) (VDict [(''expected_version'', v3)]) (step_key B session ''execute'') s3 =
           (Inr a4, t)"
    and "item a4 ''data'' = Inr d4" and "item d4 ''id'' = Inr (th_task_id h)" and "item d4 ''version'' = Inr (th_version h)"
proof -
  from assms(1) obtain sd where sd: "start_task B api host s = (Inr sd, t)"
    and h: "item (sd_task sd) ''id'' = Inr (th_task_id h)" "item (sd_task sd) ''version'' = Inr (th_version h)"
    unfolding host_create_def by (auto simp: prog_simps)
  from sd show ?thesis
    unfolding start_task_unplanned [OF assms(2)]
    using h that
    by (elim bind_InrE) (auto simp: lift_run ret_run item_VDict split: option.splits)
qed

text \<open>The task a host is told about: its session is the one of the host, its controller is registered, and it runs.\<close>

definition started_for :: "json_object \<Rightarrow> task_handle \<Rightarrow> runtime \<Rightarrow> bool" where
  "started_for host h t \<longleftrightarrow>
     (\<exists>cs e v.
        dget host ''tenant_id'' = Some (VStr (cs_tenant_id cs)) \<and> dget host ''session_id'' = Some (VStr (cs_host_session_id cs)) \<and>
        dget host ''goal'' = Some (VStr (pt_goal v)) \<and> dget host ''model_id'' = Some (VStr (ce_model_id e)) \<and>
        dget (st_sessions t) (cs_id cs) = Some cs \<and> cs_active_controller_epoch_id cs = Some (ce_id e) \<and>
        dget (st_epochs t) (ce_id e) = Some e \<and> ce_controller_session_id e = cs_id cs \<and> ce_status e = ES_active \<and>
        dget (st_tasks t) (pt_id v) = Some v \<and> pt_controller_session_id v = cs_id cs \<and> pt_status v = TS_running \<and>
        h = \<lparr>th_task_id = VStr (pt_id v), th_version = VInt (pt_version v)\<rparr>)"

lemma epoch_model_named:
  assumes "read_register_epoch (VDict [(''expected_version'', v), (''provider_id'', p), (''model_id'', get_or host ''model_id'' (VStr [])),
      (''reasoning_effort'', r)]) = Inr q"
  shows "dget host ''model_id'' = Some (VStr (eq_model_id q))"
  using assms by (cases "dget host ''model_id''") (auto simp: read_register_epoch_def reads get_or_def len_within_def)

lemma session_payload_read:
  assumes "session_payload host = Inr payload" and "read_create_session payload = Inr q"
  shows "dget host ''tenant_id'' = Some (VStr (cq_tenant_id q)) \<and> dget host ''session_id'' = Some (VStr (cq_host_session_id q))"
  using assms by (auto simp: session_payload_def read_create_session_def reads bind_res_Inr item_VDict split: option.splits)

lemma task_payload_read:
  assumes "task_payload host i = Inr payload" and "read_create_task float_of payload = Inr q"
  shows "i = VStr (tq_controller_session_id q) \<and> dget host ''goal'' = Some (VStr (tq_goal q))"
  using assms by (auto simp: task_payload_def read_create_task_def reads bind_res_Inr item_VDict split: option.splits)

lemma step_key_inject [simp]: "step_key B session a = step_key B session b \<longleftrightarrow> a = b"
  by (simp add: step_key_def)

lemma session_json_fields [simp]:
  "dget (session_json stamp cs) ''id'' = Some (VStr (cs_id cs))" "dget (session_json stamp cs) ''version'' = Some (VInt (cs_version cs))"
  by (simp_all add: session_json_def)

lemma task_json_id [simp]: "dget (task_json stamp v) ''id'' = Some (VStr (pt_id v))"
  by (simp add: task_json_def)

lemma host_create_starts:
  assumes served: "serves_start C decode base (session_endpoint S D1 None) (epoch_endpoint S D2 None) (task_endpoint S float_of D3 None)
      (\<lambda>i. control_endpoint S D4 None i Execute)"
    and s: "consistent (srv_hashing S) s" "keyed pt_id (st_tasks s)" and plan: "get_or host ''plan'' VNone = VNone"
    and new: "\<forall>x step. dget host ''session_id'' = Some x \<longrightarrow> fresh_key (step_key B x step) s"
    and run: "host_create B (httpx_api C base decode) host s = (Inr h, t)"
  shows "started_for host h t \<and> (\<forall>x f io. \<exists>w. restart (srv_hashing S) x f io t = Inr w \<and> recorded w = recorded t)"
proof -
  let ?H = "srv_hashing S"
  obtain session payload a1 d1 i1 v1 s1 a2 s2 body a3 d3 s3 i3 v3 a4 d4 where
    host: "dget host ''session_id'' = Some session" "session_payload host = Inr payload"
    and r1: "va_post (httpx_api C base decode) SESSIONS_PATH payload (step_key B session ''session'') s = (Inr a1, s1)" "item a1 ''data'' = Inr d1"
      "item d1 ''id'' = Inr i1" "item d1 ''version'' = Inr v1"
    and r2: "va_post (httpx_api C base decode) (epochs_path (py_str B i1))
             (VDict [(''expected_version'', v1), (''provider_id'', get_or host ''provider_id'' (VStr ''openai'')),
                     (''model_id'', get_or host ''model_id'' (VStr [])),
                     (''reasoning_effort'', get_or host ''reasoning_effort'' (VStr ''medium''))])
             (step_key B session ''epoch'') s1 = (Inr a2, s2)" "\<exists>d. item a2 ''data'' = Inr d"
    and r3: "task_payload host i1 = Inr body" "va_post (httpx_api C base decode) TASKS_PATH body (step_key B session ''task'') s2 = (Inr a3, s3)"
      "item a3 ''data'' = Inr d3" "item d3 ''id'' = Inr i3" "item d3 ''version'' = Inr v3"
    and r4: "va_post (httpx_api C base decode) (control_path (py_str B i3) Execute) (VDict [(''expected_version'', v3)])
        (step_key B session ''execute'') s3 = (Inr a4, t)"
      "item a4 ''data'' = Inr d4" "item d4 ''id'' = Inr (th_task_id h)" "item d4 ''version'' = Inr (th_version h)"
    by (rule host_create_Inr [OF run plan])
  have api: "va_post (httpx_api C base decode) = httpx_post C base decode" by (simp add: httpx_api_def)
  note carried = served [unfolded serves_start_def, rule_format]
  have fresh: "fresh_key (step_key B session step) s" for step using new host(1) by blast
  obtain q1 where q1: "read_create_session payload = Inr q1" "d1 = VDict (session_json (srv_stamp S) (session_of_request D1 q1))"
    and c1: "committed ?H (step_key B session ''session'') s (put_session (session_of_request D1 q1) s) s1"
    using session_posted [OF carried [THEN conjunct1] r1(1) [unfolded api] r1(2) fresh] by blast
  let ?cs = "session_of_request D1 q1"
  have i1: "i1 = VStr (dr_id D1)" using r1(3) q1(2) by (simp add: item_VDict session_of_request_def)
  have p1: "py_str B i1 = dr_id D1" by (simp add: i1 py_str_def)
  from r2(2) obtain d2 where d2: "item a2 ''data'' = Inr d2" by blast
  obtain q2 cs where q2: "read_register_epoch (VDict [(''expected_version'', v1), (''provider_id'', get_or host ''provider_id'' (VStr ''openai'')),
                     (''model_id'', get_or host ''model_id'' (VStr [])),
                     (''reasoning_effort'', get_or host ''reasoning_effort'' (VStr ''medium''))]) = Inr q2"
    and cs: "dget (st_sessions s1) (dr_id D1) = Some cs"
    and c2: "committed ?H (step_key B session ''epoch'') s1
      (put_session (activated cs (epoch_of_request D2 (dr_id D1) q2)) (put_epoch (epoch_of_request D2 (dr_id D1) q2) s1)) s2"
    using epoch_posted [OF carried [THEN conjunct2, THEN conjunct1, rule_format] r2(1) [unfolded api p1] d2] by blast
  let ?e = "epoch_of_request D2 (dr_id D1) q2"
  have cs': "cs = ?cs" using c1 cs by (auto simp: committed_def put_session_def session_of_request_def)
  have f2: "fresh_key (step_key B session step) s1" if "step \<noteq> ''session''" for step
    using committed_fresh [OF c1 fresh] that by simp
  have f3: "fresh_key (step_key B session step) s2" if "step \<noteq> ''session''" "step \<noteq> ''epoch''" for step
    using committed_fresh [OF c2 f2] that by simp
  obtain q3 where q3: "read_create_task float_of body = Inr q3" "d3 = VDict (task_json (srv_stamp S) (task_of_request D3 q3))"
    and c3: "committed ?H (step_key B session ''task'') s2 (put_task (task_of_request D3 q3) s2) s3"
    using task_posted [OF carried [THEN conjunct2, THEN conjunct2, THEN conjunct1] r3(2) [unfolded api] r3(3) f3] by blast
  let ?tk = "task_of_request D3 q3"
  have i3: "i3 = VStr (dr_id D3)" using r3(4) q3(2) by (simp add: item_VDict task_of_request_def)
  have p3: "py_str B i3 = dr_id D3" by (simp add: i3 py_str_def)
  have tasks2: "st_tasks s2 = st_tasks s" using c1 c2 by (auto simp: committed_def put_session_def put_epoch_def)
  have tasks3: "st_tasks s3 = dput (dr_id D3) ?tk (st_tasks s)" using c3 tasks2 by (auto simp: committed_def put_task_def task_of_request_def)
  have tk: "dget (st_tasks s3) (dr_id D3) = Some ?tk" "pt_plan_id ?tk = None" by (simp_all add: tasks3 task_of_request_def)
  have keyed: "keyed pt_id (st_tasks s3)" using s(2) by (simp add: tasks3 task_of_request_def)
  have con: "consistent ?H s3" using c1 c2 c3 s(1) by (simp add: committed_def)
  have f4: "fresh_key (step_key B session ''execute'') s3" by (rule committed_fresh [OF c3 f3]) simp_all
  obtain n v where d4: "d4 = VDict (task_json (srv_stamp S) v)"
    and moved: "moved_task ?H (srv_codec S) (dr_id D3) Execute n (dr_id D4) (dr_now D4) v s3 t"
    and frame: "st_sessions t = st_sessions s3" "st_epochs t = st_epochs s3"
    using execute_posted [OF carried [THEN conjunct2, THEN conjunct2, THEN conjunct2, rule_format] r4(1) [unfolded api p3] r4(2) f4 tk con keyed] by blast
  have sess: "st_sessions t = dput (dr_id D1) (activated ?cs ?e) (st_sessions s1)" "dget (st_epochs t) (dr_id D2) = Some ?e"
    using c2 c3 by (auto simp: frame committed_def put_session_def put_epoch_def put_task_def cs' activated_def session_of_request_def
        epoch_of_request_def)
  have v: "pt_id v = dr_id D3" "pt_controller_session_id v = dr_id D1" "pt_goal v = tq_goal q3" "pt_status v = TS_running"
    "dget (st_tasks t) (dr_id D3) = Some v"
    using moved tk task_payload_read [OF r3(1) q3(1)] i1 by (auto simp: moved_task_def task_of_request_def control_target_def)
  have h: "h = \<lparr>th_task_id = VStr (dr_id D3), th_version = VInt (pt_version v)\<rparr>"
    using r4(3,4) v(1) by (simp add: d4 item_VDict)
  have "started_for host h t"
    unfolding started_for_def
    using session_payload_read [OF host(2) q1(1)] task_payload_read [OF r3(1) q3(1)] epoch_model_named [OF q2] sess v h
    by (intro exI [of _ "activated ?cs ?e"] exI [of _ ?e] exI [of _ v])
      (simp add: activated_def session_of_request_def epoch_of_request_def)
  with moved show ?thesis by (auto simp: moved_task_def)
qed


section \<open>A run\<close>

text \<open>What a working disk answers.\<close>

definition left_by :: "event hashing \<Rightarrow> string \<Rightarrow> runtime \<Rightarrow> runtime \<Rightarrow> runtime \<Rightarrow> bool" where
  "left_by H key s u t \<longleftrightarrow> committed H key s u t \<and> healthy H t"

lemma commit_runs:
  assumes "healthy H s" and "apply_event e s = Inr u"
  shows "\<exists>t. commit H e (Some ((a, b, key), h)) u = (Inr (), t) \<and> left_by H key s u t"
proof -
  have "healthy H u" using assms healthy_journal [OF apply_event_journal [OF assms(2)], of H] by simp
  from healthy_commit [OF this] commit_committed [OF _ assms(2)] show ?thesis unfolding left_by_def by metis
qed

lemma session_answered:
  assumes "read_create_session body = Inr q" and k: "idem_key_of (posted S None SESSIONS_PATH (session_payload_of q) (Some key)) = Inr (a, b, key)"
    and "fresh_key key s" and "healthy (srv_hashing S) s"
  shows "\<exists>t. session_endpoint S D None body (Some key) s =
      (\<lparr>hr_status = 201, hr_body = response_envelope (VDict (session_json (srv_stamp S) (session_of_request D q))) (VInt 1)\<rparr>, t) \<and>
    left_by (srv_hashing S) key s (put_session (session_of_request D q) s) t"
proof -
  have "apply_event (SessionCreated (session_of_request D q)) s = Inr (put_session (session_of_request D q) s)" by simp
  from commit_runs [OF assms(4) this] obtain t where
    t: "commit (srv_hashing S) (SessionCreated (session_of_request D q)) (Some ((a, b, key), srv_digest S (session_payload_of q)))
        (put_session (session_of_request D q) s) = (Inr (), t)" "left_by (srv_hashing S) key s (put_session (session_of_request D q) s) t"
    by blast
  have "wf_controller_session (session_of_request D q)" by (simp add: wf_controller_session_def session_of_request_def)
  then have "create_session (srv_hashing S) (session_of_request D q) (Some ((a, b, key), srv_digest S (session_payload_of q))) s =
      (Inr (Answered (session_of_request D q)), t)"
    using t(1) fresh_check [OF assms(3)] by (simp add: create_session_def andthen_def bind_def)
  then show ?thesis using t(2) assms(1)
    by (simp add: session_endpoint_def respond_def accepted_def bind_def post_session_def in_try_def keyed_by_run [OF k] posted_key(2)
        session_of_answer_def) (simp add: session_of_request_def)
qed

lemma epoch_answered:
  assumes "read_register_epoch body = Inr q" and k: "idem_key_of (posted S None (epochs_path i) (epoch_payload_of q) (Some key)) = Inr (a, b, key)"
    and cs: "dget (st_sessions s) i = Some cs" "cs_version cs = eq_expected_version q" "cs_active_controller_epoch_id cs = None"
    and "healthy (srv_hashing S) s"
  shows "\<exists>t. epoch_endpoint S D None i body (Some key) s =
      (\<lparr>hr_status = 201, hr_body = response_envelope (VDict (epoch_json (srv_stamp S) (epoch_of_request D i q))) (VInt 1)\<rparr>, t) \<and>
    left_by (srv_hashing S) key s (put_session (activated cs (epoch_of_request D i q)) (put_epoch (epoch_of_request D i q) s)) t"
proof -
  let ?e = "epoch_of_request D i q"
  have "dget (st_sessions s) (ce_controller_session_id ?e) = Some cs" using cs(1) by (simp add: epoch_of_request_def)
  from commit_runs [OF assms(6) apply_activation [OF this]] obtain t where
    t: "commit (srv_hashing S) (EpochRegistered ?e) (Some ((a, b, key), srv_digest S (epoch_payload_of q)))
        (put_session (activated cs ?e) (put_epoch ?e s)) = (Inr (), t)"
      "left_by (srv_hashing S) key s (put_session (activated cs ?e) (put_epoch ?e s)) t" by blast
  then have "register_epoch (srv_hashing S) i ?e (eq_expected_version q) (Some ((a, b, key), srv_digest S (epoch_payload_of q))) s = (Inr ?e, t)"
    using cs by (simp add: register_epoch_def require_version_def activated_def andthen_def bind_def)
  then show ?thesis using t(2) assms(1)
    by (simp add: epoch_endpoint_def respond_def accepted_def bind_def post_epoch_def in_try_def keyed_by_run [OF k] posted_key(2))
      (simp add: epoch_of_request_def)
qed

lemma task_answered:
  assumes "read_create_task float_of body = Inr q" and k: "idem_key_of (posted S None TASKS_PATH (task_payload_of q) (Some key)) = Inr (a, b, key)"
    and "fresh_key key s" and "dget (st_sessions s) (tq_controller_session_id q) = Some cs" and "healthy (srv_hashing S) s"
  shows "\<exists>t. task_endpoint S float_of D None body (Some key) s =
      (\<lparr>hr_status = 201, hr_body = response_envelope (VDict (task_json (srv_stamp S) (task_of_request D q))) (VInt 1)\<rparr>, t) \<and>
    left_by (srv_hashing S) key s (put_task (task_of_request D q) s) t"
proof -
  have "apply_event (TaskCreated (task_of_request D q)) s = Inr (put_task (task_of_request D q) s)" by simp
  from commit_runs [OF assms(5) this] obtain t where
    t: "commit (srv_hashing S) (TaskCreated (task_of_request D q)) (Some ((a, b, key), srv_digest S (task_payload_of q)))
        (put_task (task_of_request D q) s) = (Inr (), t)" "left_by (srv_hashing S) key s (put_task (task_of_request D q) s) t"
    by blast
  moreover have "pt_controller_session_id (task_of_request D q) = tq_controller_session_id q" by (simp add: task_of_request_def)
  ultimately have "create_task (srv_hashing S) (task_of_request D q) (Some ((a, b, key), srv_digest S (task_payload_of q))) s =
      (Inr (Answered (task_of_request D q)), t)"
    using fresh_check [OF assms(3)] assms(4) by (simp add: create_task_def andthen_def bind_def)
  then show ?thesis using t(2) assms(1)
    by (simp add: task_endpoint_def respond_def accepted_def bind_def post_task_def in_try_def keyed_by_run [OF k] posted_key(2)
        task_of_answer_def) (simp add: task_of_request_def)
qed

lemma execute_answered:
  assumes k: "idem_key_of (control_request_of S None i Execute n None (Some key)) = Inr (a, b, key)" and n: "1 \<le> n"
    and "fresh_key key s" and h: "healthy (srv_hashing S) s" and room: "room (srv_codec S) (srv_usage S) s" and c: "\<not> bad_checkpoint_id (dr_id D)"
    and tk: "dget (st_tasks s) i = Some tk" "pt_id tk = i" "pt_version tk = n" "pt_status tk = TS_draft" "pt_plan_id tk = None"
    and cs: "dget (st_sessions s) (pt_controller_session_id tk) = Some cs" "cs_active_controller_epoch_id cs \<notin> {None, Some []}"
  shows "\<exists>v t. control_endpoint S D None i Execute (VDict [(''expected_version'', VInt n)]) (Some key) s =
      (\<lparr>hr_status = 202, hr_body = response_envelope (VDict (task_json (srv_stamp S) v)) (VInt (pt_version v))\<rparr>, t)"
proof -
  let ?key = "Some ((a, b, key), srv_digest S (control_payload n None))" and ?H = "srv_hashing S"
  note new = fresh_check [OF assms(3)]
  obtain u where u: "control_execute tk cs (dr_now D) s = (Inr u, s)" "pt_id u = i" "pt_plan_id u = None"
    "pt_controller_session_id u = pt_controller_session_id tk"
    using cs(2) tk by (simp add: control_execute_def invalid_step_def rewrap_def execute_steps_def step_task_simps lift_run)
  then have step: "control_step ?H (srv_codec S) Execute tk cs (dr_now D) s = (Inr u, s)" by (simp add: control_step_def)
  obtain v t where tr: "control_transition ?H (srv_codec S) (srv_usage S) i Execute n (dr_id D) ?key (dr_now D) s = (Inr (Answered v), t)"
    and concl: "conclude_control ?H (srv_codec S) (srv_usage S) u (control_target Execute) (dr_id D) ?key s = (Inr v, t)"
    using control_transition_runs [OF new tk(1) cs(1) step h room c] tk(3) by metis
  note out = conclude_control_Inr [OF concl]
  have "dget (st_tasks t) i = Some v" "pt_plan_id v = None" "pt_controller_session_id v = pt_controller_session_id tk"
    using out u by auto
  moreover have "st_sessions t = st_sessions s" using conclude_control_frame [OF concl] by simp
  ultimately have after: "plan_to_run i t = Inr None" using cs(1) by (simp add: plan_to_run_def)
  have before: "plan_to_run i s = Inr None" using tk cs by (simp add: plan_to_run_def)
  have "control_task ?H (srv_codec S) (srv_usage S) (srv_adapter S) (srv_local S) (dr_ids D) i Execute n (dr_id D) ?key (dr_now D) s =
      (Inr (Answered v), t)"
    using new before tr after by (simp add: control_task_def bind_Inr bind_def andthen_def)
  then have "control_handler S D None i Execute n None (Some key) s = (Inr v, t)"
    using new by (simp add: control_handler_def keyed_by_run [OF k] control_request_hash bind_def andthen_def in_try_def task_of_answer_def)
  from control_endpoint_run [OF this n] show ?thesis by auto
qed

text \<open>A client that finds the handler of a path, and writes an answer as a text that its decoder reads.\<close>

instance pyfloat :: countable by countable_datatype

instance pyval :: countable by countable_datatype

definition write_json :: "pyval \<Rightarrow> string" where
  "write_json v = replicate (to_nat v) CHR ''1''"

definition read_json :: decoder where
  "read_json text = Some (from_nat (length text))"

definition inner :: "nat \<Rightarrow> nat \<Rightarrow> string \<Rightarrow> string" where
  "inner a b path = take (length path - a - b) (drop a path)"

definition routes ::
    "string \<Rightarrow> (pyval \<Rightarrow> string option \<Rightarrow> 'w \<Rightarrow> http_reply \<times> 'w) \<Rightarrow>
     (string \<Rightarrow> pyval \<Rightarrow> string option \<Rightarrow> 'w \<Rightarrow> http_reply \<times> 'w) \<Rightarrow> (pyval \<Rightarrow> string option \<Rightarrow> 'w \<Rightarrow> http_reply \<times> 'w) \<Rightarrow>
     (string \<Rightarrow> pyval \<Rightarrow> string option \<Rightarrow> 'w \<Rightarrow> http_reply \<times> 'w) \<Rightarrow> 'w http_client" where
  "routes base sessions epochs tasks execute =
     \<lparr>hc_post = (\<lambda>url body key w.
        let path = drop (length (rstrip_slash base)) url;
            (r, w') =
              (if path = SESSIONS_PATH then sessions body (Some key) w
               else if path = TASKS_PATH then tasks body (Some key) w
               else if last path = CHR ''s'' then epochs (inner 24 7 path) body (Some key) w
               else execute (inner 10 8 path) body (Some key) w)
        in (Inr \<lparr>ha_status = hr_status r, ha_text = write_json (hr_body r)\<rparr>, w')),
      hc_get = (\<lambda>_ _ w. (Inl OSError, w))\<rparr>"

lemma paths:
  "epochs_path i \<noteq> SESSIONS_PATH" "epochs_path i \<noteq> TASKS_PATH" "TASKS_PATH \<noteq> SESSIONS_PATH" "control_path i Execute \<noteq> SESSIONS_PATH"
  "control_path i Execute \<noteq> TASKS_PATH" "last (epochs_path i) = CHR ''s''" "last (control_path i Execute) = CHR ''e''"
  "inner 24 7 (epochs_path i) = i" "inner 10 8 (control_path i Execute) = i"
proof -
  have "last (control_path i Execute) = CHR ''e''" "last SESSIONS_PATH = CHR ''s''" "last TASKS_PATH = CHR ''s''"
    by (simp_all add: control_path_def action_name_def SESSIONS_PATH_def TASKS_PATH_def last_append)
  then show "control_path i Execute \<noteq> SESSIONS_PATH" "control_path i Execute \<noteq> TASKS_PATH" "last (control_path i Execute) = CHR ''e''" by auto
  have "length (epochs_path i) = 31 + length i" "length SESSIONS_PATH = 23" "length TASKS_PATH = 9"
    by (simp_all add: epochs_path_def SESSIONS_PATH_def TASKS_PATH_def)
  then show "epochs_path i \<noteq> SESSIONS_PATH" "epochs_path i \<noteq> TASKS_PATH" "TASKS_PATH \<noteq> SESSIONS_PATH" by auto
qed (simp_all add: epochs_path_def control_path_def action_name_def inner_def last_append)

lemma routes_serve: "serves_start (routes base sessions epochs tasks execute) read_json base sessions epochs tasks execute"
  unfolding serves_start_def carries_def routes_def read_json_def write_json_def
  by (simp add: paths split: prod.split)

definition sample_host :: json_object where
  "sample_host =
     [(''tenant_id'', VStr ''acme''), (''session_id'', VStr ''h''), (''model_id'', VStr ''m''), (''goal'', VStr ''g''),
      (''acceptance_contract'', VList [VDict [(''id'', VStr ''a''), (''description'', VStr ''works'')]]),
      (''workspace'', VDict [(''canonical_uri'', VStr ''/w''), (''base_revision'', VStr ''r'')])]"

definition sample_draws :: "string \<Rightarrow> draws" where
  "sample_draws i = \<lparr>dr_id = i, dr_ids = (\<lambda>_. \<lparr>fi_attempt = [], fi_session = [], fi_owner = []\<rparr>), dr_now = 1\<rparr>"

definition sample_keys :: "string \<Rightarrow> string" where
  "sample_keys step = step_key plain_builtins (VStr ''h'') step"

lemma sample_keys_accepted:
  assumes "step \<in> {''session'', ''epoch'', ''task'', ''execute''}"
  shows "idem_key_of (posted S None path payload (Some (sample_keys step))) = Inr (''default'', path, sample_keys step)"
    and "idem_key_of (control_request_of S None i Execute n None (Some (sample_keys step))) =
      Inr (''default'', control_path i Execute, sample_keys step)"
proof -
  have "1 \<le> length (sample_keys step) \<and> length (sample_keys step) \<le> 255 \<and>
      (\<forall>c \<in> set (sample_keys step). (33 :: nat) \<le> of_char c \<and> of_char c \<le> (126 :: nat))"
    using assms by (auto simp: sample_keys_def step_key_def py_str_def)
  then show "idem_key_of (posted S None path payload (Some (sample_keys step))) = Inr (''default'', path, sample_keys step)"
    and "idem_key_of (control_request_of S None i Execute n None (Some (sample_keys step))) =
      Inr (''default'', control_path i Execute, sample_keys step)"
    by (simp_all add: idem_key_accepted posted_def control_request_of_def)
qed

lemma sample_reads:
  "session_payload sample_host = Inr (VDict [(''tenant_id'', VStr ''acme''), (''host_session_id'', VStr ''h''), (''orchestration_mode'', VStr ''worker_only'')])"
  "read_create_session (VDict [(''tenant_id'', VStr ''acme''), (''host_session_id'', VStr ''h''), (''orchestration_mode'', VStr ''worker_only'')]) =
     Inr \<lparr>cq_tenant_id = ''acme'', cq_host_session_id = ''h'', cq_orchestration_mode = OM_worker_only\<rparr>"
  "read_register_epoch (VDict [(''expected_version'', VInt 1), (''provider_id'', VStr ''openai''), (''model_id'', VStr ''m''),
      (''reasoning_effort'', VStr ''medium'')]) =
     Inr \<lparr>eq_expected_version = 1, eq_provider_id = ''openai'', eq_model_id = ''m'', eq_model_snapshot = None, eq_reasoning_effort = ''medium''\<rparr>"
  by (simp_all add: session_payload_def sample_host_def item_VDict get_or_def read_create_session_def read_register_epoch_def reads
      len_within_def MODES_def)

lemma sample_task_read:
  "\<exists>body q. task_payload sample_host (VStr ''cs'') = Inr body \<and> read_create_task (\<lambda>_. flaw ''float_type'') body = Inr q \<and>
     tq_controller_session_id q = ''cs''"
proof -
  let ?body = "VDict [(''controller_session_id'', VStr ''cs''), (''request_type'', VStr ''new_task''), (''goal'', VStr ''g''),
      (''acceptance_contract'', VList [VDict [(''id'', VStr ''a''), (''description'', VStr ''works'')]]),
      (''data_classification'', VStr ''internal''), (''workspace'', VDict [(''canonical_uri'', VStr ''/w''), (''base_revision'', VStr ''r'')]),
      (''budgets'', VDict [])]"
  let ?q = "\<lparr>tq_controller_session_id = ''cs'', tq_request_type = RT_new_task, tq_goal = ''g'',
      tq_acceptance_contract = [\<lparr>ac_id = ''a'', ac_description = ''works'', ac_required = True\<rparr>], tq_data_classification = DC_internal,
      tq_workspace = \<lparr>ws_adapter_id = ''local'', ws_canonical_uri = ''/w'', ws_base_revision = ''r''\<rparr>, tq_budgets = no_budgets\<rparr>"
  have payload: "task_payload sample_host (VStr ''cs'') = Inr ?body"
    by (simp add: task_payload_def sample_host_def item_VDict get_or_def)
  have "read_acceptance (VDict [(''id'', VStr ''a''), (''description'', VStr ''works'')]) =
      Inr \<lparr>ac_id = ''a'', ac_description = ''works'', ac_required = True\<rparr>"
    by (simp add: read_acceptance_def reads len_within_def) (rule exI [of _ True], simp)?
  then have "list_of 1 100 read_acceptance (VList [VDict [(''id'', VStr ''a''), (''description'', VStr ''works'')]]) =
      Inr [\<lparr>ac_id = ''a'', ac_description = ''works'', ac_required = True\<rparr>]"
    by (simp add: list_of_Inr len_within_def)
  moreover have "read_workspace (VDict [(''canonical_uri'', VStr ''/w''), (''base_revision'', VStr ''r'')]) =
      Inr \<lparr>ws_adapter_id = ''local'', ws_canonical_uri = ''/w'', ws_base_revision = ''r''\<rparr>"
    by (simp add: read_workspace_def reads len_within_def)
  moreover have "read_budgets (\<lambda>_. flaw ''float_type'') (VDict []) = Inr no_budgets"
    by (simp add: read_budgets_def reads no_budgets_def)
  ultimately have "read_create_task (\<lambda>_. flaw ''float_type'') ?body = Inr ?q"
    by (simp add: read_create_task_def object_of_def closed_to_def required_def optional_def below_def ap_def strict_str_def
        literal_def REQUEST_TYPES_def CLASSIFICATIONS_def)
  with payload show ?thesis by fastforce
qed

lemma routes_post:
  assumes "serves_start C decode base sessions epochs tasks execute"
  shows "sessions body (Some key) w = (\<lparr>hr_status = n, hr_body = v\<rparr>, w') \<Longrightarrow> 200 \<le> n \<Longrightarrow> n < 300 \<Longrightarrow>
      httpx_post C base decode SESSIONS_PATH body key w = (Inr v, w')"
    and "epochs i body (Some key) w = (\<lparr>hr_status = n, hr_body = v\<rparr>, w') \<Longrightarrow> 200 \<le> n \<Longrightarrow> n < 300 \<Longrightarrow>
      httpx_post C base decode (epochs_path i) body key w = (Inr v, w')"
    and "tasks body (Some key) w = (\<lparr>hr_status = n, hr_body = v\<rparr>, w') \<Longrightarrow> 200 \<le> n \<Longrightarrow> n < 300 \<Longrightarrow>
      httpx_post C base decode TASKS_PATH body key w = (Inr v, w')"
    and "execute i body (Some key) w = (\<lparr>hr_status = n, hr_body = v\<rparr>, w') \<Longrightarrow> 200 \<le> n \<Longrightarrow> n < 300 \<Longrightarrow>
      httpx_post C base decode (control_path i Execute) body key w = (Inr v, w')"
proof -
  note carried = assms [unfolded serves_start_def, rule_format]
  show "sessions body (Some key) w = (\<lparr>hr_status = n, hr_body = v\<rparr>, w') \<Longrightarrow> 200 \<le> n \<Longrightarrow> n < 300 \<Longrightarrow>
      httpx_post C base decode SESSIONS_PATH body key w = (Inr v, w')"
    using carried_run [OF carried [THEN conjunct1], of body key w] by simp
  show "epochs i body (Some key) w = (\<lparr>hr_status = n, hr_body = v\<rparr>, w') \<Longrightarrow> 200 \<le> n \<Longrightarrow> n < 300 \<Longrightarrow>
      httpx_post C base decode (epochs_path i) body key w = (Inr v, w')"
    using carried_run [OF carried [THEN conjunct2, THEN conjunct1, rule_format], of i body key w] by simp
  show "tasks body (Some key) w = (\<lparr>hr_status = n, hr_body = v\<rparr>, w') \<Longrightarrow> 200 \<le> n \<Longrightarrow> n < 300 \<Longrightarrow>
      httpx_post C base decode TASKS_PATH body key w = (Inr v, w')"
    using carried_run [OF carried [THEN conjunct2, THEN conjunct2, THEN conjunct1], of body key w] by simp
  show "execute i body (Some key) w = (\<lparr>hr_status = n, hr_body = v\<rparr>, w') \<Longrightarrow> 200 \<le> n \<Longrightarrow> n < 300 \<Longrightarrow>
      httpx_post C base decode (control_path i Execute) body key w = (Inr v, w')"
    using carried_run [OF carried [THEN conjunct2, THEN conjunct2, THEN conjunct2, rule_format], of i body key w] by simp
qed

lemma new_runtime_ready:
  "healthy unit_hashing new_runtime" "consistent unit_hashing new_runtime" "st_tasks new_runtime = []" "fresh_key key new_runtime"
proof -
  show "healthy unit_hashing new_runtime" using healthy_journal [of new_runtime "new_store []"] healthy_new_store by simp
  show "consistent unit_hashing new_runtime"
    using consistent_new_store [of "unit_hashing :: event hashing" "[]"] by (simp add: consistent_def sound_store_def event_log_def)
  have "recorded new_runtime = empty_view" by simp
  then show "st_tasks new_runtime = []" by (simp add: recorded_def empty_view_def view.defs)
  have "jl_idempotency (st_journal new_runtime) = []"
    by (simp add: new_store_def fresh_journal_def boot_def view.defs disk.defs)
  then show "fresh_key key new_runtime" by (simp add: fresh_key_def index_of_def)
qed

lemma left_fresh:
  "left_by H (sample_keys a) s u t \<Longrightarrow> fresh_key (sample_keys b) s \<Longrightarrow> b \<noteq> a \<Longrightarrow> fresh_key (sample_keys b) t"
  using committed_fresh [of H "sample_keys a" s u t "sample_keys b"] by (simp add: left_by_def sample_keys_def)

lemma sample_run:
  assumes served: "serves_start C decode base (session_endpoint sample_server (sample_draws ''cs'') None)
      (epoch_endpoint sample_server (sample_draws ''ce'') None)
      (task_endpoint sample_server (\<lambda>_. flaw ''float_type'') (sample_draws ''pt'') None)
      (\<lambda>i. control_endpoint sample_server (sample_draws ''cp'') None i Execute)"
  shows "\<exists>h t. host_create plain_builtins (httpx_api C base decode) sample_host new_runtime = (Inr h, t)"
proof -
  let ?S = sample_server and ?H = "unit_hashing :: event hashing" and ?p = "httpx_post C base decode"
  note post = routes_post [OF served] and fresh = committed_fresh and left = left_by_def
  let ?q1 = "\<lparr>cq_tenant_id = ''acme'', cq_host_session_id = ''h'', cq_orchestration_mode = OM_worker_only\<rparr>"
  let ?cs = "session_of_request (sample_draws ''cs'') ?q1"
  obtain s1 where r1: "session_endpoint ?S (sample_draws ''cs'') None (VDict [(''tenant_id'', VStr ''acme''), (''host_session_id'', VStr ''h''),
        (''orchestration_mode'', VStr ''worker_only'')]) (Some (sample_keys ''session'')) new_runtime =
      (\<lparr>hr_status = 201, hr_body = response_envelope (VDict (session_json int_text ?cs)) (VInt 1)\<rparr>, s1)"
    and l1: "left_by ?H (sample_keys ''session'') new_runtime (put_session ?cs new_runtime) s1"
    using session_answered [OF sample_reads(2) sample_keys_accepted(1) new_runtime_ready(4), where S = ?S and D = "sample_draws ''cs''"]
      new_runtime_ready(1) by (auto simp: sample_server_select)
  let ?q2 = "\<lparr>eq_expected_version = 1, eq_provider_id = ''openai'', eq_model_id = ''m'', eq_model_snapshot = None, eq_reasoning_effort = ''medium''\<rparr>"
  let ?e = "epoch_of_request (sample_draws ''ce'') ''cs'' ?q2"
  have cs: "dget (st_sessions s1) ''cs'' = Some ?cs" "cs_version ?cs = eq_expected_version ?q2" "cs_active_controller_epoch_id ?cs = None"
    using l1 by (auto simp: left committed_def put_session_def session_of_request_def sample_draws_def)
  have h1: "healthy (srv_hashing ?S) s1" using l1 by (simp add: left sample_server_select)
  obtain s2 where r2: "epoch_endpoint ?S (sample_draws ''ce'') None ''cs'' (VDict [(''expected_version'', VInt 1), (''provider_id'', VStr ''openai''),
        (''model_id'', VStr ''m''), (''reasoning_effort'', VStr ''medium'')]) (Some (sample_keys ''epoch'')) s1 =
      (\<lparr>hr_status = 201, hr_body = response_envelope (VDict (epoch_json int_text ?e)) (VInt 1)\<rparr>, s2)"
    and l2: "left_by ?H (sample_keys ''epoch'') s1 (put_session (activated ?cs ?e) (put_epoch ?e s1)) s2"
    using epoch_answered [OF sample_reads(3) sample_keys_accepted(1) cs h1, where D = "sample_draws ''ce''"] by (auto simp: sample_server_select)
  obtain body q3 where body: "task_payload sample_host (VStr ''cs'') = Inr body" "read_create_task (\<lambda>_. flaw ''float_type'') body = Inr q3"
    "tq_controller_session_id q3 = ''cs''" using sample_task_read by blast
  let ?tk = "task_of_request (sample_draws ''pt'') q3"
  have cs2: "dget (st_sessions s2) (tq_controller_session_id q3) = Some (activated ?cs ?e)"
    using l2 by (auto simp: body(3) left committed_def put_session_def activated_def session_of_request_def sample_draws_def)
  have f2: "fresh_key (sample_keys step) s2" if "step \<notin> {''session'', ''epoch''}" for step
    using left_fresh [OF l2 left_fresh [OF l1 new_runtime_ready(4)]] that by simp
  have h2: "healthy (srv_hashing ?S) s2" using l2 by (simp add: left sample_server_select)
  obtain s3 where r3: "task_endpoint ?S (\<lambda>_. flaw ''float_type'') (sample_draws ''pt'') None body (Some (sample_keys ''task'')) s2 =
      (\<lparr>hr_status = 201, hr_body = response_envelope (VDict (task_json int_text ?tk)) (VInt 1)\<rparr>, s3)"
    and l3: "left_by ?H (sample_keys ''task'') s2 (put_task ?tk s2) s3"
    using task_answered [OF body(2) sample_keys_accepted(1) f2 cs2 h2, where D = "sample_draws ''pt''"] by (auto simp: sample_server_select)
  have s3: "dget (st_tasks s3) ''pt'' = Some ?tk" "st_sessions s3 = st_sessions s2" "rt_checkpoints s3 = Some empty_checkpoints"
    using l1 l2 l3 by (auto simp: left committed_def put_task_def put_session_def put_epoch_def task_of_request_def sample_draws_def)
  have tk: "pt_id ?tk = ''pt''" "pt_version ?tk = 1" "pt_status ?tk = TS_draft" "pt_plan_id ?tk = None" "pt_controller_session_id ?tk = ''cs''"
    by (simp_all add: task_of_request_def sample_draws_def body(3))
  have "\<exists>v t. control_endpoint ?S (sample_draws ''cp'') None ''pt'' Execute (VDict [(''expected_version'', VInt 1)]) (Some (sample_keys ''execute'')) s3 =
      (\<lparr>hr_status = 202, hr_body = response_envelope (VDict (task_json (srv_stamp ?S) v)) (VInt (pt_version v))\<rparr>, t)"
  proof (rule execute_answered [OF sample_keys_accepted(2) _ _ _ _ _ s3(1) tk(1-4)])
    show "fresh_key (sample_keys ''execute'') s3"
      by (rule left_fresh [OF l3 f2]) simp_all
    show "healthy (srv_hashing ?S) s3" using l3 by (simp add: left sample_server_select)
    show "room (srv_codec ?S) (srv_usage ?S) s3"
      by (simp add: room_def s3 ensure_storage_capacity_def empty_checkpoints_def plain_codec_def sample_server_select)
    show "\<not> bad_checkpoint_id (dr_id (sample_draws ''cp''))" by (simp add: sample_draws_def controlled_store_simps)
    show "dget (st_sessions s3) (pt_controller_session_id ?tk) = Some (activated ?cs ?e)" using cs2 by (simp add: s3 tk body(3))
    show "cs_active_controller_epoch_id (activated ?cs ?e) \<notin> {None, Some []}"
      by (simp add: activated_def epoch_of_request_def sample_draws_def)
  qed simp_all
  then obtain v t where r4: "control_endpoint ?S (sample_draws ''cp'') None ''pt'' Execute (VDict [(''expected_version'', VInt 1)])
        (Some (sample_keys ''execute'')) s3 =
      (\<lparr>hr_status = 202, hr_body = response_envelope (VDict (task_json int_text v)) (VInt (pt_version v))\<rparr>, t)"
    by (auto simp: sample_server_select)
  have host: "dget sample_host ''session_id'' = Some (VStr ''h'')" "get_or sample_host ''provider_id'' (VStr ''openai'') = VStr ''openai''"
    "get_or sample_host ''model_id'' (VStr []) = VStr ''m''" "get_or sample_host ''reasoning_effort'' (VStr ''medium'') = VStr ''medium''"
    "get_or sample_host ''plan'' VNone = VNone" "py_str plain_builtins (VStr ''cs'') = ''cs''" "py_str plain_builtins (VStr ''pt'') = ''pt''"
    by (simp_all add: sample_host_def item_VDict get_or_def py_str_def)
  have ids: "cs_id ?cs = ''cs''" "cs_version ?cs = 1" by (simp_all add: session_of_request_def sample_draws_def)
  have api: "va_post (httpx_api C base decode) = ?p" by (simp add: httpx_api_def)
  have "\<exists>sd. start_task plain_builtins (httpx_api C base decode) sample_host new_runtime = (Inr sd, t) \<and>
      sd_task sd = VDict (task_json int_text v)"
    unfolding start_task_unplanned [OF host(5)] api
    using post(1) [OF r1] post(2) [OF r2] post(3) [OF r3] post(4) [OF r4]
    by (simp add: host sample_reads(1) body(1) ids tk item_VDict bind_Inr sample_keys_def)
  then show ?thesis by (auto simp: host_create_def bind_Inr item_VDict)
qed


end
