(* ===== verification/Lifespan.thy ===== *)
theory Lifespan
  imports Starting Supervisor Providers
begin

text \<open>
  The life of the application: \<^verbatim>\<open>create_app\<close> of \<^verbatim>\<open>api/app.py\<close> from the environment to the services, its life span with
  the loop of the supervisor, and \<^verbatim>\<open>main.py\<close>.
\<close>

section \<open>The start\<close>

text \<open>The loop of the supervisor is a task of the event loop: not there, running, or ended with a result.\<close>

datatype loop_task = NoLoop | LoopRuns | LoopEnded "unit res"

record app_process =
  pc_store :: runtime
  pc_limits :: runtime_protection_config
  pc_supervisor :: "supervisor option"
  pc_loop :: loop_task
  pc_open :: bool

text \<open>The arguments with which \<^verbatim>\<open>create_app\<close> builds its supervisor are the defaults; times are microseconds.\<close>

definition default_claim_ttl :: time where
  "default_claim_ttl = 60 * 1000000"

definition default_kwargs :: runner_kwargs where
  "default_kwargs =
     \<lparr>rk_on_usage = None, rk_provider_timeout = Some 60, rk_claim_ttl = None, rk_cancel_grace_seconds = 10, rk_cancel_grace = None\<rparr>"

text \<open>The directory a process starts on: the journal another process left, and the files of artifacts and checkpoints.\<close>

definition create_app ::
    "event hashing \<Rightarrow> checkpoint_codec \<Rightarrow> (string \<Rightarrow> pyfloat option) \<Rightarrow> (string, string) dict \<Rightarrow> append_io list \<Rightarrow>
     event journal \<Rightarrow> checkpoint_store \<Rightarrow> bool \<Rightarrow> app_process res" where
  "create_app H C fl env io left files provider =
     bind_res (from_environment fl env) (\<lambda>limits.
    (case load_journal H (boot (disk.truncate left) (Some (rp_max_journal_bytes limits)) (rp_min_free_disk_bytes limits) io) of
       (Inl e, _) \<Rightarrow> Inl e
     | (Inr _, j) \<Rightarrow>
       let cps = files\<lparr>at_max_bytes := Some (rp_max_artifact_bytes limits), at_min_free_bytes := rp_min_free_disk_bytes limits,
                       cp_max_bytes := Some (rp_max_checkpoint_bytes limits), cp_min_free_bytes := rp_min_free_disk_bytes limits\<rparr>
       in bind_res (start_store H C cps j) (\<lambda>st.
          bind_res (rebuild_ownership (event_log st)) (\<lambda>own.
          let rt = app_store.extend (store.extend st \<lparr>as_ownership = own\<rparr>) \<lparr>rt_checkpoints = Some cps\<rparr>
          in if provider
             then (case execution_supervisor H C None 5 default_claim_ttl default_kwargs rt of
                     (Inl e, _) \<Rightarrow> Inl e
                   | (Inr S, t) \<Rightarrow> Inr \<lparr>pc_store = t, pc_limits = limits, pc_supervisor = Some S, pc_loop = NoLoop, pc_open = True\<rparr>)
             else Inr \<lparr>pc_store = rt, pc_limits = limits, pc_supervisor = None, pc_loop = NoLoop, pc_open = True\<rparr>))))"

text \<open>\<^verbatim>\<open>main.py\<close>: the provider of the process, from its environment.\<close>

definition provider_from_environment :: "(string, string) dict \<Rightarrow> openai_adapter option" where
  "provider_from_environment env =
     (case dget env ''VALUEROUTE_OPENAI_MODEL_ID'' of
        None \<Rightarrow> None
      | Some model_id \<Rightarrow>
          if model_id = [] then None
          else Some (openai_provider model_id
                       (case dget env ''VALUEROUTE_PROVIDER_ID'' of None \<Rightarrow> ''openai'' | Some p \<Rightarrow> p)
                       (case dget env ''VALUEROUTE_OPENAI_BASE_URL'' of None \<Rightarrow> ''https://api.openai.com/v1'' | Some u \<Rightarrow> u)
                       None (dget env ''OPENAI_API_KEY'')))"

definition main_app ::
    "event hashing \<Rightarrow> checkpoint_codec \<Rightarrow> (string \<Rightarrow> pyfloat option) \<Rightarrow> (string, string) dict \<Rightarrow> append_io list \<Rightarrow>
     event journal \<Rightarrow> checkpoint_store \<Rightarrow> app_process res" where
  "main_app H C fl env io left files = create_app H C fl env io left files (provider_from_environment env \<noteq> None)"

section \<open>The life span\<close>

definition lifespan_enter :: "app_process \<Rightarrow> app_process" where
  "lifespan_enter a = (if pc_supervisor a = None then a else a\<lparr>pc_loop := LoopRuns\<rparr>)"

text \<open>The loop ends by itself when a turn raises, and by the stop event otherwise.\<close>

definition loop_ended :: "unit res \<Rightarrow> runtime \<Rightarrow> app_process \<Rightarrow> app_process" where
  "loop_ended r t a = a\<lparr>pc_store := t, pc_loop := LoopEnded r\<rparr>"

definition lifespan_exit :: "app_process \<Rightarrow> app_process" where
  "lifespan_exit a = a\<lparr>pc_loop := NoLoop, pc_open := False\<rparr>"

text \<open>
  The whole life: \<open>stop n\<close> says that the stop event is set before turn \<open>n\<close>, and the exit gathers the loop and drops
  its exception. \<open>None\<close> is an exit that waits for ever.
\<close>

definition lifespan ::
    "event hashing \<Rightarrow> checkpoint_codec \<Rightarrow> disk_usage \<Rightarrow> provider_signature option \<Rightarrow> (nat \<Rightarrow> run_world) \<Rightarrow> (nat \<Rightarrow> runtime \<Rightarrow> runtime) \<Rightarrow>
     (nat \<Rightarrow> bool) \<Rightarrow> app_process \<Rightarrow> app_process option" where
  "lifespan H C du sig worlds rest stop a =
     (case pc_supervisor a of
        None \<Rightarrow> Some (lifespan_exit (lifespan_enter a))
      | Some S \<Rightarrow>
          map_option (\<lambda>(r, t). lifespan_exit (loop_ended r t (lifespan_enter a)))
            (supervise H C du S sig worlds rest stop (1 / 20) (pc_store a)))"

record status =
  su_enabled :: bool
  su_running :: bool
  su_max_concurrency :: nat

definition supervisor_status :: "app_process \<Rightarrow> status" where
  "supervisor_status a =
     \<lparr>su_enabled = (pc_supervisor a \<noteq> None), su_running = (pc_loop a = LoopRuns),
      su_max_concurrency = (case pc_supervisor a of None \<Rightarrow> 0 | Some S \<Rightarrow> sv_max_concurrency S)\<rparr>"

section \<open>What the settings reach\<close>

text \<open>The settings that \<^verbatim>\<open>create_app\<close> hands on: the sizes.\<close>

definition same_sizes :: "runtime_protection_config \<Rightarrow> runtime_protection_config \<Rightarrow> bool" where
  "same_sizes a b \<longleftrightarrow>
     rp_max_artifact_bytes a = rp_max_artifact_bytes b \<and> rp_max_checkpoint_bytes a = rp_max_checkpoint_bytes b \<and>
     rp_max_journal_bytes a = rp_max_journal_bytes b \<and> rp_min_free_disk_bytes a = rp_min_free_disk_bytes b"

lemma create_app_limits:
  assumes "from_environment fl env = Inr a" and "from_environment fl' env' = Inr b" and "same_sizes a b"
  shows "create_app H C fl' env' io left files provider = map_sum id (pc_limits_update (\<lambda>_. b)) (create_app H C fl env io left files provider)"
  using assms unfolding same_sizes_def create_app_def
  by (auto simp: Let_def bind_res_def split: prod.split sum.split)

lemma supervisor_settings:
  assumes "execution_supervisor H C None 5 default_claim_ttl default_kwargs s = (Inr S, t)"
  shows "sv_claim_ttl S = 60000000 \<and> wr_claim_ttl (sv_runner S) = 60000000 \<and> wr_provider_timeout (sv_runner S) = Some 60 \<and>
    wr_cancel_grace_seconds (sv_runner S) = 10 \<and> sv_max_concurrency S = 5"
  using assms
  by (auto simp: execution_supervisor_def default_kwargs_def default_claim_ttl_def worker_runner_def prog_simps Let_def
      split: option.splits)

text \<open>
  Of the eight settings the application reads and checks, the four sizes have an effect. Two environments that
  agree on them start the same application, which only remembers its settings; the time limit of the provider, the life of a
  claim and the grace of a cancellation are always those of the source, whatever the environment says.
\<close>

theorem settings_without_effect:
  assumes "from_environment fl env = Inr a" and "from_environment fl' env' = Inr b" and "same_sizes a b"
    and "create_app H C fl env io left files True = Inr p"
  shows "create_app H C fl' env' io left files True = Inr (p\<lparr>pc_limits := b\<rparr>) \<and>
    (\<exists>S. pc_supervisor p = Some S \<and> sv_claim_ttl S = 60000000 \<and> wr_provider_timeout (sv_runner S) = Some 60 \<and>
       wr_cancel_grace_seconds (sv_runner S) = 10)"
proof
  show "create_app H C fl' env' io left files True = Inr (p\<lparr>pc_limits := b\<rparr>)"
    using create_app_limits [OF assms(1-3), of H C io left files True] assms(4) by simp
  from assms(4) show "\<exists>S. pc_supervisor p = Some S \<and> sv_claim_ttl S = 60000000 \<and> wr_provider_timeout (sv_runner S) = Some 60 \<and>
       wr_cancel_grace_seconds (sv_runner S) = 10"
    by (auto simp: create_app_def bind_res_def Let_def dest!: supervisor_settings split: prod.split_asm sum.split_asm)
qed

lemma run_forever_ends: "stop (n + d) \<Longrightarrow> \<exists>x. run_forever H C du S sig worlds rest stop n s = Some x"
proof (induction d arbitrary: n s)
  case 0
  then show ?case by (simp add: run_forever.simps)
next
  case (Suc d)
  from Suc.prems have "stop (Suc n + d)" by simp
  from Suc.IH [OF this] show ?case
    by (subst run_forever.simps) (auto split: prod.split sum.split)
qed

text \<open>
  A stopped application ends, with its journal closed and its loop gone. A loop that a turn ended by an
  exception is only seen in the status: the exit drops the exception, as if the loop had been stopped.
\<close>

theorem lifespan_ends:
  assumes "stop n"
  shows "\<exists>b. lifespan H C du sig worlds rest stop a = Some b \<and> \<not> pc_open b \<and> \<not> su_running (supervisor_status b) \<and>
    (\<forall>S e t. pc_supervisor a = Some S \<and> \<not> stop 0 \<and> run_once H C du S sig (worlds 0) (pc_store a) = (Inl e, t) \<longrightarrow>
       \<not> su_running (supervisor_status (loop_ended (Inl e) t (lifespan_enter a))) \<and> pc_store b = t)"
proof (cases "pc_supervisor a")
  case None
  then show ?thesis by (simp add: lifespan_def lifespan_exit_def lifespan_enter_def supervisor_status_def)
next
  case (Some S)
  obtain r t where run: "run_forever H C du S sig worlds rest stop 0 (pc_store a) = Some (r, t)"
    using run_forever_ends [where n = 0 and d = n] assms by fastforce
  have "t' = t" if "\<not> stop 0" "run_once H C du S sig (worlds 0) (pc_store a) = (Inl e, t')" for e t'
    using run that by (simp add: run_forever.simps [where n = 0])
  then show ?thesis using Some run
    by (auto simp: lifespan_def supervise_def lifespan_exit_def lifespan_enter_def supervisor_status_def loop_ended_def)
qed

end
