(* ===== verification/GitWorkspaces.thy ===== *)
theory GitWorkspaces
  imports Workspaces Texts
begin

text \<open>
  \<^verbatim>\<open>workspaces/git.py\<close>: worktrees of a git checkout as workspaces of owners, their change sets, and the
  adoption of a change set as a commit in a worktree of its own.

  Git is the parameter \<open>git\<close>: it runs a command in the canonical checkout (\<open>None\<close>) or in a worktree and
  may change the repository and the directories below the workspace root. The repository is a value of
  the type \<open>'g\<close>; a directory is a \<open>tree\<close>, known by its name. A \<^verbatim>\<open>GitWorkspaceError\<close> is a \<open>RuntimeError\<close>.
\<close>

section \<open>Running git\<close>

record process_result =
  pr_returncode :: int
  pr_stdout :: string
  pr_stderr :: string

type_synonym directories = "(string, tree) dict"

record 'g git =
  gi_run :: "string list \<Rightarrow> string option \<Rightarrow> 'g \<times> directories \<Rightarrow> process_result res \<times> 'g \<times> directories"
  gi_show :: "string list \<Rightarrow> 'g \<Rightarrow> process_result res"

record 'g git_host =
  gh_repo :: 'g
  gh_dirs :: directories
  gh_owners :: "(string, string) dict"

definition git_error :: "process_result \<Rightarrow> exn" where
  "git_error p =
     RuntimeError (if strip (pr_stderr p) \<noteq> [] then strip (pr_stderr p)
                   else if strip (pr_stdout p) \<noteq> [] then strip (pr_stdout p) else ''unknown Git error'')"

definition run_git :: "'g git \<Rightarrow> string list \<Rightarrow> string option \<Rightarrow> ('g git_host, string) prog" where
  "run_git G args cwd =
     (\<lambda>s. case gi_run G args cwd (gh_repo s, gh_dirs s) of
        (r, g, d) \<Rightarrow>
          (case r of Inl e \<Rightarrow> Inl e
                   | Inr p \<Rightarrow> if pr_returncode p \<noteq> 0 then Inl (git_error p) else Inr (strip (pr_stdout p)),
           s\<lparr>gh_repo := g, gh_dirs := d\<rparr>))"

definition git_bytes :: "'g git \<Rightarrow> string list \<Rightarrow> 'g git_host \<Rightarrow> string res" where
  "git_bytes G args s =
     (case gi_show G args (gh_repo s) of
        Inl e \<Rightarrow> Inl e
      | Inr p \<Rightarrow> if pr_returncode p \<noteq> 0
                 then Inl (RuntimeError (if strip (pr_stderr p) \<noteq> [] then strip (pr_stderr p) else ''unknown Git error''))
                 else Inr (pr_stdout p))"

definition require_clean_canonical :: "'g git \<Rightarrow> ('g git_host, unit) prog" where
  "require_clean_canonical G =
     bind (run_git G [''status'', ''--porcelain'', ''--untracked-files=all''] None) (\<lambda>out.
     raise_when (out \<noteq> []) (RuntimeError ''canonical Git checkout must be clean before creating a snapshot''))"

section \<open>Snapshots\<close>

fun read_revision :: "'g git \<Rightarrow> string \<Rightarrow> string list \<Rightarrow> (string, string) dict \<Rightarrow> 'g git_host \<Rightarrow> (string, string) dict res" where
  "read_revision G revision [] d s = Inr d"
| "read_revision G revision (raw # rest) d s =
     (case normal_path raw of
        Inl e \<Rightarrow> Inl e
      | Inr relative \<Rightarrow>
     (case git_bytes G [''show'', revision @ '':'' @ relative] s of
        Inl e \<Rightarrow> Inl e
      | Inr bytes \<Rightarrow> read_revision G revision rest (dput relative bytes d) s))"

definition git_snapshot :: "'g git \<Rightarrow> ('g git_host, workspace_snapshot) prog" where
  "git_snapshot G =
     andthen (require_clean_canonical G)
    (bind (run_git G [''rev-parse'', ''HEAD''] None) (\<lambda>revision.
     bind (run_git G [''ls-tree'', ''-r'', ''--name-only'', revision] None) (\<lambda>names.
     bind (get (read_revision G revision (split_lines names) [])) (\<lambda>r.
     bind (lift r) (\<lambda>files. ret \<lparr>sn_revision = revision, sn_files = files\<rparr>)))))"

section \<open>Worktrees of owners\<close>

definition owner_name :: "string \<Rightarrow> string res" where
  "owner_name owner =
     (if owner = [] \<or> CHR ''/'' \<in> set owner \<or> CHR 0x5C \<in> set owner \<or> owner \<in> {''.'', ''..''}
      then Inl (ValueError ''owner_id must be a simple non-empty name'') else Inr owner)"

record owner_workspace =
  ow_owner_id :: string
  ow_path :: string
  ow_base_revision :: string
  ow_adapter_mode :: string

definition remove_tree :: "string \<Rightarrow> ('g git_host, unit) prog" where
  "remove_tree target = modify (gh_dirs_update (dpop target))"

text \<open>\<open>unique\<close> is what \<^verbatim>\<open>mkdtemp\<close> makes the name of the new directory unique with.\<close>

definition git_bind_owner_workspace ::
    "'g git \<Rightarrow> string \<Rightarrow> string option \<Rightarrow> string \<Rightarrow> ('g git_host, owner_workspace) prog" where
  "git_bind_owner_workspace G owner base unique =
     bind (git_snapshot G) (\<lambda>snap.
     andthen (raise_when (base \<noteq> None \<and> base \<noteq> Some (sn_revision snap)) IntegrationConflict)
    (bind (lift (owner_name owner)) (\<lambda>name.
     let target = name @ ''-'' @ unique
     in bind (catch_all (run_git G [''worktree'', ''add'', ''--detach'', target, sn_revision snap] None)
               (\<lambda>e. andthen (remove_tree target) (raise_exn (RuntimeError ''failed to create owner worktree'')))) (\<lambda>_.
        andthen (modify (gh_owners_update (dput target owner)))
        (ret \<lparr>ow_owner_id = owner, ow_path = target, ow_base_revision = sn_revision snap, ow_adapter_mode = ''copy''\<rparr>)))))"

definition git_owner_root :: "string \<Rightarrow> string \<Rightarrow> 'g git_host \<Rightarrow> string res" where
  "git_owner_root owner path s =
     (if dget (gh_owners s) path \<noteq> Some owner \<or> dget (gh_dirs s) path = None
      then Inl (ValueError ''owner_workspace must be an adapter-created Git worktree for this owner'') else Inr path)"

text \<open>The files of a worktree, without what git keeps there.\<close>

definition worktree_files :: "tree \<Rightarrow> tree" where
  "worktree_files t = t\<lparr>tr_files := filter (\<lambda>(p, c). hd p \<noteq> ''.git'') (tr_files t)\<rparr>"

definition git_create_changeset ::
    "hashes \<Rightarrow> (string \<Rightarrow> string option \<Rightarrow> string option \<Rightarrow> string) \<Rightarrow> string \<Rightarrow> string \<Rightarrow> workspace_snapshot \<Rightarrow>
     'g git_host \<Rightarrow> changeset res" where
  "git_create_changeset W diff owner path snap s =
     (case git_owner_root owner path s of
        Inl e \<Rightarrow> Inl e
      | Inr r \<Rightarrow> create_changeset W diff owner snap (worktree_files (the (dget (gh_dirs s) r))))"

definition git_cleanup_owner_workspace :: "'g git \<Rightarrow> string \<Rightarrow> ('g git_host, unit) prog" where
  "git_cleanup_owner_workspace G path =
     bind (get (\<lambda>s. dget (gh_owners s) path)) (\<lambda>owner.
     andthen (raise_when (owner = None) (ValueError ''owner_workspace must be an adapter-created Git worktree''))
     (\<lambda>s. case run_git G [''worktree'', ''remove'', ''--force'', path] None s of
        (r, t) \<Rightarrow>
          let u = t\<lparr>gh_owners := dpop path (gh_owners t)\<rparr>
          in (if dget (gh_dirs u) path \<noteq> None
              then Inl (RuntimeError ''Git reported removal but owner worktree still exists'')
              else case r of Inl e \<Rightarrow> Inl (RuntimeError ''failed to remove owner worktree'') | Inr _ \<Rightarrow> Inr (), u)))"

section \<open>Integration and adoption\<close>

definition git_validate_changeset :: "builtins \<Rightarrow> changeset \<Rightarrow> writer_lease list \<Rightarrow> unit res" where
  "git_validate_changeset B c ls =
     validate_changes B (ch_base_revision c)
       (filter (\<lambda>l. le_status l = LS_active \<and> le_owner_agent_id l = ch_owner_id c) ls) (ch_files c)"

definition git_integrate :: "builtins \<Rightarrow> changeset \<Rightarrow> writer_lease list \<Rightarrow> workspace_snapshot res" where
  "git_integrate B c ls =
     (case git_validate_changeset B c ls of
        Inl e \<Rightarrow> Inl e
      | Inr _ \<Rightarrow> Inl (RuntimeError ''Git owner worktrees do not write the canonical checkout implicitly''))"

text \<open>
  One file of the integration worktree: \<^verbatim>\<open>unlink\<close> if it exists, or \<^verbatim>\<open>mkdir(parents=True)\<close>, the comparison with
  the digest before the change, and \<^verbatim>\<open>write_bytes\<close>.
\<close>

definition adopt_change :: "hashes \<Rightarrow> file_change \<Rightarrow> (tree, unit) prog" where
  "adopt_change W c =
     bind (lift (normal_path (fc_path c))) (\<lambda>relative.
     let p = path_parts relative in
     case fc_after_content c of
       None \<Rightarrow>
         bind (get (\<lambda>t. p \<in> tr_dirs t)) (\<lambda>dir.
         andthen (raise_when dir OSError) (modify (tr_files_update (dpop p))))
     | Some new \<Rightarrow>
         bind (get (\<lambda>t. \<exists>q \<in> set (dkeys (tr_files t)). q \<in> ancestors p)) (\<lambda>clash.
         andthen (raise_when clash OSError)
        (andthen (modify (\<lambda>t. t\<lparr>tr_dirs := tr_dirs t \<union> ancestors p\<rparr>))
        (bind (get (\<lambda>t. map_option (ha_hex W) (dget (tr_files t) p))) (\<lambda>before.
         andthen (raise_when (before \<noteq> fc_before_hash c) IntegrationConflict)
        (bind (get (\<lambda>t. p \<in> tr_dirs t)) (\<lambda>dir.
         andthen (raise_when dir OSError) (modify (tr_files_update (dput p new)))))))))) "

definition empty_tree :: tree where
  "empty_tree = \<lparr>tr_files = [], tr_dirs = {}, tr_escaped = []\<rparr>"

definition in_directory :: "string \<Rightarrow> (tree, 'a) prog \<Rightarrow> ('g git_host, 'a) prog" where
  "in_directory target m =
     (\<lambda>s. case m (case dget (gh_dirs s) target of None \<Rightarrow> empty_tree | Some t \<Rightarrow> t) of
        (r, t) \<Rightarrow> (r, s\<lparr>gh_dirs := dput target t (gh_dirs s)\<rparr>))"

fun normal_paths :: "file_change list \<Rightarrow> string list res" where
  "normal_paths [] = Inr []"
| "normal_paths (c # cs) =
     (case normal_path (fc_path c) of
        Inl e \<Rightarrow> Inl e
      | Inr p \<Rightarrow> (case normal_paths cs of Inl e \<Rightarrow> Inl e | Inr ps \<Rightarrow> Inr (p # ps)))"

definition adopt_in_worktree ::
    "'g git \<Rightarrow> hashes \<Rightarrow> changeset \<Rightarrow> string option \<Rightarrow> string \<Rightarrow> string \<Rightarrow> ('g git_host, string) prog" where
  "adopt_in_worktree G W c commit_message target revision =
     bind (run_git G [''worktree'', ''add'', ''--detach'', target, revision] None) (\<lambda>_.
     andthen (in_directory target (for_each (ch_files c) (adopt_change W)))
    (bind (lift (normal_paths (ch_files c))) (\<lambda>paths.
     bind (run_git G ([''add'', ''--''] @ paths) (Some target)) (\<lambda>_.
     let message = (case commit_message of
                      Some (m # ms) \<Rightarrow> m # ms | _ \<Rightarrow> ''Adopt ChangeSet from '' @ ch_owner_id c)
     in andthen (raise_when (strip message = []) (ValueError ''commit_message must not be blank''))
       (bind (run_git G [''commit'', ''-m'', message] (Some target)) (\<lambda>_.
        run_git G [''rev-parse'', ''HEAD''] (Some target)))))))"

text \<open>The except clauses, and the finally clause: the worktree is removed by git and then from the disk.\<close>

definition adoption_error :: "exn \<Rightarrow> bool" where
  "adoption_error e = (case e of OSError \<Rightarrow> True | RuntimeError _ \<Rightarrow> True | _ \<Rightarrow> False)"

definition discard_worktree :: "'g git \<Rightarrow> string \<Rightarrow> ('g git_host, unit) prog" where
  "discard_worktree G target =
     (\<lambda>s. case run_git G [''worktree'', ''remove'', ''--force'', target] None s of
        (Inl (RuntimeError m), t) \<Rightarrow> remove_tree target t
      | (Inl e, t) \<Rightarrow> (Inl e, t)
      | (Inr _, t) \<Rightarrow> remove_tree target t)"

definition with_cleanup :: "('s, 'a) prog \<Rightarrow> ('s, unit) prog \<Rightarrow> ('s, 'a) prog" where
  "with_cleanup m cleanup =
     (\<lambda>s. case m s of (r, t) \<Rightarrow> (case cleanup t of (Inl e, u) \<Rightarrow> (Inl e, u) | (Inr _, u) \<Rightarrow> (r, u)))"

definition adopt_changeset ::
    "'g git \<Rightarrow> hashes \<Rightarrow> builtins \<Rightarrow> changeset \<Rightarrow> writer_lease list \<Rightarrow> string option \<Rightarrow> string \<Rightarrow> ('g git_host, string) prog" where
  "adopt_changeset G W B c ls commit_message target =
     andthen (lift (git_validate_changeset B c ls))
    (andthen (require_clean_canonical G)
    (bind (run_git G [''rev-parse'', ''HEAD''] None) (\<lambda>current.
     andthen (raise_when (current \<noteq> ch_base_revision c) IntegrationConflict)
    (andthen (raise_when (ch_files c = []) (ChangeSetRejected ''empty ChangeSet cannot be adopted''))
    (with_cleanup (rewrap adoption_error (RuntimeError ''failed to adopt ChangeSet'')
               (adopt_in_worktree G W c commit_message target current))
       (discard_worktree G target))))))"

section \<open>What git promises\<close>

text \<open>
  What a repository holds, as far as the adapter can tell: the commit of the canonical checkout, the files
  of a commit, the index of a worktree and the commit it is at.
\<close>

record 'g git_view =
  gv_head :: "'g \<Rightarrow> string"
  gv_files :: "'g \<Rightarrow> string \<Rightarrow> (string \<Rightarrow> string option) option"
  gv_index :: "'g \<Rightarrow> string \<Rightarrow> string \<Rightarrow> string option"
  gv_worktree_head :: "'g \<Rightarrow> string \<Rightarrow> string"

definition keeps_history :: "'g git_view \<Rightarrow> 'g \<Rightarrow> 'g \<Rightarrow> bool" where
  "keeps_history V g h \<longleftrightarrow>
     gv_head V h = gv_head V g \<and> (\<forall>c f. gv_files V g c = Some f \<longrightarrow> gv_files V h c = Some f)"

text \<open>
  The documented behaviour of the commands. The queries change nothing.
\<close>

definition git_queries :: "'g git \<Rightarrow> 'g git_view \<Rightarrow> bool" where
  "git_queries G V \<longleftrightarrow>
     (\<forall>args cwd s. hd args \<in> {''status'', ''rev-parse''} \<longrightarrow> snd (run_git G args cwd s) = s) \<and>
     (\<forall>s out. fst (run_git G [''rev-parse'', ''HEAD''] None s) = Inr out \<longrightarrow> out = gv_head V (gh_repo s)) \<and>
     (\<forall>s out target. fst (run_git G [''rev-parse'', ''HEAD''] (Some target) s) = Inr out \<longrightarrow>
        out = gv_worktree_head V (gh_repo s) target)"

text \<open>
  The commands on a detached worktree move no branch, lose no commit and touch no other directory: \<^verbatim>\<open>worktree add\<close>
  checks a commit out, \<^verbatim>\<open>add\<close> puts the named files into the index, \<^verbatim>\<open>commit\<close> records the index.
\<close>

definition git_checks_out :: "'g git \<Rightarrow> 'g git_view \<Rightarrow> bool" where
  "git_checks_out G V \<longleftrightarrow>
     (\<forall>s t r target revision. run_git G [''worktree'', ''add'', ''--detach'', target, revision] None s = (r, t) \<longrightarrow>
        keeps_history V (gh_repo s) (gh_repo t) \<and> (\<forall>n. n \<noteq> target \<longrightarrow> dget (gh_dirs t) n = dget (gh_dirs s) n) \<and>
        (\<forall>out f. r = Inr out \<and> gv_files V (gh_repo s) revision = Some f \<longrightarrow>
           (\<exists>b. dget (gh_dirs t) target = Some b \<and> wf_tree b) \<and> gv_index V (gh_repo t) target = f))"

definition git_stages :: "'g git \<Rightarrow> 'g git_view \<Rightarrow> bool" where
  "git_stages G V \<longleftrightarrow>
     (\<forall>s t r target paths. run_git G ([''add'', ''--''] @ paths) (Some target) s = (r, t) \<longrightarrow>
        keeps_history V (gh_repo s) (gh_repo t) \<and> gh_dirs t = gh_dirs s \<and>
        (\<forall>out b. r = Inr out \<and> dget (gh_dirs s) target = Some b \<longrightarrow>
           gv_index V (gh_repo t) target = (\<lambda>q. if q \<in> set paths then content b q else gv_index V (gh_repo s) target q)))"

definition git_commits :: "'g git \<Rightarrow> 'g git_view \<Rightarrow> bool" where
  "git_commits G V \<longleftrightarrow>
     (\<forall>s t r target message. run_git G [''commit'', ''-m'', message] (Some target) s = (r, t) \<longrightarrow>
        keeps_history V (gh_repo s) (gh_repo t) \<and> gh_dirs t = gh_dirs s \<and>
        (\<forall>out. r = Inr out \<longrightarrow>
           gv_files V (gh_repo t) (gv_worktree_head V (gh_repo t) target) = Some (gv_index V (gh_repo s) target)))"

definition git_removes :: "'g git \<Rightarrow> 'g git_view \<Rightarrow> bool" where
  "git_removes G V \<longleftrightarrow>
     (\<forall>s t r target. run_git G [''worktree'', ''remove'', ''--force'', target] None s = (r, t) \<longrightarrow>
        keeps_history V (gh_repo s) (gh_repo t) \<and> (\<forall>n. n \<noteq> target \<longrightarrow> dget (gh_dirs t) n = dget (gh_dirs s) n))"

text \<open>It tracks ordinary paths outside \<^verbatim>\<open>.git\<close> only.\<close>

definition git_tracks :: "'g git_view \<Rightarrow> bool" where
  "git_tracks V \<longleftrightarrow>
     (\<forall>g c f q. gv_files V g c = Some f \<longrightarrow> f q \<noteq> None \<longrightarrow> (\<exists>p. wf_path p \<and> hd p \<noteq> ''.git'' \<and> q = join_slash p))"

definition git_behaves :: "'g git \<Rightarrow> 'g git_view \<Rightarrow> bool" where
  "git_behaves G V \<longleftrightarrow>
     git_queries G V \<and> git_checks_out G V \<and> git_stages G V \<and> git_commits G V \<and> git_removes G V \<and> git_tracks V"

lemma git_query:
  assumes "git_behaves G V" and "run_git G args cwd s = (r, t)" and "hd args \<in> {''status'', ''rev-parse''}"
  shows "t = s"
proof -
  have "snd (run_git G args cwd s) = s" using assms(1,3) unfolding git_behaves_def git_queries_def by blast
  with assms(2) show ?thesis by simp
qed

lemma git_heads:
  assumes "git_behaves G V" and "run_git G [''rev-parse'', ''HEAD''] cwd s = (Inr out, t)"
  shows "out = (case cwd of None \<Rightarrow> gv_head V (gh_repo s) | Some target \<Rightarrow> gv_worktree_head V (gh_repo s) target)"
proof -
  have "fst (run_git G [''rev-parse'', ''HEAD''] cwd s) = Inr out" using assms(2) by simp
  with assms(1) show ?thesis unfolding git_behaves_def git_queries_def by (cases cwd) auto
qed

lemma git_worktree_add:
  assumes "git_behaves G V" and "run_git G [''worktree'', ''add'', ''--detach'', target, revision] None s = (r, t)"
  shows "keeps_history V (gh_repo s) (gh_repo t)" and "n \<noteq> target \<Longrightarrow> dget (gh_dirs t) n = dget (gh_dirs s) n"
    and "r = Inr out \<Longrightarrow> gv_files V (gh_repo s) revision = Some f \<Longrightarrow>
      (\<exists>b. dget (gh_dirs t) target = Some b \<and> wf_tree b) \<and> gv_index V (gh_repo t) target = f"
  using assms unfolding git_behaves_def git_checks_out_def by simp_all

lemma git_add:
  assumes "git_behaves G V" and "run_git G ([''add'', ''--''] @ paths) (Some target) s = (r, t)"
  shows "keeps_history V (gh_repo s) (gh_repo t)" and "gh_dirs t = gh_dirs s"
    and "r = Inr out \<Longrightarrow> dget (gh_dirs s) target = Some b \<Longrightarrow>
      gv_index V (gh_repo t) target = (\<lambda>q. if q \<in> set paths then content b q else gv_index V (gh_repo s) target q)"
proof -
  have "git_stages G V" using assms(1) by (simp add: git_behaves_def)
  note law = this [unfolded git_stages_def, rule_format, OF assms(2)]
  show "keeps_history V (gh_repo s) (gh_repo t)" "gh_dirs t = gh_dirs s" using law by blast+
  show "r = Inr out \<Longrightarrow> dget (gh_dirs s) target = Some b \<Longrightarrow>
      gv_index V (gh_repo t) target = (\<lambda>q. if q \<in> set paths then content b q else gv_index V (gh_repo s) target q)"
    using law by blast
qed

lemma git_commit:
  assumes "git_behaves G V" and "run_git G [''commit'', ''-m'', message] (Some target) s = (r, t)"
  shows "keeps_history V (gh_repo s) (gh_repo t)" and "gh_dirs t = gh_dirs s"
    and "r = Inr out \<Longrightarrow> gv_files V (gh_repo t) (gv_worktree_head V (gh_repo t) target) = Some (gv_index V (gh_repo s) target)"
proof -
  have "git_commits G V" using assms(1) by (simp add: git_behaves_def)
  note law = this [unfolded git_commits_def, rule_format, OF assms(2)]
  show "keeps_history V (gh_repo s) (gh_repo t)" "gh_dirs t = gh_dirs s" using law by blast+
  show "r = Inr out \<Longrightarrow> gv_files V (gh_repo t) (gv_worktree_head V (gh_repo t) target) = Some (gv_index V (gh_repo s) target)"
    using law by blast
qed

lemma git_worktree_remove:
  assumes "git_behaves G V" and "run_git G [''worktree'', ''remove'', ''--force'', target] None s = (r, t)"
  shows "keeps_history V (gh_repo s) (gh_repo t)" and "n \<noteq> target \<Longrightarrow> dget (gh_dirs t) n = dget (gh_dirs s) n"
  using assms unfolding git_behaves_def git_removes_def by simp_all

lemma git_paths:
  "git_behaves G V \<Longrightarrow> gv_files V g c = Some f \<Longrightarrow> f q \<noteq> None \<Longrightarrow> \<exists>p. wf_path p \<and> hd p \<noteq> ''.git'' \<and> q = join_slash p"
  unfolding git_behaves_def git_tracks_def by blast

lemma run_git_owners: "run_git G args cwd s = (r, t) \<Longrightarrow> gh_owners t = gh_owners s"
  by (auto simp: run_git_def split: prod.splits)

section \<open>Nothing but the worktree changes\<close>

text \<open>Beside a directory of its own, an operation leaves the directories, their owners and the history as they were.\<close>

definition beside :: "'g git_view \<Rightarrow> string \<Rightarrow> 'g git_host \<Rightarrow> 'g git_host \<Rightarrow> bool" where
  "beside V target s t \<longleftrightarrow>
     keeps_history V (gh_repo s) (gh_repo t) \<and> gh_owners t = gh_owners s \<and>
     (\<forall>n. n \<noteq> target \<longrightarrow> dget (gh_dirs t) n = dget (gh_dirs s) n)"

lemma beside_refl [simp]: "beside V target s s"
  by (simp add: beside_def keeps_history_def)

lemma beside_git:
  assumes git: "git_behaves G V" and "beside V target s t" and "run_git G args cwd t = (r, u)"
    and "(\<exists>revision. args = [''worktree'', ''add'', ''--detach'', target, revision]) \<and> cwd = None \<or>
      args = [''worktree'', ''remove'', ''--force'', target] \<and> cwd = None \<or>
      (\<exists>paths. args = [''add'', ''--''] @ paths) \<and> cwd = Some target \<or>
      (\<exists>m. args = [''commit'', ''-m'', m]) \<and> cwd = Some target \<or> hd args \<in> {''status'', ''rev-parse''}"
  shows "beside V target s u"
proof -
  have "keeps_history V (gh_repo t) (gh_repo u) \<and> (\<forall>n. n \<noteq> target \<longrightarrow> dget (gh_dirs u) n = dget (gh_dirs t) n)"
    using assms(4)
  proof (elim disjE conjE exE)
    fix revision assume "args = [''worktree'', ''add'', ''--detach'', target, revision]" "cwd = None"
    then show ?thesis using git_worktree_add(1,2) [OF git] assms(3) by blast
  next
    assume "args = [''worktree'', ''remove'', ''--force'', target]" "cwd = None"
    then show ?thesis using git_worktree_remove [OF git] assms(3) by blast
  next
    fix paths assume "args = [''add'', ''--''] @ paths" "cwd = Some target"
    then show ?thesis using git_add(1,2) [OF git, of paths target t r u] assms(3) by simp
  next
    fix m assume "args = [''commit'', ''-m'', m]" "cwd = Some target"
    then show ?thesis using git_commit(1,2) [OF git, of m target t r u] assms(3) by simp
  next
    assume "hd args \<in> {''status'', ''rev-parse''}"
    then show ?thesis using git_query [OF git assms(3)] by (simp add: keeps_history_def)
  qed
  then show ?thesis using assms(2) run_git_owners [OF assms(3)] by (auto simp: beside_def keeps_history_def)
qed

lemma keeps_run_git:
  assumes "git_behaves G V"
  shows "keeps (beside V target s) (run_git G [''worktree'', ''add'', ''--detach'', target, revision] None)"
    and "keeps (beside V target s) (run_git G [''worktree'', ''remove'', ''--force'', target] None)"
    and "keeps (beside V target s) (run_git G ([''add'', ''--''] @ paths) (Some target))"
    and "keeps (beside V target s) (run_git G [''commit'', ''-m'', m] (Some target))"
    and "keeps (beside V target s) (run_git G [''rev-parse'', ''HEAD''] cwd)"
    and "keeps (beside V target s) (run_git G [''status'', a, b] cwd)"
  by (rule keepsI, erule (1) beside_git [OF assms], simp)+

lemma keeps_in_directory: "keeps (beside V target s) (in_directory target m)"
  by (rule keepsI) (auto simp: in_directory_def beside_def split: prod.splits)

lemma keeps_remove_tree: "keeps (beside V target s) (remove_tree target)"
  by (rule keepsI) (auto simp: remove_tree_def beside_def)

lemma keeps_with_cleanup: "keeps P m \<Longrightarrow> keeps P n \<Longrightarrow> keeps P (with_cleanup m n)"
  by (fastforce simp: keeps_def with_cleanup_def split: prod.split sum.split)

lemma keeps_discard:
  assumes "git_behaves G V"
  shows "keeps (beside V target s) (discard_worktree G target)"
proof (rule keepsI)
  fix t r u assume t: "beside V target s t" and run: "discard_worktree G target t = (r, u)"
  obtain q v where v: "run_git G [''worktree'', ''remove'', ''--force'', target] None t = (q, v)" by fastforce
  have "beside V target s v" by (rule keepsD [OF keeps_run_git(2) [OF assms] t v])
  moreover from this have "beside V target s (snd (remove_tree target v))"
    using keeps_remove_tree by (auto simp: keeps_def)
  ultimately show "beside V target s u"
    using run v by (auto simp: discard_worktree_def split: sum.splits exn.splits prod.splits)
qed

lemma adopt_beside:
  assumes "git_behaves G V" and "adopt_changeset G W B c ls msg target s = (r, t)"
  shows "beside V target s t"
proof -
  have "keeps (beside V target s) (adopt_changeset G W B c ls msg target)"
    unfolding adopt_changeset_def adopt_in_worktree_def require_clean_canonical_def Let_def
    by (intro keeps_intros keeps_with_cleanup keeps_discard keeps_run_git keeps_in_directory assms(1))
  from keepsD [OF this beside_refl assms(2)] show ?thesis .
qed


section \<open>An adopted change set\<close>

lemma adopt_change_Inr:
  assumes "adopt_change W c t = (Inr (), u)" and "wf_path p" and "fc_path c = join_slash p"
  shows "tr_files u = (case fc_after_content c of None \<Rightarrow> dpop p (tr_files t) | Some x \<Rightarrow> dput p x (tr_files t))"
  using assms by (auto simp: adopt_change_def Let_def normal_path_join prog_simps split: option.splits if_splits)

interpretation adoption_step: change_step "adopt_change W" for W
  by unfold_locales (rule adopt_change_Inr)

lemma wf_worktree_files: "wf_tree w \<Longrightarrow> wf_tree (worktree_files w)"
proof -
  have "distinct (map fst (filter P xs))" if "distinct (map fst xs)" for P and xs :: "(string list \<times> string) list"
    using that by (induction xs) auto
  then show "wf_tree w \<Longrightarrow> wf_tree (worktree_files w)" by (auto simp: wf_tree_def worktree_files_def)
qed

text \<open>The change set of a worktree that was checked out at a commit, by the files of that commit.\<close>

lemma git_changes:
  assumes git: "git_behaves G V" and base: "gv_files V g commit = Some f" "\<And>q. dget (sn_files snap) q = f q"
    and work: "dget (gh_dirs s) wt = Some w" "wf_tree w" and c: "git_create_changeset W diff owner wt snap s = Inr c"
  shows "good_changes (ch_files c)" and "ch_base_revision c = sn_revision snap"
    and "changed_to (ch_files c) q = (if f q = content (worktree_files w) q then None else Some (content (worktree_files w) q))"
proof -
  let ?w = "worktree_files w"
  have wf: "wf_tree ?w" using wf_worktree_files [OF work(2)] .
  have "create_changeset W diff owner snap ?w = Inr c"
    using c work(1) by (auto simp: git_create_changeset_def git_owner_root_def split: if_splits)
  then obtain cur ps where cur: "files_of (tr_files ?w) [] = Inr cur" and ps: "distinct ps"
    and mem: "\<And>q. q \<in> set ps \<longleftrightarrow> dget (sn_files snap) q \<noteq> dget cur q"
    and c: "c = \<lparr>ch_owner_id = owner, ch_base_revision = sn_revision snap,
               ch_files = map (change_at W diff (sn_files snap) cur) ps\<rparr>" by (rule create_changeset_shape) blast
  have new: "dget cur q = content ?w q" for q using files_of_content [OF wf] cur by (metis Inr_inject)
  have "\<exists>p. wf_path p \<and> q = join_slash p" if "q \<in> set ps" for q
  proof (cases "f q = None")
    case True
    then have "content ?w q \<noteq> None" using that mem [of q] base(2) [of q] new [of q] by metis
    then show ?thesis using content_Some_join [OF wf] by blast
  next
    case False
    with git_paths [OF git base(1)] show ?thesis by blast
  qed
  then show "good_changes (ch_files c)" using ps by (auto simp: good_changes_def c comp_def)
  show "ch_base_revision c = sn_revision snap" by (simp add: c)
  show "changed_to (ch_files c) q = (if f q = content ?w q then None else Some (content ?w q))"
    using mem [of q] base(2) [of q] new [of q] by (simp add: c changed_to_map)
qed

lemma normal_paths_good: "good_changes cs \<Longrightarrow> normal_paths cs = Inr (map fc_path cs)"
proof (induction cs)
  case (Cons c cs)
  then obtain p where "wf_path p" "fc_path c = join_slash p" by (auto simp: good_changes_def)
  with Cons show ?case by (auto simp: normal_path_join good_changes_def)
qed simp

lemma changed_to_path: "changed_to cs q \<noteq> None \<longleftrightarrow> q \<in> fc_path ` set cs"
  by (auto simp: changed_to_def find_None_iff)

text \<open>A commit made in the worktree has the files of the base, with the changes made.\<close>

lemma adopt_in_worktree_Inr:
  assumes git: "git_behaves G V" and base: "gv_files V (gh_repo s) revision = Some f" and good: "good_changes (ch_files c)"
    and run: "adopt_in_worktree G W c msg target revision s = (Inr k, t)"
  shows "gv_files V (gh_repo t) k = Some (\<lambda>q. case changed_to (ch_files c) q of None \<Rightarrow> f q | Some x \<Rightarrow> x)"
proof -
  let ?paths = "map fc_path (ch_files c)"
  from run obtain o1 s1 u1 s2 ps s3 o3 s4 m u4 s5 o5 s6 where
    add: "run_git G [''worktree'', ''add'', ''--detach'', target, revision] None s = (Inr o1, s1)"
    and wrote: "in_directory target (for_each (ch_files c) (adopt_change W)) s1 = (Inr u1, s2)"
    and ps: "normal_paths (ch_files c) = Inr ps"
    and stage: "run_git G ([''add'', ''--''] @ ps) (Some target) s2 = (Inr o3, s4)"
    and com: "run_git G [''commit'', ''-m'', m] (Some target) s4 = (Inr o5, s6)"
    and head: "run_git G [''rev-parse'', ''HEAD''] (Some target) s6 = (Inr k, t)"
    unfolding adopt_in_worktree_def Let_def
    by (elim bind_InrE andthen_InrE) (auto simp: prog_simps split: if_splits)
  obtain b where b: "dget (gh_dirs s1) target = Some b" "wf_tree b" and index: "gv_index V (gh_repo s1) target = f"
    using git_worktree_add(3) [OF git add refl base] by blast
  obtain u where u: "for_each (ch_files c) (adopt_change W) b = (Inr (), u)" and s2: "s2 = s1\<lparr>gh_dirs := dput target u (gh_dirs s1)\<rparr>"
    using wrote b(1) by (auto simp: in_directory_def split: prod.splits)
  have content: "content u q = (case changed_to (ch_files c) q of None \<Rightarrow> content b q | Some x \<Rightarrow> x)" for q
    using adoption_step.steps_content [OF u good b(2)] by blast
  have "dget (gh_dirs s2) target = Some u" and repo: "gh_repo s2 = gh_repo s1" by (simp_all add: s2)
  from git_add(3) [OF git stage refl this(1)]
  have i: "gv_index V (gh_repo s4) target = (\<lambda>q. if q \<in> set ?paths then content u q else f q)"
    using ps normal_paths_good [OF good] index repo by (simp cong: if_cong)
  have "gv_index V (gh_repo s4) target = (\<lambda>q. case changed_to (ch_files c) q of None \<Rightarrow> f q | Some x \<Rightarrow> x)"
    unfolding i
  proof (rule ext)
    fix q show "(if q \<in> set ?paths then content u q else f q) = (case changed_to (ch_files c) q of None \<Rightarrow> f q | Some x \<Rightarrow> x)"
      using changed_to_path [of "ch_files c" q] content [of q] by (auto split: option.split)
  qed
  with git_commit(3) [OF git com refl] have "gv_files V (gh_repo s6) (gv_worktree_head V (gh_repo s6) target) =
      Some (\<lambda>q. case changed_to (ch_files c) q of None \<Rightarrow> f q | Some x \<Rightarrow> x)" by simp
  moreover have "t = s6" using git_query [OF git head] by simp
  moreover have "k = gv_worktree_head V (gh_repo s6) target" using git_heads [OF git head] by simp
  ultimately show ?thesis by simp
qed

lemma discard_Inr:
  assumes "git_behaves G V" and "discard_worktree G target s = (Inr x, t)"
  shows "dget (gh_dirs t) target = None" and "keeps_history V (gh_repo s) (gh_repo t)"
proof -
  obtain q v where v: "run_git G [''worktree'', ''remove'', ''--force'', target] None s = (q, v)" by fastforce
  then have "t = v\<lparr>gh_dirs := dpop target (gh_dirs v)\<rparr>"
    using assms(2) by (auto simp: discard_worktree_def remove_tree_def split: sum.splits exn.splits)
  then show "dget (gh_dirs t) target = None" "keeps_history V (gh_repo s) (gh_repo t)"
    using git_worktree_remove(1) [OF assms(1) v] by (simp_all add: delete_conv)
qed

text \<open>
  C32. Adopting the change set of a worker commits exactly the worker's files, and nothing else changes. If git does
  what it documents, then after an adoption, successful or not, the canonical checkout is at the same commit and
  every directory but the integration worktree is as it was. If it succeeds, the change set was made of the
  commit the checkout is at, each of its paths is covered by an active lease of its owner, the integration
  worktree is gone, and the files of the new commit are those of the worker's worktree.
\<close>

theorem adoption_commits_work:
  assumes git: "git_behaves G V" and base: "gv_files V (gh_repo s) (sn_revision snap) = Some f" "\<And>q. dget (sn_files snap) q = f q"
    and work: "dget (gh_dirs s) wt = Some w" "wf_tree w" and c: "git_create_changeset W diff owner wt snap s = Inr c"
    and run: "adopt_changeset G W B c ls msg target s = (r, t)"
  shows "gv_head V (gh_repo t) = gv_head V (gh_repo s) \<and> (\<forall>n. n \<noteq> target \<longrightarrow> dget (gh_dirs t) n = dget (gh_dirs s) n) \<and>
    (\<forall>k. r = Inr k \<longrightarrow> sn_revision snap = gv_head V (gh_repo s) \<and>
       (\<forall>x \<in> set (ch_files c). \<exists>l \<in> set ls. le_status l = LS_active \<and> le_owner_agent_id l = ch_owner_id c \<and>
          allows B (fc_path x) (le_region l) (sn_revision snap) = Inr True) \<and>
       dget (gh_dirs t) target = None \<and> gv_files V (gh_repo t) k = Some (content (worktree_files w)))"
proof (intro conjI allI impI)
  note beside = adopt_beside [OF git run]
  show "gv_head V (gh_repo t) = gv_head V (gh_repo s)" using beside by (simp add: beside_def keeps_history_def)
  show "dget (gh_dirs t) n = dget (gh_dirs s) n" if "n \<noteq> target" for n using beside that by (simp add: beside_def)
  fix k assume r: "r = Inr k"
  note ch = git_changes [OF git base work c]
  from run [unfolded r adopt_changeset_def] obtain u0 s1 o2 s2 s3 where
    valid: "git_validate_changeset B c ls = Inr u0"
    and clean: "require_clean_canonical G s = (Inr (), s1)"
    and head: "run_git G [''rev-parse'', ''HEAD''] None s1 = (Inr o2, s2)" and same: "o2 = ch_base_revision c"
    and body: "with_cleanup (rewrap adoption_error (RuntimeError ''failed to adopt ChangeSet'')
               (adopt_in_worktree G W c msg target o2)) (discard_worktree G target) s2 = (Inr k, t)"
    by (elim bind_InrE andthen_InrE) (auto simp: prog_simps split: if_splits)
  have "s1 = s" using clean git_query [OF git] by (auto simp: require_clean_canonical_def prog_simps split: if_splits)
  moreover have "s2 = s1" using git_query [OF git head] by simp
  ultimately have s2: "s2 = s" by simp
  then show rev: "sn_revision snap = gv_head V (gh_repo s)" using git_heads [OF git head] same ch(2) \<open>s2 = s1\<close> by simp
  show "\<forall>x \<in> set (ch_files c). \<exists>l \<in> set ls. le_status l = LS_active \<and> le_owner_agent_id l = ch_owner_id c \<and>
          allows B (fc_path x) (le_region l) (sn_revision snap) = Inr True"
    using valid validate_changes_Inr [of B "ch_base_revision c"] unfolding git_validate_changeset_def ch(2) by fastforce
  obtain v where v: "adopt_in_worktree G W c msg target o2 s = (Inr k, v)" and d: "discard_worktree G target v = (Inr (), t)"
    using body unfolding s2 with_cleanup_def
    by (auto simp: rewrap_eq_Inr split: prod.splits sum.splits)
  show "dget (gh_dirs t) target = None" using discard_Inr(1) [OF git d] .
  have "gv_files V (gh_repo v) k = Some (\<lambda>q. case changed_to (ch_files c) q of None \<Rightarrow> f q | Some x \<Rightarrow> x)"
    using adopt_in_worktree_Inr [OF git _ ch(1) v] base(1) same ch(2) by simp
  moreover have "(\<lambda>q. case changed_to (ch_files c) q of None \<Rightarrow> f q | Some x \<Rightarrow> x) = content (worktree_files w)"
    using ch(3) by (auto simp: fun_eq_iff)
  ultimately show "gv_files V (gh_repo t) k = Some (content (worktree_files w))"
    using discard_Inr(2) [OF git d] by (simp add: keeps_history_def)
qed

section \<open>An example repository\<close>

text \<open>A small git: its commits, a tree for each commit that can be checked out, and for each worktree its index and commit.\<close>

record example_repo =
  er_head :: string
  er_commits :: "(string, string \<Rightarrow> string option) dict"
  er_trees :: "(string, tree) dict"
  er_index :: "string \<Rightarrow> string \<Rightarrow> string option"
  er_at :: "string \<Rightarrow> string"

definition tracked :: "string \<Rightarrow> bool" where
  "tracked q \<longleftrightarrow> (\<exists>p. wf_path p \<and> hd p \<noteq> ''.git'' \<and> q = join_slash p)"

definition tracked_files :: "(string \<Rightarrow> string option) \<Rightarrow> string \<Rightarrow> string option" where
  "tracked_files f q = (if tracked q then f q else None)"

definition told :: "string \<Rightarrow> process_result res" where
  "told out = Inr \<lparr>pr_returncode = 0, pr_stdout = out, pr_stderr = []\<rparr>"

definition refused :: "process_result res" where
  "refused = Inr \<lparr>pr_returncode = 1, pr_stdout = [], pr_stderr = ''fatal''\<rparr>"

definition example_run :: "string list \<Rightarrow> string option \<Rightarrow> example_repo \<times> directories \<Rightarrow> process_result res \<times> example_repo \<times> directories" where
  "example_run args cwd x =
     (case x of (g, d) \<Rightarrow>
      if args = [''rev-parse'', ''HEAD''] then (told (case cwd of None \<Rightarrow> er_head g | Some t \<Rightarrow> er_at g t), x)
      else if take 3 args = [''worktree'', ''add'', ''--detach'']
      then (case (dget (er_commits g) (args ! 4), dget (er_trees g) (args ! 4)) of
              (Some f, Some b) \<Rightarrow>
                if wf_tree b
                then (told [], g\<lparr>er_index := (er_index g)(args ! 3 := f), er_at := (er_at g)(args ! 3 := args ! 4)\<rparr>, dput (args ! 3) b d)
                else (refused, x)
            | _ \<Rightarrow> (refused, x))
      else if take 3 args = [''worktree'', ''remove'', ''--force''] then (told [], g, dpop (args ! 3) d)
      else if take 2 args = [''add'', ''--'']
      then (case cwd of None \<Rightarrow> (refused, x) | Some t \<Rightarrow>
           (case dget d t of None \<Rightarrow> (refused, x) | Some b \<Rightarrow>
              if \<forall>q \<in> set (drop 2 args). tracked q
              then (told [], g\<lparr>er_index := (er_index g)(t := (\<lambda>q. if q \<in> set (drop 2 args) then content b q else er_index g t q))\<rparr>, d)
              else (refused, x)))
      else if take 2 args = [''commit'', ''-m'']
      then (case cwd of None \<Rightarrow> (refused, x) | Some t \<Rightarrow>
              if dget (er_commits g) ''c1'' = None
              then (told [], g\<lparr>er_commits := (''c1'', er_index g t) # er_commits g, er_at := (er_at g)(t := ''c1'')\<rparr>, d)
              else (refused, x))
      else (told [], x))"

definition example_git :: "example_repo git" where
  "example_git = \<lparr>gi_run = example_run, gi_show = (\<lambda>_ _. refused)\<rparr>"

definition example_view :: "example_repo git_view" where
  "example_view =
     \<lparr>gv_head = (\<lambda>g. strip (er_head g)), gv_files = (\<lambda>g c. map_option tracked_files (dget (er_commits g) c)),
      gv_index = (\<lambda>g t. tracked_files (er_index g t)), gv_worktree_head = (\<lambda>g t. strip (er_at g t))\<rparr>"

lemma strip_c1 [simp]: "strip ''c1'' = ''c1''" and strip_c0 [simp]: "strip ''c0'' = ''c0''" and strip_nil [simp]: "strip [] = []"
  by (simp_all add: strip_def py_space_def)

lemma run_example:
  "run_git example_git args cwd s =
     (case example_run args cwd (gh_repo s, gh_dirs s) of
        (r, g, d) \<Rightarrow> (case r of Inl e \<Rightarrow> Inl e | Inr p \<Rightarrow> if pr_returncode p \<noteq> 0 then Inl (git_error p) else Inr (strip (pr_stdout p)),
           s\<lparr>gh_repo := g, gh_dirs := d\<rparr>))"
  by (simp add: run_git_def example_git_def)

lemma same_host [simp]: "s\<lparr>gh_repo := gh_repo s, gh_dirs := gh_dirs s\<rparr> = s"
  by simp

lemma example_git_behaves: "git_behaves example_git example_view"
  unfolding git_behaves_def
proof (intro conjI)
  show "git_queries example_git example_view"
    unfolding git_queries_def
  proof (intro conjI allI impI)
    fix args cwd and s :: "example_repo git_host" assume a: "hd args \<in> {''status'', ''rev-parse''}"
    then have "take 3 args \<noteq> ''worktree'' # xs" "take 2 args \<noteq> ''add'' # xs" "take 2 args \<noteq> ''commit'' # xs" for xs
      by (cases args; auto)+
    then show "snd (run_git example_git args cwd s) = s"
      by (simp add: run_example example_run_def)
  qed (simp_all add: run_example example_run_def told_def example_view_def)
  show "git_checks_out example_git example_view"
    unfolding git_checks_out_def
    by (auto simp: run_example example_run_def told_def refused_def example_view_def keeps_history_def
        split: option.splits if_splits)
  show "git_stages example_git example_view"
    unfolding git_stages_def
    by (auto simp: run_example example_run_def told_def refused_def example_view_def keeps_history_def tracked_files_def fun_eq_iff
        split: option.splits if_splits)
  show "git_commits example_git example_view"
    unfolding git_commits_def
    by (auto simp: run_example example_run_def told_def refused_def example_view_def keeps_history_def
        split: option.splits if_splits)
  show "git_removes example_git example_view"
    unfolding git_removes_def
    by (auto simp: run_example example_run_def told_def example_view_def keeps_history_def delete_conv)
  show "git_tracks example_view"
    by (auto simp: git_tracks_def example_view_def tracked_files_def tracked_def split: if_splits)
qed

definition example_host :: "example_repo git_host" where
  "example_host =
     \<lparr>gh_repo = \<lparr>er_head = ''c0'', er_commits = [(''c0'', content (example_tree ''0'' ''0''))],
        er_trees = [(''c0'', example_tree ''0'' ''0'')], er_index = (\<lambda>_ _. None), er_at = (\<lambda>_. [])\<rparr>,
      gh_dirs = [(''w-1'', example_tree ''1'' ''0'')], gh_owners = [(''w-1'', ''w'')]\<rparr>"

lemma example_tracked: "tracked ''a''" "tracked ''b''"
  unfolding tracked_def by (intro exI [of _ "[''a'']"] exI [of _ "[''b'']"]; simp add: wf_path_def wf_part_def)+

lemma example_files: "dget [(''a'', x), (''b'', y)] q = tracked_files (content (example_tree x y)) q"
proof (cases "q = ''a'' \<or> q = ''b''")
  case True
  then show ?thesis by (auto simp: tracked_files_def example_tracked example_content)
next
  case False
  then show ?thesis by (auto simp: tracked_files_def content_def example_tree_def)
qed

lemma example_adopt:
  "adopt_change example_hashes \<lparr>fc_path = ''a'', fc_before_hash = Some ''0'', fc_after_hash = h', fc_diff = d, fc_after_content = Some x\<rparr>
     (example_tree ''0'' b) = (Inr (), example_tree x b)"
  by (auto simp: adopt_change_def example_tree_def normal_path_def path_parts_def Let_def ancestors_def example_hashes_def
      andthen_def bind_def less_Suc_eq)

lemma example_runs:
  "run_git example_git [''status'', x, y] cwd s = (Inr [], s)"
  "run_git example_git [''rev-parse'', ''HEAD''] cwd s =
     (Inr (strip (case cwd of None \<Rightarrow> er_head (gh_repo s) | Some t \<Rightarrow> er_at (gh_repo s) t)), s)"
  "run_git example_git [''worktree'', ''remove'', ''--force'', target] None s = (Inr [], s\<lparr>gh_dirs := dpop target (gh_dirs s)\<rparr>)"
  "dget (er_commits (gh_repo s)) r = Some f \<Longrightarrow> dget (er_trees (gh_repo s)) r = Some b \<Longrightarrow> wf_tree b \<Longrightarrow>
     run_git example_git [''worktree'', ''add'', ''--detach'', target, r] None s =
     (Inr [], s\<lparr>gh_repo := (gh_repo s)\<lparr>er_index := (er_index (gh_repo s))(target := f), er_at := (er_at (gh_repo s))(target := r)\<rparr>,
        gh_dirs := dput target b (gh_dirs s)\<rparr>)"
  "dget (gh_dirs s) target = Some b \<Longrightarrow> tracked q \<Longrightarrow>
     run_git example_git [''add'', ''--'', q] (Some target) s =
     (Inr [], s\<lparr>gh_repo := (gh_repo s)\<lparr>er_index := (er_index (gh_repo s))(target :=
        (\<lambda>p. if p = q then content b p else er_index (gh_repo s) target p))\<rparr>\<rparr>)"
  "dget (er_commits (gh_repo s)) ''c1'' = None \<Longrightarrow>
     run_git example_git [''commit'', ''-m'', m] (Some target) s =
     (Inr [], s\<lparr>gh_repo := (gh_repo s)\<lparr>er_commits := (''c1'', er_index (gh_repo s) target) # er_commits (gh_repo s),
        er_at := (er_at (gh_repo s))(target := ''c1'')\<rparr>\<rparr>)"
  by (simp_all add: run_example example_run_def told_def)

lemma example_adopted:
  "\<exists>t. adopt_changeset example_git example_hashes plain_builtins (one_change example_hashes ''w'' ''c0'' ''a'' (Some ''0'') ''1'')
     [example_lease ''w'' ''a'' ''c0''] None ''integration-1'' example_host = (Inr ''c1'', t)"
proof -
  let ?c = "one_change example_hashes ''w'' ''c0'' ''a'' (Some ''0'') ''1''"
  have valid: "git_validate_changeset plain_builtins ?c [example_lease ''w'' ''a'' ''c0''] = Inr ()"
    using example_validate(1) [of plain_builtins example_hashes "''w''" "''c0''" "Some ''0''" "''1''"]
    by (simp add: git_validate_changeset_def validate_changeset_def active_of_def)
  have np: "normal_path ''a'' = Inr ''a''" by (simp add: normal_path_def path_parts_def Let_def)
  have files: "ch_files ?c \<noteq> []" "normal_paths (ch_files ?c) = Inr [''a'']" "ch_base_revision ?c = ''c0''" "ch_owner_id ?c = ''w''"
    by (simp_all add: one_change_def np)
  have wrote: "for_each (ch_files ?c) (adopt_change example_hashes) (example_tree ''0'' ''0'') = (Inr (), example_tree ''1'' ''0'')"
    using example_adopt by (simp add: one_change_def example_hashes_def andthen_def bind_def)
  show ?thesis
    unfolding adopt_changeset_def adopt_in_worktree_def require_clean_canonical_def
    by (simp add: valid files bind_def andthen_def example_runs example_host_def example_wf in_directory_def wrote example_tracked
        strip_def py_space_def discard_worktree_def remove_tree_def with_cleanup_def rewrap_def Let_def)
qed

lemma adoption_commits_work_witness:
  "\<exists>t. adopt_changeset example_git example_hashes plain_builtins (one_change example_hashes ''w'' ''c0'' ''a'' (Some ''0'') ''1'')
     [example_lease ''w'' ''a'' ''c0''] None ''integration-1'' example_host = (Inr ''c1'', t) \<and>
     gv_head example_view (gh_repo t) = ''c0'' \<and> dget (gh_dirs t) ''integration-1'' = None \<and>
     gv_files example_view (gh_repo t) ''c1'' = Some (content (worktree_files (example_tree ''1'' ''0'')))"
proof -
  let ?c = "one_change example_hashes ''w'' ''c0'' ''a'' (Some ''0'') ''1''"
  let ?snap = "\<lparr>sn_revision = ''c0'', sn_files = [(''a'', ''0''), (''b'', ''0'')]\<rparr>"
  obtain t where t: "adopt_changeset example_git example_hashes plain_builtins ?c
     [example_lease ''w'' ''a'' ''c0''] None ''integration-1'' example_host = (Inr ''c1'', t)" using example_adopted by blast
  have base: "gv_files example_view (gh_repo example_host) (sn_revision ?snap) = Some (tracked_files (content (example_tree ''0'' ''0'')))"
    by (simp add: example_view_def example_host_def)
  have snap: "dget (sn_files ?snap) q = tracked_files (content (example_tree ''0'' ''0'')) q" for q
    using example_files by simp
  have work: "dget (gh_dirs example_host) ''w-1'' = Some (example_tree ''1'' ''0'')" by (simp add: example_host_def)
  have "worktree_files (example_tree ''1'' ''0'') = example_tree ''1'' ''0''" by (simp add: worktree_files_def example_tree_def)
  then have c: "git_create_changeset example_hashes (\<lambda>_ _ _. []) ''w'' ''w-1'' ?snap example_host = Inr ?c"
    using example_created [of "''a''" "''1''" "''0''" "''0''"]
    by (simp add: git_create_changeset_def git_owner_root_def example_host_def)
  have head: "gv_head example_view (gh_repo example_host) = ''c0''" by (simp add: example_view_def example_host_def)
  from adoption_commits_work [OF example_git_behaves base snap work example_wf c t] t head show ?thesis by auto
qed

end
