(* ===== verification/LocalWorkspaces.thy ===== *)
theory LocalWorkspaces
  imports GitWorkspaces
begin

text \<open>
  The owner workspaces of \<^verbatim>\<open>workspaces/local.py\<close>: copies of the canonical directory that workers write. In a git
  checkout (\<open>head\<close> is its revision) the copy is a worktree that git checks out, the parameter \<open>checkout\<close>.
  Removing a directory is one step of the operating system.
\<close>

record local_host =
  lh_canonical :: tree
  lh_dirs :: directories

text \<open>Where a path given as a workspace resolves to: the canonical directory, a name below the workspace root, or elsewhere.\<close>

datatype place = Canonical | Below string | Elsewhere

definition owner_root :: "place \<Rightarrow> local_host \<Rightarrow> string res" where
  "owner_root w h =
     (case w of
        Canonical \<Rightarrow> Inl CanonicalWriteRejected
      | Elsewhere \<Rightarrow> Inl (ValueError ''owner_workspace must be an adapter-created workspace'')
      | Below n \<Rightarrow> if dget (lh_dirs h) n = None
                  then Inl (ValueError ''owner_workspace must be an adapter-created workspace'') else Inr n)"

text \<open>Writing a file with \<^verbatim>\<open>mkdir(parents=True)\<close> and \<^verbatim>\<open>write_bytes\<close>, as in the integration of a change.\<close>

definition write_into :: "string \<times> string \<Rightarrow> (tree, unit) prog" where
  "write_into f =
     apply_change \<lparr>fc_path = fst f, fc_before_hash = None, fc_after_hash = None, fc_diff = [], fc_after_content = Some (snd f)\<rparr>"

text \<open>The files of a new workspace: those of the snapshot, or what \<^verbatim>\<open>git worktree add\<close> checks out.\<close>

definition fill_workspace :: "string option \<Rightarrow> (string \<Rightarrow> tree res) \<Rightarrow> workspace_snapshot \<Rightarrow> tree res" where
  "fill_workspace head checkout snap =
     (case head of
        None \<Rightarrow> (case for_each (sn_files snap) write_into empty_tree of (Inl e, _) \<Rightarrow> Inl e | (Inr _, t) \<Rightarrow> Inr t)
      | Some _ \<Rightarrow> checkout (sn_revision snap))"

definition create_owner_workspace ::
    "hashes \<Rightarrow> string option \<Rightarrow> (string \<Rightarrow> tree res) \<Rightarrow> string \<Rightarrow> workspace_snapshot \<Rightarrow> string \<Rightarrow> (local_host, string) prog" where
  "create_owner_workspace W head checkout owner snap unique =
     andthen (raise_when (owner = [] \<or> CHR ''/'' \<in> set owner \<or> CHR 0x5C \<in> set owner)
                (ValueError ''owner_id must be a simple non-empty name''))
    (bind (get (\<lambda>h. take_snapshot_of W head (lh_canonical h))) (\<lambda>r.
     bind (lift r) (\<lambda>current.
     andthen (raise_when (sn_revision current \<noteq> sn_revision snap) IntegrationConflict)
    (let target = owner @ ''-'' @ unique
     in bind (lift (fill_workspace head checkout snap)) (\<lambda>t.
        andthen (modify (lh_dirs_update (dput target t))) (ret target))))))"

definition bind_owner_workspace ::
    "hashes \<Rightarrow> string option \<Rightarrow> (string \<Rightarrow> tree res) \<Rightarrow> string \<Rightarrow> string option \<Rightarrow> string \<Rightarrow> (local_host, owner_workspace) prog" where
  "bind_owner_workspace W head checkout owner base unique =
     bind (get (\<lambda>h. take_snapshot_of W head (lh_canonical h))) (\<lambda>r.
     bind (lift r) (\<lambda>snap.
     andthen (raise_when (base \<noteq> None \<and> Some (sn_revision snap) \<noteq> base) IntegrationConflict)
    (bind (create_owner_workspace W head checkout owner snap unique) (\<lambda>path.
     ret \<lparr>ow_owner_id = owner, ow_path = path, ow_base_revision = sn_revision snap,
          ow_adapter_mode = (if head = None then ''copy'' else ''git-worktree'')\<rparr>))))"

definition write_file :: "place \<Rightarrow> string \<Rightarrow> string \<Rightarrow> (local_host, unit) prog" where
  "write_file w relative_path bytes =
     bind (get (owner_root w)) (\<lambda>r.
     bind (lift r) (\<lambda>n.
     bind (lift (normal_path relative_path)) (\<lambda>p.
     (\<lambda>h. case write_into (p, bytes) (the (dget (lh_dirs h) n)) of
        (x, t) \<Rightarrow> (x, h\<lparr>lh_dirs := dput n t (lh_dirs h)\<rparr>)))))"

definition local_create_changeset ::
    "hashes \<Rightarrow> (string \<Rightarrow> string option \<Rightarrow> string option \<Rightarrow> string) \<Rightarrow> string \<Rightarrow> place \<Rightarrow> workspace_snapshot \<Rightarrow>
     local_host \<Rightarrow> changeset res" where
  "local_create_changeset W diff owner w snap h =
     (case owner_root w h of
        Inl e \<Rightarrow> Inl e
      | Inr n \<Rightarrow> create_changeset W diff owner snap (the (dget (lh_dirs h) n)))"

text \<open>In a git checkout the worktree is given back to git first; its directory is removed also when git fails.\<close>

definition cleanup_owner_workspace :: "string option \<Rightarrow> unit res \<Rightarrow> place \<Rightarrow> (local_host, unit) prog" where
  "cleanup_owner_workspace head removed w =
     bind (get (owner_root w)) (\<lambda>r.
     bind (lift r) (\<lambda>n.
     andthen (modify (lh_dirs_update (dpop n)))
    (if head = None then ret () else lift removed)))"

section \<open>Workspaces are private copies\<close>

definition written :: "string \<times> string \<Rightarrow> file_change" where
  "written f = \<lparr>fc_path = fst f, fc_before_hash = None, fc_after_hash = None, fc_diff = [], fc_after_content = Some (snd f)\<rparr>"

lemma write_into_written: "write_into f = apply_change (written f)"
  by (simp add: write_into_def written_def)

lemma write_all: "for_each fs write_into t = for_each (map written fs) apply_change t"
  by (induction fs arbitrary: t) (simp_all add: write_into_written andthen_def bind_def split: prod.split sum.split)

lemma written_changed_to: "dwf d \<Longrightarrow> changed_to (map written d) q = map_option Some (dget d q)"
  by (induction d) (auto simp: changed_to_def written_def)

lemma copy_content:
  assumes t: "wf_tree t" and snap: "take_snapshot_of W head t = Inr sn"
    and run: "for_each (sn_files sn) write_into empty_tree = (Inr (), u)"
  shows "wf_tree u \<and> (\<forall>q. content u q = content t q)"
proof -
  obtain sn' where sn': "take_snapshot_of W head t = Inr sn'" "\<And>q. dget (sn_files sn') q = content t q"
    using take_snapshot_content [OF t] by blast
  then have get: "dget (sn_files sn) q = content t q" for q using snap by simp
  have dwf: "dwf (sn_files sn)" using snap by (auto simp: take_snapshot_of_def dest: files_of_dwf split: sum.splits)
  have "\<exists>p. wf_path p \<and> q = join_slash p" if "q \<in> set (dkeys (sn_files sn))" for q
    using that content_Some_join [OF t] get unfolding in_set_dkeys by metis
  then have good: "good_changes (map written (sn_files sn))"
    using dwf by (fastforce simp: good_changes_def written_def comp_def)
  have "wf_tree empty_tree" by (simp add: wf_tree_def empty_tree_def)
  from integration_step.steps_content [OF run [unfolded write_all] good this]
  show ?thesis using get dwf by (simp add: written_changed_to content_def empty_tree_def split: option.split)
qed

lemma normal_path_Inr:
  assumes "normal_path v = Inr q" and "CHR 0x00 \<notin> set v"
  obtains p where "wf_path p" and "q = join_slash p"
proof -
  let ?v = "map (\<lambda>c. if c = CHR 0x5C then CHR ''/'' else c) v"
  have parts: "set x \<subseteq> set acc \<union> (set y - {CHR ''/''})" if "x \<in> set (split_slash acc y)" for x acc y
    using that by (induction acc y rule: split_slash.induct) (fastforce split: if_splits)+
  from assms have q: "q = join_slash (path_parts ?v)" "path_parts ?v \<noteq> []" "''..'' \<notin> set (path_parts ?v)"
    "?v \<noteq> [] \<longrightarrow> hd ?v \<noteq> CHR ''/''" by (auto simp: normal_path_def Let_def split: if_splits)
  have "wf_part x" if x: "x \<in> set (path_parts ?v)" for x
  proof -
    from x q(4) have "x \<in> set (split_slash [] ?v)" "x \<noteq> []" "x \<noteq> ''.''"
      by (auto simp: path_parts_def Let_def split: if_splits)
    moreover from parts [OF this(1)] assms(2) have "CHR ''/'' \<notin> set x \<and> CHR 0x5C \<notin> set x \<and> CHR 0x00 \<notin> set x"
      by (auto split: if_splits)
    ultimately show ?thesis using q(3) x by (auto simp: wf_part_def)
  qed
  then show thesis using q that by (auto simp: wf_path_def)
qed

lemma create_owner_workspace_cases:
  "create_owner_workspace W head checkout owner snap unique h =
     (if owner = [] \<or> CHR ''/'' \<in> set owner \<or> CHR 0x5C \<in> set owner
      then (Inl (ValueError ''owner_id must be a simple non-empty name''), h)
      else case take_snapshot_of W head (lh_canonical h) of
          Inl e \<Rightarrow> (Inl e, h)
        | Inr current \<Rightarrow>
            if sn_revision current \<noteq> sn_revision snap then (Inl IntegrationConflict, h)
            else case fill_workspace head checkout snap of
                Inl e \<Rightarrow> (Inl e, h)
              | Inr u \<Rightarrow> (Inr (owner @ ''-'' @ unique), lh_dirs_update (dput (owner @ ''-'' @ unique) u) h))"
  by (simp add: create_owner_workspace_def Let_def bind_def andthen_def raise_when_def split: sum.split)

lemma bind_owner_workspace_Inr:
  assumes "bind_owner_workspace W head checkout owner base unique h = (Inr ow, h')"
  obtains sn u where "take_snapshot_of W head (lh_canonical h) = Inr sn"
    and "base = None \<or> base = Some (sn_revision sn)"
    and "case head of None \<Rightarrow> for_each (sn_files sn) write_into empty_tree = (Inr (), u) | Some _ \<Rightarrow> checkout (sn_revision sn) = Inr u"
    and "h' = lh_dirs_update (dput (owner @ ''-'' @ unique) u) h" and "ow_path ow = owner @ ''-'' @ unique"
    and "ow_base_revision ow = sn_revision sn" and "ow_owner_id ow = owner"
proof -
  from assms obtain sn where sn: "take_snapshot_of W head (lh_canonical h) = Inr sn"
      "base = None \<or> base = Some (sn_revision sn)"
    and made: "create_owner_workspace W head checkout owner sn unique h = (Inr (ow_path ow), h')"
    and ow: "ow_base_revision ow = sn_revision sn" "ow_owner_id ow = owner"
    by (auto simp: bind_owner_workspace_def prog_simps split: if_splits)
  note run = made [unfolded create_owner_workspace_cases sn(1) sum.case]
  show thesis
  proof (cases "fill_workspace head checkout sn")
    case (Inl e)
    then show thesis using run by (simp split: if_splits)
  next
    case (Inr u)
    then have "(Inr (owner @ ''-'' @ unique), lh_dirs_update (dput (owner @ ''-'' @ unique) u) h) = (Inr (ow_path ow) :: string res, h')"
      using run unfolding Inr sum.case
      by (cases "owner = [] \<or> CHR ''/'' \<in> set owner \<or> CHR 0x5C \<in> set owner")
        (simp_all only: if_True if_False not_True_eq_False prod.inject sum.distinct simp_thms)
    then have "h' = lh_dirs_update (dput (owner @ ''-'' @ unique) u) h \<and> ow_path ow = owner @ ''-'' @ unique"
      by (metis prod.inject sum.inject(2))
    moreover have "case head of None \<Rightarrow> for_each (sn_files sn) write_into empty_tree = (Inr (), u) | Some _ \<Rightarrow> checkout (sn_revision sn) = Inr u"
      using Inr by (cases head) (simp_all add: fill_workspace_def split: prod.splits sum.splits)
    ultimately show thesis using that [OF sn _ _ _ ow] by blast
  qed
qed

lemma write_file_cases:
  "write_file w path bytes h =
     (case owner_root w h of Inl e \<Rightarrow> (Inl e, h)
      | Inr n \<Rightarrow> (case normal_path path of Inl e \<Rightarrow> (Inl e, h)
         | Inr p \<Rightarrow> (case write_into (p, bytes) (the (dget (lh_dirs h) n)) of
             (x, t) \<Rightarrow> (x, h\<lparr>lh_dirs := dput n t (lh_dirs h)\<rparr>))))"
  by (simp add: write_file_def prog_simps split: sum.split)

lemma owner_root_Inr: "owner_root w h = Inr n \<longleftrightarrow> w = Below n \<and> dget (lh_dirs h) n \<noteq> None"
  by (cases w) (auto simp: owner_root_def)



end
