(* ===== verification/Spec2Isabelle.thy ===== *)
theory Spec2Isabelle
  imports StateMachine InstanceLock Leases Ownership Manager Completion Approvals Supervisor Routing Manifests Evaluation Plugins Lifespan LocalWorkspaces
begin

text \<open>
  ValueRoute is a local control plane for coding agents. A host registers a controller session, hands
  it a task, and the controller splits the task into child tasks for workers. The program keeps all
  of this in one journaled store and decides who may write what, what counts as evidence, in which
  order the changes of the workers are integrated, and when the task is complete.

  \<^bold>\<open>How the parts interact.\<close> Every durable change is an event. A service checks its guards
  against the dictionaries of the store (\<^verbatim>\<open>storage/store.py\<close>), changes them, and commits the event to the
  journal (\<^verbatim>\<open>storage/journal.py\<close>); a new process replays the journal into the dictionaries. The HTTP
  handlers of \<^verbatim>\<open>api/app.py\<close> call the services under an idempotency key.

  \<^bold>\<open>Theories and the code they model\<close> (paths under \<^verbatim>\<open>src/valueroute\<close>):
  \<^item> Prelude: errors as values, programs \<open>'s \<Rightarrow> (exn + 'a) \<times> 's\<close> with \<open>bind\<close>, \<open>rewrap\<close> (an except clause)
    and \<open>for_each\<close>, the invariant calculus \<open>keeps\<close>, insertion-ordered dictionaries.
  \<^item> Models, RoutingModels: \<^verbatim>\<open>domain/models.py\<close>, \<^verbatim>\<open>routing/models.py\<close> and the types of other modules.
  \<^item> PyValues: the JSON values of region selectors. Settings: \<^verbatim>\<open>settings.py\<close>.
  \<^item> StateMachine: \<^verbatim>\<open>domain/state_machine.py\<close>.
  \<^item> Journal: \<^verbatim>\<open>storage/journal.py\<close>, over a disk whose writes may stop halfway. InstanceLock: its lock of the data directory,
    as interleaved steps of threads and processes.
  \<^item> Store: \<^verbatim>\<open>storage/store.py\<close>. Its invariant \<open>consistent\<close> says that replaying the journal gives the
    dictionaries; \<open>restart\<close> is a new process on the same directory.
  \<^item> Artifacts, Checkpoints: \<^verbatim>\<open>storage/artifacts.py\<close>, \<^verbatim>\<open>storage/checkpoints.py\<close>.
  \<^item> Regions, Leases: the overlap and containment of regions, \<^verbatim>\<open>ownership/manager.py\<close>.
  \<^item> Ownership, Evidence: \<^verbatim>\<open>ownership/boundaries.py\<close>, \<^verbatim>\<open>ownership/persistence.py\<close>, \<^verbatim>\<open>ownership/review.py\<close>,
    \<^verbatim>\<open>evidence/gate.py\<close>, \<^verbatim>\<open>evidence/verifier.py\<close>.
  \<^item> Queues, Execution, Manager: an abstract queue, \<^verbatim>\<open>execution/queue.py\<close>, \<^verbatim>\<open>execution/claims.py\<close>,
    \<^verbatim>\<open>execution/manager.py\<close>, \<^verbatim>\<open>execution/admission.py\<close>, \<^verbatim>\<open>execution/coordination.py\<close>.
  \<^item> Workspaces, Integration: \<^verbatim>\<open>workspaces/local.py\<close>, \<^verbatim>\<open>ownership/resolver.py\<close>, \<^verbatim>\<open>integration/queue.py\<close>,
    \<^verbatim>\<open>integration/service.py\<close>.
  \<^item> Completion, Approvals, Application: \<^verbatim>\<open>integration/parent_verification.py\<close>, \<^verbatim>\<open>approvals/service.py\<close>,
    \<^verbatim>\<open>application/service.py\<close>, \<^verbatim>\<open>application/control.py\<close>, with the handlers of \<^verbatim>\<open>api/app.py\<close> that use them.
  \<^item> Triples, Runner, Supervisor: a weakest-precondition calculus for programs, \<^verbatim>\<open>execution/runner.py\<close> and
    \<^verbatim>\<open>execution/supervisor.py\<close>; the provider and what runs beside an await are the record \<open>run_world\<close>. The
    loops are partial functions: \<open>None\<close> is a loop that does not end.
  \<^item> Routing, Controllers: \<^verbatim>\<open>routing/boundary.py\<close>, \<^verbatim>\<open>routing/profiler.py\<close>, \<^verbatim>\<open>routing/advisory.py\<close>,
    \<^verbatim>\<open>routing/shadow.py\<close>, \<^verbatim>\<open>routing/service.py\<close>; \<^verbatim>\<open>routing/rank.py\<close>, \<^verbatim>\<open>routing/automatic.py\<close>.
  \<^item> Egress, Observability: \<^verbatim>\<open>egress\<close>; \<^verbatim>\<open>observability/events.py\<close> and \<^verbatim>\<open>observability/usage.py\<close>.
  \<^item> Texts, Api: the white space and the lines of a text; the idempotency key, the mapping of errors to answers
    and the handlers of \<^verbatim>\<open>api/app.py\<close> that are not with their component. Schemas: the bodies of the requests
    (\<^verbatim>\<open>api/schemas.py\<close>) as readers of JSON values that collect the issues. TraceUi: \<^verbatim>\<open>api/trace_ui.py\<close>.
  \<^item> Serving, Starting: the answers of \<^verbatim>\<open>api/app.py\<close>; the control and the start of a task by a host, from the body of each
    request to the handle of the host. What an HTTP client does with a request is the hypothesis \<open>carries\<close>.
    Lifespan: \<^verbatim>\<open>create_app\<close> from the environment, the life span with the loop of the supervisor, \<^verbatim>\<open>main.py\<close>.
  \<^item> GitWorkspaces, LocalWorkspaces: \<^verbatim>\<open>workspaces/git.py\<close>, where git is the parameter \<open>git\<close> and \<open>git_behaves\<close> says what
    is relied on; the owner workspaces of \<^verbatim>\<open>workspaces/local.py\<close>.
  \<^item> Hosts, Providers: \<^verbatim>\<open>frameworks/agentscope/adapter.py\<close> over an HTTP client, composed with the stream of Observability;
    \<^verbatim>\<open>providers/openai/adapter.py\<close> over the record \<open>provider_world\<close>.
  \<^item> Manifests, Plugins: \<^verbatim>\<open>routing/manifest.py\<close>; \<^verbatim>\<open>plugins\<close>. Evaluation: \<^verbatim>\<open>scripts/evaluate_offline.py\<close>.

  \<^bold>\<open>Conventions.\<close> An operation of a service is a program on the record of its state; a raised
  exception is \<open>Inl\<close> and leaves the state as the code leaves it at that point, so that what a failed
  commit leaves behind is visible. Identifiers, times and the bytes of a file are arguments. Digests,
  byte lengths and \<^verbatim>\<open>repr\<close> are parameters (\<open>hashing\<close>, \<open>checkpoint_codec\<close>, \<open>hashes\<close>, \<open>builtins\<close>). Times and
  Python integers are \<open>int\<close>, texts are \<open>string\<close>. A request with its key is the
  argument \<open>idem\<close>; a replayed one is answered by its stored event.

  \<^bold>\<open>Interfaces.\<close> The locales are \<open>commit_log\<close> (a projection kept beside a log, interpreted by the store
  and by the ownership service), \<open>containment\<close>, the queue specification of Queues and
  \<open>change_step\<close> (a step that makes one change of a directory, interpreted by the integration of the local and
  the adoption of the git adapter) and \<open>workspace_port\<close> (what an integration relies on, interpreted by the local directory).

  \<^bold>\<open>What is shown.\<close> An acknowledged event is found after a restart and a failed append leaves all or
  nothing; active leases never overlap, a permitted write stays inside its boundary; attempts are
  served in order, claimed exclusively and resumed from safe checkpoints only; change sets are
  integrated in the order of the plan, within the leases, without losing an update outside git; a
  task is completed only on the evidence it requires, and moves by its state machine under verify and
  control requests, which the next process finds; an approval is decided once. A run settles
  its attempt and reports success only for a provider that returned, and draining the queue ends. Advice to
  delegate is given exactly when it can be justified; the automatic controller stays until it is switched while
  nothing runs; a host that starts a task has the handle of a running one, its controls reach the store and it knows what they did; what leaves for another provider is permitted and recorded; a client resumes the event
  stream without a gap or a repetition. A workspace is a private copy, an adoption commits exactly the files of
  the worker, and a retried request is answered by its first answer. One instance at a time has a data directory.
  A host that subscribes receives exactly the events the server streams; an accepted body satisfies the constraints of the models it is
  made into; a provider call ends within its retries and leaves nothing in flight; the trace page shows the texts of the store and
  lets none of them become markup. Where the code departs
  from what its documentation says, the theorem states what it does.

  \<^bold>\<open>Bounds and fuel.\<close> No definition has fuel: the loops of the runner and the supervisor are partial functions
  whose termination is a theorem where they end, and the retries of a provider call end by a measure.

  \<^bold>\<open>Not modelled.\<close> The operating system under the adapters (copying a tree is one step, the file lock is exclusive by the step
  that takes it), git itself, the HTTP clients and asyncio (parameters of the definitions that use them), and the JSON and SHA libraries.
  Of the HTTP interface, the models of the other answers, which only wrap a result, and the routing of a path to its handler. The measurement scripts
  and the example time or call the modelled components. The schema of the protocols of \<^verbatim>\<open>plugins/contracts.py\<close> beyond
  the names of their members has no effect at run time.
\<close>

end
